(* ===== verification/Prelude.thy ===== *)
theory Prelude
  imports Main "HOL-Library.Word"
begin

section \<open>Prelude: what the components share\<close>

text \<open>
  This theory holds what the models of several components use and what is not code of the
  repository itself: the standard library's hash maps and hash sets keyed by a user-defined
  equality, state-threading and fallible traversals of lists (\<open>Iterator::map\<close> with a
  \<open>&mut self\<close> closure, \<open>collect::<Result<_, _>>\<close>), decimal printing of integers, and the
  generic lemmas on lists and finite graphs that the component proofs rest on.

  Conventions of the whole development:
  \<^item> \<open>assert!\<close>, \<open>unreachable!\<close>, \<open>unwrap\<close> on \<open>None\<close> and out-of-range indexing are panics and are
    values of the model (\<open>None\<close>, or a constructor of an error type); logging and tracing are not
    modelled, and \<open>debug_assert!\<close>, absent from release builds, only where a theory says so;
  \<^item> a Rust \<open>String\<close> is a \<open>string\<close>; \<open>usize\<close> indices into vectors are \<open>nat\<close>;
  \<^item> a \<open>HashMap\<close> keyed by a type with a derived (structural) equality is a HOL map; one keyed by
    VIR expressions, whose equality ignores positions, is an association list with the lookup
    below.  Theorems about them do not depend on the iteration order, which Rust leaves open.
\<close>

named_theorems vir_simps \<open>per-constructor equations of the VIR traversals\<close>
named_theorems hm_simps \<open>lookup laws of the equality-keyed hash maps\<close>

subsection \<open>Association lists with a user-defined equality\<close>

text \<open>
  \<open>HashMap<K, V>\<close> for a key type with a hand-written \<open>PartialEq\<close>.  As in Rust, inserting under
  a key that is already present replaces the value and keeps the old key.
\<close>

type_synonym ('k, 'v) hmap = "('k \<times> 'v) list"

fun hm_get :: "('k \<Rightarrow> 'k \<Rightarrow> bool) \<Rightarrow> ('k, 'v) hmap \<Rightarrow> 'k \<Rightarrow> 'v option" where
  "hm_get eq [] k = None"
| "hm_get eq ((k', v) # m) k = (if eq k' k then Some v else hm_get eq m k)"

definition hm_contains :: "('k \<Rightarrow> 'k \<Rightarrow> bool) \<Rightarrow> ('k, 'v) hmap \<Rightarrow> 'k \<Rightarrow> bool" where
  "hm_contains eq m k \<longleftrightarrow> hm_get eq m k \<noteq> None"

fun hm_insert :: "('k \<Rightarrow> 'k \<Rightarrow> bool) \<Rightarrow> ('k, 'v) hmap \<Rightarrow> 'k \<Rightarrow> 'v \<Rightarrow> ('k, 'v) hmap" where
  "hm_insert eq [] k v = [(k, v)]"
| "hm_insert eq ((k', v') # m) k v =
     (if eq k' k then (k', v) # m else (k', v') # hm_insert eq m k v)"

definition hm_remove :: "('k \<Rightarrow> 'k \<Rightarrow> bool) \<Rightarrow> ('k, 'v) hmap \<Rightarrow> 'k \<Rightarrow> ('k, 'v) hmap" where
  "hm_remove eq m k = filter (\<lambda>(k', _). \<not> eq k' k) m"

definition hm_retain :: "('k \<Rightarrow> bool) \<Rightarrow> ('k, 'v) hmap \<Rightarrow> ('k, 'v) hmap" where
  "hm_retain P m = filter (\<lambda>(k, _). P k) m"

definition hm_keys :: "('k, 'v) hmap \<Rightarrow> 'k list" where
  "hm_keys m = map fst m"

fun hm_extend :: "('k \<Rightarrow> 'k \<Rightarrow> bool) \<Rightarrow> ('k, 'v) hmap \<Rightarrow> ('k, 'v) hmap \<Rightarrow> ('k, 'v) hmap" where
  "hm_extend eq m [] = m"
| "hm_extend eq m ((k, v) # ys) = hm_extend eq (hm_insert eq m k v) ys"

text \<open>No two entries under equal keys: what a hash map keeps.\<close>

fun hm_wf :: "('k \<Rightarrow> 'k \<Rightarrow> bool) \<Rightarrow> ('k, 'v) hmap \<Rightarrow> bool" where
  "hm_wf eq [] = True"
| "hm_wf eq ((k, _) # m) = (eq k k \<and> (\<forall>k' \<in> set (map fst m). \<not> eq k k') \<and> hm_wf eq m)"

definition hs_member :: "('k \<Rightarrow> 'k \<Rightarrow> bool) \<Rightarrow> 'k list \<Rightarrow> 'k \<Rightarrow> bool" where
  "hs_member eq xs x \<longleftrightarrow> list_ex (\<lambda>y. eq y x) xs"

definition hs_insert :: "('k \<Rightarrow> 'k \<Rightarrow> bool) \<Rightarrow> 'k \<Rightarrow> 'k list \<Rightarrow> 'k list" where
  "hs_insert eq x xs = (if hs_member eq xs x then xs else xs @ [x])"

text \<open>
  The law the hash maps rely on.  Rust's \<open>PartialEq\<close> asks for symmetry and transitivity only,
  and that is what the equality of VIR expressions has: the interface is a partial
  equivalence, and the lemmas ask for reflexivity at the key they are about.
\<close>

locale partial_equiv =
  fixes eq :: "'k \<Rightarrow> 'k \<Rightarrow> bool"
  assumes eq_sym: "eq x y \<Longrightarrow> eq y x"
    and eq_trans: "eq x y \<Longrightarrow> eq y z \<Longrightarrow> eq x z"
begin

lemma eq_commute: "eq x y = eq y x"
  using eq_sym by blast

lemma eq_reflD: "eq x y \<Longrightarrow> eq x x" "eq x y \<Longrightarrow> eq y y"
  using eq_sym eq_trans by blast+

lemma get_cong: "eq k k' \<Longrightarrow> hm_get eq m k = hm_get eq m k'"
proof (induction m)
  case (Cons kv m)
  obtain a b where kv: "kv = (a, b)" by (cases kv)
  have "eq a k = eq a k'" using Cons.prems eq_sym eq_trans by blast
  then show ?case using Cons kv by simp
qed simp

lemma get_insert [hm_simps]:
  "eq k k \<Longrightarrow> hm_get eq (hm_insert eq m k v) k' = (if eq k k' then Some v else hm_get eq m k')"
proof (induction m)
  case (Cons kv m)
  obtain a b where kv: "kv = (a, b)" by (cases kv)
  show ?case
  proof (cases "eq a k")
    case True
    then have "eq a k' = eq k k'" using eq_sym eq_trans by blast
    then show ?thesis using True kv by simp
  next
    case False
    then have "eq k k' \<Longrightarrow> \<not> eq a k'" using eq_sym eq_trans by blast
    then show ?thesis using Cons False kv by auto
  qed
qed simp

lemma get_filter_other:
  "(\<And>x. eq x k \<Longrightarrow> P x) \<Longrightarrow> hm_get eq (filter (\<lambda>(x, _). P x) m) k = hm_get eq m k"
  by (induction m) auto

lemma get_filter_none:
  "(\<And>x. eq x k \<Longrightarrow> \<not> P x) \<Longrightarrow> hm_get eq (filter (\<lambda>(x, _). P x) m) k = None"
  by (induction m) auto

lemma get_remove [hm_simps]:
  "hm_get eq (hm_remove eq m k) k' = (if eq k k' then None else hm_get eq m k')"
proof (cases "eq k k'")
  case True
  have "\<And>x. eq x k' \<Longrightarrow> eq x k" using True eq_sym eq_trans by blast
  then show ?thesis
    unfolding hm_remove_def using True get_filter_none [of k' "\<lambda>x. \<not> eq x k" m] by auto
next
  case False
  have "\<And>x. eq x k' \<Longrightarrow> \<not> eq x k" using False eq_sym eq_trans by blast
  then show ?thesis
    unfolding hm_remove_def using False get_filter_other [of k' "\<lambda>x. \<not> eq x k" m] by auto
qed

lemma get_Some_key: "hm_get eq m k = Some v \<Longrightarrow> \<exists>k'. (k', v) \<in> set m \<and> eq k' k"
  by (induction m) (auto split: if_splits)

lemma get_eq_None_iff: "hm_get eq m k = None \<longleftrightarrow> (\<forall>(k', v) \<in> set m. \<not> eq k' k)"
  by (induction m) (auto split: if_splits)

lemma keys_insert_subset: "set (map fst (hm_insert eq m k v)) \<subseteq> insert k (set (map fst m))"
proof (induction m)
  case (Cons kv m)
  then show ?case by (cases kv) auto
qed simp

lemma wf_insert: "eq k k \<Longrightarrow> hm_wf eq m \<Longrightarrow> hm_wf eq (hm_insert eq m k v)"
proof (induction m)
  case (Cons kv m)
  obtain a b where kv: "kv = (a, b)" by (cases kv)
  have "\<forall>k' \<in> set (map fst (hm_insert eq m k v)). k' = k \<or> k' \<in> set (map fst m)"
    using keys_insert_subset [of m k v] by blast
  then have "\<not> eq a k \<Longrightarrow> hm_wf eq (kv # m) \<Longrightarrow> \<forall>k' \<in> set (map fst (hm_insert eq m k v)). \<not> eq a k'"
    using kv by fastforce
  then show ?case using Cons kv by (cases "eq a k") auto
qed simp

lemma wf_filter: "hm_wf eq m \<Longrightarrow> hm_wf eq (filter P m)"
  by (induction m) auto

lemma wf_remove: "hm_wf eq m \<Longrightarrow> hm_wf eq (hm_remove eq m k)"
  by (simp add: hm_remove_def wf_filter)

lemma wf_retain: "hm_wf eq m \<Longrightarrow> hm_wf eq (hm_retain P m)"
  by (simp add: hm_retain_def wf_filter)

lemma wf_get_member: "hm_wf eq m \<Longrightarrow> (k, v) \<in> set m \<Longrightarrow> hm_get eq m k = Some v"
proof (induction m)
  case (Cons kv m)
  obtain a b where kv: "kv = (a, b)" by (cases kv)
  show ?case
  proof (cases "(k, v) = (a, b)")
    case True
    then show ?thesis using Cons.prems kv by simp
  next
    case False
    then have mem: "(k, v) \<in> set m" using Cons.prems(2) kv by auto
    then have "k \<in> set (map fst m)" by force
    then have "\<not> eq a k" using Cons.prems kv by auto
    then show ?thesis using Cons mem kv by simp
  qed
qed simp

lemma member_insert: "eq x x \<Longrightarrow> hs_member eq (hs_insert eq x xs) y = (eq x y \<or> hs_member eq xs y)"
proof (cases "hs_member eq xs x")
  case True
  then have "eq x y \<Longrightarrow> hs_member eq xs y"
    unfolding hs_member_def list_ex_iff using eq_trans by blast
  then show ?thesis using True by (auto simp: hs_insert_def)
next
  case False
  then show ?thesis by (auto simp: hs_insert_def hs_member_def)
qed

lemma member_cong: "eq x y \<Longrightarrow> hs_member eq xs x = hs_member eq xs y"
  unfolding hs_member_def list_ex_iff using eq_sym eq_trans by blast

end

subsection \<open>Traversals that thread a state, and traversals that can fail\<close>

fun mapS :: "('a \<Rightarrow> 's \<Rightarrow> 'b \<times> 's) \<Rightarrow> 'a list \<Rightarrow> 's \<Rightarrow> 'b list \<times> 's" where
  "mapS f [] s = ([], s)"
| "mapS f (x # xs) s =
     (let (y, s1) = f x s; (ys, s2) = mapS f xs s1 in (y # ys, s2))"

lemma mapS_cong [fundef_cong]:
  "xs = ys \<Longrightarrow> s = t \<Longrightarrow> (\<And>x u. x \<in> set ys \<Longrightarrow> f x u = g x u) \<Longrightarrow> mapS f xs s = mapS g ys t"
  by (induction xs arbitrary: ys s t) (auto split: prod.splits)

lemma mapS_pure [simp]: "mapS (\<lambda>x s. (f x, s)) xs s = (map f xs, s)"
  by (induction xs arbitrary: s) auto

lemma mapS_length: "mapS f xs s = (ys, t) \<Longrightarrow> length ys = length xs"
  by (induction xs arbitrary: s ys t) (auto split: prod.splits)

fun mapR :: "('a \<Rightarrow> 's \<Rightarrow> 'e + 'b \<times> 's) \<Rightarrow> 'a list \<Rightarrow> 's \<Rightarrow> 'e + 'b list \<times> 's" where
  "mapR f [] s = Inr ([], s)"
| "mapR f (x # xs) s =
     (case f x s of Inl e \<Rightarrow> Inl e
      | Inr (y, s1) \<Rightarrow>
          (case mapR f xs s1 of Inl e \<Rightarrow> Inl e | Inr (ys, s2) \<Rightarrow> Inr (y # ys, s2)))"

lemma mapR_cong [fundef_cong]:
  "xs = ys \<Longrightarrow> s = t \<Longrightarrow> (\<And>x u. x \<in> set ys \<Longrightarrow> f x u = g x u) \<Longrightarrow> mapR f xs s = mapR g ys t"
proof (induction xs arbitrary: ys s t)
  case (Cons x xs)
  have "f x s = g x s" using Cons.prems by auto
  moreover have "mapR f xs u = mapR g xs u" for u using Cons by auto
  ultimately show ?case using Cons.prems by (auto split: sum.splits)
qed auto

text \<open>The fallible traversal with no state.\<close>

fun mapE :: "('a \<Rightarrow> 'e + 'b) \<Rightarrow> 'a list \<Rightarrow> 'e + 'b list" where
  "mapE f [] = Inr []"
| "mapE f (x # xs) =
     (case f x of Inl e \<Rightarrow> Inl e
      | Inr y \<Rightarrow> (case mapE f xs of Inl e \<Rightarrow> Inl e | Inr ys \<Rightarrow> Inr (y # ys)))"

lemma mapE_cong [fundef_cong]:
  "xs = ys \<Longrightarrow> (\<And>x. x \<in> set ys \<Longrightarrow> f x = g x) \<Longrightarrow> mapE f xs = mapE g ys"
  by (induction xs arbitrary: ys) (auto split: sum.splits)

lemma mapE_Inr_iff: "mapE f xs = Inr ys \<longleftrightarrow> list_all2 (\<lambda>x y. f x = Inr y) xs ys"
proof (induction xs arbitrary: ys)
  case (Cons x xs)
  show ?case
    by (cases "f x"; cases "mapE f xs") (auto simp: list_all2_Cons1 Cons.IH [symmetric])
qed auto

text \<open>Traversals whose only failure is a panic: \<open>None\<close>.\<close>

fun mapO :: "('a \<Rightarrow> 'b option) \<Rightarrow> 'a list \<Rightarrow> 'b list option" where
  "mapO f [] = Some []"
| "mapO f (x # xs) =
     (case f x of None \<Rightarrow> None
      | Some y \<Rightarrow> (case mapO f xs of None \<Rightarrow> None | Some ys \<Rightarrow> Some (y # ys)))"

lemma mapE_Inr_set: "mapE f xs = Inr ys \<Longrightarrow> y \<in> set ys \<Longrightarrow> \<exists>x \<in> set xs. f x = Inr y"
  unfolding mapE_Inr_iff by (induction rule: list_all2_induct) auto

lemma map_sum_Inr_iff: "map_sum id g x = Inr y \<longleftrightarrow> (\<exists>z. x = Inr z \<and> y = g z)"
  by (cases x) auto

lemma fold_concat: "fold f (concat xss) s = fold (fold f) xss s"
  by (induction xss arbitrary: s) simp_all

lemma mapO_cong [fundef_cong]:
  "xs = ys \<Longrightarrow> (\<And>x. x \<in> set ys \<Longrightarrow> f x = g x) \<Longrightarrow> mapO f xs = mapO g ys"
  by (induction xs arbitrary: ys) (auto split: option.splits)

lemma mapO_total: "(\<And>x. x \<in> set xs \<Longrightarrow> f x = Some (g x)) \<Longrightarrow> mapO f xs = Some (map g xs)"
  by (induction xs) auto

lemma mapO_Some_set: "mapO f xs = Some ys \<Longrightarrow> y \<in> set ys \<Longrightarrow> \<exists>x \<in> set xs. f x = Some y"
  by (induction xs arbitrary: ys) (auto split: option.splits)

lemma mapO_length: "mapO f xs = Some ys \<Longrightarrow> length ys = length xs"
  by (induction xs arbitrary: ys) (auto split: option.splits)

lemma mapO_nth: "mapO f xs = Some ys \<Longrightarrow> i < length xs \<Longrightarrow> f (xs ! i) = Some (ys ! i)"
  by (induction xs arbitrary: ys i) (auto simp: nth_Cons' split: option.splits)

subsection \<open>Decimal printing\<close>

text \<open>\<open>to_string\<close> of Rust's integers: decimal digits, a leading minus for negative values.\<close>

definition digit_char :: "nat \<Rightarrow> char" where
  "digit_char d = char_of (48 + d)"

fun nat_to_string :: "nat \<Rightarrow> string" where
  "nat_to_string n =
     (if n < 10 then [digit_char n] else nat_to_string (n div 10) @ [digit_char (n mod 10)])"

declare nat_to_string.simps [simp del]

definition int_to_string :: "int \<Rightarrow> string" where
  "int_to_string i =
     (if i < 0 then CHR ''-'' # nat_to_string (nat (- i)) else nat_to_string (nat i))"

text \<open>The reading of a decimal string, used to state that printing loses nothing.\<close>

definition digits_value :: "string \<Rightarrow> nat" where
  "digits_value s = foldl (\<lambda>acc c. 10 * acc + (of_char c - 48)) 0 s"

definition int_value :: "string \<Rightarrow> int" where
  "int_value s = (case s of [] \<Rightarrow> 0
     | c # cs \<Rightarrow> (if c = CHR ''-'' then - int (digits_value cs) else int (digits_value s)))"

lemma of_char_digit_char: "d < 10 \<Longrightarrow> (of_char (digit_char d) :: nat) = 48 + d"
  by (simp add: digit_char_def)

lemma digits_value_snoc: "digits_value (s @ [c]) = 10 * digits_value s + (of_char c - 48)"
  by (simp add: digits_value_def)

lemma digits_value_nat_to_string: "digits_value (nat_to_string n) = n"
proof (induction n rule: nat_to_string.induct)
  case (1 n)
  show ?case
  proof (cases "n < 10")
    case True
    then show ?thesis
      by (subst nat_to_string.simps) (simp add: digits_value_def of_char_digit_char)
  next
    case False
    then have "digits_value (nat_to_string (n div 10)) = n div 10" using 1 by simp
    then show ?thesis
      using False
      by (subst nat_to_string.simps) (simp add: digits_value_snoc of_char_digit_char)
  qed
qed

lemma nat_to_string_digits: "c \<in> set (nat_to_string n) \<Longrightarrow> \<exists>d<10. c = digit_char d"
proof (induction n rule: nat_to_string.induct)
  case (1 n)
  show ?case
  proof (cases "n < 10")
    case True
    then show ?thesis using "1.prems" by (auto simp: nat_to_string.simps [of n])
  next
    case False
    then show ?thesis
      using 1 by (auto simp: nat_to_string.simps [of n] intro: exI [of _ "n mod 10"])
  qed
qed

lemma digit_char_ne_minus: "d < 10 \<Longrightarrow> digit_char d \<noteq> CHR ''-''"
proof
  assume d: "d < 10" and eq: "digit_char d = CHR ''-''"
  have "(of_char (digit_char d) :: nat) = of_char (CHR ''-'')" using eq by simp
  then show False using of_char_digit_char [OF d] by simp
qed

lemma nat_to_string_nonempty: "nat_to_string n \<noteq> []"
  by (subst nat_to_string.simps) simp

lemma int_value_int_to_string: "int_value (int_to_string i) = i"
proof (cases "i < 0")
  case True
  then show ?thesis
    by (simp add: int_to_string_def int_value_def digits_value_nat_to_string)
next
  case False
  obtain c cs where s: "nat_to_string (nat i) = c # cs"
    using nat_to_string_nonempty by (cases "nat_to_string (nat i)") auto
  then have "c \<noteq> CHR ''-''"
    using nat_to_string_digits [of c "nat i"] digit_char_ne_minus by auto
  then show ?thesis
    using False s digits_value_nat_to_string [of "nat i"]
    by (simp add: int_to_string_def int_value_def)
qed

lemma nat_to_string_inj: "nat_to_string m = nat_to_string n \<Longrightarrow> m = n"
  by (metis digits_value_nat_to_string)

lemma int_to_string_inj: "int_to_string i = int_to_string j \<Longrightarrow> i = j"
  by (metis int_value_int_to_string)

subsection \<open>Strings\<close>

definition starts_with :: "string \<Rightarrow> string \<Rightarrow> bool" where
  "starts_with s p \<longleftrightarrow> take (length p) s = p"

fun join_strings :: "string \<Rightarrow> string list \<Rightarrow> string" where
  "join_strings sep [] = []"
| "join_strings sep [s] = s"
| "join_strings sep (s # t # ss) = s @ sep @ join_strings sep (t # ss)"

lemma starts_with_append [simp]: "starts_with (p @ s) p"
  by (simp add: starts_with_def)

lemma starts_withD: "starts_with s p \<Longrightarrow> s = p @ drop (length p) s"
  by (metis append_take_drop_id starts_with_def)

subsection \<open>Lists and finite sets\<close>

lemma distinct_subset_length: "distinct xs \<Longrightarrow> set xs \<subseteq> {..<n} \<Longrightarrow> length xs \<le> n"
  by (metis card_lessThan card_mono distinct_card finite_lessThan)

lemma distinct_full: "distinct xs \<Longrightarrow> set xs \<subseteq> {..<n} \<Longrightarrow> length xs = n \<Longrightarrow> set xs = {..<n}"
  by (metis card_lessThan card_subset_eq distinct_card finite_lessThan)

text \<open>A set closed under a relation holds everything reachable from it.\<close>

lemma closed_rtrancl:
  "x \<in> X \<Longrightarrow> (x, y) \<in> r\<^sup>* \<Longrightarrow> (\<And>a b. a \<in> X \<Longrightarrow> (a, b) \<in> r \<Longrightarrow> b \<in> X) \<Longrightarrow> y \<in> X"
proof -
  assume x: "x \<in> X" and xy: "(x, y) \<in> r\<^sup>*"
    and cl: "\<And>a b. a \<in> X \<Longrightarrow> (a, b) \<in> r \<Longrightarrow> b \<in> X"
  from xy show "y \<in> X"
    by (induction rule: rtrancl_induct) (use x cl in auto)
qed

end
