(* ===== verification/Vir_Common.thy ===== *)
theory Vir_Common
  imports Prelude
begin

section \<open>Common data of the VIR: positions, permission amounts, types\<close>

text \<open>
  The model of \<^verbatim>\<open>prusti-common/src/vir/ast/common.rs\<close>, of the borrow identifiers of
  \<^verbatim>\<open>vir/borrows.rs\<close>, of enum variant indices (\<^verbatim>\<open>ast/predicate.rs\<close>) and of the domain functions that
  expressions mention (\<^verbatim>\<open>ast/domain.rs\<close>).  The equality of types is hand-written in the source and
  compares discriminants only; it is the function \<open>type_eq\<close> here, and the equalities of local
  variables, fields and domain functions, which the source derives, are built from it.
\<close>

subsection \<open>Positions\<close>

record position =
  pos_line :: "32 word"
  pos_column :: "32 word"
  pos_id :: "64 word"

definition position_new :: "32 word \<Rightarrow> 32 word \<Rightarrow> 64 word \<Rightarrow> position" where
  "position_new line column i = \<lparr>pos_line = line, pos_column = column, pos_id = i\<rparr>"

definition position_is_default :: "position \<Rightarrow> bool" where
  "position_is_default p \<longleftrightarrow> pos_line p = 0 \<and> pos_column p = 0 \<and> pos_id p = 0"

definition position_default :: position where
  "position_default = position_new 0 0 0"

lemma position_is_default_iff: "position_is_default p \<longleftrightarrow> p = position_default"
  by (cases p) (simp add: position_is_default_def position_default_def position_new_def)

lemma position_default_is_default [simp]: "position_is_default position_default"
  by (simp add: position_is_default_iff)

subsection \<open>Permission amounts\<close>

datatype perm_amount = Read | Write | Remaining

datatype perm_amount_error =
    InvalidAdd perm_amount perm_amount
  | InvalidSub perm_amount perm_amount

fun is_valid_for_specs :: "perm_amount \<Rightarrow> bool" where
  "is_valid_for_specs Read = True"
| "is_valid_for_specs Write = True"
| "is_valid_for_specs Remaining = False"

fun perm_add :: "perm_amount \<Rightarrow> perm_amount \<Rightarrow> perm_amount_error + perm_amount" where
  "perm_add Read Remaining = Inr Write"
| "perm_add Remaining Read = Inr Write"
| "perm_add a b = Inl (InvalidAdd a b)"

fun perm_sub :: "perm_amount \<Rightarrow> perm_amount \<Rightarrow> perm_amount_error + perm_amount" where
  "perm_sub Write Read = Inr Remaining"
| "perm_sub Write Remaining = Inr Read"
| "perm_sub a b = Inl (InvalidSub a b)"

fun perm_display :: "perm_amount \<Rightarrow> string" where
  "perm_display Read = ''read''"
| "perm_display Write = ''write''"
| "perm_display Remaining = ''write-read''"

datatype cmp_ordering = Less | Equal | Greater

fun perm_partial_cmp :: "perm_amount \<Rightarrow> perm_amount \<Rightarrow> cmp_ordering option" where
  "perm_partial_cmp Read Write = Some Less"
| "perm_partial_cmp Read Read = Some Equal"
| "perm_partial_cmp Write Write = Some Equal"
| "perm_partial_cmp Write Read = Some Greater"
| "perm_partial_cmp a b = None"

text \<open>\<open>Ord::cmp\<close> calls \<open>expect\<close>: a panic where the partial comparison is undefined.\<close>

definition perm_cmp :: "perm_amount \<Rightarrow> perm_amount \<Rightarrow> cmp_ordering option" where
  "perm_cmp a b = perm_partial_cmp a b"

lemma perm_add_commute: "perm_add a b = Inr c \<Longrightarrow> perm_add b a = Inr c"
  by (cases a; cases b) auto

lemma perm_sub_add: "perm_sub a b = Inr c \<Longrightarrow> perm_add c b = Inr a"
  by (cases a; cases b) auto

lemma perm_add_sub: "perm_add a b = Inr c \<Longrightarrow> perm_sub c b = Inr a"
  by (cases a; cases b) auto

lemma perm_add_is_Write: "perm_add a b = Inr c \<Longrightarrow> c = Write"
  by (cases a; cases b) auto

text \<open>
  What the three amounts stand for: \<open>Read\<close> is an unknown part \<open>e\<close> of the full permission
  \<open>full\<close>, \<open>Remaining\<close> the rest.  Additions and subtractions that succeed agree with it.
\<close>

definition perm_value :: "int \<Rightarrow> int \<Rightarrow> perm_amount \<Rightarrow> int" where
  "perm_value full e a = (case a of Read \<Rightarrow> e | Write \<Rightarrow> full | Remaining \<Rightarrow> full - e)"

lemma perm_add_value: "perm_add a b = Inr c \<Longrightarrow> perm_value n e c = perm_value n e a + perm_value n e b"
  by (cases a; cases b) (auto simp: perm_value_def)

lemma perm_sub_value: "perm_sub a b = Inr c \<Longrightarrow> perm_value n e c = perm_value n e a - perm_value n e b"
  by (cases a; cases b) (auto simp: perm_value_def)

subsection \<open>Types\<close>

datatype type =
    TInt
  | TBool
  | TSeq type
  | TTypedRef string
  | TDomain string
  | TSnapshot string

datatype type_id = IdInt | IdBool | IdRef | IdSeq | IdDomain | IdSnapshot

fun type_display :: "type \<Rightarrow> string" where
  "type_display TInt = ''Int''"
| "type_display TBool = ''Bool''"
| "type_display (TTypedRef name) = ''Ref('' @ name @ '')''"
| "type_display (TDomain name) = ''Domain('' @ name @ '')''"
| "type_display (TSnapshot name) = ''Snapshot('' @ name @ '')''"
| "type_display (TSeq elem_ty) = ''Seq['' @ type_display elem_ty @ '']''"

fun type_is_ref :: "type \<Rightarrow> bool" where
  "type_is_ref (TTypedRef _) = True"
| "type_is_ref _ = False"

fun type_is_domain :: "type \<Rightarrow> bool" where
  "type_is_domain (TDomain _) = True"
| "type_is_domain _ = False"

fun type_is_snapshot :: "type \<Rightarrow> bool" where
  "type_is_snapshot (TSnapshot _) = True"
| "type_is_snapshot _ = False"

fun type_name :: "type \<Rightarrow> string" where
  "type_name TBool = ''bool''"
| "type_name TInt = ''int''"
| "type_name (TTypedRef pred_name) = pred_name"
| "type_name (TDomain pred_name) = pred_name"
| "type_name (TSnapshot pred_name) = pred_name"
| "type_name (TSeq _) = ''Seq''"

text \<open>\<open>Type::variant\<close> is \<open>unreachable!\<close> on anything but a typed reference.\<close>

fun type_variant :: "type \<Rightarrow> string \<Rightarrow> type option" where
  "type_variant (TTypedRef name) variant = Some (TTypedRef (name @ variant))"
| "type_variant _ variant = None"

fun type_get_id :: "type \<Rightarrow> type_id" where
  "type_get_id TBool = IdBool"
| "type_get_id TInt = IdInt"
| "type_get_id (TTypedRef _) = IdRef"
| "type_get_id (TDomain _) = IdDomain"
| "type_get_id (TSnapshot _) = IdSnapshot"
| "type_get_id (TSeq _) = IdSeq"

text \<open>\<open>mem::discriminant\<close>: the position of the variant in the declaration.\<close>

fun type_discriminant :: "type \<Rightarrow> nat" where
  "type_discriminant TInt = 0"
| "type_discriminant TBool = 1"
| "type_discriminant (TSeq _) = 2"
| "type_discriminant (TTypedRef _) = 3"
| "type_discriminant (TDomain _) = 4"
| "type_discriminant (TSnapshot _) = 5"

definition type_eq :: "type \<Rightarrow> type \<Rightarrow> bool" where
  "type_eq a b \<longleftrightarrow> type_discriminant a = type_discriminant b"

lemma type_eq_refl [simp]: "type_eq a a"
  by (simp add: type_eq_def)

lemma type_eq_sym: "type_eq a b \<Longrightarrow> type_eq b a"
  by (simp add: type_eq_def)

lemma type_eq_trans: "type_eq a b \<Longrightarrow> type_eq b c \<Longrightarrow> type_eq a c"
  by (simp add: type_eq_def)

lemma type_eq_get_id: "type_eq a b \<longleftrightarrow> type_get_id a = type_get_id b"
  by (cases a; cases b) (auto simp: type_eq_def)

text \<open>A canonical representative of each class of equal types, and of equal variables and fields.\<close>

fun erase_type :: "type \<Rightarrow> type" where
  "erase_type TInt = TInt"
| "erase_type TBool = TBool"
| "erase_type (TSeq _) = TSeq TInt"
| "erase_type (TTypedRef _) = TTypedRef []"
| "erase_type (TDomain _) = TDomain []"
| "erase_type (TSnapshot _) = TSnapshot []"

lemma type_eq_erase: "type_eq a b \<longleftrightarrow> erase_type a = erase_type b"
  by (cases a; cases b) (auto simp: type_eq_def)

lemma type_eq_TBool [simp]: "type_eq t TBool \<longleftrightarrow> t = TBool"
  by (cases t) (auto simp: type_eq_def)

text \<open>
  The string substitution \<open>str::replace\<close>: every non-overlapping occurrence of \<open>pat\<close>, left to
  right.  Rust matches an empty pattern between all characters; type parameters are never empty,
  and the model leaves the string alone there.
\<close>

function str_replace :: "string \<Rightarrow> string \<Rightarrow> string \<Rightarrow> string" where
  "str_replace pat to s =
     (case s of
        [] \<Rightarrow> []
      | c # cs \<Rightarrow>
          (if pat \<noteq> [] \<and> starts_with s pat then to @ str_replace pat to (drop (length pat) s)
           else c # str_replace pat to cs))"
  by pat_completeness auto
termination
  by (relation "measure (\<lambda>(pat, to, s). length s)") (auto simp: starts_with_def)

declare str_replace.simps [simp del]

definition type_patch :: "(string \<times> string) list \<Rightarrow> type \<Rightarrow> type" where
  "type_patch substs t = (case t of
     TTypedRef predicate_name \<Rightarrow>
       TTypedRef (fold (\<lambda>(typ, subst) n. str_replace typ subst n) substs predicate_name)
   | typ \<Rightarrow> typ)"

lemma type_patch_get_id [simp]: "type_get_id (type_patch substs t) = type_get_id t"
  by (cases t) (auto simp: type_patch_def)

lemma type_patch_eq: "type_eq (type_patch substs t) t"
  by (simp add: type_eq_get_id)

subsection \<open>Local variables and fields\<close>

record local_var =
  lv_name :: string
  lv_typ :: type

definition local_var_new :: "string \<Rightarrow> type \<Rightarrow> local_var" where
  "local_var_new name typ = \<lparr>lv_name = name, lv_typ = typ\<rparr>"

definition local_var_new_typed_ref :: "string \<Rightarrow> string \<Rightarrow> local_var" where
  "local_var_new_typed_ref name ty_ref_name = local_var_new name (TTypedRef ty_ref_name)"

definition local_var_eq :: "local_var \<Rightarrow> local_var \<Rightarrow> bool" where
  "local_var_eq a b \<longleftrightarrow> lv_name a = lv_name b \<and> type_eq (lv_typ a) (lv_typ b)"

text \<open>\<open>Debug\<close> output of a variable, which the printers of declarations use.\<close>

definition local_var_debug :: "local_var \<Rightarrow> string" where
  "local_var_debug v = lv_name v @ '': '' @ type_display (lv_typ v)"

record vfield =
  fd_name :: string
  fd_typ :: type

definition field_new :: "string \<Rightarrow> type \<Rightarrow> vfield" where
  "field_new name typ = \<lparr>fd_name = name, fd_typ = typ\<rparr>"

definition field_typed_ref_name :: "vfield \<Rightarrow> string option" where
  "field_typed_ref_name f = (case fd_typ f of TTypedRef name \<Rightarrow> Some name | _ \<Rightarrow> None)"

definition field_eq :: "vfield \<Rightarrow> vfield \<Rightarrow> bool" where
  "field_eq a b \<longleftrightarrow> fd_name a = fd_name b \<and> type_eq (fd_typ a) (fd_typ b)"

lemma local_var_eq_refl [simp]: "local_var_eq a a"
  by (simp add: local_var_eq_def)

lemma local_var_eq_sym: "local_var_eq a b \<Longrightarrow> local_var_eq b a"
  by (auto simp: local_var_eq_def intro: type_eq_sym)

lemma local_var_eq_trans: "local_var_eq a b \<Longrightarrow> local_var_eq b c \<Longrightarrow> local_var_eq a c"
  by (auto simp: local_var_eq_def intro: type_eq_trans)

lemma field_eq_refl [simp]: "field_eq a a"
  by (simp add: field_eq_def)

lemma field_eq_sym: "field_eq a b \<Longrightarrow> field_eq b a"
  by (auto simp: field_eq_def intro: type_eq_sym)

lemma field_eq_trans: "field_eq a b \<Longrightarrow> field_eq b c \<Longrightarrow> field_eq a c"
  by (auto simp: field_eq_def intro: type_eq_trans)

definition erase_var :: "local_var \<Rightarrow> local_var" where
  "erase_var v = v\<lparr>lv_typ := erase_type (lv_typ v)\<rparr>"

definition erase_field :: "vfield \<Rightarrow> vfield" where
  "erase_field f = f\<lparr>fd_typ := erase_type (fd_typ f)\<rparr>"

lemma local_var_eq_erase: "local_var_eq a b \<longleftrightarrow> erase_var a = erase_var b"
  by (cases a; cases b) (auto simp: local_var_eq_def erase_var_def type_eq_erase)

lemma field_eq_erase: "field_eq a b \<longleftrightarrow> erase_field a = erase_field b"
  by (cases a; cases b) (auto simp: field_eq_def erase_field_def type_eq_erase)

interpretation lv: partial_equiv local_var_eq
  by unfold_locales (blast intro: local_var_eq_sym local_var_eq_trans)+

subsection \<open>Borrow identifiers, enum variant indices, domain functions\<close>

datatype borrow = Borrow (borrow_id: nat)

datatype enum_variant_index = EnumVariantIndex (get_variant_name: string)

type_synonym maybe_enum_variant_index = "enum_variant_index option"

text \<open>\<open>Into<EnumVariantIndex> for &Field\<close> asserts the prefix.\<close>

definition field_into_variant_index :: "vfield \<Rightarrow> enum_variant_index option" where
  "field_into_variant_index f =
     (if starts_with (fd_name f) ''enum_'' then Some (EnumVariantIndex (drop 5 (fd_name f)))
      else None)"

record domain_func =
  df_name :: string
  df_formal_args :: "local_var list"
  df_return_type :: type
  df_unique :: bool
  df_domain_name :: string

definition domain_func_eq :: "domain_func \<Rightarrow> domain_func \<Rightarrow> bool" where
  "domain_func_eq a b \<longleftrightarrow>
     df_name a = df_name b \<and> list_all2 local_var_eq (df_formal_args a) (df_formal_args b) \<and>
     type_eq (df_return_type a) (df_return_type b) \<and> df_unique a = df_unique b \<and>
     df_domain_name a = df_domain_name b"

definition erase_domain_func :: "domain_func \<Rightarrow> domain_func" where
  "erase_domain_func f = f\<lparr>df_formal_args := map erase_var (df_formal_args f),
     df_return_type := erase_type (df_return_type f)\<rparr>"

lemma list_all2_erase:
  "(\<And>x y. x \<in> set xs \<Longrightarrow> R x y \<longleftrightarrow> f x = f y) \<Longrightarrow> list_all2 R xs ys \<longleftrightarrow> map f xs = map f ys"
  by (induction xs arbitrary: ys) (auto simp: list_all2_Cons1 Cons_eq_map_conv)

lemma list_all2_local_var_eq_erase:
  "list_all2 local_var_eq xs ys \<longleftrightarrow> map erase_var xs = map erase_var ys"
  by (rule list_all2_erase) (rule local_var_eq_erase)

lemma domain_func_eq_erase: "domain_func_eq a b \<longleftrightarrow> erase_domain_func a = erase_domain_func b"
  by (cases a; cases b)
     (auto simp: domain_func_eq_def erase_domain_func_def type_eq_erase list_all2_local_var_eq_erase)

lemma domain_func_eq_refl [simp]: "domain_func_eq a a"
  by (simp add: domain_func_eq_erase)

lemma list_all2_local_var_eq_refl [simp]: "list_all2 local_var_eq xs xs"
  by (simp add: list_all2_local_var_eq_erase)

subsection \<open>Function identifiers\<close>

text \<open>\<open>compute_identifier\<close> of \<^verbatim>\<open>ast/function.rs\<close>: the signature is part of the Viper name.\<close>

fun ident_type_name :: "type \<Rightarrow> string" where
  "ident_type_name TInt = ''$int$''"
| "ident_type_name TBool = ''$bool$''"
| "ident_type_name (TTypedRef name) = name"
| "ident_type_name (TDomain name) = name"
| "ident_type_name (TSnapshot name) = ''Snap$'' @ name"
| "ident_type_name (TSeq elem_ty) = ''Seq$'' @ ident_type_name elem_ty"

definition compute_identifier :: "string \<Rightarrow> local_var list \<Rightarrow> type \<Rightarrow> string" where
  "compute_identifier name formal_args return_type =
     fold (\<lambda>arg s. s @ ident_type_name (lv_typ arg) @ ''$'') formal_args (name @ ''__$TY$__'')
     @ ident_type_name return_type"

definition domain_func_get_identifier :: "domain_func \<Rightarrow> string" where
  "domain_func_get_identifier f = compute_identifier (df_name f) (df_formal_args f) (df_return_type f)"

end
