(* ===== verification/Vir_Expr.thy ===== *)
theory Vir_Expr
  imports Vir_Common
begin

section \<open>VIR expressions and places\<close>

text \<open>
  The model of \<^verbatim>\<open>prusti-common/src/vir/ast/expr.rs\<close> (data, constructors, places, types) and of
  \<^verbatim>\<open>ast/trigger.rs\<close>.  The 23 constructors of \<open>expr\<close> are those of the source, in its order.  A
  place is a path of field, variant and address-of projections from a local variable.
\<close>

subsection \<open>Data\<close>

datatype unary_op_kind = UnNot | UnMinus

datatype bin_op_kind =
    EqCmp | NeCmp | GtCmp | GeCmp | LtCmp | LeCmp
  | OpAdd | OpSub | OpMul | OpDiv | OpMod
  | OpAnd | OpOr | OpImplies

datatype container_op_kind = SeqIndex | SeqConcat | SeqLen

datatype const_lit = CBool bool | CInt "64 word" | CBigInt string | CFnPtr

datatype 'e trigger = Trigger (trigger_elements: "'e list")

datatype expr =
    ELocal local_var position
  | EVariant expr vfield position
  | EField expr vfield position
  | EAddrOf expr type position
  | ELabelledOld string expr position
  | EConst const_lit position
  | EMagicWand expr expr "borrow option" position
  | EPredicateAccessPredicate string expr perm_amount position
  | EFieldAccessPredicate expr perm_amount position
  | EUnaryOp unary_op_kind expr position
  | EBinOp bin_op_kind expr expr position
  | EContainerOp container_op_kind expr expr position
  | ESeq type "expr list" position
  | EUnfolding string "expr list" expr perm_amount maybe_enum_variant_index position
  | ECond expr expr expr position
  | EForAll "local_var list" "expr trigger list" expr position
  | EExists "local_var list" "expr trigger list" expr position
  | ELetExpr local_var expr expr position
  | EFuncApp string "expr list" "local_var list" type position
  | EDomainFuncApp domain_func "expr list" position
  | EInhaleExhale expr expr position
  | EDowncast expr expr vfield
  | ESnapApp expr position

datatype place_component = PCField vfield position | PCVariant vfield position

text \<open>The direct sub-expressions that the traversals visit: triggers are not among them.\<close>

fun children :: "expr \<Rightarrow> expr list" where
  "children (ELocal v p) = []"
| "children (EVariant b v p) = [b]"
| "children (EField b f p) = [b]"
| "children (EAddrOf b t p) = [b]"
| "children (ELabelledOld l b p) = [b]"
| "children (EConst c p) = []"
| "children (EMagicWand l r b p) = [l, r]"
| "children (EPredicateAccessPredicate n a q p) = [a]"
| "children (EFieldAccessPredicate r q p) = [r]"
| "children (EUnaryOp op a p) = [a]"
| "children (EBinOp op l r p) = [l, r]"
| "children (EContainerOp op l r p) = [l, r]"
| "children (ESeq t es p) = es"
| "children (EUnfolding n es b q i p) = es @ [b]"
| "children (ECond g t e p) = [g, t, e]"
| "children (EForAll vs ts b p) = [b]"
| "children (EExists vs ts b p) = [b]"
| "children (ELetExpr v d b p) = [d, b]"
| "children (EFuncApp n es fs t p) = es"
| "children (EDomainFuncApp f es p) = es"
| "children (EInhaleExhale l r p) = [l, r]"
| "children (EDowncast b pl f) = [b, pl]"
| "children (ESnapApp b p) = [b]"

lemma children_size [termination_simp]: "c \<in> set (children e) \<Longrightarrow> size c < size e"
  by (cases e) (auto simp: less_Suc_eq_le size_list_estimation' intro: trans_le_add1)

lemma expr_children_induct [case_names step]:
  assumes "\<And>e. (\<And>c. c \<in> set (children e) \<Longrightarrow> P c) \<Longrightarrow> P e"
  shows "P e"
  by (induction e rule: measure_induct_rule [of size]) (use assms children_size in blast)

lemma trigger_elements_size [termination_simp]:
  "t \<in> set ts \<Longrightarrow> x \<in> set (trigger_elements t) \<Longrightarrow> size x < Suc (size_list (size_trigger size) ts + n)"
proof -
  assume t: "t \<in> set ts" and x: "x \<in> set (trigger_elements t)"
  have "size x \<le> size_trigger size t"
    using x by (cases t) (auto intro!: le_SucI size_list_estimation')
  also have "\<dots> \<le> size_list (size_trigger size) ts"
    using t by (simp add: size_list_estimation')
  finally show ?thesis by simp
qed

subsection \<open>Equality\<close>

text \<open>
  The hand-written \<open>PartialEq\<close>: it ignores positions, the formal arguments and the return type
  of a function application, and, through \<open>type_eq\<close>, the payload of types.  \<open>InhaleExhale\<close> and
  \<open>Downcast\<close> have no arm of their own and fall into the last one, which is \<open>false\<close> (in debug
  builds it also asserts that the two variants differ).
\<close>

fun expr_eq :: "expr \<Rightarrow> expr \<Rightarrow> bool" where
  "expr_eq (ELocal v _) b = (case b of ELocal v' _ \<Rightarrow> local_var_eq v v' | _ \<Rightarrow> False)"
| "expr_eq (EVariant x f _) b =
     (case b of EVariant x' f' _ \<Rightarrow> expr_eq x x' \<and> field_eq f f' | _ \<Rightarrow> False)"
| "expr_eq (EField x f _) b =
     (case b of EField x' f' _ \<Rightarrow> expr_eq x x' \<and> field_eq f f' | _ \<Rightarrow> False)"
| "expr_eq (EAddrOf x t _) b =
     (case b of EAddrOf x' t' _ \<Rightarrow> expr_eq x x' \<and> type_eq t t' | _ \<Rightarrow> False)"
| "expr_eq (ELabelledOld l x _) b =
     (case b of ELabelledOld l' x' _ \<Rightarrow> l = l' \<and> expr_eq x x' | _ \<Rightarrow> False)"
| "expr_eq (EConst c _) b = (case b of EConst c' _ \<Rightarrow> c = c' | _ \<Rightarrow> False)"
| "expr_eq (EMagicWand l r w _) b =
     (case b of EMagicWand l' r' w' _ \<Rightarrow> expr_eq l l' \<and> expr_eq r r' \<and> w = w' | _ \<Rightarrow> False)"
| "expr_eq (EPredicateAccessPredicate n a q _) b =
     (case b of EPredicateAccessPredicate n' a' q' _ \<Rightarrow> n = n' \<and> expr_eq a a' \<and> q = q'
      | _ \<Rightarrow> False)"
| "expr_eq (EFieldAccessPredicate a q _) b =
     (case b of EFieldAccessPredicate a' q' _ \<Rightarrow> expr_eq a a' \<and> q = q' | _ \<Rightarrow> False)"
| "expr_eq (EUnaryOp op a _) b =
     (case b of EUnaryOp op' a' _ \<Rightarrow> op = op' \<and> expr_eq a a' | _ \<Rightarrow> False)"
| "expr_eq (EBinOp op l r _) b =
     (case b of EBinOp op' l' r' _ \<Rightarrow> op = op' \<and> expr_eq l l' \<and> expr_eq r r' | _ \<Rightarrow> False)"
| "expr_eq (EContainerOp op l r _) b =
     (case b of EContainerOp op' l' r' _ \<Rightarrow> op = op' \<and> expr_eq l l' \<and> expr_eq r r'
      | _ \<Rightarrow> False)"
| "expr_eq (ESeq t es _) b =
     (case b of ESeq t' es' _ \<Rightarrow> type_eq t t' \<and> list_all2 expr_eq es es' | _ \<Rightarrow> False)"
| "expr_eq (EUnfolding n es x q i _) b =
     (case b of EUnfolding n' es' x' q' i' _ \<Rightarrow>
        n = n' \<and> list_all2 expr_eq es es' \<and> expr_eq x x' \<and> q = q' \<and> i = i' | _ \<Rightarrow> False)"
| "expr_eq (ECond g t e _) b =
     (case b of ECond g' t' e' _ \<Rightarrow> expr_eq g g' \<and> expr_eq t t' \<and> expr_eq e e' | _ \<Rightarrow> False)"
| "expr_eq (EForAll vs ts x _) b =
     (case b of EForAll vs' ts' x' _ \<Rightarrow>
        list_all2 local_var_eq vs vs' \<and>
        list_all2 (\<lambda>t t'. list_all2 expr_eq (trigger_elements t) (trigger_elements t')) ts ts' \<and>
        expr_eq x x' | _ \<Rightarrow> False)"
| "expr_eq (EExists vs ts x _) b =
     (case b of EExists vs' ts' x' _ \<Rightarrow>
        list_all2 local_var_eq vs vs' \<and>
        list_all2 (\<lambda>t t'. list_all2 expr_eq (trigger_elements t) (trigger_elements t')) ts ts' \<and>
        expr_eq x x' | _ \<Rightarrow> False)"
| "expr_eq (ELetExpr v d x _) b =
     (case b of ELetExpr v' d' x' _ \<Rightarrow> local_var_eq v v' \<and> expr_eq d d' \<and> expr_eq x x'
      | _ \<Rightarrow> False)"
| "expr_eq (EFuncApp n es _ _ _) b =
     (case b of EFuncApp n' es' _ _ _ \<Rightarrow> n = n' \<and> list_all2 expr_eq es es' | _ \<Rightarrow> False)"
| "expr_eq (EDomainFuncApp f es _) b =
     (case b of EDomainFuncApp f' es' _ \<Rightarrow> domain_func_eq f f' \<and> list_all2 expr_eq es es'
      | _ \<Rightarrow> False)"
| "expr_eq (EInhaleExhale _ _ _) b = False"
| "expr_eq (EDowncast _ _ _) b = False"
| "expr_eq (ESnapApp x _) b = (case b of ESnapApp x' _ \<Rightarrow> expr_eq x x' | _ \<Rightarrow> False)"

subsection \<open>The equality is a partial equivalence\<close>

lemma expr_eq_iff:
  "expr_eq (ELocal v p) b \<longleftrightarrow> (\<exists>v' p'. b = ELocal v' p' \<and> local_var_eq v v')"
  "expr_eq (EVariant x f p) b \<longleftrightarrow> (\<exists>x' f' p'. b = EVariant x' f' p' \<and> expr_eq x x' \<and> field_eq f f')"
  "expr_eq (EField x f p) b \<longleftrightarrow> (\<exists>x' f' p'. b = EField x' f' p' \<and> expr_eq x x' \<and> field_eq f f')"
  "expr_eq (EAddrOf x t p) b \<longleftrightarrow> (\<exists>x' t' p'. b = EAddrOf x' t' p' \<and> expr_eq x x' \<and> type_eq t t')"
  "expr_eq (ELabelledOld lbl x p) b \<longleftrightarrow> (\<exists>x' p'. b = ELabelledOld lbl x' p' \<and> expr_eq x x')"
  "expr_eq (EConst c p) b \<longleftrightarrow> (\<exists>p'. b = EConst c p')"
  "expr_eq (EMagicWand l r w p) b \<longleftrightarrow>
     (\<exists>l' r' p'. b = EMagicWand l' r' w p' \<and> expr_eq l l' \<and> expr_eq r r')"
  "expr_eq (EPredicateAccessPredicate n x q p) b \<longleftrightarrow>
     (\<exists>x' p'. b = EPredicateAccessPredicate n x' q p' \<and> expr_eq x x')"
  "expr_eq (EFieldAccessPredicate x q p) b \<longleftrightarrow>
     (\<exists>x' p'. b = EFieldAccessPredicate x' q p' \<and> expr_eq x x')"
  "expr_eq (EUnaryOp uop x p) b \<longleftrightarrow> (\<exists>x' p'. b = EUnaryOp uop x' p' \<and> expr_eq x x')"
  "expr_eq (EBinOp bop l r p) b \<longleftrightarrow>
     (\<exists>l' r' p'. b = EBinOp bop l' r' p' \<and> expr_eq l l' \<and> expr_eq r r')"
  "expr_eq (EContainerOp cop l r p) b \<longleftrightarrow>
     (\<exists>l' r' p'. b = EContainerOp cop l' r' p' \<and> expr_eq l l' \<and> expr_eq r r')"
  "expr_eq (ESeq t es p) b \<longleftrightarrow>
     (\<exists>t' es' p'. b = ESeq t' es' p' \<and> type_eq t t' \<and> list_all2 expr_eq es es')"
  "expr_eq (EUnfolding n es x q i p) b \<longleftrightarrow>
     (\<exists>es' x' p'. b = EUnfolding n es' x' q i p' \<and> list_all2 expr_eq es es' \<and> expr_eq x x')"
  "expr_eq (ECond g x y p) b \<longleftrightarrow>
     (\<exists>g' x' y' p'. b = ECond g' x' y' p' \<and> expr_eq g g' \<and> expr_eq x x' \<and> expr_eq y y')"
  "expr_eq (EForAll vs ts x p) b \<longleftrightarrow>
     (\<exists>vs' ts' x' p'. b = EForAll vs' ts' x' p' \<and> list_all2 local_var_eq vs vs' \<and>
        list_all2 (\<lambda>t t'. list_all2 expr_eq (trigger_elements t) (trigger_elements t')) ts ts' \<and>
        expr_eq x x')"
  "expr_eq (EExists vs ts x p) b \<longleftrightarrow>
     (\<exists>vs' ts' x' p'. b = EExists vs' ts' x' p' \<and> list_all2 local_var_eq vs vs' \<and>
        list_all2 (\<lambda>t t'. list_all2 expr_eq (trigger_elements t) (trigger_elements t')) ts ts' \<and>
        expr_eq x x')"
  "expr_eq (ELetExpr v d x p) b \<longleftrightarrow>
     (\<exists>v' d' x' p'. b = ELetExpr v' d' x' p' \<and> local_var_eq v v' \<and> expr_eq d d' \<and> expr_eq x x')"
  "expr_eq (EFuncApp n es fs t p) b \<longleftrightarrow>
     (\<exists>es' fs' t' p'. b = EFuncApp n es' fs' t' p' \<and> list_all2 expr_eq es es')"
  "expr_eq (EDomainFuncApp df es p) b \<longleftrightarrow>
     (\<exists>df' es' p'. b = EDomainFuncApp df' es' p' \<and> domain_func_eq df df' \<and> list_all2 expr_eq es es')"
  "expr_eq (EInhaleExhale l r p) b \<longleftrightarrow> False"
  "expr_eq (EDowncast l r f) b \<longleftrightarrow> False"
  "expr_eq (ESnapApp x p) b \<longleftrightarrow> (\<exists>x' p'. b = ESnapApp x' p' \<and> expr_eq x x')"
  by (cases b; auto)+

declare expr_eq.simps [simp del]
declare expr_eq_iff [simp]

text \<open>Every expression an expression compares when it is compared itself.\<close>

fun trigger_exprs :: "expr \<Rightarrow> expr list" where
  "trigger_exprs (EForAll vs ts b p) = concat (map trigger_elements ts)"
| "trigger_exprs (EExists vs ts b p) = concat (map trigger_elements ts)"
| "trigger_exprs e = []"

lemma trigger_exprs_size: "c \<in> set (trigger_exprs e) \<Longrightarrow> size c < size e"
  by (cases e) (auto intro: trigger_elements_size)


lemma expr_parts_induct [case_names step]:
  assumes "\<And>e. (\<And>c. c \<in> set (children e) \<union> set (trigger_exprs e) \<Longrightarrow> P c) \<Longrightarrow> P e"
  shows "P e"
  by (induction e rule: measure_induct_rule [of size])
     (use assms children_size trigger_exprs_size in blast)

text \<open>
  Two facts describe the equality completely: \<open>erase\<close> forgets what it ignores, and
  \<open>eq_supported\<close> says where it is reflexive, namely on the expressions with no
  \<open>InhaleExhale\<close> and no \<open>Downcast\<close> in them.
\<close>

fun erase :: "expr \<Rightarrow> expr" where
  "erase (ELocal v _) = ELocal (erase_var v) position_default"
| "erase (EVariant b f _) = EVariant (erase b) (erase_field f) position_default"
| "erase (EField b f _) = EField (erase b) (erase_field f) position_default"
| "erase (EAddrOf b t _) = EAddrOf (erase b) (erase_type t) position_default"
| "erase (ELabelledOld l b _) = ELabelledOld l (erase b) position_default"
| "erase (EConst c _) = EConst c position_default"
| "erase (EMagicWand l r w _) = EMagicWand (erase l) (erase r) w position_default"
| "erase (EPredicateAccessPredicate n a q _) =
     EPredicateAccessPredicate n (erase a) q position_default"
| "erase (EFieldAccessPredicate a q _) = EFieldAccessPredicate (erase a) q position_default"
| "erase (EUnaryOp op a _) = EUnaryOp op (erase a) position_default"
| "erase (EBinOp op l r _) = EBinOp op (erase l) (erase r) position_default"
| "erase (EContainerOp op l r _) = EContainerOp op (erase l) (erase r) position_default"
| "erase (ESeq t es _) = ESeq (erase_type t) (map erase es) position_default"
| "erase (EUnfolding n es b q i _) =
     EUnfolding n (map erase es) (erase b) q i position_default"
| "erase (ECond g t e _) = ECond (erase g) (erase t) (erase e) position_default"
| "erase (EForAll vs ts b _) =
     EForAll (map erase_var vs) (map (\<lambda>t. Trigger (map erase (trigger_elements t))) ts) (erase b)
       position_default"
| "erase (EExists vs ts b _) =
     EExists (map erase_var vs) (map (\<lambda>t. Trigger (map erase (trigger_elements t))) ts) (erase b)
       position_default"
| "erase (ELetExpr v d b _) = ELetExpr (erase_var v) (erase d) (erase b) position_default"
| "erase (EFuncApp n es _ _ _) = EFuncApp n (map erase es) [] TInt position_default"
| "erase (EDomainFuncApp f es _) =
     EDomainFuncApp (erase_domain_func f) (map erase es) position_default"
| "erase (EInhaleExhale l r _) = EInhaleExhale (erase l) (erase r) position_default"
| "erase (EDowncast b pl f) = EDowncast (erase b) (erase pl) (erase_field f)"
| "erase (ESnapApp b _) = ESnapApp (erase b) position_default"

fun eq_supported :: "expr \<Rightarrow> bool" where
  "eq_supported (EInhaleExhale _ _ _) = False"
| "eq_supported (EDowncast _ _ _) = False"
| "eq_supported (EForAll vs ts b p) =
     (eq_supported b \<and> list_all (\<lambda>t. list_all eq_supported (trigger_elements t)) ts)"
| "eq_supported (EExists vs ts b p) =
     (eq_supported b \<and> list_all (\<lambda>t. list_all eq_supported (trigger_elements t)) ts)"
| "eq_supported e = list_all eq_supported (children e)"

lemma eq_supported_erase [simp]: "eq_supported (erase e) = eq_supported e"
proof (induction e rule: expr_parts_induct)
  case (step e)
  then show ?case by (cases e) (auto simp: list_all_iff)
qed

lemma list_all2_erase_on:
  assumes "\<And>x y. x \<in> set xs \<Longrightarrow> R x y \<longleftrightarrow> P x \<and> f x = f y"
  shows "list_all2 R xs ys \<longleftrightarrow> list_all P xs \<and> map f xs = map f ys"
  using assms by (induction xs arbitrary: ys) (auto simp: list_all2_Cons1 Cons_eq_map_conv)

lemma expr_eq_erase: "expr_eq a b \<longleftrightarrow> eq_supported a \<and> erase a = erase b"
proof (induction a arbitrary: b rule: expr_parts_induct)
  case (step e)
  have args: "list_all2 expr_eq xs ys \<longleftrightarrow> list_all eq_supported xs \<and> map erase xs = map erase ys"
    if "set xs \<subseteq> set (children e) \<union> set (trigger_exprs e)" for xs ys
    by (rule list_all2_erase_on) (use step that in blast)
  have trigs: "list_all2 (\<lambda>t t'. list_all2 expr_eq (trigger_elements t) (trigger_elements t')) xs ys
      \<longleftrightarrow> list_all (\<lambda>t. list_all eq_supported (trigger_elements t)) xs \<and>
          map (\<lambda>t. Trigger (map erase (trigger_elements t))) xs =
          map (\<lambda>t. Trigger (map erase (trigger_elements t))) ys"
    if "\<Union> (set ` trigger_elements ` set xs) \<subseteq> set (trigger_exprs e)" for xs ys
  proof (rule list_all2_erase_on)
    fix x y assume "x \<in> set xs"
    then have "set (trigger_elements x) \<subseteq> set (children e) \<union> set (trigger_exprs e)"
      using that by blast
    then show "list_all2 expr_eq (trigger_elements x) (trigger_elements y) \<longleftrightarrow>
        list_all eq_supported (trigger_elements x) \<and>
        Trigger (map erase (trigger_elements x)) = Trigger (map erase (trigger_elements y))"
      by (simp add: args)
  qed
  note erases = local_var_eq_erase field_eq_erase type_eq_erase domain_func_eq_erase
    list_all2_local_var_eq_erase
  show ?case
    using step args trigs by (cases e; cases b) (auto simp: erases)
qed

lemma expr_eq_sym: "expr_eq a b \<Longrightarrow> expr_eq b a"
  by (metis expr_eq_erase eq_supported_erase)

lemma expr_eq_trans: "expr_eq a b \<Longrightarrow> expr_eq b c \<Longrightarrow> expr_eq a c"
  by (simp add: expr_eq_erase)

lemma expr_eq_refl_iff: "expr_eq e e \<longleftrightarrow> eq_supported e"
  by (simp add: expr_eq_erase)

interpretation ex: partial_equiv expr_eq
  by unfold_locales (blast intro: expr_eq_sym expr_eq_trans)+

lemma eq_supported_child: "eq_supported e \<Longrightarrow> c \<in> set (children e) \<Longrightarrow> eq_supported c"
  by (cases e) (auto simp: list_all_iff)

text \<open>
  C28 Equality of VIR expressions is a partial equivalence, symmetric and transitive, and it is
  reflexive exactly on the expressions with no inhale-exhale pair and no downcast in them: the
  hand-written \<open>PartialEq\<close> has no arm for those two although the type is declared \<open>Eq\<close>.
\<close>

theorem expr_eq_partial_equivalence:
  "(expr_eq a a \<longleftrightarrow> eq_supported a) \<and>
   (expr_eq a b \<longrightarrow> expr_eq b a) \<and>
   (expr_eq a b \<and> expr_eq b c \<longrightarrow> expr_eq a c)"
  using expr_eq_refl_iff expr_eq_sym expr_eq_trans by blast

theorem expr_eq_partial_equivalence_witness:
  "let at = (\<lambda>n. position_new n n 1); x = (\<lambda>n. ELocal \<lparr>lv_name = ''x'', lv_typ = TInt\<rparr> (at n));
       ie = EInhaleExhale (x 1) (x 2) (at 1)
   in expr_eq (x 1) (x 2) \<and> expr_eq (x 2) (x 1) \<and> expr_eq (x 2) (x 3) \<and> expr_eq (x 1) (x 3) \<and>
      \<not> expr_eq ie ie"
  using expr_eq_partial_equivalence
    [of "ELocal \<lparr>lv_name = ''x'', lv_typ = TInt\<rparr> (position_new 1 1 1)"
        "ELocal \<lparr>lv_name = ''x'', lv_typ = TInt\<rparr> (position_new 2 2 1)"
        "ELocal \<lparr>lv_name = ''x'', lv_typ = TInt\<rparr> (position_new 3 3 1)"]
  by (simp add: Let_def local_var_eq_def type_eq_def)

end
