(* ===== verification/Vir_Place.thy ===== *)
theory Vir_Place
  imports Vir_Expr
begin

section \<open>Constructors, places and types of expressions\<close>

text \<open>
  The non-traversing operations of \<^verbatim>\<open>ast/expr.rs\<close>: positions, smart constructors, the
  decomposition of places, prefixes of places, and \<open>get_type\<close>.  Operations the source documents as
  "only defined for places" panic elsewhere; the panic is \<open>None\<close>.
\<close>

subsection \<open>Positions of expressions\<close>

fun expr_pos :: "expr \<Rightarrow> position" where
  "expr_pos (ELocal _ p) = p"
| "expr_pos (EVariant _ _ p) = p"
| "expr_pos (EField _ _ p) = p"
| "expr_pos (EAddrOf _ _ p) = p"
| "expr_pos (EConst _ p) = p"
| "expr_pos (ELabelledOld _ _ p) = p"
| "expr_pos (EMagicWand _ _ _ p) = p"
| "expr_pos (EPredicateAccessPredicate _ _ _ p) = p"
| "expr_pos (EFieldAccessPredicate _ _ p) = p"
| "expr_pos (EUnaryOp _ _ p) = p"
| "expr_pos (EBinOp _ _ _ p) = p"
| "expr_pos (EUnfolding _ _ _ _ _ p) = p"
| "expr_pos (ECond _ _ _ p) = p"
| "expr_pos (EForAll _ _ _ p) = p"
| "expr_pos (EExists _ _ _ p) = p"
| "expr_pos (ELetExpr _ _ _ p) = p"
| "expr_pos (EFuncApp _ _ _ _ p) = p"
| "expr_pos (EDomainFuncApp _ _ p) = p"
| "expr_pos (EInhaleExhale _ _ p) = p"
| "expr_pos (EContainerOp _ _ _ p) = p"
| "expr_pos (ESeq _ _ p) = p"
| "expr_pos (ESnapApp _ p) = p"
| "expr_pos (EDowncast base _ _) = expr_pos base"

fun expr_set_pos :: "position \<Rightarrow> expr \<Rightarrow> expr" where
  "expr_set_pos q (ELocal v _) = ELocal v q"
| "expr_set_pos q (EVariant b f _) = EVariant b f q"
| "expr_set_pos q (EField b f _) = EField b f q"
| "expr_set_pos q (EAddrOf b t _) = EAddrOf b t q"
| "expr_set_pos q (EConst c _) = EConst c q"
| "expr_set_pos q (ELabelledOld l b _) = ELabelledOld l b q"
| "expr_set_pos q (EMagicWand l r w _) = EMagicWand l r w q"
| "expr_set_pos q (EPredicateAccessPredicate n a m _) = EPredicateAccessPredicate n a m q"
| "expr_set_pos q (EFieldAccessPredicate a m _) = EFieldAccessPredicate a m q"
| "expr_set_pos q (EUnaryOp op a _) = EUnaryOp op a q"
| "expr_set_pos q (EBinOp op l r _) = EBinOp op l r q"
| "expr_set_pos q (EUnfolding n es b m i _) = EUnfolding n es b m i q"
| "expr_set_pos q (ECond g t e _) = ECond g t e q"
| "expr_set_pos q (EForAll vs ts b _) = EForAll vs ts b q"
| "expr_set_pos q (EExists vs ts b _) = EExists vs ts b q"
| "expr_set_pos q (ELetExpr v d b _) = ELetExpr v d b q"
| "expr_set_pos q (EFuncApp n es fs t _) = EFuncApp n es fs t q"
| "expr_set_pos q (EDomainFuncApp f es _) = EDomainFuncApp f es q"
| "expr_set_pos q (EInhaleExhale l r _) = EInhaleExhale l r q"
| "expr_set_pos q (ESnapApp b _) = ESnapApp b q"
| "expr_set_pos q (EContainerOp op l r _) = EContainerOp op l r q"
| "expr_set_pos q (ESeq t es _) = ESeq t es q"
| "expr_set_pos q x = x"

fun is_downcast :: "expr \<Rightarrow> bool" where
  "is_downcast (EDowncast _ _ _) = True"
| "is_downcast _ = False"

lemma expr_pos_set_pos: "\<not> is_downcast e \<Longrightarrow> expr_pos (expr_set_pos q e) = q"
  by (cases e) auto

lemma erase_set_pos [simp]: "erase (expr_set_pos q e) = erase e"
  by (cases e) auto

lemma children_set_pos [simp]: "children (expr_set_pos q e) = children e"
  by (cases e) auto

subsection \<open>Conversions into expressions\<close>

definition from_bool :: "bool \<Rightarrow> expr" where
  "from_bool b = EConst (CBool b) position_default"

definition from_local :: "local_var \<Rightarrow> expr" where
  "from_local v = ELocal v position_default"

definition from_const :: "const_lit \<Rightarrow> expr" where
  "from_const c = EConst c position_default"

subsection \<open>Types of expressions\<close>

text \<open>
  \<open>None\<close> is a panic: an \<open>assert_eq!\<close> on the operand types, \<open>unreachable!\<close> on permission
  expressions, \<open>todo!\<close> on container operations.
\<close>

fun get_type :: "expr \<Rightarrow> type option" where
  "get_type (ELocal v _) = Some (lv_typ v)"
| "get_type (EVariant _ f _) = Some (fd_typ f)"
| "get_type (EField _ f _) = Some (fd_typ f)"
| "get_type (EAddrOf _ t _) = Some t"
| "get_type (ELetExpr v _ _ _) = Some (lv_typ v)"
| "get_type (ELabelledOld _ b _) = get_type b"
| "get_type (EUnfolding _ _ b _ _ _) = get_type b"
| "get_type (EUnaryOp _ b _) = get_type b"
| "get_type (EFuncApp _ _ _ t _) = Some t"
| "get_type (EDomainFuncApp f _ _) = Some (df_return_type f)"
| "get_type (EConst c _) =
     (case c of CBool _ \<Rightarrow> Some TBool | CInt _ \<Rightarrow> Some TInt | CBigInt _ \<Rightarrow> Some TInt
      | CFnPtr \<Rightarrow> Some (TTypedRef ''FnPtr''))"
| "get_type (EBinOp kind l r _) =
     (if kind \<in> {EqCmp, NeCmp, GtCmp, GeCmp, LtCmp, LeCmp, OpAnd, OpOr, OpImplies} then Some TBool
      else case (get_type l, get_type r) of
             (Some t1, Some t2) \<Rightarrow> if type_eq t1 t2 then Some t1 else None
           | _ \<Rightarrow> None)"
| "get_type (ECond _ l r _) =
     (case (get_type l, get_type r) of
        (Some t1, Some t2) \<Rightarrow> if type_eq t1 t2 then Some t1 else None
      | _ \<Rightarrow> None)"
| "get_type (EForAll _ _ _ _) = Some TBool"
| "get_type (EExists _ _ _ _) = Some TBool"
| "get_type (EMagicWand _ _ _ _) = None"
| "get_type (EPredicateAccessPredicate _ _ _ _) = None"
| "get_type (EFieldAccessPredicate _ _ _) = None"
| "get_type (EInhaleExhale _ _ _) = None"
| "get_type (EDowncast b _ _) = get_type b"
| "get_type (ESnapApp b _) = get_type b"
| "get_type (EContainerOp _ _ _ _) = None"
| "get_type (ESeq t _ _) = Some t"

definition expr_typed_ref_name :: "expr \<Rightarrow> string option option" where
  "expr_typed_ref_name e =
     (case get_type e of None \<Rightarrow> None
      | Some (TTypedRef name) \<Rightarrow> Some (Some name)
      | Some _ \<Rightarrow> Some None)"

subsection \<open>Smart constructors\<close>

definition predicate_access_predicate :: "string \<Rightarrow> expr \<Rightarrow> perm_amount \<Rightarrow> expr" where
  "predicate_access_predicate name place perm =
     EPredicateAccessPredicate name place perm (expr_pos place)"

definition field_access_predicate :: "expr \<Rightarrow> perm_amount \<Rightarrow> expr" where
  "field_access_predicate place perm = EFieldAccessPredicate place perm (expr_pos place)"

definition pred_permission :: "expr \<Rightarrow> perm_amount \<Rightarrow> expr option option" where
  "pred_permission place perm =
     (case expr_typed_ref_name place of None \<Rightarrow> None
      | Some None \<Rightarrow> Some None
      | Some (Some pred_name) \<Rightarrow> Some (Some (predicate_access_predicate pred_name place perm)))"

definition acc_permission :: "expr \<Rightarrow> perm_amount \<Rightarrow> expr" where
  "acc_permission place perm = EFieldAccessPredicate place perm position_default"

definition labelled_old :: "string \<Rightarrow> expr \<Rightarrow> expr" where
  "labelled_old label e = ELabelledOld label e position_default"

definition expr_not :: "expr \<Rightarrow> expr" where
  "expr_not e = EUnaryOp UnNot e position_default"

definition expr_minus :: "expr \<Rightarrow> expr" where
  "expr_minus e = EUnaryOp UnMinus e position_default"

definition expr_bin :: "bin_op_kind \<Rightarrow> expr \<Rightarrow> expr \<Rightarrow> expr" where
  "expr_bin kind left right = EBinOp kind left right position_default"

definition gt_cmp :: "expr \<Rightarrow> expr \<Rightarrow> expr" where
  "gt_cmp left right = expr_bin GtCmp left right"

definition ge_cmp :: "expr \<Rightarrow> expr \<Rightarrow> expr" where
  "ge_cmp left right = expr_bin GeCmp left right"

definition lt_cmp :: "expr \<Rightarrow> expr \<Rightarrow> expr" where
  "lt_cmp left right = expr_bin LtCmp left right"

definition le_cmp :: "expr \<Rightarrow> expr \<Rightarrow> expr" where
  "le_cmp left right = expr_bin LeCmp left right"

definition eq_cmp :: "expr \<Rightarrow> expr \<Rightarrow> expr" where
  "eq_cmp left right = expr_bin EqCmp left right"

definition ne_cmp :: "expr \<Rightarrow> expr \<Rightarrow> expr" where
  "ne_cmp left right = expr_not (eq_cmp left right)"

definition expr_add :: "expr \<Rightarrow> expr \<Rightarrow> expr" where
  "expr_add left right = expr_bin OpAdd left right"

definition expr_sub :: "expr \<Rightarrow> expr \<Rightarrow> expr" where
  "expr_sub left right = expr_bin OpSub left right"

definition expr_mul :: "expr \<Rightarrow> expr \<Rightarrow> expr" where
  "expr_mul left right = expr_bin OpMul left right"

definition expr_div :: "expr \<Rightarrow> expr \<Rightarrow> expr" where
  "expr_div left right = expr_bin OpDiv left right"

definition expr_modulo :: "expr \<Rightarrow> expr \<Rightarrow> expr" where
  "expr_modulo left right = expr_bin OpMod left right"

definition expr_and :: "expr \<Rightarrow> expr \<Rightarrow> expr" where
  "expr_and left right = expr_bin OpAnd left right"

definition expr_or :: "expr \<Rightarrow> expr \<Rightarrow> expr" where
  "expr_or left right = expr_bin OpOr left right"

definition expr_xor :: "expr \<Rightarrow> expr \<Rightarrow> expr" where
  "expr_xor left right = expr_not (eq_cmp left right)"

definition expr_implies :: "expr \<Rightarrow> expr \<Rightarrow> expr" where
  "expr_implies left right = expr_bin OpImplies left right"

definition expr_ite :: "expr \<Rightarrow> expr \<Rightarrow> expr \<Rightarrow> expr" where
  "expr_ite guard left right = ECond guard left right position_default"

text \<open>Rust's remainder, encoded with Viper's modulo; the literal \<open>0\<close> converts from \<open>i32\<close>.\<close>

definition int_zero :: expr where
  "int_zero = EConst (CInt 0) position_default"

definition expr_rem :: "expr \<Rightarrow> expr \<Rightarrow> expr" where
  "expr_rem left right =
     (let abs_right = expr_ite (ge_cmp right int_zero) right (expr_minus right)
      in expr_ite
           (expr_or (ge_cmp left int_zero) (eq_cmp (expr_modulo left right) int_zero))
           (expr_modulo left right)
           (expr_sub (expr_modulo left right) abs_right))"

definition expr_forall :: "local_var list \<Rightarrow> expr trigger list \<Rightarrow> expr \<Rightarrow> expr option" where
  "expr_forall vars triggers body =
     (if vars = [] then None else Some (EForAll vars triggers body position_default))"

definition expr_exists :: "local_var list \<Rightarrow> expr trigger list \<Rightarrow> expr \<Rightarrow> expr option" where
  "expr_exists vars triggers body =
     (if vars = [] then None else Some (EExists vars triggers body position_default))"

definition expr_unfolding ::
  "string \<Rightarrow> expr list \<Rightarrow> expr \<Rightarrow> perm_amount \<Rightarrow> maybe_enum_variant_index \<Rightarrow> expr" where
  "expr_unfolding pred_name args e perm variant =
     EUnfolding pred_name args e perm variant position_default"

definition wrap_in_unfolding :: "expr \<Rightarrow> expr \<Rightarrow> expr option" where
  "wrap_in_unfolding arg body =
     (case get_type arg of None \<Rightarrow> None
      | Some t \<Rightarrow> Some (EUnfolding (type_name t) [arg] body Read None (expr_pos body)))"

definition func_app ::
  "string \<Rightarrow> expr list \<Rightarrow> local_var list \<Rightarrow> type \<Rightarrow> position \<Rightarrow> expr" where
  "func_app name args internal_args return_type pos =
     EFuncApp name args internal_args return_type pos"

definition domain_func_app :: "domain_func \<Rightarrow> expr list \<Rightarrow> expr" where
  "domain_func_app func args = EDomainFuncApp func args position_default"

definition magic_wand :: "expr \<Rightarrow> expr \<Rightarrow> borrow option \<Rightarrow> expr" where
  "magic_wand lhs rhs bor = EMagicWand lhs rhs bor position_default"

definition expr_downcast :: "expr \<Rightarrow> expr \<Rightarrow> vfield \<Rightarrow> expr" where
  "expr_downcast base enum_place variant_field = EDowncast base enum_place variant_field"

definition snap_app :: "expr \<Rightarrow> expr" where
  "snap_app e = ESnapApp e position_default"

fun conjoin :: "expr list \<Rightarrow> expr" where
  "conjoin [] = from_bool True"
| "conjoin (e # es) = expr_and e (conjoin es)"

fun disjoin :: "expr list \<Rightarrow> expr" where
  "disjoin [] = from_bool False"
| "disjoin (e # es) = expr_or e (disjoin es)"

subsection \<open>Shapes\<close>

fun is_only_permissions :: "expr \<Rightarrow> bool" where
  "is_only_permissions (EPredicateAccessPredicate _ _ _ _) = True"
| "is_only_permissions (EFieldAccessPredicate _ _ _) = True"
| "is_only_permissions (EBinOp OpAnd l r _) = (is_only_permissions l \<and> is_only_permissions r)"
| "is_only_permissions _ = False"

fun is_place :: "expr \<Rightarrow> bool" where
  "is_place (ELocal _ _) = True"
| "is_place (EVariant b _ _) = is_place b"
| "is_place (EField b _ _) = is_place b"
| "is_place (EAddrOf b _ _) = is_place b"
| "is_place (ELabelledOld _ b _) = is_place b"
| "is_place (EUnfolding _ _ b _ _ _) = is_place b"
| "is_place _ = False"

fun is_variant :: "expr \<Rightarrow> bool" where
  "is_variant (EVariant _ _ _) = True"
| "is_variant _ = False"

fun is_call :: "expr \<Rightarrow> bool" where
  "is_call (EFuncApp _ _ _ _ _) = True"
| "is_call (EDomainFuncApp _ _ _) = True"
| "is_call _ = False"

text \<open>The depth, a \<open>u32\<close> in the code, is at most the size of the expression and is a natural number here.\<close>

fun place_depth :: "expr \<Rightarrow> nat option" where
  "place_depth (ELocal _ _) = Some 1"
| "place_depth (EVariant b _ _) = map_option Suc (place_depth b)"
| "place_depth (EField b _ _) = map_option Suc (place_depth b)"
| "place_depth (EAddrOf b _ _) = map_option Suc (place_depth b)"
| "place_depth (ELabelledOld _ b _) = map_option Suc (place_depth b)"
| "place_depth (EUnfolding _ _ b _ _ _) = map_option Suc (place_depth b)"
| "place_depth _ = None"

fun is_simple_place :: "expr \<Rightarrow> bool" where
  "is_simple_place (ELocal _ _) = True"
| "is_simple_place (EVariant b _ _) = is_simple_place b"
| "is_simple_place (EField b _ _) = is_simple_place b"
| "is_simple_place _ = False"

text \<open>The outer \<open>None\<close> is the \<open>unreachable!\<close> of the source.\<close>

fun get_parent :: "expr \<Rightarrow> expr option option" where
  "get_parent (ELocal _ _) = Some None"
| "get_parent (EVariant b _ _) = Some (Some b)"
| "get_parent (EField b _ _) = Some (Some b)"
| "get_parent (EAddrOf b _ _) = Some (Some b)"
| "get_parent (ELabelledOld _ _ _) = Some None"
| "get_parent (EUnfolding _ _ _ _ _ _) = Some None"
| "get_parent _ = None"

fun is_mir_reference :: "expr \<Rightarrow> bool" where
  "is_mir_reference (EField (ELocal v _) _ _) =
     (case lv_typ v of TTypedRef name \<Rightarrow> starts_with name ''ref$'' | _ \<Rightarrow> False)"
| "is_mir_reference _ = False"

fun is_local :: "expr \<Rightarrow> bool" where
  "is_local (ELocal _ _) = True"
| "is_local _ = False"

fun is_addr_of :: "expr \<Rightarrow> bool" where
  "is_addr_of (EAddrOf _ _ _) = True"
| "is_addr_of _ = False"

fun get_label :: "expr \<Rightarrow> string option" where
  "get_label (ELabelledOld label _ _) = Some label"
| "get_label _ = None"

definition is_old :: "expr \<Rightarrow> bool" where
  "is_old e \<longleftrightarrow> get_label e \<noteq> None"

definition is_curr :: "expr \<Rightarrow> bool" where
  "is_curr e \<longleftrightarrow> \<not> is_old e"

fun expr_old :: "expr \<Rightarrow> string \<Rightarrow> expr" where
  "expr_old (ELocal v p) label = ELocal v p"
| "expr_old (ELabelledOld l b p) label = ELabelledOld l b p"
| "expr_old e label = ELabelledOld label e position_default"

fun expr_get_place :: "expr \<Rightarrow> expr option" where
  "expr_get_place (EPredicateAccessPredicate _ arg _ _) = Some arg"
| "expr_get_place (EFieldAccessPredicate arg _ _) = Some arg"
| "expr_get_place _ = None"

fun expr_get_perm_amount :: "expr \<Rightarrow> perm_amount option" where
  "expr_get_perm_amount (EPredicateAccessPredicate _ _ q _) = Some q"
| "expr_get_perm_amount (EFieldAccessPredicate _ q _) = Some q"
| "expr_get_perm_amount _ = None"

fun get_base :: "expr \<Rightarrow> local_var option" where
  "get_base (ELocal v _) = Some v"
| "get_base (ELabelledOld _ b _) = get_base b"
| "get_base (EUnfolding _ _ b _ _ _) = get_base b"
| "get_base (EVariant b _ _) = get_base b"
| "get_base (EField b _ _) = get_base b"
| "get_base (EAddrOf b _ _) = get_base b"
| "get_base _ = None"

definition expr_local :: "local_var \<Rightarrow> expr" where
  "expr_local v = ELocal v position_default"

definition expr_field :: "expr \<Rightarrow> vfield \<Rightarrow> expr" where
  "expr_field e f = EField e f position_default"

definition expr_variant :: "expr \<Rightarrow> string \<Rightarrow> expr option" where
  "expr_variant e index =
     (if is_place e then
        (case get_type e of None \<Rightarrow> None
         | Some typ \<Rightarrow>
             (case type_variant typ index of None \<Rightarrow> None
              | Some vt \<Rightarrow> Some (EVariant e (field_new (''enum_'' @ index) vt) position_default)))
      else None)"

definition addr_of :: "expr \<Rightarrow> expr option" where
  "addr_of e =
     (case get_type e of None \<Rightarrow> None
      | Some t \<Rightarrow> Some (EAddrOf e (TTypedRef (type_name t)) position_default))"

definition try_deref :: "expr \<Rightarrow> expr option option" where
  "try_deref e =
     (case get_type e of
        None \<Rightarrow> None
      | Some (TTypedRef predicate_name) \<Rightarrow>
          (if starts_with predicate_name ''ref$''
           then Some (Some (expr_field e (field_new ''val_ref'' (TTypedRef (drop 4 predicate_name)))))
           else Some None)
      | Some _ \<Rightarrow> Some None)"

fun local_type :: "expr \<Rightarrow> string option" where
  "local_type (ELocal v _) = (case lv_typ v of TTypedRef s \<Rightarrow> Some s | _ \<Rightarrow> None)"
| "local_type _ = None"

fun negate :: "expr \<Rightarrow> expr" where
  "negate (EUnaryOp UnNot inner _) = inner"
| "negate e = expr_not e"

text \<open>\<open>is_bool\<close> calls \<open>get_type\<close> on places only, where it cannot panic.\<close>

fun is_bool_shape :: "expr \<Rightarrow> bool" where
  "is_bool_shape (EConst (CBool _) _) = True"
| "is_bool_shape (EUnaryOp UnNot _ _) = True"
| "is_bool_shape (EFuncApp _ _ _ TBool _) = True"
| "is_bool_shape (EForAll _ _ _ _) = True"
| "is_bool_shape (EExists _ _ _ _) = True"
| "is_bool_shape (EBinOp kind _ _ _) =
     (kind \<in> {EqCmp, NeCmp, GtCmp, GeCmp, LtCmp, LeCmp, OpAnd, OpOr, OpImplies})"
| "is_bool_shape _ = False"

definition is_bool :: "expr \<Rightarrow> bool" where
  "is_bool e =
     (if is_place e then (case get_type e of Some t \<Rightarrow> type_eq t TBool | None \<Rightarrow> False)
      else is_bool_shape e)"

lemma place_get_type: "is_place e \<Longrightarrow> \<exists>t. get_type e = Some t"
  by (induction e rule: is_place.induct) auto

lemma place_get_base: "is_place e \<longleftrightarrow> (\<exists>v. get_base e = Some v)"
  by (induction e rule: is_place.induct) auto

lemma place_depth_place: "is_place e \<longleftrightarrow> (\<exists>n. place_depth e = Some n)"
  by (induction e rule: is_place.induct) auto

lemma simple_place_is_place: "is_simple_place e \<Longrightarrow> is_place e"
  by (induction e rule: is_simple_place.induct) auto

subsection \<open>Prefixes of places\<close>

text \<open>
  \<open>has_prefix\<close> and \<open>all_prefixes\<close> follow \<open>get_parent\<close>, and inherit its panic (\<open>None\<close>).  The
  fold-unfold algorithm asks for prefixes throughout, so what it needs of them is stated as an
  interface: a set of objects with an equality and a parent that respects it.
\<close>

lemma get_parent_size [termination_simp]: "get_parent e = Some (Some p) \<Longrightarrow> size p < size e"
  by (cases e) auto

function has_prefix :: "expr \<Rightarrow> expr \<Rightarrow> bool option" where
  "has_prefix e other =
     (if expr_eq e other then Some True
      else case get_parent e of
             None \<Rightarrow> None
           | Some None \<Rightarrow> Some False
           | Some (Some parent) \<Rightarrow> has_prefix parent other)"
  by pat_completeness auto
termination by (relation "measure (size \<circ> fst)") (auto simp: get_parent_size)

declare has_prefix.simps [simp del]

definition has_proper_prefix :: "expr \<Rightarrow> expr \<Rightarrow> bool option" where
  "has_proper_prefix e other = (if expr_eq e other then Some False else has_prefix e other)"

text \<open>\<open>all_proper_prefixes\<close> and \<open>all_prefixes\<close> call each other; the second is the recursion.\<close>

function all_prefixes :: "expr \<Rightarrow> expr list option" where
  "all_prefixes e =
     (case get_parent e of
        None \<Rightarrow> None
      | Some None \<Rightarrow> Some [e]
      | Some (Some parent) \<Rightarrow> map_option (\<lambda>res. res @ [e]) (all_prefixes parent))"
  by pat_completeness auto
termination by (relation "measure size") (auto simp: get_parent_size)

declare all_prefixes.simps [simp del]

definition all_proper_prefixes :: "expr \<Rightarrow> expr list option" where
  "all_proper_prefixes e =
     (case get_parent e of
        None \<Rightarrow> None
      | Some None \<Rightarrow> Some []
      | Some (Some parent) \<Rightarrow> all_prefixes parent)"

locale prefix_forest = partial_equiv eq for eq :: "'a \<Rightarrow> 'a \<Rightarrow> bool" +
  fixes parent :: "'a \<Rightarrow> 'a option"
    and weight :: "'a \<Rightarrow> nat"
    and pre :: "'a \<Rightarrow> 'a \<Rightarrow> bool"
    and prefixes :: "'a \<Rightarrow> 'a list"
  assumes parent_weight: "parent x = Some p \<Longrightarrow> weight p < weight x"
    and parent_eq: "eq x y \<Longrightarrow> rel_option eq (parent x) (parent y)"
    and pre_unfold: "pre x y \<longleftrightarrow> eq x y \<or> (\<exists>p. parent x = Some p \<and> pre p y)"
    and prefixes_unfold:
      "prefixes x = (case parent x of None \<Rightarrow> [] | Some p \<Rightarrow> prefixes p) @ [x]"
begin

lemma parent_induct [case_names step]:
  assumes "\<And>x. (\<And>p. parent x = Some p \<Longrightarrow> P p) \<Longrightarrow> P x"
  shows "P x"
  by (induction x rule: measure_induct_rule [of weight]) (use assms parent_weight in blast)

lemma pre_refl: "eq x x \<Longrightarrow> pre x x"
  using pre_unfold by blast

lemma pre_eq_left: "pre x y \<Longrightarrow> eq x' x \<Longrightarrow> pre x' y"
proof (induction x arbitrary: x' rule: parent_induct)
  case (step x)
  show ?case
  proof (cases "eq x y")
    case True
    then show ?thesis using step.prems eq_trans pre_unfold by blast
  next
    case False
    then obtain p where p: "parent x = Some p" "pre p y" using step.prems pre_unfold by blast
    then obtain p' where "parent x' = Some p'" "eq p' p"
      using parent_eq [OF step.prems(2)] by (auto simp: option_rel_Some2)
    then show ?thesis using step.IH [OF p] pre_unfold p by blast
  qed
qed

lemma pre_trans: "pre x y \<Longrightarrow> pre y z \<Longrightarrow> pre x z"
proof (induction x rule: parent_induct)
  case (step x)
  then show ?case using pre_eq_left [of y z x] pre_unfold [of x y] pre_unfold [of x z] by blast
qed

lemma eq_prefix_length: "eq x y \<Longrightarrow> length (prefixes x) = length (prefixes y)"
proof (induction x arbitrary: y rule: parent_induct)
  case (step x)
  then show ?case
    using parent_eq [OF step.prems]
    by (cases "parent x"; cases "parent y")
       (auto simp: prefixes_unfold [of x] prefixes_unfold [of y])
qed

lemma pre_length:
  "pre x y \<Longrightarrow> length (prefixes y) \<le> length (prefixes x) \<and>
     (length (prefixes y) = length (prefixes x) \<longrightarrow> eq x y)"
proof (induction x rule: parent_induct)
  case (step x)
  show ?case
  proof (cases "eq x y")
    case True
    then show ?thesis using eq_prefix_length by simp
  next
    case False
    then obtain p where p: "parent x = Some p" "pre p y" using step.prems pre_unfold by blast
    then show ?thesis using step.IH [OF p] by (simp add: prefixes_unfold [of x])
  qed
qed

lemma pre_antisym: "pre x y \<Longrightarrow> pre y x \<Longrightarrow> eq x y"
  using pre_length [of x y] pre_length [of y x] by auto

lemma pre_linear: "pre x y \<Longrightarrow> pre x z \<Longrightarrow> pre y z \<or> pre z y"
proof (induction x rule: parent_induct)
  case (step x)
  show ?case
  proof (cases "eq x y \<or> eq x z")
    case True
    then show ?thesis using step.prems pre_eq_left eq_sym by blast
  next
    case False
    then show ?thesis using step pre_unfold [of x y] pre_unfold [of x z] by auto
  qed
qed

lemma pre_iff_member: "pre x y \<longleftrightarrow> (\<exists>z \<in> set (prefixes x). eq z y)"
proof (induction x rule: parent_induct)
  case (step x)
  then show ?case
    using pre_unfold [of x y] by (cases "parent x") (auto simp: prefixes_unfold [of x])
qed

lemma prefixes_sorted: "sorted_wrt (\<lambda>a b. length (prefixes a) < length (prefixes b)) (prefixes x)"
proof (induction x rule: parent_induct)
  case (step x)
  have below: "length (prefixes z) \<le> length (prefixes y)" if "z \<in> set (prefixes y)" for y z
    using that
  proof (induction y rule: parent_induct)
    case (step y)
    then show ?case
      by (cases "parent y") (fastforce simp: prefixes_unfold [of y])+
  qed
  show ?case
  proof (cases "parent x")
    case (Some p)
    then have "length (prefixes z) < length (prefixes x)" if "z \<in> set (prefixes p)" for z
      using below [OF that] by (simp add: prefixes_unfold [of x])
    then show ?thesis
      using Some step prefixes_unfold [of x] by (simp add: sorted_wrt_append)
  qed (simp add: prefixes_unfold [of x])
qed

end

text \<open>Total readings of the checked operations: what they return when they return.\<close>

definition place_parent :: "expr \<Rightarrow> expr option" where
  "place_parent e = (case get_parent e of Some (Some p) \<Rightarrow> Some p | _ \<Rightarrow> None)"

definition prefix_of :: "expr \<Rightarrow> expr \<Rightarrow> bool" where
  "prefix_of e other \<longleftrightarrow> has_prefix e other = Some True"

function prefix_list :: "expr \<Rightarrow> expr list" where
  "prefix_list e = (case place_parent e of None \<Rightarrow> [] | Some p \<Rightarrow> prefix_list p) @ [e]"
  by pat_completeness auto
termination
  by (relation "measure size") (auto simp: place_parent_def split: option.splits intro: get_parent_size)

declare prefix_list.simps [simp del]

interpretation pl: prefix_forest expr_eq place_parent size prefix_of prefix_list
proof unfold_locales
  fix x y p :: expr
  show "place_parent x = Some p \<Longrightarrow> size p < size x"
    by (auto simp: place_parent_def get_parent_size split: option.splits)
  show "expr_eq x y \<Longrightarrow> rel_option expr_eq (place_parent x) (place_parent y)"
    by (cases x; cases y) (auto simp: place_parent_def)
  show "prefix_of x y \<longleftrightarrow> expr_eq x y \<or> (\<exists>p. place_parent x = Some p \<and> prefix_of p y)"
    unfolding prefix_of_def place_parent_def
    by (subst has_prefix.simps) (auto split: option.splits)
  show "prefix_list x = (case place_parent x of None \<Rightarrow> [] | Some p \<Rightarrow> prefix_list p) @ [x]"
    by (rule prefix_list.simps)
qed

lemma place_parent_place: "is_place e \<Longrightarrow> get_parent e = Some (place_parent e) \<and>
    (\<forall>p. place_parent e = Some p \<longrightarrow> is_place p)"
  by (cases e) (auto simp: place_parent_def)

lemma has_prefix_total: "is_place e \<Longrightarrow> has_prefix e other = Some (prefix_of e other)"
proof (induction e rule: pl.parent_induct)
  case (step e)
  then show ?case
    using place_parent_place [OF step.prems] has_prefix.simps [of e other]
    by (cases "place_parent e") (auto simp: prefix_of_def)
qed

lemma all_prefixes_total: "is_place e \<Longrightarrow> all_prefixes e = Some (prefix_list e)"
proof (induction e rule: pl.parent_induct)
  case (step e)
  then show ?case
    using place_parent_place [OF step.prems]
    by (cases "place_parent e") (auto simp: all_prefixes.simps [of e] prefix_list.simps [of e])
qed

lemma prefix_list_place: "is_place e \<Longrightarrow> x \<in> set (prefix_list e) \<Longrightarrow> is_place x"
proof (induction e rule: pl.parent_induct)
  case (step e)
  then show ?case
    using place_parent_place [OF step.prems(1)]
    by (cases "place_parent e") (auto simp: prefix_list.simps [of e])
qed

subsection \<open>Exploding and reconstructing places\<close>

fun explode_place :: "expr \<Rightarrow> expr \<times> place_component list" where
  "explode_place (EVariant base variant p) =
     (let (base_base, components) = explode_place base
      in (base_base, components @ [PCVariant variant p]))"
| "explode_place (EField base field p) =
     (let (base_base, components) = explode_place base
      in (base_base, components @ [PCField field p]))"
| "explode_place e = (e, [])"

fun add_component :: "expr \<Rightarrow> place_component \<Rightarrow> expr" where
  "add_component acc (PCVariant variant p) = EVariant acc variant p"
| "add_component acc (PCField field p) = EField acc field p"

definition reconstruct_place :: "expr \<Rightarrow> place_component list \<Rightarrow> expr" where
  "reconstruct_place e components = foldl add_component e components"

lemma reconstruct_explode: "(case explode_place e of (b, cs) \<Rightarrow> reconstruct_place b cs) = e"
  by (induction e rule: explode_place.induct)
     (auto simp: reconstruct_place_def split: prod.splits)

lemma explode_reconstruct:
  "snd (explode_place b) = [] \<Longrightarrow> explode_place (reconstruct_place b cs) = (b, cs)"
proof (induction cs rule: rev_induct)
  case Nil
  then show ?case by (cases b) (auto simp: reconstruct_place_def split: prod.splits)
next
  case (snoc c cs)
  then show ?case by (cases c) (auto simp: reconstruct_place_def)
qed

text \<open>
  C27 On places, the prefix relation the fold-unfold algorithm computes with never panics and is a
  tree order: reflexive, transitive, antisymmetric up to equality of expressions, and the prefixes
  of one place are a chain.  Reflexivity is for the places that are equal to themselves, which leaves out those
  with an inhale-exhale pair or a downcast in the arguments of an unfolding.
\<close>

theorem has_prefix_tree_order:
  assumes "is_place a" "is_place b" "is_place c"
  shows "(\<exists>r. has_prefix a b = Some r) \<and>
    (eq_supported a \<longrightarrow> has_prefix a a = Some True) \<and>
    (has_prefix a b = Some True \<and> has_prefix b c = Some True \<longrightarrow> has_prefix a c = Some True) \<and>
    (has_prefix a b = Some True \<and> has_prefix b a = Some True \<longrightarrow> expr_eq a b) \<and>
    (has_prefix a b = Some True \<and> has_prefix a c = Some True \<longrightarrow>
       has_prefix b c = Some True \<or> has_prefix c b = Some True)"
  using assms pl.pre_refl [of a] pl.pre_trans [of a b c] pl.pre_antisym [of a b]
    pl.pre_linear [of a b c] expr_eq_refl_iff
  by (auto simp: has_prefix_total)

theorem has_prefix_tree_order_witness:
  "let x = ELocal (local_var_new ''x'' (TTypedRef ''T'')) position_default;
       xf = expr_field x (field_new ''f'' (TTypedRef ''U''));
       xfg = expr_field xf (field_new ''g'' TInt)
   in has_prefix xfg xf = Some True \<and> has_prefix xf x = Some True \<and> has_prefix xfg x = Some True \<and>
      has_prefix x xf = Some False"
proof -
  let ?x = "ELocal (local_var_new ''x'' (TTypedRef ''T'')) position_default"
  let ?xf = "expr_field ?x (field_new ''f'' (TTypedRef ''U''))"
  let ?xfg = "expr_field ?xf (field_new ''g'' TInt)"
  have "is_place ?xfg" "is_place ?xf" "is_place ?x" by (simp_all add: expr_field_def)
  from has_prefix_tree_order [OF this]
  have "has_prefix ?xfg ?xf = Some True \<and> has_prefix ?xf ?x = Some True \<Longrightarrow> has_prefix ?xfg ?x = Some True"
    by blast
  moreover have "has_prefix ?xfg ?xf = Some True" "has_prefix ?xf ?x = Some True"
    "has_prefix ?x ?xf = Some False"
    by (simp_all add: has_prefix.simps expr_field_def field_new_def local_var_new_def
        local_var_eq_def field_eq_def type_eq_def)
  ultimately show ?thesis by (simp add: Let_def)
qed

text \<open>
  \<open>all_prefixes\<close> of a place lists, from the shortest to the longest, exactly the places that
  \<open>has_prefix\<close> accepts (up to equality), ending with the place itself.
\<close>

theorem all_prefixes_exact:
  assumes "is_place e"
  shows "\<exists>ps. all_prefixes e = Some ps \<and> last ps = e \<and> ps \<noteq> [] \<and> (\<forall>p \<in> set ps. is_place p) \<and>
    (\<forall>other. has_prefix e other = Some True \<longleftrightarrow> (\<exists>p \<in> set ps. expr_eq p other)) \<and>
    sorted_wrt (\<lambda>p q. length (the (all_prefixes p)) < length (the (all_prefixes q))) ps"
proof (intro exI conjI)
  show "all_prefixes e = Some (prefix_list e)" using assms by (rule all_prefixes_total)
  show "last (prefix_list e) = e" "prefix_list e \<noteq> []" by (simp_all add: prefix_list.simps [of e])
  show places: "\<forall>p \<in> set (prefix_list e). is_place p" using assms prefix_list_place by blast
  show "\<forall>other. has_prefix e other = Some True \<longleftrightarrow> (\<exists>p \<in> set (prefix_list e). expr_eq p other)"
    using pl.pre_iff_member by (simp add: has_prefix_total [OF assms])
  show "sorted_wrt (\<lambda>p q. length (the (all_prefixes p)) < length (the (all_prefixes q))) (prefix_list e)"
    using pl.prefixes_sorted [of e] places
    by (elim sorted_wrt_mono_rel [rotated]) (simp add: all_prefixes_total)
qed

theorem all_prefixes_exact_witness:
  "let x = ELocal (local_var_new ''x'' (TTypedRef ''T'')) position_default;
       xf = expr_field x (field_new ''f'' TInt)
   in all_prefixes xf = Some [x, xf] \<and> has_prefix xf x = Some True"
proof -
  let ?x = "ELocal (local_var_new ''x'' (TTypedRef ''T'')) position_default"
  let ?xf = "expr_field ?x (field_new ''f'' TInt)"
  have ap: "all_prefixes ?xf = Some [?x, ?xf]"
    unfolding expr_field_def
    by (simp add: all_prefixes.simps [of "EField _ _ _"] all_prefixes.simps [of "ELocal _ _"])
  have "is_place ?xf" by (simp add: expr_field_def)
  from all_prefixes_exact [OF this]
  have "has_prefix ?xf ?x = Some True \<longleftrightarrow> (\<exists>p \<in> set [?x, ?xf]. expr_eq p ?x)" using ap by auto
  then show ?thesis using ap by (simp add: Let_def local_var_eq_def type_eq_def)
qed

text \<open>
  Exploding a place into its base and components and reconstructing it are inverse to each
  other: a place is rebuilt exactly, and components put on a base are found again.
\<close>

theorem explode_reconstruct_roundtrip:
  "(case explode_place e of (b, cs) \<Rightarrow> reconstruct_place b cs) = e \<and>
   (snd (explode_place b) = [] \<longrightarrow> explode_place (reconstruct_place b cs) = (b, cs))"
  using reconstruct_explode explode_reconstruct by blast

theorem explode_reconstruct_roundtrip_witness:
  "let x = ELocal (local_var_new ''x'' (TTypedRef ''T'')) position_default;
       cs = [PCField (field_new ''f'' TInt) position_default, PCVariant (field_new ''v'' TInt) position_default]
   in explode_place (reconstruct_place x cs) = (x, cs)"
  using explode_reconstruct_roundtrip
    [of _ "ELocal (local_var_new ''x'' (TTypedRef ''T'')) position_default"
      "[PCField (field_new ''f'' TInt) position_default, PCVariant (field_new ''v'' TInt) position_default]"]
  by (simp add: Let_def)

text \<open>
  The type of a \<open>let\<close> expression is reported as the type of the bound variable, not of the body:
  here the body is a comparison of type Bool and \<open>get_type\<close> answers Int.
\<close>

theorem get_type_let_is_bound_variable:
  "let x = local_var_new ''x'' TInt; body = gt_cmp (expr_local x) int_zero;
       e = ELetExpr x int_zero body position_default
   in get_type body = Some TBool \<and> get_type e = Some TInt"
  by (simp add: Let_def local_var_new_def gt_cmp_def expr_bin_def)

end
