(* ===== verification/Vir_Hash.thy ===== *)
theory Vir_Hash
  imports Vir_Place
begin

section \<open>Hashing and integer constants\<close>

text \<open>
  The hand-written \<open>Hash\<close> of \<^verbatim>\<open>ast/expr.rs\<close>, and the conversions of Rust integers
  into constants of \<^verbatim>\<open>vir/conversions.rs\<close>.  A hash is the sequence of writes into the \<open>Hasher\<close>,
  so two values that write the same sequence collide for every hasher.
\<close>

subsection \<open>Hash\<close>

datatype hash_write = HDisc nat | HStr string | HLen nat | HNat nat | HInt int | HBool bool

fun hash_type :: "type \<Rightarrow> hash_write list" where
  "hash_type t = [HDisc (type_discriminant t)]"

definition hash_var :: "local_var \<Rightarrow> hash_write list" where
  "hash_var v = HStr (lv_name v) # hash_type (lv_typ v)"

definition hash_field :: "vfield \<Rightarrow> hash_write list" where
  "hash_field f = HStr (fd_name f) # hash_type (fd_typ f)"

fun hash_perm :: "perm_amount \<Rightarrow> hash_write list" where
  "hash_perm Read = [HDisc 0]"
| "hash_perm Write = [HDisc 1]"
| "hash_perm Remaining = [HDisc 2]"

fun hash_const :: "const_lit \<Rightarrow> hash_write list" where
  "hash_const (CBool b) = [HDisc 0, HBool b]"
| "hash_const (CInt w) = [HDisc 1, HInt (sint w)]"
| "hash_const (CBigInt s) = [HDisc 2, HStr s]"
| "hash_const CFnPtr = [HDisc 3]"

fun hash_unop :: "unary_op_kind \<Rightarrow> hash_write list" where
  "hash_unop UnNot = [HDisc 0]"
| "hash_unop UnMinus = [HDisc 1]"

fun hash_binop :: "bin_op_kind \<Rightarrow> hash_write list" where
  "hash_binop EqCmp = [HDisc 0]" | "hash_binop NeCmp = [HDisc 1]"
| "hash_binop GtCmp = [HDisc 2]" | "hash_binop GeCmp = [HDisc 3]"
| "hash_binop LtCmp = [HDisc 4]" | "hash_binop LeCmp = [HDisc 5]"
| "hash_binop OpAdd = [HDisc 6]" | "hash_binop OpSub = [HDisc 7]"
| "hash_binop OpMul = [HDisc 8]" | "hash_binop OpDiv = [HDisc 9]"
| "hash_binop OpMod = [HDisc 10]" | "hash_binop OpAnd = [HDisc 11]"
| "hash_binop OpOr = [HDisc 12]" | "hash_binop OpImplies = [HDisc 13]"

fun hash_container_op :: "container_op_kind \<Rightarrow> hash_write list" where
  "hash_container_op SeqIndex = [HDisc 0]"
| "hash_container_op SeqConcat = [HDisc 1]"
| "hash_container_op SeqLen = [HDisc 2]"

definition hash_option :: "('a \<Rightarrow> hash_write list) \<Rightarrow> 'a option \<Rightarrow> hash_write list" where
  "hash_option h x = (case x of None \<Rightarrow> [HDisc 0] | Some y \<Rightarrow> HDisc 1 # h y)"

definition hash_vec :: "('a \<Rightarrow> hash_write list) \<Rightarrow> 'a list \<Rightarrow> hash_write list" where
  "hash_vec h xs = HLen (length xs) # concat (map h xs)"

lemma hash_vec_cong [fundef_cong]:
  "xs = ys \<Longrightarrow> (\<And>x. x \<in> set ys \<Longrightarrow> f x = g x) \<Longrightarrow> hash_vec f xs = hash_vec g ys"
  by (simp add: hash_vec_def cong: map_cong)

fun expr_hash :: "expr \<Rightarrow> hash_write list" where
  "expr_hash (ELocal v _) = HDisc 0 # hash_var v"
| "expr_hash (EVariant b f _) = HDisc 1 # expr_hash b @ hash_field f"
| "expr_hash (EField b f _) = HDisc 2 # expr_hash b @ hash_field f"
| "expr_hash (EAddrOf b t _) = HDisc 3 # expr_hash b @ hash_type t"
| "expr_hash (ELabelledOld l b _) = HDisc 4 # HStr l # expr_hash b"
| "expr_hash (EConst c _) = HDisc 5 # hash_const c"
| "expr_hash (EMagicWand l r w _) =
     HDisc 6 # expr_hash l @ expr_hash r @ hash_option (\<lambda>b. [HNat (borrow_id b)]) w"
| "expr_hash (EPredicateAccessPredicate n a m _) = HDisc 7 # HStr n # expr_hash a @ hash_perm m"
| "expr_hash (EFieldAccessPredicate a m _) = HDisc 8 # expr_hash a @ hash_perm m"
| "expr_hash (EUnaryOp op a _) = HDisc 9 # hash_unop op @ expr_hash a"
| "expr_hash (EBinOp op l r _) = HDisc 10 # hash_binop op @ expr_hash l @ expr_hash r"
| "expr_hash (EContainerOp op l r _) = HDisc 11 # hash_container_op op @ expr_hash l @ expr_hash r"
| "expr_hash (ESeq t es _) = HDisc 12 # hash_type t @ hash_vec expr_hash es"
| "expr_hash (EUnfolding n es b m i _) =
     HDisc 13 # HStr n # hash_vec expr_hash es @ expr_hash b @ hash_perm m @
     hash_option (\<lambda>v. [HStr (get_variant_name v)]) i"
| "expr_hash (ECond g t e _) = HDisc 14 # expr_hash g @ expr_hash t @ expr_hash e"
| "expr_hash (EForAll vs ts b _) =
     HDisc 15 # hash_vec hash_var vs @
     hash_vec (\<lambda>t. hash_vec expr_hash (trigger_elements t)) ts @ expr_hash b"
| "expr_hash (EExists vs ts b _) =
     HDisc 16 # hash_vec hash_var vs @
     hash_vec (\<lambda>t. hash_vec expr_hash (trigger_elements t)) ts @ expr_hash b"
| "expr_hash (ELetExpr v d b _) = HDisc 17 # hash_var v @ expr_hash d @ expr_hash b"
| "expr_hash (EFuncApp n es _ _ _) = HDisc 18 # HStr n # hash_vec expr_hash es"
| "expr_hash (EDomainFuncApp f es _) = HDisc 19 # HStr (df_name f) # hash_vec expr_hash es"
| "expr_hash (EInhaleExhale l r _) = HDisc 20 # expr_hash l @ expr_hash r"
| "expr_hash (EDowncast b pl f) = HDisc 21 # expr_hash b @ expr_hash pl @ hash_field f"
| "expr_hash (ESnapApp b _) = HDisc 22 # expr_hash b"

lemma type_discriminant_erase [simp]: "type_discriminant (erase_type t) = type_discriminant t"
  by (cases t) auto

lemma hash_vec_map_cong:
  "(\<And>x. x \<in> set xs \<Longrightarrow> h (f x) = h x) \<Longrightarrow> hash_vec h (map f xs) = hash_vec h xs"
  by (simp add: hash_vec_def cong: map_cong)

lemma hash_erase: "expr_hash (erase e) = expr_hash e"
proof (induction e rule: expr_parts_induct)
  case (step e)
  have vec: "hash_vec expr_hash (map erase xs) = hash_vec expr_hash xs"
    if "set xs \<subseteq> set (children e) \<union> set (trigger_exprs e)" for xs
    by (rule hash_vec_map_cong) (use step that in blast)
  have vars: "hash_vec hash_var (map erase_var vs) = hash_vec hash_var vs" for vs
    by (rule hash_vec_map_cong) (simp add: hash_var_def erase_var_def)
  have trigs: "hash_vec (\<lambda>t. hash_vec expr_hash (trigger_elements t))
        (map (\<lambda>t. Trigger (map erase (trigger_elements t))) ts) =
      hash_vec (\<lambda>t. hash_vec expr_hash (trigger_elements t)) ts"
    if "\<Union> (set ` trigger_elements ` set ts) \<subseteq> set (trigger_exprs e)" for ts
  proof (rule hash_vec_map_cong)
    fix t assume "t \<in> set ts"
    then have "set (trigger_elements t) \<subseteq> set (children e) \<union> set (trigger_exprs e)" using that by blast
    then show "hash_vec expr_hash (trigger_elements (Trigger (map erase (trigger_elements t)))) =
        hash_vec expr_hash (trigger_elements t)" using vec by simp
  qed
  show ?case
    using step vec trigs
    by (cases e)
       (auto simp: vars hash_var_def hash_field_def erase_var_def erase_field_def
         erase_domain_func_def)
qed

text \<open>
  C29 \<open>Hash\<close> is consistent with \<open>Eq\<close> on expressions: expressions that compare equal feed the same
  sequence to the hasher.  So a hash map keyed by expressions finds what it stores under a key that is equal to
  itself, which a key with an inhale-exhale pair or a downcast is not.
\<close>

theorem expr_eq_hash: "expr_eq a b \<Longrightarrow> expr_hash a = expr_hash b"
  by (metis expr_eq_erase hash_erase)

theorem expr_eq_hash_witness:
  "expr_hash (ELocal (local_var_new ''x'' (TTypedRef ''A'')) (position_new 1 2 3)) =
   expr_hash (ELocal (local_var_new ''x'' (TTypedRef ''B'')) (position_new 4 5 6))"
  by (rule expr_eq_hash) (simp add: local_var_eq_def local_var_new_def type_eq_def)

subsection \<open>Rust integers as constants\<close>

text \<open>
  \<open>as i64\<close> sign-extends signed and zero-extends unsigned operands; the wider types are printed in
  decimal.  \<open>usize\<close> and \<open>isize\<close> are 64 bits wide on the targets the verifier supports.
\<close>

definition from_i8 :: "8 word \<Rightarrow> const_lit" where "from_i8 v = CInt (scast v)"
definition from_i16 :: "16 word \<Rightarrow> const_lit" where "from_i16 v = CInt (scast v)"
definition from_i32 :: "32 word \<Rightarrow> const_lit" where "from_i32 v = CInt (scast v)"
definition from_i64 :: "64 word \<Rightarrow> const_lit" where "from_i64 v = CInt v"
definition from_u8 :: "8 word \<Rightarrow> const_lit" where "from_u8 v = CInt (ucast v)"
definition from_u16 :: "16 word \<Rightarrow> const_lit" where "from_u16 v = CInt (ucast v)"
definition from_u32 :: "32 word \<Rightarrow> const_lit" where "from_u32 v = CInt (ucast v)"
definition from_u64 :: "64 word \<Rightarrow> const_lit" where "from_u64 v = CBigInt (int_to_string (uint v))"
definition from_usize :: "64 word \<Rightarrow> const_lit" where "from_usize v = CBigInt (int_to_string (uint v))"
definition from_isize :: "64 word \<Rightarrow> const_lit" where "from_isize v = CBigInt (int_to_string (sint v))"
definition from_i128 :: "128 word \<Rightarrow> const_lit" where "from_i128 v = CBigInt (int_to_string (sint v))"
definition from_u128 :: "128 word \<Rightarrow> const_lit" where "from_u128 v = CBigInt (int_to_string (uint v))"

fun const_int :: "const_lit \<Rightarrow> int" where
  "const_int (CInt w) = sint w"
| "const_int (CBigInt s) = int_value s"
| "const_int _ = 0"

definition from_char :: "32 word \<Rightarrow> const_lit" where "from_char v = CBigInt (int_to_string (uint v))"
definition from_str :: "string \<Rightarrow> const_lit" where "from_str s = CBigInt s"

lemma sint_scast_up:
  fixes w :: "'a::len word"
  assumes "LENGTH('a) \<le> LENGTH('b::len)"
  shows "sint (scast w :: 'b word) = sint w"
  using assms by (intro sint_up_scast) (simp add: is_up)

lemma sint_ucast_up:
  fixes w :: "'a::len word"
  assumes "LENGTH('a) < LENGTH('b::len)"
  shows "sint (ucast w :: 'b word) = uint w"
proof -
  have "uint w < 2 ^ LENGTH('a)" by (rule uint_lt2p)
  also have "(2::int) ^ LENGTH('a) \<le> 2 ^ (LENGTH('b) - 1)"
    using assms by (intro power_increasing) auto
  finally have "uint w < 2 ^ (LENGTH('b) - 1)" .
  moreover have "uint (ucast w :: 'b word) = uint w"
    using assms by (intro uint_up_ucast) (simp add: is_up)
  moreover have "- (2 ^ (LENGTH('b) - 1)) \<le> uint w" by (rule order_trans [of _ 0]) auto
  ultimately show ?thesis by (simp add: sint_uint signed_take_bit_int_eq_self)
qed

text \<open>
  Converting a Rust integer to a constant keeps its value, for every width and signedness: the
  narrow types fit the 64-bit constant (an unsigned 32-bit value is not read as negative), the
  wide ones go through decimal text.
\<close>

theorem from_int_value:
  "const_int (from_i8 a) = sint a \<and> const_int (from_i16 b) = sint b \<and>
   const_int (from_i32 c) = sint c \<and> const_int (from_i64 d) = sint d \<and>
   const_int (from_isize d) = sint d \<and> const_int (from_i128 f) = sint f \<and>
   const_int (from_u8 a) = uint a \<and> const_int (from_u16 b) = uint b \<and>
   const_int (from_u32 c) = uint c \<and> const_int (from_u64 d) = uint d \<and>
   const_int (from_usize d) = uint d \<and> const_int (from_u128 f) = uint f \<and>
   const_int (from_char c) = uint c"
  by (simp add: from_i8_def from_i16_def from_i32_def from_i64_def from_isize_def from_i128_def
      from_u8_def from_u16_def from_u32_def from_u64_def from_usize_def from_u128_def from_char_def
      sint_scast_up sint_ucast_up int_value_int_to_string)

end
