(* ===== verification/Vir_Transformers.thy ===== *)
theory Vir_Transformers
  imports Vir_Place
begin

section \<open>Traversals of expressions\<close>

text \<open>
  \<^verbatim>\<open>ast/expr_transformers.rs\<close> and the traversals \<^verbatim>\<open>ast/expr.rs\<close> builds with it.  The three traits
  \<open>ExprFolder\<close>, \<open>ExprWalker\<close> and \<open>FallibleExprFolder\<close> become one-layer functions that take the
  trait's \<open>fold\<close> (\<open>walk\<close>, \<open>fallible_fold\<close>) as an argument: \<open>default_fold_expr f e s\<close> is
  \<open>default_fold_expr(this, e)\<close> with \<open>this.fold = f\<close> and the folder's fields in the state \<open>s\<close>.
  A method a folder overrides is a case of its own in front of the call of the default.
\<close>

subsection \<open>One layer of a fold\<close>

text \<open>
  The folded parts of an expression, in the order in which the default methods of \<open>ExprFolder\<close>
  visit them, are its \<open>children\<close>; \<open>with_children\<close> puts the results back.  Triggers are neither
  folded nor walked by the default methods.
\<close>

fun with_children :: "expr \<Rightarrow> expr list \<Rightarrow> expr" where
  "with_children (EVariant b f p) cs = EVariant (hd cs) f p"
| "with_children (EField b f p) cs = EField (hd cs) f p"
| "with_children (EAddrOf b t p) cs = EAddrOf (hd cs) t p"
| "with_children (ELabelledOld l b p) cs = ELabelledOld l (hd cs) p"
| "with_children (EMagicWand l r w p) cs = EMagicWand (cs ! 0) (cs ! 1) w p"
| "with_children (EPredicateAccessPredicate n a m p) cs = EPredicateAccessPredicate n (hd cs) m p"
| "with_children (EFieldAccessPredicate a m p) cs = EFieldAccessPredicate (hd cs) m p"
| "with_children (EUnaryOp op a p) cs = EUnaryOp op (hd cs) p"
| "with_children (EBinOp op l r p) cs = EBinOp op (cs ! 0) (cs ! 1) p"
| "with_children (EContainerOp op l r p) cs = EContainerOp op (cs ! 0) (cs ! 1) p"
| "with_children (ESeq t es p) cs = ESeq t cs p"
| "with_children (EUnfolding n es b m i p) cs = EUnfolding n (butlast cs) (last cs) m i p"
| "with_children (ECond g t e p) cs = ECond (cs ! 0) (cs ! 1) (cs ! 2) p"
| "with_children (EForAll vs ts b p) cs = EForAll vs ts (hd cs) p"
| "with_children (EExists vs ts b p) cs = EExists vs ts (hd cs) p"
| "with_children (ELetExpr v d b p) cs = ELetExpr v (cs ! 0) (cs ! 1) p"
| "with_children (EFuncApp n es fs t p) cs = EFuncApp n cs fs t p"
| "with_children (EDomainFuncApp f es p) cs = EDomainFuncApp f cs p"
| "with_children (EInhaleExhale l r p) cs = EInhaleExhale (cs ! 0) (cs ! 1) p"
| "with_children (EDowncast b pl f) cs = EDowncast (cs ! 0) (cs ! 1) f"
| "with_children (ESnapApp b p) cs = ESnapApp (hd cs) p"
| "with_children (ELocal v p) cs = ELocal v p"
| "with_children (EConst c p) cs = EConst c p"

lemma with_children_children [simp]: "with_children e (children e) = e"
  by (cases e) auto

lemma children_with_children [simp]:
  "length cs = length (children e) \<Longrightarrow> children (with_children e cs) = cs"
  by (cases e)
     (auto simp: length_Suc_conv numeral_2_eq_2 numeral_3_eq_3
           intro: append_butlast_last_id)

definition default_fold_expr :: "(expr \<Rightarrow> 's \<Rightarrow> expr \<times> 's) \<Rightarrow> expr \<Rightarrow> 's \<Rightarrow> expr \<times> 's" where
  "default_fold_expr this_fold e s = (let (cs, t) = mapS this_fold (children e) s in (with_children e cs, t))"

definition default_fallible_fold_expr ::
  "(expr \<Rightarrow> 's \<Rightarrow> 'err + expr \<times> 's) \<Rightarrow> expr \<Rightarrow> 's \<Rightarrow> 'err + expr \<times> 's" where
  "default_fallible_fold_expr this_fold e s =
     (case mapR this_fold (children e) s of Inl err \<Rightarrow> Inl err
      | Inr (cs, t) \<Rightarrow> Inr (with_children e cs, t))"

text \<open>The default fold of a folder with no fields.\<close>

definition fold_children :: "(expr \<Rightarrow> expr) \<Rightarrow> expr \<Rightarrow> expr" where
  "fold_children this_fold e = with_children e (map this_fold (children e))"

text \<open>The fallible fold of a folder with no fields.\<close>

definition fallible_fold_children :: "(expr \<Rightarrow> 'err + expr) \<Rightarrow> expr \<Rightarrow> 'err + expr" where
  "fallible_fold_children this_fold e =
     (case mapE this_fold (children e) of Inl err \<Rightarrow> Inl err | Inr cs \<Rightarrow> Inr (with_children e cs))"

lemma fallible_fold_children_cong [fundef_cong]:
  "e = e' \<Longrightarrow> (\<And>x. x \<in> set (children e') \<Longrightarrow> f x = g x) \<Longrightarrow>
     fallible_fold_children f e = fallible_fold_children g e'"
  unfolding fallible_fold_children_def by (metis mapE_cong)

lemma size_arg [simp]:
  "x \<in> set xs \<Longrightarrow> size x < Suc (size_list size xs)"
  "x \<in> set xs \<Longrightarrow> size x < Suc (size_list size xs + n)"
  by (auto simp: less_Suc_eq_le size_list_estimation' intro: trans_le_add1)

lemma default_fold_expr_cong [fundef_cong]:
  "e = e' \<Longrightarrow> s = s' \<Longrightarrow> (\<And>x u. x \<in> set (children e') \<Longrightarrow> f x u = g x u) \<Longrightarrow>
     default_fold_expr f e s = default_fold_expr g e' s'"
  unfolding default_fold_expr_def by (metis mapS_cong)

lemma default_fallible_fold_expr_cong [fundef_cong]:
  "e = e' \<Longrightarrow> s = s' \<Longrightarrow> (\<And>x u. x \<in> set (children e') \<Longrightarrow> f x u = g x u) \<Longrightarrow>
     default_fallible_fold_expr f e s = default_fallible_fold_expr g e' s'"
  unfolding default_fallible_fold_expr_def by (metis mapR_cong)

lemma fold_children_cong [fundef_cong]:
  "e = e' \<Longrightarrow> (\<And>x. x \<in> set (children e') \<Longrightarrow> f x = g x) \<Longrightarrow>
     fold_children f e = fold_children g e'"
  unfolding fold_children_def by (metis map_cong)

lemma default_fold_expr_pure: "default_fold_expr (\<lambda>x s. (f x, s)) e s = (fold_children f e, s)"
  by (simp add: default_fold_expr_def fold_children_def)

text \<open>The per-constructor equations: the bodies of the trait's default methods.\<close>

lemma fold_children_simps [simp, vir_simps]:
  "fold_children f (ELocal v p) = ELocal v p"
  "fold_children f (EVariant b fd p) = EVariant (f b) fd p"
  "fold_children f (EField b fd p) = EField (f b) fd p"
  "fold_children f (EAddrOf b t p) = EAddrOf (f b) t p"
  "fold_children f (ELabelledOld lbl b p) = ELabelledOld lbl (f b) p"
  "fold_children f (EConst c p) = EConst c p"
  "fold_children f (EMagicWand l r w p) = EMagicWand (f l) (f r) w p"
  "fold_children f (EPredicateAccessPredicate n a m p) = EPredicateAccessPredicate n (f a) m p"
  "fold_children f (EFieldAccessPredicate a m p) = EFieldAccessPredicate (f a) m p"
  "fold_children f (EUnaryOp uop a p) = EUnaryOp uop (f a) p"
  "fold_children f (EBinOp bop l r p) = EBinOp bop (f l) (f r) p"
  "fold_children f (EContainerOp cop l r p) = EContainerOp cop (f l) (f r) p"
  "fold_children f (ESeq t es p) = ESeq t (map f es) p"
  "fold_children f (EUnfolding n es b m i p) = EUnfolding n (map f es) (f b) m i p"
  "fold_children f (ECond g x y p) = ECond (f g) (f x) (f y) p"
  "fold_children f (EForAll vs ts b p) = EForAll vs ts (f b) p"
  "fold_children f (EExists vs ts b p) = EExists vs ts (f b) p"
  "fold_children f (ELetExpr v d b p) = ELetExpr v (f d) (f b) p"
  "fold_children f (EFuncApp n es fs t p) = EFuncApp n (map f es) fs t p"
  "fold_children f (EDomainFuncApp df es p) = EDomainFuncApp df (map f es) p"
  "fold_children f (EInhaleExhale l r p) = EInhaleExhale (f l) (f r) p"
  "fold_children f (EDowncast b pl fd) = EDowncast (f b) (f pl) fd"
  "fold_children f (ESnapApp b p) = ESnapApp (f b) p"
  by (auto simp: fold_children_def)

lemma children_fold_children [simp]: "children (fold_children f e) = map f (children e)"
  by (simp add: fold_children_def)

lemma fold_children_id: "(\<And>c. c \<in> set (children e) \<Longrightarrow> f c = c) \<Longrightarrow> fold_children f e = e"
  by (simp add: fold_children_def map_idI)

subsection \<open>One layer of a walk\<close>

text \<open>A walker visits subexpressions (\<open>walk\<close>) and variable occurrences (\<open>walk_local_var\<close>).\<close>

datatype walk_item = WalkVar local_var | WalkExpr expr

fun walk_items :: "expr \<Rightarrow> walk_item list" where
  "walk_items (ELocal v _) = [WalkVar v]"
| "walk_items (EForAll vs _ b _) = map WalkVar vs @ [WalkExpr b]"
| "walk_items (EExists vs _ b _) = map WalkVar vs @ [WalkExpr b]"
| "walk_items (ELetExpr v d b _) = [WalkVar v, WalkExpr d, WalkExpr b]"
| "walk_items (EFuncApp _ es fs _ _) = map WalkExpr es @ map WalkVar fs"
| "walk_items (EDomainFuncApp f es _) = map WalkExpr es @ map WalkVar (df_formal_args f)"
| "walk_items e = map WalkExpr (children e)"

fun run_item :: "(expr \<Rightarrow> 's \<Rightarrow> 's) \<Rightarrow> (local_var \<Rightarrow> 's \<Rightarrow> 's) \<Rightarrow> walk_item \<Rightarrow> 's \<Rightarrow> 's" where
  "run_item w wv (WalkVar v) s = wv v s"
| "run_item w wv (WalkExpr e) s = w e s"

definition default_walk_expr ::
  "(expr \<Rightarrow> 's \<Rightarrow> 's) \<Rightarrow> (local_var \<Rightarrow> 's \<Rightarrow> 's) \<Rightarrow> expr \<Rightarrow> 's \<Rightarrow> 's" where
  "default_walk_expr w wv e s = fold (run_item w wv) (walk_items e) s"

lemma walk_items_children: "WalkExpr c \<in> set (walk_items e) \<longleftrightarrow> c \<in> set (children e)"
  by (cases e) auto

lemma default_walk_expr_cong [fundef_cong]:
  assumes "e = e'" "s = s'" "wv = wv'" "\<And>x u. x \<in> set (children e') \<Longrightarrow> w x u = w' x u"
  shows "default_walk_expr w wv e s = default_walk_expr w' wv' e' s'"
proof -
  have "run_item w wv i = run_item w' wv' i" if "i \<in> set (walk_items e')" for i
    by (rule ext, cases i) (use that assms(3,4) in \<open>auto simp: walk_items_children\<close>)
  then show ?thesis unfolding default_walk_expr_def using assms(1,2) by (auto intro: fold_cong)
qed

text \<open>What a boolean-flag walker computes: some item raises the flag.\<close>

lemma walk_flag:
  assumes "\<And>x u. x \<in> set (children e) \<Longrightarrow> w x u = (u \<or> P x)" "\<And>v u. wv v u = u"
  shows "default_walk_expr w wv e s = (s \<or> (\<exists>c \<in> set (children e). P c))"
proof -
  have "fold (run_item w wv) is s = (s \<or> (\<exists>c. WalkExpr c \<in> set is \<and> P c))"
    if "\<forall>c. WalkExpr c \<in> set is \<longrightarrow> c \<in> set (children e)" for "is"
    using that
  proof (induction "is" arbitrary: s)
    case (Cons i "is")
    then show ?case using assms by (cases i) auto
  qed simp
  then show ?thesis unfolding default_walk_expr_def using walk_items_children by blast
qed

text \<open>What a collecting walker computes: the concatenation of what the items collect.\<close>

lemma walk_collect:
  assumes "\<And>x u. x \<in> set (children e) \<Longrightarrow> w x u = u @ F x" "\<And>v u. wv v u = u"
  shows "default_walk_expr w wv e s = s @ concat (map F (children e))"
proof -
  have items: "concat (map (\<lambda>i. case i of WalkVar v \<Rightarrow> [] | WalkExpr c \<Rightarrow> F c) (walk_items e)) =
      concat (map F (children e))"
    by (cases e) (auto simp: comp_def)
  have "fold (run_item w wv) is s =
      s @ concat (map (\<lambda>i. case i of WalkVar v \<Rightarrow> [] | WalkExpr c \<Rightarrow> F c) is)"
    if "\<forall>c. WalkExpr c \<in> set is \<longrightarrow> c \<in> set (children e)" for "is"
    using that
  proof (induction "is" arbitrary: s)
    case (Cons i "is")
    then show ?case using assms by (cases i) auto
  qed simp
  then show ?thesis unfolding default_walk_expr_def using walk_items_children items by simp
qed

text \<open>The expressions a default walk reaches, the expression itself included.\<close>

inductive_set subexprs :: "expr \<Rightarrow> expr set" for e :: expr where
  self: "e \<in> subexprs e"
| child: "x \<in> subexprs e \<Longrightarrow> c \<in> set (children x) \<Longrightarrow> c \<in> subexprs e"

lemma subexprs_trans: "y \<in> subexprs x \<Longrightarrow> x \<in> subexprs e \<Longrightarrow> y \<in> subexprs e"
  by (induction rule: subexprs.induct) (auto intro: subexprs.child)

lemma subexprs_unfold: "subexprs e = insert e (\<Union>c \<in> set (children e). subexprs c)"
proof (intro set_eqI iffI)
  fix x assume "x \<in> subexprs e"
  then show "x \<in> insert e (\<Union>c \<in> set (children e). subexprs c)"
    by induction (auto intro: subexprs.intros)
next
  fix x assume "x \<in> insert e (\<Union>c \<in> set (children e). subexprs c)"
  then show "x \<in> subexprs e"
    using subexprs.self subexprs_trans subexprs.child by blast
qed

subsection \<open>Folders of \<^verbatim>\<open>expr.rs\<close>, \<^verbatim>\<open>expr_transformers.rs\<close> and \<^verbatim>\<open>utils.rs\<close>\<close>

function fold_places :: "(expr \<Rightarrow> expr) \<Rightarrow> expr \<Rightarrow> expr" where
  "fold_places f e = (if is_place e then f e else fold_children (fold_places f) e)"
  by pat_completeness auto
termination by (relation "measure (size \<circ> snd)") (auto simp: children_size)

function fold_expr :: "(expr \<Rightarrow> expr) \<Rightarrow> expr \<Rightarrow> expr" where
  "fold_expr f e = f (fold_children (fold_expr f) e)"
  by pat_completeness auto
termination by (relation "measure (size \<circ> snd)") (auto simp: children_size)

function set_default_pos :: "position \<Rightarrow> expr \<Rightarrow> expr" where
  "set_default_pos new_pos e =
     (let x = fold_children (set_default_pos new_pos) e
      in if position_is_default (expr_pos x) then expr_set_pos new_pos x else x)"
  by pat_completeness auto
termination by (relation "measure (size \<circ> snd)") (auto simp: children_size)

function map_labels :: "(string \<Rightarrow> string option) \<Rightarrow> expr \<Rightarrow> expr" where
  "map_labels f e =
     (case e of
        ELabelledOld label base p \<Rightarrow>
          (case f label of
             Some new_label \<Rightarrow> expr_set_pos p (expr_old base new_label)
           | None \<Rightarrow> base)
      | _ \<Rightarrow> fold_children (map_labels f) e)"
  by pat_completeness auto
termination by (relation "measure (size \<circ> snd)") (auto simp: children_size)

function map_old_expr :: "(string \<Rightarrow> expr \<Rightarrow> expr) \<Rightarrow> expr \<Rightarrow> expr" where
  "map_old_expr substitutor e =
     (case e of
        ELabelledOld label base p \<Rightarrow> expr_set_pos p (substitutor label base)
      | _ \<Rightarrow> fold_children (map_old_expr substitutor) e)"
  by pat_completeness auto
termination by (relation "measure (size \<circ> snd)") (auto simp: children_size)

function map_old_expr_label :: "(string \<Rightarrow> string) \<Rightarrow> expr \<Rightarrow> expr" where
  "map_old_expr_label substitutor e =
     (case e of
        ELabelledOld label base p \<Rightarrow> ELabelledOld (substitutor label) base p
      | _ \<Rightarrow> fold_children (map_old_expr_label substitutor) e)"
  by pat_completeness auto
termination by (relation "measure (size \<circ> snd)") (auto simp: children_size)

function purify :: "expr \<Rightarrow> expr" where
  "purify e =
     (case e of
        EPredicateAccessPredicate _ _ _ _ \<Rightarrow> from_bool True
      | EFieldAccessPredicate _ _ _ \<Rightarrow> from_bool True
      | _ \<Rightarrow> fold_children purify e)"
  by pat_completeness auto
termination by (relation "measure size") (auto simp: children_size)

text \<open>
  \<open>remove_redundant_old\<close>: the folder's field \<open>current_label\<close> is the state.  Below a labelled
  \<open>old\<close> the source calls \<open>default_fold_expr\<close> on the base, not \<open>fold\<close>; for a base that is itself a
  labelled \<open>old\<close> both run the overridden method.
\<close>

function remove_redundant_old_in :: "expr \<Rightarrow> string option \<Rightarrow> expr \<times> string option" where
  "remove_redundant_old_in e current_label =
     (case e of
        ELabelledOld label base p \<Rightarrow>
          (let (new_base, _) = remove_redundant_old_in base (Some label);
               new_expr = (if Some label = current_label then new_base
                           else expr_set_pos p (expr_old new_base label))
           in (new_expr, current_label))
      | _ \<Rightarrow> default_fold_expr remove_redundant_old_in e current_label)"
  by pat_completeness auto
termination by (relation "measure (size \<circ> fst)") (auto simp: children_size)

definition remove_redundant_old :: "expr \<Rightarrow> expr" where
  "remove_redundant_old e = fst (remove_redundant_old_in e None)"

fun filter_perm_conjunction :: "expr \<Rightarrow> expr" where
  "filter_perm_conjunction (EPredicateAccessPredicate n a m p) = EPredicateAccessPredicate n a m p"
| "filter_perm_conjunction (EFieldAccessPredicate a m p) = EFieldAccessPredicate a m p"
| "filter_perm_conjunction (EBinOp OpAnd l r p) =
     EBinOp OpAnd (filter_perm_conjunction l) (filter_perm_conjunction r) p"
| "filter_perm_conjunction _ = from_bool True"

text \<open>The patched names of \<open>patch_types\<close>: the substitutions in the map's iteration order.\<close>

definition patch_name :: "(string \<times> string) list \<Rightarrow> string \<Rightarrow> string" where
  "patch_name substs n = foldl (\<lambda>acc (typ, subst). str_replace typ subst acc) n substs"

definition patch_var :: "(string \<times> string) list \<Rightarrow> local_var \<Rightarrow> local_var" where
  "patch_var substs v = v\<lparr>lv_typ := type_patch substs (lv_typ v)\<rparr>"

function patch_types :: "(string \<times> string) list \<Rightarrow> expr \<Rightarrow> expr" where
  "patch_types substs e =
     (case e of
        EPredicateAccessPredicate n arg m p \<Rightarrow>
          EPredicateAccessPredicate (patch_name substs n) (patch_types substs arg) m p
      | ELocal v p \<Rightarrow> ELocal (patch_var substs v) p
      | EFuncApp n args formal_args rt p \<Rightarrow>
          EFuncApp n (map (patch_types substs) args) (map (patch_var substs) formal_args) rt p
      | _ \<Rightarrow> fold_children (patch_types substs) e)"
  by pat_completeness auto
termination
  by (relation "measure (size \<circ> snd)") (auto simp: children_size)

text \<open>\<open>remove_read_permissions\<close> panics on a \<open>Remaining\<close> permission.\<close>

function remove_read_permissions :: "expr \<Rightarrow> string + expr" where
  "remove_read_permissions e =
     (case e of
        EPredicateAccessPredicate n arg m p \<Rightarrow>
          (case m of
             Write \<Rightarrow> Inr (EPredicateAccessPredicate n arg m p)
           | Read \<Rightarrow> Inr (from_bool True)
           | Remaining \<Rightarrow> Inl ''assertion failed'')
      | EFieldAccessPredicate reference m p \<Rightarrow>
          (case m of
             Write \<Rightarrow> Inr (EFieldAccessPredicate reference m p)
           | Read \<Rightarrow> Inr (from_bool True)
           | Remaining \<Rightarrow> Inl ''assertion failed'')
      | _ \<Rightarrow> fallible_fold_children remove_read_permissions e)"
  by pat_completeness auto
termination by (relation "measure size") (auto simp: children_size)

declare fold_places.simps [simp del] fold_expr.simps [simp del] set_default_pos.simps [simp del]
  map_labels.simps [simp del] map_old_expr.simps [simp del] map_old_expr_label.simps [simp del]
  purify.simps [simp del] remove_redundant_old_in.simps [simp del] patch_types.simps [simp del]
  remove_read_permissions.simps [simp del]

subsection \<open>Walkers of \<^verbatim>\<open>expr.rs\<close>\<close>

function find_walk :: "expr \<Rightarrow> expr \<Rightarrow> bool \<Rightarrow> bool" where
  "find_walk sub_target e found =
     (if expr_eq e sub_target then True
      else default_walk_expr (find_walk sub_target) (\<lambda>_ s. s) e found)"
  by pat_completeness auto
termination by (relation "measure (\<lambda>(_, e, _). size e)") (auto simp: children_size)

definition find_expr :: "expr \<Rightarrow> expr \<Rightarrow> bool" where
  "find_expr e sub_target = find_walk sub_target e False"

function extract_predicate_places_walk :: "perm_amount \<Rightarrow> expr \<Rightarrow> expr list \<Rightarrow> expr list" where
  "extract_predicate_places_walk perm e predicates =
     (case e of
        EPredicateAccessPredicate _ arg perm_amount _ \<Rightarrow>
          (if perm_amount = perm then predicates @ [arg] else predicates)
      | _ \<Rightarrow> default_walk_expr (extract_predicate_places_walk perm) (\<lambda>_ s. s) e predicates)"
  by pat_completeness auto
termination by (relation "measure (\<lambda>(_, e, _). size e)") (auto simp: children_size)

definition extract_predicate_places :: "expr \<Rightarrow> perm_amount \<Rightarrow> expr list" where
  "extract_predicate_places e perm = extract_predicate_places_walk perm e []"

function is_pure_walk :: "expr \<Rightarrow> bool \<Rightarrow> bool" where
  "is_pure_walk e non_pure =
     (case e of
        EPredicateAccessPredicate _ _ _ _ \<Rightarrow> True
      | EFieldAccessPredicate _ _ _ \<Rightarrow> True
      | _ \<Rightarrow> default_walk_expr is_pure_walk (\<lambda>_ s. s) e non_pure)"
  by pat_completeness auto
termination by (relation "measure (size \<circ> fst)") (auto simp: children_size)

definition is_pure :: "expr \<Rightarrow> bool" where
  "is_pure e = (\<not> is_pure_walk e False)"

function is_heap_dependent_walk :: "expr \<Rightarrow> bool \<Rightarrow> bool" where
  "is_heap_dependent_walk e non_pure =
     (case e of
        EPredicateAccessPredicate _ _ _ _ \<Rightarrow> True
      | EFieldAccessPredicate _ _ _ \<Rightarrow> True
      | EField _ _ _ \<Rightarrow> True
      | EVariant _ _ _ \<Rightarrow> True
      | EMagicWand _ _ _ _ \<Rightarrow> True
      | EUnfolding _ _ _ _ _ _ \<Rightarrow> True
      | EFuncApp _ _ _ _ _ \<Rightarrow> True
      | _ \<Rightarrow> default_walk_expr is_heap_dependent_walk (\<lambda>_ s. s) e non_pure)"
  by pat_completeness auto
termination by (relation "measure (size \<circ> fst)") (auto simp: children_size)

definition is_heap_dependent :: "expr \<Rightarrow> bool" where
  "is_heap_dependent e = is_heap_dependent_walk e False"

function compute_footprint_walk :: "perm_amount \<Rightarrow> expr \<Rightarrow> expr list \<Rightarrow> expr list" where
  "compute_footprint_walk perm e perms =
     (case e of
        EVariant b v p \<Rightarrow>
          compute_footprint_walk perm b perms @ [acc_permission (EVariant b v p) perm]
      | EField b f p \<Rightarrow>
          compute_footprint_walk perm b perms @ [acc_permission (EField b f p) perm]
      | ELabelledOld _ _ _ \<Rightarrow> perms
      | _ \<Rightarrow> default_walk_expr (compute_footprint_walk perm) (\<lambda>_ s. s) e perms)"
  by pat_completeness auto
termination by (relation "measure (\<lambda>(_, e, _). size e)") (auto simp: children_size)

definition compute_footprint :: "expr \<Rightarrow> perm_amount \<Rightarrow> expr list" where
  "compute_footprint e perm = compute_footprint_walk perm e []"

declare find_walk.simps [simp del] extract_predicate_places_walk.simps [simp del]
  is_pure_walk.simps [simp del] is_heap_dependent_walk.simps [simp del]
  compute_footprint_walk.simps [simp del]

subsection \<open>What the walkers compute\<close>

lemma find_walk_iff: "find_walk t e found \<longleftrightarrow> found \<or> (\<exists>x \<in> subexprs e. expr_eq x t)"
proof (induction e arbitrary: found rule: expr_children_induct)
  case (step e)
  have "default_walk_expr (find_walk t) (\<lambda>_ s. s) e found =
      (found \<or> (\<exists>c \<in> set (children e). \<exists>x \<in> subexprs c. expr_eq x t))"
    by (rule walk_flag) (use step in auto)
  then show ?case by (subst find_walk.simps) (auto simp: subexprs_unfold [of e])
qed

fun is_access :: "expr \<Rightarrow> bool" where
  "is_access (EPredicateAccessPredicate _ _ _ _) = True"
| "is_access (EFieldAccessPredicate _ _ _) = True"
| "is_access _ = False"

lemma is_pure_walk_alt:
  "is_pure_walk e s = (is_access e \<or> default_walk_expr is_pure_walk (\<lambda>_ s. s) e s)"
  by (subst is_pure_walk.simps) (cases e; simp)

lemma is_pure_walk_iff: "is_pure_walk e s \<longleftrightarrow> s \<or> (\<exists>x \<in> subexprs e. is_access x)"
proof (induction e arbitrary: s rule: expr_children_induct)
  case (step e)
  have "default_walk_expr is_pure_walk (\<lambda>_ s. s) e s =
      (s \<or> (\<exists>c \<in> set (children e). \<exists>x \<in> subexprs c. is_access x))"
    by (rule walk_flag) (use step in auto)
  then show ?case by (auto simp: is_pure_walk_alt [of e] subexprs_unfold [of e])
qed

lemma is_pure_iff: "is_pure e \<longleftrightarrow> (\<forall>x \<in> subexprs e. \<not> is_access x)"
  by (simp add: is_pure_def is_pure_walk_iff)

lemma is_pure_child: "is_pure e \<Longrightarrow> c \<in> set (children e) \<Longrightarrow> is_pure c"
  using subexprs_unfold [of e] by (auto simp: is_pure_iff)

lemma purify_alt: "purify e = (if is_access e then from_bool True else fold_children purify e)"
  by (subst purify.simps) (cases e; simp)

lemma is_access_fold_children [simp]: "is_access (fold_children f e) = is_access e"
  by (cases e) auto

lemma is_pure_unfold: "is_pure e \<longleftrightarrow> \<not> is_access e \<and> (\<forall>c \<in> set (children e). is_pure c)"
  unfolding is_pure_iff by (subst subexprs_unfold) blast

lemma is_pure_purify: "is_pure (purify e)"
proof (induction e rule: expr_children_induct)
  case (step e)
  then show ?case
    by (subst purify_alt, subst is_pure_unfold) (auto simp: from_bool_def)
qed

lemma purify_pure: "is_pure e \<Longrightarrow> purify e = e"
proof (induction e rule: expr_children_induct)
  case (step e)
  then show ?case
    using is_pure_unfold [of e] fold_children_id [of e purify] by (simp add: purify_alt [of e])
qed

text \<open>The subexpressions outside every labelled \<open>old\<close>.\<close>

inductive_set current_subexprs :: "expr \<Rightarrow> expr set" for e :: expr where
  self: "e \<in> current_subexprs e"
| child: "x \<in> current_subexprs e \<Longrightarrow> \<not> is_old x \<Longrightarrow> c \<in> set (children x) \<Longrightarrow>
     c \<in> current_subexprs e"

lemma current_subexprs_trans:
  "y \<in> current_subexprs x \<Longrightarrow> x \<in> current_subexprs e \<Longrightarrow> y \<in> current_subexprs e"
  by (induction rule: current_subexprs.induct) (auto intro: current_subexprs.child)

lemma current_subexprs_unfold:
  "current_subexprs e =
     insert e (if is_old e then {} else \<Union>c \<in> set (children e). current_subexprs c)"
proof (intro set_eqI iffI)
  fix x assume "x \<in> current_subexprs e"
  then show "x \<in> insert e (if is_old e then {} else \<Union>c \<in> set (children e). current_subexprs c)"
    by induction (auto intro: current_subexprs.intros split: if_splits)
next
  fix x assume "x \<in> insert e (if is_old e then {} else \<Union>c \<in> set (children e). current_subexprs c)"
  then show "x \<in> current_subexprs e"
    using current_subexprs.self current_subexprs_trans current_subexprs.child [of e e]
    by (cases "is_old e") (simp, auto)
qed

fun is_heap_access :: "expr \<Rightarrow> bool" where
  "is_heap_access (EField _ _ _) = True"
| "is_heap_access (EVariant _ _ _) = True"
| "is_heap_access _ = False"

lemma compute_footprint_walk_alt:
  "compute_footprint_walk m e s =
     (if is_old e then s
      else default_walk_expr (compute_footprint_walk m) (\<lambda>_ s. s) e s @
           (if is_heap_access e then [acc_permission e m] else []))"
  by (subst compute_footprint_walk.simps)
     (cases e; simp add: is_old_def default_walk_expr_def)

lemma compute_footprint_walk_append:
  "compute_footprint_walk m e s = s @ compute_footprint_walk m e []"
proof (induction e arbitrary: s rule: expr_children_induct)
  case (step e)
  have "default_walk_expr (compute_footprint_walk m) (\<lambda>_ s. s) e s =
      s @ concat (map (\<lambda>c. compute_footprint_walk m c []) (children e))" for s
    by (rule walk_collect) (rule step, assumption, rule refl)
  then show ?case by (simp add: compute_footprint_walk_alt [of m e])
qed

lemma compute_footprint_walk_set:
  "set (compute_footprint_walk m e []) =
     (\<lambda>x. acc_permission x m) ` {x \<in> current_subexprs e. is_heap_access x}"
proof (induction e rule: expr_children_induct)
  case (step e)
  have "default_walk_expr (compute_footprint_walk m) (\<lambda>_ s. s) e [] =
      [] @ concat (map (\<lambda>c. compute_footprint_walk m c []) (children e))"
    by (rule walk_collect) (rule compute_footprint_walk_append, simp)
  moreover have "is_old e \<Longrightarrow> \<not> is_heap_access e" by (cases e) (auto simp: is_old_def)
  ultimately show ?case
    using step
    by (auto simp: compute_footprint_walk_alt [of m e] current_subexprs_unfold [of e])
qed

text \<open>
  The footprint of an expression holds exactly one kind of permission for each field or
  variant access evaluated in the current state: accesses below a labelled \<open>old\<close> are left out,
  and nothing else is asked for.
\<close>

theorem compute_footprint_exact:
  "set (compute_footprint e m) =
     (\<lambda>x. acc_permission x m) ` {x \<in> current_subexprs e. is_heap_access x}"
  by (simp add: compute_footprint_def compute_footprint_walk_set)

text \<open>
  \<open>find\<close> is exact: it answers yes if and only if some subexpression, at any depth outside
  triggers, equals the target.
\<close>

theorem find_expr_exact: "find_expr e t \<longleftrightarrow> (\<exists>x \<in> subexprs e. expr_eq x t)"
  by (simp add: find_expr_def find_walk_iff)

text \<open>
  C30 \<open>purify\<close> leaves no permission anywhere, changes nothing in an expression without permissions,
  and \<open>is_pure\<close> recognises exactly the expressions without permissions.  Triggers of quantifiers are not
  looked at, by the code and by the statement.
\<close>

theorem purify_correct:
  "is_pure (purify e) \<and> (is_pure e \<longleftrightarrow> purify e = e) \<and>
   (is_pure e \<longleftrightarrow> (\<forall>x \<in> subexprs e. \<not> is_access x))"
  using is_pure_purify [of e] purify_pure [of e] is_pure_iff [of e] by metis

theorem purify_correct_witness:
  "let x = ELocal (local_var_new ''x'' (TTypedRef ''T'')) position_default;
       e = expr_and (acc_permission x Write) (eq_cmp x x)
   in \<not> is_pure e \<and> is_pure (purify e) \<and> purify (eq_cmp x x) = eq_cmp x x"
proof -
  let ?x = "ELocal (local_var_new ''x'' (TTypedRef ''T'')) position_default"
  let ?e = "expr_and (acc_permission ?x Write) (eq_cmp ?x ?x)"
  have "acc_permission ?x Write \<in> subexprs ?e"
    by (rule subexprs.child [OF subexprs.self]) (simp add: expr_and_def expr_bin_def)
  then have "\<not> is_pure ?e" using purify_correct [of ?e] by (auto simp: acc_permission_def)
  moreover have "purify (eq_cmp ?x ?x) = eq_cmp ?x ?x"
    by (simp add: purify.simps eq_cmp_def expr_bin_def)
  ultimately show ?thesis using purify_correct [of ?e] by (simp add: Let_def)
qed

end
