(* ===== verification/Vir_Replace.thy ===== *)
theory Vir_Replace
  imports Vir_Transformers
begin

section \<open>Replacing places\<close>

text \<open>
  \<^verbatim>\<open>ast/typaram.rs\<close> (the type parameter substitution \<open>Substs\<close>) and the two place replacements of
  \<^verbatim>\<open>ast/expr.rs\<close> that use it.  The regular expressions are matched by the \<^verbatim>\<open>regex\<close> crate, which is
  not code of the repository: its three uses are the fields of \<open>regex_ops\<close>.  Panics are \<open>Inl\<close>.
\<close>

subsection \<open>Type parameter substitutions\<close>

record regex_ops =
  rx_typaram_find_iter :: "string \<Rightarrow> (nat \<times> nat) list"
  rx_is_valid :: "string \<Rightarrow> bool"
  rx_captures :: "string \<Rightarrow> string \<Rightarrow> string list option"

type_synonym substs = "string \<rightharpoonup> string"

definition slice :: "string \<Rightarrow> nat \<Rightarrow> nat \<Rightarrow> string" where
  "slice s a b = take (b - a) (drop a s)"

definition escape_dollars :: "string \<Rightarrow> string" where
  "escape_dollars s = str_replace ''$'' [CHR 0x5C, CHR 0x24] s"

fun learn_scan ::
  "string \<Rightarrow> (nat \<times> nat) list \<Rightarrow> nat \<Rightarrow> string \<Rightarrow> string list \<Rightarrow> nat \<times> string \<times> string list" where
  "learn_scan from [] last_end re found = (last_end, re, found)"
| "learn_scan from ((a, b) # ms) last_end re found =
     learn_scan from ms b (re @ escape_dollars (slice from last_end a) @ ''(.*?)'')
       (found @ [slice from a b])"

text \<open>
  One insertion per capture group.  The panic on a type parameter that occurs twice compares the
  previous entry with \<open>to\<close>, the whole concrete type, as the source does.
\<close>

fun learn_captures ::
  "string \<Rightarrow> string list \<Rightarrow> string list \<Rightarrow> substs \<Rightarrow> string + substs" where
  "learn_captures to found [] repls = Inr repls"
| "learn_captures to [] (g # gs) repls = Inl ''index out of bounds''"
| "learn_captures to (f # fs) (g # gs) repls =
     (case repls f of
        Some x \<Rightarrow> if to = x then learn_captures to fs gs (repls(f \<mapsto> g))
                  else Inl ''Error in learn''
      | None \<Rightarrow> learn_captures to fs gs (repls(f \<mapsto> g)))"

definition substs_learn :: "regex_ops \<Rightarrow> string \<Rightarrow> string \<Rightarrow> string + substs" where
  "substs_learn rx from to =
     (let (last_end, re, found) = learn_scan from (rx_typaram_find_iter rx from) 0 ''^'' [];
          repls_regex = re @ escape_dollars (drop last_end from) @ ''$''
      in if \<not> rx_is_valid rx repls_regex then Inl ''invalid regex''
         else if from = to then Inr (map_of (map (\<lambda>x. (x, x)) found))
         else case rx_captures rx repls_regex to of
                None \<Rightarrow> Inl ''no match''
              | Some groups \<Rightarrow> learn_captures to found groups Map.empty)"

fun substs_apply_loop ::
  "substs \<Rightarrow> string \<Rightarrow> (nat \<times> nat) list \<Rightarrow> nat \<Rightarrow> string \<Rightarrow> string" where
  "substs_apply_loop repls inner [] last_end newstr = newstr @ drop last_end inner"
| "substs_apply_loop repls inner ((a, b) # ms) last_end newstr =
     substs_apply_loop repls inner ms b
       (newstr @ slice inner last_end a @
        (case repls (slice inner a b) of Some rep \<Rightarrow> rep | None \<Rightarrow> slice inner a b))"

definition substs_apply :: "regex_ops \<Rightarrow> substs \<Rightarrow> string \<Rightarrow> string" where
  "substs_apply rx repls inner =
     substs_apply_loop repls inner (rx_typaram_find_iter rx inner) 0 ''''"

text \<open>The matches a \<open>find_iter\<close> documents: in order, not overlapping, inside the string.\<close>

fun matches_in :: "string \<Rightarrow> nat \<Rightarrow> (nat \<times> nat) list \<Rightarrow> bool" where
  "matches_in s last_end [] \<longleftrightarrow> last_end \<le> length s"
| "matches_in s last_end ((a, b) # ms) \<longleftrightarrow> last_end \<le> a \<and> a < b \<and> b \<le> length s \<and> matches_in s b ms"

lemma slice_append: "a \<le> b \<Longrightarrow> b \<le> c \<Longrightarrow> slice s a b @ slice s b c = slice s a c"
proof -
  assume "a \<le> b" "b \<le> c"
  then have "c - a = (b - a) + (c - b)" "drop (b - a) (drop a s) = drop b s" by auto
  then show ?thesis unfolding slice_def by (metis take_add)
qed

lemma slice_drop: "a \<le> b \<Longrightarrow> slice s a b @ drop b s = drop a s"
  unfolding slice_def by (metis append_take_drop_id drop_drop le_add_diff_inverse2)

lemma substs_apply_loop_id:
  assumes "\<And>x. x \<in> dom repls \<Longrightarrow> repls x = Some x" "matches_in inner last_end ms"
  shows "substs_apply_loop repls inner ms last_end newstr = newstr @ drop last_end inner"
  using assms(2)
proof (induction ms arbitrary: last_end newstr)
  case (Cons m ms)
  obtain a b where m: "m = (a, b)" by (cases m)
  have "(case repls x of Some rep \<Rightarrow> rep | None \<Rightarrow> x) = x" for x
    using assms(1) [of x] by (cases "repls x") auto
  then show ?case
    using Cons m slice_drop [of a b inner] slice_drop [of last_end a inner] by simp
qed simp

subsection \<open>Replacing one place\<close>

record place_replacer =
  pr_target :: expr
  pr_replacement :: expr
  pr_typaram_substs :: "substs option"

definition patch_ref_field :: "regex_ops \<Rightarrow> substs option \<Rightarrow> vfield \<Rightarrow> vfield" where
  "patch_ref_field rx ts field =
     (case ts of
        Some repls \<Rightarrow>
          (if type_is_ref (fd_typ field)
           then field_new (fd_name field) (TTypedRef (substs_apply rx repls (type_name (fd_typ field))))
           else field)
      | None \<Rightarrow> field)"

fun finish_replace :: "regex_ops \<Rightarrow> substs option \<Rightarrow> expr \<Rightarrow> bool \<Rightarrow> expr \<times> bool" where
  "finish_replace rx ts (EField e field p) subst =
     (EField e (if subst then patch_ref_field rx ts field else field) p, subst)"
| "finish_replace rx ts x subst = (x, False)"

definition vars_contain :: "local_var list \<Rightarrow> local_var \<Rightarrow> bool" where
  "vars_contain vars v \<longleftrightarrow> list_ex (\<lambda>w. local_var_eq w v) vars"

text \<open>The state is the replacer's field \<open>subst\<close>; a trigger is replaced by a new replacer.\<close>

function replace_place_in ::
  "regex_ops \<Rightarrow> place_replacer \<Rightarrow> expr \<Rightarrow> bool \<Rightarrow> string + expr \<times> bool" where
  "replace_place_in rx pr e subst =
     (if is_place e \<and> expr_eq e (pr_target pr) then Inr (pr_replacement pr, True)
      else
        (case (case e of
           EForAll vars triggers body p \<Rightarrow>
             (case get_base (pr_target pr) of
                None \<Rightarrow> Inl ''get_base''
              | Some base \<Rightarrow>
                  if vars_contain vars base then Inr (e, subst)
                  else case mapE (\<lambda>t. map_sum id Trigger (mapE (\<lambda>x. map_sum id fst
                                   (replace_place_in rx pr x False)) (trigger_elements t))) triggers of
                         Inl err \<Rightarrow> Inl err
                       | Inr triggers' \<Rightarrow>
                           (case replace_place_in rx pr body subst of
                              Inl err \<Rightarrow> Inl err
                            | Inr (body', s) \<Rightarrow> Inr (EForAll vars triggers' body' p, s)))
         | EExists vars triggers body p \<Rightarrow>
             (case get_base (pr_target pr) of
                None \<Rightarrow> Inl ''get_base''
              | Some base \<Rightarrow>
                  if vars_contain vars base then Inr (e, subst)
                  else case mapE (\<lambda>t. map_sum id Trigger (mapE (\<lambda>x. map_sum id fst
                                   (replace_place_in rx pr x False)) (trigger_elements t))) triggers of
                         Inl err \<Rightarrow> Inl err
                       | Inr triggers' \<Rightarrow>
                           (case replace_place_in rx pr body subst of
                              Inl err \<Rightarrow> Inl err
                            | Inr (body', s) \<Rightarrow> Inr (EExists vars triggers' body' p, s)))
         | _ \<Rightarrow> default_fallible_fold_expr (replace_place_in rx pr) e subst) of
           Inl err \<Rightarrow> Inl err
         | Inr (x, s) \<Rightarrow> Inr (finish_replace rx (pr_typaram_substs pr) x s)))"
  by pat_completeness auto
termination
  by (relation "measure (\<lambda>(_, _, e, _). size e)") (auto simp: children_size trigger_elements_size)

declare replace_place_in.simps [simp del]

definition learn_for :: "regex_ops \<Rightarrow> expr \<Rightarrow> expr \<Rightarrow> string + substs option" where
  "learn_for rx target replacement =
     (case (target, replacement) of
        (ELocal tv _, ELocal rv _) \<Rightarrow>
          (case (lv_typ tv, lv_typ rv) of
             (TTypedRef a, TTypedRef b) \<Rightarrow> map_sum id Some (substs_learn rx a b)
           | _ \<Rightarrow> Inr None)
      | _ \<Rightarrow> Inr None)"

definition replace_place :: "regex_ops \<Rightarrow> expr \<Rightarrow> expr \<Rightarrow> expr \<Rightarrow> string + expr" where
  "replace_place rx e target replacement =
     (case learn_for rx target replacement of
        Inl err \<Rightarrow> Inl err
      | Inr ts \<Rightarrow>
          map_sum id fst (replace_place_in rx
            \<lparr>pr_target = target, pr_replacement = replacement, pr_typaram_substs = ts\<rparr> e False))"

subsection \<open>Replacing several places at once\<close>

fun find_replacement :: "(expr \<times> expr) list \<Rightarrow> expr \<Rightarrow> expr option" where
  "find_replacement [] e = None"
| "find_replacement ((src, dst) # rs) e = (if expr_eq src e then Some dst else find_replacement rs e)"

fun find_base_substs ::
  "(expr \<times> expr) list \<Rightarrow> substs option list \<Rightarrow> expr \<Rightarrow> substs option" where
  "find_base_substs ((src, _) # rs) (ts # tss) e = (if expr_eq src e then ts else find_base_substs rs tss e)"
| "find_base_substs _ _ e = None"

definition conflicts :: "(expr \<times> expr) list \<Rightarrow> local_var list \<Rightarrow> bool" where
  "conflicts replacements vars \<longleftrightarrow>
     list_ex (\<lambda>(src, dst).
        (case get_base src of None \<Rightarrow> True | Some b \<Rightarrow> vars_contain vars b) \<or>
        (case get_base dst of None \<Rightarrow> True | Some b \<Rightarrow> vars_contain vars b)) replacements"

function replace_places_in ::
  "regex_ops \<Rightarrow> (expr \<times> expr) list \<Rightarrow> substs option list \<Rightarrow> expr \<Rightarrow> string + expr" where
  "replace_places_in rx rs tss e =
     (case (if is_place e then find_replacement rs e else None) of
        Some dst \<Rightarrow> Inr dst
      | None \<Rightarrow>
          (case e of
             EField receiver field p \<Rightarrow>
               (case replace_places_in rx rs tss receiver of
                  Inl err \<Rightarrow> Inl err
                | Inr new_receiver \<Rightarrow>
                    Inr (EField new_receiver
                      (if type_is_ref (fd_typ field) then
                         (case get_base receiver of
                            Some b \<Rightarrow> patch_ref_field rx (find_base_substs rs tss (from_local b)) field
                          | None \<Rightarrow> field)
                       else field) p))
           | EForAll vars triggers body p \<Rightarrow>
               if conflicts rs vars then Inl ''unimplemented''
               else (case mapE (\<lambda>t. map_sum id Trigger
                             (mapE (\<lambda>x. replace_places_in rx rs tss x) (trigger_elements t))) triggers of
                       Inl err \<Rightarrow> Inl err
                     | Inr triggers' \<Rightarrow>
                         map_sum id (\<lambda>b. EForAll vars triggers' b p) (replace_places_in rx rs tss body))
           | EExists vars triggers body p \<Rightarrow>
               if conflicts rs vars then Inl ''unimplemented''
               else (case mapE (\<lambda>t. map_sum id Trigger
                             (mapE (\<lambda>x. replace_places_in rx rs tss x) (trigger_elements t))) triggers of
                       Inl err \<Rightarrow> Inl err
                     | Inr triggers' \<Rightarrow>
                         map_sum id (\<lambda>b. EExists vars triggers' b p) (replace_places_in rx rs tss body))
           | _ \<Rightarrow> fallible_fold_children (replace_places_in rx rs tss) e))"
  by pat_completeness auto
termination
  by (relation "measure (\<lambda>(_, _, _, e). size e)") (auto simp: children_size trigger_elements_size)

declare replace_places_in.simps [simp del]

definition replace_multiple_places ::
  "regex_ops \<Rightarrow> expr \<Rightarrow> (expr \<times> expr) list \<Rightarrow> string + expr" where
  "replace_multiple_places rx e replacements =
     (case mapE (\<lambda>(target, replacement). learn_for rx target replacement) replacements of
        Inl err \<Rightarrow> Inl err
      | Inr tss \<Rightarrow> replace_places_in rx replacements tss e)"

end
