(* ===== verification/Vir_Semantics.thy ===== *)
theory Vir_Semantics
  imports Vir_Transformers
begin

section \<open>A meaning for expressions\<close>

text \<open>
  The optimisations rewrite VIR expressions; what they promise is that the meaning stays.  VIR is
  printed as Viper, and this theory writes down the evaluation Viper documents for the operators
  VIR has: short-circuit boolean operators, mathematical integers, Euclidean division, a
  heap with labelled old states, and partiality (\<open>None\<close>: the expression is not well defined).
  Nothing here models code of the repository except through the statements that use it.

  Heap, functions and predicates are given by an interpretation.  Reads are checked against the
  type the expression carries, so that a defined value always has the kind of the expression.
\<close>

datatype val = VInt int | VBool bool | VRef nat | VSeq "val list" | VOther nat

datatype kind = KInt | KBool | KRef | KSeq | KOther

fun val_kind :: "val \<Rightarrow> kind" where
  "val_kind (VInt _) = KInt"
| "val_kind (VBool _) = KBool"
| "val_kind (VRef _) = KRef"
| "val_kind (VSeq _) = KSeq"
| "val_kind (VOther _) = KOther"

fun type_kind :: "type \<Rightarrow> kind" where
  "type_kind TInt = KInt"
| "type_kind TBool = KBool"
| "type_kind (TSeq _) = KSeq"
| "type_kind (TTypedRef _) = KRef"
| "type_kind (TDomain _) = KOther"
| "type_kind (TSnapshot _) = KOther"

record interp =
  i_heap :: "string option \<Rightarrow> val \<Rightarrow> string \<Rightarrow> val option"
  i_addr :: "val \<Rightarrow> val option"
  i_pred :: "string option \<Rightarrow> string \<Rightarrow> val \<Rightarrow> perm_amount \<Rightarrow> bool option"
  i_facc :: "string option \<Rightarrow> val \<Rightarrow> string \<Rightarrow> perm_amount \<Rightarrow> bool option"
  i_wand :: "string option \<Rightarrow> val \<Rightarrow> val \<Rightarrow> bool option"
  i_fun :: "string option \<Rightarrow> string \<Rightarrow> val list \<Rightarrow> val option"
  i_dom :: "string \<Rightarrow> val list \<Rightarrow> val option"
  i_snap :: "string option \<Rightarrow> val \<Rightarrow> val option"
  i_const :: "const_lit \<Rightarrow> val option"

type_synonym env = "string \<rightharpoonup> val"

definition typed :: "type \<Rightarrow> val option \<Rightarrow> val option" where
  "typed t v = (case v of Some x \<Rightarrow> if val_kind x = type_kind t then Some x else None | None \<Rightarrow> None)"

definition smt_div :: "int \<Rightarrow> int \<Rightarrow> int" where
  "smt_div a b = (if 0 < b then a div b else - (a div (- b)))"

definition smt_mod :: "int \<Rightarrow> int \<Rightarrow> int" where
  "smt_mod a b = a - b * smt_div a b"

fun const_val :: "interp \<Rightarrow> const_lit \<Rightarrow> val option" where
  "const_val I (CBool b) = Some (VBool b)"
| "const_val I (CInt w) = Some (VInt (sint w))"
| "const_val I (CBigInt s) = Some (VInt (int_value s))"
| "const_val I CFnPtr = typed (TTypedRef ''FnPtr'') (i_const I CFnPtr)"

definition int_bin :: "bin_op_kind \<Rightarrow> int \<Rightarrow> int \<Rightarrow> val option" where
  "int_bin op a b =
     (case op of
        GtCmp \<Rightarrow> Some (VBool (a > b)) | GeCmp \<Rightarrow> Some (VBool (a \<ge> b))
      | LtCmp \<Rightarrow> Some (VBool (a < b)) | LeCmp \<Rightarrow> Some (VBool (a \<le> b))
      | OpAdd \<Rightarrow> Some (VInt (a + b)) | OpSub \<Rightarrow> Some (VInt (a - b)) | OpMul \<Rightarrow> Some (VInt (a * b))
      | OpDiv \<Rightarrow> if b = 0 then None else Some (VInt (smt_div a b))
      | OpMod \<Rightarrow> if b = 0 then None else Some (VInt (smt_mod a b))
      | _ \<Rightarrow> None)"

definition strict_bin :: "bin_op_kind \<Rightarrow> val \<Rightarrow> val \<Rightarrow> val option" where
  "strict_bin op a b =
     (case op of
        EqCmp \<Rightarrow> if val_kind a = val_kind b then Some (VBool (a = b)) else None
      | NeCmp \<Rightarrow> if val_kind a = val_kind b then Some (VBool (a \<noteq> b)) else None
      | _ \<Rightarrow> (case (a, b) of (VInt x, VInt y) \<Rightarrow> int_bin op x y | _ \<Rightarrow> None))"

text \<open>
  The right operand is looked at only when the left one does not decide: \<open>short c d r\<close> is \<open>d\<close>
  when the left operand is not \<open>c\<close>.
\<close>

definition short :: "bool \<Rightarrow> bool \<Rightarrow> val option \<Rightarrow> val option \<Rightarrow> val option" where
  "short c d x r =
     (case x of Some (VBool b) \<Rightarrow> if b = c then typed TBool r else Some (VBool d) | _ \<Rightarrow> None)"

definition bin_val :: "bin_op_kind \<Rightarrow> val option \<Rightarrow> val option \<Rightarrow> val option" where
  "bin_val op x y =
     (case op of
        OpAnd \<Rightarrow> short True False x y
      | OpOr \<Rightarrow> short False True x y
      | OpImplies \<Rightarrow> short True True x y
      | _ \<Rightarrow> (case (x, y) of (Some a, Some b) \<Rightarrow> strict_bin op a b | _ \<Rightarrow> None))"

fun un_val :: "unary_op_kind \<Rightarrow> val option \<Rightarrow> val option" where
  "un_val UnNot (Some (VBool b)) = Some (VBool (\<not> b))"
| "un_val UnMinus (Some (VInt a)) = Some (VInt (- a))"
| "un_val _ _ = None"

fun container_val :: "container_op_kind \<Rightarrow> val option \<Rightarrow> val option \<Rightarrow> val option" where
  "container_val SeqIndex (Some (VSeq xs)) (Some (VInt i)) =
     (if 0 \<le> i \<and> nat i < length xs then Some (xs ! nat i) else None)"
| "container_val SeqConcat (Some (VSeq xs)) (Some (VSeq ys)) = Some (VSeq (xs @ ys))"
| "container_val SeqLen (Some (VSeq xs)) _ = Some (VInt (int (length xs)))"
| "container_val _ _ _ = None"

fun bind_vars :: "local_var list \<Rightarrow> val list \<Rightarrow> env \<Rightarrow> env" where
  "bind_vars (v # vs) (x # xs) \<rho> = bind_vars vs xs (\<rho>(lv_name v \<mapsto> x))"
| "bind_vars _ _ \<rho> = \<rho>"

definition vars_take :: "local_var list \<Rightarrow> val list \<Rightarrow> bool" where
  "vars_take vs xs \<longleftrightarrow> list_all2 (\<lambda>v x. val_kind x = type_kind (lv_typ v)) vs xs"

definition all_val :: "local_var list \<Rightarrow> (val list \<Rightarrow> val option) \<Rightarrow> val option" where
  "all_val vs F =
     (if \<forall>xs. vars_take vs xs \<longrightarrow> (\<exists>b. F xs = Some (VBool b))
      then Some (VBool (\<forall>xs. vars_take vs xs \<longrightarrow> F xs = Some (VBool True))) else None)"

definition ex_val :: "local_var list \<Rightarrow> (val list \<Rightarrow> val option) \<Rightarrow> val option" where
  "ex_val vs F =
     (if \<forall>xs. vars_take vs xs \<longrightarrow> (\<exists>b. F xs = Some (VBool b))
      then Some (VBool (\<exists>xs. vars_take vs xs \<and> F xs = Some (VBool True))) else None)"

fun eval :: "interp \<Rightarrow> string option \<Rightarrow> env \<Rightarrow> expr \<Rightarrow> val option" where
  "eval I l \<rho> (ELocal v p) = typed (lv_typ v) (\<rho> (lv_name v))"
| "eval I l \<rho> (EVariant b f p) =
     typed (fd_typ f) (Option.bind (eval I l \<rho> b) (\<lambda>r. i_heap I l r (fd_name f)))"
| "eval I l \<rho> (EField b f p) =
     typed (fd_typ f) (Option.bind (eval I l \<rho> b) (\<lambda>r. i_heap I l r (fd_name f)))"
| "eval I l \<rho> (EAddrOf b t p) = typed t (Option.bind (eval I l \<rho> b) (i_addr I))"
| "eval I l \<rho> (EConst c p) = const_val I c"
| "eval I l \<rho> (ELabelledOld lbl b p) = eval I (Some lbl) \<rho> b"
| "eval I l \<rho> (EMagicWand a b w p) =
     Option.bind (eval I l \<rho> a) (\<lambda>x. Option.bind (eval I l \<rho> b) (\<lambda>y. map_option VBool (i_wand I l x y)))"
| "eval I l \<rho> (EPredicateAccessPredicate n a m p) =
     Option.bind (eval I l \<rho> a) (\<lambda>x. map_option VBool (i_pred I l n x m))"
| "eval I l \<rho> (EFieldAccessPredicate a m p) =
     (case a of
        EField b f _ \<Rightarrow> Option.bind (eval I l \<rho> b) (\<lambda>r. map_option VBool (i_facc I l r (fd_name f) m))
      | EVariant b f _ \<Rightarrow> Option.bind (eval I l \<rho> b) (\<lambda>r. map_option VBool (i_facc I l r (fd_name f) m))
      | _ \<Rightarrow> None)"
| "eval I l \<rho> (EUnaryOp op a p) = un_val op (eval I l \<rho> a)"
| "eval I l \<rho> (EBinOp op a b p) = bin_val op (eval I l \<rho> a) (eval I l \<rho> b)"
| "eval I l \<rho> (EContainerOp op a b p) = container_val op (eval I l \<rho> a) (eval I l \<rho> b)"
| "eval I l \<rho> (ESeq t es p) = typed t (map_option VSeq (mapO (eval I l \<rho>) es))"
| "eval I l \<rho> (EUnfolding n es b m i p) =
     Option.bind (mapO (eval I l \<rho>) es) (\<lambda>_. eval I l \<rho> b)"
| "eval I l \<rho> (ECond g a b p) =
     (case eval I l \<rho> g of
        Some (VBool True) \<Rightarrow> eval I l \<rho> a
      | Some (VBool False) \<Rightarrow> eval I l \<rho> b
      | _ \<Rightarrow> None)"
| "eval I l \<rho> (EForAll vs ts b p) = all_val vs (\<lambda>xs. eval I l (bind_vars vs xs \<rho>) b)"
| "eval I l \<rho> (EExists vs ts b p) = ex_val vs (\<lambda>xs. eval I l (bind_vars vs xs \<rho>) b)"
| "eval I l \<rho> (ELetExpr v d b p) =
     Option.bind (typed (lv_typ v) (eval I l \<rho> d)) (\<lambda>x. eval I l (\<rho>(lv_name v \<mapsto> x)) b)"
| "eval I l \<rho> (EFuncApp n es fs t p) = typed t (Option.bind (mapO (eval I l \<rho>) es) (i_fun I l n))"
| "eval I l \<rho> (EDomainFuncApp f es p) =
     typed (df_return_type f) (Option.bind (mapO (eval I l \<rho>) es) (i_dom I (df_name f)))"
| "eval I l \<rho> (EInhaleExhale a b p) =
     Option.bind (eval I l \<rho> a) (\<lambda>x. Option.bind (eval I l \<rho> b) (\<lambda>y. bin_val OpAnd (Some x) (Some y)))"
| "eval I l \<rho> (EDowncast b pl f) = Option.bind (eval I l \<rho> pl) (\<lambda>_. eval I l \<rho> b)"
| "eval I l \<rho> (ESnapApp b p) = typed (TSnapshot []) (Option.bind (eval I l \<rho> b) (i_snap I l))"

subsection \<open>Kinds\<close>

text \<open>The kind of a well-formed expression; \<open>None\<close> where operands do not fit their operator.\<close>

fun kind_of :: "expr \<Rightarrow> kind option" where
  "kind_of (ELocal v p) = Some (type_kind (lv_typ v))"
| "kind_of (EVariant b f p) = (if kind_of b \<noteq> None then Some (type_kind (fd_typ f)) else None)"
| "kind_of (EField b f p) = (if kind_of b \<noteq> None then Some (type_kind (fd_typ f)) else None)"
| "kind_of (EAddrOf b t p) = (if kind_of b \<noteq> None then Some (type_kind t) else None)"
| "kind_of (EConst c p) =
     Some (case c of CBool _ \<Rightarrow> KBool | CInt _ \<Rightarrow> KInt | CBigInt _ \<Rightarrow> KInt | CFnPtr \<Rightarrow> KRef)"
| "kind_of (ELabelledOld lbl b p) = kind_of b"
| "kind_of (EMagicWand a b w p) =
     (if kind_of a = Some KBool \<and> kind_of b = Some KBool then Some KBool else None)"
| "kind_of (EPredicateAccessPredicate n a m p) = (if kind_of a \<noteq> None then Some KBool else None)"
| "kind_of (EFieldAccessPredicate a m p) = (if kind_of a \<noteq> None then Some KBool else None)"
| "kind_of (EUnaryOp op a p) =
     (case op of UnNot \<Rightarrow> if kind_of a = Some KBool then Some KBool else None
      | UnMinus \<Rightarrow> if kind_of a = Some KInt then Some KInt else None)"
| "kind_of (EBinOp op a b p) =
     (if op \<in> {EqCmp, NeCmp} then (if kind_of a = kind_of b \<and> kind_of a \<noteq> None then Some KBool else None)
      else if op \<in> {OpAnd, OpOr, OpImplies} then
        (if kind_of a = Some KBool \<and> kind_of b = Some KBool then Some KBool else None)
      else if kind_of a = Some KInt \<and> kind_of b = Some KInt then
        (if op \<in> {GtCmp, GeCmp, LtCmp, LeCmp} then Some KBool else Some KInt)
      else None)"
| "kind_of (EContainerOp op a b p) =
     (if kind_of a = Some KSeq \<and> kind_of b \<noteq> None then
        (case op of SeqLen \<Rightarrow> Some KInt | SeqConcat \<Rightarrow> Some KSeq | SeqIndex \<Rightarrow> None) else None)"
| "kind_of (ESeq t es p) = (if list_all (\<lambda>e. kind_of e \<noteq> None) es then Some (type_kind t) else None)"
| "kind_of (EUnfolding n es b m i p) =
     (if list_all (\<lambda>e. kind_of e \<noteq> None) es then kind_of b else None)"
| "kind_of (ECond g a b p) = (if kind_of g = Some KBool \<and> kind_of a = kind_of b then kind_of a else None)"
| "kind_of (EForAll vs ts b p) = (if kind_of b = Some KBool then Some KBool else None)"
| "kind_of (EExists vs ts b p) = (if kind_of b = Some KBool then Some KBool else None)"
| "kind_of (ELetExpr v d b p) = (if kind_of d \<noteq> None then kind_of b else None)"
| "kind_of (EFuncApp n es fs t p) = (if list_all (\<lambda>e. kind_of e \<noteq> None) es then Some (type_kind t) else None)"
| "kind_of (EDomainFuncApp f es p) =
     (if list_all (\<lambda>e. kind_of e \<noteq> None) es then Some (type_kind (df_return_type f)) else None)"
| "kind_of (EInhaleExhale a b p) =
     (if kind_of a = Some KBool \<and> kind_of b = Some KBool then Some KBool else None)"
| "kind_of (EDowncast b pl f) = (if kind_of pl \<noteq> None then kind_of b else None)"
| "kind_of (ESnapApp b p) = (if kind_of b \<noteq> None then Some KOther else None)"

lemma typed_Some [simp]: "typed t v = Some x \<longleftrightarrow> v = Some x \<and> val_kind x = type_kind t"
  by (cases v) (auto simp: typed_def)

lemma typed_None [simp]: "typed t None = None"
  by (simp add: typed_def)

lemma kind_KBool: "val_kind v = KBool \<longleftrightarrow> (\<exists>b. v = VBool b)"
  by (cases v) auto

lemma kind_KInt: "val_kind v = KInt \<longleftrightarrow> (\<exists>b. v = VInt b)"
  by (cases v) auto

lemma bin_val_strict:
  "op \<notin> {OpAnd, OpOr, OpImplies} \<Longrightarrow>
     bin_val op x y = (case (x, y) of (Some a, Some b) \<Rightarrow> strict_bin op a b | _ \<Rightarrow> None)"
  by (cases op) (auto simp: bin_val_def)

lemma short_Some:
  "short c d x r = Some v \<longleftrightarrow>
     x = Some (VBool (\<not> c)) \<and> v = VBool d \<or> x = Some (VBool c) \<and> r = Some v \<and> val_kind v = KBool"
  by (cases x) (auto simp: short_def split: val.splits)

lemma bin_val_logic:
  "bin_val OpAnd x y = short True False x y"
  "bin_val OpOr x y = short False True x y"
  "bin_val OpImplies x y = short True True x y"
  by (auto simp: bin_val_def)

text \<open>More defined operands never change a defined result.\<close>

lemma bin_val_mono:
  assumes "bin_val op x y = Some v" "\<And>u. x = Some u \<Longrightarrow> x' = Some u" "\<And>u. y = Some u \<Longrightarrow> y' = Some u"
  shows "bin_val op x' y' = Some v"
proof (cases "op \<in> {OpAnd, OpOr, OpImplies}")
  case True
  then show ?thesis using assms by (auto simp: bin_val_logic short_Some)
next
  case False
  then show ?thesis using assms by (cases x; cases y) (auto simp: bin_val_strict)
qed

lemma mapO_mono:
  assumes "mapO f xs = Some ys" "\<And>x y. x \<in> set xs \<Longrightarrow> f x = Some y \<Longrightarrow> g (h x) = Some y"
  shows "mapO g (map h xs) = Some ys"
  using assms by (induction xs arbitrary: ys) (auto split: option.splits)

lemma quant_mono:
  assumes "\<And>xs b. F xs = Some (VBool b) \<Longrightarrow> G xs = Some (VBool b)"
  shows "all_val vs F = Some v \<Longrightarrow> all_val vs G = Some v"
    and "ex_val vs F = Some v \<Longrightarrow> ex_val vs G = Some v"
proof -
  have agree: "F xs = Some (VBool True) \<longleftrightarrow> G xs = Some (VBool True)"
    if "\<exists>b. F xs = Some (VBool b)" for xs
    using that assms by fastforce
  have all: "(\<forall>xs. vars_take vs xs \<longrightarrow> F xs = Some (VBool True)) =
      (\<forall>xs. vars_take vs xs \<longrightarrow> G xs = Some (VBool True))"
    and ex: "(\<exists>xs. vars_take vs xs \<and> F xs = Some (VBool True)) =
      (\<exists>xs. vars_take vs xs \<and> G xs = Some (VBool True))"
    and def: "\<forall>xs. vars_take vs xs \<longrightarrow> (\<exists>b. G xs = Some (VBool b))"
    if "\<forall>xs. vars_take vs xs \<longrightarrow> (\<exists>b. F xs = Some (VBool b))"
    using agree that assms by blast+
  have D: "\<forall>xs. vars_take vs xs \<longrightarrow> (\<exists>b. F xs = Some (VBool b))"
    if "all_val vs F \<noteq> None \<or> ex_val vs F \<noteq> None"
    using that unfolding all_val_def ex_val_def by meson
  show "all_val vs G = Some v" if F: "all_val vs F = Some v"
  proof -
    have d: "\<forall>xs. vars_take vs xs \<longrightarrow> (\<exists>b. F xs = Some (VBool b))" using D F by simp
    show ?thesis using F unfolding all_val_def if_P [OF d] if_P [OF def [OF d]] all [OF d] .
  qed
  show "ex_val vs G = Some v" if F: "ex_val vs F = Some v"
  proof -
    have d: "\<forall>xs. vars_take vs xs \<longrightarrow> (\<exists>b. F xs = Some (VBool b))" using D F by simp
    show ?thesis using F unfolding ex_val_def if_P [OF d] if_P [OF def [OF d]] ex [OF d] .
  qed
qed

lemma container_val_kind:
  "container_val op x y = Some v \<Longrightarrow>
     (op = SeqLen \<longrightarrow> val_kind v = KInt) \<and> (op = SeqConcat \<longrightarrow> val_kind v = KSeq)"
  by (induction op x y rule: container_val.induct) (auto split: if_splits)

lemma container_val_mono:
  assumes "container_val op x y = Some v"
    "\<And>u. x = Some u \<Longrightarrow> x' = Some u" "\<And>u. y = Some u \<Longrightarrow> y' = Some u"
  shows "container_val op x' y' = Some v"
  using assms by (induction op x y rule: container_val.induct) auto

lemma un_val_Some:
  "un_val op x = Some v \<longleftrightarrow>
     (op = UnNot \<and> (\<exists>b. x = Some (VBool b) \<and> v = VBool (\<not> b))) \<or>
     (op = UnMinus \<and> (\<exists>a. x = Some (VInt a) \<and> v = VInt (- a)))"
  by (induction op x rule: un_val.induct) auto

lemma eval_kind: "eval I l \<rho> e = Some v \<Longrightarrow> kind_of e = Some k \<Longrightarrow> val_kind v = k"
proof (induction e arbitrary: l \<rho> v k)
  case (EConst c p)
  then show ?case by (cases c) auto
next
  case (EUnaryOp op a p)
  then show ?case by (cases op) (auto simp: un_val_Some split: if_splits)
next
  case (EBinOp op a b p)
  show ?case
  proof (cases "op \<in> {OpAnd, OpOr, OpImplies}")
    case True
    then show ?thesis using EBinOp.prems by (auto simp: bin_val_logic short_Some split: if_splits)
  next
    case False
    then obtain x y where "eval I l \<rho> a = Some x" "eval I l \<rho> b = Some y" "strict_bin op x y = Some v"
      using EBinOp.prems by (auto simp: bin_val_strict split: option.splits)
    then show ?thesis
      using EBinOp.prems(2) by (cases op; cases x; cases y) (auto simp: strict_bin_def int_bin_def split: if_splits)
  qed
next
  case (EFieldAccessPredicate a m p)
  have "\<exists>b. v = VBool b" using EFieldAccessPredicate.prems(1) by (cases a) (auto split: bind_splits)
  then show ?case using EFieldAccessPredicate.prems(2) by (auto split: if_splits)
next
  case (EContainerOp op a b p)
  show ?case
    using container_val_kind [of op "eval I l \<rho> a" "eval I l \<rho> b" v] EContainerOp.prems
    by (cases op) (auto split: if_splits)
next
  case (ECond g a b p)
  then show ?case by (auto split: option.splits val.splits bool.splits if_splits)
qed (auto split: if_splits option.splits bind_splits simp: all_val_def ex_val_def bin_val_logic short_Some)

lemma kind_of_child: "kind_of e \<noteq> None \<Longrightarrow> c \<in> set (children e) \<Longrightarrow> kind_of c \<noteq> None"
  by (cases e)
     (auto simp: list_all_iff simp del: not_None_eq split: if_splits unary_op_kind.splits)

text \<open>
  One layer of a fold keeps a defined value if the fold does so on the parts.  A field permission
  is about a location, so there the parts are the receiver of the location.
\<close>

fun eval_parts :: "expr \<Rightarrow> expr list" where
  "eval_parts (EFieldAccessPredicate (EField b f p) m q) = [b]"
| "eval_parts (EFieldAccessPredicate (EVariant b f p) m q) = [b]"
| "eval_parts e = children e"

lemma eval_parts_size: "c \<in> set (eval_parts e) \<Longrightarrow> size c < size e"
  by (induction e rule: eval_parts.induct) auto

lemma eval_parts_children:
  "c \<in> set (eval_parts e) \<Longrightarrow> c \<in> set (children e) \<or> (\<exists>a \<in> set (children e). c \<in> set (children a))"
  by (induction e rule: eval_parts.induct) auto

lemma eval_parts_kind: "kind_of e \<noteq> None \<Longrightarrow> c \<in> set (eval_parts e) \<Longrightarrow> kind_of c \<noteq> None"
  using eval_parts_children kind_of_child by blast

definition projections_kept :: "(expr \<Rightarrow> expr) \<Rightarrow> bool" where
  "projections_kept f \<longleftrightarrow>
     (\<forall>b g p. f (EField b g p) = EField (f b) g p \<and> f (EVariant b g p) = EVariant (f b) g p)"

lemma eval_fold_children:
  assumes parts: "\<And>c l \<rho> v. c \<in> set (eval_parts e) \<Longrightarrow> eval I l \<rho> c = Some v \<Longrightarrow> eval I l \<rho> (f c) = Some v"
    and proj: "projections_kept f"
    and ev: "eval I l \<rho> e = Some v"
  shows "eval I l \<rho> (fold_children f e) = Some v"
proof (cases e)
  case (EFieldAccessPredicate a m p)
  then show ?thesis
    using parts ev proj
    by (cases a) (auto simp: projections_kept_def bind_eq_Some_conv)
next
  case (EUnaryOp op a p)
  then show ?thesis using parts ev by (auto simp: un_val_Some)
next
  case (EBinOp op a b p)
  then have "\<And>u. eval I l \<rho> a = Some u \<Longrightarrow> eval I l \<rho> (f a) = Some u"
    "\<And>u. eval I l \<rho> b = Some u \<Longrightarrow> eval I l \<rho> (f b) = Some u" using parts by simp_all
  note * = this
  have "bin_val op (eval I l \<rho> a) (eval I l \<rho> b) = Some v" using ev EBinOp by simp
  then have "bin_val op (eval I l \<rho> (f a)) (eval I l \<rho> (f b)) = Some v" by (rule bin_val_mono [OF _ *])
  then show ?thesis using EBinOp by simp
next
  case (EContainerOp op a b p)
  then have "\<And>u. eval I l \<rho> a = Some u \<Longrightarrow> eval I l \<rho> (f a) = Some u"
    "\<And>u. eval I l \<rho> b = Some u \<Longrightarrow> eval I l \<rho> (f b) = Some u" using parts by simp_all
  note * = this
  have "container_val op (eval I l \<rho> a) (eval I l \<rho> b) = Some v" using ev EContainerOp by simp
  then have "container_val op (eval I l \<rho> (f a)) (eval I l \<rho> (f b)) = Some v"
    by (rule container_val_mono [OF _ *])
  then show ?thesis using EContainerOp by simp
next
  case (ECond g a b p)
  then show ?thesis
    using parts ev
    by (cases "eval I l \<rho> g") (auto split: val.splits bool.splits)
next
  case (EForAll vs ts b p)
  then show ?thesis
    using parts ev quant_mono(1) [of "\<lambda>xs. eval I l (bind_vars vs xs \<rho>) b"
        "\<lambda>xs. eval I l (bind_vars vs xs \<rho>) (f b)"] by simp
next
  case (EExists vs ts b p)
  then show ?thesis
    using parts ev quant_mono(2) [of "\<lambda>xs. eval I l (bind_vars vs xs \<rho>) b"
        "\<lambda>xs. eval I l (bind_vars vs xs \<rho>) (f b)"] by simp
next
  case (ESeq t es p)
  then show ?thesis using parts ev mapO_mono [of "eval I l \<rho>" es _ "eval I l \<rho>" f] by auto
next
  case (EFuncApp n es fs t p)
  then show ?thesis
    using parts ev mapO_mono [of "eval I l \<rho>" es _ "eval I l \<rho>" f]
    by (auto simp: bind_eq_Some_conv)
next
  case (EDomainFuncApp df es p)
  then show ?thesis
    using parts ev mapO_mono [of "eval I l \<rho>" es _ "eval I l \<rho>" f]
    by (auto simp: bind_eq_Some_conv)
next
  case (EUnfolding n es b m i p)
  then show ?thesis
    using parts ev mapO_mono [of "eval I l \<rho>" es _ "eval I l \<rho>" f]
    by (auto simp: bind_eq_Some_conv)
qed (use parts ev in \<open>auto simp: bind_eq_Some_conv\<close>)

end
