(* ===== verification/Vir_Function.thy ===== *)
theory Vir_Function
  imports Vir_Semantics
begin

section \<open>Pure functions\<close>

text \<open>
  \<^verbatim>\<open>ast/function.rs\<close>: the function record, applications, and the inlining of a body, which
  substitutes the arguments for the formal arguments.
\<close>

record vfunction =
  fn_name :: string
  fn_formal_args :: "local_var list"
  fn_return_type :: type
  fn_pres :: "expr list"
  fn_posts :: "expr list"
  fn_body :: "expr option"

text \<open>
  \<open>inline_body\<close> panics when there is no body and when the body mentions a variable that is not a
  formal argument (indexing the substitution).
\<close>

function inline_locals :: "(local_var, expr) hmap \<Rightarrow> expr \<Rightarrow> string + expr" where
  "inline_locals subst e =
     (case fallible_fold_children (inline_locals subst) e of
        Inl err \<Rightarrow> Inl err
      | Inr x \<Rightarrow>
          (case x of
             ELocal v _ \<Rightarrow>
               (case hm_get local_var_eq subst v of
                  None \<Rightarrow> Inl ''no entry found for key''
                | Some a \<Rightarrow> Inr a)
           | _ \<Rightarrow> Inr x))"
  by pat_completeness auto
termination by (relation "measure (size \<circ> snd)") (auto simp: children_size)

declare inline_locals.simps [simp del]

definition inline_body :: "vfunction \<Rightarrow> expr list \<Rightarrow> string + expr" where
  "inline_body f args =
     (case fn_body f of
        None \<Rightarrow> Inl ''unwrap on None''
      | Some body \<Rightarrow>
          inline_locals (hm_extend local_var_eq [] (zip (fn_formal_args f) args)) body)"

definition function_apply :: "vfunction \<Rightarrow> expr list \<Rightarrow> expr" where
  "function_apply f args =
     EFuncApp (fn_name f) args (fn_formal_args f) (fn_return_type f) position_default"

definition function_get_identifier :: "vfunction \<Rightarrow> string" where
  "function_get_identifier f = compute_identifier (fn_name f) (fn_formal_args f) (fn_return_type f)"

subsection \<open>Inlining is substitution\<close>

text \<open>
  Expressions whose inlining needs no renaming (the source says it "does not handle let
  expressions, quantifiers, and so on") and whose variables are all evaluated in one state; field
  permissions, which are about locations and not values, do not occur in function bodies.
\<close>

fun hazard :: "expr \<Rightarrow> bool" where
  "hazard (EForAll _ _ _ _) = True"
| "hazard (EExists _ _ _ _) = True"
| "hazard (ELetExpr _ _ _ _) = True"
| "hazard (ELabelledOld _ _ _) = True"
| "hazard (EFieldAccessPredicate _ _ _) = True"
| "hazard _ = False"

definition inlinable :: "expr \<Rightarrow> bool" where
  "inlinable e \<longleftrightarrow> (\<forall>x \<in> subexprs e. \<not> hazard x)"

lemma inlinable_unfold: "inlinable e \<longleftrightarrow> \<not> hazard e \<and> (\<forall>c \<in> set (children e). inlinable c)"
  unfolding inlinable_def by (subst subexprs_unfold) blast

lemma mapO_eq:
  "(\<And>x. x \<in> set xs \<Longrightarrow> g (h x) = f x) \<Longrightarrow> mapO g (map h xs) = mapO f xs"
  by (induction xs) (auto split: option.splits)

lemma eval_fold_children_eq:
  assumes parts: "\<And>c. c \<in> set (children e) \<Longrightarrow> eval I l \<rho> (f c) = eval I l \<sigma> c"
    and nb: "\<not> hazard e" "\<not> is_local e"
  shows "eval I l \<rho> (fold_children f e) = eval I l \<sigma> e"
proof (cases e)
  case (ESeq t es p)
  then show ?thesis using parts by (simp add: mapO_eq [of es "eval I l \<rho>" f "eval I l \<sigma>"])
next
  case (EFuncApp n es fs t p)
  then show ?thesis using parts by (simp add: mapO_eq [of es "eval I l \<rho>" f "eval I l \<sigma>"])
next
  case (EDomainFuncApp df es p)
  then show ?thesis using parts by (simp add: mapO_eq [of es "eval I l \<rho>" f "eval I l \<sigma>"])
next
  case (EUnfolding n es b m i p)
  then show ?thesis using parts by (simp add: mapO_eq [of es "eval I l \<rho>" f "eval I l \<sigma>"])
next
  case (ECond g a b p)
  then have "eval I l \<rho> (f g) = eval I l \<sigma> g" "eval I l \<rho> (f a) = eval I l \<sigma> a"
    "eval I l \<rho> (f b) = eval I l \<sigma> b" using parts by simp_all
  then show ?thesis using ECond by (auto split: option.splits val.splits bool.splits)
qed (use nb in \<open>simp_all add: parts\<close>)

text \<open>The substitution without its failure, and what \<open>inline_locals\<close> returns when it returns.\<close>

function subst_locals :: "(local_var, expr) hmap \<Rightarrow> expr \<Rightarrow> expr" where
  "subst_locals m e =
     (case e of
        ELocal v _ \<Rightarrow> (case hm_get local_var_eq m v of Some a \<Rightarrow> a | None \<Rightarrow> e)
      | _ \<Rightarrow> fold_children (subst_locals m) e)"
  by pat_completeness auto
termination by (relation "measure (size \<circ> snd)") (auto simp: children_size)

declare subst_locals.simps [simp del]

lemma subst_locals_other: "\<not> is_local e \<Longrightarrow> subst_locals m e = fold_children (subst_locals m) e"
  by (subst subst_locals.simps) (cases e; simp)

lemma is_local_with_children: "is_local (with_children e cs) = is_local e"
  by (cases e) auto

lemma inline_locals_other:
  assumes "\<not> is_local e"
  shows "inline_locals m e = fallible_fold_children (inline_locals m) e"
proof (cases "fallible_fold_children (inline_locals m) e")
  case (Inl err)
  then show ?thesis by (simp add: inline_locals.simps [of m e])
next
  case (Inr x)
  then have "\<not> is_local x"
    using assms is_local_with_children
    by (auto simp: fallible_fold_children_def split: sum.splits)
  then show ?thesis using Inr by (cases x) (auto simp: inline_locals.simps [of m e])
qed

lemma inline_locals_local:
  "inline_locals m (ELocal v p) =
     (case hm_get local_var_eq m v of None \<Rightarrow> Inl ''no entry found for key'' | Some a \<Rightarrow> Inr a)"
  by (simp add: inline_locals.simps [of m "ELocal v p"] fallible_fold_children_def)

lemma inline_locals_Inr: "inline_locals m e = Inr x \<Longrightarrow> x = subst_locals m e"
proof (induction e arbitrary: x rule: expr_children_induct)
  case (step e)
  show ?case
  proof (cases "is_local e")
    case True
    then obtain v p where e: "e = ELocal v p" by (cases e) auto
    show ?thesis
      using step.prems unfolding e
      by (simp add: inline_locals.simps [of m "ELocal v p"] subst_locals.simps [of m "ELocal v p"]
          fallible_fold_children_def split: option.splits)
  next
    case False
    then obtain cs where cs: "mapE (inline_locals m) (children e) = Inr cs" "x = with_children e cs"
      using step.prems
      by (auto simp: inline_locals_other fallible_fold_children_def split: sum.splits)
    then have "cs = map (subst_locals m) (children e)"
      using step.IH unfolding mapE_Inr_iff list_all2_conv_all_nth
      by (auto intro: nth_equalityI)
    then show ?thesis using False cs by (simp add: subst_locals_other fold_children_def)
  qed
qed

lemma eval_subst_locals:
  assumes "inlinable e"
    and "\<And>v p. ELocal v p \<in> subexprs e \<Longrightarrow>
       eval I l \<rho> (subst_locals m (ELocal v p)) = eval I l \<sigma> (ELocal v p)"
  shows "eval I l \<rho> (subst_locals m e) = eval I l \<sigma> e"
  using assms
proof (induction e rule: expr_children_induct)
  case (step e)
  show ?case
  proof (cases "is_local e")
    case True
    then show ?thesis using step.prems(2) subexprs.self by (cases e) auto
  next
    case False
    have "eval I l \<rho> (fold_children (subst_locals m) e) = eval I l \<sigma> e"
    proof (rule eval_fold_children_eq)
      fix c assume c: "c \<in> set (children e)"
      then have "c \<in> subexprs e" by (rule subexprs.child [OF subexprs.self])
      then show "eval I l \<rho> (subst_locals m c) = eval I l \<sigma> c"
        using step.IH [OF c] step.prems inlinable_unfold [of e] c subexprs_trans by blast
    qed (use False step.prems(1) inlinable_unfold [of e] in simp_all)
    then show ?thesis using False by (simp add: subst_locals_other)
  qed
qed

lemma get_extend_zip:
  fixes as :: "expr list"
  assumes "distinct (map lv_name fs)" "length fs = length as" "j < length fs"
    and "hm_get local_var_eq m v = None \<or> lv_name v \<notin> lv_name ` set fs"
    and "local_var_eq (fs ! j) v"
  shows "hm_get local_var_eq (hm_extend local_var_eq m (zip fs as)) v = Some (as ! j)"
  using assms
proof (induction fs arbitrary: as m j)
  case (Cons f fs)
  obtain a as' where as: "as = a # as'" using Cons.prems(2) by (cases as) auto
  have refl: "local_var_eq f f" by (simp add: local_var_eq_def type_eq_def)
  have names: "local_var_eq x v \<Longrightarrow> lv_name x = lv_name v" for x by (simp add: local_var_eq_def)
  show ?case
  proof (cases j)
    case 0
    have keep: "hm_get local_var_eq (hm_extend local_var_eq n (zip gs bs)) v = hm_get local_var_eq n v"
      if "lv_name v \<notin> lv_name ` set gs" for n gs and bs :: "expr list"
      using that
    proof (induction gs arbitrary: n bs)
      case (Cons g gs)
      have "local_var_eq g g" by (simp add: local_var_eq_def type_eq_def)
      moreover have "\<not> local_var_eq g v" using Cons.prems by (auto simp: local_var_eq_def)
      ultimately show ?case using Cons by (cases bs) (auto simp: lv.get_insert)
    qed simp
    have "lv_name v \<notin> lv_name ` set fs"
      using Cons.prems 0 names [of f] by auto
    then show ?thesis using 0 Cons.prems as refl keep by (simp add: lv.get_insert)
  next
    case (Suc i)
    have i: "lv_name (fs ! i) = lv_name v" "fs ! i \<in> set fs"
      using Cons.prems(3,5) Suc names [of "fs ! i"] by simp_all
    have "lv_name v \<in> lv_name ` set fs" using i by (metis imageI)
    then have "\<not> local_var_eq f v" using Cons.prems(1) names [of f] by auto
    moreover have "hm_get local_var_eq m v = None"
      using Cons.prems(4) \<open>lv_name v \<in> lv_name ` set fs\<close> by auto
    ultimately have "hm_get local_var_eq (hm_insert local_var_eq m f a) v = None"
      using refl by (simp add: lv.get_insert)
    then show ?thesis using Cons.IH [of as' i "hm_insert local_var_eq m f a"] Cons.prems Suc as by simp
  qed
qed simp

lemma get_extend_key:
  "hm_get local_var_eq (hm_extend local_var_eq [] (zip fs as)) v = Some a \<Longrightarrow>
     \<exists>j < length fs. local_var_eq (fs ! j) v"
proof -
  have "hm_get local_var_eq (hm_extend local_var_eq m (zip fs as)) v = Some a \<Longrightarrow>
     hm_get local_var_eq m v = Some a \<or> (\<exists>x \<in> set fs. local_var_eq x v)" for m
  proof (induction fs arbitrary: as m)
    case (Cons f fs)
    have "local_var_eq f f" by (simp add: local_var_eq_def type_eq_def)
    then show ?case
      using Cons.IH [of "hm_insert local_var_eq m f (hd as)" "tl as"] Cons.prems
      by (cases as) (auto simp: lv.get_insert split: if_splits)
  qed simp
  then show "hm_get local_var_eq (hm_extend local_var_eq [] (zip fs as)) v = Some a \<Longrightarrow>
     \<exists>j < length fs. local_var_eq (fs ! j) v"
    by (fastforce simp: in_set_conv_nth)
qed

lemma inline_locals_bound:
  "inline_locals m e = Inr x \<Longrightarrow> ELocal v p \<in> subexprs e \<Longrightarrow> \<exists>a. hm_get local_var_eq m v = Some a"
proof (induction e arbitrary: x rule: expr_children_induct)
  case (step e)
  show ?case
  proof (cases "is_local e")
    case True
    then obtain w q where e: "e = ELocal w q" by (cases e) auto
    then have ve: "ELocal v p = e" using step.prems(2) subexprs_unfold [of e] by auto
    show ?thesis
      using step.prems(1) unfolding ve [symmetric]
      by (simp add: inline_locals.simps [of m "ELocal v p"] fallible_fold_children_def
          split: option.splits)
  next
    case False
    then obtain cs where cs: "mapE (inline_locals m) (children e) = Inr cs"
      using step.prems
      by (auto simp: inline_locals_other fallible_fold_children_def split: sum.splits)
    obtain c where c: "c \<in> set (children e)" "ELocal v p \<in> subexprs c"
      using step.prems(2) False subexprs_unfold [of e] by (cases e) auto
    then obtain y where "inline_locals m c = Inr y"
      using cs unfolding mapE_Inr_iff list_all2_conv_all_nth in_set_conv_nth by blast
    then show ?thesis using step.IH [OF c(1)] c(2) by blast
  qed
qed

lemma type_eq_kind: "type_eq t u \<Longrightarrow> type_kind t = type_kind u"
  by (cases t; cases u) (auto simp: type_eq_def)

lemma bind_vars_get:
  assumes "distinct (map lv_name fs)" "length fs = length xs" "j < length fs"
  shows "bind_vars fs xs \<rho> (lv_name (fs ! j)) = Some (xs ! j)"
  using assms
proof (induction fs xs \<rho> arbitrary: j rule: bind_vars.induct)
  case (1 v vs x xs \<rho>)
  have other: "n \<notin> lv_name ` set gs \<Longrightarrow> bind_vars gs ys \<sigma> n = \<sigma> n" for gs ys \<sigma> n
    by (induction gs ys \<sigma> rule: bind_vars.induct) auto
  show ?case
  proof (cases j)
    case 0
    then show ?thesis using 1 other [of "lv_name v" vs xs] by auto
  next
    case (Suc i)
    then show ?thesis using 1 by (auto simp del: fun_upd_apply)
  qed
qed auto

text \<open>
  C6 Inlining a pure function is sound: when \<open>inline_body\<close> returns, the inlined body has exactly the
  value (definedness included) that the function's body has with the formal arguments bound to the
  values of the arguments, for bodies without binders and \<open>old\<close>.  There are as many arguments as formal
  arguments, which have different names, and each argument has a value of the type of its formal argument.
\<close>

theorem inline_body_sound:
  assumes "fn_body f = Some body" "inline_body f args = Inr e" "inlinable body"
    and "distinct (map lv_name (fn_formal_args f))"
    and "length args = length (fn_formal_args f)" "length vals = length args"
    and "\<And>j. j < length args \<Longrightarrow> eval I l \<rho> (args ! j) = Some (vals ! j) \<and>
            val_kind (vals ! j) = type_kind (lv_typ (fn_formal_args f ! j))"
  shows "eval I l \<rho> e = eval I l (bind_vars (fn_formal_args f) vals Map.empty) body"
proof -
  let ?fs = "fn_formal_args f"
  let ?m = "hm_extend local_var_eq [] (zip ?fs args)"
  have run: "inline_locals ?m body = Inr e" using assms(1,2) by (simp add: inline_body_def)
  then have e: "e = subst_locals ?m body" by (rule inline_locals_Inr)
  have "eval I l \<rho> (subst_locals ?m (ELocal v p)) = eval I l (bind_vars ?fs vals Map.empty) (ELocal v p)"
    if occ: "ELocal v p \<in> subexprs body" for v p
  proof -
    obtain a where a: "hm_get local_var_eq ?m v = Some a"
      using inline_locals_bound [OF run occ] by blast
    obtain j where j: "j < length ?fs" "local_var_eq (?fs ! j) v"
      using get_extend_key [OF a] by auto
    have "a = args ! j" using get_extend_zip [of ?fs args j "[]" v] assms(4,5) j a by simp
    moreover have "bind_vars ?fs vals Map.empty (lv_name v) = Some (vals ! j)"
      using bind_vars_get [of ?fs vals j] assms(4,5,6) j by (simp add: local_var_eq_def)
    moreover have "type_kind (lv_typ v) = type_kind (lv_typ (?fs ! j))"
      using j(2) type_eq_kind by (auto simp: local_var_eq_def)
    ultimately show ?thesis
      using assms(5,7) j(1) a by (simp add: subst_locals.simps [of ?m "ELocal v p"] typed_def)
  qed
  then show ?thesis unfolding e by (rule eval_subst_locals [OF assms(3)])
qed

theorem inline_body_sound_witness:
  "let x = local_var_new ''x'' TInt;
       I = \<lparr>i_heap = (\<lambda>_ _ _. None), i_addr = (\<lambda>_. None), i_pred = (\<lambda>_ _ _ _. None),
            i_facc = (\<lambda>_ _ _ _. None), i_wand = (\<lambda>_ _ _. None), i_fun = (\<lambda>_ _ _. None),
            i_dom = (\<lambda>_ _. None), i_snap = (\<lambda>_ _. None), i_const = (\<lambda>_. None)\<rparr>;
       f = \<lparr>fn_name = ''double'', fn_formal_args = [x], fn_return_type = TInt, fn_pres = [],
            fn_posts = [], fn_body = Some (expr_add (expr_local x) (expr_local x))\<rparr>
   in \<exists>e. inline_body f [from_const (CInt 3)] = Inr e \<and> eval I None Map.empty e = Some (VInt 6)"
proof -
  let ?x = "local_var_new ''x'' TInt"
  let ?I = "\<lparr>i_heap = (\<lambda>_ _ _. None), i_addr = (\<lambda>_. None), i_pred = (\<lambda>_ _ _ _. None),
            i_facc = (\<lambda>_ _ _ _. None), i_wand = (\<lambda>_ _ _. None), i_fun = (\<lambda>_ _ _. None),
            i_dom = (\<lambda>_ _. None), i_snap = (\<lambda>_ _. None), i_const = (\<lambda>_. None)\<rparr> :: interp"
  let ?b = "expr_add (expr_local ?x) (expr_local ?x)"
  let ?f = "\<lparr>fn_name = ''double'', fn_formal_args = [?x], fn_return_type = TInt, fn_pres = [],
            fn_posts = [], fn_body = Some ?b\<rparr>"
  let ?a = "from_const (CInt 3)"
  have b: "inline_body ?f [?a] = Inr (expr_add ?a ?a)"
    by (simp add: inline_body_def inline_locals_other inline_locals_local fallible_fold_children_def
        expr_add_def expr_bin_def expr_local_def local_var_eq_def)
  have "inlinable ?b"
    by (simp add: inlinable_unfold [of "EBinOp _ _ _ _"] inlinable_unfold [of "ELocal _ _"]
        expr_add_def expr_bin_def expr_local_def)
  with inline_body_sound [of ?f ?b "[?a]" "expr_add ?a ?a" "[VInt 3]" ?I None Map.empty] b
  have "eval ?I None Map.empty (expr_add ?a ?a) = eval ?I None (bind_vars [?x] [VInt 3] Map.empty) ?b"
    by (simp add: from_const_def local_var_new_def)
  also have "\<dots> = Some (VInt 6)"
    by (simp add: expr_add_def expr_bin_def expr_local_def local_var_new_def typed_def
        bin_val_def strict_bin_def int_bin_def)
  finally show ?thesis using b by (auto simp: Let_def)
qed

end
