(* ===== verification/Opt_Simplifier.thy ===== *)
theory Opt_Simplifier
  imports Vir_Function
begin

section \<open>The expression simplifier\<close>

text \<open>
  \<^verbatim>\<open>optimizations/functions/simplifier.rs\<close>.  The order of the equations of \<open>apply_rules\<close> is the order
  of the source's match arms.  The main result is that simplification never changes the value of a
  well-kinded expression that has one.
\<close>

fun bool_const :: "expr \<Rightarrow> bool option" where
  "bool_const (EConst (CBool b) _) = Some b"
| "bool_const _ = None"

fun dest_eq_cmp :: "expr \<Rightarrow> (expr \<times> expr) option" where
  "dest_eq_cmp (EBinOp EqCmp left right _) = Some (left, right)"
| "dest_eq_cmp _ = None"

fun apply_rules :: "expr \<Rightarrow> expr" where
  "apply_rules (EUnaryOp op a pos) =
     (if op = UnNot then
        (case bool_const a of
           Some b \<Rightarrow> EConst (CBool (\<not> b)) pos
         | None \<Rightarrow>
             (case dest_eq_cmp a of
                Some (left, right) \<Rightarrow> EBinOp NeCmp left right pos
              | None \<Rightarrow> EUnaryOp op a pos))
      else EUnaryOp op a pos)"
| "apply_rules (EBinOp op x y pos) =
     (case op of
        OpAnd \<Rightarrow>
          (case (bool_const x, bool_const y) of
             (Some b1, Some b2) \<Rightarrow> EConst (CBool (b1 \<and> b2)) pos
           | (Some b, None) \<Rightarrow> if b then y else from_bool False
           | (None, Some b) \<Rightarrow> if b then x else from_bool False
           | (None, None) \<Rightarrow> EBinOp OpAnd (apply_rules x) (apply_rules y) pos)
      | OpOr \<Rightarrow>
          (case (bool_const x, bool_const y) of
             (Some b, _) \<Rightarrow> if b then from_bool True else y
           | (None, Some b) \<Rightarrow> if b then from_bool True else x
           | (None, None) \<Rightarrow> EBinOp OpOr x y pos)
      | OpImplies \<Rightarrow>
          (case (bool_const x, bool_const y) of
             (_, Some b) \<Rightarrow> if b then from_bool True else EUnaryOp UnNot x pos
           | (Some b, None) \<Rightarrow> if b then y else from_bool True
           | (None, None) \<Rightarrow> EBinOp OpImplies x y pos)
      | _ \<Rightarrow> EBinOp op x y pos)"
| "apply_rules r = r"

text \<open>
  The overridden \<open>fold_cond\<close> applies the rules to its own result, and \<open>fold\<close> applies them again to
  what \<open>fold_cond\<close> returns.
\<close>

definition fold_cond :: "expr \<Rightarrow> expr \<Rightarrow> expr \<Rightarrow> position \<Rightarrow> expr" where
  "fold_cond simplified_guard simplified_then simplified_else pos =
     apply_rules
       (if is_bool simplified_then \<or> is_bool simplified_else
        then EBinOp OpAnd
               (EBinOp OpImplies simplified_guard simplified_then pos)
               (EBinOp OpImplies (EUnaryOp UnNot simplified_guard pos) simplified_else pos)
               pos
        else ECond simplified_guard simplified_then simplified_else pos)"

function simplify :: "expr \<Rightarrow> expr" where
  "simplify e =
     apply_rules
       (case e of
          ECond g a b p \<Rightarrow> fold_cond (simplify g) (simplify a) (simplify b) p
        | _ \<Rightarrow> fold_children simplify e)"
  by pat_completeness auto
termination by (relation "measure size") (auto simp: children_size)

declare simplify.simps [simp del]

definition simplify_function :: "vfunction \<Rightarrow> vfunction" where
  "simplify_function f = f\<lparr>fn_body := map_option simplify (fn_body f)\<rparr>"

subsection \<open>The rules keep kinds and values\<close>

lemma kind_from_bool [simp]: "kind_of (from_bool b) = Some KBool"
  by (simp add: from_bool_def)

lemma eval_from_bool [simp]: "eval I l \<rho> (from_bool b) = Some (VBool b)"
  by (simp add: from_bool_def)

lemma bool_const_Some: "bool_const e = Some b \<longleftrightarrow> (\<exists>p. e = EConst (CBool b) p)"
  by (induction e rule: bool_const.induct) auto

lemma dest_eq_cmp_Some: "dest_eq_cmp e = Some (x, y) \<longleftrightarrow> (\<exists>p. e = EBinOp EqCmp x y p)"
  by (induction e rule: dest_eq_cmp.induct) auto

lemma bool_const_kind: "bool_const e = Some b \<Longrightarrow> kind_of e = Some KBool"
  by (auto simp: bool_const_Some)

lemma bool_const_eval: "bool_const e = Some b \<Longrightarrow> eval I l \<rho> e = Some (VBool b)"
  by (auto simp: bool_const_Some)

lemma short_bool:
  "short c d (Some (VBool b)) r = (if b = c then typed TBool r else Some (VBool d))"
  by (simp add: short_def)

lemma typed_bool_kind: "r = Some v \<Longrightarrow> val_kind v = KBool \<Longrightarrow> typed TBool r = Some v"
  by (simp add: typed_def)

lemma apply_rules_kind: "kind_of e = Some k \<Longrightarrow> kind_of (apply_rules e) = Some k"
proof (induction e arbitrary: k rule: apply_rules.induct)
  case (1 op a pos)
  then show ?case
    by (cases "bool_const a"; cases "dest_eq_cmp a")
       (auto simp: bool_const_Some dest_eq_cmp_Some simp del: not_None_eq
         split: if_splits unary_op_kind.splits)
next
  case (2 op x y pos)
  show ?case
  proof (cases "op \<in> {OpAnd, OpOr, OpImplies}")
    case True
    then have "kind_of x = Some KBool" "kind_of y = Some KBool" "k = KBool"
      using 2(3) by (auto split: if_splits)
    then show ?thesis
      using True 2(1,2) by (cases "bool_const x"; cases "bool_const y") auto
  next
    case False
    then show ?thesis using 2(3) by (cases op) auto
  qed
qed simp_all

lemma apply_rules_eval:
  "kind_of e \<noteq> None \<Longrightarrow> eval I l \<rho> e = Some v \<Longrightarrow> eval I l \<rho> (apply_rules e) = Some v"
proof (induction e arbitrary: v rule: apply_rules.induct)
  case (1 op a pos)
  show ?case
  proof (cases "op = UnNot")
    case True
    then show ?thesis
      using 1
      by (cases "bool_const a"; cases "dest_eq_cmp a")
         (auto simp: bool_const_Some dest_eq_cmp_Some un_val_Some bin_val_strict strict_bin_def
           split: option.splits if_splits)
  qed (use 1 in simp)
next
  case (2 op x y pos)
  show ?case
  proof (cases "op \<in> {OpAnd, OpOr, OpImplies}")
    case True
    then have k: "kind_of x = Some KBool" "kind_of y = Some KBool"
      using 2(3) by (auto split: if_splits)
    have kv: "val_kind u = KBool" if "eval I l \<rho> x = Some u \<or> eval I l \<rho> y = Some u" for u
      using that eval_kind k by blast
    show ?thesis
      using True 2 k kv bool_const_eval [of x _ I l \<rho>] bool_const_eval [of y _ I l \<rho>]
      by (cases "bool_const x"; cases "bool_const y")
         (auto simp: bin_val_logic short_Some un_val_Some split: if_splits)
  next
    case False
    then show ?thesis using 2(4) by (cases op) auto
  qed
qed simp_all

subsection \<open>The whole fold\<close>

lemma place_kind: "is_place e \<Longrightarrow> kind_of e = Some k \<Longrightarrow> get_type e = Some t \<Longrightarrow> k = type_kind t"
  by (induction e arbitrary: k t rule: is_place.induct) (auto split: if_splits)

lemma is_bool_kind: "is_bool e \<Longrightarrow> kind_of e = Some k \<Longrightarrow> k = KBool"
proof (cases "is_place e")
  case True
  assume "is_bool e" "kind_of e = Some k"
  then show ?thesis
    using True place_kind [OF True] by (auto simp: is_bool_def split: option.splits)
next
  case False
  assume "is_bool e" "kind_of e = Some k"
  then have "is_bool_shape e" using False by (simp add: is_bool_def)
  then show ?thesis
    using \<open>kind_of e = Some k\<close>
    by (induction e rule: is_bool_shape.induct) (auto split: if_splits)
qed

lemma kind_fold_children:
  assumes "\<And>c. c \<in> set (children e) \<Longrightarrow> kind_of (f c) = kind_of c"
  shows "kind_of (fold_children f e) = kind_of e"
  using assms by (cases e) (auto simp: list_all_iff)

lemma fold_cond_kind:
  assumes "kind_of g = Some KBool" "kind_of a = Some k" "kind_of b = Some k"
  shows "kind_of (fold_cond g a b p) = Some k"
  unfolding fold_cond_def
  by (rule apply_rules_kind) (use assms is_bool_kind [of a k] is_bool_kind [of b k] in auto)

lemma fold_cond_eval:
  assumes "kind_of g = Some KBool" "kind_of a = Some k" "kind_of b = Some k"
    and "eval I l \<rho> (ECond g a b p) = Some v"
  shows "eval I l \<rho> (fold_cond g a b p) = Some v"
  unfolding fold_cond_def
proof (rule apply_rules_eval)
  have kv: "val_kind v = k"
    using eval_kind [OF assms(4), of k] assms(1-3) by simp
  show "eval I l \<rho> (if is_bool a \<or> is_bool b
      then EBinOp OpAnd (EBinOp OpImplies g a p) (EBinOp OpImplies (EUnaryOp UnNot g p) b p) p
      else ECond g a b p) = Some v"
    using assms kv is_bool_kind [of a k] is_bool_kind [of b k]
    by (auto simp: bin_val_logic short_Some un_val_Some kind_KBool
        split: option.splits val.splits bool.splits)
  show "kind_of (if is_bool a \<or> is_bool b
      then EBinOp OpAnd (EBinOp OpImplies g a p) (EBinOp OpImplies (EUnaryOp UnNot g p) b p) p
      else ECond g a b p) \<noteq> None"
    using assms(1-3) is_bool_kind [of a k] is_bool_kind [of b k] by auto
qed

lemma simplify_other:
  "\<not> (\<exists>g a b p. e = ECond g a b p) \<Longrightarrow> simplify e = apply_rules (fold_children simplify e)"
  by (subst simplify.simps) (cases e; simp)

lemma simplify_cond:
  "simplify (ECond g a b p) = apply_rules (fold_cond (simplify g) (simplify a) (simplify b) p)"
  by (simp add: simplify.simps [of "ECond g a b p"])

lemma simplify_kind: "kind_of e \<noteq> None \<Longrightarrow> kind_of (simplify e) = kind_of e"
proof (induction e rule: expr_children_induct)
  case (step e)
  then obtain k where k: "kind_of e = Some k" by auto
  have IH: "kind_of (simplify c) = kind_of c" if "c \<in> set (children e)" for c
    using step kind_of_child that by blast
  show ?case
  proof (cases "\<exists>g a b p. e = ECond g a b p")
    case True
    then obtain g a b p where e: "e = ECond g a b p" by blast
    then have "kind_of g = Some KBool" "kind_of a = Some k" "kind_of b = Some k"
      using k by (auto split: if_splits)
    then have "kind_of (fold_cond (simplify g) (simplify a) (simplify b) p) = Some k"
      using IH e by (intro fold_cond_kind) auto
    then show ?thesis using e k apply_rules_kind by (simp add: simplify_cond)
  next
    case False
    then show ?thesis
      using k IH kind_fold_children [of e simplify] apply_rules_kind by (simp add: simplify_other)
  qed
qed

lemma projections_kept_simplify: "projections_kept simplify"
  by (auto simp: projections_kept_def simplify.simps [of "EField _ _ _"]
      simplify.simps [of "EVariant _ _ _"])

lemma simplify_eval:
  "kind_of e \<noteq> None \<Longrightarrow> eval I l \<rho> e = Some v \<Longrightarrow> eval I l \<rho> (simplify e) = Some v"
proof (induction e arbitrary: l \<rho> v rule: measure_induct_rule [of size])
  case (less e)
  show ?case
  proof (cases "\<exists>g a b p. e = ECond g a b p")
    case True
    then obtain g a b p where e: "e = ECond g a b p" by blast
    have c: "c \<in> set (children e) \<Longrightarrow> kind_of c \<noteq> None" for c using kind_of_child less.prems(1) by blast
    have k: "kind_of (simplify g) = Some KBool" "kind_of (simplify a) = kind_of e"
      "kind_of (simplify b) = kind_of e"
      using less.prems(1) c e simplify_kind by (auto split: if_splits)
    have ev: "eval I l \<rho> (ECond (simplify g) (simplify a) (simplify b) p) = Some v"
      using less.IH [of g] less.IH [of a] less.IH [of b] c less.prems(2) e
      by (auto split: option.splits val.splits bool.splits)
    obtain k' where "kind_of e = Some k'" using less.prems(1) by blast
    then have "eval I l \<rho> (fold_cond (simplify g) (simplify a) (simplify b) p) = Some v"
      "kind_of (fold_cond (simplify g) (simplify a) (simplify b) p) \<noteq> None"
      using fold_cond_eval [OF k(1) _ _ ev] fold_cond_kind [OF k(1)] k(2,3) by auto
    then show ?thesis using e apply_rules_eval by (simp add: simplify_cond)
  next
    case False
    have "eval I l \<rho> (fold_children simplify e) = Some v"
    proof (rule eval_fold_children [OF _ projections_kept_simplify less.prems(2)])
      fix c l \<rho> v assume "c \<in> set (eval_parts e)" "eval I l \<rho> c = Some v"
      then show "eval I l \<rho> (simplify c) = Some v"
        using less.IH eval_parts_size eval_parts_kind less.prems(1) by blast
    qed
    moreover have "kind_of (fold_children simplify e) = kind_of e"
      using kind_fold_children simplify_kind kind_of_child less.prems(1) by blast
    ultimately show ?thesis using False apply_rules_eval less.prems(1) by (simp add: simplify_other)
  qed
qed

text \<open>
  C1 The simplifier preserves meaning: whenever a well-kinded expression has a value in some
  interpretation, state and environment, the simplified expression has the same value, and it is
  still well kinded.  (The converse fails on purpose: \<open>e && false\<close> becomes \<open>false\<close> even where
  evaluating \<open>e\<close> is undefined.)
\<close>

theorem simplify_sound:
  assumes "kind_of e = Some k"
  shows "kind_of (simplify e) = Some k \<and>
    (eval I l \<rho> e = Some v \<longrightarrow> eval I l \<rho> (simplify e) = Some v)"
  using assms simplify_eval simplify_kind by simp

theorem simplify_sound_witness:
  "let x = expr_local (local_var_new ''x'' TBool);
       e = expr_ite x (expr_not (eq_cmp x (from_bool False))) (from_bool False);
       I = \<lparr>i_heap = (\<lambda>_ _ _. None), i_addr = (\<lambda>_. None), i_pred = (\<lambda>_ _ _ _. None),
            i_facc = (\<lambda>_ _ _ _. None), i_wand = (\<lambda>_ _ _. None), i_fun = (\<lambda>_ _ _. None),
            i_dom = (\<lambda>_ _. None), i_snap = (\<lambda>_ _. None), i_const = (\<lambda>_. None)\<rparr>
   in eval I None [''x'' \<mapsto> VBool True] (simplify e) = Some (VBool True)"
proof -
  let ?x = "expr_local (local_var_new ''x'' TBool)"
  let ?e = "expr_ite ?x (expr_not (eq_cmp ?x (from_bool False))) (from_bool False)"
  have "kind_of ?e = Some KBool"
    by (simp add: expr_ite_def expr_local_def expr_not_def eq_cmp_def expr_bin_def local_var_new_def)
  moreover have "eval I None [''x'' \<mapsto> VBool True] ?e = Some (VBool True)" for I
    by (simp add: expr_ite_def expr_local_def expr_not_def eq_cmp_def expr_bin_def
        local_var_new_def typed_def bin_val_def strict_bin_def)
  ultimately show ?thesis using simplify_sound by (simp add: Let_def)
qed

subsection \<open>Rust's remainder\<close>

lemma smt_mod_abs: "n \<noteq> 0 \<Longrightarrow> smt_mod m n = m mod \<bar>n\<bar>"
  using minus_mult_div_eq_mod [of m n] minus_mult_div_eq_mod [of m "- n"]
  by (auto simp: smt_mod_def smt_div_def abs_if)

lemma truncated_rem:
  assumes "n \<noteq> (0::int)"
  shows "(if 0 \<le> m \<or> m mod \<bar>n\<bar> = 0 then m mod \<bar>n\<bar> else m mod \<bar>n\<bar> - \<bar>n\<bar>) = sgn m * (\<bar>m\<bar> mod \<bar>n\<bar>)"
proof (cases "0 \<le> m")
  case True
  then show ?thesis by (cases "m = 0") auto
next
  case False
  then have "\<bar>m\<bar> mod \<bar>n\<bar> = (if m mod \<bar>n\<bar> = 0 then 0 else \<bar>n\<bar> - m mod \<bar>n\<bar>)"
    by (simp add: zmod_zminus1_eq_if)
  then show ?thesis using False by simp
qed

text \<open>
  The encoding of Rust's remainder with Viper's Euclidean modulo computes the truncated
  remainder for every sign of the operands: its magnitude is the remainder of the magnitudes and
  its sign is the sign of the dividend.
\<close>

theorem expr_rem_truncated:
  assumes "eval I l \<rho> a = Some (VInt m)" "eval I l \<rho> b = Some (VInt n)" "n \<noteq> 0"
  shows "eval I l \<rho> (expr_rem a b) = Some (VInt (sgn m * (\<bar>m\<bar> mod \<bar>n\<bar>)))"
proof -
  note defs = expr_bin_def bin_val_def strict_bin_def int_bin_def
  have md: "eval I l \<rho> (expr_modulo a b) = Some (VInt (m mod \<bar>n\<bar>))"
    using assms by (simp add: expr_modulo_def defs smt_mod_abs)
  have zero: "eval I l \<rho> int_zero = Some (VInt 0)" by (simp add: int_zero_def)
  have ge: "eval I l \<rho> (ge_cmp a int_zero) = Some (VBool (0 \<le> m))"
    "eval I l \<rho> (ge_cmp b int_zero) = Some (VBool (0 \<le> n))"
    using assms zero by (simp_all add: ge_cmp_def defs)
  have eq: "eval I l \<rho> (eq_cmp (expr_modulo a b) int_zero) = Some (VBool (m mod \<bar>n\<bar> = 0))"
    using md zero by (simp add: eq_cmp_def defs)
  have absr: "eval I l \<rho> (expr_ite (ge_cmp b int_zero) b (expr_minus b)) = Some (VInt \<bar>n\<bar>)"
    using assms(2) ge(2) by (cases "0 \<le> n") (simp_all add: expr_ite_def expr_minus_def)
  have guard: "eval I l \<rho> (expr_or (ge_cmp a int_zero) (eq_cmp (expr_modulo a b) int_zero)) =
      Some (VBool (0 \<le> m \<or> m mod \<bar>n\<bar> = 0))"
    using ge(1) eq by (simp add: expr_or_def expr_bin_def bin_val_def short_def typed_def)
  have sub: "eval I l \<rho> (expr_sub (expr_modulo a b) (expr_ite (ge_cmp b int_zero) b (expr_minus b))) =
      Some (VInt (m mod \<bar>n\<bar> - \<bar>n\<bar>))"
    using md absr by (simp add: expr_sub_def defs)
  have ite: "eval I l \<rho> (expr_ite g x y) = (if c then eval I l \<rho> x else eval I l \<rho> y)"
    if "eval I l \<rho> g = Some (VBool c)" for g x y c
    using that by (cases c) (simp_all add: expr_ite_def)
  show ?thesis
    unfolding expr_rem_def Let_def ite [OF guard] md sub truncated_rem [OF assms(3), of m, symmetric]
    by simp
qed

theorem expr_rem_truncated_witness:
  "let I = \<lparr>i_heap = (\<lambda>_ _ _. None), i_addr = (\<lambda>_. None), i_pred = (\<lambda>_ _ _ _. None),
            i_facc = (\<lambda>_ _ _ _. None), i_wand = (\<lambda>_ _ _. None), i_fun = (\<lambda>_ _ _. None),
            i_dom = (\<lambda>_ _. None), i_snap = (\<lambda>_ _. None), i_const = (\<lambda>_. None)\<rparr>
   in eval I None Map.empty (expr_rem (from_const (CInt (-7))) (from_const (CInt (-2)))) = Some (VInt (-1))"
  using expr_rem_truncated [of _ None Map.empty "from_const (CInt (-7))" "-7" "from_const (CInt (-2))" "-2"]
  by (simp add: Let_def from_const_def)

end
