(* ===== verification/Graph_Search.thy ===== *)
theory Graph_Search
  imports Prelude
begin

section \<open>Searches over indexed nodes\<close>

text \<open>
  Several components walk a graph whose nodes are the indices of a vector: the reborrowing DAG
  (\<open>DAG::guard\<close>), the control-flow graph (\<open>has_loops\<close>, \<open>get_topological_sort\<close>, \<open>find_path\<close>,
  \<open>collect_assigned_vars\<close>).  This theory holds the loops they share and their correctness, proved
  once in a locale over a family of graphs; the components interpret it.
\<close>

subsection \<open>Breadth-first search with a visited vector\<close>

text \<open>
  The inner loop: every successor not visited yet is marked, queued and recorded.  \<open>None\<close> is an
  index out of bounds.
\<close>

type_synonym search_state = "bool list \<times> nat list \<times> nat list"

fun push_new :: "nat list \<Rightarrow> search_state \<Rightarrow> search_state option" where
  "push_new [] st = Some st"
| "push_new (x # xs) (visited, queue, order) =
     (if length visited \<le> x then None
      else if visited ! x then push_new xs (visited, queue, order)
      else push_new xs (visited[x := True], queue @ [x], order @ [x]))"

definition unvisited :: "bool list \<Rightarrow> nat" where
  "unvisited visited = length (filter Not visited)"

lemma unvisited_set: "x < length vs \<Longrightarrow> \<not> vs ! x \<Longrightarrow> unvisited vs = Suc (unvisited (vs[x := True]))"
proof -
  assume x: "x < length vs" "\<not> vs ! x"
  then have "vs = take x vs @ False # drop (Suc x) vs" by (metis (full_types) id_take_nth_drop)
  then have "unvisited vs = unvisited (take x vs @ False # drop (Suc x) vs)" by (rule arg_cong)
  moreover have "vs[x := True] = take x vs @ True # drop (Suc x) vs"
    using x by (simp add: upd_conv_take_nth_drop)
  ultimately show ?thesis by (simp add: unvisited_def)
qed

lemma push_new_measure:
  "push_new xs (vs, q, ord) = Some (vs', q', ord') \<Longrightarrow>
     2 * unvisited vs' + length q' \<le> 2 * unvisited vs + length q"
proof (induction xs arbitrary: vs q ord)
  case (Cons x xs)
  then show ?case using unvisited_set [of x vs] by (force split: if_splits)
qed simp

function bfs :: "(nat \<Rightarrow> nat list option) \<Rightarrow> search_state \<Rightarrow> nat list option" where
  "bfs succ (visited, [], order) = Some order"
| "bfs succ (visited, c # queue, order) =
     (case succ c of
        None \<Rightarrow> None
      | Some ss \<Rightarrow>
          (case push_new ss (visited, queue, order) of
             None \<Rightarrow> None
           | Some st \<Rightarrow> bfs succ st))"
  by pat_completeness auto
termination
  by (relation "measure (\<lambda>(succ, visited, queue, order). 2 * unvisited visited + length queue)")
     (auto dest: push_new_measure)

text \<open>
  The interface: a family of graphs, each with a number of nodes and a successor function that is
  defined and in range on every node of a well-formed graph.
\<close>

locale indexed_graph =
  fixes wf :: "'g \<Rightarrow> bool"
    and nodes :: "'g \<Rightarrow> nat"
    and succ :: "'g \<Rightarrow> nat \<Rightarrow> nat list option"
  assumes succ_total: "wf g \<Longrightarrow> c < nodes g \<Longrightarrow> \<exists>ss. succ g c = Some ss \<and> (\<forall>s \<in> set ss. s < nodes g)"
begin

definition edges :: "'g \<Rightarrow> (nat \<times> nat) set" where
  "edges g = {(c, s). c < nodes g \<and> (\<exists>ss. succ g c = Some ss \<and> s \<in> set ss)}"

lemma edge_range: "wf g \<Longrightarrow> (c, s) \<in> edges g \<Longrightarrow> c < nodes g \<and> s < nodes g"
  using succ_total unfolding edges_def by fastforce

lemma reach_range: "(c, s) \<in> (edges g)\<^sup>* \<Longrightarrow> wf g \<Longrightarrow> c < nodes g \<Longrightarrow> s < nodes g"
  by (induction rule: rtrancl_induct) (auto dest: edge_range)

lemma push_new_spec:
  assumes "\<forall>x \<in> set xs. x < length vs"
  shows "\<exists>vs' new. push_new xs (vs, q, ord) = Some (vs', q @ new, ord @ new) \<and> length vs' = length vs \<and>
    distinct new \<and> (\<forall>x < length vs. vs' ! x \<longleftrightarrow> vs ! x \<or> x \<in> set xs) \<and>
    set new = {x \<in> set xs. \<not> vs ! x}"
  using assms
proof (induction xs arbitrary: vs q ord)
  case (Cons x xs)
  show ?case
  proof (cases "vs ! x")
    case True
    then show ?thesis using Cons.IH [of vs q ord] Cons.prems by force
  next
    case False
    obtain vs' new where IH: "push_new xs (vs[x := True], q @ [x], ord @ [x]) =
        Some (vs', (q @ [x]) @ new, (ord @ [x]) @ new)" "length vs' = length vs" "distinct new"
      "\<forall>y < length vs. vs' ! y \<longleftrightarrow> vs[x := True] ! y \<or> y \<in> set xs"
      "set new = {y \<in> set xs. \<not> vs[x := True] ! y}"
      using Cons.IH [of "vs[x := True]" "q @ [x]" "ord @ [x]"] Cons.prems by auto
    have "x < length vs" using Cons.prems by simp
    then have n: "set (x # new) = {y \<in> set (x # xs). \<not> vs ! y}" "x \<notin> set new"
      using IH(5) False Cons.prems by (auto simp: nth_list_update split: if_splits)
    have "\<forall>y < length vs. vs' ! y \<longleftrightarrow> vs ! y \<or> y \<in> set (x # xs)"
      using IH(4) by (auto simp: nth_list_update [OF \<open>x < length vs\<close>])
    then show ?thesis
      using IH n False \<open>x < length vs\<close> by (intro exI [of _ vs'] exI [of _ "x # new"]) auto
  qed
qed simp

lemma bfs_inv:
  assumes "wf g" "length vs = nodes g" "\<forall>x < nodes g. vs ! x \<longleftrightarrow> x \<in> set ord" "distinct ord"
    and "set ord \<subseteq> {..<nodes g}" "set q \<subseteq> set ord"
    and "\<forall>x \<in> set ord - set q. \<forall>y. (x, y) \<in> edges g \<longrightarrow> y \<in> set ord"
    and "set ord \<subseteq> (edges g)\<^sup>* `` {root}"
  shows "\<exists>res. bfs (succ g) (vs, q, ord) = Some res \<and> distinct res \<and> (\<exists>new. res = ord @ new) \<and>
    set res \<subseteq> (edges g)\<^sup>* `` {root} \<and> (\<forall>x \<in> set res. \<forall>y. (x, y) \<in> edges g \<longrightarrow> y \<in> set res)"
  using assms
proof (induction "succ g" "(vs, q, ord)" arbitrary: vs q ord rule: bfs.induct)
  case (1 vs ord)
  then show ?case by auto
next
  case (2 vs c q ord)
  have c: "c < nodes g" using 2(6,7) by auto
  then obtain ss where ss: "succ g c = Some ss" "\<forall>s \<in> set ss. s < nodes g"
    using succ_total 2(2) by blast
  obtain vs' new where pn: "push_new ss (vs, q, ord) = Some (vs', q @ new, ord @ new)"
      "length vs' = length vs" "distinct new" "\<forall>x < length vs. vs' ! x \<longleftrightarrow> vs ! x \<or> x \<in> set ss"
      "set new = {x \<in> set ss. \<not> vs ! x}"
    using push_new_spec [of ss vs q ord] ss(2) unfolding 2(3) by blast
  have edge: "(c, y) \<in> edges g \<longleftrightarrow> y \<in> set ss" for y using c ss(1) by (auto simp: edges_def)
  have old: "\<And>x. x < nodes g \<Longrightarrow> vs ! x \<longleftrightarrow> x \<in> set ord" using 2(4) by blast
  have creach: "(root, c) \<in> (edges g)\<^sup>*" using 2(7,9) by auto
  have "\<exists>res. bfs (succ g) (vs', q @ new, ord @ new) = Some res \<and> distinct res \<and>
      (\<exists>new'. res = (ord @ new) @ new') \<and> set res \<subseteq> (edges g)\<^sup>* `` {root} \<and>
      (\<forall>x \<in> set res. \<forall>y. (x, y) \<in> edges g \<longrightarrow> y \<in> set res)"
  proof (rule 2(1) [OF ss(1) pn(1)])
    show "wf g" by (rule 2(2))
    show "length vs' = nodes g" using pn(2) 2(3) by simp
    show "\<forall>x < nodes g. vs' ! x \<longleftrightarrow> x \<in> set (ord @ new)" using pn(4,5) old 2(3) by auto
    show "distinct (ord @ new)" using pn(3,5) 2(5) old ss(2) by auto
    show "set (ord @ new) \<subseteq> {..<nodes g}" using 2(6) pn(5) ss(2) by auto
    show "set (q @ new) \<subseteq> set (ord @ new)" using 2(7) by auto
    show "set (ord @ new) \<subseteq> (edges g)\<^sup>* `` {root}"
      using 2(9) pn(5) creach edge by (auto intro: rtrancl_into_rtrancl)
    show "\<forall>x \<in> set (ord @ new) - set (q @ new). \<forall>y. (x, y) \<in> edges g \<longrightarrow> y \<in> set (ord @ new)"
    proof (intro ballI allI impI)
      fix x y assume x: "x \<in> set (ord @ new) - set (q @ new)" and e: "(x, y) \<in> edges g"
      show "y \<in> set (ord @ new)"
      proof (cases "x = c")
        case True
        then show ?thesis using e edge pn(5) old ss(2) by auto
      next
        case False
        then have "x \<in> set ord - set (c # q)" using x by auto
        then have "y \<in> set ord" using e 2(8) by blast
        then show ?thesis by simp
      qed
    qed
  qed
  then show ?case using ss(1) pn(1) by auto
qed

lemma bfs_reaches:
  assumes "wf g" "root < nodes g"
  shows "\<exists>res. bfs (succ g) ((replicate (nodes g) False)[root := True], [root], [root]) = Some res \<and>
    distinct res \<and> hd res = root \<and> set res = (edges g)\<^sup>* `` {root}"
proof -
  have "\<forall>x < nodes g. ((replicate (nodes g) False)[root := True]) ! x \<longleftrightarrow> x \<in> set [root]"
    using assms(2) by (auto simp: nth_list_update)
  then obtain res where res: "bfs (succ g) ((replicate (nodes g) False)[root := True], [root], [root]) = Some res"
    "distinct res" "\<exists>new. res = [root] @ new" "set res \<subseteq> (edges g)\<^sup>* `` {root}"
    "\<forall>x \<in> set res. \<forall>y. (x, y) \<in> edges g \<longrightarrow> y \<in> set res"
    using bfs_inv [of g "(replicate (nodes g) False)[root := True]" "[root]" "[root]" root] assms
    by (auto simp del: bfs.simps)
  have "y \<in> set res" if "(root, y) \<in> (edges g)\<^sup>*" for y
    using that by (induction rule: rtrancl_induct) (use res(3,5) in auto)
  then show ?thesis using res by auto
qed

end

subsection \<open>Graphs given by adjacency lists\<close>

text \<open>
  The control-flow graph as \<open>Successor::get_following\<close> shows it: for every block the indices of the
  blocks that follow, with repetitions.  Well formed means that every target exists.
\<close>

type_synonym adjacency = "nat list list"

definition adj_wf :: "adjacency \<Rightarrow> bool" where
  "adj_wf g \<longleftrightarrow> (\<forall>ss \<in> set g. \<forall>s \<in> set ss. s < length g)"

definition adj_succ :: "adjacency \<Rightarrow> nat \<Rightarrow> nat list option" where
  "adj_succ g c = (if c < length g then Some (g ! c) else None)"

definition adj_edges :: "adjacency \<Rightarrow> (nat \<times> nat) set" where
  "adj_edges g = {(c, s). c < length g \<and> s \<in> set (g ! c)}"

interpretation adj: indexed_graph adj_wf length adj_succ
  by unfold_locales (auto simp: adj_wf_def adj_succ_def)

lemma adj_edges_eq: "adj.edges g = adj_edges g"
  by (auto simp: adj.edges_def adj_edges_def adj_succ_def)

lemma adj_edge_range: "adj_wf g \<Longrightarrow> (c, s) \<in> adj_edges g \<Longrightarrow> c < length g \<and> s < length g"
  using adj.edge_range [of g] by (simp add: adj_edges_eq)

subsection \<open>Kahn's algorithm\<close>

text \<open>
  \<open>has_loops\<close>: in-degrees, a queue of the nodes of in-degree zero, and a count of the nodes taken
  from the queue.  The counters are signed, so a decrement below zero does not queue a node again.
\<close>

fun count_in :: "nat list \<Rightarrow> int list \<Rightarrow> int list option" where
  "count_in [] deg = Some deg"
| "count_in (s # ss) deg = (if length deg \<le> s then None else count_in ss (deg[s := deg ! s + 1]))"

fun count_all :: "adjacency \<Rightarrow> int list \<Rightarrow> int list option" where
  "count_all [] deg = Some deg"
| "count_all (ss # g) deg = (case count_in ss deg of None \<Rightarrow> None | Some deg' \<Rightarrow> count_all g deg')"

fun kahn_succs :: "nat list \<Rightarrow> int list \<Rightarrow> nat list \<Rightarrow> (int list \<times> nat list) option" where
  "kahn_succs [] deg queue = Some (deg, queue)"
| "kahn_succs (s # ss) deg queue =
     (if length deg \<le> s then None
      else let deg' = deg[s := deg ! s - 1]
           in kahn_succs ss deg' (if deg' ! s = 0 then queue @ [s] else queue))"

definition pos_sum :: "int list \<Rightarrow> nat" where
  "pos_sum deg = sum_list (map nat deg)"

lemma sum_list_update_nat:
  "s < length deg \<Longrightarrow> sum_list (map nat (deg[s := x])) + nat (deg ! s) = sum_list (map nat deg) + nat x"
proof (induction deg arbitrary: s)
  case (Cons d deg)
  then show ?case by (cases s) auto
qed simp

lemma pos_sum_update: "s < length deg \<Longrightarrow> pos_sum (deg[s := x]) + nat (deg ! s) = pos_sum deg + nat x"
  by (simp add: pos_sum_def sum_list_update_nat)

lemma kahn_succs_measure:
  "kahn_succs ss deg q = Some (deg', q') \<Longrightarrow> pos_sum deg' + length q' \<le> pos_sum deg + length q"
proof (induction ss arbitrary: deg q)
  case (Cons s ss)
  have s: "s < length deg" using Cons.prems by (auto split: if_splits)
  let ?d = "deg[s := deg ! s - 1]" and ?q = "if deg ! s - 1 = 0 then q @ [s] else q"
  have "pos_sum deg' + length q' \<le> pos_sum ?d + length ?q"
    using Cons.IH [of ?d ?q] Cons.prems s by (auto simp: Let_def)
  also have "\<dots> \<le> pos_sum deg + length q"
    using pos_sum_update [OF s, of "deg ! s - 1"] by (auto split: if_splits)
  finally show ?case .
qed simp

function kahn_loop :: "adjacency \<Rightarrow> int list \<Rightarrow> nat list \<Rightarrow> nat \<Rightarrow> nat option" where
  "kahn_loop g deg [] visited_count = Some visited_count"
| "kahn_loop g deg (c # queue) visited_count =
     (if length g \<le> c then None
      else case kahn_succs (g ! c) deg queue of
             None \<Rightarrow> None
           | Some (deg', queue') \<Rightarrow> kahn_loop g deg' queue' (visited_count + 1))"
  by pat_completeness auto
termination
  by (relation "measure (\<lambda>(g, deg, queue, n). pos_sum deg + length queue)")
     (auto dest: kahn_succs_measure)

definition graph_has_loops :: "adjacency \<Rightarrow> bool option" where
  "graph_has_loops g =
     (case count_all g (replicate (length g) 0) of
        None \<Rightarrow> None
      | Some deg \<Rightarrow>
          map_option (\<lambda>visited_count. visited_count \<noteq> length g)
            (kahn_loop g deg (filter (\<lambda>i. deg ! i = 0) [0..<length g]) 0))"

text \<open>In-degrees count edges with multiplicity.\<close>

lemma count_in_spec:
  "\<forall>s \<in> set ss. s < length deg \<Longrightarrow>
     \<exists>deg'. count_in ss deg = Some deg' \<and> length deg' = length deg \<and>
       (\<forall>v < length deg. deg' ! v = deg ! v + int (count_list ss v))"
proof (induction ss arbitrary: deg)
  case (Cons s ss)
  then obtain deg' where "count_in ss (deg[s := deg ! s + 1]) = Some deg'" "length deg' = length deg"
    "\<forall>v < length deg. deg' ! v = deg[s := deg ! s + 1] ! v + int (count_list ss v)"
    using Cons.IH [of "deg[s := deg ! s + 1]"] by auto
  then show ?case using Cons.prems by (auto simp: nth_list_update)
qed simp

lemma count_all_spec:
  "\<forall>ss \<in> set h. \<forall>s \<in> set ss. s < length deg \<Longrightarrow>
     \<exists>deg'. count_all h deg = Some deg' \<and> length deg' = length deg \<and>
       (\<forall>v < length deg. deg' ! v = deg ! v + int (\<Sum>ss \<leftarrow> h. count_list ss v))"
proof (induction h arbitrary: deg)
  case (Cons ss h)
  obtain d where d: "count_in ss deg = Some d" "length d = length deg"
    "\<forall>v < length deg. d ! v = deg ! v + int (count_list ss v)"
    using count_in_spec [of ss deg] Cons.prems by auto
  then obtain deg' where "count_all h d = Some deg'" "length deg' = length deg"
    "\<forall>v < length deg. deg' ! v = d ! v + int (\<Sum>ss \<leftarrow> h. count_list ss v)"
    using Cons.IH [of d] Cons.prems by auto
  then show ?case using d by auto
qed simp

lemma kahn_succs_spec:
  assumes "\<forall>s \<in> set ss. s < length deg" "\<forall>v < length deg. int (count_list ss v) \<le> deg ! v"
  shows "\<exists>deg' new. kahn_succs ss deg q = Some (deg', q @ new) \<and> length deg' = length deg \<and>
    (\<forall>v < length deg. deg' ! v = deg ! v - int (count_list ss v)) \<and> distinct new \<and>
    set new = {v. v < length deg \<and> deg ! v > 0 \<and> deg' ! v = 0}"
  using assms
proof (induction ss arbitrary: deg q)
  case Nil
  then show ?case by auto
next
  case (Cons s ss)
  let ?d = "deg[s := deg ! s - 1]" and ?q = "if deg ! s - 1 = 0 then q @ [s] else q"
  have s: "s < length deg" using Cons.prems by simp
  have pos: "deg ! s \<ge> 1 + int (count_list ss s)" using Cons.prems(2) s by force
  have upd: "?d ! v = (if v = s then deg ! s - 1 else deg ! v)" if "v < length deg" for v
    using that by (auto simp: nth_list_update)
  have "\<forall>v < length deg. int (count_list ss v) \<le> ?d ! v"
    using Cons.prems(2) pos upd by (auto split: if_splits)
  then obtain deg' new where IH: "kahn_succs ss ?d ?q = Some (deg', ?q @ new)" "length deg' = length deg"
    "\<forall>v < length deg. deg' ! v = ?d ! v - int (count_list ss v)" "distinct new"
    "set new = {v. v < length deg \<and> ?d ! v > 0 \<and> deg' ! v = 0}"
    using Cons.IH [of ?d ?q] Cons.prems(1) by auto
  have step: "kahn_succs (s # ss) deg q = Some (deg', ?q @ new)"
    using IH(1) s by (simp add: Let_def)
  have d': "\<forall>v < length deg. deg' ! v = deg ! v - int (count_list (s # ss) v)"
    using IH(3) upd by auto
  show ?case
  proof (cases "deg ! s = 1")
    case True
    then have "count_list ss s = 0" using pos by simp
    then have "deg' ! s = 0" using d' s True by simp
    then have "set (s # new) = {v. v < length deg \<and> deg ! v > 0 \<and> deg' ! v = 0}" "s \<notin> set new"
      using IH(5) upd True s by (auto split: if_splits)
    then show ?thesis using step IH(2,4) d' True by auto
  next
    case False
    have "set new = {v. v < length deg \<and> deg ! v > 0 \<and> deg' ! v = 0}"
      using IH(5) upd False pos s by (auto split: if_splits)
    then show ?thesis using step IH(2,4) d' False by auto
  qed
qed

text \<open>
  The invariant, with the processed nodes \<open>done\<close> in order: a counter counts the edges from nodes not
  processed, the nodes with counter zero are those processed or queued, and the predecessors of a
  processed node were processed before it.
\<close>

definition open_degree :: "adjacency \<Rightarrow> nat set \<Rightarrow> nat \<Rightarrow> nat" where
  "open_degree g P v = (\<Sum>u | u < length g \<and> u \<notin> P. count_list (g ! u) v)"

definition kahn_inv :: "adjacency \<Rightarrow> nat list \<Rightarrow> int list \<Rightarrow> nat list \<Rightarrow> bool" where
  "kahn_inv g ps deg queue \<longleftrightarrow>
     length deg = length g \<and> distinct (ps @ queue) \<and>
     (\<forall>v < length g. deg ! v = int (open_degree g (set ps) v)) \<and>
     (\<forall>v. v < length g \<and> deg ! v = 0 \<longleftrightarrow> v \<in> set (ps @ queue)) \<and>
     (\<forall>i < length ps. \<forall>u. (u, ps ! i) \<in> adj_edges g \<longrightarrow> u \<in> set (take i ps))"

lemma open_degree_insert:
  assumes "c < length g" "c \<notin> P"
  shows "open_degree g P v = count_list (g ! c) v + open_degree g (insert c P) v"
proof -
  have "{u. u < length g \<and> u \<notin> P} = insert c {u. u < length g \<and> u \<notin> insert c P}" using assms by auto
  then show ?thesis unfolding open_degree_def by simp
qed

lemma open_degree_0:
  "open_degree g P v = 0 \<longleftrightarrow> (\<forall>u. (u, v) \<in> adj_edges g \<longrightarrow> u \<in> P)"
  by (auto simp: open_degree_def adj_edges_def count_list_0_iff)

lemma kahn_loop_spec:
  assumes "adj_wf g" "kahn_inv g ps deg queue"
  shows "\<exists>ps' deg'. kahn_loop g deg queue n = Some (n + (length ps' - length ps)) \<and>
    length ps \<le> length ps' \<and> kahn_inv g ps' deg' []"
  using assms
proof (induction g deg queue n arbitrary: ps rule: kahn_loop.induct)
  case (1 g deg n)
  then show ?case by (intro exI [of _ ps] exI [of _ deg]) simp
next
  case (2 g deg c queue n)
  have c: "c < length g" "deg ! c = 0" "c \<notin> set ps"
    using 2(3) by (auto simp: kahn_inv_def)
  have len: "length deg = length g" using 2(3) by (simp add: kahn_inv_def)
  have deg: "deg ! v = int (open_degree g (set ps) v)" if "v < length g" for v
    using 2(3) that by (simp add: kahn_inv_def)
  have range: "\<forall>s \<in> set (g ! c). s < length deg" using 2(2) c(1) len by (auto simp: adj_wf_def)
  have le: "\<forall>v < length deg. int (count_list (g ! c) v) \<le> deg ! v"
    using deg open_degree_insert [OF c(1), of "set ps"] c(3) len by auto
  obtain deg' new where ks: "kahn_succs (g ! c) deg queue = Some (deg', queue @ new)"
    "length deg' = length deg" "\<forall>v < length deg. deg' ! v = deg ! v - int (count_list (g ! c) v)"
    "distinct new" "set new = {v. v < length deg \<and> deg ! v > 0 \<and> deg' ! v = 0}"
    using kahn_succs_spec [OF range le] by blast
  have deg': "deg' ! v = int (open_degree g (set (ps @ [c])) v)" if "v < length g" for v
    using ks(3) deg that open_degree_insert [OF c(1,3), of v] len by simp
  have zero: "v < length g \<and> deg ! v = 0 \<longleftrightarrow> v \<in> set (ps @ c # queue)" for v
    using 2(3) by (simp add: kahn_inv_def)
  have mono: "deg ! v = 0 \<Longrightarrow> v < length g \<Longrightarrow> deg' ! v = 0" for v
    using ks(3) le len by fastforce
  have "kahn_inv g (ps @ [c]) deg' (queue @ new)"
    unfolding kahn_inv_def
  proof (intro conjI allI impI)
    show "length deg' = length g" using ks(2) len by simp
    have "v \<notin> set (ps @ c # queue)" if "v \<in> set new" for v using that ks(5) zero [of v] by auto
    then show "distinct ((ps @ [c]) @ queue @ new)"
      using 2(3) ks(4) by (auto simp: kahn_inv_def)
    fix v
    show "v < length g \<and> deg' ! v = 0 \<longleftrightarrow> v \<in> set ((ps @ [c]) @ queue @ new)"
    proof -
      have "deg ! v \<ge> 0" if "v < length g" using deg that by simp
      then have "v < length g \<and> deg' ! v = 0 \<longleftrightarrow> (v < length g \<and> deg ! v = 0) \<or> v \<in> set new"
        using ks(5) mono len by force
      then show ?thesis using zero [of v] by auto
    qed
  next
    fix i u assume i: "i < length (ps @ [c])" and e: "(u, (ps @ [c]) ! i) \<in> adj_edges g"
    show "u \<in> set (take i (ps @ [c]))"
    proof (cases "i < length ps")
      case True
      then show ?thesis using e 2(3) by (simp add: kahn_inv_def nth_append)
    next
      case False
      then have "i = length ps" using i by simp
      moreover have "u \<in> set ps"
        using e deg [OF c(1)] c(2) open_degree_0 [of g "set ps" c] calculation by simp
      ultimately show ?thesis by simp
    qed
  qed (use deg' in blast)
  then obtain ps' d where
    "kahn_loop g deg' (queue @ new) (n + 1) = Some (n + 1 + (length ps' - length (ps @ [c])))"
    "length (ps @ [c]) \<le> length ps'" "kahn_inv g ps' d []"
    using 2(1) [of "(deg', queue @ new)" deg' "queue @ new" "ps @ [c]"] 2(2) ks(1) c(1) by fastforce
  then show ?case using c(1) ks(1) by (intro exI [of _ ps'] exI [of _ d]) auto
qed

lemma kahn_inv_acyclic:
  assumes "kahn_inv g ps deg []" "length ps = length g" "adj_wf g"
  shows "acyclic (adj_edges g)"
proof -
  have "set ps \<subseteq> {..<length g}" "distinct ps" using assms(1) by (auto simp: kahn_inv_def)
  then have all: "set ps = {..<length g}"
    using assms(2) by (intro card_subset_eq) (auto simp: distinct_card)
  define idx where "idx v = (THE i. i < length ps \<and> ps ! i = v)" for v
  have idx: "idx v < length ps \<and> ps ! idx v = v" if "v < length g" for v
  proof -
    have "v \<in> set ps" using that all by simp
    then have "\<exists>!i. i < length ps \<and> ps ! i = v" by (rule distinct_Ex1 [OF \<open>distinct ps\<close>])
    then show ?thesis unfolding idx_def by (rule theI')
  qed
  have less: "idx u < idx v" if e: "(u, v) \<in> adj_edges g" for u v
  proof -
    have uv: "u < length g" "v < length g" using e adj_edge_range [OF assms(3)] by auto
    then have "u \<in> set (take (idx v) ps)"
      using assms(1) e idx [OF uv(2)] by (auto simp: kahn_inv_def)
    then obtain i where i: "i < idx v" "i < length ps" "ps ! i = u" by (auto simp: in_set_conv_nth)
    then have "i = idx u"
      using idx [OF uv(1)] nth_eq_iff_index_eq [OF \<open>distinct ps\<close>, of i "idx u"] by simp
    then show ?thesis using i by simp
  qed
  have "idx x < idx y" if "(x, y) \<in> (adj_edges g)\<^sup>+" for x y
    using that by (induction rule: trancl_induct) (use less in \<open>auto intro: less_trans\<close>)
  then show ?thesis unfolding acyclic_def by blast
qed

lemma stuck_cyclic:
  assumes "finite U" "U \<noteq> {}" "\<And>v. v \<in> U \<Longrightarrow> \<exists>u \<in> U. (u, v) \<in> r"
  shows "\<not> acyclic r"
proof
  assume "acyclic r"
  then have "acyclic (r \<inter> U \<times> U)" by (rule acyclic_subset) blast
  then have "wf (r \<inter> U \<times> U)" using assms(1) by (intro finite_acyclic_wf) auto
  then obtain v where "v \<in> U" "\<forall>u. (u, v) \<in> r \<inter> U \<times> U \<longrightarrow> u \<notin> U"
    using assms(2) unfolding wf_eq_minimal by blast
  then show False using assms(3) by blast
qed

lemma kahn_inv_cyclic:
  assumes "kahn_inv g ps deg []" "length ps \<noteq> length g" "adj_wf g"
  shows "\<not> acyclic (adj_edges g)"
proof -
  let ?U = "{..<length g} - set ps"
  have ps: "set ps \<subseteq> {..<length g}" "distinct ps" using assms(1) by (auto simp: kahn_inv_def)
  then have "set ps \<noteq> {..<length g}" using assms(2) distinct_card by fastforce
  then have "?U \<noteq> {}" using ps(1) by blast
  moreover have "\<exists>u \<in> ?U. (u, v) \<in> adj_edges g" if "v \<in> ?U" for v
  proof -
    have "deg ! v \<noteq> 0" "deg ! v = int (open_degree g (set ps) v)"
      using that assms(1) by (auto simp: kahn_inv_def)
    then have "open_degree g (set ps) v \<noteq> 0" by simp
    then show ?thesis unfolding open_degree_0 using adj_edge_range [OF assms(3)] by blast
  qed
  ultimately show ?thesis by (intro stuck_cyclic [of ?U]) auto
qed

lemma graph_has_loops_spec:
  assumes "adj_wf g"
  shows "graph_has_loops g = Some (\<not> acyclic (adj_edges g))"
proof -
  obtain deg where deg: "count_all g (replicate (length g) 0) = Some deg" "length deg = length g"
    "\<forall>v < length g. deg ! v = int (\<Sum>ss \<leftarrow> g. count_list ss v)"
    using count_all_spec [of g "replicate (length g) 0"] assms by (auto simp: adj_wf_def)
  let ?q = "filter (\<lambda>i. deg ! i = 0) [0..<length g]"
  have "(\<Sum>ss \<leftarrow> g. count_list ss v) = open_degree g {} v" for v
    unfolding open_degree_def by (simp add: sum_list_sum_nth atLeast0LessThan lessThan_def)
  then have "kahn_inv g [] deg ?q" using deg by (auto simp: kahn_inv_def)
  then obtain ps d where loop: "kahn_loop g deg ?q 0 = Some (length ps)" "kahn_inv g ps d []"
    using kahn_loop_spec [OF assms, of "[]" deg ?q 0] by auto
  have "length ps \<noteq> length g \<longleftrightarrow> \<not> acyclic (adj_edges g)"
    using kahn_inv_acyclic [OF loop(2) _ assms] kahn_inv_cyclic [OF loop(2) _ assms] by blast
  then show ?thesis using deg(1) loop(1) by (simp add: graph_has_loops_def)
qed

subsection \<open>Reverse post-order\<close>

text \<open>
  \<open>topological_sort_impl\<close> as one recursion over a list of successors: visiting a node marks it,
  visits its successors and pushes it.  \<open>None\<close> is an index out of bounds.
\<close>

function (domintros) topo_visit ::
  "adjacency \<Rightarrow> nat list \<Rightarrow> bool list \<times> nat list \<Rightarrow> (bool list \<times> nat list) option" where
  "topo_visit g [] st = Some st"
| "topo_visit g (x # xs) (visited, out) =
     (if length visited \<le> x \<or> length g \<le> x then None
      else if visited ! x then topo_visit g xs (visited, out)
      else case topo_visit g (g ! x) (visited[x := True], out) of
             None \<Rightarrow> None
           | Some (visited', out') \<Rightarrow> topo_visit g xs (visited', out' @ [x]))"
  by pat_completeness auto

lemma topo_visit_unvisited:
  assumes "topo_visit_dom (g, xs, st)" "topo_visit g xs st = Some (vs', out')"
  shows "unvisited vs' \<le> unvisited (fst st)"
  using assms
proof (induction arbitrary: vs' out' rule: topo_visit.pinduct)
  case (1 g st)
  then show ?case by (auto simp: topo_visit.psimps)
next
  case (2 g x xs visited out)
  show ?case
  proof (cases "length visited \<le> x \<or> length g \<le> x")
    case True
    then show ?thesis using 2 by (simp add: topo_visit.psimps)
  next
    case False
    show ?thesis
    proof (cases "visited ! x")
      case True
      then show ?thesis using 2 False by (simp add: topo_visit.psimps)
    next
      case nv: False
      then obtain v1 o1 where r: "topo_visit g (g ! x) (visited[x := True], out) = Some (v1, o1)"
        "topo_visit g xs (v1, o1 @ [x]) = Some (vs', out')"
        using 2(1,5) False by (auto simp: topo_visit.psimps split: option.splits prod.splits)
      have "unvisited v1 \<le> unvisited (visited[x := True])" using 2(3) [OF False nv r(1)] by simp
      moreover have "unvisited vs' \<le> unvisited v1" using 2(4) [OF False nv r(1) _ r(2)] by simp
      ultimately show ?thesis using unvisited_set [of x visited] False nv by simp
    qed
  qed
qed

termination topo_visit
proof (relation "measures [\<lambda>(g, xs, vs, out). unvisited vs, \<lambda>(g, xs, vs, out). length xs]", goal_cases)
  case 1
  then show ?case by simp
next
  case (2 g x xs visited out)
  then show ?case by simp
next
  case (3 g x xs visited out)
  then show ?case using unvisited_set [of x visited] by simp
next
  case (4 g x xs visited out r visited' out')
  then have "unvisited visited' \<le> unvisited (visited[x := True])"
    using topo_visit_unvisited [of g "g ! x" "(visited[x := True], out)" visited' out'] by simp
  then show ?case using 4 unvisited_set [of x visited] by simp
qed

text \<open>
  What a visit keeps.  \<open>A\<close> holds the nodes that are marked but not pushed: the blocked node 0 and the
  nodes whose visit has begun.  In an acyclic graph a pushed node has its successors pushed before
  it, the blocked ones apart.
\<close>

definition topo_inv :: "adjacency \<Rightarrow> nat set \<Rightarrow> bool list \<Rightarrow> nat list \<Rightarrow> bool" where
  "topo_inv g A visited out \<longleftrightarrow>
     length visited = length g \<and> distinct out \<and> A \<inter> set out = {} \<and>
     (\<forall>v < length g. visited ! v \<longleftrightarrow> v \<in> A \<union> set out) \<and> A \<union> set out \<subseteq> {..<length g}"

definition topo_ordered :: "adjacency \<Rightarrow> nat set \<Rightarrow> nat list \<Rightarrow> bool" where
  "topo_ordered g B out \<longleftrightarrow>
     (\<forall>i < length out. \<forall>w. (out ! i, w) \<in> adj_edges g \<longrightarrow> w \<in> set (take i out) \<union> B)"

lemma topo_ordered_snoc:
  "topo_ordered g B (out @ [x]) \<longleftrightarrow>
     topo_ordered g B out \<and> (\<forall>w. (x, w) \<in> adj_edges g \<longrightarrow> w \<in> set out \<union> B)"
  by (auto simp: topo_ordered_def nth_append less_Suc_eq)

lemma topo_visit_spec:
  assumes "adj_wf g" "topo_inv g A visited out" "\<forall>x \<in> set xs. x < length g"
    and "\<forall>a \<in> A - B. \<forall>y \<in> set xs. (a, y) \<in> (adj_edges g)\<^sup>+"
    and "acyclic (adj_edges g) \<longrightarrow> topo_ordered g B out"
  shows "\<exists>visited' out'. topo_visit g xs (visited, out) = Some (visited', out') \<and>
    topo_inv g A visited' out' \<and> set xs \<subseteq> A \<union> set out' \<and> set out \<subseteq> set out' \<and>
    (acyclic (adj_edges g) \<longrightarrow> topo_ordered g B out')"
  using assms
proof (induction g xs "(visited, out)" arbitrary: A visited out rule: topo_visit.induct)
  case (1 g visited out)
  then show ?case by simp
next
  case (2 g x xs visited out)
  have x: "x < length g" "length visited = length g" using 2(5,6) by (auto simp: topo_inv_def)
  show ?case
  proof (cases "visited ! x")
    case True
    then have "x \<in> A \<union> set out" using 2(5) x by (auto simp: topo_inv_def)
    moreover have "\<exists>visited' out'. topo_visit g xs (visited, out) = Some (visited', out') \<and>
        topo_inv g A visited' out' \<and> set xs \<subseteq> A \<union> set out' \<and> set out \<subseteq> set out' \<and>
        (acyclic (adj_edges g) \<longrightarrow> topo_ordered g B out')"
      using 2(1) [of A] True x 2(4-8) by simp
    ultimately show ?thesis using True x by fastforce
  next
    case False
    have xA: "x \<notin> A" "x \<notin> set out" using False 2(5) x by (auto simp: topo_inv_def)
    have edge: "(x, y) \<in> adj_edges g" if "y \<in> set (g ! x)" for y using that x by (simp add: adj_edges_def)
    have "topo_inv g (insert x A) (visited[x := True]) out"
      using 2(5) x xA by (auto simp: topo_inv_def nth_list_update)
    moreover have "\<forall>y \<in> set (g ! x). y < length g" using 2(4) x by (auto simp: adj_wf_def)
    moreover have "\<forall>a \<in> insert x A - B. \<forall>y \<in> set (g ! x). (a, y) \<in> (adj_edges g)\<^sup>+"
      using 2(7) edge by (auto intro: trancl_into_trancl)
    ultimately obtain v1 o1 where r1: "topo_visit g (g ! x) (visited[x := True], out) = Some (v1, o1)"
      "topo_inv g (insert x A) v1 o1" "set (g ! x) \<subseteq> insert x A \<union> set o1" "set out \<subseteq> set o1"
      "acyclic (adj_edges g) \<longrightarrow> topo_ordered g B o1"
      using 2(2) [of "insert x A"] False x 2(4,8) by auto
    have ord: "topo_ordered g B (o1 @ [x])" if ac: "acyclic (adj_edges g)"
      unfolding topo_ordered_snoc
    proof (intro conjI allI impI)
      show "topo_ordered g B o1" using r1(5) ac by blast
      fix w assume e: "(x, w) \<in> adj_edges g"
      then have w: "w \<in> insert x A \<union> set o1" using r1(3) by (auto simp: adj_edges_def)
      have "(w, x) \<notin> (adj_edges g)\<^sup>*" using e ac by (meson acyclic_def rtrancl_into_trancl2)
      moreover have "(a, x) \<in> (adj_edges g)\<^sup>*" if "a \<in> A - B" for a
        using 2(7) that by (intro trancl_into_rtrancl) simp
      ultimately have "w \<noteq> x" "w \<notin> A - B" by auto
      then show "w \<in> set o1 \<union> B" using w by blast
    qed
    have "topo_inv g A v1 (o1 @ [x])" using r1(2) xA(1) by (auto simp: topo_inv_def)
    then obtain v2 o2 where r2: "topo_visit g xs (v1, o1 @ [x]) = Some (v2, o2)"
      "topo_inv g A v2 o2" "set xs \<subseteq> A \<union> set o2" "set (o1 @ [x]) \<subseteq> set o2"
      "acyclic (adj_edges g) \<longrightarrow> topo_ordered g B o2"
      using 2(3) [of "(v1, o1)" v1 o1 A] r1(1) False x 2(4,6,7) ord by auto
    then show ?thesis using r1 False x by auto
  qed
qed

definition graph_topological_sort :: "adjacency \<Rightarrow> nat list option" where
  "graph_topological_sort g =
     (if g = [] then Some []
      else case topo_visit g [1..<length g] ((replicate (length g) False)[0 := True], []) of
             None \<Rightarrow> None
           | Some (visited, topo_sorted) \<Rightarrow> Some (0 # rev topo_sorted))"

lemma graph_topological_sort_spec:
  assumes "adj_wf g" "g \<noteq> []"
  shows "\<exists>ord. graph_topological_sort g = Some (0 # ord) \<and> distinct (0 # ord) \<and>
    set (0 # ord) = {..<length g} \<and> (acyclic (adj_edges g) \<longrightarrow> topo_ordered g {0} (rev ord))"
proof -
  let ?vs = "(replicate (length g) False)[0 := True]"
  have "topo_inv g {0} ?vs []" using assms(2) by (auto simp: topo_inv_def nth_list_update)
  then obtain vs out where r: "topo_visit g [1..<length g] (?vs, []) = Some (vs, out)"
    "topo_inv g {0} vs out" "set [1..<length g] \<subseteq> {0} \<union> set out"
    "acyclic (adj_edges g) \<longrightarrow> topo_ordered g {0} out"
    using topo_visit_spec [OF assms(1), of "{0}" ?vs "[]" "[1..<length g]" "{0}"]
    by (auto simp: topo_ordered_def)
  have "x \<in> set (0 # rev out)" if "x < length g" for x
  proof (cases "x = 0")
    case False
    then have "x \<in> set [1..<length g]" using that by simp
    then show ?thesis using r(3) False by fastforce
  qed simp
  then have "set (0 # rev out) = {..<length g}"
    using r(2) assms(2) by (auto simp: topo_inv_def)
  then show ?thesis
    using r assms(2)
    by (intro exI [of _ "rev out"]) (auto simp: graph_topological_sort_def topo_inv_def)
qed

text \<open>In the order returned, an edge that does not lead to node 0 goes forward.\<close>

lemma topo_forward:
  assumes "topo_ordered g {0} (rev ord)" "distinct (0 # ord)"
    and "i < length (0 # ord)" "j < length (0 # ord)" "((0 # ord) ! i, (0 # ord) ! j) \<in> adj_edges g"
    and "(0 # ord) ! j \<noteq> 0"
  shows "i < j"
proof (cases "i = 0")
  case True
  then show ?thesis using assms(6) by (cases j) auto
next
  case False
  obtain i' j' where ij: "i = Suc i'" "j = Suc j'" using False assms(6) by (cases i; cases j) auto
  let ?k = "length ord - Suc i'"
  have k: "?k < length (rev ord)" "rev ord ! ?k = ord ! i'"
    using assms(3) ij by (auto simp: rev_nth)
  have "ord ! j' \<in> set (take ?k (rev ord))"
    using assms(1,5,6) k ij unfolding topo_ordered_def by fastforce
  then obtain m where m: "m < ?k" "rev ord ! m = ord ! j'" by (auto simp: in_set_conv_nth)
  then have "ord ! (length ord - Suc m) = ord ! j'" using k(1) by (simp add: rev_nth)
  then have "length ord - Suc m = j'"
    using assms(2,4) ij m(1) k(1) by (simp add: nth_eq_iff_index_eq)
  then show ?thesis using m(1) ij by simp
qed

subsection \<open>Paths\<close>

text \<open>
  \<open>find_path\<close>: a breadth-first search that remembers where it came from.  The loop that follows the
  \<open>came_from\<close> entries back may in general not end, so it is a partial function; the search keeps the
  entries acyclic.  The outer \<open>None\<close> of the results is a panic or a loop that does not end.
\<close>

partial_function (option) trace_back :: "nat option list \<Rightarrow> nat \<Rightarrow> nat list \<Rightarrow> nat list option" where
  "trace_back came_from index path =
     (if length came_from \<le> index then None
      else case came_from ! index of
             None \<Rightarrow> Some path
           | Some previous \<Rightarrow> trace_back came_from previous (path @ [previous]))"

declare trace_back.simps [code]

type_synonym path_state = "bool list \<times> nat option list \<times> nat list"

datatype path_step = PathFound "nat list" | PathMore path_state | PathPanic

fun path_succs :: "nat \<Rightarrow> nat \<Rightarrow> nat list \<Rightarrow> path_state \<Rightarrow> path_step" where
  "path_succs target c [] st = PathMore st"
| "path_succs target c (s # ss) (visited, came_from, queue) =
     (if s = target then
        (case trace_back came_from c [s, c] of
           Some path \<Rightarrow> PathFound (rev path)
         | None \<Rightarrow> PathPanic)
      else if length visited \<le> s then PathPanic
      else if visited ! s then path_succs target c ss (visited, came_from, queue)
      else path_succs target c ss (visited[s := True], came_from[s := Some c], queue @ [s]))"

lemma path_succs_measure:
  "path_succs t c ss (vs, cf, q) = PathMore (vs', cf', q') \<Longrightarrow>
     2 * unvisited vs' + length q' \<le> 2 * unvisited vs + length q"
proof (induction ss arbitrary: vs cf q)
  case (Cons s ss)
  then show ?case using unvisited_set [of s vs] by (force split: if_splits option.splits)
qed simp

function path_loop :: "adjacency \<Rightarrow> nat \<Rightarrow> path_state \<Rightarrow> nat list option option" where
  "path_loop g target (visited, came_from, []) = Some None"
| "path_loop g target (visited, came_from, c # queue) =
     (if length g \<le> c then None
      else case path_succs target c (g ! c) (visited, came_from, queue) of
             PathFound path \<Rightarrow> Some (Some path)
           | PathMore st \<Rightarrow> path_loop g target st
           | PathPanic \<Rightarrow> None)"
  by pat_completeness auto
termination
  by (relation "measure (\<lambda>(g, t, visited, cf, queue). 2 * unvisited visited + length queue)")
     (auto dest: path_succs_measure)

definition graph_find_path :: "adjacency \<Rightarrow> nat \<Rightarrow> nat \<Rightarrow> nat list option option" where
  "graph_find_path g start target =
     (if start = target then Some (Some [start])
      else if length g \<le> start then None
      else path_loop g target
             ((replicate (length g) False)[start := True], replicate (length g) None, [start]))"

definition is_path :: "adjacency \<Rightarrow> nat \<Rightarrow> nat \<Rightarrow> nat list \<Rightarrow> bool" where
  "is_path g a b p \<longleftrightarrow>
     p \<noteq> [] \<and> hd p = a \<and> last p = b \<and> (\<forall>i. Suc i < length p \<longrightarrow> (p ! i, p ! Suc i) \<in> adj_edges g)"

text \<open>The chain of predecessors that \<open>trace_back\<close> follows from a node.\<close>

inductive chain :: "nat option list \<Rightarrow> nat \<Rightarrow> nat list \<Rightarrow> bool" for cf where
  "v < length cf \<Longrightarrow> cf ! v = None \<Longrightarrow> chain cf v []"
| "v < length cf \<Longrightarrow> cf ! v = Some u \<Longrightarrow> chain cf u ps \<Longrightarrow> chain cf v (u # ps)"

lemma chain_trace: "chain cf v ps \<Longrightarrow> trace_back cf v path = Some (path @ ps)"
  by (induction arbitrary: path rule: chain.induct) (auto simp: trace_back.simps)

lemma chain_update:
  "chain cf v ps \<Longrightarrow> x \<notin> set (v # ps) \<Longrightarrow> chain (cf[x := y]) v ps"
  by (induction rule: chain.induct) (auto intro: chain.intros)

lemma is_path_Cons: "is_path g b c p \<Longrightarrow> (a, b) \<in> adj_edges g \<Longrightarrow> is_path g a c (a # p)"
  by (auto simp: is_path_def nth_Cons hd_conv_nth split: nat.splits)

lemma is_path_snoc:
  assumes "is_path g a b p" "(b, c) \<in> adj_edges g"
  shows "is_path g a c (p @ [c])"
proof -
  have "((p @ [c]) ! i, (p @ [c]) ! Suc i) \<in> adj_edges g" if "Suc i < length (p @ [c])" for i
  proof (cases "Suc i < length p")
    case True
    then show ?thesis using assms(1) by (simp add: is_path_def nth_append)
  next
    case False
    then have "i = length p - 1" "Suc i = length p" using that by auto
    then show ?thesis using assms by (auto simp: is_path_def nth_append last_conv_nth)
  qed
  then show ?thesis using assms(1) by (auto simp: is_path_def)
qed

text \<open>The invariant of the search: every marked node has a chain back to the start.\<close>

definition path_inv :: "adjacency \<Rightarrow> nat \<Rightarrow> bool list \<Rightarrow> nat option list \<Rightarrow> nat list \<Rightarrow> bool" where
  "path_inv g start visited came_from queue \<longleftrightarrow>
     length visited = length g \<and> length came_from = length g \<and> start < length g \<and> visited ! start \<and>
     (\<forall>v \<in> set queue. v < length g \<and> visited ! v) \<and>
     (\<forall>v < length g. visited ! v \<longrightarrow> (\<exists>ps. chain came_from v ps \<and>
        (\<forall>x \<in> set ps. x < length g \<and> visited ! x) \<and> is_path g start v (rev (v # ps))))"

lemma path_inv_push:
  assumes inv: "path_inv g start vs cf q" and e: "(c, s) \<in> adj_edges g"
    and c: "c < length g" "vs ! c" and s: "s < length g" "\<not> vs ! s"
  shows "path_inv g start (vs[s := True]) (cf[s := Some c]) (q @ [s])"
proof -
  have len: "length vs = length g" "length cf = length g" using inv by (auto simp: path_inv_def)
  have up: "vs[s := True] ! v \<longleftrightarrow> v = s \<or> vs ! v" if "v < length g" for v
    using that len s(1) by (auto simp: nth_list_update)
  have old: "\<exists>ps. chain (cf[s := Some c]) v ps \<and> (\<forall>x \<in> set ps. x < length g \<and> vs ! x) \<and>
      is_path g start v (rev (v # ps))" if v: "v < length g" "vs ! v" for v
  proof -
    obtain ps where ps: "chain cf v ps" "\<forall>x \<in> set ps. x < length g \<and> vs ! x"
      "is_path g start v (rev (v # ps))" using inv v by (auto simp: path_inv_def)
    moreover have "s \<notin> set (v # ps)" using ps(2) v s by auto
    ultimately show ?thesis using chain_update by blast
  qed
  obtain ps where ps: "chain (cf[s := Some c]) c ps" "\<forall>x \<in> set ps. x < length g \<and> vs ! x"
    "is_path g start c (rev (c # ps))" using old [OF c] by blast
  have "chain (cf[s := Some c]) s (c # ps)" using ps(1) s len by (auto intro: chain.intros)
  moreover have "is_path g start s (rev (s # c # ps))" using is_path_snoc [OF ps(3) e] by simp
  ultimately have new: "\<exists>ps. chain (cf[s := Some c]) s ps \<and>
      (\<forall>x \<in> set ps. x < length g \<and> vs ! x) \<and> is_path g start s (rev (s # ps))"
    using ps(2) c by (intro exI [of _ "c # ps"]) auto
  have "\<exists>ps. chain (cf[s := Some c]) v ps \<and> (\<forall>x \<in> set ps. x < length g \<and> vs[s := True] ! x) \<and>
      is_path g start v (rev (v # ps))" if "v < length g" "vs[s := True] ! v" for v
    using that old [of v] new up by metis
  then show ?thesis using inv up s by (auto simp: path_inv_def)
qed

lemma path_succs_spec:
  assumes "path_inv g start vs cf q" "c < length g" "vs ! c"
    and "\<forall>x \<in> set ss. (c, x) \<in> adj_edges g \<and> x < length g"
  shows "(\<exists>p. path_succs t c ss (vs, cf, q) = PathFound p \<and> is_path g start t p) \<or>
    (\<exists>vs' cf' new. path_succs t c ss (vs, cf, q) = PathMore (vs', cf', q @ new) \<and>
       path_inv g start vs' cf' (q @ new) \<and> t \<notin> set ss \<and>
       (\<forall>v < length g. vs' ! v \<longleftrightarrow> vs ! v \<or> v \<in> set ss) \<and> set new \<subseteq> set ss \<and>
       (\<forall>v \<in> set ss. vs ! v \<or> v \<in> set new))"
  using assms
proof (induction ss arbitrary: vs cf q)
  case Nil
  then show ?case by simp
next
  case (Cons s ss)
  have s: "(c, s) \<in> adj_edges g" "s < length g" using Cons.prems(4) by auto
  have len: "length vs = length g" using Cons.prems(1) by (simp add: path_inv_def)
  show ?case
  proof (cases "s = t")
    case True
    obtain ps where ps: "chain cf c ps" "is_path g start c (rev (c # ps))"
      using Cons.prems(1-3) by (auto simp: path_inv_def)
    then have "is_path g start t (rev ([s, c] @ ps))" using is_path_snoc s(1) True by fastforce
    then show ?thesis using True chain_trace [OF ps(1)] by simp
  next
    case st: False
    show ?thesis
    proof (cases "vs ! s")
      case True
      then show ?thesis using Cons.IH [OF Cons.prems(1-3)] Cons.prems(4) st s(2) len by auto
    next
      case False
      let ?vs = "vs[s := True]" and ?cf = "cf[s := Some c]"
      have up: "?vs ! v \<longleftrightarrow> v = s \<or> vs ! v" if "v < length g" for v
        using that len s(2) by (auto simp: nth_list_update)
      have inv: "path_inv g start ?vs ?cf (q @ [s])"
        by (rule path_inv_push [OF Cons.prems(1) s(1) Cons.prems(2,3) s(2) False])
      have IH: "(\<exists>p. path_succs t c ss (?vs, ?cf, q @ [s]) = PathFound p \<and> is_path g start t p) \<or>
        (\<exists>vs' cf' new. path_succs t c ss (?vs, ?cf, q @ [s]) = PathMore (vs', cf', (q @ [s]) @ new) \<and>
          path_inv g start vs' cf' ((q @ [s]) @ new) \<and> t \<notin> set ss \<and>
          (\<forall>v < length g. vs' ! v \<longleftrightarrow> ?vs ! v \<or> v \<in> set ss) \<and> set new \<subseteq> set ss \<and>
          (\<forall>v \<in> set ss. ?vs ! v \<or> v \<in> set new))"
        using Cons.IH [OF inv] Cons.prems(2-4) up by simp
      have step: "path_succs t c (s # ss) (vs, cf, q) = path_succs t c ss (?vs, ?cf, q @ [s])"
        using st False s(2) len by simp
      from IH show ?thesis
      proof (elim disjE exE conjE)
        fix vs' cf' new
        assume *: "path_succs t c ss (?vs, ?cf, q @ [s]) = PathMore (vs', cf', (q @ [s]) @ new)"
          "path_inv g start vs' cf' ((q @ [s]) @ new)" "t \<notin> set ss"
          "\<forall>v < length g. vs' ! v \<longleftrightarrow> ?vs ! v \<or> v \<in> set ss" "set new \<subseteq> set ss"
          "\<forall>v \<in> set ss. ?vs ! v \<or> v \<in> set new"
        have "\<forall>v < length g. vs' ! v \<longleftrightarrow> vs ! v \<or> v \<in> set (s # ss)" using *(4) up by auto
        moreover have "\<forall>v \<in> set (s # ss). vs ! v \<or> v \<in> set (s # new)"
          using *(6) up Cons.prems(4) by auto
        ultimately show ?thesis
          unfolding step using * st by (intro disjI2 exI [of _ vs'] exI [of _ cf'] exI [of _ "s # new"]) auto
      qed (use step in auto)
    qed
  qed
qed

lemma path_loop_spec:
  assumes "adj_wf g" "path_inv g start vs cf q"
    and "\<forall>v < length g. vs ! v \<and> v \<notin> set q \<longrightarrow> (\<forall>w. (v, w) \<in> adj_edges g \<longrightarrow> w \<noteq> t \<and> vs ! w)"
  shows "(\<exists>p. path_loop g t (vs, cf, q) = Some (Some p) \<and> is_path g start t p) \<or>
    (path_loop g t (vs, cf, q) = Some None \<and> (start \<noteq> t \<longrightarrow> (start, t) \<notin> (adj_edges g)\<^sup>*))"
  using assms
proof (induction g t "(vs, cf, q)" arbitrary: vs cf q rule: path_loop.induct)
  case (1 g t vs cf)
  have "w \<noteq> t \<and> w < length g \<and> vs ! w" if "(start, w) \<in> (adj_edges g)\<^sup>*" "start \<noteq> t" for w
    using that
  proof (induction rule: rtrancl_induct)
    case base
    then show ?case using 1(2) by (simp add: path_inv_def)
  next
    case (step y z)
    then have "y < length g" "vs ! y" by auto
    then have "z \<noteq> t \<and> vs ! z" using 1(3) step(2) by auto
    then show ?case using adj_edge_range [OF 1(1) step(2)] by blast
  qed
  then show ?case by auto
next
  case (2 g t vs cf c q)
  have c: "c < length g" "vs ! c" using 2(3) by (auto simp: path_inv_def)
  have inv: "path_inv g start vs cf q" using 2(3) by (simp add: path_inv_def)
  have ss: "\<forall>x \<in> set (g ! c). (c, x) \<in> adj_edges g \<and> x < length g"
    using 2(2) c(1) by (auto simp: adj_edges_def adj_wf_def)
  from path_succs_spec [OF inv c ss, of t] show ?case
  proof (elim disjE exE conjE)
    fix vs' cf' new
    assume *: "path_succs t c (g ! c) (vs, cf, q) = PathMore (vs', cf', q @ new)"
      "path_inv g start vs' cf' (q @ new)" "t \<notin> set (g ! c)"
      "\<forall>v < length g. vs' ! v \<longleftrightarrow> vs ! v \<or> v \<in> set (g ! c)" "set new \<subseteq> set (g ! c)"
      "\<forall>v \<in> set (g ! c). vs ! v \<or> v \<in> set new"
    have "\<forall>v < length g. vs' ! v \<and> v \<notin> set (q @ new) \<longrightarrow>
        (\<forall>w. (v, w) \<in> adj_edges g \<longrightarrow> w \<noteq> t \<and> vs' ! w)"
    proof (intro allI impI)
      fix v w assume v: "v < length g" "vs' ! v \<and> v \<notin> set (q @ new)" and e: "(v, w) \<in> adj_edges g"
      have w: "w < length g" using e adj_edge_range [OF 2(2)] by blast
      show "w \<noteq> t \<and> vs' ! w"
      proof (cases "v = c")
        case True
        then show ?thesis using e *(3,4) w by (auto simp: adj_edges_def)
      next
        case False
        then have "vs ! v" "v \<notin> set (c # q)" using v *(4,6) by auto
        then show ?thesis using 2(4) v(1) e *(4) w by blast
      qed
    qed
    from 2(1) [OF _ *(1) 2(2) *(2) this] c(1) *(1) show ?thesis by simp
  qed (use c(1) in auto)
qed

lemma graph_find_path_spec:
  assumes "adj_wf g" "start < length g"
  shows "(\<exists>p. graph_find_path g start t = Some (Some p) \<and> is_path g start t p \<and>
            (start, t) \<in> (adj_edges g)\<^sup>*) \<or>
    (graph_find_path g start t = Some None \<and> (start, t) \<notin> (adj_edges g)\<^sup>*)"
proof -
  have reach: "(a, b) \<in> (adj_edges g)\<^sup>*" if "is_path g a b p" for a b p
    using that
  proof (induction p arbitrary: a)
    case (Cons x p)
    show ?case
    proof (cases "p = []")
      case False
      then have "is_path g (hd p) b p" "(x, hd p) \<in> adj_edges g" "x = a"
        using Cons.prems by (auto simp: is_path_def hd_conv_nth)
      then show ?thesis using Cons.IH by (meson converse_rtrancl_into_rtrancl)
    qed (use Cons.prems in \<open>auto simp: is_path_def\<close>)
  qed (simp add: is_path_def)
  show ?thesis
  proof (cases "start = t")
    case True
    then show ?thesis by (auto simp: graph_find_path_def is_path_def)
  next
    case False
    let ?vs = "(replicate (length g) False)[start := True]" and ?cf = "replicate (length g) None"
    have vs: "?vs ! v \<longleftrightarrow> v = start" if "v < length g" for v
      using that assms(2) by (auto simp: nth_list_update)
    have "chain ?cf start []" using assms(2) by (auto intro: chain.intros)
    then have inv: "path_inv g start ?vs ?cf [start]"
      using assms(2) vs by (auto simp: path_inv_def is_path_def intro!: exI [of _ "[]"])
    have "\<forall>v < length g. ?vs ! v \<and> v \<notin> set [start] \<longrightarrow>
        (\<forall>w. (v, w) \<in> adj_edges g \<longrightarrow> w \<noteq> t \<and> ?vs ! w)" using vs by auto
    from path_loop_spec [OF assms(1) inv this] show ?thesis
      using False assms(2) reach by (auto simp: graph_find_path_def simp del: path_loop.simps)
  qed
qed

end
