(* ===== verification/Vir_Stmt.thy ===== *)
theory Vir_Stmt
  imports Vir_Replace Vir_Semantics Graph_Search
begin

section \<open>Statements and reborrowing DAGs\<close>

text \<open>
  \<^verbatim>\<open>ast/stmt.rs\<close>, \<^verbatim>\<open>vir/borrows.rs\<close>, \<^verbatim>\<open>vir/gather_labels.rs\<close> and the statement part of \<^verbatim>\<open>vir/utils.rs\<close>.
  A statement may hold a reborrowing DAG whose nodes hold statements; the folders and walkers of the
  source do not descend into it (\<open>fold_expire_borrows\<close> and \<open>walk_expire_borrows\<close>).
\<close>

subsection \<open>Data\<close>

datatype assign_kind =
    Copy | Move | MutableBorrow borrow | SharedBorrow borrow | Ghost

datatype 's dag_node =
  Node (nd_guard: expr) (nd_borrow: borrow) (nd_reborrowing_nodes: "borrow list")
    (nd_reborrowed_nodes: "borrow list") (nd_stmts: "'s list") (nd_borrowed_places: "expr list")
    (nd_conflicting_borrows: "borrow list") (nd_alive_conflicting_borrows: "borrow list")
    (nd_place: "expr option")

datatype 's dag =
  Dag (dag_borrow_indices: "borrow \<Rightarrow> nat option") (dag_nodes: "'s dag_node list")
    (dag_borrowed_places: "expr list")

datatype stmt =
    SComment string
  | SLabel string
  | SInhale expr
  | SExhale expr position
  | SAssert expr position
  | SMethodCall string "expr list" "local_var list"
  | SAssign expr expr assign_kind
  | SFold string "expr list" perm_amount maybe_enum_variant_index position
  | SUnfold string "expr list" perm_amount maybe_enum_variant_index
  | SObtain expr position
  | SBeginFrame
  | SEndFrame
  | STransferPerm expr expr bool
  | SPackageMagicWand expr "stmt list" string "local_var list" position
  | SApplyMagicWand expr position
  | SExpireBorrows "stmt dag"
  | SIf expr "stmt list" "stmt list"
  | SDowncast expr vfield

subsection \<open>Constructors and positions\<close>

fun is_comment :: "stmt \<Rightarrow> bool" where
  "is_comment (SComment _) = True"
| "is_comment _ = False"

definition stmt_package_magic_wand ::
  "expr \<Rightarrow> expr \<Rightarrow> stmt list \<Rightarrow> string \<Rightarrow> local_var list \<Rightarrow> position \<Rightarrow> stmt" where
  "stmt_package_magic_wand lhs rhs stmts label vars pos =
     SPackageMagicWand (EMagicWand lhs rhs None pos) stmts label vars pos"

definition stmt_apply_magic_wand :: "expr \<Rightarrow> expr \<Rightarrow> borrow \<Rightarrow> position \<Rightarrow> stmt" where
  "stmt_apply_magic_wand lhs rhs bor pos = SApplyMagicWand (magic_wand lhs rhs (Some bor)) pos"

fun stmt_pos :: "stmt \<Rightarrow> position option" where
  "stmt_pos (SPackageMagicWand _ _ _ _ p) = Some p"
| "stmt_pos (SExhale _ p) = Some p"
| "stmt_pos _ = None"

fun stmt_set_pos :: "position \<Rightarrow> stmt \<Rightarrow> stmt" where
  "stmt_set_pos q (SPackageMagicWand w b l vs _) = SPackageMagicWand w b l vs q"
| "stmt_set_pos q (SExhale e _) = SExhale e q"
| "stmt_set_pos q s = s"

definition stmt_set_default_pos :: "position \<Rightarrow> stmt \<Rightarrow> stmt" where
  "stmt_set_default_pos q s =
     (case stmt_pos s of
        Some p \<Rightarrow> if position_is_default p then stmt_set_pos q s else s
      | None \<Rightarrow> s)"

subsection \<open>Folders\<close>

text \<open>
  \<open>StmtFolder\<close> with its methods at their defaults except \<open>fold_expr\<close>, which is \<open>f\<close>: this is
  \<open>Stmt::map_expr\<close>.
\<close>

fun map_expr :: "(expr \<Rightarrow> expr) \<Rightarrow> stmt \<Rightarrow> stmt" where
  "map_expr f (SComment s) = SComment s"
| "map_expr f (SLabel s) = SLabel s"
| "map_expr f (SInhale e) = SInhale (f e)"
| "map_expr f (SExhale e p) = SExhale (f e) p"
| "map_expr f (SAssert e p) = SAssert (f e) p"
| "map_expr f (SMethodCall n args targets) = SMethodCall n (map f args) targets"
| "map_expr f (SAssign p e k) = SAssign (f p) (f e) k"
| "map_expr f (SFold n args m i p) = SFold n (map f args) m i p"
| "map_expr f (SUnfold n args m i) = SUnfold n (map f args) m i"
| "map_expr f (SObtain e p) = SObtain (f e) p"
| "map_expr f SBeginFrame = SBeginFrame"
| "map_expr f SEndFrame = SEndFrame"
| "map_expr f (STransferPerm a b unchecked) = STransferPerm (f a) (f b) unchecked"
| "map_expr f (SPackageMagicWand w body l vs p) = SPackageMagicWand (f w) (map (map_expr f) body) l vs p"
| "map_expr f (SApplyMagicWand w p) = SApplyMagicWand (f w) p"
| "map_expr f (SExpireBorrows d) = SExpireBorrows d"
| "map_expr f (SIf g t e) = SIf (f g) (map (map_expr f) t) (map (map_expr f) e)"
| "map_expr f (SDowncast e fd) = SDowncast (f e) fd"

definition set_default_expr_pos :: "position \<Rightarrow> stmt \<Rightarrow> stmt" where
  "set_default_expr_pos q s = map_expr (set_default_pos q) s"

fun map2E :: "('e + 'a) \<Rightarrow> ('e + 'b) \<Rightarrow> ('a \<Rightarrow> 'b \<Rightarrow> 'c) \<Rightarrow> 'e + 'c" where
  "map2E (Inl e) _ k = Inl e"
| "map2E (Inr a) (Inl e) k = Inl e"
| "map2E (Inr a) (Inr b) k = Inr (k a b)"

lemma map2E_Inr_iff: "map2E x y k = Inr z \<longleftrightarrow> (\<exists>a b. x = Inr a \<and> y = Inr b \<and> z = k a b)"
  by (cases x; cases y) auto

text \<open>\<open>FallibleStmtFolder\<close> with only \<open>fallible_fold_expr\<close> overridden: \<open>Stmt::fallible_map_expr\<close>.\<close>

fun fallible_map_expr :: "(expr \<Rightarrow> 'err + expr) \<Rightarrow> stmt \<Rightarrow> 'err + stmt" where
  "fallible_map_expr f (SComment s) = Inr (SComment s)"
| "fallible_map_expr f (SLabel s) = Inr (SLabel s)"
| "fallible_map_expr f (SInhale e) = map_sum id SInhale (f e)"
| "fallible_map_expr f (SExhale e p) = map_sum id (\<lambda>x. SExhale x p) (f e)"
| "fallible_map_expr f (SAssert e p) = map_sum id (\<lambda>x. SAssert x p) (f e)"
| "fallible_map_expr f (SMethodCall n args targets) =
     map_sum id (\<lambda>xs. SMethodCall n xs targets) (mapE f args)"
| "fallible_map_expr f (SAssign p e k) = map2E (f p) (f e) (\<lambda>x y. SAssign x y k)"
| "fallible_map_expr f (SFold n args m i p) = map_sum id (\<lambda>xs. SFold n xs m i p) (mapE f args)"
| "fallible_map_expr f (SUnfold n args m i) = map_sum id (\<lambda>xs. SUnfold n xs m i) (mapE f args)"
| "fallible_map_expr f (SObtain e p) = map_sum id (\<lambda>x. SObtain x p) (f e)"
| "fallible_map_expr f SBeginFrame = Inr SBeginFrame"
| "fallible_map_expr f SEndFrame = Inr SEndFrame"
| "fallible_map_expr f (STransferPerm a b unchecked) =
     map2E (f a) (f b) (\<lambda>x y. STransferPerm x y unchecked)"
| "fallible_map_expr f (SPackageMagicWand w body l vs p) =
     map2E (f w) (mapE (fallible_map_expr f) body) (\<lambda>x xs. SPackageMagicWand x xs l vs p)"
| "fallible_map_expr f (SApplyMagicWand w p) = map_sum id (\<lambda>x. SApplyMagicWand x p) (f w)"
| "fallible_map_expr f (SExpireBorrows d) = Inr (SExpireBorrows d)"
| "fallible_map_expr f (SIf g t e) =
     map2E (f g) (map2E (mapE (fallible_map_expr f) t) (mapE (fallible_map_expr f) e) Pair)
       (\<lambda>x (ts, es). SIf x ts es)"
| "fallible_map_expr f (SDowncast e fd) = map_sum id (\<lambda>x. SDowncast x fd) (f e)"

lemma mapE_all_Inr: "(\<And>x. x \<in> set xs \<Longrightarrow> f x = Inr (g x)) \<Longrightarrow> mapE f xs = Inr (map g xs)"
  by (induction xs) auto

lemma fallible_map_expr_pure: "fallible_map_expr (\<lambda>e. Inr (f e)) s = Inr (map_expr f s)"
  by (induction "\<lambda>e. Inr (f e) :: 'err + expr" s rule: fallible_map_expr.induct)
     (auto simp: mapE_all_Inr)

lemma map_expr_id: "map_expr (\<lambda>e. e) s = s"
  by (induction "\<lambda>e::expr. e" s rule: map_expr.induct) (auto simp: map_idI)

subsection \<open>Walkers\<close>

text \<open>
  The callbacks a default walk of a statement makes, in order: \<open>walk_expr\<close>, \<open>walk_local_var\<close> and
  \<open>walk_label\<close>.  A package statement visits its wand, its ghost variables and its body.
\<close>

datatype stmt_event = EvExpr expr | EvVar local_var | EvLabel string

fun stmt_events :: "stmt \<Rightarrow> stmt_event list" where
  "stmt_events (SComment _) = []"
| "stmt_events (SLabel l) = [EvLabel l]"
| "stmt_events (SInhale e) = [EvExpr e]"
| "stmt_events (SExhale e _) = [EvExpr e]"
| "stmt_events (SAssert e _) = [EvExpr e]"
| "stmt_events (SMethodCall _ args targets) = map EvExpr args @ map EvVar targets"
| "stmt_events (SAssign p e _) = [EvExpr p, EvExpr e]"
| "stmt_events (SFold _ args _ _ _) = map EvExpr args"
| "stmt_events (SUnfold _ args _ _) = map EvExpr args"
| "stmt_events (SObtain e _) = [EvExpr e]"
| "stmt_events SBeginFrame = []"
| "stmt_events SEndFrame = []"
| "stmt_events (STransferPerm a b _) = [EvExpr a, EvExpr b]"
| "stmt_events (SPackageMagicWand w body _ vs _) =
     EvExpr w # map EvVar vs @ concat (map stmt_events body)"
| "stmt_events (SApplyMagicWand w _) = [EvExpr w]"
| "stmt_events (SExpireBorrows _) = []"
| "stmt_events (SIf g t e) = EvExpr g # concat (map stmt_events t) @ concat (map stmt_events e)"
| "stmt_events (SDowncast e _) = [EvExpr e]"

definition event_labels :: "stmt_event list \<Rightarrow> string list" where
  "event_labels evs = concat (map (\<lambda>ev. case ev of EvLabel l \<Rightarrow> [l] | _ \<Rightarrow> []) evs)"

definition event_exprs :: "stmt_event list \<Rightarrow> expr list" where
  "event_exprs evs = concat (map (\<lambda>ev. case ev of EvExpr e \<Rightarrow> [e] | _ \<Rightarrow> []) evs)"

definition gather_labels :: "stmt \<Rightarrow> string list" where
  "gather_labels s = event_labels (stmt_events s)"

lemma event_labels_append [simp]: "event_labels (xs @ ys) = event_labels xs @ event_labels ys"
  by (simp add: event_labels_def)

lemma event_labels_simps [simp]:
  "event_labels [] = []"
  "event_labels (EvLabel l # evs) = l # event_labels evs"
  "event_labels (EvExpr e # evs) = event_labels evs"
  "event_labels (EvVar v # evs) = event_labels evs"
  "event_labels (map (\<lambda>e. EvExpr (f e)) es) = []"
  "event_labels (map EvVar vs) = []"
  by (simp_all add: event_labels_def)

lemma event_labels_EvExpr [simp]: "event_labels (map EvExpr es) = []"
  using event_labels_simps(5) [of "\<lambda>e. e" es] by simp

lemma event_labels_concat [simp]:
  "event_labels (concat (map g ss)) = concat (map (\<lambda>s. event_labels (g s)) ss)"
  by (induction ss) simp_all

text \<open>The rewriting of expressions neither adds nor loses labels.\<close>

lemma gather_labels_map_expr: "gather_labels (map_expr f s) = gather_labels s"
proof -
  have "event_labels (stmt_events (map_expr f s)) = event_labels (stmt_events s)"
    by (induction f s rule: map_expr.induct) (auto simp: comp_def cong: map_cong)
  then show ?thesis by (simp add: gather_labels_def)
qed

subsection \<open>Reborrowing DAGs\<close>

definition dag_builder_new :: "'s dag" where
  "dag_builder_new = Dag Map.empty [] []"

definition add_node :: "'s dag \<Rightarrow> 's dag_node \<Rightarrow> 's dag option" where
  "add_node d n =
     (if dag_borrow_indices d (nd_borrow n) \<noteq> None then None
      else Some (Dag ((dag_borrow_indices d)(nd_borrow n \<mapsto> length (dag_nodes d)))
                     (dag_nodes d @ [n]) (dag_borrowed_places d @ nd_borrowed_places n)))"

definition get_borrow_index :: "'s dag \<Rightarrow> borrow \<Rightarrow> nat option" where
  "get_borrow_index d b = dag_borrow_indices d b"

text \<open>
  The assertions of \<open>check_integrity\<close>.  The number of entries of the hash map is written with the
  borrows of the nodes; every key comes from a node because \<open>add_node\<close> is the only writer.
\<close>

definition check_integrity :: "'s dag \<Rightarrow> bool" where
  "check_integrity d \<longleftrightarrow>
     (dag_nodes d \<noteq> [] \<longrightarrow> nd_reborrowing_nodes (hd (dag_nodes d)) = []) \<and>
     (dag_nodes d \<noteq> [] \<longrightarrow> nd_reborrowed_nodes (last (dag_nodes d)) = []) \<and>
     card (dom (dag_borrow_indices d)) = length (dag_nodes d) \<and>
     (\<forall>i < length (dag_nodes d).
        dag_borrow_indices d (nd_borrow (dag_nodes d ! i)) = Some i \<and>
        (\<forall>b \<in> set (nd_reborrowing_nodes (dag_nodes d ! i)). b \<in> dom (dag_borrow_indices d)) \<and>
        (\<forall>b \<in> set (nd_reborrowed_nodes (dag_nodes d ! i)). b \<in> dom (dag_borrow_indices d)))"

definition dag_finish :: "'s dag \<Rightarrow> 's dag option" where
  "dag_finish d = (if check_integrity d then Some d else None)"

fun any_prefix :: "expr \<Rightarrow> expr list \<Rightarrow> bool option" where
  "any_prefix place [] = Some False"
| "any_prefix place (b # bs) =
     (case has_prefix place b of
        None \<Rightarrow> None
      | Some True \<Rightarrow> Some True
      | Some False \<Rightarrow> any_prefix place bs)"

definition in_borrowed_places :: "'s dag \<Rightarrow> expr \<Rightarrow> bool option" where
  "in_borrowed_places d place = any_prefix place (dag_borrowed_places d)"

text \<open>
  \<open>DAG::guard\<close>: the conjunction of the guards of the borrow and of every borrow that reborrows it,
  directly or not, in breadth-first order.  \<open>None\<close> is a missing key or an index out of bounds.
\<close>

definition dag_succ :: "'s dag \<Rightarrow> nat \<Rightarrow> nat list option" where
  "dag_succ d c =
     (if c < length (dag_nodes d)
      then mapO (dag_borrow_indices d) (nd_reborrowing_nodes (dag_nodes d ! c)) else None)"

definition dag_guard :: "'s dag \<Rightarrow> borrow \<Rightarrow> expr option" where
  "dag_guard d expiring_borrow =
     (case get_borrow_index d expiring_borrow of
        None \<Rightarrow> None
      | Some index \<Rightarrow>
          if length (dag_nodes d) \<le> index then None
          else map_option (\<lambda>guard_indices. conjoin (map (\<lambda>i. nd_guard (dag_nodes d ! i)) guard_indices))
                 (bfs (dag_succ d)
                   ((replicate (length (dag_nodes d)) False)[index := True], [index], [index])))"

definition dag_size :: "'s dag \<Rightarrow> nat" where
  "dag_size d = length (dag_nodes d)"

lemma check_integrity_dom:
  assumes "check_integrity d" "dag_borrow_indices d b = Some i" "dag_nodes d \<noteq> []"
  shows "i < dag_size d \<and> nd_borrow (dag_nodes d ! i) = b"
proof -
  let ?bs = "map nd_borrow (dag_nodes d)" and ?m = "dag_borrow_indices d"
  have idx: "?m (nd_borrow (dag_nodes d ! j)) = Some j" if "j < length (dag_nodes d)" for j
    using assms(1) that by (simp add: check_integrity_def)
  have "distinct ?bs" unfolding distinct_conv_nth
    by (simp add: nth_map) (metis idx option.inject)
  have sub: "set ?bs \<subseteq> dom ?m" using idx by (force simp: in_set_conv_nth)
  have "finite (dom ?m)"
    using assms(1,3) by (auto simp: check_integrity_def intro: ccontr)
  moreover have "card (set ?bs) = card (dom ?m)"
    using distinct_card [OF \<open>distinct ?bs\<close>] assms(1) by (simp add: check_integrity_def)
  ultimately have "set ?bs = dom ?m" using sub by (intro card_subset_eq)
  then have "b \<in> set ?bs" using assms(2) by blast
  then obtain j where "j < length (dag_nodes d)" "nd_borrow (dag_nodes d ! j) = b"
    by (auto simp: in_set_conv_nth)
  then show ?thesis using idx [of j] assms(2) by (auto simp: dag_size_def)
qed

interpretation dg: indexed_graph check_integrity dag_size dag_succ
proof
  fix d :: "'s dag" and c
  assume wf: "check_integrity d" and c: "c < dag_size d"
  have ne: "dag_nodes d \<noteq> []" using c by (auto simp: dag_size_def)
  have "mapO (dag_borrow_indices d) bs = Some (map (\<lambda>b. the (dag_borrow_indices d b)) bs)"
    if "set bs \<subseteq> dom (dag_borrow_indices d)" for bs
    using that by (intro mapO_total) auto
  moreover have "set (nd_reborrowing_nodes (dag_nodes d ! c)) \<subseteq> dom (dag_borrow_indices d)"
    using wf c by (auto simp: check_integrity_def dag_size_def)
  ultimately show "\<exists>ss. dag_succ d c = Some ss \<and> (\<forall>s \<in> set ss. s < dag_size d)"
    using c check_integrity_dom [OF wf _ ne]
    by (fastforce simp: dag_succ_def dag_size_def)
qed

lemma eval_conjoin:
  "eval I l \<rho> (conjoin es) = Some (VBool True) \<longleftrightarrow> (\<forall>e \<in> set es. eval I l \<rho> e = Some (VBool True))"
  by (induction es) (auto simp: from_bool_def expr_and_def expr_bin_def bin_val_logic short_Some)

text \<open>
  C26 The guard of an expiring borrow in a DAG that passed its integrity check is always computed
  (the search ends and no index is out of bounds), and it holds in a state exactly when the guards
  of the borrow itself and of all borrows that transitively reborrow it hold.
\<close>

theorem dag_guard_complete:
  assumes "check_integrity d" "get_borrow_index d b = Some i"
    and "dag_nodes d \<noteq> []"
  shows "\<exists>g. dag_guard d b = Some g \<and>
    (eval I l \<rho> g = Some (VBool True) \<longleftrightarrow>
       (\<forall>j. (i, j) \<in> {(c, s). \<exists>ss. dag_succ d c = Some ss \<and> s \<in> set ss}\<^sup>* \<longrightarrow>
          eval I l \<rho> (nd_guard (dag_nodes d ! j)) = Some (VBool True)))"
proof -
  have i: "i < dag_size d"
    using check_integrity_dom [OF assms(1) _ assms(3)] assms(2) by (auto simp: get_borrow_index_def)
  obtain res where res: "bfs (dag_succ d) ((replicate (dag_size d) False)[i := True], [i], [i]) = Some res"
    "set res = (dg.edges d)\<^sup>* `` {i}"
    using dg.bfs_reaches [OF assms(1) i] by blast
  have "dg.edges d = {(c, s). \<exists>ss. dag_succ d c = Some ss \<and> s \<in> set ss}"
    by (auto simp: dg.edges_def dag_succ_def dag_size_def split: if_splits)
  then have "dag_guard d b = Some (conjoin (map (\<lambda>i. nd_guard (dag_nodes d ! i)) res))"
    "set res = {(c, s). \<exists>ss. dag_succ d c = Some ss \<and> s \<in> set ss}\<^sup>* `` {i}"
    using res i assms(2) by (auto simp: dag_guard_def dag_size_def simp del: bfs.simps)
  then show ?thesis by (auto simp: eval_conjoin)
qed

fun add_nodes :: "'s dag \<Rightarrow> 's dag_node list \<Rightarrow> 's dag option" where
  "add_nodes d [] = Some d"
| "add_nodes d (n # ns) = (case add_node d n of None \<Rightarrow> None | Some d' \<Rightarrow> add_nodes d' ns)"

lemma add_nodes_spec:
  assumes "dag_borrow_indices d = map_of (zip (map nd_borrow (dag_nodes d)) [0..<length (dag_nodes d)])"
    and "distinct (map nd_borrow (dag_nodes d))"
  shows "(if distinct (map nd_borrow (dag_nodes d @ ns))
          then \<exists>d'. add_nodes d ns = Some d' \<and> dag_nodes d' = dag_nodes d @ ns \<and>
                 dag_borrow_indices d' = map_of (zip (map nd_borrow (dag_nodes d')) [0..<length (dag_nodes d')])
          else add_nodes d ns = None)"
  using assms
proof (induction ns arbitrary: d)
  case (Cons n ns)
  let ?bs = "map nd_borrow (dag_nodes d)"
  have dom: "dom (dag_borrow_indices d) = set ?bs"
    using Cons.prems(1) by (simp add: dom_map_of_zip)
  show ?case
  proof (cases "nd_borrow n \<in> set ?bs")
    case True
    then have "dag_borrow_indices d (nd_borrow n) \<noteq> None" using dom by blast
    then show ?thesis using True by (auto simp: add_node_def)
  next
    case False
    then have none: "dag_borrow_indices d (nd_borrow n) = None" using dom by blast
    obtain d' where d': "add_node d n = Some d'" "dag_nodes d' = dag_nodes d @ [n]"
      "dag_borrow_indices d' = (dag_borrow_indices d)(nd_borrow n \<mapsto> length (dag_nodes d))"
      using none by (simp add: add_node_def)
    have "dag_borrow_indices d' =
        map_of (zip (map nd_borrow (dag_nodes d')) [0..<length (dag_nodes d')])"
      using d' Cons.prems(1) False by (auto simp: map_add_upd_left dom_map_of_zip intro!: ext)
    moreover have "distinct (map nd_borrow (dag_nodes d'))" using d' Cons.prems(2) False by auto
    moreover have "add_nodes d (n # ns) = add_nodes d' ns" using d'(1) by simp
    moreover have "dag_nodes d' @ ns = dag_nodes d @ n # ns" using d'(2) by simp
    ultimately show ?thesis using Cons.IH [of d'] by metis
  qed
qed simp

text \<open>
  The DAG builder keeps the borrow index: after any sequence of successful insertions every
  node is found under its borrow and no borrow is registered twice; inserting a registered borrow
  is the only panic.
\<close>

theorem dag_builder_indices:
  "(if distinct (map nd_borrow ns)
    then \<exists>d. add_nodes dag_builder_new ns = Some d \<and> dag_nodes d = ns \<and>
           (\<forall>i < length ns. get_borrow_index d (nd_borrow (ns ! i)) = Some i)
    else add_nodes dag_builder_new ns = None)"
proof (cases "distinct (map nd_borrow ns)")
  case True
  then obtain d where d: "add_nodes dag_builder_new ns = Some d" "dag_nodes d = ns"
    "dag_borrow_indices d = map_of (zip (map nd_borrow ns) [0..<length ns])"
    using add_nodes_spec [of dag_builder_new ns] by (auto simp: dag_builder_new_def)
  have "map_of (zip (map nd_borrow ns) [0..<length ns]) (map nd_borrow ns ! i) = Some ([0..<length ns] ! i)"
    if "i < length ns" for i
    using that True by (intro map_of_zip_nth) auto
  then show ?thesis using d True by (auto simp: get_borrow_index_def)
next
  case False
  then show ?thesis using add_nodes_spec [of dag_builder_new ns] by (auto simp: dag_builder_new_def)
qed

theorem dag_guard_complete_witness:
  "let n = (\<lambda>b ing ed g. Node g (Borrow b) ing ed ([] :: stmt list) [] [] [] None);
       ns = [n 0 [] [Borrow 1] (from_bool True), n 1 [Borrow 0] [] (from_bool False)];
       d = Dag [Borrow 0 \<mapsto> 0, Borrow 1 \<mapsto> 1] ns []
   in check_integrity d \<and> (\<exists>g. dag_guard d (Borrow 1) = Some g)"
proof -
  let ?n = "\<lambda>b ing ed g. Node g (Borrow b) ing ed ([] :: stmt list) [] [] [] None"
  let ?d = "Dag [Borrow 0 \<mapsto> 0, Borrow 1 \<mapsto> 1]
      [?n 0 [] [Borrow 1] (from_bool True), ?n 1 [Borrow 0] [] (from_bool False)] []"
  have c: "check_integrity ?d" by (auto simp: check_integrity_def less_Suc_eq)
  have i: "get_borrow_index ?d (Borrow 1) = Some 1" by (simp add: get_borrow_index_def)
  have ne: "dag_nodes ?d \<noteq> []" by simp
  from dag_guard_complete [OF c i ne] have "\<exists>g. dag_guard ?d (Borrow 1) = Some g" by blast
  then show ?thesis using c by (simp only: Let_def simp_thms)
qed

theorem dag_builder_indices_witness:
  "let n = (\<lambda>b. Node (from_bool True) (Borrow b) [] [] ([] :: stmt list) [] [] [] None)
   in (\<exists>d. add_nodes dag_builder_new [n 4, n 2] = Some d \<and> get_borrow_index d (Borrow 2) = Some 1) \<and>
      add_nodes dag_builder_new [n 4, n 2, n 4] = None"
  using dag_builder_indices [of "map (\<lambda>b. Node (from_bool True) (Borrow b) [] [] ([] :: stmt list) [] [] [] None) [4, 2]"]
    dag_builder_indices [of "map (\<lambda>b. Node (from_bool True) (Borrow b) [] [] ([] :: stmt list) [] [] [] None) [4, 2, 4]"]
  by (auto simp: Let_def less_Suc_eq split: if_splits)

end
