(* ===== verification/Vir_Cfg.thy ===== *)
theory Vir_Cfg
  imports Vir_Stmt "HOL-Library.Multiset"
begin

section \<open>Control-flow graphs of methods\<close>

text \<open>
  \<^verbatim>\<open>cfg/method.rs\<close>: methods, blocks, successors, fresh names, and the graph operations, which are the
  searches of \<open>Graph_Search\<close> on the lists of following blocks.  \<open>None\<close> is a failed assertion or an
  index out of bounds.  The method identifiers (\<open>Uuid\<close>) are natural numbers; the one drawn by
  \<open>Uuid::new_v4\<close> is an argument of \<open>cfg_new\<close>.  Labels are ASCII.
\<close>

subsection \<open>Data\<close>

record block_index =
  bi_method_uuid :: nat
  bi_index :: nat

datatype successor =
    SuccUndefined
  | SuccReturn
  | SuccGoto block_index
  | SuccGotoSwitch "(expr \<times> block_index) list" block_index

record cfg_block =
  cb_stmts :: "stmt list"
  cb_successor :: successor

record cfg_method =
  cm_uuid :: nat
  cm_method_name :: string
  cm_formal_arg_count :: nat
  cm_formal_returns :: "local_var list"
  cm_local_vars :: "local_var list"
  cm_labels :: "string set"
  cm_reserved_labels :: "string set"
  cm_basic_blocks :: "cfg_block list"
  cm_basic_blocks_labels :: "string list"
  cm_fresh_var_index :: "32 word"
  cm_fresh_label_index :: "32 word"

definition RETURN_LABEL :: string where
  "RETURN_LABEL = ''end_of_method''"

subsection \<open>Successors\<close>

fun is_return :: "successor \<Rightarrow> bool" where
  "is_return SuccReturn = True"
| "is_return _ = False"

fun get_following :: "successor \<Rightarrow> block_index list" where
  "get_following SuccUndefined = []"
| "get_following SuccReturn = []"
| "get_following (SuccGoto target) = [target]"
| "get_following (SuccGotoSwitch guarded_targets default_target) =
     map snd guarded_targets @ [default_target]"

definition redirect :: "block_index \<Rightarrow> block_index \<Rightarrow> block_index \<Rightarrow> block_index" where
  "redirect src dst t = (if t = src then dst else t)"

fun replace_target :: "successor \<Rightarrow> block_index \<Rightarrow> block_index \<Rightarrow> successor option" where
  "replace_target s src dst =
     (if bi_method_uuid src \<noteq> bi_method_uuid dst then None
      else Some (case s of
        SuccGoto target \<Rightarrow> SuccGoto (redirect src dst target)
      | SuccGotoSwitch guarded default_target \<Rightarrow>
          SuccGotoSwitch (map (\<lambda>(g, t). (g, redirect src dst t)) guarded) (redirect src dst default_target)
      | x \<Rightarrow> x))"

definition set_uuid :: "block_index \<Rightarrow> nat \<Rightarrow> block_index" where
  "set_uuid b uuid = b\<lparr>bi_method_uuid := uuid\<rparr>"

fun replace_uuid :: "successor \<Rightarrow> nat \<Rightarrow> successor" where
  "replace_uuid (SuccGoto target) uuid = SuccGoto (set_uuid target uuid)"
| "replace_uuid (SuccGotoSwitch guarded default_target) uuid =
     SuccGotoSwitch (map (\<lambda>(g, t). (g, set_uuid t uuid)) guarded) (set_uuid default_target uuid)"
| "replace_uuid x uuid = x"

definition weak_eq :: "block_index \<Rightarrow> block_index \<Rightarrow> bool" where
  "weak_eq a b \<longleftrightarrow> bi_index a = bi_index b"

lemma get_following_replace_target:
  "replace_target s src dst = Some s' \<Longrightarrow> get_following s' = map (redirect src dst) (get_following s)"
  by (cases s) (auto split: if_splits)

lemma get_following_replace_uuid:
  "get_following (replace_uuid s u) = map (\<lambda>t. set_uuid t u) (get_following s)"
  by (cases s) auto

subsection \<open>Methods\<close>

definition cfg_new ::
  "nat \<Rightarrow> string \<Rightarrow> nat \<Rightarrow> local_var list \<Rightarrow> local_var list \<Rightarrow> string list \<Rightarrow> cfg_method" where
  "cfg_new uuid name formal_arg_count formal_returns local_vars reserved_labels =
     \<lparr>cm_uuid = uuid, cm_method_name = name, cm_formal_arg_count = formal_arg_count,
      cm_formal_returns = formal_returns, cm_local_vars = local_vars, cm_labels = {},
      cm_reserved_labels = set reserved_labels, cm_basic_blocks = [], cm_basic_blocks_labels = [],
      cm_fresh_var_index = 0, cm_fresh_label_index = 0\<rparr>"

definition block_index :: "cfg_method \<Rightarrow> nat \<Rightarrow> block_index" where
  "block_index m i = \<lparr>bi_method_uuid = cm_uuid m, bi_index = i\<rparr>"

definition is_fresh_local_name :: "cfg_method \<Rightarrow> string \<Rightarrow> bool" where
  "is_fresh_local_name m name \<longleftrightarrow>
     list_all (\<lambda>x. lv_name x \<noteq> name) (cm_formal_returns m) \<and>
     list_all (\<lambda>x. lv_name x \<noteq> name) (cm_local_vars m) \<and>
     name \<notin> cm_labels m \<and>
     list_all (\<lambda>x. x \<noteq> name) (cm_basic_blocks_labels m)"

text \<open>
  The loop of both generators: \<open>format!("{prefix}{index}")\<close> until the name is fresh and not
  reserved.  The index is an \<open>i32\<close> that wraps around, so the loop is a partial function.
\<close>

definition is_taken :: "cfg_method \<Rightarrow> string \<Rightarrow> bool" where
  "is_taken m name \<longleftrightarrow> \<not> is_fresh_local_name m name \<or> name \<in> cm_reserved_labels m"

definition numbered :: "string \<Rightarrow> 32 word \<Rightarrow> string" where
  "numbered prefix i = prefix @ int_to_string (sint i)"

partial_function (option) fresh_loop ::
  "cfg_method \<Rightarrow> string \<Rightarrow> 32 word \<Rightarrow> (string \<times> 32 word) option" where
  "fresh_loop m prefix i =
     (let candidate_name = numbered prefix i; next_index = i + 1
      in if is_taken m candidate_name then fresh_loop m prefix next_index
         else Some (candidate_name, next_index))"

declare fresh_loop.simps [code]

definition generate_fresh_local_var_name :: "cfg_method \<Rightarrow> (string \<times> cfg_method) option" where
  "generate_fresh_local_var_name m =
     map_option (\<lambda>(name, i). (name, m\<lparr>cm_fresh_var_index := i\<rparr>))
       (fresh_loop m ''__t'' (cm_fresh_var_index m))"

definition get_fresh_label_name :: "cfg_method \<Rightarrow> (string \<times> cfg_method) option" where
  "get_fresh_label_name m =
     map_option (\<lambda>(name, i). (name, m\<lparr>cm_fresh_label_index := i\<rparr>))
       (fresh_loop m ''l'' (cm_fresh_label_index m))"

definition get_all_vars :: "cfg_method \<Rightarrow> local_var list" where
  "get_all_vars m = cm_formal_returns m @ cm_local_vars m"

definition get_all_labels :: "cfg_method \<Rightarrow> string set" where
  "get_all_labels m = cm_labels m \<union> set (cm_basic_blocks_labels m)"

definition add_fresh_local_var :: "cfg_method \<Rightarrow> type \<Rightarrow> (local_var \<times> cfg_method) option" where
  "add_fresh_local_var m typ =
     (case generate_fresh_local_var_name m of
        None \<Rightarrow> None
      | Some (name, m') \<Rightarrow>
          (let v = local_var_new name typ
           in Some (v, m'\<lparr>cm_local_vars := cm_local_vars m' @ [v]\<rparr>)))"

definition add_local_var :: "cfg_method \<Rightarrow> string \<Rightarrow> type \<Rightarrow> cfg_method option" where
  "add_local_var m name typ =
     (if is_fresh_local_name m name
      then Some (m\<lparr>cm_local_vars := cm_local_vars m @ [local_var_new name typ]\<rparr>) else None)"

definition add_formal_return :: "cfg_method \<Rightarrow> string \<Rightarrow> type \<Rightarrow> cfg_method option" where
  "add_formal_return m name typ =
     (if is_fresh_local_name m name
      then Some (m\<lparr>cm_formal_returns := cm_formal_returns m @ [local_var_new name typ]\<rparr>) else None)"

fun register_labels :: "cfg_method \<Rightarrow> string list \<Rightarrow> cfg_method option" where
  "register_labels m [] = Some m"
| "register_labels m (label_name # ls) =
     (if is_fresh_local_name m label_name
      then register_labels (m\<lparr>cm_labels := insert label_name (cm_labels m)\<rparr>) ls else None)"

definition push_stmt :: "stmt \<Rightarrow> cfg_block \<Rightarrow> cfg_block" where
  "push_stmt s b = b\<lparr>cb_stmts := cb_stmts b @ [s]\<rparr>"

definition add_stmt :: "cfg_method \<Rightarrow> block_index \<Rightarrow> stmt \<Rightarrow> cfg_method option" where
  "add_stmt m index s =
     (case register_labels m (gather_labels s) of
        None \<Rightarrow> None
      | Some m' \<Rightarrow>
          if bi_index index < length (cm_basic_blocks m')
          then Some (m'\<lparr>cm_basic_blocks :=
                 (cm_basic_blocks m')[bi_index index := push_stmt s (cm_basic_blocks m' ! bi_index index)]\<rparr>)
          else None)"

fun add_stmts :: "cfg_method \<Rightarrow> block_index \<Rightarrow> stmt list \<Rightarrow> cfg_method option" where
  "add_stmts m index [] = Some m"
| "add_stmts m index (s # ss) =
     (case add_stmt m index s of None \<Rightarrow> None | Some m' \<Rightarrow> add_stmts m' index ss)"

definition char_is_alphabetic :: "char \<Rightarrow> bool" where
  "char_is_alphabetic c \<longleftrightarrow>
     (let n = of_char c :: nat in 65 \<le> n \<and> n \<le> 90 \<or> 97 \<le> n \<and> n \<le> 122)"

definition char_is_alphanumeric :: "char \<Rightarrow> bool" where
  "char_is_alphanumeric c \<longleftrightarrow>
     char_is_alphabetic c \<or> (let n = of_char c :: nat in 48 \<le> n \<and> n \<le> 57)"

definition add_block :: "cfg_method \<Rightarrow> string \<Rightarrow> stmt list \<Rightarrow> (block_index \<times> cfg_method) option" where
  "add_block m label stmts =
     (if list_all (\<lambda>c. char_is_alphabetic c \<or> c = CHR ''_'') (take 1 label) \<and>
         list_all (\<lambda>c. char_is_alphanumeric c \<or> c = CHR ''_'') (drop 1 label) \<and>
         list_all (\<lambda>l. l \<noteq> label) (cm_basic_blocks_labels m) \<and> label \<noteq> RETURN_LABEL
      then Some (block_index m (length (cm_basic_blocks m)),
             m\<lparr>cm_basic_blocks_labels := cm_basic_blocks_labels m @ [label],
               cm_basic_blocks :=
                 cm_basic_blocks m @ [\<lparr>cb_stmts = stmts, cb_successor = SuccUndefined\<rparr>]\<rparr>)
      else None)"

definition get_successor :: "cfg_method \<Rightarrow> block_index \<Rightarrow> successor option" where
  "get_successor m index =
     (if cm_uuid m = bi_method_uuid index \<and> bi_index index < length (cm_basic_blocks m)
      then Some (cb_successor (cm_basic_blocks m ! bi_index index)) else None)"

definition set_successor :: "cfg_method \<Rightarrow> block_index \<Rightarrow> successor \<Rightarrow> cfg_method option" where
  "set_successor m index s =
     (if cm_uuid m = bi_method_uuid index \<and> bi_index index < length (cm_basic_blocks m)
      then Some (m\<lparr>cm_basic_blocks := (cm_basic_blocks m)
             [bi_index index := (cm_basic_blocks m ! bi_index index)\<lparr>cb_successor := s\<rparr>]\<rparr>)
      else None)"

definition get_preceding :: "cfg_method \<Rightarrow> block_index \<Rightarrow> block_index list option" where
  "get_preceding m target =
     (if cm_uuid m = bi_method_uuid target
      then Some (map (block_index m)
             (filter (\<lambda>i. target \<in> set (get_following (cb_successor (cm_basic_blocks m ! i))))
               [0..<length (cm_basic_blocks m)]))
      else None)"

text \<open>\<open>predecessors\<close>: one entry per edge, in the order of the blocks.\<close>

fun add_predecessors :: "nat \<Rightarrow> block_index list \<Rightarrow> (nat \<rightharpoonup> nat list) \<Rightarrow> (nat \<rightharpoonup> nat list)" where
  "add_predecessors i [] r = r"
| "add_predecessors i (s # ss) r =
     add_predecessors i ss
       (r(bi_index s \<mapsto> (case r (bi_index s) of Some ps \<Rightarrow> ps | None \<Rightarrow> []) @ [i]))"

fun predecessors_from :: "nat \<Rightarrow> cfg_block list \<Rightarrow> (nat \<rightharpoonup> nat list) \<Rightarrow> (nat \<rightharpoonup> nat list)" where
  "predecessors_from i [] r = r"
| "predecessors_from i (b # bs) r =
     predecessors_from (Suc i) bs (add_predecessors i (get_following (cb_successor b)) r)"

definition predecessors :: "cfg_method \<Rightarrow> (nat \<rightharpoonup> nat list)" where
  "predecessors m = predecessors_from 0 (cm_basic_blocks m) Map.empty"

definition get_indices :: "cfg_method \<Rightarrow> block_index list" where
  "get_indices m = map (block_index m) [0..<length (cm_basic_blocks m)]"

definition get_block_label :: "cfg_method \<Rightarrow> block_index \<Rightarrow> string option" where
  "get_block_label m index =
     (if bi_index index < length (cm_basic_blocks_labels m)
      then Some (cm_basic_blocks_labels m ! bi_index index) else None)"

definition cfg_adj :: "cfg_method \<Rightarrow> adjacency" where
  "cfg_adj m = map (\<lambda>b. map bi_index (get_following (cb_successor b))) (cm_basic_blocks m)"

text \<open>The in-degrees, \<open>i32\<close> counters in the code, are integers here: the two agree below \<open>2 ^ 31\<close> edges.\<close>

definition has_loops :: "cfg_method \<Rightarrow> bool option" where
  "has_loops m = graph_has_loops (cfg_adj m)"

definition get_topological_sort :: "cfg_method \<Rightarrow> block_index list option" where
  "get_topological_sort m = map_option (map (block_index m)) (graph_topological_sort (cfg_adj m))"

text \<open>
  \<open>find_path\<close> compares blocks by index (\<open>weak_eq\<close>).  The path holds the start block as given, and
  after it the block indices carried by the successors: from a block, the first one with the index
  that the search follows.
\<close>

definition step_block :: "cfg_method \<Rightarrow> nat \<Rightarrow> nat \<Rightarrow> block_index" where
  "step_block m i j =
     (case find (\<lambda>b. bi_index b = j) (get_following (cb_successor (cm_basic_blocks m ! i))) of
        Some b \<Rightarrow> b | None \<Rightarrow> block_index m j)"

fun path_blocks :: "cfg_method \<Rightarrow> block_index \<Rightarrow> nat list \<Rightarrow> block_index list" where
  "path_blocks m b [] = [b]"
| "path_blocks m b (j # js) = b # path_blocks m (step_block m (bi_index b) j) js"

definition find_path :: "cfg_method \<Rightarrow> block_index \<Rightarrow> block_index \<Rightarrow> block_index list option option" where
  "find_path m start_block end_block =
     (if weak_eq start_block end_block then Some (Some [start_block])
      else map_option (map_option (\<lambda>p. path_blocks m start_block (tl p)))
             (graph_find_path (cfg_adj m) (bi_index start_block) (bi_index end_block)))"

subsection \<open>Fresh names\<close>

definition used_names :: "cfg_method \<Rightarrow> string set" where
  "used_names m = lv_name ` set (cm_formal_returns m) \<union> lv_name ` set (cm_local_vars m) \<union>
     cm_labels m \<union> set (cm_basic_blocks_labels m) \<union> cm_reserved_labels m"

lemma is_taken_iff: "is_taken m name \<longleftrightarrow> name \<in> used_names m"
  by (auto simp: is_taken_def is_fresh_local_name_def used_names_def list_all_iff)

lemma numbered_inj: "numbered prefix i = numbered prefix j \<longleftrightarrow> i = j"
  by (auto simp: numbered_def signed_word_eqI dest: int_to_string_inj)

lemma word32_pigeonhole:
  fixes i :: "32 word"
  assumes "finite S" "card S < 2 ^ 32"
  shows "\<exists>k. numbered prefix (i + of_nat k) \<notin> S"
proof (rule ccontr)
  assume "\<not> ?thesis"
  then have all: "numbered prefix (i + of_nat k) \<in> S" for k by blast
  have "numbered prefix w \<in> S" for w
    using all [of "unat (w - i)"] by simp
  then have "range (numbered prefix) \<subseteq> S" by blast
  moreover have "card (range (numbered prefix)) = card (UNIV :: 32 word set)"
    by (rule card_image) (auto simp: inj_on_def numbered_inj)
  ultimately have "card (UNIV :: 32 word set) \<le> card S" using assms(1) by (metis card_mono)
  then show False using assms(2) by (simp add: card_word)
qed

lemma fresh_loop_finds:
  "numbered prefix (i + of_nat k) \<notin> used_names m \<Longrightarrow>
   \<exists>name j. fresh_loop m prefix i = Some (name, j) \<and> name \<notin> used_names m \<and>
     (\<exists>w. name = numbered prefix w)"
proof (induction k arbitrary: i)
  case 0
  then show ?case by (subst fresh_loop.simps) (auto simp: is_taken_iff Let_def)
next
  case (Suc k)
  have "\<exists>name j. fresh_loop m prefix (i + 1) = Some (name, j) \<and> name \<notin> used_names m \<and>
     (\<exists>w. name = numbered prefix w)"
    by (rule Suc.IH) (use Suc.prems in \<open>simp add: algebra_simps\<close>)
  then show ?case by (subst fresh_loop.simps) (auto simp: is_taken_iff Let_def)
qed

lemma fresh_loop_unused:
  assumes "finite (used_names m)" "card (used_names m) < 2 ^ 32"
  shows "\<exists>name j. fresh_loop m prefix i = Some (name, j) \<and> name \<notin> used_names m"
  using word32_pigeonhole [OF assms, of prefix i] fresh_loop_finds by blast

text \<open>
  C25 As long as fewer than \<open>2 ^ 32\<close> names are in use, both generators of fresh names return, although
  their 32-bit counters wrap around: the new variable has the requested type, is appended to the local
  variables and its name was neither a variable, a label, a block label nor reserved; the new label is
  not in use either, and only the counter changes.
\<close>

theorem fresh_names_total:
  assumes "finite (used_names m)" "card (used_names m) < 2 ^ 32"
  shows "(\<exists>v i. add_fresh_local_var m typ =
           Some (v, m\<lparr>cm_fresh_var_index := i, cm_local_vars := cm_local_vars m @ [v]\<rparr>) \<and>
           lv_typ v = typ \<and> lv_name v \<notin> used_names m) \<and>
    (\<exists>l i. get_fresh_label_name m = Some (l, m\<lparr>cm_fresh_label_index := i\<rparr>) \<and> l \<notin> used_names m)"
  using fresh_loop_unused [OF assms, of "''__t''" "cm_fresh_var_index m"]
    fresh_loop_unused [OF assms, of "''l''" "cm_fresh_label_index m"]
  by (auto simp: add_fresh_local_var_def generate_fresh_local_var_name_def local_var_new_def
      get_fresh_label_name_def Let_def)

subsection \<open>Labels and the building of methods\<close>

definition method_labels :: "cfg_method \<Rightarrow> string list" where
  "method_labels m = concat (map (\<lambda>b. concat (map gather_labels (cb_stmts b))) (cm_basic_blocks m))"

lemma register_labels_eq:
  "register_labels m ls =
     (if distinct ls \<and> list_all (is_fresh_local_name m) ls
      then Some (m\<lparr>cm_labels := cm_labels m \<union> set ls\<rparr>) else None)"
proof (induction ls arbitrary: m)
  case (Cons l ls)
  have "is_fresh_local_name (m\<lparr>cm_labels := insert l (cm_labels m)\<rparr>) x \<longleftrightarrow>
      x \<noteq> l \<and> is_fresh_local_name m x" for x
    by (auto simp: is_fresh_local_name_def)
  then show ?case by (auto simp: Cons.IH list_all_iff)
qed simp

lemma mset_concat_update:
  assumes "i < length bs" "f b' = f (bs ! i) @ ls"
  shows "mset (concat (map f (bs[i := b']))) = mset (concat (map f bs)) + mset ls"
proof -
  have "bs = take i bs @ bs ! i # drop (Suc i) bs" using assms(1) by (rule id_take_nth_drop)
  then have "mset (concat (map f bs)) =
      mset (concat (map f (take i bs))) + mset (f (bs ! i)) + mset (concat (map f (drop (Suc i) bs)))"
    by (metis concat.simps(2) concat_append list.simps(9) map_append mset_append union_assoc)
  then show ?thesis using assms by (simp add: upd_conv_take_nth_drop)
qed

definition add_stmt_result :: "cfg_method \<Rightarrow> nat \<Rightarrow> stmt \<Rightarrow> cfg_method" where
  "add_stmt_result m i s = m\<lparr>cm_labels := cm_labels m \<union> set (gather_labels s),
     cm_basic_blocks := (cm_basic_blocks m)[i := push_stmt s (cm_basic_blocks m ! i)]\<rparr>"

lemma add_stmt_eq:
  "add_stmt m index s =
     (if distinct (gather_labels s) \<and> list_all (is_fresh_local_name m) (gather_labels s) \<and>
         bi_index index < length (cm_basic_blocks m)
      then Some (add_stmt_result m (bi_index index) s) else None)"
  by (simp add: add_stmt_def register_labels_eq add_stmt_result_def)

text \<open>
  What holds of a method under construction: one label per block, all different and not the return
  label; variables have different names; the labels of the statements are all different, exactly the
  registered ones, and no variable has the name of one; successors lead to blocks of the method.
\<close>

definition targets_ok :: "cfg_method \<Rightarrow> successor \<Rightarrow> bool" where
  "targets_ok m s \<longleftrightarrow> list_all (\<lambda>t. bi_method_uuid t = cm_uuid m \<and>
     bi_index t < length (cm_basic_blocks m)) (get_following s)"

definition names_ok :: "cfg_method \<Rightarrow> bool" where
  "names_ok m \<longleftrightarrow> distinct (map lv_name (get_all_vars m)) \<and> distinct (method_labels m) \<and>
     set (method_labels m) = cm_labels m \<and>
     list_all (\<lambda>v. lv_name v \<notin> cm_labels m) (get_all_vars m)"

definition blocks_ok :: "cfg_method \<Rightarrow> bool" where
  "blocks_ok m \<longleftrightarrow> length (cm_basic_blocks_labels m) = length (cm_basic_blocks m) \<and>
     distinct (cm_basic_blocks_labels m) \<and> RETURN_LABEL \<notin> set (cm_basic_blocks_labels m) \<and>
     list_all (\<lambda>b. targets_ok m (cb_successor b)) (cm_basic_blocks m)"

definition method_inv :: "cfg_method \<Rightarrow> bool" where
  "method_inv m \<longleftrightarrow> names_ok m \<and> blocks_ok m"

inductive method_step :: "cfg_method \<Rightarrow> cfg_method \<Rightarrow> bool" where
  step_fresh_var: "add_fresh_local_var m t = Some (v, m') \<Longrightarrow> method_step m m'"
| step_fresh_label: "get_fresh_label_name m = Some (l, m') \<Longrightarrow> method_step m m'"
| step_local_var: "add_local_var m n t = Some m' \<Longrightarrow> method_step m m'"
| step_return: "add_formal_return m n t = Some m' \<Longrightarrow> method_step m m'"
| step_stmts: "add_stmts m b ss = Some m' \<Longrightarrow> method_step m m'"
| step_block: "add_block m l [] = Some (b, m') \<Longrightarrow> method_step m m'"
| step_successor: "targets_ok m s \<Longrightarrow> set_successor m b s = Some m' \<Longrightarrow> method_step m m'"

inductive built :: "cfg_method \<Rightarrow> bool" where
  built_new: "distinct (map lv_name (rets @ vars)) \<Longrightarrow> built (cfg_new uuid name n rets vars reserved)"
| built_step: "built m \<Longrightarrow> method_step m m' \<Longrightarrow> built m'"

lemma names_ok_add_stmt:
  assumes "names_ok m" "add_stmt m index s = Some m'"
  shows "names_ok m'"
proof -
  have d: "distinct (gather_labels s)" "list_all (is_fresh_local_name m) (gather_labels s)"
    "bi_index index < length (cm_basic_blocks m)" "m' = add_stmt_result m (bi_index index) s"
    using assms(2) by (auto simp: add_stmt_eq split: if_splits)
  have ms: "mset (method_labels m') = mset (method_labels m @ gather_labels s)"
    using mset_concat_update [OF d(3), of "\<lambda>b. concat (map gather_labels (cb_stmts b))"
        "push_stmt s (cm_basic_blocks m ! bi_index index)" "gather_labels s"] d(4)
    by (simp add: method_labels_def add_stmt_result_def push_stmt_def)
  have "distinct (method_labels m @ gather_labels s)"
    using assms(1) d by (auto simp: names_ok_def is_fresh_local_name_def list_all_iff)
  then have "distinct (method_labels m')" using ms mset_eq_imp_distinct_iff by blast
  moreover have "set (method_labels m') = cm_labels m'"
    using mset_eq_setD [OF ms] assms(1) d(4) by (simp add: names_ok_def add_stmt_result_def)
  moreover have "lv_name v \<notin> set (gather_labels s)" if "v \<in> set (get_all_vars m)" for v
    using that d(2) by (auto simp: is_fresh_local_name_def list_all_iff get_all_vars_def)
  ultimately show ?thesis
    using assms(1) d(4) by (auto simp: names_ok_def add_stmt_result_def get_all_vars_def list_all_iff)
qed

lemma blocks_ok_add_stmt:
  assumes "blocks_ok m" "add_stmt m index s = Some m'"
  shows "blocks_ok m'"
  using assms
  by (auto simp: add_stmt_eq add_stmt_result_def push_stmt_def blocks_ok_def targets_ok_def list_all_length
      nth_list_update split: if_splits)

lemma method_inv_add_stmts:
  "add_stmts m index ss = Some m' \<Longrightarrow> method_inv m \<Longrightarrow> method_inv m'"
  by (induction ss arbitrary: m)
     (auto simp: method_inv_def split: option.splits dest: names_ok_add_stmt blocks_ok_add_stmt)

lemma method_inv_add_block:
  assumes "add_block m l [] = Some (b, m')" "method_inv m"
  shows "method_inv m'"
proof -
  have l: "l \<notin> set (cm_basic_blocks_labels m)" "l \<noteq> RETURN_LABEL" and
    m': "m' = m\<lparr>cm_basic_blocks_labels := cm_basic_blocks_labels m @ [l],
      cm_basic_blocks := cm_basic_blocks m @ [\<lparr>cb_stmts = [], cb_successor = SuccUndefined\<rparr>]\<rparr>"
    using assms(1) by (simp_all add: add_block_def list_all_iff split: if_splits) blast
  have "method_labels m' = method_labels m" by (simp add: m' method_labels_def)
  then have "names_ok m'" using assms(2) m' by (simp add: method_inv_def names_ok_def get_all_vars_def)
  moreover have "blocks_ok m'"
    using assms(2) l
    by (auto simp: m' method_inv_def blocks_ok_def targets_ok_def list_all_iff intro: less_SucI)
  ultimately show ?thesis by (simp add: method_inv_def)
qed

lemma method_labels_set_successor:
  "i < length bs \<Longrightarrow> map (\<lambda>b. concat (map gather_labels (cb_stmts b))) (bs[i := (bs ! i)\<lparr>cb_successor := s\<rparr>]) =
     map (\<lambda>b. concat (map gather_labels (cb_stmts b))) bs"
  by (rule nth_equalityI) (auto simp: nth_list_update)

lemma method_inv_set_successor:
  assumes "set_successor m b s = Some m'" "targets_ok m s" "method_inv m"
  shows "method_inv m'"
proof -
  have b: "bi_index b < length (cm_basic_blocks m)" and
    m': "m' = m\<lparr>cm_basic_blocks := (cm_basic_blocks m)
             [bi_index b := (cm_basic_blocks m ! bi_index b)\<lparr>cb_successor := s\<rparr>]\<rparr>"
    using assms(1) by (auto simp: set_successor_def split: if_splits)
  have "method_labels m' = method_labels m"
    unfolding method_labels_def m' by (simp add: method_labels_set_successor b)
  then have "names_ok m'" using assms(3) m' by (simp add: method_inv_def names_ok_def get_all_vars_def)
  moreover have "blocks_ok m'"
    using assms(2,3) m' b
    by (auto simp: method_inv_def blocks_ok_def targets_ok_def list_all_length nth_list_update)
  ultimately show ?thesis by (simp add: method_inv_def)
qed

lemma method_inv_new_var:
  assumes "is_fresh_local_name m n" "method_inv m"
  shows "method_inv (m\<lparr>cm_local_vars := cm_local_vars m @ [local_var_new n t]\<rparr>)"
    and "method_inv (m\<lparr>cm_formal_returns := cm_formal_returns m @ [local_var_new n t]\<rparr>)"
  using assms
  by (auto simp: method_inv_def names_ok_def blocks_ok_def targets_ok_def method_labels_def get_all_vars_def
      is_fresh_local_name_def local_var_new_def list_all_iff)

lemma method_inv_counters:
  "method_inv (m\<lparr>cm_fresh_var_index := i\<rparr>) = method_inv m"
  "method_inv (m\<lparr>cm_fresh_label_index := i\<rparr>) = method_inv m"
  by (auto simp: method_inv_def names_ok_def blocks_ok_def targets_ok_def method_labels_def get_all_vars_def)

lemma fresh_loop_result: "fresh_loop m p i = Some r \<Longrightarrow> \<not> is_taken m (fst r)"
  by (erule fresh_loop.raw_induct [rotated]) (auto simp: Let_def split: if_splits)

lemma method_step_inv: "method_step m m' \<Longrightarrow> method_inv m \<Longrightarrow> method_inv m'"
proof (induction rule: method_step.induct)
  case (step_fresh_var m t v m')
  then obtain n j where "fresh_loop m ''__t'' (cm_fresh_var_index m) = Some (n, j)"
    and m': "m' = m\<lparr>cm_fresh_var_index := j, cm_local_vars := cm_local_vars m @ [local_var_new n t]\<rparr>"
    by (auto simp: add_fresh_local_var_def generate_fresh_local_var_name_def Let_def split: option.splits)
  then have "is_fresh_local_name (m\<lparr>cm_fresh_var_index := j\<rparr>) n"
    using fresh_loop_result by (fastforce simp: is_taken_def is_fresh_local_name_def)
  then show ?case
    using method_inv_new_var(1) [of "m\<lparr>cm_fresh_var_index := j\<rparr>" n t] step_fresh_var(2) m'
    by (simp add: method_inv_counters)
next
  case (step_local_var m n t m')
  then show ?case using method_inv_new_var(1) by (auto simp: add_local_var_def split: if_splits)
next
  case (step_return m n t m')
  then show ?case using method_inv_new_var(2) by (auto simp: add_formal_return_def split: if_splits)
qed (auto simp: get_fresh_label_name_def method_inv_counters
    intro: method_inv_add_stmts method_inv_add_block method_inv_set_successor)


subsection \<open>The graph of a method\<close>

definition cfg_edges :: "cfg_method \<Rightarrow> (nat \<times> nat) set" where
  "cfg_edges m = {(i, bi_index t) | i t. i < length (cm_basic_blocks m) \<and>
     t \<in> set (get_following (cb_successor (cm_basic_blocks m ! i)))}"

definition cfg_wf :: "cfg_method \<Rightarrow> bool" where
  "cfg_wf m \<longleftrightarrow> list_all (\<lambda>b. targets_ok m (cb_successor b)) (cm_basic_blocks m)"

lemma length_cfg_adj [simp]: "length (cfg_adj m) = length (cm_basic_blocks m)"
  by (simp add: cfg_adj_def)

lemma adj_edges_cfg: "adj_edges (cfg_adj m) = cfg_edges m"
  by (auto simp: adj_edges_def cfg_edges_def cfg_adj_def)

lemma adj_wf_cfg: "cfg_wf m \<Longrightarrow> adj_wf (cfg_adj m)"
  by (auto simp: adj_wf_def cfg_wf_def cfg_adj_def targets_ok_def list_all_iff)

lemma built_cfg_wf: "method_inv m \<Longrightarrow> cfg_wf m"
  by (simp add: method_inv_def blocks_ok_def cfg_wf_def)

text \<open>
  C22 On a method whose successors lead to its own blocks, \<open>has_loops\<close> does not panic and decides
  exactly whether the control-flow graph has a cycle.
\<close>

theorem has_loops_exact:
  assumes "cfg_wf m"
  shows "has_loops m = Some (\<not> acyclic (cfg_edges m))"
  unfolding has_loops_def graph_has_loops_spec [OF adj_wf_cfg [OF assms]] adj_edges_cfg ..

text \<open>
  C23 On a method with at least one block whose successors lead to its own blocks,
  \<open>get_topological_sort\<close> does not panic; it returns every block exactly once, the first block of the
  method first; and when the graph has no cycle, every edge that does not lead to the first block goes
  from an earlier to a later position.
\<close>

theorem topological_sort_correct:
  assumes "cfg_wf m" "cm_basic_blocks m \<noteq> []"
  shows "\<exists>order. get_topological_sort m = Some (map (block_index m) order) \<and>
    hd order = 0 \<and> distinct order \<and> set order = {..<length (cm_basic_blocks m)} \<and>
    (acyclic (cfg_edges m) \<longrightarrow>
       (\<forall>i < length order. \<forall>j < length order.
          (order ! i, order ! j) \<in> cfg_edges m \<longrightarrow> order ! j \<noteq> 0 \<longrightarrow> i < j))"
proof -
  have "cfg_adj m \<noteq> []" using assms(2) by (simp add: cfg_adj_def)
  from graph_topological_sort_spec [OF adj_wf_cfg [OF assms(1)] this]
  obtain ord where ord: "graph_topological_sort (cfg_adj m) = Some (0 # ord)" "distinct (0 # ord)"
    "set (0 # ord) = {..<length (cm_basic_blocks m)}"
    "acyclic (cfg_edges m) \<longrightarrow> topo_ordered (cfg_adj m) {0} (rev ord)"
    by (auto simp: adj_edges_cfg)
  show ?thesis
    using ord topo_forward [of "cfg_adj m" ord]
    by (intro exI [of _ "0 # ord"]) (auto simp: get_topological_sort_def adj_edges_cfg simp del: nth_Cons_Suc)
qed

lemma step_block_in:
  assumes "(i, j) \<in> cfg_edges m"
  shows "bi_index (step_block m i j) = j"
    and "step_block m i j \<in> set (get_following (cb_successor (cm_basic_blocks m ! i)))"
  using assms
  by (auto simp: cfg_edges_def step_block_def find_None_iff find_Some_iff split: option.splits)

definition block_path :: "cfg_method \<Rightarrow> block_index list \<Rightarrow> bool" where
  "block_path m p \<longleftrightarrow> (\<forall>k. Suc k < length p \<longrightarrow> bi_index (p ! k) < length (cm_basic_blocks m) \<and>
     p ! Suc k \<in> set (get_following (cb_successor (cm_basic_blocks m ! bi_index (p ! k)))))"

lemma path_blocks_spec:
  assumes "is_path (cfg_adj m) (bi_index b) t (bi_index b # js)"
  shows "block_path m (path_blocks m b js) \<and> hd (path_blocks m b js) = b \<and>
    bi_index (last (path_blocks m b js)) = t \<and> path_blocks m b js \<noteq> []"
  using assms
proof (induction js arbitrary: b)
  case Nil
  then show ?case by (simp add: is_path_def block_path_def)
next
  case (Cons j js)
  let ?c = "step_block m (bi_index b) j"
  have edge: "(bi_index b, j) \<in> cfg_edges m" and rest: "is_path (cfg_adj m) j t (j # js)"
    using Cons.prems by (fastforce simp: is_path_def adj_edges_cfg)+
  note c = step_block_in [OF edge]
  have IH: "block_path m (path_blocks m ?c js)" "hd (path_blocks m ?c js) = ?c"
    "bi_index (last (path_blocks m ?c js)) = t" "path_blocks m ?c js \<noteq> []"
    using Cons.IH [of ?c] rest c(1) by auto
  have "block_path m (b # path_blocks m ?c js)"
    unfolding block_path_def
  proof (intro allI impI)
    fix k assume "Suc k < length (b # path_blocks m ?c js)"
    then show "bi_index ((b # path_blocks m ?c js) ! k) < length (cm_basic_blocks m) \<and>
      (b # path_blocks m ?c js) ! Suc k \<in>
        set (get_following (cb_successor (cm_basic_blocks m ! bi_index ((b # path_blocks m ?c js) ! k))))"
      using IH c edge by (cases k) (auto simp: block_path_def cfg_edges_def hd_conv_nth)
  qed
  then show ?case using IH by simp
qed

text \<open>
  C24 On a method whose successors lead to its own blocks, \<open>find_path\<close> from one of its blocks does not
  panic and is complete: it returns a path exactly when the end is reachable.  A returned path starts
  with the start block, ends with the index of the end block, and each block in it is one of the
  successors of the block before it.
\<close>

theorem find_path_correct:
  assumes "cfg_wf m" "bi_index a < length (cm_basic_blocks m)"
  shows "\<exists>r. find_path m a b = Some r \<and>
    (r \<noteq> None \<longleftrightarrow> (bi_index a, bi_index b) \<in> (cfg_edges m)\<^sup>*) \<and>
    (\<forall>p. r = Some p \<longrightarrow> p \<noteq> [] \<and> hd p = a \<and> bi_index (last p) = bi_index b \<and> block_path m p)"
proof (cases "weak_eq a b")
  case True
  then show ?thesis by (auto simp: find_path_def weak_eq_def block_path_def)
next
  case False
  have "bi_index a < length (cfg_adj m)" using assms(2) by simp
  from graph_find_path_spec [OF adj_wf_cfg [OF assms(1)] this, of "bi_index b"]
  consider (found) p where "graph_find_path (cfg_adj m) (bi_index a) (bi_index b) = Some (Some p)"
      "is_path (cfg_adj m) (bi_index a) (bi_index b) p" "(bi_index a, bi_index b) \<in> (cfg_edges m)\<^sup>*"
    | (none) "graph_find_path (cfg_adj m) (bi_index a) (bi_index b) = Some None"
      "(bi_index a, bi_index b) \<notin> (cfg_edges m)\<^sup>*"
    by (auto simp: adj_edges_cfg)
  then show ?thesis
  proof cases
    case found
    have "p = bi_index a # tl p" using found(2) by (cases p) (auto simp: is_path_def)
    then show ?thesis
      using found False path_blocks_spec [of m a "bi_index b" "tl p"] by (auto simp: find_path_def)
  next
    case none
    then show ?thesis using False by (auto simp: find_path_def)
  qed
qed

lemma add_predecessors_eq:
  "add_predecessors i ss r j =
     (let n = count_list (map bi_index ss) j
      in if n = 0 then r j
         else Some ((case r j of Some ps \<Rightarrow> ps | None \<Rightarrow> []) @ replicate n i))"
  by (induction ss arbitrary: r) (auto simp: Let_def replicate_app_Cons_same)

definition edge_sources :: "cfg_method \<Rightarrow> nat \<Rightarrow> nat list" where
  "edge_sources m j = concat (map (\<lambda>i.
     replicate (count_list (map bi_index (get_following (cb_successor (cm_basic_blocks m ! i)))) j) i)
     [0..<length (cm_basic_blocks m)])"

lemma predecessors_from_eq:
  "predecessors_from k bs r j =
     (let ps = concat (map (\<lambda>i.
        replicate (count_list (map bi_index (get_following (cb_successor (bs ! i)))) j) (k + i))
        [0..<length bs])
      in if ps = [] then r j else Some ((case r j of Some qs \<Rightarrow> qs | None \<Rightarrow> []) @ ps))"
proof (induction bs arbitrary: k r)
  case (Cons b bs)
  have "[0..<length (b # bs)] = 0 # map Suc [0..<length bs]" by (simp add: upt_conv_Cons map_Suc_upt del: upt_Suc)
  then show ?case
    by (simp add: Cons.IH add_predecessors_eq Let_def comp_def split: option.splits del: upt_Suc)
qed simp

lemma predecessors_eq:
  "predecessors m j = (if edge_sources m j = [] then None else Some (edge_sources m j))"
  by (simp add: predecessors_def predecessors_from_eq edge_sources_def Let_def)

lemma edge_sources_set: "set (edge_sources m j) = {i. (i, j) \<in> cfg_edges m}"
  by (auto simp: edge_sources_def cfg_edges_def count_list_0_iff)

lemma sorted_concat_replicate:
  "sorted is \<Longrightarrow> sorted (concat (map (\<lambda>i. replicate (f i) i) is))"
  by (induction "is") (auto simp: sorted_append)

lemma edge_sources_sorted: "sorted (edge_sources m j)"
  unfolding edge_sources_def by (rule sorted_concat_replicate) simp

lemma own_target:
  assumes "cfg_wf m" "i < length (cm_basic_blocks m)"
    "t \<in> set (get_following (cb_successor (cm_basic_blocks m ! i)))"
  shows "t = \<lparr>bi_method_uuid = cm_uuid m, bi_index = bi_index t\<rparr>"
proof (rule block_index.equality)
  show "bi_method_uuid t = bi_method_uuid \<lparr>bi_method_uuid = cm_uuid m, bi_index = bi_index t\<rparr>"
    using assms by (fastforce simp: cfg_wf_def targets_ok_def list_all_length in_set_conv_nth)
qed simp_all

text \<open>
  \<open>predecessors\<close> has an entry for a block exactly when some edge leads to it, and the entry lists
  the source of every such edge, in block order and once per edge; \<open>get_preceding\<close> returns, for an index
  of this method, the blocks one of whose successors is this very index, in block order and without
  repetition, so that on a method whose targets are its own the two name the same blocks.
\<close>

theorem predecessors_exact:
  assumes "cfg_wf m"
  shows "predecessors m j = (if edge_sources m j = [] then None else Some (edge_sources m j)) \<and>
    set (edge_sources m j) = {i. (i, j) \<in> cfg_edges m} \<and> sorted (edge_sources m j) \<and>
    (\<exists>is. get_preceding m (block_index m j) = Some (map (block_index m) is) \<and>
       sorted is \<and> distinct is \<and> set is = {i. (i, j) \<in> cfg_edges m})"
proof (intro conjI)
  have "block_index m j \<in> set (get_following (cb_successor (cm_basic_blocks m ! i))) \<longleftrightarrow>
      (i, j) \<in> cfg_edges m" if "i < length (cm_basic_blocks m)" for i
    using that own_target [OF assms that] by (auto simp: cfg_edges_def block_index_def)
  then show "\<exists>is. get_preceding m (block_index m j) = Some (map (block_index m) is) \<and>
       sorted is \<and> distinct is \<and> set is = {i. (i, j) \<in> cfg_edges m}"
    by (auto simp: get_preceding_def block_index_def cfg_edges_def intro!: exI sorted_wrt_filter)
qed (rule predecessors_eq edge_sources_set edge_sources_sorted)+

subsection \<open>Examples\<close>

definition ex_block :: "successor \<Rightarrow> cfg_block" where
  "ex_block s = \<lparr>cb_stmts = [], cb_successor = s\<rparr>"

definition ex_method :: cfg_method where
  "ex_method = (cfg_new 7 ''m'' 0 [] [] [''l0''])\<lparr>
     cm_labels := {''l1''},
     cm_basic_blocks := map ex_block
       [SuccGotoSwitch [(from_bool True, \<lparr>bi_method_uuid = 7, bi_index = 2\<rparr>)] \<lparr>bi_method_uuid = 7, bi_index = 1\<rparr>,
        SuccGoto \<lparr>bi_method_uuid = 7, bi_index = 2\<rparr>, SuccReturn],
     cm_basic_blocks_labels := [''start'', ''a'', ''b'']\<rparr>"

lemma ex_method_wf: "cfg_wf ex_method" "length (cm_basic_blocks ex_method) = 3"
  by (simp_all add: ex_method_def cfg_wf_def targets_ok_def ex_block_def cfg_new_def)

lemma ex_method_used: "used_names ex_method = {''l0'', ''l1'', ''start'', ''a'', ''b''}"
  by (auto simp: ex_method_def used_names_def cfg_new_def)

text \<open>On the example: \<open>l0\<close> is reserved and \<open>l1\<close> is a label, and the generators still find names.\<close>

theorem fresh_names_total_witness:
  "\<exists>l i. get_fresh_label_name ex_method = Some (l, ex_method\<lparr>cm_fresh_label_index := i\<rparr>) \<and>
     l \<notin> {''l0'', ''l1'', ''start'', ''a'', ''b''}"
  using fresh_names_total [of ex_method] by (simp add: ex_method_used card_insert_if)

text \<open>A method with a variable, a block and a labelled statement.\<close>

definition ex_built :: cfg_method where
  "ex_built = \<lparr>cm_uuid = 7, cm_method_name = ''m'', cm_formal_arg_count = 0, cm_formal_returns = [],
     cm_local_vars = [local_var_new ''x'' TInt], cm_labels = {''here''}, cm_reserved_labels = {},
     cm_basic_blocks = [\<lparr>cb_stmts = [SLabel ''here''], cb_successor = SuccUndefined\<rparr>],
     cm_basic_blocks_labels = [''start''], cm_fresh_var_index = 0, cm_fresh_label_index = 0\<rparr>"

lemma ex_built_built: "built ex_built"
proof -
  let ?m0 = "cfg_new 7 ''m'' 0 [] [] []"
  let ?m1 = "?m0\<lparr>cm_local_vars := [local_var_new ''x'' TInt]\<rparr>"
  let ?m2 = "?m1\<lparr>cm_basic_blocks_labels := [''start''], cm_basic_blocks := [ex_block SuccUndefined]\<rparr>"
  have "built ?m0" by (rule built_new) simp
  moreover have "method_step ?m0 ?m1"
    by (rule step_local_var [of _ "''x''" TInt])
      (simp add: add_local_var_def is_fresh_local_name_def cfg_new_def)
  moreover have "method_step ?m1 ?m2"
    by (rule step_block [of _ "''start''" "block_index ?m1 0"])
      (simp add: add_block_def cfg_new_def block_index_def ex_block_def RETURN_LABEL_def
        char_is_alphabetic_def char_is_alphanumeric_def)
  moreover have "method_step ?m2 ex_built"
    by (rule step_stmts [of _ "block_index ?m2 0" "[SLabel ''here'']"])
      (simp add: add_stmt_def cfg_new_def block_index_def ex_block_def gather_labels_def
        is_fresh_local_name_def local_var_new_def push_stmt_def ex_built_def)
  ultimately show ?thesis by (blast intro: built_step)
qed


theorem has_loops_exact_witness: "has_loops ex_method = Some (\<not> acyclic (cfg_edges ex_method))"
  by (rule has_loops_exact [OF ex_method_wf(1)])

theorem topological_sort_correct_witness:
  "\<exists>order. get_topological_sort ex_method = Some (map (block_index ex_method) order) \<and>
     hd order = 0 \<and> distinct order \<and> set order = {..<3}"
  using topological_sort_correct [OF ex_method_wf(1)] ex_method_wf(2) by fastforce

theorem find_path_correct_witness:
  "\<exists>r. find_path ex_method (block_index ex_method 0) (block_index ex_method 2) = Some r \<and>
     (r \<noteq> None \<longleftrightarrow> (0, 2) \<in> (cfg_edges ex_method)\<^sup>*)"
  using find_path_correct [OF ex_method_wf(1), of "block_index ex_method 0" "block_index ex_method 2"]
    ex_method_wf(2) by (auto simp: block_index_def)

theorem predecessors_exact_witness:
  "set (edge_sources ex_method 2) = {i. (i, 2) \<in> cfg_edges ex_method} \<and>
   (\<exists>is. get_preceding ex_method (block_index ex_method 2) = Some (map (block_index ex_method) is) \<and>
     sorted is \<and> distinct is \<and> set is = {i. (i, 2) \<in> cfg_edges ex_method})"
  using predecessors_exact [OF ex_method_wf(1), of 2] by blast

end
