(* ===== verification/Opt_Cfg_Cleaner.thy ===== *)
theory Opt_Cfg_Cleaner
  imports Vir_Cfg
begin

section \<open>Merging of basic blocks\<close>

text \<open>
  \<^verbatim>\<open>optimizations/methods/cfg_cleaner.rs\<close>.  The map from indices to the blocks that are still to be placed
  is a list of optional blocks (\<open>remove\<close> leaves \<open>None\<close> behind), \<open>new_indices\<close> is a map.  \<open>None\<close> is a
  panic: a failed assertion, an \<open>unwrap\<close> of nothing or a missing key.  The correctness of the pass is
  stated with the traces of a method: the statements executed and the branches taken from a block on.
\<close>

subsection \<open>The pass\<close>

definition take_block :: "cfg_block option list \<Rightarrow> nat \<Rightarrow> cfg_block option" where
  "take_block bbs i = (if i < length bbs then bbs ! i else None)"

definition present :: "cfg_block option list \<Rightarrow> nat" where
  "present bbs = length (filter (\<lambda>b. b \<noteq> None) bbs)"

lemma present_update:
  assumes "take_block bbs i = Some b"
  shows "present bbs = Suc (present (bbs[i := None]))"
proof -
  have i: "i < length bbs" "bbs ! i = Some b" using assms by (auto simp: take_block_def split: if_splits)
  have "present bbs = present (take i bbs @ bbs ! i # drop (Suc i) bbs)"
    using id_take_nth_drop [OF i(1)] by simp
  then show ?thesis using i by (simp add: present_def upd_conv_take_nth_drop)
qed

function merge_chain ::
  "(nat \<rightharpoonup> nat list) \<Rightarrow> nat \<Rightarrow> cfg_block \<Rightarrow> cfg_block option list \<Rightarrow> (nat \<rightharpoonup> nat) \<Rightarrow>
     (cfg_block \<times> cfg_block option list \<times> (nat \<rightharpoonup> nat)) option" where
  "merge_chain preds new_index basic_block bbs new_indices =
     (case cb_successor basic_block of
        SuccGoto target \<Rightarrow>
          (case preds (bi_index target) of
             None \<Rightarrow> None
           | Some ps \<Rightarrow>
               if length ps = 1 then
                 (if new_indices (bi_index target) \<noteq> None then None
                  else case take_block bbs (bi_index target) of
                         None \<Rightarrow> None
                       | Some target_block \<Rightarrow>
                           merge_chain preds new_index
                             \<lparr>cb_stmts = cb_stmts basic_block @ cb_stmts target_block,
                              cb_successor = cb_successor target_block\<rparr>
                             (bbs[bi_index target := None]) (new_indices(bi_index target \<mapsto> new_index)))
               else Some (basic_block, bbs, new_indices))
      | _ \<Rightarrow> Some (basic_block, bbs, new_indices))"
  by pat_completeness auto
termination
  by (relation "measure (\<lambda>(preds, n, b, bbs, ni). present bbs)") (auto dest: present_update)

declare merge_chain.simps [simp del]

fun place_blocks ::
  "(nat \<rightharpoonup> nat list) \<Rightarrow> nat list \<Rightarrow> cfg_block option list \<Rightarrow> (nat \<rightharpoonup> nat) \<Rightarrow> cfg_block list \<Rightarrow>
     (cfg_block list \<times> (nat \<rightharpoonup> nat)) option" where
  "place_blocks preds [] bbs new_indices new_blocks = Some (new_blocks, new_indices)"
| "place_blocks preds (i # order) bbs new_indices new_blocks =
     (case take_block bbs i of
        None \<Rightarrow> place_blocks preds order bbs new_indices new_blocks
      | Some basic_block \<Rightarrow>
          if new_indices i \<noteq> None then None
          else case merge_chain preds (length new_blocks) basic_block (bbs[i := None])
                      (new_indices(i \<mapsto> length new_blocks)) of
                 None \<Rightarrow> None
               | Some (block, bbs', new_indices') \<Rightarrow>
                   place_blocks preds order bbs' new_indices' (new_blocks @ [block]))"

definition renumber :: "(nat \<rightharpoonup> nat) \<Rightarrow> block_index \<Rightarrow> block_index option" where
  "renumber new_indices t =
     map_option (\<lambda>i. t\<lparr>bi_index := i\<rparr>) (new_indices (bi_index t))"

definition renumber_guarded :: "(nat \<rightharpoonup> nat) \<Rightarrow> expr \<times> block_index \<Rightarrow> (expr \<times> block_index) option" where
  "renumber_guarded new_indices gt = map_option (Pair (fst gt)) (renumber new_indices (snd gt))"

fun renumber_successor :: "(nat \<rightharpoonup> nat) \<Rightarrow> successor \<Rightarrow> successor option" where
  "renumber_successor ni (SuccGoto target) = map_option SuccGoto (renumber ni target)"
| "renumber_successor ni (SuccGotoSwitch guarded default_target) =
     (case renumber ni default_target of
        None \<Rightarrow> None
      | Some d \<Rightarrow> map_option (\<lambda>gs. SuccGotoSwitch gs d) (mapO (renumber_guarded ni) guarded))"
| "renumber_successor ni s = Some s"

definition renumber_block :: "(nat \<rightharpoonup> nat) \<Rightarrow> cfg_block \<Rightarrow> cfg_block option" where
  "renumber_block ni b = map_option (\<lambda>s. b\<lparr>cb_successor := s\<rparr>) (renumber_successor ni (cb_successor b))"

definition clean_cfg :: "cfg_method \<Rightarrow> cfg_method option" where
  "clean_cfg m =
     (case get_topological_sort m of
        None \<Rightarrow> None
      | Some [] \<Rightarrow> None
      | Some (first # rest) \<Rightarrow>
          if bi_index first \<noteq> 0 then None
          else case place_blocks (predecessors m) (map bi_index (first # rest))
                      (map Some (cm_basic_blocks m)) Map.empty [] of
                 None \<Rightarrow> None
               | Some (new_basic_blocks, new_indices) \<Rightarrow>
                   map_option (\<lambda>bs. m\<lparr>cm_basic_blocks := bs\<rparr>)
                     (mapO (renumber_block new_indices) new_basic_blocks))"

subsection \<open>Traces\<close>

datatype event =
    EvStep stmt
  | EvBranch "expr list" "expr option"
  | EvReturn

text \<open>
  What can be observed of a run from a point on: the statements, for a switch the guards that were
  false and the one that was true (none for the default target), and the return.  Jumps are silent.
  A run may be observed up to any point, so the traces describe runs that do not end, too.
\<close>

inductive trace :: "cfg_method \<Rightarrow> stmt list \<Rightarrow> successor \<Rightarrow> event list \<Rightarrow> bool" for m where
  trace_stop: "trace m ss succ []"
| trace_stmt: "trace m ss succ tr \<Longrightarrow> trace m (s # ss) succ (EvStep s # tr)"
| trace_return: "trace m [] SuccReturn [EvReturn]"
| trace_goto: "bi_index t < length (cm_basic_blocks m) \<Longrightarrow> b = cm_basic_blocks m ! bi_index t \<Longrightarrow>
    trace m (cb_stmts b) (cb_successor b) tr \<Longrightarrow> trace m [] (SuccGoto t) tr"
| trace_guard: "k < length gs \<Longrightarrow> bi_index (snd (gs ! k)) < length (cm_basic_blocks m) \<Longrightarrow>
    b = cm_basic_blocks m ! bi_index (snd (gs ! k)) \<Longrightarrow> trace m (cb_stmts b) (cb_successor b) tr \<Longrightarrow>
    trace m [] (SuccGotoSwitch gs d) (EvBranch (map fst (take k gs)) (Some (fst (gs ! k))) # tr)"
| trace_default: "bi_index d < length (cm_basic_blocks m) \<Longrightarrow> b = cm_basic_blocks m ! bi_index d \<Longrightarrow>
    trace m (cb_stmts b) (cb_successor b) tr \<Longrightarrow>
    trace m [] (SuccGotoSwitch gs d) (EvBranch (map fst gs) None # tr)"

definition method_traces :: "cfg_method \<Rightarrow> event list set" where
  "method_traces m = {tr. cm_basic_blocks m \<noteq> [] \<and>
     trace m (cb_stmts (cm_basic_blocks m ! 0)) (cb_successor (cm_basic_blocks m ! 0)) tr}"

inductive_simps trace_goto_simp: "trace m [] (SuccGoto t) tr"
inductive_simps trace_Cons_simp: "trace m (s # ss) succ tr"

lemma trace_inline_goto:
  assumes "bi_index t < length (cm_basic_blocks m)" "b = cm_basic_blocks m ! bi_index t"
  shows "trace m (ss @ cb_stmts b) (cb_successor b) tr \<longleftrightarrow> trace m ss (SuccGoto t) tr"
proof (induction ss arbitrary: tr)
  case Nil
  show ?case using assms by (auto simp: trace_goto_simp intro: trace_stop)
next
  case (Cons s ss)
  then show ?case by (simp add: trace_Cons_simp)
qed

subsection \<open>Chains of blocks\<close>

text \<open>
  The pass groups the old blocks into chains.  In a chain, each block but the last jumps to the next one,
  to which no other edge leads.
\<close>

definition goto_chain :: "cfg_method \<Rightarrow> nat list \<Rightarrow> bool" where
  "goto_chain m c \<longleftrightarrow> c \<noteq> [] \<and> (\<forall>i \<in> set c. i < length (cm_basic_blocks m)) \<and>
     (\<forall>k. Suc k < length c \<longrightarrow> (\<exists>t. cb_successor (cm_basic_blocks m ! (c ! k)) = SuccGoto t \<and>
        bi_index t = c ! Suc k \<and> length (edge_sources m (c ! Suc k)) = 1))"

definition merged :: "cfg_method \<Rightarrow> nat list \<Rightarrow> cfg_block" where
  "merged m c =
     \<lparr>cb_stmts = concat (map (\<lambda>i. cb_stmts (cm_basic_blocks m ! i)) c),
      cb_successor = cb_successor (cm_basic_blocks m ! last c)\<rparr>"

lemma goto_chain_snoc:
  assumes "goto_chain m c" "cb_successor (cm_basic_blocks m ! last c) = SuccGoto t"
    "bi_index t < length (cm_basic_blocks m)" "length (edge_sources m (bi_index t)) = 1"
  shows "goto_chain m (c @ [bi_index t])"
proof -
  have "\<exists>t'. cb_successor (cm_basic_blocks m ! ((c @ [bi_index t]) ! k)) = SuccGoto t' \<and>
      bi_index t' = (c @ [bi_index t]) ! Suc k \<and> length (edge_sources m ((c @ [bi_index t]) ! Suc k)) = 1"
    if "Suc k < length (c @ [bi_index t])" for k
  proof (cases "Suc k < length c")
    case True
    then show ?thesis using assms(1) by (auto simp: goto_chain_def nth_append)
  next
    case False
    then have "k = length c - 1" "c \<noteq> []" using that by auto
    then show ?thesis using assms by (auto simp: nth_append last_conv_nth)
  qed
  then show ?thesis using assms(1,3) unfolding goto_chain_def by auto
qed

lemma goto_chain_Cons:
  assumes "goto_chain m (a # b # c)"
  shows "goto_chain m (b # c) \<and> (\<exists>t. cb_successor (cm_basic_blocks m ! a) = SuccGoto t \<and> bi_index t = b)"
  using assms unfolding goto_chain_def by fastforce

lemma goto_chain_tl: "goto_chain m (pre @ a # c) \<Longrightarrow> goto_chain m (a # c)"
proof (induction pre)
  case (Cons x pre)
  then show ?case by (cases pre) (auto dest: goto_chain_Cons)
qed simp

lemma merged_snoc:
  "c \<noteq> [] \<Longrightarrow> merged m (c @ [i]) =
     \<lparr>cb_stmts = cb_stmts (merged m c) @ cb_stmts (cm_basic_blocks m ! i),
      cb_successor = cb_successor (cm_basic_blocks m ! i)\<rparr>"
  by (simp add: merged_def)

lemma predecessors_edge:
  assumes "i < length (cm_basic_blocks m)" "cb_successor (cm_basic_blocks m ! i) = SuccGoto t"
  shows "predecessors m (bi_index t) = Some (edge_sources m (bi_index t))"
    and "i \<in> set (edge_sources m (bi_index t))" and "(i, bi_index t) \<in> cfg_edges m"
proof -
  show e: "(i, bi_index t) \<in> cfg_edges m" using assms by (force simp: cfg_edges_def)
  then show s: "i \<in> set (edge_sources m (bi_index t))" by (simp add: edge_sources_set)
  then show "predecessors m (bi_index t) = Some (edge_sources m (bi_index t))"
    by (auto simp: predecessors_eq)
qed

lemma merge_chain_spec:
  assumes "merge_chain (predecessors m) k b bbs ni = Some (b', bbs', ni')"
    and "cfg_wf m" "goto_chain m c" "b = merged m c"
    and "length bbs = length (cm_basic_blocks m)"
    and "\<forall>i < length bbs. bbs ! i = None \<or> bbs ! i = Some (cm_basic_blocks m ! i)"
  shows "\<exists>d. b' = merged m (c @ d) \<and> goto_chain m (c @ d) \<and> distinct d \<and>
    (\<forall>i \<in> set d. i < length bbs \<and> bbs ! i \<noteq> None \<and> ni i = None) \<and>
    length bbs' = length bbs \<and>
    (\<forall>i < length bbs. bbs' ! i = (if i \<in> set d then None else bbs ! i)) \<and>
    (\<forall>i. ni' i = (if i \<in> set d then Some k else ni i))"
  using assms
proof (induction "predecessors m" k b bbs ni arbitrary: c rule: merge_chain.induct)
  case (1 k b bbs ni)
  have c: "c \<noteq> []" "last c < length (cm_basic_blocks m)"
    using 1(4) by (auto simp: goto_chain_def)
  show ?case
  proof (cases "\<exists>t. cb_successor b = SuccGoto t \<and> length (edge_sources m (bi_index t)) = 1")
    case False
    then have "b' = b \<and> bbs' = bbs \<and> ni' = ni"
      using 1(2,5) c predecessors_edge(1) [OF c(2)]
      by (subst (asm) merge_chain.simps) (auto simp: merged_def split: successor.splits)
    then show ?thesis using 1(4,5) by (intro exI [of _ "[]"]) auto
  next
    case True
    then obtain t where t: "cb_successor b = SuccGoto t" "length (edge_sources m (bi_index t)) = 1"
      by blast
    then have succ: "cb_successor (cm_basic_blocks m ! last c) = SuccGoto t"
      using 1(5) by (simp add: merged_def)
    note pe = predecessors_edge [OF c(2) succ]
    obtain tb where tb: "ni (bi_index t) = None" "take_block bbs (bi_index t) = Some tb" and
      rec: "merge_chain (predecessors m) k
         \<lparr>cb_stmts = cb_stmts b @ cb_stmts tb, cb_successor = cb_successor tb\<rparr>
         (bbs[bi_index t := None]) (ni(bi_index t \<mapsto> k)) = Some (b', bbs', ni')"
      using 1(2) t pe(1)
      by (subst (asm) merge_chain.simps) (auto split: if_splits option.splits)
    have ti: "bi_index t < length bbs" "bbs ! bi_index t = Some tb" "tb = cm_basic_blocks m ! bi_index t"
      using tb(2) 1(7) by (auto simp: take_block_def split: if_splits)
    have "\<exists>d. b' = merged m ((c @ [bi_index t]) @ d) \<and> goto_chain m ((c @ [bi_index t]) @ d) \<and> distinct d \<and>
      (\<forall>i \<in> set d. i < length (bbs[bi_index t := None]) \<and> bbs[bi_index t := None] ! i \<noteq> None \<and>
         (ni(bi_index t \<mapsto> k)) i = None) \<and>
      length bbs' = length (bbs[bi_index t := None]) \<and>
      (\<forall>i < length (bbs[bi_index t := None]).
         bbs' ! i = (if i \<in> set d then None else bbs[bi_index t := None] ! i)) \<and>
      (\<forall>i. ni' i = (if i \<in> set d then Some k else (ni(bi_index t \<mapsto> k)) i))"
    proof (rule 1(1) [OF t(1) pe(1) t(2) _ tb(2) rec 1(3)])
      show "goto_chain m (c @ [bi_index t])"
        using goto_chain_snoc [OF 1(4) succ _ t(2)] ti(1) 1(6) by simp
      show "\<lparr>cb_stmts = cb_stmts b @ cb_stmts tb, cb_successor = cb_successor tb\<rparr> =
          merged m (c @ [bi_index t])" using merged_snoc [OF c(1)] ti(3) 1(5) by simp
    qed (use tb(1) ti(1) 1(6,7) in \<open>auto simp: nth_list_update\<close>)
    then obtain d where d: "b' = merged m ((c @ [bi_index t]) @ d)" "goto_chain m ((c @ [bi_index t]) @ d)"
      "distinct d" "\<forall>i \<in> set d. i < length bbs \<and> bbs[bi_index t := None] ! i \<noteq> None \<and>
         (ni(bi_index t \<mapsto> k)) i = None" "length bbs' = length bbs"
      "\<forall>i < length bbs. bbs' ! i = (if i \<in> set d then None else bbs[bi_index t := None] ! i)"
      "\<forall>i. ni' i = (if i \<in> set d then Some k else (ni(bi_index t \<mapsto> k)) i)"
      by auto
    have "bi_index t \<notin> set d" using d(4) by force
    then show ?thesis
      using d ti tb(1)
      by (intro exI [of _ "bi_index t # d"]) (auto simp: nth_list_update split: if_splits)
  qed
qed

text \<open>The state between two placements: the chains placed so far, and what the code keeps of them.\<close>

definition placed ::
  "cfg_method \<Rightarrow> nat list list \<Rightarrow> cfg_block option list \<Rightarrow> (nat \<rightharpoonup> nat) \<Rightarrow> cfg_block list \<Rightarrow> bool" where
  "placed m cs bbs ni new \<longleftrightarrow>
     new = map (merged m) cs \<and> (\<forall>c \<in> set cs. goto_chain m c) \<and> distinct (concat cs) \<and>
     length bbs = length (cm_basic_blocks m) \<and>
     (\<forall>i < length bbs. bbs ! i = (if i \<in> set (concat cs) then None else Some (cm_basic_blocks m ! i))) \<and>
     (\<forall>i. ni i = None \<longleftrightarrow> i \<notin> set (concat cs)) \<and>
     (\<forall>k < length cs. \<forall>i \<in> set (cs ! k). ni i = Some k)"

lemma placed_start: "placed m [] (map Some (cm_basic_blocks m)) Map.empty []"
  by (simp add: placed_def)

lemma placed_step:
  assumes "placed m cs bbs ni new" "cfg_wf m" "take_block bbs i = Some b"
    and "merge_chain (predecessors m) (length new) b (bbs[i := None]) (ni(i \<mapsto> length new)) =
      Some (blk, bbs', ni')"
  shows "\<exists>d. placed m (cs @ [i # d]) bbs' ni' (new @ [blk])"
proof -
  have i: "i < length bbs" "i \<notin> set (concat cs)" "b = cm_basic_blocks m ! i"
    using assms(1,3) by (auto simp: placed_def take_block_def split: if_splits)
  have p: "length bbs = length (cm_basic_blocks m)" "length new = length cs"
    "\<forall>j < length bbs. bbs ! j = (if j \<in> set (concat cs) then None else Some (cm_basic_blocks m ! j))"
    "\<forall>j. ni j = None \<longleftrightarrow> j \<notin> set (concat cs)" "\<forall>k < length cs. \<forall>i \<in> set (cs ! k). ni i = Some k"
    using assms(1) by (auto simp: placed_def)
  have gc: "goto_chain m [i]" "b = merged m [i]" using i p(1) by (auto simp: goto_chain_def merged_def)
  have len: "length (bbs[i := None]) = length (cm_basic_blocks m)" using p(1) by simp
  have av: "\<forall>j < length (bbs[i := None]).
      bbs[i := None] ! j = None \<or> bbs[i := None] ! j = Some (cm_basic_blocks m ! j)"
    using p(3) i(1) by (auto simp: nth_list_update)
  obtain d where d: "blk = merged m (i # d)" "goto_chain m (i # d)" "distinct d"
    "\<forall>j \<in> set d. j < length bbs \<and> bbs[i := None] ! j \<noteq> None \<and> (ni(i \<mapsto> length new)) j = None"
    "length bbs' = length bbs"
    "\<forall>j < length bbs. bbs' ! j = (if j \<in> set d then None else bbs[i := None] ! j)"
    "\<forall>j. ni' j = (if j \<in> set d then Some (length new) else (ni(i \<mapsto> length new)) j)"
    using merge_chain_spec [OF assms(4,2) gc len av] unfolding append.simps length_list_update
    by (elim exE conjE) (rule that; assumption)
  have i_new: "i \<notin> set d" using d(4) by (metis fun_upd_same option.distinct(1))
  then have "j \<notin> set (concat cs)" if "j \<in> set d" for j
    using d(4) p(4) that by (metis fun_upd_other)
  then have d_new: "i \<notin> set d" "set d \<inter> set (concat cs) = {}" using i_new by blast+
  have "\<forall>k < length (cs @ [i # d]). \<forall>j \<in> set ((cs @ [i # d]) ! k). ni' j = Some k"
  proof (intro allI impI ballI)
    fix k j assume k: "k < length (cs @ [i # d])" "j \<in> set ((cs @ [i # d]) ! k)"
    show "ni' j = Some k"
    proof (cases "k < length cs")
      case True
      then have "j \<in> set (cs ! k)" "j \<in> set (concat cs)" using k(2) by (auto simp: nth_append)
      then show ?thesis using d(7) d_new i(2) p(5) True by auto
    next
      case False
      then show ?thesis using k d(7) p(2) by (auto simp: nth_append)
    qed
  qed
  moreover have "\<forall>j < length bbs'. bbs' ! j =
      (if j \<in> set (concat (cs @ [i # d])) then None else Some (cm_basic_blocks m ! j))"
    using d(5,6) p(3) i(1) by (auto simp: nth_list_update)
  moreover have "\<forall>j. ni' j = None \<longleftrightarrow> j \<notin> set (concat (cs @ [i # d]))"
    using d(7) p(4) by auto
  moreover have "distinct (concat (cs @ [i # d]))"
    using assms(1) i(2) d(3) d_new by (auto simp: placed_def)
  ultimately show ?thesis using assms(1) d(1,2,5) p(1)
    by (intro exI [of _ d]) (simp add: placed_def)
qed

lemma place_blocks_spec:
  assumes "place_blocks (predecessors m) order bbs ni new = Some (new', ni')"
    and "placed m cs bbs ni new" "cfg_wf m" "set order \<subseteq> {..<length (cm_basic_blocks m)}"
  shows "\<exists>cs' bbs'. placed m (cs @ cs') bbs' ni' new' \<and> set order \<subseteq> set (concat (cs @ cs'))"
  using assms
proof (induction order arbitrary: cs bbs ni new)
  case Nil
  then show ?case by (intro exI [of _ "[]"] exI [of _ bbs]) simp
next
  case (Cons i order)
  show ?case
  proof (cases "take_block bbs i")
    case None
    then have "i \<in> set (concat cs)"
      using Cons.prems(2,4) by (auto simp: take_block_def placed_def split: if_splits)
    then show ?thesis using Cons.IH [OF _ Cons.prems(2,3)] Cons.prems(1,4) None by fastforce
  next
    case (Some b)
    then obtain blk bbs' ni2 where st: "merge_chain (predecessors m) (length new) b (bbs[i := None])
        (ni(i \<mapsto> length new)) = Some (blk, bbs', ni2)"
      "place_blocks (predecessors m) order bbs' ni2 (new @ [blk]) = Some (new', ni')"
      using Cons.prems(1) by (auto split: option.splits if_splits)
    obtain d where "placed m (cs @ [i # d]) bbs' ni2 (new @ [blk])"
      using placed_step [OF Cons.prems(2,3) Some st(1)] by blast
    from Cons.IH [OF st(2) this Cons.prems(3)] Cons.prems(4) obtain cs' bbs2 where
      "placed m ((cs @ [i # d]) @ cs') bbs2 ni' new'" "set order \<subseteq> set (concat ((cs @ [i # d]) @ cs'))"
      by auto
    then show ?thesis by (intro exI [of _ "(i # d) # cs'"] exI [of _ bbs2]) auto
  qed
qed

subsection \<open>The result\<close>

text \<open>What a successful run of the pass has computed.\<close>

definition cleaned :: "cfg_method \<Rightarrow> cfg_method \<Rightarrow> nat list list \<Rightarrow> (nat \<rightharpoonup> nat) \<Rightarrow> bool" where
  "cleaned m m' cs ni \<longleftrightarrow>
     (\<exists>bbs new. placed m cs bbs ni new \<and>
        mapO (renumber_block ni) new = Some (cm_basic_blocks m')) \<and>
     set (concat cs) = {..<length (cm_basic_blocks m)} \<and> cs \<noteq> [] \<and> hd (hd cs) = 0"

lemma topological_sort_order:
  assumes "cfg_wf m" "get_topological_sort m = Some bs" "bs \<noteq> []"
  shows "hd (map bi_index bs) = 0 \<and> set (map bi_index bs) = {..<length (cm_basic_blocks m)}"
proof -
  have "cfg_adj m \<noteq> []"
    using assms(2,3) by (auto simp: get_topological_sort_def graph_topological_sort_def)
  from graph_topological_sort_spec [OF adj_wf_cfg [OF assms(1)] this]
  obtain ord where ord: "graph_topological_sort (cfg_adj m) = Some (0 # ord)"
    "set (0 # ord) = {..<length (cm_basic_blocks m)}"
    by auto
  have bs: "bs = map (block_index m) (0 # ord)" using assms(2) ord(1) by (simp add: get_topological_sort_def)
  have "map bi_index bs = 0 # ord" unfolding bs by (simp add: block_index_def comp_def)
  then show ?thesis using ord(2) by simp
qed

lemma clean_cfg_cleaned:
  assumes "clean_cfg m = Some m'" "cfg_wf m"
  shows "\<exists>cs ni. cleaned m m' cs ni"
proof -
  obtain first rest new ni bs where r: "get_topological_sort m = Some (first # rest)"
    "place_blocks (predecessors m) (map bi_index (first # rest)) (map Some (cm_basic_blocks m)) Map.empty [] =
       Some (new, ni)" "mapO (renumber_block ni) new = Some bs" "m' = m\<lparr>cm_basic_blocks := bs\<rparr>"
    using assms(1)
    by (auto simp: clean_cfg_def simp del: place_blocks.simps list.map split: option.splits list.splits if_splits)
  note order = topological_sort_order [OF assms(2) r(1) list.distinct(2)]
  have 0: "bi_index first = 0" using order by simp
  moreover have "bi_index first \<in> {..<length (cm_basic_blocks m)}" using order by (metis list.set_intros(1) list.map(2))
  ultimately have tb: "take_block (map Some (cm_basic_blocks m)) (bi_index first) = Some (cm_basic_blocks m ! 0)"
    by (simp add: take_block_def)
  then obtain blk bbs1 ni1 where st: "merge_chain (predecessors m) (length ([] :: cfg_block list)) (cm_basic_blocks m ! 0)
      ((map Some (cm_basic_blocks m))[bi_index first := None]) (Map.empty(bi_index first \<mapsto> length ([] :: cfg_block list))) =
        Some (blk, bbs1, ni1)"
    "place_blocks (predecessors m) (map bi_index rest) bbs1 ni1 [blk] = Some (new, ni)"
    using r(2) by (simp split: option.splits if_splits prod.splits)
  obtain d where "placed m ([] @ [bi_index first # d]) bbs1 ni1 ([] @ [blk])"
    using placed_step [OF placed_start assms(2) tb st(1)] by blast
  then have "placed m [0 # d] bbs1 ni1 [blk]" using 0 by simp
  moreover have "set (map bi_index rest) \<subseteq> {..<length (cm_basic_blocks m)}" using order by auto
  ultimately obtain cs' bbs' where
    p: "placed m ([0 # d] @ cs') bbs' ni new" "set (map bi_index rest) \<subseteq> set (concat ([0 # d] @ cs'))"
    using place_blocks_spec [OF st(2) _ assms(2)] by blast
  have "set (concat ([0 # d] @ cs')) \<subseteq> {..<length (cm_basic_blocks m)}"
    using p(1) unfolding placed_def goto_chain_def set_concat by blast
  moreover have "set (map bi_index (first # rest)) \<subseteq> set (concat ([0 # d] @ cs'))"
    using p(2) 0 by simp
  ultimately have "set (concat ([0 # d] @ cs')) = {..<length (cm_basic_blocks m)}"
    using order by blast
  moreover have "mapO (renumber_block ni) new = Some (cm_basic_blocks m')" using r(3,4) by simp
  ultimately have "cleaned m m' ([0 # d] @ cs') ni"
    unfolding cleaned_def using p(1) by (metis append_Cons list.sel(1) list.distinct(1))
  then show ?thesis by blast
qed

lemma cleaned_block:
  assumes "cleaned m m' cs ni" "k < length cs"
  shows "length (cm_basic_blocks m') = length cs"
    and "goto_chain m (cs ! k)" and "distinct (cs ! k)"
    and "cb_stmts (cm_basic_blocks m' ! k) = concat (map (\<lambda>i. cb_stmts (cm_basic_blocks m ! i)) (cs ! k))"
    and "renumber_successor ni (cb_successor (cm_basic_blocks m ! last (cs ! k))) =
      Some (cb_successor (cm_basic_blocks m' ! k))"
    and "i \<in> set (cs ! k) \<Longrightarrow> ni i = Some k"
proof -
  obtain bbs where p: "placed m cs bbs ni (map (merged m) cs)"
    "mapO (renumber_block ni) (map (merged m) cs) = Some (cm_basic_blocks m')"
    using assms(1) unfolding cleaned_def placed_def by blast
  show len: "length (cm_basic_blocks m') = length cs" using mapO_length [OF p(2)] by simp
  show "goto_chain m (cs ! k)" using p(1) assms(2) by (simp add: placed_def)
  show "distinct (cs ! k)" using p(1) assms(2) by (auto simp: placed_def distinct_concat_iff)
  have "renumber_block ni (merged m (cs ! k)) = Some (cm_basic_blocks m' ! k)"
    using mapO_nth [OF p(2), of k] assms(2) by simp
  then show "cb_stmts (cm_basic_blocks m' ! k) = concat (map (\<lambda>i. cb_stmts (cm_basic_blocks m ! i)) (cs ! k))"
    and "renumber_successor ni (cb_successor (cm_basic_blocks m ! last (cs ! k))) =
      Some (cb_successor (cm_basic_blocks m' ! k))"
    by (auto simp: renumber_block_def merged_def dest!: sym [of _ "cm_basic_blocks m' ! k"])
  show "ni i = Some k" if "i \<in> set (cs ! k)" using p(1) assms(2) that by (simp add: placed_def)
qed

text \<open>An edge out of the last block of a chain leads to the first block of a chain.\<close>

lemma cleaned_target:
  assumes "cleaned m m' cs ni" "cfg_wf m" "k < length cs"
    and "t \<in> set (get_following (cb_successor (cm_basic_blocks m ! last (cs ! k))))"
  shows "\<exists>k' rest. ni (bi_index t) = Some k' \<and> k' < length cs \<and> cs ! k' = bi_index t # rest"
proof -
  let ?l = "last (cs ! k)"
  note ck = cleaned_block [OF assms(1,3)]
  have l: "?l < length (cm_basic_blocks m)" "cs ! k \<noteq> []" using ck(2) by (auto simp: goto_chain_def)
  have e: "(?l, bi_index t) \<in> cfg_edges m" using l assms(4) by (auto simp: cfg_edges_def)
  have "bi_index t < length (cm_basic_blocks m)"
    using adj_edge_range [OF adj_wf_cfg [OF assms(2)]] e by (simp add: adj_edges_cfg)
  then have "bi_index t \<in> set (concat cs)" using assms(1) by (simp add: cleaned_def)
  then obtain k' j where k': "k' < length cs" "j < length (cs ! k')" "cs ! k' ! j = bi_index t"
    by (auto simp: in_set_conv_nth)
  note ck' = cleaned_block [OF assms(1) k'(1)]
  have nit: "ni (bi_index t) = Some k'" using ck'(6) k'(2,3) by (metis nth_mem)
  show ?thesis
  proof (cases j)
    case 0
    then show ?thesis using nit k' by (cases "cs ! k'") auto
  next
    case (Suc j')
    then obtain t' where t': "cb_successor (cm_basic_blocks m ! (cs ! k' ! j')) = SuccGoto t'"
      "bi_index t' = bi_index t" "length (edge_sources m (bi_index t)) = 1"
      using ck'(2) k' by (auto simp: goto_chain_def)
    have "cs ! k' ! j' < length (cm_basic_blocks m)" using ck'(2) k'(2) Suc by (simp add: goto_chain_def)
    from predecessors_edge(2) [OF this t'(1)] have "cs ! k' ! j' \<in> set (edge_sources m (bi_index t))"
      using t'(2) by simp
    moreover have "?l \<in> set (edge_sources m (bi_index t))" using e by (simp add: edge_sources_set)
    ultimately have same: "cs ! k' ! j' = ?l"
      using t'(3) by (auto simp: length_Suc_conv)
    have "ni ?l = Some k" using ck(6) l(2) by simp
    moreover have "ni (cs ! k' ! j') = Some k'" using ck'(6) k'(2) Suc by simp
    ultimately have "k = k'" using same by simp
    then have "j' = length (cs ! k) - 1"
      using same ck(3) k'(2) l(2) Suc by (simp add: last_conv_nth nth_eq_iff_index_eq)
    then show ?thesis using k'(2) Suc \<open>k = k'\<close> by simp
  qed
qed

subsection \<open>Traces are preserved\<close>

lemma trace_chain:
  assumes "goto_chain m (a # c)"
  shows "trace m (ss @ concat (map (\<lambda>i. cb_stmts (cm_basic_blocks m ! i)) (a # c)))
      (cb_successor (cm_basic_blocks m ! last (a # c))) tr \<longleftrightarrow>
    trace m (ss @ cb_stmts (cm_basic_blocks m ! a)) (cb_successor (cm_basic_blocks m ! a)) tr"
  using assms
proof (induction c arbitrary: a ss)
  case (Cons b c)
  obtain t where t: "cb_successor (cm_basic_blocks m ! a) = SuccGoto t" "bi_index t = b"
    using goto_chain_Cons [OF Cons.prems] by blast
  have b: "bi_index t < length (cm_basic_blocks m)" using Cons.prems t(2) by (simp add: goto_chain_def)
  have "trace m ((ss @ cb_stmts (cm_basic_blocks m ! a)) @ concat (map (\<lambda>i. cb_stmts (cm_basic_blocks m ! i)) (b # c)))
      (cb_successor (cm_basic_blocks m ! last (b # c))) tr \<longleftrightarrow>
    trace m ((ss @ cb_stmts (cm_basic_blocks m ! a)) @ cb_stmts (cm_basic_blocks m ! b))
      (cb_successor (cm_basic_blocks m ! b)) tr"
    using Cons.IH goto_chain_Cons [OF Cons.prems] by blast
  also have "\<dots> \<longleftrightarrow> trace m (ss @ cb_stmts (cm_basic_blocks m ! a)) (SuccGoto t) tr"
    using trace_inline_goto [OF b refl, of "ss @ cb_stmts (cm_basic_blocks m ! a)"] t(2) by simp
  finally show ?case using t(1) by simp
qed simp

text \<open>A block that starts a chain, and the new block of the chain.\<close>

lemma trace_new_block:
  assumes "cleaned m m' cs ni" "k < length cs" "cs ! k = i # rest"
    and "trace m (cb_stmts (cm_basic_blocks m' ! k)) (cb_successor (cm_basic_blocks m ! last (cs ! k))) tr"
  shows "trace m (cb_stmts (cm_basic_blocks m ! i)) (cb_successor (cm_basic_blocks m ! i)) tr"
  using trace_chain [of m i rest "[]" tr] cleaned_block(2,4) [OF assms(1,2)] assms(3,4) by simp

lemma renumber_SomeD: "renumber ni t = Some t' \<Longrightarrow> ni (bi_index t) = Some (bi_index t')"
  by (auto simp: renumber_def)

lemma renumber_kinds:
  "renumber_successor ni s = Some (SuccGoto t') \<longleftrightarrow> (\<exists>t. s = SuccGoto t \<and> renumber ni t = Some t')"
  "renumber_successor ni s = Some SuccReturn \<longleftrightarrow> s = SuccReturn"
  by (cases s; auto split: option.splits)+

lemma renumber_switch:
  assumes "renumber_successor ni (SuccGotoSwitch gs d) = Some s'"
  obtains gs' d' where "s' = SuccGotoSwitch gs' d'" "renumber ni d = Some d'" "length gs' = length gs"
    "map fst gs' = map fst gs" "\<And>k. k < length gs \<Longrightarrow> renumber ni (snd (gs ! k)) = Some (snd (gs' ! k))"
proof -
  obtain gs' d' where s': "s' = SuccGotoSwitch gs' d'" "renumber ni d = Some d'"
    "mapO (renumber_guarded ni) gs = Some gs'"
    using assms by (auto split: option.splits)
  have len: "length gs' = length gs" using mapO_length [OF s'(3)] .
  have nth: "fst (gs' ! k) = fst (gs ! k) \<and> renumber ni (snd (gs ! k)) = Some (snd (gs' ! k))"
    if "k < length gs" for k
    using mapO_nth [OF s'(3) that] by (auto simp: renumber_guarded_def dest!: sym [of _ "gs' ! k"])
  then have "map fst gs' = map fst gs" using len by (simp add: list_eq_iff_nth_eq)
  then show ?thesis using that s' len nth by blast
qed

lemma renumber_switch_of:
  assumes "renumber_successor ni s = Some (SuccGotoSwitch gs' d')"
  obtains gs d where "s = SuccGotoSwitch gs d" "renumber ni d = Some d'" "length gs' = length gs"
    "map fst gs' = map fst gs" "\<And>k. k < length gs \<Longrightarrow> renumber ni (snd (gs ! k)) = Some (snd (gs' ! k))"
proof (cases s)
  case (SuccGotoSwitch gs d)
  then obtain gs1 d1 where r: "SuccGotoSwitch gs' d' = SuccGotoSwitch gs1 d1" "renumber ni d = Some d1"
    "length gs1 = length gs" "map fst gs1 = map fst gs"
    "\<And>k. k < length gs \<Longrightarrow> renumber ni (snd (gs ! k)) = Some (snd (gs1 ! k))"
    using assms renumber_switch [of ni gs d "SuccGotoSwitch gs' d'"] by blast
  show ?thesis
    by (rule that [OF SuccGotoSwitch]) (use r in auto)
qed (use assms in auto)

lemma new_trace_old:
  assumes "trace m' ss s' tr" "cleaned m m' cs ni" "cfg_wf m" "k < length cs"
    and "renumber_successor ni (cb_successor (cm_basic_blocks m ! last (cs ! k))) = Some s'"
  shows "trace m ss (cb_successor (cm_basic_blocks m ! last (cs ! k))) tr"
  using assms(1,4,5)
proof (induction arbitrary: k rule: trace.induct)
  case (trace_stmt ss succ tr s)
  then show ?case by (blast intro: trace.trace_stmt)
next
  case trace_return
  then show ?case by (simp add: renumber_kinds trace.trace_return)
next
  case (trace_goto t' b tr)
  let ?s = "cb_successor (cm_basic_blocks m ! last (cs ! k))"
  obtain t where t: "?s = SuccGoto t" "renumber ni t = Some t'" using trace_goto(6) by (auto simp: renumber_kinds)
  then have "t \<in> set (get_following ?s)" by simp
  from cleaned_target [OF assms(2,3) trace_goto(5) this] renumber_SomeD [OF t(2)]
  obtain rest where k': "bi_index t' < length cs" "cs ! bi_index t' = bi_index t # rest" by auto
  have "trace m (cb_stmts b) (cb_successor (cm_basic_blocks m ! last (cs ! bi_index t'))) tr"
    using trace_goto(2,4) k'(1) cleaned_block(5) [OF assms(2) k'(1)] by blast
  from trace_new_block [OF assms(2) k' this [unfolded trace_goto(2)]] show ?case
    using t(1) k' cleaned_block(2) [OF assms(2) k'(1)]
    by (auto simp: goto_chain_def intro: trace.trace_goto)
next
  case (trace_guard j gs' b tr d')
  let ?s = "cb_successor (cm_basic_blocks m ! last (cs ! k))"
  obtain gs d where s: "?s = SuccGotoSwitch gs d" "renumber ni d = Some d'" "length gs' = length gs"
    "map fst gs' = map fst gs" "\<And>j. j < length gs \<Longrightarrow> renumber ni (snd (gs ! j)) = Some (snd (gs' ! j))"
    using trace_guard(7) by (rule renumber_switch_of) blast
  let ?t = "snd (gs ! j)" and ?t' = "snd (gs' ! j)"
  have j: "j < length gs" using trace_guard(1) s(3) by simp
  then have "?t \<in> set (get_following ?s)" using s(1) by simp
  from cleaned_target [OF assms(2,3) trace_guard(6) this] renumber_SomeD [OF s(5) [OF j]]
  obtain rest where k': "bi_index ?t' < length cs" "cs ! bi_index ?t' = bi_index ?t # rest" by auto
  have "trace m (cb_stmts b) (cb_successor (cm_basic_blocks m ! last (cs ! bi_index ?t'))) tr"
    using trace_guard(3,5) k'(1) cleaned_block(5) [OF assms(2) k'(1)] by blast
  from trace_new_block [OF assms(2) k' this [unfolded trace_guard(3)]]
  have "trace m [] (SuccGotoSwitch gs d) (EvBranch (map fst (take j gs)) (Some (fst (gs ! j))) # tr)"
    using j k' cleaned_block(2) [OF assms(2) k'(1)]
    by (auto simp: goto_chain_def intro: trace.trace_guard)
  moreover have "map fst (take j gs') = map fst (take j gs)" "fst (gs' ! j) = fst (gs ! j)"
    using s(3,4) j by (metis take_map, metis nth_map)
  ultimately show ?case using s(1) by simp
next
  case (trace_default d' b tr gs')
  let ?s = "cb_successor (cm_basic_blocks m ! last (cs ! k))"
  obtain gs d where s: "?s = SuccGotoSwitch gs d" "renumber ni d = Some d'" "length gs' = length gs"
    "map fst gs' = map fst gs" "\<And>j. j < length gs \<Longrightarrow> renumber ni (snd (gs ! j)) = Some (snd (gs' ! j))"
    using trace_default(6) by (rule renumber_switch_of) blast
  then have "d \<in> set (get_following ?s)" by simp
  from cleaned_target [OF assms(2,3) trace_default(5) this] renumber_SomeD [OF s(2)]
  obtain rest where k': "bi_index d' < length cs" "cs ! bi_index d' = bi_index d # rest" by auto
  have "trace m (cb_stmts b) (cb_successor (cm_basic_blocks m ! last (cs ! bi_index d'))) tr"
    using trace_default(2,4) k'(1) cleaned_block(5) [OF assms(2) k'(1)] by blast
  from trace_new_block [OF assms(2) k' this [unfolded trace_default(2)]] show ?case
    using s k' cleaned_block(2) [OF assms(2) k'(1)]
    by (auto simp: goto_chain_def intro: trace.trace_default)
qed (rule trace.trace_stop)

lemma chain_not_goto:
  assumes "goto_chain m (pre @ a # rest)" "\<And>t. cb_successor (cm_basic_blocks m ! a) \<noteq> SuccGoto t"
  shows "rest = []"
  using goto_chain_tl [OF assms(1)] assms(2) by (cases rest) (auto dest: goto_chain_Cons)

lemma old_trace_new:
  assumes "trace m ss s tr" "cleaned m m' cs ni" "cfg_wf m" "k < length cs"
    and "cs ! k = pre @ a # rest" "s = cb_successor (cm_basic_blocks m ! a)"
  shows "trace m' (ss @ concat (map (\<lambda>i. cb_stmts (cm_basic_blocks m ! i)) rest))
    (cb_successor (cm_basic_blocks m' ! k)) tr"
  using assms(1,4-6)
proof (induction arbitrary: k pre a rest rule: trace.induct)
  case (trace_stmt ss succ tr s)
  then show ?case by (auto intro: trace.trace_stmt)
next
  case trace_return
  then have "rest = []"
    using chain_not_goto [of m pre a rest] cleaned_block(2) [OF assms(2) trace_return(1)] by simp
  then show ?case
    using trace_return cleaned_block(5) [OF assms(2) trace_return(1)] by (auto intro: trace.trace_return)
next
  case (trace_goto t b tr)
  show ?case
  proof (cases rest)
    case Nil
    have s: "cb_successor (cm_basic_blocks m ! last (cs ! k)) = SuccGoto t"
      using trace_goto(6,7) Nil by simp
    then have "t \<in> set (get_following (cb_successor (cm_basic_blocks m ! last (cs ! k))))" by simp
    from cleaned_target [OF assms(2,3) trace_goto(5) this] obtain k' r where
      k': "ni (bi_index t) = Some k'" "k' < length cs" "cs ! k' = [] @ bi_index t # r" by auto
    from trace_goto(4) [OF k'(2,3)] trace_goto(2)
    have "trace m' (cb_stmts (cm_basic_blocks m' ! k')) (cb_successor (cm_basic_blocks m' ! k')) tr"
      using cleaned_block(4) [OF assms(2) k'(2)] k'(3) by simp
    moreover have "cb_successor (cm_basic_blocks m' ! k) = SuccGoto (t\<lparr>bi_index := k'\<rparr>)"
      using cleaned_block(5) [OF assms(2) trace_goto(5)] s k'(1) by (simp add: renumber_def)
    ultimately show ?thesis
      using Nil k'(2) cleaned_block(1) [OF assms(2) k'(2)] by (simp add: trace_goto_simp)
  next
    case (Cons r rest')
    have "goto_chain m (a # r # rest')"
      using cleaned_block(2) [OF assms(2) trace_goto(5)] trace_goto(6) Cons goto_chain_tl by metis
    then have "bi_index t = r" using goto_chain_Cons trace_goto(7) by fastforce
    then show ?thesis
      using trace_goto(4) [OF trace_goto(5), of "pre @ [a]" r rest'] trace_goto(2,6) Cons by simp
  qed
next
  case (trace_guard j gs b tr d)
  have "rest = []"
    using chain_not_goto [of m pre a rest] cleaned_block(2) [OF assms(2) trace_guard(6)] trace_guard(7,8)
    by fastforce
  then have s: "cb_successor (cm_basic_blocks m ! last (cs ! k)) = SuccGotoSwitch gs d"
    using trace_guard(7,8) by simp
  have "snd (gs ! j) \<in> set (get_following (cb_successor (cm_basic_blocks m ! last (cs ! k))))"
    using s trace_guard(1) by simp
  from cleaned_target [OF assms(2,3) trace_guard(6) this] obtain k' r where
    k': "ni (bi_index (snd (gs ! j))) = Some k'" "k' < length cs" "cs ! k' = [] @ bi_index (snd (gs ! j)) # r"
    by auto
  from trace_guard(5) [OF k'(2,3)] trace_guard(3)
  have tr: "trace m' (cb_stmts (cm_basic_blocks m' ! k')) (cb_successor (cm_basic_blocks m' ! k')) tr"
    using cleaned_block(4) [OF assms(2) k'(2)] k'(3) by simp
  obtain gs' d' where s': "cb_successor (cm_basic_blocks m' ! k) = SuccGotoSwitch gs' d'"
    "renumber ni d = Some d'" "length gs' = length gs" "map fst gs' = map fst gs"
    "\<And>j. j < length gs \<Longrightarrow> renumber ni (snd (gs ! j)) = Some (snd (gs' ! j))"
    using cleaned_block(5) [OF assms(2) trace_guard(6), unfolded s] by (rule renumber_switch) blast
  have "bi_index (snd (gs' ! j)) = k'" using renumber_SomeD [OF s'(5) [OF trace_guard(1)]] k'(1) by simp
  then have "trace m' [] (SuccGotoSwitch gs' d') (EvBranch (map fst (take j gs')) (Some (fst (gs' ! j))) # tr)"
    using tr s'(3) k'(2) cleaned_block(1) [OF assms(2) k'(2)] trace_guard(1)
    by (auto intro: trace.trace_guard)
  moreover have "map fst (take j gs') = map fst (take j gs)" "fst (gs' ! j) = fst (gs ! j)"
    using s'(3,4) trace_guard(1) by (metis take_map, metis nth_map)
  ultimately show ?case using s'(1) \<open>rest = []\<close> by simp
next
  case (trace_default d b tr gs)
  have "rest = []"
    using chain_not_goto [of m pre a rest] cleaned_block(2) [OF assms(2) trace_default(5)] trace_default(6,7)
    by fastforce
  then have s: "cb_successor (cm_basic_blocks m ! last (cs ! k)) = SuccGotoSwitch gs d"
    using trace_default(6,7) by simp
  then have "d \<in> set (get_following (cb_successor (cm_basic_blocks m ! last (cs ! k))))" by simp
  from cleaned_target [OF assms(2,3) trace_default(5) this] obtain k' r where
    k': "ni (bi_index d) = Some k'" "k' < length cs" "cs ! k' = [] @ bi_index d # r" by auto
  from trace_default(4) [OF k'(2,3)] trace_default(2)
  have tr: "trace m' (cb_stmts (cm_basic_blocks m' ! k')) (cb_successor (cm_basic_blocks m' ! k')) tr"
    using cleaned_block(4) [OF assms(2) k'(2)] k'(3) by simp
  obtain gs' d' where s': "cb_successor (cm_basic_blocks m' ! k) = SuccGotoSwitch gs' d'"
    "renumber ni d = Some d'" "length gs' = length gs" "map fst gs' = map fst gs"
    "\<And>j. j < length gs \<Longrightarrow> renumber ni (snd (gs ! j)) = Some (snd (gs' ! j))"
    using cleaned_block(5) [OF assms(2) trace_default(5), unfolded s] by (rule renumber_switch) blast
  have "bi_index d' = k'" using renumber_SomeD [OF s'(2)] k'(1) by simp
  then have "trace m' [] (SuccGotoSwitch gs' d') (EvBranch (map fst gs') None # tr)"
    using tr k'(2) cleaned_block(1) [OF assms(2) k'(2)] by (auto intro: trace.trace_default)
  then show ?case using s'(1,4) \<open>rest = []\<close> by simp
qed (rule trace.trace_stop)

lemma cleaned_traces:
  assumes "cleaned m m' cs ni" "cfg_wf m"
  shows "method_traces m' = method_traces m"
proof -
  obtain rest where 0: "0 < length cs" "cs ! 0 = [] @ 0 # rest"
  proof -
    have "cs ! 0 \<noteq> []" "cs \<noteq> []" "hd (cs ! 0) = 0"
      using assms(1) cleaned_block(2) [OF assms(1), of 0] by (auto simp: cleaned_def goto_chain_def hd_conv_nth)
    then show ?thesis using that [of "tl (cs ! 0)"] by (cases "cs ! 0") auto
  qed
  have ne: "cm_basic_blocks m \<noteq> []" "cm_basic_blocks m' \<noteq> []"
    using 0 cleaned_block(1,2) [OF assms(1) 0(1)] by (auto simp: goto_chain_def)
  show ?thesis
  proof (intro set_eqI iffI)
    fix tr assume "tr \<in> method_traces m'"
    then have "trace m' (cb_stmts (cm_basic_blocks m' ! 0)) (cb_successor (cm_basic_blocks m' ! 0)) tr"
      by (simp add: method_traces_def)
    from new_trace_old [OF this assms 0(1) cleaned_block(5) [OF assms(1) 0(1)]]
    show "tr \<in> method_traces m"
      using trace_new_block [OF assms(1) 0(1)] 0(2) ne by (simp add: method_traces_def)
  next
    fix tr assume "tr \<in> method_traces m"
    then have "trace m (cb_stmts (cm_basic_blocks m ! 0)) (cb_successor (cm_basic_blocks m ! 0)) tr"
      by (simp add: method_traces_def)
    from old_trace_new [OF this assms 0 refl] show "tr \<in> method_traces m'"
      using cleaned_block(4) [OF assms(1) 0(1)] 0(2) ne by (simp add: method_traces_def)
  qed
qed

text \<open>
  C2 Whenever the block merging pass returns, the method it returns is the same but for its blocks, and
  has exactly the same traces: the same statements are executed in the same order, the same guards are
  tested at the branches and the same runs return, whatever the shape of the graph.
\<close>

theorem clean_cfg_traces:
  assumes "clean_cfg m = Some m'" "cfg_wf m"
  shows "method_traces m' = method_traces m \<and> m' = m\<lparr>cm_basic_blocks := cm_basic_blocks m'\<rparr>"
proof -
  have "m' = m\<lparr>cm_basic_blocks := cm_basic_blocks m'\<rparr>"
    using assms(1) by (auto simp: clean_cfg_def split: option.splits list.splits if_splits)
  then show ?thesis using clean_cfg_cleaned [OF assms] cleaned_traces assms(2) by blast
qed

subsection \<open>The pass returns\<close>

lemma chain_path:
  assumes "goto_chain m c"
  shows "(hd c, last c) \<in> (cfg_edges m)\<^sup>* \<and> (\<forall>i \<in> set c. (i, last c) \<in> (cfg_edges m)\<^sup>*)"
  using assms
proof (induction c)
  case (Cons a c)
  show ?case
  proof (cases c)
    case (Cons b c')
    obtain t where "cb_successor (cm_basic_blocks m ! a) = SuccGoto t" "bi_index t = b"
      using goto_chain_Cons Cons.prems Cons by metis
    moreover have "a < length (cm_basic_blocks m)" using Cons.prems by (simp add: goto_chain_def)
    ultimately have "(a, b) \<in> cfg_edges m" using predecessors_edge(3) by blast
    moreover have "goto_chain m c" using goto_chain_Cons Cons.prems Cons by metis
    ultimately show ?thesis
      using Cons.IH Cons by (auto intro: converse_rtrancl_into_rtrancl)
  qed simp
qed (simp add: goto_chain_def)

lemma merge_chain_total:
  assumes "goto_chain m c" "b = merged m c" "acyclic (cfg_edges m)" "cfg_wf m"
    and "length bbs = length (cm_basic_blocks m)" "set c \<inter> F = {}"
    and "\<forall>i < length bbs. bbs ! i = (if i \<in> F \<union> set c then None else Some (cm_basic_blocks m ! i))"
    and "\<forall>i. ni i = None \<longleftrightarrow> i \<notin> F \<union> set c"
    and "\<forall>t \<in> F. (hd c, t) \<notin> (cfg_edges m)\<^sup>+ \<or> (\<exists>q \<in> F. (q, t) \<in> cfg_edges m)"
  shows "merge_chain (predecessors m) k b bbs ni \<noteq> None"
  using assms(1,2,5-)
proof (induction "predecessors m" k b bbs ni arbitrary: c rule: merge_chain.induct)
  case (1 k b bbs ni)
  have c: "c \<noteq> []" "last c < length (cm_basic_blocks m)"
    using 1(2) by (auto simp: goto_chain_def)
  show ?case
  proof (cases "\<exists>t. cb_successor b = SuccGoto t \<and> length (edge_sources m (bi_index t)) = 1")
    case False
    then show ?thesis
      using 1(3) c predecessors_edge(1) [OF c(2)]
      by (subst merge_chain.simps) (auto simp: merged_def split: successor.splits)
  next
    case True
    then obtain t where t: "cb_successor b = SuccGoto t" "length (edge_sources m (bi_index t)) = 1" by blast
    have succ: "cb_successor (cm_basic_blocks m ! last c) = SuccGoto t" using t(1) 1(3) by (simp add: merged_def)
    note pe = predecessors_edge [OF c(2) succ]
    have t_lt: "bi_index t < length (cm_basic_blocks m)"
      using adj_edge_range [OF adj_wf_cfg [OF assms(4)]] pe(3) by (simp add: adj_edges_cfg)
    have "bi_index t \<notin> set c"
    proof
      assume "bi_index t \<in> set c"
      then have "(bi_index t, last c) \<in> (cfg_edges m)\<^sup>*" using chain_path [OF 1(2)] by blast
      then have "(last c, last c) \<in> (cfg_edges m)\<^sup>+" using pe(3) by (rule rtrancl_into_trancl2 [rotated])
      then show False using assms(3) by (simp add: acyclic_def)
    qed
    moreover have "bi_index t \<notin> F"
    proof
      assume tF: "bi_index t \<in> F"
      have "(hd c, bi_index t) \<in> (cfg_edges m)\<^sup>+"
        using chain_path [OF 1(2)] pe(3) by (meson rtrancl_into_trancl1)
      then obtain q where q: "q \<in> F" "(q, bi_index t) \<in> cfg_edges m" using 1(8) tF by blast
      then have "q \<in> set (edge_sources m (bi_index t))" by (simp add: edge_sources_set)
      then have "q = last c" using pe(2) t(2) by (auto simp: length_Suc_conv)
      then show False using q(1) last_in_set [OF c(1)] 1(5) by blast
    qed
    ultimately have new: "bi_index t \<notin> F \<union> set c" by blast
    then have avail: "ni (bi_index t) = None"
        "take_block bbs (bi_index t) = Some (cm_basic_blocks m ! bi_index t)"
      using 1(4,6,7) t_lt by (auto simp: take_block_def)
    have "merge_chain (predecessors m) k
        \<lparr>cb_stmts = cb_stmts b @ cb_stmts (cm_basic_blocks m ! bi_index t),
         cb_successor = cb_successor (cm_basic_blocks m ! bi_index t)\<rparr>
        (bbs[bi_index t := None]) (ni(bi_index t \<mapsto> k)) \<noteq> None"
    proof (rule 1(1) [OF t(1) pe(1) t(2) _ avail(2), of "c @ [bi_index t]"])
      show "goto_chain m (c @ [bi_index t])" by (rule goto_chain_snoc [OF 1(2) succ t_lt t(2)])
      show "\<lparr>cb_stmts = cb_stmts b @ cb_stmts (cm_basic_blocks m ! bi_index t),
          cb_successor = cb_successor (cm_basic_blocks m ! bi_index t)\<rparr> = merged m (c @ [bi_index t])"
        using merged_snoc [OF c(1)] 1(3) by simp
      show "\<forall>i < length (bbs[bi_index t := None]). bbs[bi_index t := None] ! i =
          (if i \<in> F \<union> set (c @ [bi_index t]) then None else Some (cm_basic_blocks m ! i))"
        using 1(4,6) t_lt by (auto simp: nth_list_update)
      show "\<forall>s \<in> F. (hd (c @ [bi_index t]), s) \<notin> (cfg_edges m)\<^sup>+ \<or> (\<exists>q \<in> F. (q, s) \<in> cfg_edges m)"
        using 1(8) c(1) by simp
    qed (use new avail(1) 1(4,5,7) in auto)
    then show ?thesis using t pe(1) avail by (subst merge_chain.simps) simp
  qed
qed

lemma chain_inner_edge:
  assumes "goto_chain m (h # c)" "t \<in> set c"
  shows "\<exists>q \<in> set (h # c). (q, t) \<in> cfg_edges m"
  using assms
proof (induction c arbitrary: h)
  case (Cons b c)
  obtain s where "cb_successor (cm_basic_blocks m ! h) = SuccGoto s" "bi_index s = b"
    using goto_chain_Cons [OF Cons.prems(1)] by blast
  moreover have "h < length (cm_basic_blocks m)" using Cons.prems(1) by (simp add: goto_chain_def)
  ultimately have "(h, b) \<in> cfg_edges m" using predecessors_edge(3) by blast
  then show ?case using Cons.IH [of b] goto_chain_Cons [OF Cons.prems(1)] Cons.prems(2) by auto
qed simp

lemma place_blocks_total:
  assumes "placed m cs bbs ni new" "acyclic (cfg_edges m)" "cfg_wf m"
    and "\<forall>i \<in> set order. \<forall>c \<in> set cs. (i, hd c) \<notin> (cfg_edges m)\<^sup>+"
    and "sorted_wrt (\<lambda>i j. (j, i) \<notin> (cfg_edges m)\<^sup>+) order"
  shows "place_blocks (predecessors m) order bbs ni new \<noteq> None"
  using assms(1,4,5)
proof (induction order arbitrary: cs bbs ni new)
  case (Cons i order)
  show ?case
  proof (cases "take_block bbs i")
    case None
    then show ?thesis using Cons by simp
  next
    case (Some b)
    let ?F = "set (concat cs)"
    have i: "i < length bbs" "i \<notin> ?F" "b = cm_basic_blocks m ! i"
      using Cons.prems(1) Some by (auto simp: placed_def take_block_def split: if_splits)
    have p: "length bbs = length (cm_basic_blocks m)" "\<forall>c \<in> set cs. goto_chain m c"
      "\<forall>j < length bbs. bbs ! j = (if j \<in> ?F then None else Some (cm_basic_blocks m ! j))"
      "\<forall>j. ni j = None \<longleftrightarrow> j \<notin> ?F" using Cons.prems(1) unfolding placed_def by blast+
    have "merge_chain (predecessors m) (length new) b (bbs[i := None]) (ni(i \<mapsto> length new)) \<noteq> None"
    proof (rule merge_chain_total [OF _ _ assms(2,3), of "[i]" b _ ?F])
      show "goto_chain m [i]" "b = merged m [i]" using i p(1) by (auto simp: goto_chain_def merged_def)
      show "\<forall>j < length (bbs[i := None]). bbs[i := None] ! j =
          (if j \<in> ?F \<union> set [i] then None else Some (cm_basic_blocks m ! j))"
        using p(3) i(1) by (auto simp: nth_list_update)
      show "\<forall>t \<in> ?F. (hd [i], t) \<notin> (cfg_edges m)\<^sup>+ \<or> (\<exists>q \<in> ?F. (q, t) \<in> cfg_edges m)"
      proof
        fix t assume "t \<in> ?F"
        then obtain c where c: "c \<in> set cs" "t \<in> set c" by auto
        show "(hd [i], t) \<notin> (cfg_edges m)\<^sup>+ \<or> (\<exists>q \<in> ?F. (q, t) \<in> cfg_edges m)"
        proof (cases "t = hd c")
          case True
          then show ?thesis using Cons.prems(2) c(1) by simp
        next
          case False
          then have "goto_chain m (hd c # tl c)" "t \<in> set (tl c)" using c p(2) by (cases c; auto)+
          from chain_inner_edge [OF this] obtain q where "q \<in> set (hd c # tl c)" "(q, t) \<in> cfg_edges m" by blast
          moreover have "set (hd c # tl c) = set c" using c(2) by (cases c) auto
          ultimately have "q \<in> ?F" using c(1) by auto
          then show ?thesis using \<open>(q, t) \<in> cfg_edges m\<close> by blast
        qed
      qed
    qed (use p(1,4) i(2) in auto)
    then obtain blk bbs' ni' where st: "merge_chain (predecessors m) (length new) b (bbs[i := None])
      (ni(i \<mapsto> length new)) = Some (blk, bbs', ni')" by auto
    from placed_step [OF Cons.prems(1) assms(3) Some st] obtain d where
      d: "placed m (cs @ [i # d]) bbs' ni' (new @ [blk])" by blast
    have "place_blocks (predecessors m) order bbs' ni' (new @ [blk]) \<noteq> None"
      by (rule Cons.IH [OF d]) (use Cons.prems(2,3) in auto)
    then show ?thesis using Some st i(2) p(4) by simp
  qed
qed simp

lemma topological_sort_sorted:
  assumes "cfg_wf m" "cm_basic_blocks m \<noteq> []" "acyclic (cfg_edges m)" "\<forall>i. (i, 0) \<notin> cfg_edges m"
  obtains ord where "get_topological_sort m = Some (map (block_index m) (0 # ord))"
    "set (0 # ord) = {..<length (cm_basic_blocks m)}"
    "sorted_wrt (\<lambda>i j. (j, i) \<notin> (cfg_edges m)\<^sup>+) (0 # ord)"
proof -
  have "cfg_adj m \<noteq> []" using assms(2) by (simp add: cfg_adj_def)
  from graph_topological_sort_spec [OF adj_wf_cfg [OF assms(1)] this] assms(3)
  obtain ord where ord: "graph_topological_sort (cfg_adj m) = Some (0 # ord)" "distinct (0 # ord)"
    "set (0 # ord) = {..<length (cm_basic_blocks m)}" "topo_ordered (cfg_adj m) {0} (rev ord)"
    unfolding adj_edges_cfg length_cfg_adj by blast
  let ?o = "0 # ord"
  have fwd: "p < q" if "(?o ! p, ?o ! q) \<in> cfg_edges m" "p < length ?o" "q < length ?o" for p q
  proof (rule topo_forward [OF ord(4,2) that(2,3)])
    show "(?o ! p, ?o ! q) \<in> adj_edges (cfg_adj m)" using that(1) by (simp only: adj_edges_cfg)
    show "?o ! q \<noteq> 0" using that(1) assms(4) by metis
  qed
  have fwd_trans: "p < q" if "(x, y) \<in> (cfg_edges m)\<^sup>+" "x = ?o ! p" "y = ?o ! q" "p < length ?o" "q < length ?o"
    for x y p q
    using that
  proof (induction arbitrary: q rule: trancl_induct)
    case (base y)
    then show ?case using fwd by blast
  next
    case (step y z)
    have "y \<in> set ?o"
      using adj_edge_range [OF adj_wf_cfg [OF assms(1)], of y z] step.hyps(2) ord(3)
      by (simp only: adj_edges_cfg length_cfg_adj lessThan_iff)
    then obtain r where "r < length ?o" "y = ?o ! r" by (metis in_set_conv_nth)
    then show ?case using step fwd by (metis less_trans)
  qed
  have "sorted_wrt (\<lambda>i j. (j, i) \<notin> (cfg_edges m)\<^sup>+) ?o"
    unfolding sorted_wrt_iff_nth_less using fwd_trans by (metis less_asym less_trans)
  then show ?thesis using that [of ord] ord(1,3) by (simp add: get_topological_sort_def)
qed

lemma renumber_total:
  assumes "\<forall>t \<in> set (get_following s). ni (bi_index t) \<noteq> None"
  shows "renumber_successor ni s \<noteq> None"
proof (cases s)
  case (SuccGotoSwitch gs d)
  then have "mapO (renumber_guarded ni) gs = Some (map (\<lambda>g. the (renumber_guarded ni g)) gs)"
    using assms by (intro mapO_total) (fastforce simp: renumber_guarded_def renumber_def)
  then show ?thesis using assms SuccGotoSwitch by (auto simp: renumber_def)
qed (use assms in \<open>auto simp: renumber_def\<close>)

lemma cfg_wf_target:
  assumes "cfg_wf m" "i < length (cm_basic_blocks m)"
    "t \<in> set (get_following (cb_successor (cm_basic_blocks m ! i)))"
  shows "bi_index t < length (cm_basic_blocks m)"
  using assms by (simp add: cfg_wf_def list_all_length targets_ok_def [unfolded list_all_iff])

text \<open>
  C3 On every method that the encoder may hand over (its successors lead to its own blocks, it has a
  first block and the graph has no cycle, as \<open>check_vir\<close> makes sure) and in which no edge leads to the
  first block, the block merging pass returns: no assertion fails and no index is missing.
\<close>

theorem clean_cfg_returns:
  assumes "cfg_wf m" "cm_basic_blocks m \<noteq> []" "acyclic (cfg_edges m)" "\<forall>i. (i, 0) \<notin> cfg_edges m"
  shows "\<exists>m'. clean_cfg m = Some m'"
proof -
  obtain ord where ord: "get_topological_sort m = Some (map (block_index m) (0 # ord))"
    "set (0 # ord) = {..<length (cm_basic_blocks m)}"
    "sorted_wrt (\<lambda>i j. (j, i) \<notin> (cfg_edges m)\<^sup>+) (0 # ord)"
    by (rule topological_sort_sorted [OF assms])
  have idx: "map (bi_index \<circ> block_index m) ord = ord" "bi_index (block_index m 0) = 0"
    by (simp_all add: block_index_def comp_def)
  obtain new ni where pl: "place_blocks (predecessors m) (0 # ord) (map Some (cm_basic_blocks m)) Map.empty [] =
      Some (new, ni)"
    using place_blocks_total [OF placed_start assms(3,1) _ ord(3)] by fastforce
  obtain cs bbs where
    cs: "placed m cs bbs ni new" "{..<length (cm_basic_blocks m)} \<subseteq> set (concat cs)"
    using place_blocks_spec [OF pl placed_start assms(1), unfolded ord(2) append_Nil] by blast
  have "renumber_block ni (merged m c) \<noteq> None" if "c \<in> set cs" for c
  proof -
    have "last c < length (cm_basic_blocks m)" using cs(1) that by (auto simp: placed_def goto_chain_def)
    then have "bi_index t \<in> set (concat cs)" if "t \<in> set (get_following (cb_successor (merged m c)))" for t
      using cfg_wf_target [OF assms(1)] that cs(2) by (simp add: merged_def subset_iff)
    then show ?thesis
      using cs(1) renumber_total [of "cb_successor (merged m c)" ni]
      by (simp add: renumber_block_def placed_def)
  qed
  then have "mapO (renumber_block ni) new = Some (map (\<lambda>b. the (renumber_block ni b)) new)"
    using cs(1) by (intro mapO_total) (auto simp: placed_def)
  then show ?thesis using ord(1) idx pl by (simp add: clean_cfg_def del: place_blocks.simps)
qed

subsection \<open>Examples\<close>

definition ex_chain :: cfg_method where
  "ex_chain = (cfg_new 7 ''m'' 0 [] [] [])\<lparr>
     cm_basic_blocks :=
       [\<lparr>cb_stmts = [SLabel ''l''], cb_successor = SuccGoto \<lparr>bi_method_uuid = 7, bi_index = 1\<rparr>\<rparr>,
        \<lparr>cb_stmts = [SComment ''c''], cb_successor =
           SuccGotoSwitch [(from_bool True, \<lparr>bi_method_uuid = 7, bi_index = 2\<rparr>)] \<lparr>bi_method_uuid = 7, bi_index = 3\<rparr>\<rparr>,
        \<lparr>cb_stmts = [SBeginFrame], cb_successor = SuccReturn\<rparr>,
        \<lparr>cb_stmts = [SEndFrame], cb_successor = SuccReturn\<rparr>],
     cm_basic_blocks_labels := [''a'', ''b'', ''c'', ''d'']\<rparr>"

lemma ex_chain_wf: "cfg_wf ex_chain" "cm_basic_blocks ex_chain \<noteq> []"
  by (simp_all add: ex_chain_def cfg_wf_def targets_ok_def cfg_new_def)

lemma ex_chain_forward: "cfg_edges ex_chain \<subseteq> less_than"
  by (auto simp: cfg_edges_def ex_chain_def cfg_new_def less_Suc_eq numeral_eq_Suc)

theorem clean_cfg_returns_witness: "\<exists>m'. clean_cfg ex_chain = Some m'"
proof (rule clean_cfg_returns [OF ex_chain_wf])
  show "acyclic (cfg_edges ex_chain)"
    by (rule acyclic_subset [OF wf_acyclic [OF wf_less_than] ex_chain_forward])
  show "\<forall>i. (i, 0) \<notin> cfg_edges ex_chain" using ex_chain_forward by auto
qed

lemma ex_chain_clean:
  "map_option (\<lambda>m. map (length \<circ> cb_stmts) (cm_basic_blocks m)) (clean_cfg ex_chain) = Some [2, 1, 1]"
  by code_simp

theorem clean_cfg_traces_witness:
  "\<exists>m'. clean_cfg ex_chain = Some m' \<and> method_traces m' = method_traces ex_chain"
  using ex_chain_clean clean_cfg_traces [OF _ ex_chain_wf(1)] by auto

end
