(* ===== verification/Vir_Triggers.thy ===== *)
theory Vir_Triggers
  imports Vir_Transformers
begin

section \<open>Expressions with their triggers\<close>

text \<open>
  The default walks and folds of \<^verbatim>\<open>ast/expr_transformers.rs\<close> do not enter the triggers of quantifiers.  The
  statements about passes that rest on them need both sets: the expressions that a walk reaches
  (\<open>subexprs\<close>) and those that stand inside of triggers.
\<close>

fun trigger_parts :: "expr \<Rightarrow> expr list" where
  "trigger_parts (EForAll vs ts b p) = concat (map trigger_elements ts)"
| "trigger_parts (EExists vs ts b p) = concat (map trigger_elements ts)"
| "trigger_parts _ = []"

text \<open>Everything below an expression, triggers included.\<close>

inductive_set deep_subexprs :: "expr \<Rightarrow> expr set" for e :: expr where
  self: "e \<in> deep_subexprs e"
| child: "x \<in> deep_subexprs e \<Longrightarrow> c \<in> set (children x) \<Longrightarrow> c \<in> deep_subexprs e"
| trigger: "x \<in> deep_subexprs e \<Longrightarrow> c \<in> set (trigger_parts x) \<Longrightarrow> c \<in> deep_subexprs e"

text \<open>What stands in the triggers of an expression and of the expressions that a walk reaches.\<close>

definition trigger_subexprs :: "expr \<Rightarrow> expr set" where
  "trigger_subexprs e = (\<Union>x \<in> subexprs e. \<Union>t \<in> set (trigger_parts x). deep_subexprs t)"

lemma trigger_parts_with_children [simp]:
  "length cs = length (children e) \<Longrightarrow> trigger_parts (with_children e cs) = trigger_parts e"
  by (cases e) auto

lemma trigger_parts_fold_children [simp]: "trigger_parts (fold_children f e) = trigger_parts e"
  by (simp add: fold_children_def)

lemma deep_subexprs_trans: "y \<in> deep_subexprs x \<Longrightarrow> x \<in> deep_subexprs e \<Longrightarrow> y \<in> deep_subexprs e"
  by (induction rule: deep_subexprs.induct) (auto intro: deep_subexprs.intros)

lemma subexprs_deep: "x \<in> subexprs e \<Longrightarrow> x \<in> deep_subexprs e"
  by (induction rule: subexprs.induct) (auto intro: deep_subexprs.intros)

lemma deep_subexprs_split: "deep_subexprs e = subexprs e \<union> trigger_subexprs e"
proof (intro set_eqI iffI)
  fix x assume "x \<in> deep_subexprs e"
  then show "x \<in> subexprs e \<union> trigger_subexprs e"
    unfolding trigger_subexprs_def by induction (auto intro: subexprs.intros deep_subexprs.intros)
next
  fix x assume "x \<in> subexprs e \<union> trigger_subexprs e"
  then show "x \<in> deep_subexprs e"
    unfolding trigger_subexprs_def
    by (auto intro: subexprs_deep deep_subexprs_trans deep_subexprs.trigger [OF subexprs_deep])
qed

lemma trigger_subexprs_unfold:
  "trigger_subexprs e = (\<Union>t \<in> set (trigger_parts e). deep_subexprs t) \<union> (\<Union>c \<in> set (children e). trigger_subexprs c)"
  unfolding trigger_subexprs_def by (subst subexprs_unfold) blast

lemma trigger_subexprs_with_children:
  assumes "length cs = length (children e)"
  shows "trigger_subexprs (with_children e cs) =
    (\<Union>t \<in> set (trigger_parts e). deep_subexprs t) \<union> (\<Union>c \<in> set cs. trigger_subexprs c)"
  using assms by (subst trigger_subexprs_unfold) simp

lemma trigger_subexprs_fold_children:
  "trigger_subexprs (fold_children f e) =
    (\<Union>t \<in> set (trigger_parts e). deep_subexprs t) \<union> (\<Union>c \<in> set (children e). trigger_subexprs (f c))"
  by (simp add: fold_children_def trigger_subexprs_with_children)

end
