(* ===== verification/Opt_Methods.thy ===== *)
theory Opt_Methods
  imports Opt_Simplifier Opt_Cfg_Cleaner Vir_Triggers
begin

section \<open>Visitors of methods and the passes that remove statements and variables\<close>

text \<open>
  The method visitors of \<^verbatim>\<open>cfg/visitor.rs\<close> and \<^verbatim>\<open>vir/utils.rs\<close>, and three passes of
  \<^verbatim>\<open>optimizations/methods\<close>: \<^verbatim>\<open>assert_remover.rs\<close>, \<^verbatim>\<open>empty_if_remover.rs\<close> and \<^verbatim>\<open>var_remover.rs\<close>.
  The first two are instances of \<open>retain_stmts\<close>, whose effect on the traces of a method is proved once.
\<close>

subsection \<open>Visitors\<close>

text \<open>A walk over a method folds a state over what it visits, in this order.\<close>

definition method_stmts :: "cfg_method \<Rightarrow> stmt list" where
  "method_stmts m = concat (map cb_stmts (cm_basic_blocks m))"

definition walk_statements :: "cfg_method \<Rightarrow> (stmt \<Rightarrow> 's \<Rightarrow> 's) \<Rightarrow> 's \<Rightarrow> 's" where
  "walk_statements m walker s =
     fold (\<lambda>block. fold walker (cb_stmts block)) (cm_basic_blocks m) s"

definition walk_successors :: "cfg_method \<Rightarrow> (successor \<Rightarrow> 's \<Rightarrow> 's) \<Rightarrow> 's \<Rightarrow> 's" where
  "walk_successors m walker s = fold (\<lambda>block. walker (cb_successor block)) (cm_basic_blocks m) s"

fun successor_guards :: "successor \<Rightarrow> expr list" where
  "successor_guards (SuccGotoSwitch targets _) = map fst targets"
| "successor_guards _ = []"

definition walk_expressions :: "cfg_method \<Rightarrow> (expr \<Rightarrow> 's \<Rightarrow> 's) \<Rightarrow> 's \<Rightarrow> 's" where
  "walk_expressions m walker s =
     walk_successors m (\<lambda>succ. fold walker (successor_guards succ))
       (walk_statements m (\<lambda>st. fold walker (event_exprs (stmt_events st))) s)"

definition patch_statements :: "cfg_method \<Rightarrow> (stmt \<Rightarrow> 'e + stmt) \<Rightarrow> 'e + cfg_method" where
  "patch_statements m walker =
     map_sum id (\<lambda>bs. m\<lparr>cm_basic_blocks := bs\<rparr>)
       (mapE (\<lambda>b. map_sum id (\<lambda>ss. b\<lparr>cb_stmts := ss\<rparr>) (mapE walker (cb_stmts b))) (cm_basic_blocks m))"

definition retain_stmts :: "(stmt \<Rightarrow> bool) \<Rightarrow> cfg_method \<Rightarrow> cfg_method" where
  "retain_stmts f m =
     m\<lparr>cm_basic_blocks := map (\<lambda>b. b\<lparr>cb_stmts := filter f (cb_stmts b)\<rparr>) (cm_basic_blocks m)\<rparr>"

lemma walk_statements_fold: "walk_statements m walker s = fold walker (method_stmts m) s"
  by (simp add: walk_statements_def method_stmts_def fold_concat fold_map comp_def)

lemma walk_successors_fold:
  "walk_successors m walker s = fold walker (map cb_successor (cm_basic_blocks m)) s"
  by (simp add: walk_successors_def fold_map comp_def)

text \<open>The expressions that \<open>walk_expressions\<close> visits.\<close>

definition method_exprs :: "cfg_method \<Rightarrow> expr list" where
  "method_exprs m =
     concat (map (event_exprs \<circ> stmt_events) (method_stmts m)) @
     concat (map (successor_guards \<circ> cb_successor) (cm_basic_blocks m))"

lemma walk_expressions_fold: "walk_expressions m walker s = fold walker (method_exprs m) s"
  by (simp add: walk_expressions_def walk_statements_fold walk_successors_fold method_exprs_def
      fold_concat fold_map comp_def)

subsection \<open>Passes that drop statements\<close>

fun is_trivial :: "stmt \<Rightarrow> bool" where
  "is_trivial (SAssert e _) = (bool_const e = Some True)"
| "is_trivial (SExhale e _) = (bool_const e = Some True)"
| "is_trivial (SInhale e) = (bool_const e = Some True)"
| "is_trivial _ = False"

definition remove_trivial_assertions :: "cfg_method \<Rightarrow> cfg_method" where
  "remove_trivial_assertions m = retain_stmts (\<lambda>stmt. \<not> is_trivial stmt) m"

fun is_empty_stmt :: "stmt \<Rightarrow> bool" where
  "is_empty_stmt (SComment _) = True"
| "is_empty_stmt (STransferPerm _ _ _) = True"
| "is_empty_stmt (SIf _ then_stmts else_stmts) =
     (list_all is_empty_stmt then_stmts \<and> list_all is_empty_stmt else_stmts)"
| "is_empty_stmt _ = False"

definition is_empty_body :: "stmt list \<Rightarrow> bool" where
  "is_empty_body stmts = list_all is_empty_stmt stmts"

definition remove_empty_if :: "cfg_method \<Rightarrow> cfg_method" where
  "remove_empty_if m =
     retain_stmts (\<lambda>stmt. case stmt of SIf _ _ _ \<Rightarrow> \<not> is_empty_body [stmt] | _ \<Rightarrow> True) m"

subsection \<open>Dropped statements and traces\<close>

fun keep_events :: "(stmt \<Rightarrow> bool) \<Rightarrow> event list \<Rightarrow> event list" where
  "keep_events f [] = []"
| "keep_events f (EvStep s # tr) = (if f s then EvStep s # keep_events f tr else keep_events f tr)"
| "keep_events f (ev # tr) = ev # keep_events f tr"

lemma keep_events_append [simp]: "keep_events f (xs @ ys) = keep_events f xs @ keep_events f ys"
  by (induction f xs rule: keep_events.induct) auto

lemma keep_events_drop: "filter f ss = [] \<Longrightarrow> keep_events f (map EvStep ss) = []"
  by (induction ss) (auto split: if_splits)

lemma trace_prefix: "trace m rest succ tr \<Longrightarrow> trace m (pre @ rest) succ (map EvStep pre @ tr)"
  by (induction pre) (auto intro: trace_stmt)

lemma trace_dropped:
  assumes "filter f ss = []" "trace m [] succ tr"
  shows "\<exists>tr0. trace m ss succ tr0 \<and> keep_events f tr = keep_events f tr0"
  using trace_prefix [OF assms(2), of ss] assms(1)
  by (intro exI [of _ "map EvStep ss @ tr"]) (simp add: keep_events_drop)

lemma length_retain [simp]: "length (cm_basic_blocks (retain_stmts f m)) = length (cm_basic_blocks m)"
  by (simp add: retain_stmts_def)

lemma retain_block:
  assumes "i < length (cm_basic_blocks m)"
  shows "cb_stmts (cm_basic_blocks (retain_stmts f m) ! i) = filter f (cb_stmts (cm_basic_blocks m ! i))"
    and "cb_successor (cm_basic_blocks (retain_stmts f m) ! i) = cb_successor (cm_basic_blocks m ! i)"
  using assms by (simp_all add: retain_stmts_def)

lemma trace_retain:
  "trace m ss succ tr \<Longrightarrow> trace (retain_stmts f m) (filter f ss) succ (keep_events f tr)"
  by (induction rule: trace.induct)
     (auto intro: trace.intros simp: retain_block intro!: trace_guard trace_default trace_goto)

lemma retain_trace:
  assumes "trace (retain_stmts f m) ss' succ tr" "ss' = filter f ss"
  shows "\<exists>tr0. trace m ss succ tr0 \<and> tr = keep_events f tr0"
  using assms
proof (induction arbitrary: ss rule: trace.induct)
  case (trace_stop ss' succ)
  then show ?case using trace.trace_stop by (metis keep_events.simps(1))
next
  case (trace_stmt ss' succ tr s)
  then obtain pre rest where ss: "ss = pre @ s # rest" "filter f pre = []" "f s" "ss' = filter f rest"
    by (metis (no_types, lifting) Cons_eq_filterD filter_empty_conv)
  then obtain tr0 where "trace m rest succ tr0" "tr = keep_events f tr0" using trace_stmt by blast
  then show ?case
    using ss trace_prefix [OF trace.trace_stmt, of m rest succ tr0 pre s]
    by (intro exI [of _ "map EvStep pre @ EvStep s # tr0"]) (simp add: keep_events_drop)
next
  case trace_return
  then show ?case
    using trace_dropped [of f ss m SuccReturn "[EvReturn]"] trace.trace_return by fastforce
next
  case (trace_goto t b tr)
  from trace_goto(4) [of "cb_stmts (cm_basic_blocks m ! bi_index t)"] trace_goto(1,2)
  obtain tr0 where tr0: "trace m (cb_stmts (cm_basic_blocks m ! bi_index t))
      (cb_successor (cm_basic_blocks m ! bi_index t)) tr0" "tr = keep_events f tr0"
    by (auto simp: retain_block)
  then have "trace m [] (SuccGoto t) tr0" using trace_goto(1) by (auto intro: trace.trace_goto)
  from trace_dropped [OF _ this] show ?case using trace_goto(5) tr0(2) by metis
next
  case (trace_guard k gs b tr d)
  let ?i = "bi_index (snd (gs ! k))"
  from trace_guard(5) [of "cb_stmts (cm_basic_blocks m ! ?i)"] trace_guard(2,3)
  obtain tr0 where tr0: "trace m (cb_stmts (cm_basic_blocks m ! ?i)) (cb_successor (cm_basic_blocks m ! ?i)) tr0"
    "tr = keep_events f tr0"
    by (auto simp: retain_block)
  then have "trace m [] (SuccGotoSwitch gs d) (EvBranch (map fst (take k gs)) (Some (fst (gs ! k))) # tr0)"
    using trace_guard(1,2) by (auto intro: trace.trace_guard)
  from trace_dropped [OF _ this] show ?case using trace_guard(6) tr0(2) by (metis keep_events.simps(3))
next
  case (trace_default d b tr gs)
  from trace_default(4) [of "cb_stmts (cm_basic_blocks m ! bi_index d)"] trace_default(1,2)
  obtain tr0 where tr0: "trace m (cb_stmts (cm_basic_blocks m ! bi_index d))
      (cb_successor (cm_basic_blocks m ! bi_index d)) tr0" "tr = keep_events f tr0"
    by (auto simp: retain_block)
  then have "trace m [] (SuccGotoSwitch gs d) (EvBranch (map fst gs) None # tr0)"
    using trace_default(1) by (auto intro: trace.trace_default)
  from trace_dropped [OF _ this] show ?case using trace_default(5) tr0(2) by (metis keep_events.simps(3))
qed

lemma retain_traces: "method_traces (retain_stmts f m) = keep_events f ` method_traces m"
proof (cases "cm_basic_blocks m = []")
  case False
  then have 0: "0 < length (cm_basic_blocks m)" by simp
  let ?ss = "cb_stmts (cm_basic_blocks m ! 0)" and ?succ = "cb_successor (cm_basic_blocks m ! 0)"
  have "cm_basic_blocks (retain_stmts f m) \<noteq> []" using False by (simp add: retain_stmts_def)
  moreover have "trace (retain_stmts f m) (filter f ?ss) ?succ tr \<longleftrightarrow> tr \<in> keep_events f ` Collect (trace m ?ss ?succ)"
    for tr using trace_retain [of m ?ss ?succ _ f] retain_trace [OF _ refl, of f m ?ss ?succ tr] by blast
  ultimately show ?thesis using False by (auto simp: method_traces_def retain_block [OF 0])
qed (auto simp: method_traces_def retain_stmts_def)

lemma is_pure_const: "is_pure (EConst c p)"
  by (subst is_pure_unfold) simp

text \<open>
  C32 Removing trivial assertions changes a run only by leaving out statements \<open>assert e\<close>, \<open>exhale e\<close> and
  \<open>inhale e\<close> whose expression is pure and evaluates to true in every state: the traces of the new method
  are the traces of the old one without these statements, everything else stays in its order.
\<close>

theorem remove_trivial_assertions_traces:
  "method_traces (remove_trivial_assertions m) = keep_events (\<lambda>s. \<not> is_trivial s) ` method_traces m \<and>
   (\<forall>s. is_trivial s \<longrightarrow>
      (\<exists>e p. (s = SAssert e p \<or> s = SExhale e p \<or> s = SInhale e) \<and> is_pure e \<and>
         (\<forall>I l \<rho>. eval I l \<rho> e = Some (VBool True))))"
proof (intro conjI allI impI)
  show "method_traces (remove_trivial_assertions m) = keep_events (\<lambda>s. \<not> is_trivial s) ` method_traces m"
    unfolding remove_trivial_assertions_def by (rule retain_traces)
next
  fix s assume "is_trivial s"
  then show "\<exists>e p. (s = SAssert e p \<or> s = SExhale e p \<or> s = SInhale e) \<and> is_pure e \<and>
      (\<forall>I l \<rho>. eval I l \<rho> e = Some (VBool True))"
    by (cases s) (auto simp: is_pure_const bool_const_Some)
qed

text \<open>The statements of a nest of conditionals that are not conditionals themselves.\<close>

fun stmt_leaves :: "stmt \<Rightarrow> stmt list" where
  "stmt_leaves (SIf g ts es) = concat (map stmt_leaves ts) @ concat (map stmt_leaves es)"
| "stmt_leaves s = [s]"

fun is_silent :: "stmt \<Rightarrow> bool" where
  "is_silent (SComment _) = True"
| "is_silent (STransferPerm _ _ _) = True"
| "is_silent _ = False"

lemma is_empty_stmt_leaves: "is_empty_stmt s \<longleftrightarrow> list_all is_silent (stmt_leaves s)"
  by (induction s rule: is_empty_stmt.induct) (auto simp: list_all_iff)

text \<open>
  Removing empty conditionals leaves out, of every run, exactly the top-level conditionals whose
  branches, however nested, hold nothing but comments and permission transfers (which are no statements of
  the verifier); all other statements stay in their order.
\<close>

theorem remove_empty_if_traces:
  "method_traces (remove_empty_if m) =
     keep_events (\<lambda>s. \<not> ((\<exists>g ts es. s = SIf g ts es) \<and> list_all is_silent (stmt_leaves s))) ` method_traces m"
proof -
  have "(\<lambda>s. case s of SIf _ _ _ \<Rightarrow> \<not> is_empty_body [s] | _ \<Rightarrow> True) =
      (\<lambda>s. \<not> ((\<exists>g ts es. s = SIf g ts es) \<and> list_all is_silent (stmt_leaves s)))"
    by (rule ext) (auto simp: is_empty_body_def is_empty_stmt_leaves split: stmt.splits)
  then show ?thesis unfolding remove_empty_if_def using retain_traces by metis
qed

subsection \<open>Removal of unused variables\<close>

text \<open>
  \<open>UsedVarCollector\<close>: a variable is used if it is mentioned outside access predicates.  The walk over a
  package statement is overridden: the ghost variables of the package are not used variables.
\<close>

function used_vars_walk :: "expr \<Rightarrow> string set \<Rightarrow> string set" where
  "used_vars_walk e used_vars =
     (case e of
        EPredicateAccessPredicate _ _ _ _ \<Rightarrow> used_vars
      | EFieldAccessPredicate _ _ _ \<Rightarrow> used_vars
      | _ \<Rightarrow> default_walk_expr used_vars_walk (\<lambda>v s. insert (lv_name v) s) e used_vars)"
  by pat_completeness auto
termination by (relation "measure (size \<circ> fst)") (auto simp: children_size)

declare used_vars_walk.simps [simp del]

fun used_event :: "stmt_event \<Rightarrow> string set \<Rightarrow> string set" where
  "used_event (EvExpr e) s = used_vars_walk e s"
| "used_event (EvVar v) s = insert (lv_name v) s"
| "used_event (EvLabel _) s = s"

fun used_stmt :: "stmt \<Rightarrow> string set \<Rightarrow> string set" where
  "used_stmt (SPackageMagicWand wand body label vars p) s =
     fold (\<lambda>v used. used - {lv_name v}) vars (fold used_stmt body (used_vars_walk wand s))"
| "used_stmt (SIf g t e) s = fold used_stmt e (fold used_stmt t (used_vars_walk g s))"
| "used_stmt stmt s = fold used_event (stmt_events stmt) s"

definition collect_used_vars :: "cfg_method \<Rightarrow> string set" where
  "collect_used_vars m =
     walk_successors m (\<lambda>succ. fold used_vars_walk (successor_guards succ))
       (walk_statements m used_stmt {})"

text \<open>
  \<open>UnusedVarRemover\<close>.  The base of a field access that is not a place makes the code panic (\<open>Inl\<close>).
\<close>

definition var_member :: "local_var list \<Rightarrow> local_var \<Rightarrow> bool" where
  "var_member vs v = list_ex (\<lambda>u. local_var_eq u v) vs"

fun remove_predicate :: "local_var list \<Rightarrow> string \<Rightarrow> expr \<Rightarrow> perm_amount \<Rightarrow> position \<Rightarrow> expr" where
  "remove_predicate unused n (ELocal v q) m p =
     (if var_member unused v then from_bool True else EPredicateAccessPredicate n (ELocal v q) m p)"
| "remove_predicate unused n arg m p = EPredicateAccessPredicate n arg m p"

function remove_unused :: "local_var list \<Rightarrow> expr \<Rightarrow> string + expr" where
  "remove_unused unused e =
     (case e of
        EPredicateAccessPredicate n arg m p \<Rightarrow> Inr (remove_predicate unused n arg m p)
      | EFieldAccessPredicate x m p \<Rightarrow>
          (case get_base x of
             None \<Rightarrow> Inl ''get_base''
           | Some v \<Rightarrow> Inr (if var_member unused v then from_bool True else EFieldAccessPredicate x m p))
      | _ \<Rightarrow> fallible_fold_children (remove_unused unused) e)"
  by pat_completeness auto
termination by (relation "measure (size \<circ> snd)") (auto simp: children_size)

declare remove_unused.simps [simp del]

definition remove_unused_vars :: "cfg_method \<Rightarrow> string + cfg_method" where
  "remove_unused_vars m =
     (let used = collect_used_vars m;
          used_vars = filter (\<lambda>v. lv_name v \<in> used) (cm_local_vars m);
          unused_vars = filter (\<lambda>v. lv_name v \<notin> used) (cm_local_vars m)
      in patch_statements (m\<lparr>cm_local_vars := used_vars\<rparr>) (fallible_map_expr (remove_unused unused_vars)))"

text \<open>The names an expression mentions, and those it mentions outside access predicates.\<close>

definition item_names :: "walk_item \<Rightarrow> string set" where
  "item_names i = (case i of WalkVar v \<Rightarrow> {lv_name v} | WalkExpr e \<Rightarrow> {})"

definition direct_names :: "expr \<Rightarrow> string set" where
  "direct_names e = (\<Union>i \<in> set (walk_items e). item_names i)"

function mentioned :: "expr \<Rightarrow> string set" where
  "mentioned e = direct_names e \<union> (\<Union>c \<in> set (children e). mentioned c)"
  by pat_completeness auto
termination by (relation "measure size") (auto simp: children_size)

function used_names_of :: "expr \<Rightarrow> string set" where
  "used_names_of e =
     (if is_access e then {} else direct_names e \<union> (\<Union>c \<in> set (children e). used_names_of c))"
  by pat_completeness auto
termination by (relation "measure size") (auto simp: children_size)

declare mentioned.simps [simp del] used_names_of.simps [simp del]

lemma walk_names:
  assumes "\<And>x u. x \<in> set (children e) \<Longrightarrow> w x u = u \<union> F x"
  shows "default_walk_expr w (\<lambda>v s. insert (lv_name v) s) e s =
    s \<union> direct_names e \<union> (\<Union>c \<in> set (children e). F c)"
proof -
  have "fold (run_item w (\<lambda>v s. insert (lv_name v) s)) is s =
      s \<union> (\<Union>i \<in> set is. item_names i) \<union> (\<Union>c \<in> {c. WalkExpr c \<in> set is}. F c)"
    if "\<forall>c. WalkExpr c \<in> set is \<longrightarrow> c \<in> set (children e)" for "is"
    using that
  proof (induction "is" arbitrary: s)
    case (Cons i "is")
    then show ?case using assms by (cases i) (auto simp: item_names_def)
  qed simp
  then show ?thesis
    unfolding default_walk_expr_def direct_names_def using walk_items_children [of _ e] by simp
qed

lemma used_vars_walk_eq: "used_vars_walk e s = s \<union> used_names_of e"
proof (induction e arbitrary: s rule: expr_children_induct)
  case (step e)
  have alt: "used_vars_walk e s = (if is_access e then s
      else default_walk_expr used_vars_walk (\<lambda>v s. insert (lv_name v) s) e s)"
    by (subst used_vars_walk.simps) (cases e; simp)
  have "default_walk_expr used_vars_walk (\<lambda>v s. insert (lv_name v) s) e s =
      s \<union> direct_names e \<union> (\<Union>c \<in> set (children e). used_names_of c)"
    by (rule walk_names) (rule step)
  then show ?case unfolding alt by (subst used_names_of.simps) auto
qed

text \<open>Every name an expression mentions, and those in triggers, which neither the collector nor the remover enters.\<close>

definition all_names :: "expr \<Rightarrow> string set" where
  "all_names e = (\<Union>x \<in> deep_subexprs e. direct_names x)"

definition trigger_names :: "expr \<Rightarrow> string set" where
  "trigger_names e = (\<Union>x \<in> trigger_subexprs e. direct_names x)"

lemma mentioned_subexprs: "mentioned e = (\<Union>x \<in> subexprs e. direct_names x)"
proof (induction e rule: expr_children_induct)
  case (step e)
  then show ?case by (subst mentioned.simps, subst subexprs_unfold) auto
qed

lemma all_names_split: "all_names e = mentioned e \<union> trigger_names e"
  by (simp add: all_names_def mentioned_subexprs trigger_names_def deep_subexprs_split)

lemma trigger_names_unfold:
  "trigger_names e = (\<Union>t \<in> set (trigger_parts e). all_names t) \<union> (\<Union>c \<in> set (children e). trigger_names c)"
  unfolding trigger_names_def all_names_def by (subst trigger_subexprs_unfold) blast

text \<open>
  What the pass relies on.  The names \<open>removed\<close> are those of the variables it removes.  The argument of a
  predicate is a variable of its declared type or mentions no removed name; the place of a field access is a path
  from a variable of its declared type that mentions nothing else, or mentions no removed name.
\<close>

definition declared_as :: "local_var list \<Rightarrow> local_var \<Rightarrow> bool" where
  "declared_as vs v = list_all (\<lambda>u. lv_name u = lv_name v \<longrightarrow> local_var_eq u v) vs"

fun plain_access :: "local_var list \<Rightarrow> string set \<Rightarrow> expr \<Rightarrow> bool" where
  "plain_access vs removed (EPredicateAccessPredicate n a m p) =
     (all_names a \<inter> removed = {} \<or> (case a of ELocal v q \<Rightarrow> declared_as vs v | _ \<Rightarrow> False))"
| "plain_access vs removed (EFieldAccessPredicate x m p) =
     (all_names x \<inter> removed = {} \<or>
      (case get_base x of Some v \<Rightarrow> declared_as vs v \<and> mentioned x \<subseteq> {lv_name v} | None \<Rightarrow> False))"
| "plain_access vs removed e = True"

definition removed_names :: "cfg_method \<Rightarrow> string set" where
  "removed_names m = lv_name ` set (cm_local_vars m) - collect_used_vars m"

lemma remove_unused_access_eqs [simp]:
  "remove_unused U (EPredicateAccessPredicate n arg m p) = Inr (remove_predicate U n arg m p)"
  "remove_unused U (EFieldAccessPredicate x m p) =
     (case get_base x of
        None \<Rightarrow> Inl ''get_base''
      | Some v \<Rightarrow> Inr (if var_member U v then from_bool True else EFieldAccessPredicate x m p))"
  by (subst remove_unused.simps, simp)+

lemma remove_unused_other:
  "\<not> is_access e \<Longrightarrow> remove_unused U e = fallible_fold_children (remove_unused U) e"
  by (subst remove_unused.simps) (cases e; simp)

lemma direct_names_with_children:
  "length cs = length (children e) \<Longrightarrow> direct_names (with_children e cs) = direct_names e"
  by (cases e) (auto simp: direct_names_def item_names_def)

lemma mentioned_simps [simp]:
  "mentioned (EConst c p) = {}" "mentioned (ELocal v p) = {lv_name v}"
  "mentioned (EPredicateAccessPredicate n a m p) = mentioned a"
  "mentioned (EFieldAccessPredicate a m p) = mentioned a"
  by (subst mentioned.simps, simp add: direct_names_def item_names_def)+

lemma declared_member:
  "declared_as vs v \<Longrightarrow> set U \<subseteq> set vs \<Longrightarrow> u \<in> set U \<Longrightarrow> lv_name u = lv_name v \<Longrightarrow> var_member U v"
  by (auto simp: declared_as_def var_member_def list_all_iff list_ex_iff)

lemma remove_unused_access:
  assumes "is_access e" "plain_access vs (lv_name ` set U) e" "set U \<subseteq> set vs" "remove_unused U e = Inr e'" "n \<in> mentioned e'"
  shows "n \<notin> lv_name ` set U"
proof (cases e)
  case (EPredicateAccessPredicate k a m p)
  then consider "mentioned a \<inter> lv_name ` set U = {}" | v q where "a = ELocal v q" "declared_as vs v"
    using assms(2) by (auto simp: all_names_split split: expr.splits)
  then show ?thesis
  proof cases
    case 1
    have "mentioned e' \<subseteq> mentioned a"
      using EPredicateAccessPredicate assms(4) by (cases a) (auto simp: from_bool_def split: if_splits)
    then show ?thesis using 1 assms(5) by blast
  next
    case 2
    then show ?thesis
      using EPredicateAccessPredicate assms(3-5) declared_member [of vs v U]
      by (auto simp: from_bool_def split: if_splits)
  qed
next
  case (EFieldAccessPredicate x m p)
  then consider "mentioned x \<inter> lv_name ` set U = {}"
    | v where "get_base x = Some v" "declared_as vs v" "mentioned x \<subseteq> {lv_name v}"
    using assms(2) by (auto simp: all_names_split split: option.splits)
  then show ?thesis
  proof cases
    case 1
    have "mentioned e' \<subseteq> mentioned x"
      using EFieldAccessPredicate assms(4) by (auto simp: from_bool_def split: if_splits option.splits)
    then show ?thesis using 1 assms(5) by blast
  next
    case 2
    then show ?thesis
      using EFieldAccessPredicate assms(3-5) declared_member [of vs v U]
      by (fastforce simp: from_bool_def split: if_splits)
  qed
qed (use assms(1) in auto)

lemma remove_unused_mentioned:
  assumes "\<forall>x \<in> subexprs e. plain_access vs (lv_name ` set U) x" "set U \<subseteq> set vs" "remove_unused U e = Inr e'" "n \<in> mentioned e'"
  shows "n \<in> used_names_of e \<or> n \<notin> lv_name ` set U"
  using assms
proof (induction e arbitrary: e' rule: expr_children_induct)
  case (step e)
  show ?case
  proof (cases "is_access e")
    case True
    then show ?thesis using remove_unused_access step.prems subexprs.self by blast
  next
    case False
    then obtain cs where cs: "mapE (remove_unused U) (children e) = Inr cs" "e' = with_children e cs"
      using step.prems(3) by (auto simp: remove_unused_other fallible_fold_children_def split: sum.splits)
    have len: "length cs = length (children e)" using cs(1) by (simp add: mapE_Inr_iff list_all2_lengthD)
    have "n \<in> direct_names e \<or> (\<exists>c \<in> set cs. n \<in> mentioned c)"
      using step.prems(4) cs(2) len by (subst (asm) mentioned.simps) (auto simp: direct_names_with_children)
    then show ?thesis
    proof
      assume "n \<in> direct_names e"
      then show ?thesis using False by (subst used_names_of.simps) simp
    next
      assume "\<exists>c \<in> set cs. n \<in> mentioned c"
      then obtain i where i: "i < length cs" "n \<in> mentioned (cs ! i)" by (auto simp: in_set_conv_nth)
      have c: "children e ! i \<in> set (children e)" "remove_unused U (children e ! i) = Inr (cs ! i)"
        using cs(1) i(1) len by (auto simp: mapE_Inr_iff list_all2_conv_all_nth)
      have "\<forall>x \<in> subexprs (children e ! i). plain_access vs (lv_name ` set U) x"
        using step.prems(1) c(1) subexprs_unfold [of e] by blast
      from step.IH [OF c(1) this step.prems(2) c(2) i(2)] show ?thesis
        using c(1) False by (subst used_names_of.simps) auto
    qed
  qed
qed

lemma trigger_names_with_children:
  assumes "length cs = length (children e)"
  shows "trigger_names (with_children e cs) = (\<Union>t \<in> set (trigger_parts e). all_names t) \<union> (\<Union>c \<in> set cs. trigger_names c)"
  unfolding trigger_names_def all_names_def trigger_subexprs_with_children [OF assms] by (rule set_eqI) auto

lemma remove_predicate_kept:
  "remove_predicate U n a m p \<noteq> from_bool True \<Longrightarrow> remove_predicate U n a m p = EPredicateAccessPredicate n a m p"
  by (cases a) (simp_all split: if_splits)

text \<open>The remover does not enter triggers, and an access predicate it keeps stays as it is.\<close>

lemma remove_unused_triggers: "remove_unused U e = Inr e' \<Longrightarrow> trigger_names e' \<subseteq> trigger_names e"
proof (induction e arbitrary: e' rule: expr_children_induct)
  case (step e)
  show ?case
  proof (cases "is_access e")
    case True
    then have "e' = e \<or> e' = from_bool True" using step.prems
      by (cases e) (auto split: option.splits if_splits dest: remove_predicate_kept)
    moreover have "trigger_names (from_bool True) = {}" by (subst trigger_names_unfold) (simp add: from_bool_def)
    ultimately show ?thesis by auto
  next
    case False
    then obtain cs where cs: "mapE (remove_unused U) (children e) = Inr cs" "e' = with_children e cs"
      using step.prems by (auto simp: remove_unused_other fallible_fold_children_def split: sum.splits)
    have len: "length cs = length (children e)" using cs(1) by (simp add: mapE_Inr_iff list_all2_lengthD)
    have "trigger_names c' \<subseteq> (\<Union>c \<in> set (children e). trigger_names c)" if "c' \<in> set cs" for c'
      using mapE_Inr_set [OF cs(1) that] step.IH by blast
    then show ?thesis unfolding trigger_names_unfold [of e] cs(2) trigger_names_with_children [OF len] by blast
  qed
qed

text \<open>Names of the ghost variables of package statements, at any depth.\<close>

fun ghost_names :: "stmt \<Rightarrow> string set" where
  "ghost_names (SPackageMagicWand wand body label vars p) =
     lv_name ` set vars \<union> (\<Union>b \<in> set body. ghost_names b)"
| "ghost_names (SIf g t e) = (\<Union>b \<in> set t. ghost_names b) \<union> (\<Union>b \<in> set e. ghost_names b)"
| "ghost_names _ = {}"

definition events_use :: "stmt_event list \<Rightarrow> string \<Rightarrow> bool" where
  "events_use evs n \<longleftrightarrow> (\<exists>e. EvExpr e \<in> set evs \<and> n \<in> used_names_of e) \<or> (\<exists>v. EvVar v \<in> set evs \<and> n = lv_name v)"

lemma events_use_simps [simp]:
  "\<not> events_use [] n"
  "events_use (xs @ ys) n \<longleftrightarrow> events_use xs n \<or> events_use ys n"
  "events_use (EvExpr e # evs) n \<longleftrightarrow> n \<in> used_names_of e \<or> events_use evs n"
  "events_use (EvLabel l # evs) n \<longleftrightarrow> events_use evs n"
  "events_use (map EvVar vs) n \<longleftrightarrow> n \<in> lv_name ` set vs"
  by (auto simp: events_use_def)

lemma events_use_concat [simp]:
  "events_use (concat (map f xs)) n \<longleftrightarrow> (\<exists>x \<in> set xs. events_use (f x) n)"
  by (induction xs) auto

lemma used_event_fold: "n \<in> fold used_event evs S \<longleftrightarrow> n \<in> S \<or> events_use evs n"
proof (induction evs arbitrary: S)
  case (Cons ev evs)
  then show ?case by (cases ev) (auto simp: used_vars_walk_eq events_use_def)
qed simp

lemma fold_removes: "n \<notin> lv_name ` set vs \<Longrightarrow> n \<in> fold (\<lambda>v used. used - {lv_name v}) vs S \<longleftrightarrow> n \<in> S"
  by (induction vs arbitrary: S) auto

lemma fold_covers:
  assumes "\<And>x S. x \<in> set xs \<Longrightarrow> n \<in> S \<or> P x \<Longrightarrow> n \<in> g x S" "n \<in> S \<or> (\<exists>x \<in> set xs. P x)"
  shows "n \<in> fold g xs S"
  using assms
proof (induction xs arbitrary: S)
  case (Cons x xs)
  then show ?case by (cases "n \<in> S \<or> P x") (auto 4 3)
qed simp

lemma used_stmt_covers:
  "n \<notin> ghost_names s \<Longrightarrow> n \<in> S \<or> events_use (stmt_events s) n \<Longrightarrow> n \<in> used_stmt s S"
proof (induction s S rule: used_stmt.induct)
  case (1 wand body label vars p S)
  have "n \<in> fold used_stmt body (used_vars_walk wand S)"
    by (rule fold_covers [where P = "\<lambda>x. events_use (stmt_events x) n"])
       (use 1 in \<open>auto simp: used_vars_walk_eq\<close>)
  then show ?case using 1(2) by (simp add: fold_removes)
next
  case (2 g t e S)
  have "n \<in> fold used_stmt t (used_vars_walk g S) \<or> (\<exists>x \<in> set e. events_use (stmt_events x) n)"
    using 2(1,3,4)
    by (cases "n \<in> used_vars_walk g S \<or> (\<exists>x \<in> set t. events_use (stmt_events x) n)")
       (auto simp: used_vars_walk_eq intro!: fold_covers [where P = "\<lambda>x. events_use (stmt_events x) n"])
  then show ?case
    using 2(2,3) by (auto intro!: fold_covers [where P = "\<lambda>x. events_use (stmt_events x) n"])
qed (auto simp: used_event_fold used_vars_walk_eq)

lemma collect_covers:
  assumes "\<forall>s \<in> set (method_stmts m). n \<notin> ghost_names s"
    and "(\<exists>s \<in> set (method_stmts m). events_use (stmt_events s) n) \<or>
      (\<exists>b \<in> set (cm_basic_blocks m). \<exists>g \<in> set (successor_guards (cb_successor b)). n \<in> used_names_of g)"
  shows "n \<in> collect_used_vars m"
proof -
  have "n \<in> fold used_stmt (method_stmts m) {} \<or>
      (\<exists>b \<in> set (cm_basic_blocks m). \<exists>g \<in> set (successor_guards (cb_successor b)). n \<in> used_names_of g)"
    using assms used_stmt_covers fold_covers [of "method_stmts m" n "\<lambda>s. events_use (stmt_events s) n" used_stmt "{}"]
    by blast
  moreover have guards: "n \<in> fold used_vars_walk gs S \<longleftrightarrow> n \<in> S \<or> (\<exists>g \<in> set gs. n \<in> used_names_of g)" for gs S
    by (induction gs arbitrary: S) (auto simp: used_vars_walk_eq)
  ultimately show ?thesis
    unfolding collect_used_vars_def walk_statements_fold walk_successors_fold
    by (intro fold_covers [where P = "\<lambda>succ. \<exists>g \<in> set (successor_guards succ). n \<in> used_names_of g"])
       (auto simp: guards)
qed

text \<open>The expressions and variables that a walk of a rewritten statement meets come from the old one.\<close>

definition event_from :: "(expr \<Rightarrow> 'err + expr) \<Rightarrow> stmt_event list \<Rightarrow> stmt_event \<Rightarrow> bool" where
  "event_from f evs ev =
     (case ev of EvExpr e' \<Rightarrow> \<exists>e. EvExpr e \<in> set evs \<and> f e = Inr e' | _ \<Rightarrow> ev \<in> set evs)"

lemma event_from_append: "event_from f xs ev \<Longrightarrow> event_from f (xs @ ys) ev" "event_from f ys ev \<Longrightarrow> event_from f (xs @ ys) ev"
  by (auto simp: event_from_def split: stmt_event.splits)

lemma event_from_Cons: "event_from f ys ev \<Longrightarrow> event_from f (x # ys) ev"
  using event_from_append(2) [of f ys ev "[x]"] by simp

lemma event_from_head: "f e = Inr e' \<Longrightarrow> event_from f (EvExpr e # ys) (EvExpr e')"
  by (auto simp: event_from_def)

lemma event_from_label: "event_from f (EvLabel l # ys) (EvLabel l)"
  by (simp add: event_from_def)

lemma event_from_concat: "x \<in> set xs \<Longrightarrow> event_from f (g x) ev \<Longrightarrow> event_from f (concat (map g xs)) ev"
  by (auto simp: event_from_def split: stmt_event.splits)

lemma event_from_exprs:
  "mapE f es = Inr es' \<Longrightarrow> ev \<in> EvExpr ` set es' \<Longrightarrow> event_from f (map EvExpr es) ev"
  using mapE_Inr_set [of f es es'] by (fastforce simp: event_from_def image_iff)

lemma fallible_map_expr_events:
  assumes "fallible_map_expr f s = Inr s'" "ev \<in> set (stmt_events s')"
  shows "event_from f (stmt_events s) ev"
  using assms
proof (induction f s arbitrary: s' rule: fallible_map_expr.induct)
  case (6 f n args targets)
  then obtain es where "mapE f args = Inr es" "s' = SMethodCall n es targets" by (auto simp: map_sum_Inr_iff)
  moreover have "ev \<in> EvVar ` set targets \<Longrightarrow> event_from f (map EvVar targets) ev" by (auto simp: event_from_def)
  ultimately show ?case using 6(2) by (auto intro: event_from_append event_from_exprs)
next
  case (14 f w body l vs p)
  then obtain w' body' where b: "f w = Inr w'" "mapE (fallible_map_expr f) body = Inr body'"
    "s' = SPackageMagicWand w' body' l vs p"
    by (auto simp: map2E_Inr_iff)
  then consider "ev = EvExpr w'" | "ev \<in> EvVar ` set vs" | y where "y \<in> set body'" "ev \<in> set (stmt_events y)"
    using 14(3) by auto
  then show ?case
  proof cases
    case 1
    then show ?thesis using b(1) by (simp add: event_from_head)
  next
    case 2
    then show ?thesis by (auto simp: event_from_def)
  next
    case 3
    then obtain x where "x \<in> set body" "event_from f (stmt_events x) ev"
      using mapE_Inr_set [OF b(2) 3(1)] 14(1) by blast
    then have "event_from f (concat (map stmt_events body)) ev" by (rule event_from_concat)
    then show ?thesis unfolding stmt_events.simps by (intro event_from_Cons event_from_append(2))
  qed
next
  case (17 f g t e)
  then obtain g' ts es where b: "f g = Inr g'" "mapE (fallible_map_expr f) t = Inr ts"
    "mapE (fallible_map_expr f) e = Inr es" "s' = SIf g' ts es"
    by (auto simp: map2E_Inr_iff)
  then consider "ev = EvExpr g'" | y where "y \<in> set ts" "ev \<in> set (stmt_events y)"
    | y where "y \<in> set es" "ev \<in> set (stmt_events y)" using 17(4) by auto
  then show ?case
  proof cases
    case 1
    then show ?thesis using b(1) by (simp add: event_from_head)
  next
    case 2
    then obtain x where "x \<in> set t" "event_from f (stmt_events x) ev"
      using mapE_Inr_set [OF b(2) 2(1)] 17(1) by blast
    then have "event_from f (concat (map stmt_events t)) ev" by (rule event_from_concat)
    then show ?thesis unfolding stmt_events.simps by (intro event_from_Cons event_from_append(1))
  next
    case 3
    then obtain x where "x \<in> set e" "event_from f (stmt_events x) ev"
      using mapE_Inr_set [OF b(3) 3(1)] 17(2) by blast
    then have "event_from f (concat (map stmt_events e)) ev" by (rule event_from_concat)
    then show ?thesis unfolding stmt_events.simps by (intro event_from_Cons event_from_append(2))
  qed
next
  case (8 f n args m i p)
  then show ?case by (auto simp: map_sum_Inr_iff intro: event_from_exprs)
next
  case (9 f n args m i)
  then show ?case by (auto simp: map_sum_Inr_iff intro: event_from_exprs)
qed (auto simp: map_sum_Inr_iff map2E_Inr_iff event_from_head event_from_Cons event_from_label)

lemma patch_statements_stmts:
  assumes "patch_statements m w = Inr m'" "s' \<in> set (method_stmts m')"
  shows "\<exists>s \<in> set (method_stmts m). w s = Inr s'"
proof -
  obtain bs where bs: "mapE (\<lambda>b. map_sum id (\<lambda>ss. b\<lparr>cb_stmts := ss\<rparr>) (mapE w (cb_stmts b))) (cm_basic_blocks m) = Inr bs"
    "m' = m\<lparr>cm_basic_blocks := bs\<rparr>"
    using assms(1) by (auto simp: patch_statements_def map_sum_Inr_iff)
  then obtain b' where b': "b' \<in> set bs" "s' \<in> set (cb_stmts b')"
    using assms(2) by (auto simp: method_stmts_def)
  from mapE_Inr_set [OF bs(1) b'(1)] obtain b ss where "b \<in> set (cm_basic_blocks m)"
    "mapE w (cb_stmts b) = Inr ss" "b' = b\<lparr>cb_stmts := ss\<rparr>" by (auto simp: map_sum_Inr_iff)
  then show ?thesis using b'(2) mapE_Inr_set [of w "cb_stmts b" ss s'] by (auto simp: method_stmts_def)
qed

lemma patch_statements_rest:
  assumes "patch_statements m w = Inr m'"
  shows "map cb_successor (cm_basic_blocks m') = map cb_successor (cm_basic_blocks m) \<and>
    m' = m\<lparr>cm_basic_blocks := cm_basic_blocks m'\<rparr>"
  using assms
  by (auto simp: patch_statements_def map_sum_Inr_iff mapE_Inr_iff list_all2_conv_all_nth list_eq_iff_nth_eq)

lemma event_exprs_set: "set (event_exprs evs) = {e. EvExpr e \<in> set evs}"
  by (auto simp: event_exprs_def split: stmt_event.splits)

lemma pure_used_names: "is_pure e \<Longrightarrow> used_names_of e = mentioned e"
proof (induction e rule: expr_children_induct)
  case (step e)
  then show ?case using is_pure_unfold [of e] by (subst used_names_of.simps, subst mentioned.simps) auto
qed

lemma removed_event_source:
  assumes "patch_statements (m\<lparr>cm_local_vars := vs\<rparr>) (fallible_map_expr w) = Inr m'"
    and "s' \<in> set (method_stmts m')" "ev' \<in> set (stmt_events s')"
  shows "\<exists>s \<in> set (method_stmts m). event_from w (stmt_events s) ev'"
  using patch_statements_stmts [OF assms(1,2)] fallible_map_expr_events [OF _ assms(3)]
  by (auto simp: method_stmts_def)

lemma same_successors:
  assumes "patch_statements (m\<lparr>cm_local_vars := vs\<rparr>) w = Inr m'" "b' \<in> set (cm_basic_blocks m')"
  shows "\<exists>b \<in> set (cm_basic_blocks m). cb_successor b = cb_successor b'"
proof -
  have "cb_successor b' \<in> set (map cb_successor (cm_basic_blocks m'))" using assms(2) by simp
  then show ?thesis using patch_statements_rest [OF assms(1)] by auto
qed

lemma remove_unused_all_names:
  assumes "remove_unused (filter (\<lambda>v. lv_name v \<notin> collect_used_vars m) (cm_local_vars m)) e = Inr e'"
    and "\<forall>x \<in> subexprs e. plain_access (cm_local_vars m) (removed_names m) x"
    and "trigger_names e \<inter> removed_names m = {}" "n \<in> removed_names m" "n \<notin> used_names_of e"
  shows "n \<notin> all_names e'"
proof -
  let ?U = "filter (\<lambda>v. lv_name v \<notin> collect_used_vars m) (cm_local_vars m)"
  have U: "lv_name ` set ?U = removed_names m" by (auto simp: removed_names_def)
  have "n \<notin> mentioned e'"
    using remove_unused_mentioned [OF _ filter_is_subset assms(1), of n] assms(2,4,5) unfolding U by blast
  moreover have "n \<notin> trigger_names e'" using remove_unused_triggers [OF assms(1)] assms(3,4) by blast
  ultimately show ?thesis by (simp add: all_names_split)
qed

text \<open>
  C31 The removal of unused variables leaves no dangling name: a local variable it removes is no longer mentioned
  anywhere, not in any expression of a statement or guard, the triggers of quantifiers included, and not as a target
  of a call.  The variables it keeps are the used ones, in their order, and nothing but local variables and
  statements changes.  This holds under conditions on the removed names, which the pass does not check: a predicate
  is about a variable of its declared type itself (it may be a removed one) or mentions no removed name at all, a path
  from a removed variable included; the place of a field permission is a path from a variable of its declared type
  or mentions no removed name; no trigger mentions a removed name; guards are pure; and no package statement has a
  ghost variable named like a local variable.
\<close>

theorem remove_unused_vars_no_dangling:
  assumes "remove_unused_vars m = Inr m'"
    and "\<forall>s \<in> set (method_stmts m). \<forall>e. EvExpr e \<in> set (stmt_events s) \<longrightarrow>
      (\<forall>x \<in> subexprs e. plain_access (cm_local_vars m) (removed_names m) x)"
    and "\<forall>e \<in> set (method_exprs m). trigger_names e \<inter> removed_names m = {}"
    and "\<forall>b \<in> set (cm_basic_blocks m). \<forall>g \<in> set (successor_guards (cb_successor b)). is_pure g"
    and "\<forall>s \<in> set (method_stmts m). \<forall>v \<in> set (cm_local_vars m). lv_name v \<notin> ghost_names s"
  shows "cm_local_vars m' = filter (\<lambda>v. lv_name v \<in> collect_used_vars m) (cm_local_vars m) \<and>
    m' = m\<lparr>cm_local_vars := cm_local_vars m', cm_basic_blocks := cm_basic_blocks m'\<rparr> \<and>
    (\<forall>v \<in> set (cm_local_vars m) - set (cm_local_vars m').
       (\<forall>s \<in> set (method_stmts m'). \<forall>u. EvVar u \<in> set (stmt_events s) \<longrightarrow> lv_name u \<noteq> lv_name v) \<and>
       (\<forall>e \<in> set (method_exprs m'). lv_name v \<notin> all_names e))"
proof -
  let ?U = "filter (\<lambda>v. lv_name v \<notin> collect_used_vars m) (cm_local_vars m)"
  let ?m = "m\<lparr>cm_local_vars := filter (\<lambda>v. lv_name v \<in> collect_used_vars m) (cm_local_vars m)\<rparr>"
  have patch: "patch_statements ?m (fallible_map_expr (remove_unused ?U)) = Inr m'"
    using assms(1) by (simp add: remove_unused_vars_def Let_def)
  note rest = patch_statements_rest [OF patch]
  have locals: "cm_local_vars m' = filter (\<lambda>v. lv_name v \<in> collect_used_vars m) (cm_local_vars m)"
    by (subst rest [THEN conjunct2]) simp
  moreover have "m' = m\<lparr>cm_local_vars := cm_local_vars m', cm_basic_blocks := cm_basic_blocks m'\<rparr>"
    using rest locals by simp
  moreover have "(\<forall>s \<in> set (method_stmts m'). \<forall>u. EvVar u \<in> set (stmt_events s) \<longrightarrow> lv_name u \<noteq> lv_name v) \<and>
       (\<forall>e \<in> set (method_exprs m'). lv_name v \<notin> all_names e)"
    if v: "v \<in> set (cm_local_vars m) - set (cm_local_vars m')" for v
  proof -
    have unused: "lv_name v \<notin> collect_used_vars m" "v \<in> set ?U" using v locals by auto
    have "\<forall>s \<in> set (method_stmts m). lv_name v \<notin> ghost_names s" using assms(5) v by blast
    from collect_covers [OF this] unused(1)
    have no: "\<And>s. s \<in> set (method_stmts m) \<Longrightarrow> \<not> events_use (stmt_events s) (lv_name v)"
      and guard: "\<And>b g. b \<in> set (cm_basic_blocks m) \<Longrightarrow> g \<in> set (successor_guards (cb_successor b)) \<Longrightarrow>
        lv_name v \<notin> used_names_of g"
      by blast+
    have removed: "lv_name v \<in> removed_names m" using unused v by (auto simp: removed_names_def)
    have stmt: "lv_name v \<notin> all_names e'"
      if s': "s' \<in> set (method_stmts m')" "EvExpr e' \<in> set (stmt_events s')" for s' e'
    proof -
      from removed_event_source [OF patch s'] obtain s e where s: "s \<in> set (method_stmts m)"
        and e: "EvExpr e \<in> set (stmt_events s)" "remove_unused ?U e = Inr e'" by (auto simp: event_from_def)
      have "e \<in> set (method_exprs m)" using s e(1) by (auto simp: method_exprs_def event_exprs_set)
      then show ?thesis using remove_unused_all_names [OF e(2)] assms(2,3) no [OF s] s e(1) removed
        by (auto simp: events_use_def)
    qed
    have "lv_name u \<noteq> lv_name v" if s': "s' \<in> set (method_stmts m')" "EvVar u \<in> set (stmt_events s')" for s' u
      using removed_event_source [OF patch s'] no by (fastforce simp: event_from_def events_use_def)
    moreover have guards: "lv_name v \<notin> all_names g"
      if "b' \<in> set (cm_basic_blocks m')" "g \<in> set (successor_guards (cb_successor b'))" for b' g
    proof -
      from same_successors [OF patch that(1)] obtain b where b: "b \<in> set (cm_basic_blocks m)" "cb_successor b = cb_successor b'"
        by auto
      then have "g \<in> set (method_exprs m)" using that(2) by (auto simp: method_exprs_def intro: bexI [of _ b])
      then show ?thesis using guard [of b g] assms(3,4) that(2) b removed pure_used_names [of g] by (auto simp: all_names_split)
    qed
    moreover have "lv_name v \<notin> all_names e" if "e \<in> set (method_exprs m')" for e
      using that stmt guards by (auto simp: method_exprs_def event_exprs_set)
    ultimately show ?thesis by blast
  qed
  ultimately show ?thesis by blast
qed

definition ex_vars :: "stmt list \<Rightarrow> cfg_method" where
  "ex_vars ss = (cfg_new 7 ''m'' 0 [] [local_var_new ''x'' (TTypedRef ''T''), local_var_new ''y'' TInt] [])\<lparr>
     cm_basic_blocks := [\<lparr>cb_stmts = ss, cb_successor = SuccReturn\<rparr>], cm_basic_blocks_labels := [''start'']\<rparr>"

lemma ex_vars_simps [simp]:
  "method_stmts (ex_vars ss) = ss" "cm_basic_blocks (ex_vars ss) = [\<lparr>cb_stmts = ss, cb_successor = SuccReturn\<rparr>]"
  "cm_local_vars (ex_vars ss) = [local_var_new ''x'' (TTypedRef ''T''), local_var_new ''y'' TInt]"
  by (simp_all add: ex_vars_def method_stmts_def cfg_new_def)

definition ex_x :: expr where
  "ex_x = ELocal (local_var_new ''x'' (TTypedRef ''T'')) position_default"

lemma ex_x_facts [simp]:
  "mentioned ex_x = {''x''}" "children ex_x = []" "get_base ex_x = Some (local_var_new ''x'' (TTypedRef ''T''))"
  by (simp_all add: ex_x_def local_var_new_def)

lemma used_names_access [simp]:
  "used_names_of (EPredicateAccessPredicate n a m p) = {}" "used_names_of (EFieldAccessPredicate a m p) = {}"
  by (subst used_names_of.simps, simp)+

lemma collect_ex_vars:
  "collect_used_vars (ex_vars [SInhale (EPredicateAccessPredicate n a m p)]) = {}"
  by (simp add: collect_used_vars_def walk_statements_fold walk_successors_fold used_vars_walk_eq)

lemma names_ex_x [simp]:
  "all_names ex_x = {''x''}" "trigger_names ex_x = {}" "subexprs ex_x = {ex_x}" "deep_subexprs ex_x = {ex_x}"
proof -
  have parts: "trigger_parts ex_x = []" by (simp add: ex_x_def)
  then show no: "trigger_names ex_x = {}" by (subst trigger_names_unfold) simp
  show "all_names ex_x = {''x''}" using no by (simp add: all_names_split)
  show sub: "subexprs ex_x = {ex_x}" by (subst subexprs_unfold) simp
  show "deep_subexprs ex_x = {ex_x}" using parts sub by (subst deep_subexprs_split) (simp add: trigger_subexprs_def)
qed

lemma trigger_names_access [simp]:
  "trigger_names (EPredicateAccessPredicate n a m p) = trigger_names a"
  "trigger_names (EField a f p) = trigger_names a"
  by (simp_all add: trigger_names_unfold [of "EPredicateAccessPredicate n a m p"] trigger_names_unfold [of "EField a f p"])

theorem remove_unused_vars_no_dangling_witness:
  "\<exists>m'. remove_unused_vars (ex_vars [SInhale (EPredicateAccessPredicate ''P'' ex_x Write position_default)]) = Inr m' \<and>
     cm_local_vars m' = [] \<and> (\<forall>e \<in> set (method_exprs m'). ''x'' \<notin> all_names e)"
proof -
  let ?e = "EPredicateAccessPredicate ''P'' ex_x Write position_default"
  let ?m = "ex_vars [SInhale ?e]"
  have c: "collect_used_vars ?m = {}" by (rule collect_ex_vars)
  obtain m' where m': "remove_unused_vars ?m = Inr m'"
    by (simp add: remove_unused_vars_def c patch_statements_def)
  have sub: "subexprs ?e = {?e, ex_x}" by (subst subexprs_unfold) simp
  have "plain_access (cm_local_vars ?m) R ?e \<and> plain_access (cm_local_vars ?m) R ex_x" for R
    by (simp add: ex_x_def declared_as_def local_var_new_def)
  moreover have "\<forall>e \<in> set (method_exprs ?m). trigger_names e \<inter> removed_names ?m = {}"
    by (simp add: method_exprs_def event_exprs_def)
  ultimately have "cm_local_vars m' = [] \<and> (\<forall>v \<in> {local_var_new ''x'' (TTypedRef ''T'')}. \<forall>e \<in> set (method_exprs m'). lv_name v \<notin> all_names e)"
    using remove_unused_vars_no_dangling [OF m'] sub by (simp add: c)
  then show ?thesis using m' by (auto simp: local_var_new_def)
qed

text \<open>
  Without the conditions the pass does leave dangling names.  A variable that is mentioned only in a predicate on one
  of its fields, or only in a trigger, is removed from the local variables, but the predicate and the trigger stay
  and still mention it.
\<close>

theorem remove_unused_vars_dangling:
  "\<exists>m'. remove_unused_vars (ex_vars [SInhale (EPredicateAccessPredicate ''P''
       (EField ex_x (field_new ''f'' (TTypedRef ''P'')) position_default) Write position_default)]) = Inr m' \<and>
     cm_local_vars m' = [] \<and> (\<exists>e \<in> set (method_exprs m'). ''x'' \<in> all_names e)"
proof -
  let ?f = "EField ex_x (field_new ''f'' (TTypedRef ''P'')) position_default"
  let ?e = "EPredicateAccessPredicate ''P'' ?f Write position_default"
  have "mentioned ?f = {''x''}" by (subst mentioned.simps) (simp add: direct_names_def item_names_def)
  then show ?thesis
    by (auto simp: remove_unused_vars_def collect_ex_vars patch_statements_def method_exprs_def
        method_stmts_def event_exprs_def all_names_split)
qed

theorem remove_unused_vars_trigger_dangling:
  "\<exists>m'. remove_unused_vars (ex_vars [SInhale (EForAll [] [Trigger [ex_x]] (from_bool True) position_default)]) = Inr m' \<and>
     cm_local_vars m' = [] \<and> (\<exists>e \<in> set (method_exprs m'). ''x'' \<in> all_names e)"
proof -
  let ?e = "EForAll [] [Trigger [ex_x]] (from_bool True) position_default"
  have "used_names_of (from_bool True) = {}" by (subst used_names_of.simps) (simp add: from_bool_def direct_names_def)
  then have "used_names_of ?e = {}" by (subst used_names_of.simps) (simp add: direct_names_def item_names_def)
  then have c: "collect_used_vars (ex_vars [SInhale ?e]) = {}"
    by (simp add: collect_used_vars_def walk_statements_fold walk_successors_fold used_vars_walk_eq)
  have "''x'' \<in> trigger_names ?e" by (subst trigger_names_unfold) simp
  then have names: "''x'' \<in> all_names ?e" by (simp add: all_names_split)
  have "remove_unused U (from_bool True) = Inr (from_bool True)" for U
    by (subst remove_unused.simps) (simp add: from_bool_def fallible_fold_children_def)
  then have "remove_unused U ?e = Inr ?e" for U
    by (subst remove_unused.simps) (simp add: fallible_fold_children_def)
  then show ?thesis using names
    by (auto simp: remove_unused_vars_def c patch_statements_def method_exprs_def method_stmts_def event_exprs_def)
qed

theorem remove_trivial_assertions_traces_witness:
  "let ss = [SAssert (from_bool True) position_default, SComment ''c''];
       kept = keep_events (\<lambda>s. \<not> is_trivial s) [EvStep (ss ! 0), EvStep (ss ! 1), EvReturn]
   in kept = [EvStep (SComment ''c''), EvReturn] \<and>
      kept \<in> method_traces (remove_trivial_assertions (ex_vars ss)) \<and>
      is_trivial (ss ! 0) \<and> (\<forall>I l \<rho>. eval I l \<rho> (from_bool True) = Some (VBool True))"
proof -
  let ?a = "SAssert (from_bool True) position_default" and ?c = "SComment ''c''"
  let ?tr = "[EvStep ?a, EvStep ?c, EvReturn]"
  have "?tr \<in> method_traces (ex_vars [?a, ?c])"
    by (auto simp: method_traces_def intro: trace.intros)
  then have "keep_events (\<lambda>s. \<not> is_trivial s) ?tr \<in> method_traces (remove_trivial_assertions (ex_vars [?a, ?c]))"
    unfolding conjunct1 [OF remove_trivial_assertions_traces] by (rule imageI)
  moreover have triv: "is_trivial ?a" by (simp add: from_bool_def)
  moreover have "\<forall>I l \<rho>. eval I l \<rho> (from_bool True) = Some (VBool True)"
    using remove_trivial_assertions_traces [of "ex_vars []"] triv by blast
  ultimately show ?thesis by (simp add: Let_def)
qed

end
