(* ===== verification/Opt_Inliner.thy ===== *)
theory Opt_Inliner
  imports Vir_Function Opt_Methods
begin

section \<open>Inlining of constant functions (optimizations/functions/inliner.rs)\<close>

text \<open>
  Functions whose body is a constant are removed and their calls are replaced by the constant, until no
  function is removed any more.  The map of removed functions is a function from names to bodies.
\<close>

fun is_constant :: "expr \<Rightarrow> bool" where
  "is_constant (EConst _ _) = True"
| "is_constant (EUnaryOp _ e _) = is_constant e"
| "is_constant (EBinOp _ a b _) = (is_constant a \<and> is_constant b)"
| "is_constant _ = False"

definition has_constant_body :: "vfunction \<Rightarrow> bool" where
  "has_constant_body f = (case fn_body f of Some e \<Rightarrow> is_constant e | None \<Rightarrow> False)"

text \<open>The body on success, and the function, whose preconditions are cleared then.\<close>

definition try_purify :: "vfunction \<Rightarrow> expr option \<times> vfunction" where
  "try_purify f =
     (if has_constant_body f \<and> list_all is_only_permissions (fn_pres f) \<and> fn_posts f = []
      then (fn_body f, f\<lparr>fn_pres := []\<rparr>) else (None, f))"

type_synonym pure_function_map = "string \<rightharpoonup> expr"

function inline_calls :: "pure_function_map \<Rightarrow> expr \<Rightarrow> expr" where
  "inline_calls m e =
     (case e of
        EFuncApp name args formal_args return_type pos \<Rightarrow>
          (case m name of Some body \<Rightarrow> body | None \<Rightarrow> fold_children (inline_calls m) e)
      | EUnfolding name args body perm variant pos \<Rightarrow>
          (let body = inline_calls m body in
           if is_constant body then body
           else EUnfolding name (map (inline_calls m) args) body perm variant pos)
      | _ \<Rightarrow> fold_children (inline_calls m) e)"
  by pat_completeness auto
termination
  by (relation "measure (size \<circ> snd)")
    (auto simp: children_size less_Suc_eq_le intro: trans_le_add1 size_list_estimation' [OF _ order_refl])

declare inline_calls.simps [simp del]

definition inline_into :: "pure_function_map \<Rightarrow> vfunction \<Rightarrow> vfunction" where
  "inline_into m f = f\<lparr>fn_body := map_option (inline_calls m) (fn_body f)\<rparr>"

fun purify_round :: "vfunction list \<Rightarrow> vfunction list \<times> pure_function_map \<times> bool \<Rightarrow>
  vfunction list \<times> pure_function_map \<times> bool" where
  "purify_round [] acc = acc"
| "purify_round (f # fs) (non_pure, m, changed) =
     (case try_purify f of
        (Some body, f) \<Rightarrow> purify_round fs (non_pure, m(fn_name f \<mapsto> body), True)
      | (None, f) \<Rightarrow> purify_round fs (non_pure @ [f], m, changed))"

lemma purify_round_length:
  "purify_round fs (np, m, c) = (np', m', c') \<Longrightarrow>
   length np' \<le> length np + length fs \<and> (c' \<longrightarrow> c \<or> length np' < length np + length fs)"
  by (induction fs arbitrary: np m c) (fastforce split: prod.splits option.splits)+

function inline_loop :: "vfunction list \<Rightarrow> pure_function_map \<Rightarrow> vfunction list \<times> pure_function_map" where
  "inline_loop functions m =
     (case purify_round functions ([], m, False) of (non_pure, m, changed) \<Rightarrow>
        let functions = map (inline_into m) non_pure in
        if changed then inline_loop functions m else (functions, m))"
  by pat_completeness auto
termination by (relation "measure (length \<circ> fst)") (auto dest!: sym [THEN purify_round_length] purify_round_length)

declare inline_loop.simps [simp del]

definition inline_into_method :: "pure_function_map \<Rightarrow> cfg_method \<Rightarrow> cfg_method" where
  "inline_into_method m method =
     method\<lparr>cm_basic_blocks :=
       map (\<lambda>b. b\<lparr>cb_stmts := map (map_expr (inline_calls m)) (cb_stmts b)\<rparr>) (cm_basic_blocks method)\<rparr>"

definition inline_constant_functions ::
  "cfg_method list \<Rightarrow> vfunction list \<Rightarrow> cfg_method list \<times> vfunction list" where
  "inline_constant_functions methods functions =
     (case inline_loop functions Map.empty of (functions, m) \<Rightarrow>
        (map (inline_into_method m) methods, functions))"

subsection \<open>Inlining keeps values\<close>

text \<open>An interpretation that gives every function the value of its body.\<close>

definition implements :: "interp \<Rightarrow> vfunction \<Rightarrow> bool" where
  "implements I f \<longleftrightarrow> (\<forall>body l vs v \<rho>. fn_body f = Some body \<longrightarrow> i_fun I l (fn_name f) vs = Some v \<longrightarrow>
     eval I l (bind_vars (fn_formal_args f) vs \<rho>) body = Some v)"

definition constants_agree :: "interp \<Rightarrow> pure_function_map \<Rightarrow> bool" where
  "constants_agree I m \<longleftrightarrow> (\<forall>n b l vs v \<rho>. m n = Some b \<longrightarrow> i_fun I l n vs = Some v \<longrightarrow>
     eval I l \<rho> b = Some v)"

lemma constant_eval: "is_constant e \<Longrightarrow> eval I l \<rho> e = eval I l \<sigma> e"
  by (induction e rule: is_constant.induct) simp_all

lemma inline_calls_other:
  "(\<And>n as fs t p. e = EFuncApp n as fs t p \<Longrightarrow> m n = None) \<Longrightarrow>
   \<not> (\<exists>n as b q v p. e = EUnfolding n as b q v p) \<Longrightarrow> inline_calls m e = fold_children (inline_calls m) e"
  by (subst inline_calls.simps) (auto split: expr.split)

lemma inline_calls_call: "m n = Some body \<Longrightarrow> inline_calls m (EFuncApp n as fs t p) = body"
  by (simp add: inline_calls.simps [of _ "EFuncApp n as fs t p"])

lemma inline_calls_unfolding:
  "inline_calls m (EUnfolding n as b q v p) =
     (if is_constant (inline_calls m b) then inline_calls m b
      else EUnfolding n (map (inline_calls m) as) (inline_calls m b) q v p)"
  by (simp add: inline_calls.simps [of _ "EUnfolding n as b q v p"] Let_def)

lemma projections_kept_inline: "projections_kept (inline_calls m)"
  by (simp add: projections_kept_def inline_calls.simps [of _ "EField _ _ _"] inline_calls.simps [of _ "EVariant _ _ _"])

lemma inline_calls_eval:
  assumes agree: "constants_agree I m"
  shows "eval I l \<rho> e = Some v \<Longrightarrow> eval I l \<rho> (inline_calls m e) = Some v"
proof (induction e arbitrary: l \<rho> v rule: measure_induct_rule [of size])
  case (less e)
  consider (call) n as fs t p body where "e = EFuncApp n as fs t p" "m n = Some body"
    | (unf) n as b q w p where "e = EUnfolding n as b q w p"
    | (other) "\<And>n as fs t p. e = EFuncApp n as fs t p \<Longrightarrow> m n = None" "\<not> (\<exists>n as b q v p. e = EUnfolding n as b q v p)"
    by (cases e) auto
  then show ?case
  proof cases
    case call
    then obtain vs where "i_fun I l n vs = Some v" using less.prems by (auto simp: bind_eq_Some_conv)
    then show ?thesis using call agree by (simp add: inline_calls_call constants_agree_def)
  next
    case unf
    then obtain vs where vs: "mapO (eval I l \<rho>) as = Some vs" "eval I l \<rho> b = Some v"
      using less.prems by (auto simp: bind_eq_Some_conv)
    have "mapO (eval I l \<rho>) (map (inline_calls m) as) = Some vs"
      using vs(1) by (rule mapO_mono) (rule less.IH, use unf in \<open>auto simp: less_Suc_eq_le intro: trans_le_add1 size_list_estimation' [OF _ order_refl]\<close>)
    moreover have "eval I l \<rho> (inline_calls m b) = Some v" using less.IH vs(2) unf by simp
    ultimately show ?thesis using unf by (simp add: inline_calls_unfolding)
  next
    case other
    have "eval I l \<rho> (fold_children (inline_calls m) e) = Some v"
      by (rule eval_fold_children [OF _ projections_kept_inline less.prems]) (use less.IH eval_parts_size in blast)
    then show ?thesis using other by (simp add: inline_calls_other)
  qed
qed

lemma purify_round_agree:
  assumes "purify_round fs (np, m, c) = (np', m', c')" "constants_agree I m" "\<forall>f \<in> set fs. implements I f"
    "\<forall>f \<in> set np. implements I f"
  shows "constants_agree I m' \<and> (\<forall>f \<in> set np'. implements I f)"
  using assms
proof (induction fs arbitrary: np m c)
  case (Cons f fs)
  show ?case
  proof (cases "fst (try_purify f)")
    case None
    then have "purify_round fs (np @ [f], m, c) = (np', m', c')"
      using Cons.prems(1) by (auto simp: try_purify_def has_constant_body_def split: prod.splits if_splits option.splits)
    then show ?thesis using Cons.IH [of "np @ [f]" m c] Cons.prems by simp
  next
    case (Some body)
    then have b: "fn_body f = Some body" "is_constant body"
      by (auto simp: try_purify_def has_constant_body_def split: if_splits option.splits)
    have "purify_round fs (np, m(fn_name f \<mapsto> body), True) = (np', m', c')"
      using Cons.prems(1) Some by (auto simp: try_purify_def split: prod.splits if_splits)
    moreover have "constants_agree I (m(fn_name f \<mapsto> body))"
      unfolding constants_agree_def
    proof (intro allI impI)
      fix n e l vs v \<rho>
      assume n: "(m(fn_name f \<mapsto> body)) n = Some e" and v: "i_fun I l n vs = Some v"
      show "eval I l \<rho> e = Some v"
      proof (cases "n = fn_name f")
        case True
        then have "eval I l (bind_vars (fn_formal_args f) vs \<rho>) body = Some v"
          using Cons.prems(3) b(1) v by (simp add: implements_def)
        then show ?thesis using constant_eval [OF b(2), of I l \<rho> "bind_vars (fn_formal_args f) vs \<rho>"] n True by simp
      next
        case False
        then show ?thesis using Cons.prems(2) n v by (simp add: constants_agree_def)
      qed
    qed
    ultimately show ?thesis using Cons.IH Cons.prems by simp
  qed
qed simp

lemma inline_into_implements:
  "constants_agree I m \<Longrightarrow> implements I f \<Longrightarrow> implements I (inline_into m f)"
  by (auto simp: implements_def inline_into_def inline_calls_eval)

lemma inline_loop_agree:
  assumes "inline_loop fs m = (fs', m')" "constants_agree I m" "\<forall>f \<in> set fs. implements I f"
  shows "constants_agree I m' \<and> (\<forall>f \<in> set fs'. implements I f)"
  using assms
proof (induction fs m rule: inline_loop.induct)
  case (1 fs m)
  obtain np m1 c where round: "purify_round fs ([], m, False) = (np, m1, c)" by (cases "purify_round fs ([], m, False)")
  have "constants_agree I m1" "\<forall>f \<in> set (map (inline_into m1) np). implements I f"
    using purify_round_agree [OF round "1.prems"(2,3)] inline_into_implements by auto
  then show ?case
    using "1.IH" [OF round [symmetric] refl] "1.prems"(1) round
    by (auto simp: inline_loop.simps [of fs m] Let_def split: if_splits)
qed

text \<open>
  C10 Inlining constant functions keeps the meaning of a program.  In every interpretation that gives each
  function the value of its body, the functions that are left still have the values of their new bodies, and
  every statement of every method is rewritten by one translation of expressions that keeps the value of
  each expression that has one.
\<close>

theorem inline_constant_functions_sound:
  assumes "\<forall>f \<in> set functions. implements I f"
    and "inline_constant_functions methods functions = (methods', functions')"
  shows "(\<forall>f \<in> set functions'. implements I f) \<and>
    (\<exists>g. (\<forall>l \<rho> e v. eval I l \<rho> e = Some v \<longrightarrow> eval I l \<rho> (g e) = Some v) \<and>
       methods' = map (\<lambda>m. m\<lparr>cm_basic_blocks :=
         map (\<lambda>b. b\<lparr>cb_stmts := map (map_expr g) (cb_stmts b)\<rparr>) (cm_basic_blocks m)\<rparr>) methods)"
proof -
  obtain m where m: "inline_loop functions Map.empty = (functions', m)" "methods' = map (inline_into_method m) methods"
    using assms(2) by (auto simp: inline_constant_functions_def split: prod.splits)
  have agree: "constants_agree I m" "\<forall>f \<in> set functions'. implements I f"
    using inline_loop_agree [OF m(1) _ assms(1)] by (auto simp: constants_agree_def)
  have "methods' = map (\<lambda>method. method\<lparr>cm_basic_blocks :=
      map (\<lambda>b. b\<lparr>cb_stmts := map (map_expr (inline_calls m)) (cb_stmts b)\<rparr>) (cm_basic_blocks method)\<rparr>) methods"
    using m(2) by (simp add: inline_into_method_def)
  then show ?thesis using agree inline_calls_eval by blast
qed

subsection \<open>Removed functions are not called\<close>

fun own_call :: "expr \<Rightarrow> string set" where
  "own_call (EFuncApp n _ _ _ _) = {n}"
| "own_call _ = {}"

definition calls :: "expr \<Rightarrow> string set" where
  "calls e = (\<Union>x \<in> subexprs e. own_call x)"

lemma calls_unfold: "calls e = own_call e \<union> (\<Union>c \<in> set (children e). calls c)"
  unfolding calls_def by (subst subexprs_unfold) blast

lemma constant_no_calls: "is_constant e \<Longrightarrow> calls e = {}"
  by (induction e rule: is_constant.induct) (simp_all add: calls_unfold [of "EConst _ _"]
    calls_unfold [of "EUnaryOp _ _ _"] calls_unfold [of "EBinOp _ _ _ _"])

lemma own_call_fold_children: "own_call (fold_children f e) = own_call e"
  by (cases e) simp_all

lemma calls_fold_children: "calls (fold_children f e) = own_call e \<union> (\<Union>c \<in> set (children e). calls (f c))"
  by (subst calls_unfold) (simp add: own_call_fold_children)

lemma inline_calls_no_calls:
  assumes const: "\<And>n b. m n = Some b \<Longrightarrow> is_constant b"
  shows "calls (inline_calls m e) \<inter> dom m = {}"
proof (induction e rule: expr_children_induct)
  case (step e)
  consider (call) n as fs t p body where "e = EFuncApp n as fs t p" "m n = Some body"
    | (unf) n as b q w p where "e = EUnfolding n as b q w p"
    | (other) "\<And>n as fs t p. e = EFuncApp n as fs t p \<Longrightarrow> m n = None" "\<not> (\<exists>n as b q v p. e = EUnfolding n as b q v p)"
    by (cases e) auto
  then show ?case
  proof cases
    case call
    then show ?thesis using constant_no_calls const by (simp add: inline_calls_call)
  next
    case unf
    then have "calls (inline_calls m c) \<inter> dom m = {}" if "c \<in> insert b (set as)" for c using step that by auto
    then show ?thesis using unf by (auto simp: inline_calls_unfolding calls_unfold [of "EUnfolding _ _ _ _ _ _"])
  next
    case other
    have "calls (inline_calls m e) = own_call e \<union> (\<Union>c \<in> set (children e). calls (inline_calls m c))"
      using calls_fold_children [of "inline_calls m" e] other by (simp add: inline_calls_other)
    moreover have "own_call e \<inter> dom m = {}" using other(1) by (cases e) (simp_all add: dom_def)
    ultimately show ?thesis using step by blast
  qed
qed

text \<open>Calls in triggers, and all calls.  A fold does not enter triggers, so inlining keeps the calls in them.\<close>

definition trigger_calls :: "expr \<Rightarrow> string set" where
  "trigger_calls e = (\<Union>x \<in> trigger_subexprs e. own_call x)"

definition all_calls :: "expr \<Rightarrow> string set" where
  "all_calls e = (\<Union>x \<in> deep_subexprs e. own_call x)"

lemma all_calls_split: "all_calls e = calls e \<union> trigger_calls e"
  by (simp add: all_calls_def calls_def trigger_calls_def deep_subexprs_split)

lemma trigger_calls_unfold:
  "trigger_calls e = (\<Union>t \<in> set (trigger_parts e). all_calls t) \<union> (\<Union>c \<in> set (children e). trigger_calls c)"
  unfolding trigger_calls_def all_calls_def by (subst trigger_subexprs_unfold) blast

lemma trigger_calls_fold_children:
  "trigger_calls (fold_children f e) =
     (\<Union>t \<in> set (trigger_parts e). all_calls t) \<union> (\<Union>c \<in> set (children e). trigger_calls (f c))"
  unfolding trigger_calls_def all_calls_def trigger_subexprs_fold_children by (rule set_eqI) auto

lemma constant_no_trigger_calls: "is_constant e \<Longrightarrow> trigger_calls e = {}"
  by (induction e rule: is_constant.induct) (simp_all add: trigger_calls_unfold [of "EConst _ _"]
    trigger_calls_unfold [of "EUnaryOp _ _ _"] trigger_calls_unfold [of "EBinOp _ _ _ _"])

lemma inline_calls_trigger_calls:
  assumes const: "\<And>n b. m n = Some b \<Longrightarrow> is_constant b"
  shows "trigger_calls (inline_calls m e) \<subseteq> trigger_calls e"
proof (induction e rule: expr_children_induct)
  case (step e)
  consider (call) n as fs t p body where "e = EFuncApp n as fs t p" "m n = Some body"
    | (unf) n as b q w p where "e = EUnfolding n as b q w p"
    | (other) "\<And>n as fs t p. e = EFuncApp n as fs t p \<Longrightarrow> m n = None" "\<not> (\<exists>n as b q v p. e = EUnfolding n as b q v p)"
    by (cases e) auto
  then show ?case
  proof cases
    case call
    then show ?thesis using constant_no_trigger_calls const by (simp add: inline_calls_call)
  next
    case unf
    then have "trigger_calls (inline_calls m c) \<subseteq> trigger_calls c" if "c \<in> insert b (set as)" for c using step that by auto
    then show ?thesis using unf
      by (auto simp: inline_calls_unfolding trigger_calls_unfold [of "EUnfolding _ _ _ _ _ _"])
  next
    case other
    then have "inline_calls m e = fold_children (inline_calls m) e" by (rule inline_calls_other)
    then show ?thesis using step
      by (simp only: trigger_calls_fold_children trigger_calls_unfold [of e]) blast
  qed
qed

definition trigger_free :: "string \<Rightarrow> vfunction list \<Rightarrow> bool" where
  "trigger_free n fs \<longleftrightarrow> (\<forall>g \<in> set fs. \<forall>body. fn_body g = Some body \<longrightarrow> n \<notin> trigger_calls body)"

lemma purify_round_keeps: "purify_round fs (np, m, c) = (np', m', c') \<Longrightarrow> set np' \<subseteq> set fs \<union> set np"
proof (induction fs arbitrary: np m c)
  case (Cons f fs)
  show ?case
  proof (cases "fst (try_purify f)")
    case None
    then have "purify_round fs (np @ [f], m, c) = (np', m', c')"
      using Cons.prems by (auto simp: try_purify_def has_constant_body_def split: prod.splits if_splits option.splits)
    from Cons.IH [OF this] show ?thesis by auto
  next
    case (Some body)
    then have "purify_round fs (np, m(fn_name f \<mapsto> body), True) = (np', m', c')"
      using Cons.prems by (auto simp: try_purify_def split: prod.splits if_splits)
    from Cons.IH [OF this] show ?thesis by auto
  qed
qed simp

lemma purify_round_names:
  "purify_round fs (np, m, c) = (np', m', c') \<Longrightarrow> (\<forall>n b. m n = Some b \<longrightarrow> is_constant b) \<Longrightarrow>
   (\<forall>n b. m' n = Some b \<longrightarrow> is_constant b) \<and> dom m \<subseteq> dom m' \<and>
   fn_name ` set fs \<union> fn_name ` set np \<subseteq> dom m' \<union> fn_name ` set np'"
proof (induction fs arbitrary: np m c)
  case (Cons f fs)
  show ?case
  proof (cases "fst (try_purify f)")
    case None
    then have "purify_round fs (np @ [f], m, c) = (np', m', c')"
      using Cons.prems(1) by (auto simp: try_purify_def has_constant_body_def split: prod.splits if_splits option.splits)
    then show ?thesis using Cons.IH [of "np @ [f]" m c] Cons.prems(2) by simp
  next
    case (Some body)
    then have b: "is_constant body"
      by (auto simp: try_purify_def has_constant_body_def split: if_splits option.splits)
    have run: "purify_round fs (np, m(fn_name f \<mapsto> body), True) = (np', m', c')"
      using Cons.prems(1) Some by (auto simp: try_purify_def split: prod.splits if_splits)
    have IH: "(\<forall>n b. m' n = Some b \<longrightarrow> is_constant b) \<and> dom (m(fn_name f \<mapsto> body)) \<subseteq> dom m' \<and>
        fn_name ` set fs \<union> fn_name ` set np \<subseteq> dom m' \<union> fn_name ` set np'"
      by (rule Cons.IH [OF run]) (use Cons.prems(2) b in simp)
    moreover from IH have "fn_name f \<in> dom m'" "dom m \<subseteq> dom m'" by (auto simp del: domIff)
    ultimately show ?thesis by simp
  qed
qed simp

lemma inline_loop_names:
  "inline_loop fs m = (fs', m') \<Longrightarrow> (\<forall>n b. m n = Some b \<longrightarrow> is_constant b) \<Longrightarrow>
   (\<forall>n b. m' n = Some b \<longrightarrow> is_constant b) \<and> fn_name ` set fs \<subseteq> dom m' \<union> fn_name ` set fs' \<and> dom m \<subseteq> dom m' \<and>
   (\<forall>g \<in> set fs'. \<forall>body. fn_body g = Some body \<longrightarrow> calls body \<inter> dom m' = {})"
proof (induction fs m rule: inline_loop.induct)
  case (1 fs m)
  obtain np m1 c where round: "purify_round fs ([], m, False) = (np, m1, c)" by (cases "purify_round fs ([], m, False)")
  note names = purify_round_names [OF round "1.prems"(2)]
  let ?fs = "map (inline_into m1) np"
  have same: "fn_name ` set ?fs = fn_name ` set np" by (simp add: image_image inline_into_def)
  show ?case
  proof (cases c)
    case True
    then have run: "inline_loop ?fs m1 = (fs', m')" using "1.prems"(1) round by (simp add: inline_loop.simps [of fs m])
    note IH = "1.IH" [OF round [symmetric] refl refl True run conjunct1 [OF names], unfolded same]
    have "dom m \<subseteq> dom m'"
      using conjunct1 [OF conjunct2 [OF names]] conjunct1 [OF conjunct2 [OF conjunct2 [OF IH]]] by (rule order_trans)
    moreover have "fn_name ` set fs \<subseteq> dom m1 \<union> fn_name ` set np" "dom m1 \<union> fn_name ` set np \<subseteq> dom m' \<union> fn_name ` set fs'"
      using names conjunct1 [OF conjunct2 [OF conjunct2 [OF IH]]] conjunct1 [OF conjunct2 [OF IH]]
      by (simp_all add: le_supI1)
    then have "fn_name ` set fs \<subseteq> dom m' \<union> fn_name ` set fs'" by (rule order_trans)
    ultimately show ?thesis using IH by simp
  next
    case False
    then have res: "fs' = ?fs" "m' = m1" using "1.prems"(1) round by (auto simp: inline_loop.simps [of fs m])
    have "calls body \<inter> dom m1 = {}" if g: "g \<in> set ?fs" "fn_body g = Some body" for g body
    proof -
      obtain e where "body = inline_calls m1 e" using g by (auto simp: inline_into_def)
      then show ?thesis using inline_calls_no_calls [of m1 e] names by blast
    qed
    then show ?thesis using names same res by auto
  qed
qed

lemma inline_loop_trigger_free:
  "inline_loop fs m = (fs', m') \<Longrightarrow> (\<forall>n b. m n = Some b \<longrightarrow> is_constant b) \<Longrightarrow> trigger_free n fs \<Longrightarrow> trigger_free n fs'"
proof (induction fs m rule: inline_loop.induct)
  case (1 fs m)
  obtain np m1 c where round: "purify_round fs ([], m, False) = (np, m1, c)" by (cases "purify_round fs ([], m, False)")
  have const: "\<forall>n b. m1 n = Some b \<longrightarrow> is_constant b" using purify_round_names [OF round "1.prems"(2)] by blast
  have "n \<notin> trigger_calls (inline_calls m1 body)" if "g \<in> set np" "fn_body g = Some body" for g body
  proof -
    have "n \<notin> trigger_calls body" using purify_round_keeps [OF round] "1.prems"(3) that by (auto simp: trigger_free_def)
    then show ?thesis using inline_calls_trigger_calls [of m1 body] const by blast
  qed
  then have free: "trigger_free n (map (inline_into m1) np)" by (auto simp: trigger_free_def inline_into_def)
  then show ?case
    using "1.IH" [OF round [symmetric] refl] "1.prems"(1) round const
    by (auto simp: inline_loop.simps [of fs m] Let_def split: if_splits)
qed

text \<open>
  C14 A function that the inliner removes is called neither in the body of a function that is left nor in any
  expression of a statement of a method, the triggers of quantifiers included, provided that no trigger of the
  program calls it: the folder does not enter triggers, and a call in a trigger stays.
\<close>

theorem inline_constant_functions_no_calls:
  assumes "inline_constant_functions methods functions = (methods', functions')"
    and "f \<in> set functions" "fn_name f \<notin> fn_name ` set functions'"
    and "\<forall>g \<in> set functions. \<forall>body. fn_body g = Some body \<longrightarrow> fn_name f \<notin> trigger_calls body"
    and "\<forall>m \<in> set methods. \<forall>s \<in> set (method_stmts m). \<forall>e. EvExpr e \<in> set (stmt_events s) \<longrightarrow> fn_name f \<notin> trigger_calls e"
  shows "(\<forall>g \<in> set functions'. \<forall>body. fn_body g = Some body \<longrightarrow> fn_name f \<notin> all_calls body) \<and>
    (\<forall>m \<in> set methods'. \<forall>s \<in> set (method_stmts m). \<forall>e. EvExpr e \<in> set (stmt_events s) \<longrightarrow> fn_name f \<notin> all_calls e)"
proof -
  obtain m where m: "inline_loop functions Map.empty = (functions', m)" "methods' = map (inline_into_method m) methods"
    using assms(1) by (auto simp: inline_constant_functions_def split: prod.splits)
  note names = inline_loop_names [OF m(1), simplified]
  have f: "fn_name f \<in> dom m" using names assms(2,3) by blast
  have const: "\<And>n b. m n = Some b \<Longrightarrow> is_constant b" using names by blast
  have "fn_name f \<notin> all_calls e"
    if s: "mth \<in> set methods" "s \<in> set (method_stmts (inline_into_method m mth))" and e: "EvExpr e \<in> set (stmt_events s)"
    for mth s e
  proof -
    obtain s0 where s0: "s0 \<in> set (method_stmts mth)" "s = map_expr (inline_calls m) s0"
      using s(2) by (auto simp: method_stmts_def inline_into_method_def)
    then have "fallible_map_expr (\<lambda>e. Inr (inline_calls m e) :: unit + expr) s0 = Inr s" by (simp add: fallible_map_expr_pure)
    from fallible_map_expr_events [OF this e] obtain e0 where
      e0: "EvExpr e0 \<in> set (stmt_events s0)" "e = inline_calls m e0" by (auto simp: event_from_def)
    then have "fn_name f \<notin> trigger_calls e0" using assms(5) s(1) s0(1) by blast
    moreover have "trigger_calls e \<subseteq> trigger_calls e0" unfolding e0(2) by (rule inline_calls_trigger_calls) (rule const)
    moreover have "calls e \<inter> dom m = {}" unfolding e0(2) by (rule inline_calls_no_calls) (rule const)
    ultimately show ?thesis using f by (auto simp: all_calls_split)
  qed
  moreover have "fn_name f \<notin> all_calls body" if g: "g \<in> set functions'" "fn_body g = Some body" for g body
  proof -
    have "trigger_free (fn_name f) functions" using assms(4) by (simp add: trigger_free_def)
    from inline_loop_trigger_free [OF m(1) _ this] have "fn_name f \<notin> trigger_calls body"
      using g by (auto simp: trigger_free_def)
    moreover have "calls body \<inter> dom m = {}" using names g by blast
    ultimately show ?thesis using f by (auto simp: all_calls_split)
  qed
  ultimately show ?thesis using m(2) by simp
qed

subsection \<open>Examples\<close>

definition ex_call :: "string \<Rightarrow> expr" where
  "ex_call n = EFuncApp n [] [] TBool position_default"

definition ex_fun :: "string \<Rightarrow> expr list \<Rightarrow> expr \<Rightarrow> vfunction" where
  "ex_fun n pres body = \<lparr>fn_name = n, fn_formal_args = [], fn_return_type = TBool, fn_pres = pres, fn_posts = [],
     fn_body = Some body\<rparr>"

text \<open>\<open>f\<close> is constant, \<open>g\<close> becomes constant by inlining \<open>f\<close>, and \<open>h\<close> stays.\<close>

definition ex_functions :: "vfunction list" where
  "ex_functions = [ex_fun ''g'' [] (expr_not (ex_call ''f'')), ex_fun ''f'' [] (from_bool False),
     ex_fun ''h'' [] (expr_local (local_var_new ''x'' TBool))]"

definition ex_calling :: cfg_method where
  "ex_calling = (cfg_new 7 ''m'' 0 [] [] [])\<lparr>
     cm_basic_blocks := [\<lparr>cb_stmts = [SAssert (ex_call ''g'') position_default],
       cb_successor = SuccGotoSwitch [(ex_call ''g'', \<lparr>bi_method_uuid = 7, bi_index = 1\<rparr>)] \<lparr>bi_method_uuid = 7, bi_index = 1\<rparr>\<rparr>,
       ex_block SuccReturn],
     cm_basic_blocks_labels := [''start'', ''a'']\<rparr>"

definition ex_interp :: interp where
  "ex_interp = \<lparr>i_heap = (\<lambda>_ _ _. None), i_addr = (\<lambda>_. None), i_pred = (\<lambda>_ _ _ _. None),
     i_facc = (\<lambda>_ _ _ _. None), i_wand = (\<lambda>_ _ _. None),
     i_fun = (\<lambda>_ n _. if n = ''f'' then Some (VBool False) else if n = ''g'' then Some (VBool True) else None),
     i_dom = (\<lambda>_ _. None), i_snap = (\<lambda>_ _. None), i_const = (\<lambda>_. None)\<rparr>"

lemma ex_inline_run:
  "map fn_name (snd (inline_constant_functions [ex_calling] ex_functions)) = [''h'']"
  "map (\<lambda>m. concat (map stmt_events (method_stmts m))) (fst (inline_constant_functions [ex_calling] ex_functions)) =
     [[EvExpr (expr_not (from_bool False))]]"
  by code_simp+

theorem inline_constant_functions_sound_witness:
  "list_all (implements ex_interp) ex_functions \<and>
   list_all (implements ex_interp) (snd (inline_constant_functions [ex_calling] ex_functions))"
proof -
  have impl: "\<forall>f \<in> set ex_functions. implements ex_interp f"
    by (auto simp: ex_functions_def ex_fun_def ex_call_def ex_interp_def implements_def typed_def
      from_bool_def expr_not_def)
  then show ?thesis
    using inline_constant_functions_sound [OF impl, of "[ex_calling]"]
    by (cases "inline_constant_functions [ex_calling] ex_functions") (auto simp: list_all_iff)
qed

lemma ex_calls_simps [simp]:
  "trigger_calls (EFuncApp n as fs t p) = (\<Union>a \<in> set as. trigger_calls a)"
  "trigger_calls (EUnaryOp op a p) = trigger_calls a" "trigger_calls (EConst c p) = {}" "trigger_calls (ELocal v p) = {}"
  "all_calls (EFuncApp n as fs t p) = insert n (\<Union>a \<in> set as. all_calls a)"
  by (simp_all add: trigger_calls_unfold [of "EFuncApp n as fs t p"] trigger_calls_unfold [of "EUnaryOp op a p"]
    trigger_calls_unfold [of "EConst c p"] trigger_calls_unfold [of "ELocal v p"] all_calls_split calls_unfold [of "EFuncApp n as fs t p"] UN_Un_distrib)

lemma ex_calling_events:
  "map stmt_events (method_stmts ex_calling) = [[EvExpr (ex_call ''g'')]]"
  by code_simp

theorem inline_constant_functions_no_calls_witness:
  "''g'' \<in> all_calls (ex_call ''g'') \<and> ''g'' \<notin> all_calls (expr_not (from_bool False))"
proof -
  let ?r = "inline_constant_functions [ex_calling] ex_functions"
  let ?g = "ex_fun ''g'' [] (expr_not (ex_call ''f''))"
  have name: "fn_name ?g = ''g''" by (simp add: ex_fun_def)
  have removed: "''g'' \<notin> fn_name ` set (snd ?r)"
    using arg_cong [OF ex_inline_run(1), of set] by simp
  have mem: "?g \<in> set ex_functions" by (simp add: ex_functions_def)
  have bodies: "\<forall>h \<in> set ex_functions. \<forall>body. fn_body h = Some body \<longrightarrow> ''g'' \<notin> trigger_calls body"
    by (simp add: ex_functions_def ex_fun_def ex_call_def expr_not_def from_bool_def expr_local_def)
  have stmts: "\<forall>m \<in> set [ex_calling]. \<forall>s \<in> set (method_stmts m). \<forall>e. EvExpr e \<in> set (stmt_events s) \<longrightarrow>
      ''g'' \<notin> trigger_calls e"
  proof -
    have "''g'' \<notin> trigger_calls e" if "s \<in> set (method_stmts ex_calling)" "EvExpr e \<in> set (stmt_events s)" for s e
    proof -
      have "e = ex_call ''g''" using ex_calling_events that by (cases "method_stmts ex_calling") auto
      then show ?thesis by (simp add: ex_call_def)
    qed
    then show ?thesis by simp
  qed
  have run: "inline_constant_functions [ex_calling] ex_functions = (fst ?r, snd ?r)" by simp
  have "EvExpr (expr_not (from_bool False)) \<in>
      set (concat (map (\<lambda>m. concat (map stmt_events (method_stmts m))) (fst ?r)))"
    unfolding ex_inline_run(2) by simp
  then have "''g'' \<notin> all_calls (expr_not (from_bool False))"
    using inline_constant_functions_no_calls [OF run mem, unfolded name, OF removed bodies stmts] by auto
  moreover have "''g'' \<in> all_calls (ex_call ''g'')" by (simp add: ex_call_def)
  ultimately show ?thesis by blast
qed

text \<open>A call in a trigger stays, in the body of a function and in a statement, and refers to a removed function.\<close>

definition ex_triggered :: expr where
  "ex_triggered = EForAll [] [Trigger [ex_call ''f'']] (EUnaryOp UnNot (ELocal (local_var_new ''b'' TBool) position_default) position_default) position_default"

theorem inline_keeps_trigger_calls:
  "case inline_constant_functions [] [ex_fun ''f'' [] (from_bool True), ex_fun ''h'' [] ex_triggered] of (ms, fs) \<Rightarrow>
     map (\<lambda>f. (fn_name f, fn_body f)) fs = [(''h'', Some ex_triggered)]"
  "''f'' \<in> all_calls ex_triggered"
proof -
  show "case inline_constant_functions [] [ex_fun ''f'' [] (from_bool True), ex_fun ''h'' [] ex_triggered] of (ms, fs) \<Rightarrow>
     map (\<lambda>f. (fn_name f, fn_body f)) fs = [(''h'', Some ex_triggered)]"
    by code_simp
  have "''f'' \<in> trigger_calls ex_triggered"
    by (subst trigger_calls_unfold) (simp add: ex_triggered_def ex_call_def)
  then show "''f'' \<in> all_calls ex_triggered" by (simp add: all_calls_split)
qed

text \<open>The guards of successors and the preconditions of functions are not rewritten, and keep their calls.\<close>

theorem inline_leaves_dangling_guard:
  "case inline_constant_functions [ex_calling] ex_functions of (ms, fs) \<Rightarrow>
     map (\<lambda>m. successor_guards (cb_successor (cm_basic_blocks m ! 0))) ms = [[ex_call ''g'']] \<and>
     ''g'' \<notin> set (map fn_name fs)"
  by code_simp

text \<open>
  The loop stops when no function was removed in a round, although the inlining at the end of that round can
  make a body constant.
\<close>

theorem inline_not_a_fixpoint:
  "let f = ex_fun ''f'' [] (EUnfolding ''T'' [] (from_bool True) Read None position_default)
   in case inline_constant_functions [] [f] of (_, fs) \<Rightarrow>
        map (\<lambda>g. (fn_name g, fst (try_purify g))) fs = [(''f'', Some (from_bool True))]"
  by code_simp

end
