(* ===== verification/Vir_Predicate.thy ===== *)
theory Vir_Predicate
  imports Vir_Place
begin

section \<open>VIR predicates (prusti-common/src/vir/ast/predicate.rs)\<close>

text \<open>
  The predicates that encode Rust types: a struct predicate has an optional body, an enum predicate
  a discriminant field and one struct predicate per variant.  The constructors of the source are
  definitions; \<open>unwrap\<close> on a field whose type is not a reference is \<open>None\<close>.
\<close>

record struct_predicate =
  sp_name :: string
  sp_this :: local_var
  sp_body :: "expr option"

record enum_predicate =
  ep_name :: string
  ep_this :: local_var
  ep_discriminant_field :: vfield
  ep_discriminant_bounds :: expr
  ep_variants :: "(expr \<times> string \<times> struct_predicate) list"

datatype predicate =
    PStruct struct_predicate
  | PEnum enum_predicate
  | PBodyless string local_var

definition construct_this :: "type \<Rightarrow> local_var" where
  "construct_this typ = local_var_new ''self'' typ"

definition new_abstract :: "type \<Rightarrow> predicate" where
  "new_abstract typ = PStruct \<lparr>sp_name = type_name typ, sp_this = construct_this typ, sp_body = None\<rparr>"

fun is_abstract :: "predicate \<Rightarrow> bool" where
  "is_abstract (PStruct p) = (sp_body p = None)"
| "is_abstract _ = False"

definition new_primitive_value :: "type \<Rightarrow> vfield \<Rightarrow> (expr \<times> expr) option \<Rightarrow> bool \<Rightarrow> predicate" where
  "new_primitive_value typ field bounds is_unsigned =
     (let this = construct_this typ;
          val_field = expr_field (from_local this) field;
          perm = acc_permission val_field Write;
          conjuncts = perm #
            (case bounds of
               Some (lower, upper) \<Rightarrow> [le_cmp lower val_field, le_cmp val_field upper]
             | None \<Rightarrow> (if is_unsigned then [le_cmp int_zero val_field] else []))
      in PStruct \<lparr>sp_name = type_name typ, sp_this = this, sp_body = Some (conjoin conjuncts)\<rparr>)"

definition field_permissions :: "local_var \<Rightarrow> vfield \<Rightarrow> expr list option" where
  "field_permissions this field =
     map_option (\<lambda>predicate_name.
         let location = expr_field (from_local this) field
         in [acc_permission location Write, predicate_access_predicate predicate_name location Write])
       (field_typed_ref_name field)"

definition struct_predicate_new :: "type \<Rightarrow> vfield list \<Rightarrow> struct_predicate option" where
  "struct_predicate_new typ flds =
     (let this = construct_this typ in
      map_option (\<lambda>parts. \<lparr>sp_name = type_name typ, sp_this = this, sp_body = Some (conjoin (concat parts))\<rparr>)
        (mapO (field_permissions this) flds))"

definition new_struct :: "type \<Rightarrow> vfield list \<Rightarrow> predicate option" where
  "new_struct typ flds = map_option PStruct (struct_predicate_new typ flds)"

definition new_enum ::
  "local_var \<Rightarrow> vfield \<Rightarrow> expr \<Rightarrow> (expr \<times> string \<times> struct_predicate) list \<Rightarrow> predicate" where
  "new_enum this discriminant_field discriminant_bounds variants =
     PEnum \<lparr>ep_name = type_name (lv_typ this), ep_this = this, ep_discriminant_field = discriminant_field,
        ep_discriminant_bounds = discriminant_bounds, ep_variants = variants\<rparr>"

fun self_place :: "predicate \<Rightarrow> expr" where
  "self_place (PStruct p) = from_local (sp_this p)"
| "self_place (PEnum p) = from_local (ep_this p)"
| "self_place (PBodyless _ this) = from_local this"

fun predicate_name :: "predicate \<Rightarrow> string" where
  "predicate_name (PStruct p) = sp_name p"
| "predicate_name (PEnum p) = ep_name p"
| "predicate_name (PBodyless name _) = name"

definition construct_access :: "struct_predicate \<Rightarrow> expr \<Rightarrow> perm_amount \<Rightarrow> expr" where
  "construct_access p this perm_amount = EPredicateAccessPredicate (sp_name p) this perm_amount position_default"

definition has_empty_body :: "struct_predicate \<Rightarrow> bool" where
  "has_empty_body p = (case sp_body p of Some (EConst (CBool True) _) \<Rightarrow> True | _ \<Rightarrow> False)"

definition variant_part :: "enum_predicate \<Rightarrow> expr \<times> string \<times> struct_predicate \<Rightarrow> expr list" where
  "variant_part e v = (case v of (guard, name, variant) \<Rightarrow>
     (if has_empty_body variant then []
      else
        let field = field_new (''enum_'' @ name) (lv_typ (sp_this variant));
            location = expr_field (from_local (ep_this e)) field;
            field_perm = acc_permission location Write;
            pred_perm = construct_access variant location Write
        in [expr_and field_perm (expr_implies guard pred_perm)]))"

definition enum_body :: "enum_predicate \<Rightarrow> expr" where
  "enum_body e =
     (let discriminant_loc = expr_field (from_local (ep_this e)) (ep_discriminant_field e);
          discriminant_perm = acc_permission discriminant_loc Write
      in conjoin ([discriminant_perm, ep_discriminant_bounds e] @ concat (map (variant_part e) (ep_variants e))))"

end
