(* ===== verification/Opt_Predicates.thy ===== *)
theory Opt_Predicates
  imports Vir_Predicate Vir_Function Opt_Methods "HOL-Library.AList"
begin

section \<open>Removal of unused predicates (optimizations/predicates/delete_unused_predicates.rs)\<close>

text \<open>
  Predicates that neither the methods and functions nor, transitively, the bodies of used predicates mention
  are deleted, and struct predicates that are never folded or unfolded lose their body.  The ordered sets
  and maps of names are lists without duplicates and association lists here: the result does not depend on
  the order in which the names are visited.
\<close>

record used_predicate_collector =
  up_used_predicates :: "string list"
  up_folded_predicates :: "string list"

definition collector_new :: used_predicate_collector where
  "collector_new = \<lparr>up_used_predicates = [], up_folded_predicates = []\<rparr>"

definition add_used :: "string \<Rightarrow> used_predicate_collector \<Rightarrow> used_predicate_collector" where
  "add_used n c = c\<lparr>up_used_predicates := List.insert n (up_used_predicates c)\<rparr>"

definition add_folded :: "string \<Rightarrow> used_predicate_collector \<Rightarrow> used_predicate_collector" where
  "add_folded n c = c\<lparr>up_folded_predicates := List.insert n (up_folded_predicates c)\<rparr>"

function collect_expr :: "expr \<Rightarrow> used_predicate_collector \<Rightarrow> used_predicate_collector" where
  "collect_expr e c =
     (case e of
        EPredicateAccessPredicate name arg _ _ \<Rightarrow> collect_expr arg (add_used name c)
      | EUnfolding name args body _ _ _ \<Rightarrow>
          collect_expr body (fold collect_expr args (add_folded name (add_used name c)))
      | _ \<Rightarrow> default_walk_expr collect_expr (\<lambda>_ c. c) e c)"
  by pat_completeness auto
termination
  by (relation "measure (size \<circ> fst)")
    (auto simp: children_size less_Suc_eq_le intro: trans_le_add1 size_list_estimation' [OF _ order_refl])

declare collect_expr.simps [simp del]

fun collect_stmt :: "stmt \<Rightarrow> used_predicate_collector \<Rightarrow> used_predicate_collector" where
  "collect_stmt (SFold name _ _ _ _) c = add_used name (add_folded name c)"
| "collect_stmt (SUnfold name _ _ _) c = add_used name (add_folded name c)"
| "collect_stmt (SPackageMagicWand wand body _ _ _) c = fold collect_stmt body (collect_expr wand c)"
| "collect_stmt (SIf g t e) c = fold collect_stmt e (fold collect_stmt t (collect_expr g c))"
| "collect_stmt s c = fold collect_expr (event_exprs (stmt_events s)) c"

definition walk_method ::
  "(stmt \<Rightarrow> 's \<Rightarrow> 's) \<Rightarrow> (expr \<Rightarrow> 's \<Rightarrow> 's) \<Rightarrow> cfg_method \<Rightarrow> 's \<Rightarrow> 's" where
  "walk_method ws we m s = walk_successors m (\<lambda>succ. fold we (successor_guards succ)) (walk_statements m ws s)"

definition walk_methods ::
  "(stmt \<Rightarrow> 's \<Rightarrow> 's) \<Rightarrow> (expr \<Rightarrow> 's \<Rightarrow> 's) \<Rightarrow> cfg_method list \<Rightarrow> 's \<Rightarrow> 's" where
  "walk_methods ws we ms s = fold (walk_method ws we) ms s"

definition walk_functions :: "(expr \<Rightarrow> 's \<Rightarrow> 's) \<Rightarrow> vfunction list \<Rightarrow> 's \<Rightarrow> 's" where
  "walk_functions we fs s =
     fold (\<lambda>f s. fold we (case fn_body f of Some b \<Rightarrow> [b] | None \<Rightarrow> []) (fold we (fn_posts f) (fold we (fn_pres f) s))) fs s"

definition collect_info_from_methods_and_functions ::
  "cfg_method list \<Rightarrow> vfunction list \<Rightarrow> used_predicate_collector" where
  "collect_info_from_methods_and_functions methods functions =
     add_used ''DeadBorrowToken$''
       (walk_functions collect_expr functions (walk_methods collect_stmt collect_expr methods collector_new))"

definition collect_variant :: "expr \<times> string \<times> struct_predicate \<Rightarrow> used_predicate_collector \<Rightarrow> used_predicate_collector" where
  "collect_variant v c =
     (case v of (e, _, sp) \<Rightarrow>
        fold collect_expr (case sp_body sp of Some b \<Rightarrow> [b] | None \<Rightarrow> []) (add_used (sp_name sp) (collect_expr e c)))"

text \<open>
  The entry of one predicate.  The source takes the used names out of one collector after every predicate;
  what it leaves there are the folded names, which the map does not use.
\<close>

fun predicate_entry :: "predicate \<Rightarrow> (string \<times> string list) option" where
  "predicate_entry (PStruct p) =
     (case sp_body p of
        Some e \<Rightarrow> Some (sp_name p, up_used_predicates (collect_expr e collector_new))
      | None \<Rightarrow> None)"
| "predicate_entry (PEnum p) =
     Some (ep_name p, up_used_predicates (fold collect_variant (ep_variants p)
       (collect_expr (ep_discriminant_bounds p)
         (collect_expr (expr_field (from_local (ep_this p)) (ep_discriminant_field p)) collector_new))))"
| "predicate_entry (PBodyless _ _) = None"

definition get_used_predicates_in_predicate_map :: "predicate list \<Rightarrow> (string \<times> string list) list" where
  "get_used_predicates_in_predicate_map predicates =
     fold (\<lambda>p m. case predicate_entry p of Some (n, used) \<Rightarrow> AList.update n used m | None \<Rightarrow> m) predicates []"

text \<open>
  \<open>visit_predicate\<close> and the loops that call it, with the names that the active loops still have to visit as a
  stack.
\<close>

function visit_predicates :: "(string \<times> string list) list \<Rightarrow> string list \<Rightarrow> string list \<Rightarrow> string list" where
  "visit_predicates m [] visited = visited"
| "visit_predicates m (to_visit # stack) visited =
     (if to_visit \<in> set visited then visit_predicates m stack visited
      else
        visit_predicates m ((case map_of m to_visit of Some v \<Rightarrow> v | None \<Rightarrow> []) @ stack)
          (visited @ [to_visit]))"
  by pat_completeness auto
termination
proof (relation "measures [\<lambda>(m, stack, visited). card (fst ` set m - set visited), \<lambda>(m, stack, visited). length stack]", goal_cases)
  case (3 m p stack visited)
  show ?case
  proof (cases "map_of m p")
    case None
    then have "fst ` set m - set (visited @ [p]) = fst ` set m - set visited" by (auto simp: map_of_eq_None_iff)
    then show ?thesis using None by simp
  next
    case (Some v)
    then have "p \<in> fst ` set m - set visited" using 3 map_of_SomeD by force
    then have "card (fst ` set m - set (visited @ [p])) < card (fst ` set m - set visited)"
      by (intro psubset_card_mono) auto
    then show ?thesis by simp
  qed
qed auto

definition compute_reachable_predicates :: "(string \<times> string list) list \<Rightarrow> string list \<Rightarrow> string list" where
  "compute_reachable_predicates m used = visit_predicates m used []"

definition remove_body :: "string list \<Rightarrow> predicate \<Rightarrow> predicate" where
  "remove_body folded p =
     (case p of
        PStruct sp \<Rightarrow> if sp_name sp \<in> set folded then p else PStruct (sp\<lparr>sp_body := None\<rparr>)
      | _ \<Rightarrow> p)"

definition remove_entry :: "string list \<Rightarrow> predicate \<Rightarrow> (string \<times> string list) list \<Rightarrow> (string \<times> string list) list" where
  "remove_entry folded p m =
     (case p of PStruct sp \<Rightarrow> if sp_name sp \<in> set folded then m else AList.delete (sp_name sp) m | _ \<Rightarrow> m)"

definition delete_unused_predicates :: "cfg_method list \<Rightarrow> vfunction list \<Rightarrow> predicate list \<Rightarrow> predicate list" where
  "delete_unused_predicates methods functions predicates =
     (let collector = collect_info_from_methods_and_functions methods functions;
          folded = up_folded_predicates collector;
          m = fold (remove_entry folded) predicates (get_used_predicates_in_predicate_map predicates);
          reachable = compute_reachable_predicates m (up_used_predicates collector) in
      filter (\<lambda>p. predicate_name p \<in> set reachable) (map (remove_body folded) predicates))"

subsection \<open>What is collected\<close>

fun own_uses :: "expr \<Rightarrow> string set" where
  "own_uses (EPredicateAccessPredicate n _ _ _) = {n}"
| "own_uses (EUnfolding n _ _ _ _ _) = {n}"
| "own_uses _ = {}"

fun own_folds :: "expr \<Rightarrow> string set" where
  "own_folds (EUnfolding n _ _ _ _ _) = {n}"
| "own_folds _ = {}"

definition expr_uses :: "expr \<Rightarrow> string set" where
  "expr_uses e = (\<Union>x \<in> subexprs e. own_uses x)"

definition expr_folds :: "expr \<Rightarrow> string set" where
  "expr_folds e = (\<Union>x \<in> subexprs e. own_folds x)"

fun stmt_folds :: "stmt \<Rightarrow> string set" where
  "stmt_folds (SFold n _ _ _ _) = {n}"
| "stmt_folds (SUnfold n _ _ _) = {n}"
| "stmt_folds (SPackageMagicWand w b _ _ _) = expr_folds w \<union> (\<Union>s \<in> set b. stmt_folds s)"
| "stmt_folds (SIf g t e) = expr_folds g \<union> (\<Union>s \<in> set t. stmt_folds s) \<union> (\<Union>s \<in> set e. stmt_folds s)"
| "stmt_folds s = (\<Union>e \<in> set (event_exprs (stmt_events s)). expr_folds e)"

fun stmt_uses :: "stmt \<Rightarrow> string set" where
  "stmt_uses (SFold n _ _ _ _) = {n}"
| "stmt_uses (SUnfold n _ _ _) = {n}"
| "stmt_uses (SPackageMagicWand w b _ _ _) = expr_uses w \<union> (\<Union>s \<in> set b. stmt_uses s)"
| "stmt_uses (SIf g t e) = expr_uses g \<union> (\<Union>s \<in> set t. stmt_uses s) \<union> (\<Union>s \<in> set e. stmt_uses s)"
| "stmt_uses s = (\<Union>e \<in> set (event_exprs (stmt_events s)). expr_uses e)"

text \<open>The expressions of a function, and the names a program uses and folds.\<close>

definition function_exprs :: "vfunction \<Rightarrow> expr list" where
  "function_exprs f = fn_pres f @ fn_posts f @ (case fn_body f of Some b \<Rightarrow> [b] | None \<Rightarrow> [])"

definition program_uses :: "cfg_method list \<Rightarrow> vfunction list \<Rightarrow> string set" where
  "program_uses ms fs =
     (\<Union>m \<in> set ms. (\<Union>s \<in> set (method_stmts m). stmt_uses s) \<union>
        (\<Union>b \<in> set (cm_basic_blocks m). \<Union>g \<in> set (successor_guards (cb_successor b)). expr_uses g)) \<union>
     (\<Union>f \<in> set fs. \<Union>e \<in> set (function_exprs f). expr_uses e) \<union> {''DeadBorrowToken$''}"

definition program_folds :: "cfg_method list \<Rightarrow> vfunction list \<Rightarrow> string set" where
  "program_folds ms fs =
     (\<Union>m \<in> set ms. (\<Union>s \<in> set (method_stmts m). stmt_folds s) \<union>
        (\<Union>b \<in> set (cm_basic_blocks m). \<Union>g \<in> set (successor_guards (cb_successor b)). expr_folds g)) \<union>
     (\<Union>f \<in> set fs. \<Union>e \<in> set (function_exprs f). expr_folds e)"

fun predicate_uses :: "predicate \<Rightarrow> string set" where
  "predicate_uses (PStruct p) = (case sp_body p of Some e \<Rightarrow> expr_uses e | None \<Rightarrow> {})"
| "predicate_uses (PEnum p) =
     expr_uses (expr_field (from_local (ep_this p)) (ep_discriminant_field p)) \<union> expr_uses (ep_discriminant_bounds p) \<union>
     (\<Union>(e, _, sp) \<in> set (ep_variants p).
        expr_uses e \<union> {sp_name sp} \<union> (case sp_body sp of Some b \<Rightarrow> expr_uses b | None \<Rightarrow> {}))"
| "predicate_uses (PBodyless _ _) = {}"

text \<open>A walker that adds to a set for each expression it meets.\<close>

lemma walk_union:
  assumes "\<And>x u. x \<in> set (children e) \<Longrightarrow> U (w x u) = U u \<union> F x" "\<And>v u. U (wv v u) = U u"
  shows "U (default_walk_expr w wv e s) = U s \<union> (\<Union>c \<in> set (children e). F c)"
proof -
  have "U (fold (run_item w wv) is s) = U s \<union> (\<Union>c \<in> {c. WalkExpr c \<in> set is}. F c)"
    if "\<forall>c. WalkExpr c \<in> set is \<longrightarrow> c \<in> set (children e)" for "is"
    using that
  proof (induction "is" arbitrary: s)
    case (Cons i "is")
    then show ?case using assms by (cases i) auto
  qed simp
  then show ?thesis unfolding default_walk_expr_def using walk_items_children by simp
qed

lemma fold_union: "(\<And>x u. x \<in> set xs \<Longrightarrow> U (f x u) = U u \<union> F x) \<Longrightarrow> U (fold f xs s) = U s \<union> (\<Union>x \<in> set xs. F x)"
  by (induction xs arbitrary: s) auto

abbreviation used_set :: "used_predicate_collector \<Rightarrow> string set" where
  "used_set c \<equiv> set (up_used_predicates c)"

abbreviation folded_set :: "used_predicate_collector \<Rightarrow> string set" where
  "folded_set c \<equiv> set (up_folded_predicates c)"

lemma add_sets [simp]:
  "used_set (add_used n c) = insert n (used_set c)" "folded_set (add_used n c) = folded_set c"
  "used_set (add_folded n c) = used_set c" "folded_set (add_folded n c) = insert n (folded_set c)"
  by (simp_all add: add_used_def add_folded_def)

lemma expr_uses_unfold: "expr_uses e = own_uses e \<union> (\<Union>c \<in> set (children e). expr_uses c)"
  unfolding expr_uses_def by (subst subexprs_unfold) blast

lemma expr_folds_unfold: "expr_folds e = own_folds e \<union> (\<Union>c \<in> set (children e). expr_folds c)"
  unfolding expr_folds_def by (subst subexprs_unfold) blast

lemma collect_expr_other:
  "own_uses e = {} \<Longrightarrow> collect_expr e c = default_walk_expr collect_expr (\<lambda>_ c. c) e c"
  by (subst collect_expr.simps) (cases e; simp)

lemma collect_expr_sets:
  "used_set (collect_expr e c) = used_set c \<union> expr_uses e \<and> folded_set (collect_expr e c) = folded_set c \<union> expr_folds e"
proof (induction e arbitrary: c rule: expr_children_induct)
  case (step e)
  have used: "used_set (collect_expr x u) = used_set u \<union> expr_uses x"
    and folded: "folded_set (collect_expr x u) = folded_set u \<union> expr_folds x" if "x \<in> set (children e)" for x u
    using step that by blast+
  consider (acc) n a q p where "e = EPredicateAccessPredicate n a q p"
    | (unf) n as b q w p where "e = EUnfolding n as b q w p"
    | (other) "own_uses e = {}" "own_folds e = {}"
    by (cases e) simp_all
  then show ?case
  proof cases
    case acc
    then show ?thesis
      using used [of a] folded [of a]
      by (simp add: collect_expr.simps [of "EPredicateAccessPredicate _ _ _ _"]
          expr_uses_unfold [of "EPredicateAccessPredicate _ _ _ _"] expr_folds_unfold [of "EPredicateAccessPredicate _ _ _ _"])
  next
    case unf
    have "used_set (fold collect_expr as u) = used_set u \<union> (\<Union>x \<in> set as. expr_uses x)"
      "folded_set (fold collect_expr as u) = folded_set u \<union> (\<Union>x \<in> set as. expr_folds x)" for u
      by (rule fold_union, use used folded unf in simp)+
    then show ?thesis
      using used [of b] folded [of b] unf
      by (simp add: collect_expr.simps [of "EUnfolding _ _ _ _ _ _"] expr_uses_unfold [of "EUnfolding _ _ _ _ _ _"]
          expr_folds_unfold [of "EUnfolding _ _ _ _ _ _"] Un_ac)
  next
    case other
    then show ?thesis
      using walk_union [of e used_set collect_expr expr_uses "\<lambda>_ c. c" c]
        walk_union [of e folded_set collect_expr expr_folds "\<lambda>_ c. c" c] used folded
      by (simp add: collect_expr_other expr_uses_unfold [of e] expr_folds_unfold [of e])
  qed
qed

lemma collect_stmt_sets:
  "used_set (collect_stmt s c) = used_set c \<union> stmt_uses s \<and> folded_set (collect_stmt s c) = folded_set c \<union> stmt_folds s"
proof (induction s c rule: collect_stmt.induct)
  case (3 wand body l vs p c)
  have "used_set (fold collect_stmt body u) = used_set u \<union> (\<Union>x \<in> set body. stmt_uses x)"
    "folded_set (fold collect_stmt body u) = folded_set u \<union> (\<Union>x \<in> set body. stmt_folds x)" for u
    by (rule fold_union, use 3 in simp)+
  then show ?case using collect_expr_sets by (simp add: Un_ac)
next
  case (4 g t e c)
  have "used_set (fold collect_stmt t u) = used_set u \<union> (\<Union>x \<in> set t. stmt_uses x)"
    "folded_set (fold collect_stmt t u) = folded_set u \<union> (\<Union>x \<in> set t. stmt_folds x)"
    "used_set (fold collect_stmt e u) = used_set u \<union> (\<Union>x \<in> set e. stmt_uses x)"
    "folded_set (fold collect_stmt e u) = folded_set u \<union> (\<Union>x \<in> set e. stmt_folds x)" for u
    by (rule fold_union, use 4 in simp)+
  then show ?case using collect_expr_sets by (simp add: Un_ac)
qed (simp_all add: collect_expr_sets fold_union [where U = used_set and F = expr_uses]
  fold_union [where U = folded_set and F = expr_folds])

lemma fold_exprs_sets:
  "used_set (fold collect_expr es c) = used_set c \<union> (\<Union>e \<in> set es. expr_uses e)"
  "folded_set (fold collect_expr es c) = folded_set c \<union> (\<Union>e \<in> set es. expr_folds e)"
  by (rule fold_union, simp add: collect_expr_sets)+

lemma walk_method_sets:
  "used_set (walk_method collect_stmt collect_expr m c) = used_set c \<union> ((\<Union>s \<in> set (method_stmts m). stmt_uses s) \<union>
     (\<Union>b \<in> set (cm_basic_blocks m). \<Union>g \<in> set (successor_guards (cb_successor b)). expr_uses g))"
  "folded_set (walk_method collect_stmt collect_expr m c) = folded_set c \<union> ((\<Union>s \<in> set (method_stmts m). stmt_folds s) \<union>
     (\<Union>b \<in> set (cm_basic_blocks m). \<Union>g \<in> set (successor_guards (cb_successor b)). expr_folds g))"
  unfolding walk_method_def walk_successors_fold walk_statements_fold
  by (simp_all add: fold_union [where U = used_set and F = "\<lambda>succ. \<Union>g \<in> set (successor_guards succ). expr_uses g"]
      fold_union [where U = folded_set and F = "\<lambda>succ. \<Union>g \<in> set (successor_guards succ). expr_folds g"]
      fold_union [where U = used_set and F = stmt_uses] fold_union [where U = folded_set and F = stmt_folds]
      fold_exprs_sets collect_stmt_sets Un_assoc)

lemma collect_info_sets:
  "used_set (collect_info_from_methods_and_functions ms fs) = program_uses ms fs"
  "folded_set (collect_info_from_methods_and_functions ms fs) = program_folds ms fs"
proof -
  let ?F = "\<lambda>f. \<Union>e \<in> set (function_exprs f). expr_uses e" and ?G = "\<lambda>f. \<Union>e \<in> set (function_exprs f). expr_folds e"
  have "used_set (walk_functions collect_expr fs c) = used_set c \<union> (\<Union>f \<in> set fs. ?F f)"
    "folded_set (walk_functions collect_expr fs c) = folded_set c \<union> (\<Union>f \<in> set fs. ?G f)" for c
    unfolding walk_functions_def
    by (rule fold_union, simp add: fold_exprs_sets function_exprs_def Un_assoc)+
  moreover have "used_set (walk_methods collect_stmt collect_expr ms c) = used_set c \<union>
      (\<Union>m \<in> set ms. (\<Union>s \<in> set (method_stmts m). stmt_uses s) \<union>
        (\<Union>b \<in> set (cm_basic_blocks m). \<Union>g \<in> set (successor_guards (cb_successor b)). expr_uses g))"
    "folded_set (walk_methods collect_stmt collect_expr ms c) = folded_set c \<union>
      (\<Union>m \<in> set ms. (\<Union>s \<in> set (method_stmts m). stmt_folds s) \<union>
        (\<Union>b \<in> set (cm_basic_blocks m). \<Union>g \<in> set (successor_guards (cb_successor b)). expr_folds g))" for c
    unfolding walk_methods_def by (rule fold_union, simp only: walk_method_sets)+
  ultimately show "used_set (collect_info_from_methods_and_functions ms fs) = program_uses ms fs"
    "folded_set (collect_info_from_methods_and_functions ms fs) = program_folds ms fs"
    by (simp_all add: collect_info_from_methods_and_functions_def program_uses_def program_folds_def collector_new_def Un_assoc)
qed

subsection \<open>The predicates that are left\<close>

definition next_names :: "(string \<times> string list) list \<Rightarrow> string \<Rightarrow> string list" where
  "next_names m n = (case map_of m n of Some v \<Rightarrow> v | None \<Rightarrow> [])"

lemma visit_predicates_spec:
  "set visited \<union> set stack \<subseteq> set (visit_predicates m stack visited) \<and>
   (\<forall>x \<in> set (visit_predicates m stack visited). x \<in> set visited \<or>
      set (next_names m x) \<subseteq> set (visit_predicates m stack visited)) \<and>
   (\<forall>x \<in> set (visit_predicates m stack visited). x \<in> set visited \<or>
      (\<exists>s \<in> set stack. (s, x) \<in> {(a, b). b \<in> set (next_names m a)}\<^sup>*))"
proof (induction m stack visited rule: visit_predicates.induct)
  case (2 m p stack visited)
  show ?case
  proof (cases "p \<in> set visited")
    case True
    then show ?thesis using 2 by auto
  next
    case False
    let ?R = "{(a, b). b \<in> set (next_names m a)}"
    let ?r = "visit_predicates m (next_names m p @ stack) (visited @ [p])"
    have r: "visit_predicates m (p # stack) visited = ?r" using False by (simp add: next_names_def)
    note IH = 2(2) [OF False, folded next_names_def]
    have "\<exists>s \<in> set (p # stack). (s, x) \<in> ?R\<^sup>*" if "x \<in> set ?r" "x \<notin> set visited" for x
    proof -
      from IH that consider "x = p" | s where "s \<in> set (next_names m p)" "(s, x) \<in> ?R\<^sup>*"
        | s where "s \<in> set stack" "(s, x) \<in> ?R\<^sup>*" by auto
      then show ?thesis
      proof cases
        case 2
        then have "(p, x) \<in> ?R\<^sup>*" by (auto intro: converse_rtrancl_into_rtrancl)
        then show ?thesis by simp
      qed auto
    qed
    then show ?thesis unfolding r using IH by auto
  qed
qed simp

lemma compute_reachable_exact:
  "set (compute_reachable_predicates m used) = {(a, b). b \<in> set (next_names m a)}\<^sup>* `` set used"
proof -
  let ?R = "{(a, b). b \<in> set (next_names m a)}"
  note spec = visit_predicates_spec [of "[]" used m]
  have "x \<in> set (visit_predicates m used [])" if "(s, x) \<in> ?R\<^sup>*" "s \<in> set used" for s x
    using that by (induction rule: rtrancl_induct) (use spec in auto)
  then show ?thesis unfolding compute_reachable_predicates_def using spec by auto
qed

lemma predicate_entry_name: "predicate_entry p = Some (n, u) \<Longrightarrow> n = predicate_name p"
  by (cases p) (auto split: option.splits)

lemma predicate_entry_uses:
  "set (case predicate_entry p of Some (_, u) \<Rightarrow> u | None \<Rightarrow> []) = predicate_uses p"
proof (cases p)
  case (PEnum e)
  have "used_set (fold collect_variant vs c) = used_set c \<union> (\<Union>(e, _, sp) \<in> set vs.
      expr_uses e \<union> {sp_name sp} \<union> (case sp_body sp of Some b \<Rightarrow> expr_uses b | None \<Rightarrow> {}))" for vs c
    by (rule fold_union) (auto simp: collect_variant_def collect_expr_sets split: option.splits)
  then show ?thesis using PEnum by (simp add: collect_expr_sets collector_new_def)
qed (auto simp: collect_expr_sets collector_new_def split: option.splits)

lemma used_map_entry:
  assumes "distinct (map predicate_name ps)" "p \<in> set ps"
  shows "map_of (get_used_predicates_in_predicate_map ps) (predicate_name p) = map_option snd (predicate_entry p)"
proof -
  let ?f = "\<lambda>p m. case predicate_entry p of Some (n, used) \<Rightarrow> AList.update n used m | None \<Rightarrow> m"
  have other: "map_of (fold ?f qs m) n = map_of m n" if "n \<notin> predicate_name ` set qs" for qs m n
    using that
  proof (induction qs arbitrary: m)
    case (Cons q qs)
    then show ?case by (auto simp: update_conv' dest: predicate_entry_name split: option.split)
  qed simp
  have "map_of (fold ?f qs m) (predicate_name p) = (case predicate_entry p of Some (_, u) \<Rightarrow> Some u | None \<Rightarrow> map_of m (predicate_name p))"
    if "distinct (map predicate_name qs)" "p \<in> set qs" for qs m
    using that
  proof (induction qs arbitrary: m)
    case (Cons q qs)
    show ?case
    proof (cases "p = q")
      case True
      then show ?thesis
        using Cons.prems(1) other [of "predicate_name p" qs]
        by (auto simp: update_conv' dest: predicate_entry_name split: option.split)
    next
      case False
      then have "predicate_name p \<noteq> predicate_name q" using Cons.prems by (metis distinct.simps(2) image_eqI list.simps(9) set_ConsD set_map)
      then show ?thesis
        using Cons False by (auto simp: update_conv' dest: predicate_entry_name split: option.split)
    qed
  qed simp
  from this [OF assms, of "[]"] show ?thesis
    by (auto simp: get_used_predicates_in_predicate_map_def split: option.splits)
qed

lemma remove_entries:
  "map_of (fold (remove_entry folded) ps m) n =
     (if \<exists>sp. PStruct sp \<in> set ps \<and> sp_name sp = n \<and> n \<notin> set folded then None else map_of m n)"
proof (induction ps arbitrary: m)
  case (Cons p ps)
  have step: "map_of (remove_entry folded p m) n =
      (if \<exists>sp. p = PStruct sp \<and> sp_name sp = n \<and> n \<notin> set folded then None else map_of m n)"
    by (cases p) (auto simp: remove_entry_def delete_conv')
  show ?case unfolding fold.simps comp_def Cons.IH step by auto
qed simp

text \<open>Which predicates mention which, and the specification of the pass.\<close>

definition mentions :: "predicate list \<Rightarrow> (string \<times> string) set" where
  "mentions ps = {(predicate_name p, n) | p n. p \<in> set ps \<and> n \<in> predicate_uses p}"

definition keep_body :: "string set \<Rightarrow> predicate \<Rightarrow> predicate" where
  "keep_body folds p =
     (case p of PStruct sp \<Rightarrow> if sp_name sp \<in> folds then p else PStruct (sp\<lparr>sp_body := None\<rparr>) | _ \<Rightarrow> p)"

lemma keep_body_name [simp]: "predicate_name (keep_body F p) = predicate_name p"
  by (cases p) (simp_all add: keep_body_def)

lemma next_names_mentions:
  assumes dist: "distinct (map predicate_name ps)"
    and M: "M = fold (remove_entry folded) ps (get_used_predicates_in_predicate_map ps)"
  shows "{(a, b). b \<in> set (next_names M a)} = mentions (map (keep_body (set folded)) ps)"
proof -
  have entry: "set (next_names M (predicate_name p)) = predicate_uses (keep_body (set folded) p)" if p: "p \<in> set ps" for p
  proof (cases "\<exists>sp. p = PStruct sp \<and> sp_name sp \<notin> set folded")
    case True
    then show ?thesis using p by (auto simp: next_names_def M remove_entries keep_body_def)
  next
    case False
    have "\<not> (\<exists>sp. PStruct sp \<in> set ps \<and> sp_name sp = predicate_name p \<and> predicate_name p \<notin> set folded)"
    proof
      assume "\<exists>sp. PStruct sp \<in> set ps \<and> sp_name sp = predicate_name p \<and> predicate_name p \<notin> set folded"
      then obtain sp where sp: "PStruct sp \<in> set ps" "predicate_name (PStruct sp) = predicate_name p" "sp_name sp \<notin> set folded"
        by auto
      then have "p = PStruct sp" using dist p by (metis distinct_map inj_onD)
      then show False using False sp(3) by blast
    qed
    then have "next_names M (predicate_name p) = (case predicate_entry p of Some (_, u) \<Rightarrow> u | None \<Rightarrow> [])"
      using used_map_entry [OF dist p] by (auto simp: next_names_def M remove_entries split: option.splits)
    moreover have "keep_body (set folded) p = p" using False by (cases p) (auto simp: keep_body_def)
    ultimately show ?thesis using predicate_entry_uses by simp
  qed
  have none: "next_names M n = []" if "n \<notin> predicate_name ` set ps" for n
  proof -
    have "map_of (get_used_predicates_in_predicate_map qs) n = None" if "n \<notin> predicate_name ` set qs" for qs
      unfolding get_used_predicates_in_predicate_map_def using that
      by (induction qs rule: rev_induct) (auto simp: update_conv' dest: predicate_entry_name split: option.split)
    then show ?thesis using that by (simp add: next_names_def M remove_entries)
  qed
  have "b \<in> set (next_names M a) \<longleftrightarrow> (\<exists>p \<in> set ps. a = predicate_name p \<and> b \<in> predicate_uses (keep_body (set folded) p))" for a b
    using entry none [of a] by (cases "a \<in> predicate_name ` set ps") (auto simp: image_iff)
  moreover have "(a, b) \<in> mentions (map (keep_body (set folded)) ps) \<longleftrightarrow>
      (\<exists>p \<in> set ps. a = predicate_name p \<and> b \<in> predicate_uses (keep_body (set folded) p))" for a b
    unfolding mentions_def by (auto simp del: predicate_uses.simps) (metis keep_body_name imageI list.set_map)
  ultimately show ?thesis by (intro set_eqI) (simp only: split_paired_all mem_Collect_eq case_prod_conv)
qed

text \<open>
  C11 The pass that deletes unused predicates keeps, in their order, exactly the predicates that the methods
  and functions mention, directly or through the bodies of other kept predicates (and the token predicate of
  dead borrows); a struct predicate keeps its body exactly if some method or function folds or unfolds it.
  Predicates have different names, and what stands in triggers of quantifiers does not count as mentioned, as in
  the code.
\<close>

theorem delete_unused_predicates_exact:
  assumes "distinct (map predicate_name predicates)"
  shows "delete_unused_predicates methods functions predicates =
    (let ps = map (keep_body (program_folds methods functions)) predicates in
     filter (\<lambda>p. predicate_name p \<in> (mentions ps)\<^sup>* `` program_uses methods functions) ps)"
proof -
  define c where "c = collect_info_from_methods_and_functions methods functions"
  have bodies: "remove_body (up_folded_predicates c) = keep_body (program_folds methods functions)"
    by (rule ext) (simp add: remove_body_def keep_body_def c_def collect_info_sets split: predicate.split)
  show ?thesis
    using next_names_mentions [OF assms refl, of "up_folded_predicates c"] bodies collect_info_sets
    by (simp add: delete_unused_predicates_def Let_def compute_reachable_exact c_def)
qed

definition ex_predicates :: "predicate list" where
  "ex_predicates =
     [PStruct \<lparr>sp_name = ''A'', sp_this = construct_this (TTypedRef ''A''),
        sp_body = Some (predicate_access_predicate ''B'' (expr_local (construct_this (TTypedRef ''A''))) Write)\<rparr>,
      PStruct \<lparr>sp_name = ''B'', sp_this = construct_this (TTypedRef ''B''),
        sp_body = Some (predicate_access_predicate ''C'' (expr_local (construct_this (TTypedRef ''B''))) Write)\<rparr>,
      PBodyless ''C'' (construct_this (TTypedRef ''C''))]"

definition ex_unfolding_method :: cfg_method where
  "ex_unfolding_method = (cfg_new 7 ''m'' 0 [] [] [])\<lparr>
     cm_basic_blocks := [\<lparr>cb_stmts = [SUnfold ''A'' [] Write None], cb_successor = SuccReturn\<rparr>],
     cm_basic_blocks_labels := [''start'']\<rparr>"

lemma ex_delete_run:
  "map (\<lambda>p. (predicate_name p, is_abstract p)) (delete_unused_predicates [ex_unfolding_method] [] ex_predicates) =
     [(''A'', False), (''B'', True)]"
  by code_simp

theorem delete_unused_predicates_exact_witness:
  "map predicate_name (let ps = map (keep_body (program_folds [ex_unfolding_method] [])) ex_predicates in
     filter (\<lambda>p. predicate_name p \<in> (mentions ps)\<^sup>* `` program_uses [ex_unfolding_method] []) ps) = [''A'', ''B'']"
proof -
  have dist: "distinct (map predicate_name ex_predicates)" by (simp add: ex_predicates_def)
  have "map fst [(''A'', False), (''B'', True)] = [''A'', ''B'']" by simp
  then show ?thesis
    using delete_unused_predicates_exact [OF dist, of "[ex_unfolding_method]" "[]"]
      arg_cong [OF ex_delete_run, of "map fst"] by (simp add: comp_def)
qed

end
