(* ===== verification/Fallible.thy ===== *)
theory Fallible
  imports Prelude
begin

section \<open>Fallible computations and hash sets\<close>

text \<open>
  The fold-unfold algorithm returns \<open>Result\<close> almost everywhere and works on hash sets of places
  and permissions.  This theory has the \<open>?\<close> operator as \<open>bindE\<close>, the iterator adaptors whose
  closures can fail (\<open>filter\<close>, \<open>any\<close>, \<open>find\<close>, a \<open>for\<close> loop with \<open>?\<close> in its body), and the set
  operations of \<open>HashSet\<close> over a user-defined equality, with their laws in the locale
  \<open>hash_keys\<close>.
\<close>

named_theorems fallible_simps \<open>when a fallible computation returns\<close>

subsection \<open>The question-mark operator and fallible iteration\<close>

fun bindE :: "'e + 'a \<Rightarrow> ('a \<Rightarrow> 'e + 'b) \<Rightarrow> 'e + 'b" where
  "bindE (Inl e) f = Inl e"
| "bindE (Inr x) f = f x"

lemma bindE_cong [fundef_cong]:
  "m = m' \<Longrightarrow> (\<And>x. m' = Inr x \<Longrightarrow> f x = g x) \<Longrightarrow> bindE m f = bindE m' g"
  by (cases m') auto

lemma bindE_Inr_iff [fallible_simps]:
  "bindE m f = Inr y \<longleftrightarrow> (\<exists>x. m = Inr x \<and> f x = Inr y)"
  by (cases m) auto

lemma bindE_Inl_iff: "bindE m f = Inl e \<longleftrightarrow> m = Inl e \<or> (\<exists>x. m = Inr x \<and> f x = Inl e)"
  by (cases m) auto

lemma bindE_assoc: "bindE (bindE m f) g = bindE m (\<lambda>x. bindE (f x) g)"
  by (cases m) auto

definition unwrapE :: "'e \<Rightarrow> 'a option \<Rightarrow> 'e + 'a" where
  "unwrapE e x = (case x of None \<Rightarrow> Inl e | Some y \<Rightarrow> Inr y)"

lemma unwrapE_simps [simp]: "unwrapE e (Some x) = Inr x" "unwrapE e None = Inl e"
  by (simp_all add: unwrapE_def)

lemma unwrapE_Inr_iff [fallible_simps]: "unwrapE e x = Inr y \<longleftrightarrow> x = Some y"
  by (cases x) auto

definition assertE :: "'e \<Rightarrow> bool \<Rightarrow> 'e + unit" where
  "assertE e P = (if P then Inr () else Inl e)"

lemma assertE_simps [simp]: "assertE e True = Inr ()" "assertE e False = Inl e"
  by (simp_all add: assertE_def)

lemma assertE_Inr_iff [fallible_simps]: "assertE e P = Inr u \<longleftrightarrow> P"
  by (simp add: assertE_def)

fun foldE :: "('a \<Rightarrow> 's \<Rightarrow> 'e + 's) \<Rightarrow> 'a list \<Rightarrow> 's \<Rightarrow> 'e + 's" where
  "foldE f [] s = Inr s"
| "foldE f (x # xs) s = bindE (f x s) (foldE f xs)"

lemma foldE_append: "foldE f (xs @ ys) s = bindE (foldE f xs s) (foldE f ys)"
proof (induction xs arbitrary: s)
  case (Cons x xs)
  then show ?case by (cases "f x s") simp_all
qed simp

lemma foldE_cong [fundef_cong]:
  "xs = ys \<Longrightarrow> s = t \<Longrightarrow> (\<And>x u. x \<in> set ys \<Longrightarrow> f x u = g x u) \<Longrightarrow> foldE f xs s = foldE g ys t"
  by (induction xs arbitrary: ys s t) (auto intro!: bindE_cong)

lemma foldE_invariant:
  assumes "foldE f xs s = Inr t" and "I s"
    and "\<And>x u v. x \<in> set xs \<Longrightarrow> I u \<Longrightarrow> f x u = Inr v \<Longrightarrow> I v"
  shows "I t"
  using assms
proof (induction xs arbitrary: s)
  case (Cons x xs)
  from Cons.prems(1) obtain u where u: "f x s = Inr u" "foldE f xs u = Inr t"
    by (auto simp: fallible_simps)
  show ?case
  proof (rule Cons.IH [OF u(2)])
    show "I u" using Cons.prems(2,3) u(1) by auto
    show "\<And>y v w. y \<in> set xs \<Longrightarrow> I v \<Longrightarrow> f y v = Inr w \<Longrightarrow> I w" using Cons.prems(3) by auto
  qed
qed simp

fun filterE :: "('a \<Rightarrow> 'e + bool) \<Rightarrow> 'a list \<Rightarrow> 'e + 'a list" where
  "filterE P [] = Inr []"
| "filterE P (x # xs) =
     bindE (P x) (\<lambda>b. bindE (filterE P xs) (\<lambda>ys. Inr (if b then x # ys else ys)))"

lemma filterE_total: "(\<And>x. x \<in> set xs \<Longrightarrow> P x = Inr (p x)) \<Longrightarrow> filterE P xs = Inr (filter p xs)"
  by (induction xs) auto

lemma filterE_Inr_iff [fallible_simps]:
  "filterE P xs = Inr ys \<longleftrightarrow>
     (\<forall>x \<in> set xs. \<exists>b. P x = Inr b) \<and> ys = filter (\<lambda>x. P x = Inr True) xs"
proof (induction xs arbitrary: ys)
  case (Cons x xs)
  then show ?case by (cases "P x") (auto simp: fallible_simps)
qed auto

text \<open>\<open>Iterator::any\<close> and \<open>Iterator::find\<close> stop at the first hit.\<close>

fun anyE :: "('a \<Rightarrow> 'e + bool) \<Rightarrow> 'a list \<Rightarrow> 'e + bool" where
  "anyE P [] = Inr False"
| "anyE P (x # xs) = bindE (P x) (\<lambda>b. if b then Inr True else anyE P xs)"

lemma anyE_total: "(\<And>x. x \<in> set xs \<Longrightarrow> P x = Inr (p x)) \<Longrightarrow> anyE P xs = Inr (list_ex p xs)"
  by (induction xs) auto

fun findE :: "('a \<Rightarrow> 'e + bool) \<Rightarrow> 'a list \<Rightarrow> 'e + 'a option" where
  "findE P [] = Inr None"
| "findE P (x # xs) = bindE (P x) (\<lambda>b. if b then Inr (Some x) else findE P xs)"

lemma findE_Some: "findE P xs = Inr (Some x) \<Longrightarrow> x \<in> set xs \<and> P x = Inr True"
  by (induction xs) (auto simp: fallible_simps split: if_splits)

lemma findE_None: "findE P xs = Inr None \<Longrightarrow> x \<in> set xs \<Longrightarrow> P x = Inr False"
  by (induction xs) (auto simp: fallible_simps split: if_splits)

lemma findE_total: "(\<And>x. x \<in> set xs \<Longrightarrow> P x = Inr (p x)) \<Longrightarrow> findE P xs = Inr (find p xs)"
  by (induction xs) auto

lemma mapE_total: "(\<And>x. x \<in> set xs \<Longrightarrow> f x = Inr (g x)) \<Longrightarrow> mapE f xs = Inr (map g xs)"
  by (induction xs) auto

subsection \<open>Sets over a user-defined equality\<close>

definition hs_extend :: "('k \<Rightarrow> 'k \<Rightarrow> bool) \<Rightarrow> 'k list \<Rightarrow> 'k list \<Rightarrow> 'k list" where
  "hs_extend eq xs ys = fold (hs_insert eq) ys xs"

definition hs_collect :: "('k \<Rightarrow> 'k \<Rightarrow> bool) \<Rightarrow> 'k list \<Rightarrow> 'k list" where
  "hs_collect eq xs = hs_extend eq [] xs"

definition hs_intersection :: "('k \<Rightarrow> 'k \<Rightarrow> bool) \<Rightarrow> 'k list \<Rightarrow> 'k list \<Rightarrow> 'k list" where
  "hs_intersection eq xs ys = filter (hs_member eq ys) xs"

definition hs_difference :: "('k \<Rightarrow> 'k \<Rightarrow> bool) \<Rightarrow> 'k list \<Rightarrow> 'k list \<Rightarrow> 'k list" where
  "hs_difference eq xs ys = filter (\<lambda>x. \<not> hs_member eq ys x) xs"

lemma hs_extend_simps [simp]:
  "hs_extend eq xs [] = xs"
  "hs_extend eq xs (y # ys) = hs_extend eq (hs_insert eq y xs) ys"
  by (simp_all add: hs_extend_def)

lemma hs_insert_set: "set (hs_insert eq x xs) \<subseteq> insert x (set xs)"
  by (auto simp: hs_insert_def)

lemma hs_insert_set_mono: "set xs \<subseteq> set (hs_insert eq x xs)"
  by (auto simp: hs_insert_def)

lemma hs_extend_set: "set (hs_extend eq xs ys) \<subseteq> set xs \<union> set ys"
proof (induction ys arbitrary: xs)
  case (Cons y ys)
  show ?case using Cons.IH [of "hs_insert eq y xs"] hs_insert_set [of eq y xs] by auto
qed simp

lemma hs_extend_set_mono: "set xs \<subseteq> set (hs_extend eq xs ys)"
proof (induction ys arbitrary: xs)
  case (Cons y ys)
  show ?case using Cons.IH [of "hs_insert eq y xs"] hs_insert_set_mono [of xs eq y] by auto
qed simp

lemma hs_collect_set: "set (hs_collect eq xs) \<subseteq> set xs"
  using hs_extend_set [of eq "[]" xs] by (simp add: hs_collect_def)

lemma hs_insert_pairwise:
  "(\<And>a b. eq a b \<Longrightarrow> eq b a) \<Longrightarrow> sorted_wrt (\<lambda>a b. \<not> eq a b) xs \<Longrightarrow>
   sorted_wrt (\<lambda>a b. \<not> eq a b) (hs_insert eq x xs)"
  by (auto simp: hs_insert_def hs_member_def sorted_wrt_append list_ex_iff)

text \<open>No two members of a hash set are equal.\<close>

definition hs_wf :: "('k \<Rightarrow> 'k \<Rightarrow> bool) \<Rightarrow> 'k list \<Rightarrow> bool" where
  "hs_wf eq xs \<longleftrightarrow> sorted_wrt (\<lambda>a b. \<not> eq a b) xs \<and> list_all (\<lambda>x. eq x x) xs"

text \<open>What the set operations do, for any key equality.\<close>

locale hash_keys = partial_equiv eq for eq :: "'k \<Rightarrow> 'k \<Rightarrow> bool"
begin

lemma member_extend:
  "(\<And>y. y \<in> set ys \<Longrightarrow> eq y y) \<Longrightarrow>
   hs_member eq (hs_extend eq xs ys) z = (hs_member eq xs z \<or> hs_member eq ys z)"
proof (induction ys arbitrary: xs)
  case Nil
  then show ?case by (simp add: hs_member_def)
next
  case (Cons y ys)
  have "hs_member eq (hs_extend eq xs (y # ys)) z =
      (hs_member eq (hs_insert eq y xs) z \<or> hs_member eq ys z)"
    using Cons by simp
  moreover have "eq y y" using Cons.prems by simp
  ultimately show ?case by (simp add: member_insert) (auto simp: hs_member_def)
qed

lemma member_collect:
  "(\<And>y. y \<in> set ys \<Longrightarrow> eq y y) \<Longrightarrow> hs_member eq (hs_collect eq ys) z = hs_member eq ys z"
  by (simp add: hs_collect_def member_extend) (simp add: hs_member_def)

lemma member_intersection:
  "hs_member eq (hs_intersection eq xs ys) z = (hs_member eq xs z \<and> hs_member eq ys z)"
proof -
  have "hs_member eq ys a = hs_member eq ys z" if "eq a z" for a using that by (rule member_cong)
  then show ?thesis by (auto simp: hs_member_def [of eq _ z] hs_intersection_def list_ex_iff)
qed

lemma member_difference:
  "hs_member eq (hs_difference eq xs ys) z = (hs_member eq xs z \<and> \<not> hs_member eq ys z)"
proof -
  have "hs_member eq ys a = hs_member eq ys z" if "eq a z" for a using that by (rule member_cong)
  then show ?thesis by (auto simp: hs_member_def [of eq _ z] hs_difference_def list_ex_iff)
qed

lemma wf_hs_insert: "eq x x \<Longrightarrow> hs_wf eq xs \<Longrightarrow> hs_wf eq (hs_insert eq x xs)"
  unfolding hs_wf_def using hs_insert_pairwise [of eq xs x] eq_sym hs_insert_set [of eq x xs]
  by (auto simp: list_all_iff)

lemma wf_hs_extend: "(\<And>y. y \<in> set ys \<Longrightarrow> eq y y) \<Longrightarrow> hs_wf eq xs \<Longrightarrow> hs_wf eq (hs_extend eq xs ys)"
  by (induction ys arbitrary: xs) (auto simp: wf_hs_insert)

lemma member_self: "eq x x \<Longrightarrow> x \<in> set xs \<Longrightarrow> hs_member eq xs x"
  by (auto simp: hs_member_def list_ex_iff)

lemma contains_iff: "hm_contains eq m k \<longleftrightarrow> (\<exists>(k', v) \<in> set m. eq k' k)"
  using get_eq_None_iff [of m k] by (auto simp: hm_contains_def)

lemma get_retain:
  "(\<And>x. eq x k \<Longrightarrow> P x = P k) \<Longrightarrow> hm_get eq (hm_retain P m) k = (if P k then hm_get eq m k else None)"
  unfolding hm_retain_def using get_filter_other [of k P m] get_filter_none [of k P m] by auto

lemma wf_pairwise: "hm_wf eq m \<Longrightarrow> hs_wf eq (hm_keys m)"
proof (induction m)
  case (Cons kv m)
  then show ?case by (cases kv) (auto simp: hm_keys_def hs_wf_def)
qed (simp add: hm_keys_def hs_wf_def)

lemma wf_extend: "hm_wf eq m \<Longrightarrow> (\<And>k v. (k, v) \<in> set ys \<Longrightarrow> eq k k) \<Longrightarrow> hm_wf eq (hm_extend eq m ys)"
proof (induction ys arbitrary: m)
  case (Cons kv ys)
  obtain k v where kv: "kv = (k, v)" by (cases kv)
  have "eq k k" using Cons.prems(2) [of k v] kv by simp
  then have "hm_wf eq (hm_insert eq m k v)" using Cons.prems(1) by (rule wf_insert)
  then have "hm_wf eq (hm_extend eq (hm_insert eq m k v) ys)"
    by (rule Cons.IH) (use Cons.prems(2) in auto)
  then show ?case using kv by simp
qed simp

lemma get_append:
  "hm_get eq (m @ m') k = (case hm_get eq m k of Some v \<Rightarrow> Some v | None \<Rightarrow> hm_get eq m' k)"
  by (induction m) auto

lemma get_extend:
  "(\<And>k v. (k, v) \<in> set ys \<Longrightarrow> eq k k) \<Longrightarrow>
   hm_get eq (hm_extend eq m ys) k = hm_get eq (rev ys @ m) k"
proof (induction ys arbitrary: m)
  case (Cons kv ys)
  obtain a b where kv: "kv = (a, b)" by (cases kv)
  have refl: "eq a a" using Cons.prems kv by auto
  have "hm_get eq (hm_extend eq m (kv # ys)) k = hm_get eq (rev ys @ hm_insert eq m a b) k"
    using Cons.IH [of "hm_insert eq m a b"] Cons.prems kv by auto
  also have "\<dots> = hm_get eq (rev (kv # ys) @ m) k"
    by (simp add: get_append get_insert [OF refl] kv split: option.split)
  finally show ?case .
qed simp

lemma get_functional:
  assumes "\<And>a v b w. (a, v) \<in> set ys \<Longrightarrow> (b, w) \<in> set ys \<Longrightarrow> eq a b \<Longrightarrow> v = w"
  shows "hm_get eq ys k = Some v \<longleftrightarrow> (\<exists>a. (a, v) \<in> set ys \<and> eq a k)"
proof
  show "hm_get eq ys k = Some v \<Longrightarrow> \<exists>a. (a, v) \<in> set ys \<and> eq a k" by (rule get_Some_key)
  assume "\<exists>a. (a, v) \<in> set ys \<and> eq a k"
  then obtain a where a: "(a, v) \<in> set ys" "eq a k" by blast
  then have "hm_get eq ys k \<noteq> None" unfolding get_eq_None_iff by blast
  then obtain w where w: "hm_get eq ys k = Some w" by blast
  from get_Some_key [OF w] obtain b where b: "(b, w) \<in> set ys" "eq b k" by (elim exE conjE)
  have "v = w" by (rule assms [OF a(1) b(1) eq_trans [OF a(2) eq_sym [OF b(2)]]])
  then show "hm_get eq ys k = Some v" using w by simp
qed

lemma get_wf_iff:
  assumes wf: "hm_wf eq m"
  shows "hm_get eq m k = Some v \<longleftrightarrow> (\<exists>a. (a, v) \<in> set m \<and> eq a k)"
proof
  show "hm_get eq m k = Some v \<Longrightarrow> \<exists>a. (a, v) \<in> set m \<and> eq a k" by (rule get_Some_key)
  assume "\<exists>a. (a, v) \<in> set m \<and> eq a k"
  then obtain a where a: "(a, v) \<in> set m" "eq a k" by blast
  show "hm_get eq m k = Some v" using wf_get_member [OF wf a(1)] get_cong [OF a(2), of m] by simp
qed

lemma filter_none_other: "(\<forall>k' \<in> set (map fst m). \<not> eq k' k) \<Longrightarrow> hm_remove eq m k = m"
  unfolding hm_remove_def by (rule filter_True) force

lemma wf_remove_length:
  "hm_wf eq m \<Longrightarrow> hm_contains eq m k \<Longrightarrow> length m = Suc (length (hm_remove eq m k))"
proof (induction m)
  case Nil
  then show ?case by (simp add: hm_contains_def)
next
  case (Cons kv m)
  obtain a v where kv: "kv = (a, v)" by (cases kv)
  show ?case
  proof (cases "eq a k")
    case True
    have "\<not> eq k' k" if "k' \<in> set (map fst m)" for k'
      using Cons.prems(1) kv that eq_trans [OF True eq_sym, of k'] by auto
    then have "hm_remove eq m k = m" by (intro filter_none_other) blast
    then show ?thesis using True kv by (simp add: hm_remove_def)
  next
    case False
    then have "hm_contains eq m k" using Cons.prems(2) kv by (simp add: hm_contains_def)
    then show ?thesis using Cons.IH Cons.prems(1) False kv by (simp add: hm_remove_def)
  qed
qed

text \<open>Hash maps with the same lookups have the same number of entries.\<close>

lemma same_get_length:
  assumes "hm_wf eq m" "hm_wf eq m'" "\<And>k. hm_get eq m k = hm_get eq m' k"
  shows "length m = length m'"
  using assms
proof (induction m arbitrary: m')
  case Nil
  then have "hm_get eq m' k = None" for k by simp
  then show ?case using Nil.prems(2) by (cases m') (force split: if_splits)+
next
  case (Cons kv m)
  obtain a v where kv: "kv = (a, v)" by (cases kv)
  have refl: "eq a a" using Cons.prems(1) kv by simp
  have in_m': "hm_get eq m' a = Some v" using Cons.prems(3) [of a] kv refl by simp
  have same: "hm_get eq m k = hm_get eq (hm_remove eq m' a) k" for k
  proof (cases "eq a k")
    case True
    have "hm_get eq m a = None" unfolding get_eq_None_iff
      using Cons.prems(1) kv eq_sym by (force simp: image_iff)
    then show ?thesis using True get_cong [OF True, of m] by (simp add: get_remove)
  next
    case False
    then show ?thesis using Cons.prems(3) [of k] kv by (simp add: get_remove)
  qed
  have "hm_wf eq m" using Cons.prems(1) kv by simp
  from Cons.IH [OF this wf_remove [OF Cons.prems(2), of a] same]
  have "length m = length (hm_remove eq m' a)" .
  then show ?case using wf_remove_length [OF Cons.prems(2), of a] in_m' kv by (simp add: hm_contains_def)
qed

end

end
