(* ===== verification/Vir_Display.thy ===== *)
theory Vir_Display
  imports Vir_Stmt
begin

section \<open>Printing of VIR expressions (prusti-common/src/vir/ast/expr.rs)\<close>

text \<open>
  The \<open>Display\<close> implementation of expressions, operators, constants, triggers and permission
  variants.  Sequence literals print their element type and are \<open>unreachable!\<close> when their type
  is not a sequence type: the printer returns \<open>None\<close> there.  The printed places appear in the
  comments that the fold-unfold algorithm leaves where it drops a permission.
\<close>

fun unary_op_display :: "unary_op_kind \<Rightarrow> string" where
  "unary_op_display UnNot = ''!''"
| "unary_op_display UnMinus = ''-''"

fun bin_op_display :: "bin_op_kind \<Rightarrow> string" where
  "bin_op_display EqCmp = ''==''"
| "bin_op_display NeCmp = ''!=''"
| "bin_op_display GtCmp = ''>''"
| "bin_op_display GeCmp = ''>=''"
| "bin_op_display LtCmp = ''<''"
| "bin_op_display LeCmp = ''<=''"
| "bin_op_display OpAdd = ''+''"
| "bin_op_display OpSub = ''-''"
| "bin_op_display OpMul = ''*''"
| "bin_op_display OpDiv = [CHR 0x5C]"
| "bin_op_display OpMod = ''%''"
| "bin_op_display OpAnd = ''&&''"
| "bin_op_display OpOr = ''||''"
| "bin_op_display OpImplies = ''==>''"

fun const_display :: "const_lit \<Rightarrow> string" where
  "const_display (CBool b) = (if b then ''true'' else ''false'')"
| "const_display (CInt i) = int_to_string (sint i)"
| "const_display (CBigInt s) = s"
| "const_display CFnPtr = ''FnPtr''"

definition borrow_debug :: "borrow \<Rightarrow> string" where
  "borrow_debug b = CHR ''L'' # nat_to_string (borrow_id b)"

definition variant_index_display :: "enum_variant_index \<Rightarrow> string" where
  "variant_index_display v = ''{'' @ get_variant_name v @ ''}''"

definition pred_variant_display :: "string \<Rightarrow> maybe_enum_variant_index \<Rightarrow> string" where
  "pred_variant_display pred_name variant = (case variant of
     Some variant_index \<Rightarrow> pred_name @ ''<variant '' @ variant_index_display variant_index @ ''>''
   | None \<Rightarrow> pred_name)"

definition app2O :: "'a option \<Rightarrow> 'b option \<Rightarrow> ('a \<Rightarrow> 'b \<Rightarrow> 'c) \<Rightarrow> 'c option" where
  "app2O a b f = (case a of None \<Rightarrow> None | Some x \<Rightarrow> map_option (f x) b)"

lemma app2O_cong [fundef_cong]: "a = a' \<Longrightarrow> b = b' \<Longrightarrow> f = g \<Longrightarrow> app2O a b f = app2O a' b' g"
  by simp

fun expr_display :: "expr \<Rightarrow> string option" where
  "expr_display (ELocal v _) = Some (lv_name v)"
| "expr_display (EVariant base variant_index _) =
     map_option (\<lambda>b. b @ ''['' @ fd_name variant_index @ '']'') (expr_display base)"
| "expr_display (EField base field _) = map_option (\<lambda>b. b @ ''.'' @ fd_name field) (expr_display base)"
| "expr_display (EAddrOf base _ _) = map_option (\<lambda>b. ''&('' @ b @ '')'') (expr_display base)"
| "expr_display (EConst value _) = Some (const_display value)"
| "expr_display (EBinOp op left right _) =
     app2O (expr_display left) (expr_display right)
       (\<lambda>l r. ''('' @ l @ '') '' @ bin_op_display op @ '' ('' @ r @ '')'')"
| "expr_display (EContainerOp SeqIndex left right _) =
     app2O (expr_display left) (expr_display right) (\<lambda>l r. l @ ''['' @ r @ '']'')"
| "expr_display (EContainerOp SeqConcat left right _) =
     app2O (expr_display left) (expr_display right) (\<lambda>l r. l @ '' ++ '' @ r)"
| "expr_display (EContainerOp SeqLen left right _) =
     map_option (\<lambda>l. ''|'' @ l @ ''|'') (expr_display left)"
| "expr_display (ESeq ty elems _) =
     (case mapO expr_display elems of
        None \<Rightarrow> None
      | Some ss \<Rightarrow> (case ty of
          TSeq elem_ty \<Rightarrow>
            Some (''Seq['' @ type_display elem_ty @ ''](''  @ join_strings '', '' ss @ '')'')
        | _ \<Rightarrow> None))"
| "expr_display (EUnaryOp op e _) =
     map_option (\<lambda>s. unary_op_display op @ ''('' @ s @ '')'') (expr_display e)"
| "expr_display (EPredicateAccessPredicate pred_name arg perm _) =
     map_option (\<lambda>a. ''acc('' @ pred_name @ ''('' @ a @ ''), '' @ perm_display perm @ '')'')
       (expr_display arg)"
| "expr_display (EFieldAccessPredicate e perm _) =
     map_option (\<lambda>s. ''acc('' @ s @ '', '' @ perm_display perm @ '')'') (expr_display e)"
| "expr_display (ELabelledOld label e _) =
     map_option (\<lambda>s. ''old['' @ label @ '']('' @ s @ '')'') (expr_display e)"
| "expr_display (EMagicWand left right borrow _) =
     app2O (expr_display left) (expr_display right)
       (\<lambda>l r. ''('' @ l @ '') '' @
          (case borrow of Some b \<Rightarrow> ''Some('' @ borrow_debug b @ '')'' | None \<Rightarrow> ''None'') @
          '' --* ('' @ r @ '')'')"
| "expr_display (EUnfolding pred_name args e perm variant _) =
     app2O (mapO expr_display args) (expr_display e)
       (\<lambda>ss s. ''(unfolding acc('' @ pred_variant_display pred_name variant @ ''('' @
          join_strings '', '' ss @ ''), '' @ perm_display perm @ '') in '' @ s @ '')'')"
| "expr_display (ECond guard left right _) =
     app2O (expr_display guard) (app2O (expr_display left) (expr_display right) Pair)
       (\<lambda>g (l, r). ''('' @ g @ '')?('' @ l @ ''):('' @ r @ '')'')"
| "expr_display (EForAll vars triggers body _) =
     app2O (mapO (\<lambda>t. map_option (\<lambda>ss. ''{'' @ join_strings '', '' ss @ ''}'')
              (mapO expr_display (trigger_elements t))) triggers) (expr_display body)
       (\<lambda>ts b. ''forall '' @ join_strings '', '' (map local_var_debug vars) @ '' '' @
          join_strings '', '' ts @ '' :: '' @ b)"
| "expr_display (EExists vars triggers body _) =
     app2O (mapO (\<lambda>t. map_option (\<lambda>ss. ''{'' @ join_strings '', '' ss @ ''}'')
              (mapO expr_display (trigger_elements t))) triggers) (expr_display body)
       (\<lambda>ts b. ''exists '' @ join_strings '', '' (map local_var_debug vars) @ '' '' @
          join_strings '', '' ts @ '' :: '' @ b)"
| "expr_display (ELetExpr var e body _) =
     app2O (expr_display e) (expr_display body)
       (\<lambda>s b. ''(let '' @ local_var_debug var @ '' == ('' @ s @ '') in '' @ b @ '')'')"
| "expr_display (EFuncApp name args params typ _) =
     map_option (\<lambda>ss. name @ ''<'' @ join_strings '', '' (map (type_display \<circ> lv_typ) params) @ '','' @
          type_display typ @ ''>('' @ join_strings '', '' ss @ '')'') (mapO expr_display args)"
| "expr_display (EDomainFuncApp func args _) =
     map_option (\<lambda>ss. df_name func @ ''('' @ join_strings '', '' ss @ '')'') (mapO expr_display args)"
| "expr_display (EInhaleExhale inhale_expr exhale_expr _) =
     app2O (expr_display inhale_expr) (expr_display exhale_expr)
       (\<lambda>i x. ''[('' @ i @ ''), ('' @ x @ '')]'')"
| "expr_display (EDowncast base enum_place field) =
     app2O (expr_display enum_place) (expr_display base)
       (\<lambda>p b. ''(downcast '' @ p @ '' to '' @ fd_name field @ '' in '' @ b @ '')'')"
| "expr_display (ESnapApp e _) = map_option (\<lambda>s. ''snap('' @ s @ '')'') (expr_display e)"

text \<open>Printing a simple place never panics and looks only at names.\<close>

lemma simple_place_display: "is_simple_place e \<Longrightarrow> \<exists>s. expr_display e = Some s"
  by (induction e rule: is_simple_place.induct) auto

lemma simple_place_display_cong:
  "is_simple_place e \<Longrightarrow> expr_eq e e' \<Longrightarrow> expr_display e = expr_display e'"
proof (induction e arbitrary: e' rule: is_simple_place.induct)
  case (1 v p)
  then show ?case by (cases e') (auto simp: local_var_eq_def)
next
  case (2 b f p)
  then show ?case by (cases e') (auto simp: field_eq_def)
next
  case (3 b f p)
  then show ?case by (cases e') (auto simp: field_eq_def)
qed auto

end
