(* ===== verification/Fu_Perm.thy ===== *)
theory Fu_Perm
  imports Fallible Vir_Display
begin

section \<open>Fold-unfold: permissions, actions and errors\<close>

text \<open>
  \<^verbatim>\<open>foldunfold/perm.rs\<close>, \<^verbatim>\<open>foldunfold/action.rs\<close> and the error type of \<^verbatim>\<open>foldunfold/mod.rs\<close>.
  A permission is an access or predicate permission to a place.  Hash sets of permissions and hash
  maps from places are lists over \<open>perm_eq\<close> and \<open>expr_eq\<close>.  A failure is either a panic or one of
  the errors that the algorithm returns.
\<close>

subsection \<open>Permissions\<close>

datatype perm = Acc expr perm_amount | Pred expr perm_amount

fun perm_eq :: "perm \<Rightarrow> perm \<Rightarrow> bool" where
  "perm_eq (Acc p a) (Acc q b) \<longleftrightarrow> expr_eq p q \<and> a = b"
| "perm_eq (Pred p a) (Pred q b) \<longleftrightarrow> expr_eq p q \<and> a = b"
| "perm_eq _ _ \<longleftrightarrow> False"

interpretation hx: hash_keys expr_eq
  by unfold_locales

interpretation pe: hash_keys perm_eq
proof unfold_locales
  fix x y z
  show "perm_eq x y \<Longrightarrow> perm_eq y x" by (cases x; cases y) (auto intro: expr_eq_sym)
  show "perm_eq x y \<Longrightarrow> perm_eq y z \<Longrightarrow> perm_eq x z"
    by (cases x; cases y; cases z) (auto intro: expr_eq_trans)
qed

fun is_acc :: "perm \<Rightarrow> bool" where
  "is_acc (Acc _ _) = True"
| "is_acc _ = False"

fun is_pred :: "perm \<Rightarrow> bool" where
  "is_pred (Pred _ _) = True"
| "is_pred _ = False"

fun get_place :: "perm \<Rightarrow> expr" where
  "get_place (Acc place _) = place"
| "get_place (Pred place _) = place"

fun get_perm_amount :: "perm \<Rightarrow> perm_amount" where
  "get_perm_amount (Acc _ p) = p"
| "get_perm_amount (Pred _ p) = p"

definition perm_is_curr :: "perm \<Rightarrow> bool" where
  "perm_is_curr perm = is_curr (get_place perm)"

definition perm_is_local :: "perm \<Rightarrow> bool" where
  "perm_is_local perm = is_local (get_place perm)"

definition perm_typed_ref_name :: "perm \<Rightarrow> string option option" where
  "perm_typed_ref_name perm = expr_typed_ref_name (get_place perm)"

definition perm_get_label :: "perm \<Rightarrow> string option" where
  "perm_get_label perm = get_label (get_place perm)"

definition perm_has_proper_prefix :: "perm \<Rightarrow> expr \<Rightarrow> bool option" where
  "perm_has_proper_prefix perm other = has_proper_prefix (get_place perm) other"

text \<open>The closures given to \<open>map_place\<close> replace places, which may panic.\<close>

fun map_place :: "(expr \<Rightarrow> 'e + expr) \<Rightarrow> perm \<Rightarrow> 'e + perm" where
  "map_place f (Acc place fr) = map_sum id (\<lambda>q. Acc q fr) (f place)"
| "map_place f (Pred place fr) = map_sum id (\<lambda>q. Pred q fr) (f place)"

fun with_amount :: "perm \<Rightarrow> perm_amount \<Rightarrow> perm" where
  "with_amount (Acc e _) new_perm = Acc e new_perm"
| "with_amount (Pred e _) new_perm = Pred e new_perm"

text \<open>Both setters assert; \<open>None\<close> is the panic.\<close>

definition init_perm_amount :: "perm \<Rightarrow> perm_amount \<Rightarrow> perm option" where
  "init_perm_amount perm new_perm =
     (if \<not> is_valid_for_specs new_perm then None
      else if get_perm_amount perm = Remaining then None
      else Some (with_amount perm new_perm))"

definition update_perm_amount :: "perm \<Rightarrow> perm_amount \<Rightarrow> perm option" where
  "update_perm_amount perm new_perm =
     (if \<not> is_valid_for_specs (get_perm_amount perm) then None
      else if \<not> is_valid_for_specs new_perm then None
      else Some (with_amount perm new_perm))"

fun perm_set_default_pos :: "position \<Rightarrow> perm \<Rightarrow> perm" where
  "perm_set_default_pos pos (Acc e q) = Acc (set_default_pos pos e) q"
| "perm_set_default_pos pos (Pred e q) = Pred (set_default_pos pos e) q"

fun perm_show :: "perm \<Rightarrow> string option" where
  "perm_show (Acc place q) =
     map_option (\<lambda>s. ''Acc('' @ s @ '', '' @ perm_display q @ '')'') (expr_display place)"
| "perm_show (Pred place q) =
     map_option (\<lambda>s. ''Pred('' @ s @ '', '' @ perm_display q @ '')'') (expr_display place)"

lemma update_is_init: "update_perm_amount perm q = init_perm_amount perm q"
  by (cases "get_perm_amount perm") (auto simp: update_perm_amount_def init_perm_amount_def)

lemma with_amount_simps [simp]:
  "get_place (with_amount perm q) = get_place perm" "is_acc (with_amount perm q) = is_acc perm"
  "is_pred (with_amount perm q) = is_pred perm" "get_perm_amount (with_amount perm q) = q"
  by (cases perm; simp)+

lemma is_pred_not_acc: "is_pred perm \<longleftrightarrow> \<not> is_acc perm"
  by (cases perm) auto

lemma perm_eq_iff:
  "perm_eq p q \<longleftrightarrow> is_acc p = is_acc q \<and> expr_eq (get_place p) (get_place q) \<and>
     get_perm_amount p = get_perm_amount q"
  by (cases p; cases q) auto

subsection \<open>Sets of permissions\<close>

type_synonym place_perms = "(expr, perm_amount) hmap"

record perm_set =
  ps_acc_perms :: place_perms
  ps_pred_perms :: place_perms

definition perm_set_empty :: perm_set where
  "perm_set_empty = \<lparr>ps_acc_perms = [], ps_pred_perms = []\<rparr>"

fun perm_set_add :: "perm_set \<Rightarrow> perm \<Rightarrow> perm_set" where
  "perm_set_add s (Acc place q) = s\<lparr>ps_acc_perms := hm_insert expr_eq (ps_acc_perms s) place q\<rparr>"
| "perm_set_add s (Pred place q) = s\<lparr>ps_pred_perms := hm_insert expr_eq (ps_pred_perms s) place q\<rparr>"

definition perm_set_perms :: "perm_set \<Rightarrow> perm list" where
  "perm_set_perms s =
     map (\<lambda>(place, q). Acc place q) (ps_acc_perms s) @
     map (\<lambda>(place, q). Pred place q) (ps_pred_perms s)"

definition collect_curr :: "perm list \<Rightarrow> perm list" where
  "collect_curr perms = filter perm_is_curr perms"

definition group_by_label :: "perm list \<Rightarrow> string option \<Rightarrow> perm list option" where
  "group_by_label perms =
     fold (\<lambda>perm res. res(perm_get_label perm \<mapsto>
       (case res (perm_get_label perm) of None \<Rightarrow> [] | Some ps \<Rightarrow> ps) @ [perm])) perms Map.empty"

subsection \<open>Errors\<close>

datatype fold_unfold_error =
    FailedToObtain perm
  | RequiresFolding string "expr list" perm_amount maybe_enum_variant_index position
  | InvalidPermAmountAdd string
  | InvalidPermAmountSub string
  | MissingPredicate string
  | FailedToRemovePred expr
  | MissingLabel string
  | Unsupported string

text \<open>
  \<open>NoFuel\<close> is not an outcome of the code: it is the value of a bounded recursion that was stopped.
\<close>

datatype failure = Panic | Err fold_unfold_error | NoFuel

fun from_perm_amount_error :: "perm_amount_error \<Rightarrow> fold_unfold_error" where
  "from_perm_amount_error (InvalidAdd a b) =
     InvalidPermAmountAdd (''invalid addition: '' @ perm_display a @ '' + '' @ perm_display b)"
| "from_perm_amount_error (InvalidSub a b) =
     InvalidPermAmountSub (''invalid substraction: '' @ perm_display a @ '' - '' @ perm_display b)"

abbreviation unwrap :: "'a option \<Rightarrow> failure + 'a" where
  "unwrap \<equiv> unwrapE Panic"

abbreviation require :: "bool \<Rightarrow> failure + unit" where
  "require \<equiv> assertE Panic"

definition amount_result :: "perm_amount_error + perm_amount \<Rightarrow> failure + perm_amount" where
  "amount_result r = map_sum (Err \<circ> from_perm_amount_error) id r"

lemma amount_result_Inr_iff [fallible_simps]: "amount_result r = Inr a \<longleftrightarrow> r = Inr a"
  by (cases r) (auto simp: amount_result_def)

definition to_panic :: "'e + 'a \<Rightarrow> failure + 'a" where
  "to_panic r = map_sum (\<lambda>_. Panic) id r"

lemma to_panic_Inr_iff [fallible_simps]: "to_panic r = Inr a \<longleftrightarrow> r = Inr a"
  by (cases r) (auto simp: to_panic_def)

lemma to_panic_simps [simp]: "to_panic (Inr a) = Inr a" "to_panic (Inl e) = Inl Panic"
  by (simp_all add: to_panic_def)

subsection \<open>Difference of permission sets\<close>

text \<open>
  For every place of the right operand that the left has, the entry is removed; a pair of amounts
  other than read/read, read/write and write/write is \<open>unreachable!\<close>.
\<close>

definition difference_allowed :: "perm_amount \<Rightarrow> perm_amount \<Rightarrow> bool" where
  "difference_allowed left right \<longleftrightarrow>
     (left = Read \<and> right = Read) \<or> (left = Read \<and> right = Write) \<or> (left = Write \<and> right = Write)"

fun difference_step :: "expr \<times> perm_amount \<Rightarrow> place_perms \<Rightarrow> failure + place_perms" where
  "difference_step (place, right_amount) left =
     (case hm_get expr_eq left place of
        Some left_amount \<Rightarrow>
          (if difference_allowed left_amount right_amount then Inr (hm_remove expr_eq left place)
           else Inl Panic)
      | None \<Rightarrow> Inr left)"

definition place_perm_difference :: "place_perms \<Rightarrow> place_perms \<Rightarrow> failure + place_perms" where
  "place_perm_difference left right =
     foldE difference_step right left"

definition collect_map :: "perm list \<Rightarrow> place_perms" where
  "collect_map perms = hm_extend expr_eq [] (map (\<lambda>p. (get_place p, get_perm_amount p)) perms)"

definition perm_difference :: "perm list \<Rightarrow> perm list \<Rightarrow> failure + perm list" where
  "perm_difference left right =
     bindE (place_perm_difference (collect_map (filter is_acc left)) (collect_map (filter is_acc right)))
       (\<lambda>accs.
     bindE (place_perm_difference (collect_map (filter is_pred left)) (collect_map (filter is_pred right)))
       (\<lambda>preds.
     Inr (hs_collect perm_eq
       (map (\<lambda>(place, amount). Acc place amount) accs @
        map (\<lambda>(place, amount). Pred place amount) preds))))"

subsection \<open>Actions (action.rs)\<close>

datatype action =
    AFold string "expr list" perm_amount maybe_enum_variant_index position
  | AUnfold string "expr list" perm_amount maybe_enum_variant_index
  | ADrop perm perm

text \<open>The statement of a dropped permission is a comment with the printed permissions.\<close>

fun to_stmt :: "action \<Rightarrow> stmt option" where
  "to_stmt (AFold pred args perm_amount variant pos) = Some (SFold pred args perm_amount variant pos)"
| "to_stmt (AUnfold pred args perm_amount variant) = Some (SUnfold pred args perm_amount variant)"
| "to_stmt (ADrop perm missing_perm) =
     app2O (perm_show perm) (perm_show missing_perm)
       (\<lambda>a b. SComment (''drop '' @ a @ '' ('' @ b @ '')''))"

fun to_expr :: "action \<Rightarrow> expr \<Rightarrow> fold_unfold_error + expr" where
  "to_expr (AFold pred args perm variant position) inner_expr =
     Inl (RequiresFolding pred args perm variant position)"
| "to_expr (AUnfold pred args perm variant) inner_expr =
     Inr (expr_unfolding pred args inner_expr perm variant)"
| "to_expr (ADrop _ _) inner_expr = Inr inner_expr"

subsection \<open>What the difference computes\<close>

text \<open>One amount per place and kind: what the callers of \<open>perm_difference\<close> build.\<close>

definition one_amount :: "perm list \<Rightarrow> bool" where
  "one_amount perms \<longleftrightarrow>
     (\<forall>p \<in> set perms. \<forall>q \<in> set perms. is_acc p = is_acc q \<and> expr_eq (get_place p) (get_place q) \<longrightarrow>
        get_perm_amount p = get_perm_amount q)"

definition perms_supported :: "perm list \<Rightarrow> bool" where
  "perms_supported perms \<longleftrightarrow> list_all (\<lambda>p. eq_supported (get_place p)) perms"

definition same_location :: "perm \<Rightarrow> perm \<Rightarrow> bool" where
  "same_location p q \<longleftrightarrow> is_acc p = is_acc q \<and> expr_eq (get_place p) (get_place q)"

lemma collect_map_get:
  assumes "one_amount perms" "perms_supported perms" "\<And>p q. p \<in> set perms \<Longrightarrow> q \<in> set perms \<Longrightarrow> is_acc p = is_acc q"
  shows "hm_get expr_eq (collect_map perms) k = Some a \<longleftrightarrow>
     (\<exists>p \<in> set perms. expr_eq (get_place p) k \<and> get_perm_amount p = a)"
proof -
  let ?ys = "map (\<lambda>p. (get_place p, get_perm_amount p)) perms"
  have "hm_get expr_eq (collect_map perms) k = hm_get expr_eq (rev ?ys) k"
    unfolding collect_map_def using assms(2)
    by (subst hx.get_extend) (auto simp: perms_supported_def list_all_iff expr_eq_refl_iff)
  moreover have "hm_get expr_eq (rev ?ys) k = Some a \<longleftrightarrow> (\<exists>p. (p, a) \<in> set (rev ?ys) \<and> expr_eq p k)"
  proof (rule hx.get_functional)
    fix x v y w assume "(x, v) \<in> set (rev ?ys)" "(y, w) \<in> set (rev ?ys)" "expr_eq x y"
    then obtain p q where "p \<in> set perms" "q \<in> set perms" "x = get_place p" "v = get_perm_amount p"
      "y = get_place q" "w = get_perm_amount q" by fastforce
    then show "v = w" using assms(1,3) \<open>expr_eq x y\<close> unfolding one_amount_def by blast
  qed
  ultimately show ?thesis by auto
qed

lemma collect_map_wf: "perms_supported perms \<Longrightarrow> hm_wf expr_eq (collect_map perms)"
  unfolding collect_map_def
  by (rule hx.wf_extend) (auto simp: perms_supported_def list_all_iff expr_eq_refl_iff)

lemma place_perm_difference_get:
  assumes "\<And>k a b. hm_get expr_eq left k = Some a \<Longrightarrow> hm_get expr_eq right k = Some b \<Longrightarrow> difference_allowed a b"
    and "hm_wf expr_eq right" "hm_wf expr_eq left"
  shows "\<exists>res. place_perm_difference left right = Inr res \<and> hm_wf expr_eq res \<and>
    (\<forall>k. hm_get expr_eq res k = (if hm_contains expr_eq right k then None else hm_get expr_eq left k))"
  using assms unfolding place_perm_difference_def
proof (induction right arbitrary: left)
  case Nil
  then show ?case by (auto simp: hm_contains_def)
next
  case (Cons kv right)
  obtain q r where kv: "kv = (q, r)" by (cases kv)
  define l where "l = hm_remove expr_eq left q"
  have l_get: "hm_get expr_eq l k = (if expr_eq q k then None else hm_get expr_eq left k)" for k
    by (simp add: l_def ex.get_remove)
  have refl: "expr_eq q q" and wfr: "hm_wf expr_eq right" using Cons.prems(2) kv by auto
  have wfl: "hm_wf expr_eq l" using Cons.prems(3) by (simp add: l_def ex.wf_remove)
  have allowed: "difference_allowed a b"
    if "hm_get expr_eq l k = Some a" "hm_get expr_eq right k = Some b" for k a b
    using Cons.prems(1) [of k a b] that kv by (auto simp: l_get split: if_splits)
  have "\<exists>res. foldE difference_step right l = Inr res \<and> hm_wf expr_eq res \<and>
    (\<forall>k. hm_get expr_eq res k = (if hm_contains expr_eq right k then None else hm_get expr_eq l k))"
    by (rule Cons.IH) (use allowed wfr wfl in blast)+
  then obtain res where res: "foldE difference_step right l = Inr res" "hm_wf expr_eq res"
    "\<And>k. hm_get expr_eq res k = (if hm_contains expr_eq right k then None else hm_get expr_eq l k)"
    by blast
  have same: "hm_get expr_eq left q = None \<Longrightarrow> l = left"
    unfolding l_def hm_remove_def using ex.get_eq_None_iff [of left q]
    by (auto intro: filter_True)
  have first: "hm_get expr_eq left q = Some a \<Longrightarrow> difference_allowed a r" for a
    using Cons.prems(1) [of q a r] kv refl by simp
  have step: "difference_step kv left = Inr l"
    using same first by (auto simp: l_def kv split: option.split)
  have "hm_get expr_eq res k =
      (if hm_contains expr_eq (kv # right) k then None else hm_get expr_eq left k)" for k
    by (auto simp: res(3) l_get kv hm_contains_def)
  then show ?case using res(1,2) step kv by auto
qed

lemma collect_map_contains:
  assumes "perms_supported perms"
  shows "hm_contains expr_eq (collect_map perms) k \<longleftrightarrow> (\<exists>p \<in> set perms. expr_eq (get_place p) k)"
proof -
  let ?ys = "map (\<lambda>p. (get_place p, get_perm_amount p)) perms"
  have "hm_get expr_eq (collect_map perms) k = hm_get expr_eq (rev ?ys) k"
    unfolding collect_map_def using assms
    by (subst hx.get_extend) (auto simp: perms_supported_def list_all_iff expr_eq_refl_iff)
  then have "hm_contains expr_eq (collect_map perms) k = hm_contains expr_eq (rev ?ys) k"
    by (simp add: hm_contains_def)
  then show ?thesis by (simp add: hx.contains_iff)
qed

text \<open>What the difference of the permissions of one kind is, as a set.\<close>

definition kind_difference :: "place_perms \<Rightarrow> perm list \<Rightarrow> perm list \<Rightarrow> bool" where
  "kind_difference res left right \<longleftrightarrow> hm_wf expr_eq res \<and>
    (\<forall>k a. (\<exists>k'. (k', a) \<in> set res \<and> expr_eq k' k) \<longleftrightarrow>
      (\<exists>p \<in> set left. expr_eq (get_place p) k \<and> get_perm_amount p = a) \<and>
      \<not> (\<exists>q \<in> set right. expr_eq (get_place q) k))"

lemma place_perm_difference_kind:
  assumes kinds: "\<And>p q. p \<in> set left \<union> set right \<Longrightarrow> q \<in> set left \<union> set right \<Longrightarrow> is_acc p = is_acc q"
    and supported: "perms_supported left" "perms_supported right"
    and amounts: "one_amount left" "one_amount right"
    and allowed: "\<And>p q. p \<in> set left \<Longrightarrow> q \<in> set right \<Longrightarrow> expr_eq (get_place p) (get_place q) \<Longrightarrow>
      difference_allowed (get_perm_amount p) (get_perm_amount q)"
  shows "\<exists>res. place_perm_difference (collect_map left) (collect_map right) = Inr res \<and>
    kind_difference res left right"
proof -
  have left: "hm_get expr_eq (collect_map left) k = Some a \<longleftrightarrow>
      (\<exists>p \<in> set left. expr_eq (get_place p) k \<and> get_perm_amount p = a)" for k a
    by (rule collect_map_get) (use kinds supported amounts in auto)
  have right: "hm_get expr_eq (collect_map right) k = Some a \<longleftrightarrow>
      (\<exists>p \<in> set right. expr_eq (get_place p) k \<and> get_perm_amount p = a)" for k a
    by (rule collect_map_get) (use kinds supported amounts in auto)
  have both: "difference_allowed a b"
    if "hm_get expr_eq (collect_map left) k = Some a" "hm_get expr_eq (collect_map right) k = Some b"
    for k a b
    using that allowed expr_eq_sym expr_eq_trans unfolding left right by blast
  have "\<exists>res. place_perm_difference (collect_map left) (collect_map right) = Inr res \<and>
      hm_wf expr_eq res \<and> (\<forall>k. hm_get expr_eq res k =
       (if hm_contains expr_eq (collect_map right) k then None else hm_get expr_eq (collect_map left) k))"
    by (rule place_perm_difference_get) (use both collect_map_wf supported in blast)+
  then obtain res where res: "place_perm_difference (collect_map left) (collect_map right) = Inr res"
    "hm_wf expr_eq res"
    "\<And>k. hm_get expr_eq res k =
       (if hm_contains expr_eq (collect_map right) k then None else hm_get expr_eq (collect_map left) k)"
    by blast
  have "(\<exists>k'. (k', a) \<in> set res \<and> expr_eq k' k) \<longleftrightarrow>
      (\<exists>p \<in> set left. expr_eq (get_place p) k \<and> get_perm_amount p = a) \<and>
      \<not> (\<exists>q \<in> set right. expr_eq (get_place q) k)" for k a
    using hx.get_wf_iff [OF res(2), of k a] left [of k a] collect_map_contains [OF supported(2), of k]
    by (cases "hm_contains expr_eq (collect_map right) k") (simp_all add: res(3))
  then show ?thesis unfolding kind_difference_def using res(1,2) by blast
qed

lemma wf_refl: "hm_wf expr_eq m \<Longrightarrow> (k, v) \<in> set m \<Longrightarrow> expr_eq k k"
proof (induction m)
  case (Cons kv m)
  then show ?case by (cases kv) auto
qed simp

lemma member_kinds:
  "hs_member perm_eq (map (\<lambda>(place, amount). Acc place amount) accs @
       map (\<lambda>(place, amount). Pred place amount) preds) p \<longleftrightarrow>
     (if is_acc p then \<exists>k. (k, get_perm_amount p) \<in> set accs \<and> expr_eq k (get_place p)
      else \<exists>k. (k, get_perm_amount p) \<in> set preds \<and> expr_eq k (get_place p))"
  by (cases p) (force simp: hs_member_def list_ex_iff)+

lemma perm_member_difference:
  assumes "kind_difference accs (filter is_acc left) (filter is_acc right)"
    and "kind_difference preds (filter is_pred left) (filter is_pred right)"
  shows "hs_member perm_eq (hs_collect perm_eq (map (\<lambda>(place, amount). Acc place amount) accs @
       map (\<lambda>(place, amount). Pred place amount) preds)) p \<longleftrightarrow>
     hs_member perm_eq left p \<and> \<not> (\<exists>q \<in> set right. same_location q p)"
proof -
  let ?res = "map (\<lambda>(place, amount). Acc place amount) accs @ map (\<lambda>(place, amount). Pred place amount) preds"
  have "perm_eq x x" if "x \<in> set ?res" for x
    using that assms wf_refl [of accs] wf_refl [of preds]
    by (auto simp: perm_eq_iff kind_difference_def)
  then have "hs_member perm_eq (hs_collect perm_eq ?res) p = hs_member perm_eq ?res p"
    by (rule pe.member_collect)
  also have "\<dots> \<longleftrightarrow> (\<exists>q \<in> set left. is_acc q = is_acc p \<and> expr_eq (get_place q) (get_place p) \<and>
        get_perm_amount q = get_perm_amount p) \<and> \<not> (\<exists>q \<in> set right. same_location q p)"
    using assms unfolding member_kinds kind_difference_def same_location_def
    by (cases "is_acc p") (auto simp: is_pred_not_acc)
  finally show ?thesis by (simp add: hs_member_def list_ex_iff perm_eq_iff conj_commute conj_left_commute)
qed

text \<open>
  Difference of permission sets.  When each set has one amount per place and a written place is
  not subtracted by a read, \<open>perm_difference\<close> does not panic and returns exactly the permissions of
  the left set for whose kind and place the right set has no permission, whatever its amount.
\<close>

theorem perm_difference_exact:
  assumes "perms_supported left" "perms_supported right" "one_amount left" "one_amount right"
    and "\<forall>p \<in> set left. \<forall>q \<in> set right. same_location p q \<longrightarrow>
      difference_allowed (get_perm_amount p) (get_perm_amount q)"
  shows "\<exists>res. perm_difference left right = Inr res \<and>
    (\<forall>p. hs_member perm_eq res p \<longleftrightarrow>
       hs_member perm_eq left p \<and> \<not> (\<exists>q \<in> set right. same_location q p))"
proof -
  have part: "\<exists>res. place_perm_difference (collect_map (filter P left)) (collect_map (filter P right)) = Inr res \<and>
      kind_difference res (filter P left) (filter P right)"
    if "\<And>p q. P p \<Longrightarrow> P q \<Longrightarrow> is_acc p = is_acc q" for P
  proof (rule place_perm_difference_kind)
    show "is_acc p = is_acc q" if "p \<in> set (filter P left) \<union> set (filter P right)"
      "q \<in> set (filter P left) \<union> set (filter P right)" for p q
      using \<open>\<And>p q. P p \<Longrightarrow> P q \<Longrightarrow> is_acc p = is_acc q\<close> that by auto
    show "difference_allowed (get_perm_amount p) (get_perm_amount q)"
      if "p \<in> set (filter P left)" "q \<in> set (filter P right)" "expr_eq (get_place p) (get_place q)" for p q
      using assms(5) \<open>\<And>p q. P p \<Longrightarrow> P q \<Longrightarrow> is_acc p = is_acc q\<close> that
      by (simp add: same_location_def)
  qed (use assms(1-4) in \<open>simp_all add: perms_supported_def one_amount_def list_all_iff\<close>)
  obtain accs where accs:
      "place_perm_difference (collect_map (filter is_acc left)) (collect_map (filter is_acc right)) = Inr accs"
      "kind_difference accs (filter is_acc left) (filter is_acc right)"
    using part [of is_acc] by auto
  obtain preds where preds:
      "place_perm_difference (collect_map (filter is_pred left)) (collect_map (filter is_pred right)) = Inr preds"
      "kind_difference preds (filter is_pred left) (filter is_pred right)"
    using part [of is_pred] by (auto simp: is_pred_not_acc)
  show ?thesis
    using perm_member_difference [OF accs(2) preds(2)] accs(1) preds(1) by (simp add: perm_difference_def)
qed

text \<open>Places of a small example: \<open>x\<close>, \<open>y\<close>, \<open>x.f\<close>, \<open>x.f.g\<close>.\<close>

definition ex_var :: "string \<Rightarrow> expr" where
  "ex_var name = ELocal (local_var_new name (TTypedRef ''T'')) position_default"

definition ex_x :: expr where
  "ex_x = ex_var ''x''"

definition ex_y :: expr where
  "ex_y = ex_var ''y''"

definition ex_dot :: "expr \<Rightarrow> string \<Rightarrow> expr" where
  "ex_dot e f = EField e (field_new f (TTypedRef (''T_'' @ f))) position_default"

lemmas ex_place_simps = ex_var_def ex_x_def ex_y_def ex_dot_def local_var_new_def field_new_def
  local_var_eq_def field_eq_def type_eq_def

theorem perm_difference_exact_witness:
  "let xfg = Acc (ex_dot (ex_dot ex_x ''f'') ''g'') Read; y = Acc ex_y Read;
       xf = Acc (ex_dot ex_x ''f'') Write; y' = Acc ex_y Write
   in \<exists>res. perm_difference [xfg, y] [xf, y'] = Inr res \<and> hs_member perm_eq res xfg \<and>
        \<not> hs_member perm_eq res y"
proof -
  let ?xfg = "Acc (ex_dot (ex_dot ex_x ''f'') ''g'') Read" and ?y = "Acc ex_y Read"
  let ?xf = "Acc (ex_dot ex_x ''f'') Write" and ?y' = "Acc ex_y Write"
  have "perms_supported [?xfg, ?y]" "perms_supported [?xf, ?y']" "one_amount [?xfg, ?y]"
    "one_amount [?xf, ?y']"
    "\<forall>p \<in> set [?xfg, ?y]. \<forall>q \<in> set [?xf, ?y']. same_location p q \<longrightarrow>
      difference_allowed (get_perm_amount p) (get_perm_amount q)"
    by (simp_all add: perms_supported_def one_amount_def difference_allowed_def ex_place_simps)
  from perm_difference_exact [OF this] obtain res where
    res: "perm_difference [?xfg, ?y] [?xf, ?y'] = Inr res" and
    mem: "\<And>p. hs_member perm_eq res p \<longleftrightarrow>
       hs_member perm_eq [?xfg, ?y] p \<and> \<not> (\<exists>q \<in> set [?xf, ?y']. same_location q p)"
    by blast
  have "hs_member perm_eq res ?xfg" "\<not> hs_member perm_eq res ?y"
    unfolding mem by (simp_all add: hs_member_def same_location_def ex_place_simps)
  then show ?thesis unfolding Let_def using res by blast
qed

end
