(* ===== verification/Fu_Places.thy ===== *)
theory Fu_Places
  imports Fu_Perm
begin

section \<open>Fold-unfold: sets of places\<close>

text \<open>
  \<^verbatim>\<open>foldunfold/places_utils.rs\<close> and the free functions on sets of places and permissions of
  \<^verbatim>\<open>foldunfold/path_ctxt.rs\<close>: the places to unfold and to fold when two branches join, the
  variant of an enum that a place goes through, and the filter of conflicting requirements.
  Sets are lists without equal members; filtering such a set and collecting the result inserts
  pairwise different elements.
\<close>

subsection \<open>Prefix tests\<close>

definition place_prefix :: "expr \<Rightarrow> expr \<Rightarrow> failure + bool" where
  "place_prefix e other = unwrap (has_prefix e other)"

definition place_proper_prefix :: "expr \<Rightarrow> expr \<Rightarrow> failure + bool" where
  "place_proper_prefix e other = unwrap (has_proper_prefix e other)"

text \<open>The readings on places, where the tests cannot panic.\<close>

definition below :: "expr \<Rightarrow> expr \<Rightarrow> bool" where
  "below e other \<longleftrightarrow> prefix_of e other \<and> \<not> expr_eq e other"

definition place_ok :: "expr \<Rightarrow> bool" where
  "place_ok e \<longleftrightarrow> is_place e \<and> eq_supported e"

lemma place_prefix_total: "place_ok e \<Longrightarrow> place_prefix e other = Inr (prefix_of e other)"
  by (simp add: place_prefix_def place_ok_def has_prefix_total)

lemma place_proper_prefix_total: "place_ok e \<Longrightarrow> place_proper_prefix e other = Inr (below e other)"
  by (simp add: place_proper_prefix_def place_ok_def has_proper_prefix_def has_prefix_total below_def)

lemma place_tests:
  "place_ok e \<Longrightarrow> has_prefix e other = Some (prefix_of e other)"
  "place_ok e \<Longrightarrow> has_proper_prefix e other = Some (below e other)"
  by (simp_all add: place_ok_def has_proper_prefix_def has_prefix_total below_def)

lemma prefix_of_refl: "place_ok e \<Longrightarrow> prefix_of e e"
  by (simp add: place_ok_def pl.pre_refl expr_eq_refl_iff)

lemma below_shorter: "below e other \<Longrightarrow> length (prefix_list other) < length (prefix_list e)"
  using pl.pre_length [of e other] by (fastforce simp: below_def)

lemma below_trans: "prefix_of x y \<Longrightarrow> below y z \<Longrightarrow> below x z"
  using pl.pre_trans [of x y z] pl.pre_length [of x y] below_shorter [of y z]
    pl.eq_prefix_length [of x z]
  by (auto simp: below_def)

lemma below_prefix: "below x y \<Longrightarrow> prefix_of y z \<Longrightarrow> below x z"
proof -
  assume xy: "below x y" and yz: "prefix_of y z"
  have "length (prefix_list z) < length (prefix_list x)"
    using pl.pre_length [OF yz] below_shorter [OF xy] by simp
  moreover have "prefix_of x z" using xy yz pl.pre_trans [of x y z] by (simp add: below_def)
  ultimately show "below x z" using pl.eq_prefix_length [of x z] by (auto simp: below_def)
qed

text \<open>Every member of a set of places is below, or is, a member that nothing is above.\<close>

lemma minimal_prefix:
  assumes "\<And>y. y \<in> S \<Longrightarrow> place_ok y" "x \<in> S"
  shows "\<exists>m \<in> S. prefix_of x m \<and> (\<forall>y \<in> S. \<not> below m y)"
  using assms(2)
proof (induction "length (prefix_list x)" arbitrary: x rule: less_induct)
  case less
  show ?case
  proof (cases "\<exists>y \<in> S. below x y")
    case True
    then obtain y where y: "y \<in> S" "below x y" by blast
    then obtain m where "m \<in> S" "prefix_of y m" "\<forall>z \<in> S. \<not> below m z"
      using less.hyps [OF below_shorter [OF y(2)] y(1)] by blast
    moreover have "prefix_of x m" using y(2) \<open>prefix_of y m\<close> pl.pre_trans by (auto simp: below_def)
    ultimately show ?thesis by blast
  next
    case False
    then show ?thesis using less.prems assms(1) prefix_of_refl by blast
  qed
qed

subsection \<open>Operations on sets of places (places_utils.rs)\<close>

definition filter_proper_extensions_of :: "expr list \<Rightarrow> expr list \<Rightarrow> failure + expr list" where
  "filter_proper_extensions_of left right =
     filterE (\<lambda>left_item. anyE (\<lambda>right_item. place_proper_prefix left_item right_item) right) left"

definition filter_not_proper_extensions_of :: "expr list \<Rightarrow> expr list \<Rightarrow> failure + expr list" where
  "filter_not_proper_extensions_of left right =
     filterE (\<lambda>left_item. bindE (anyE (\<lambda>right_item. place_proper_prefix left_item right_item) right)
       (\<lambda>found. Inr (\<not> found))) left"

definition ancestors :: "expr list \<Rightarrow> failure + expr list" where
  "ancestors initial =
     filterE (\<lambda>a. bindE (anyE (\<lambda>b. place_proper_prefix a b) initial) (\<lambda>found. Inr (\<not> found))) initial"

definition union_sets :: "('a \<Rightarrow> 'a \<Rightarrow> bool) \<Rightarrow> 'a list \<Rightarrow> 'a list \<Rightarrow> 'a list" where
  "union_sets eq left right = hs_extend eq left right"

definition union3_sets :: "('a \<Rightarrow> 'a \<Rightarrow> bool) \<Rightarrow> 'a list \<Rightarrow> 'a list \<Rightarrow> 'a list \<Rightarrow> 'a list" where
  "union3_sets eq left mid right = union_sets eq (union_sets eq left mid) right"

definition intersection_sets :: "('a \<Rightarrow> 'a \<Rightarrow> bool) \<Rightarrow> 'a list \<Rightarrow> 'a list \<Rightarrow> 'a list" where
  "intersection_sets eq left right = hs_intersection eq left right"

lemma any_proper_total:
  "place_ok e \<Longrightarrow> anyE (\<lambda>o'. place_proper_prefix e o') others = Inr (list_ex (below e) others)"
  by (rule anyE_total) (rule place_proper_prefix_total)

lemma filter_proper_total:
  "list_all place_ok left \<Longrightarrow>
   filter_proper_extensions_of left right = Inr (filter (\<lambda>e. list_ex (below e) right) left)"
  unfolding filter_proper_extensions_of_def
  by (rule filterE_total) (simp add: any_proper_total list_all_iff)

lemma filter_not_proper_total:
  "list_all place_ok left \<Longrightarrow>
   filter_not_proper_extensions_of left right = Inr (filter (\<lambda>e. \<not> list_ex (below e) right) left)"
  unfolding filter_not_proper_extensions_of_def
  by (rule filterE_total) (simp add: any_proper_total list_all_iff)

lemma ancestors_total:
  "list_all place_ok initial \<Longrightarrow> ancestors initial = Inr (filter (\<lambda>a. \<not> list_ex (below a) initial) initial)"
  unfolding ancestors_def by (rule filterE_total) (simp add: any_proper_total list_all_iff)

subsection \<open>The variant that a place goes through\<close>

function find_variant :: "expr \<Rightarrow> expr \<Rightarrow> failure + maybe_enum_variant_index" where
  "find_variant enum_place variant_place =
     (case get_parent variant_place of
        Some (Some parent) \<Rightarrow>
          (if expr_eq enum_place parent then
             (case variant_place of
                EVariant _ field _ \<Rightarrow> bindE (unwrap (field_into_variant_index field)) (\<lambda>v. Inr (Some v))
              | _ \<Rightarrow> Inr None)
           else find_variant enum_place parent)
      | _ \<Rightarrow> Inl Panic)"
  by pat_completeness auto
termination by (relation "measure (size \<circ> snd)") (auto simp: get_parent_size)

declare find_variant.simps [simp del]

subsection \<open>What to fold and to unfold at a join\<close>

text \<open>The base of a variant that is unfolded in one set and has no extension in the other.\<close>

fun conflicting_base_of :: "expr list \<Rightarrow> expr \<Rightarrow> expr list \<Rightarrow> failure + expr list" where
  "conflicting_base_of second_set (EVariant base f p) acc =
     bindE (anyE (\<lambda>q. place_prefix q (EVariant base f p)) second_set) (\<lambda>found.
       Inr (if found then acc else hs_insert expr_eq base acc))"
| "conflicting_base_of second_set _ acc = Inr acc"

definition place_check ::
  "expr list \<Rightarrow> expr list \<Rightarrow> expr list \<Rightarrow> expr \<Rightarrow> expr list \<Rightarrow> failure + expr list" where
  "place_check conflicting_base item_set other_set item places =
     bindE (anyE (\<lambda>p. place_proper_prefix p item) item_set) (\<lambda>not_leaf.
     bindE (anyE (\<lambda>p. place_prefix p item) other_set) (\<lambda>above_other.
     bindE (anyE (\<lambda>base. place_prefix item base) conflicting_base) (\<lambda>conflict.
     Inr (if \<not> not_leaf \<and> \<not> above_other \<and> \<not> conflict then hs_insert expr_eq item places
          else places))))"

definition compute_fold_target :: "expr list \<Rightarrow> expr list \<Rightarrow> failure + expr list \<times> expr list" where
  "compute_fold_target left right =
     bindE (foldE (conflicting_base_of right) left []) (\<lambda>conflicting_left.
     bindE (foldE (conflicting_base_of left) right conflicting_left) (\<lambda>conflicting_base.
     bindE (foldE (place_check conflicting_base left right) left []) (\<lambda>places_left.
     bindE (foldE (place_check conflicting_base right left) right places_left) (\<lambda>acc_places.
     bindE (filterE (\<lambda>place. bindE (anyE (\<lambda>base. place_proper_prefix place base) conflicting_base)
              (\<lambda>found. Inr (\<not> found))) conflicting_base) (\<lambda>pred_places.
     Inr (acc_places, pred_places))))))"

subsection \<open>Conflicting requirements\<close>

definition solve_conficts :: "perm list \<Rightarrow> failure + perm list" where
  "solve_conficts perms =
     filterE (\<lambda>p. bindE (anyE (\<lambda>q. if is_pred q then place_proper_prefix (get_place p) (get_place q)
                                   else Inr False) perms)
       (\<lambda>found. Inr (\<not> found))) perms"

subsection \<open>Correctness\<close>

text \<open>
  \<open>ancestors\<close> keeps the outermost places of a set: it does not panic on places, no kept place
  is a proper extension of another, and every place of the set has a kept prefix.
\<close>

theorem ancestors_outermost:
  assumes "list_all place_ok initial"
  shows "\<exists>res. ancestors initial = Inr res \<and> set res \<subseteq> set initial \<and>
    (\<forall>a \<in> set res. \<forall>b \<in> set initial. has_proper_prefix a b = Some False) \<and>
    (\<forall>a \<in> set initial. \<exists>b \<in> set res. has_prefix a b = Some True)"
proof -
  let ?res = "filter (\<lambda>a. \<not> list_ex (below a) initial) initial"
  have ok: "place_ok e" if "e \<in> set initial" for e using assms that by (simp add: list_all_iff)
  have "has_proper_prefix a b = Some False" if "a \<in> set ?res" "b \<in> set initial" for a b
    using that place_proper_prefix_total [of a b] ok
    by (auto simp: place_proper_prefix_def fallible_simps list_ex_iff)
  moreover have "\<exists>b \<in> set ?res. has_prefix a b = Some True" if "a \<in> set initial" for a
    using minimal_prefix [of "set initial" a] ok that by (auto simp: prefix_of_def list_ex_iff)
  ultimately show ?thesis using ancestors_total [OF assms] by auto
qed

theorem ancestors_outermost_witness:
  "let bc = ex_dot ex_x ''c''; bce = ex_dot bc ''e'' in
   \<exists>res. ancestors [ex_y, bc, bce] = Inr res \<and> (\<exists>b \<in> set res. has_prefix bce b = Some True)"
proof -
  let ?bc = "ex_dot ex_x ''c''"
  have "list_all place_ok [ex_y, ?bc, ex_dot ?bc ''e'']"
    by (simp add: place_ok_def ex_place_simps)
  from ancestors_outermost [OF this] show ?thesis by (auto simp: Let_def)
qed

text \<open>
  Conflicting requirements.  \<open>solve_conficts\<close> does not panic on places; what it keeps has no
  requirement strictly inside a required predicate, and every requirement it drops lies strictly
  inside a predicate that it keeps.
\<close>

theorem solve_conficts_sound:
  assumes "list_all (place_ok \<circ> get_place) perms"
  shows "\<exists>res. solve_conficts perms = Inr res \<and> set res \<subseteq> set perms \<and>
    (\<forall>p \<in> set res. \<forall>q \<in> set perms. is_pred q \<longrightarrow>
       has_proper_prefix (get_place p) (get_place q) = Some False) \<and>
    (\<forall>p \<in> set perms. p \<notin> set res \<longrightarrow>
       (\<exists>q \<in> set res. is_pred q \<and> has_proper_prefix (get_place p) (get_place q) = Some True))"
proof -
  let ?inside = "\<lambda>p q. is_pred q \<and> below (get_place p) (get_place q)"
  let ?res = "filter (\<lambda>p. \<not> list_ex (?inside p) perms) perms"
  let ?S = "get_place ` {q \<in> set perms. is_pred q}"
  have ok: "place_ok (get_place p)" if "p \<in> set perms" for p using assms that by (simp add: list_all_iff)
  have proper: "has_proper_prefix (get_place p) e = Some (below (get_place p) e)" if "p \<in> set perms" for p e
    using place_proper_prefix_total [OF ok [OF that], of e]
    by (simp add: place_proper_prefix_def fallible_simps)
  have "anyE (\<lambda>q. if is_pred q then place_proper_prefix (get_place p) (get_place q) else Inr False) perms =
      Inr (list_ex (?inside p) perms)" if "p \<in> set perms" for p
    by (rule anyE_total) (simp add: place_proper_prefix_total [OF ok [OF that]])
  then have "solve_conficts perms = Inr ?res"
    unfolding solve_conficts_def by (intro filterE_total) simp
  moreover have "\<exists>q \<in> set ?res. is_pred q \<and> below (get_place p) (get_place q)"
    if p: "p \<in> set perms" "p \<notin> set ?res" for p
  proof -
    obtain q where q: "q \<in> set perms" "is_pred q" "below (get_place p) (get_place q)"
      using p by (auto simp: list_ex_iff)
    then obtain m where m: "m \<in> set perms" "is_pred m" "prefix_of (get_place q) (get_place m)"
        "\<forall>y \<in> ?S. \<not> below (get_place m) y"
      using minimal_prefix [of ?S "get_place q"] ok by blast
    have "below (get_place p) (get_place m)"
      using q(3) m(3) by (rule below_prefix)
    then show ?thesis using m by (auto simp: list_ex_iff)
  qed
  ultimately show ?thesis using proper by (auto simp: list_ex_iff)
qed

theorem solve_conficts_sound_witness:
  "let xf = ex_dot ex_x ''f''; xfg = ex_dot xf ''g'' in
   \<exists>res. solve_conficts [Pred xf Read, Pred xfg Read, Acc xfg Read] = Inr res \<and> set res = {Pred xf Read}"
proof -
  let ?xf = "ex_dot ex_x ''f''"
  let ?ps = "[Pred ?xf Read, Pred (ex_dot ?xf ''g'') Read, Acc (ex_dot ?xf ''g'') Read]"
  have "list_all (place_ok \<circ> get_place) ?ps" by (simp add: place_ok_def ex_place_simps)
  from solve_conficts_sound [OF this] obtain res where res: "solve_conficts ?ps = Inr res"
    and sub: "set res \<subseteq> set ?ps"
    and kept: "\<forall>p \<in> set res. \<forall>q \<in> set ?ps. is_pred q \<longrightarrow>
       has_proper_prefix (get_place p) (get_place q) = Some False"
    and dropped: "\<forall>p \<in> set ?ps. p \<notin> set res \<longrightarrow>
       (\<exists>q \<in> set res. is_pred q \<and> has_proper_prefix (get_place p) (get_place q) = Some True)"
    by blast
  have inner: "has_proper_prefix (ex_dot ?xf ''g'') ?xf = Some True"
    by (simp add: has_proper_prefix_def has_prefix.simps ex_place_simps)
  have "Pred (ex_dot ?xf ''g'') Read \<notin> set res" "Acc (ex_dot ?xf ''g'') Read \<notin> set res"
    using kept inner by force+
  then have "set res \<subseteq> {Pred ?xf Read}" using sub by auto
  moreover have "set res \<noteq> {}" using dropped by fastforce
  ultimately have "set res = {Pred ?xf Read}" by (simp add: subset_singleton_iff)
  then show ?thesis using res by (simp add: Let_def)
qed

subsection \<open>The targets of a join\<close>

lemma foldE_insert:
  assumes "\<And>x acc. x \<in> set items \<Longrightarrow> f x acc = Inr (if P x then hs_insert eq (g x) acc else acc)"
  shows "foldE f items acc = Inr (hs_extend eq acc (map g (filter P items)))"
  using assms by (induction items arbitrary: acc) auto

fun variant_base :: "expr \<Rightarrow> expr" where
  "variant_base (EVariant base _ _) = base"
| "variant_base e = e"

definition conflict :: "expr list \<Rightarrow> expr \<Rightarrow> bool" where
  "conflict second_set item \<longleftrightarrow> is_variant item \<and> \<not> list_ex (\<lambda>q. prefix_of q item) second_set"

lemma conflicting_base_total:
  assumes "list_all place_ok second_set"
  shows "conflicting_base_of second_set item acc =
    Inr (if conflict second_set item then hs_insert expr_eq (variant_base item) acc else acc)"
proof (cases item)
  case (EVariant base f p)
  have "anyE (\<lambda>q. place_prefix q item) second_set = Inr (list_ex (\<lambda>q. prefix_of q item) second_set)"
    by (rule anyE_total) (use assms in \<open>simp add: place_prefix_total list_all_iff\<close>)
  then show ?thesis using EVariant by (simp add: conflict_def)
qed (simp_all add: conflict_def)

definition conflicting_bases :: "expr list \<Rightarrow> expr list \<Rightarrow> expr list" where
  "conflicting_bases left right =
     hs_extend expr_eq (hs_collect expr_eq (map variant_base (filter (conflict right) left)))
       (map variant_base (filter (conflict left) right))"

definition unfold_target :: "expr list \<Rightarrow> expr list \<Rightarrow> expr list \<Rightarrow> expr \<Rightarrow> bool" where
  "unfold_target C item_set other_set item \<longleftrightarrow>
     \<not> list_ex (\<lambda>p. below p item) item_set \<and> \<not> list_ex (\<lambda>p. prefix_of p item) other_set \<and>
     \<not> list_ex (\<lambda>base. prefix_of item base) C"

lemma place_check_total:
  assumes "list_all place_ok item_set" "list_all place_ok other_set" "place_ok item"
  shows "place_check C item_set other_set item places =
    Inr (if unfold_target C item_set other_set item then hs_insert expr_eq item places else places)"
proof -
  have "anyE (\<lambda>p. place_proper_prefix p item) item_set = Inr (list_ex (\<lambda>p. below p item) item_set)"
    by (rule anyE_total) (use assms(1) in \<open>simp add: place_proper_prefix_total list_all_iff\<close>)
  moreover have "anyE (\<lambda>p. place_prefix p item) other_set = Inr (list_ex (\<lambda>p. prefix_of p item) other_set)"
    by (rule anyE_total) (use assms(2) in \<open>simp add: place_prefix_total list_all_iff\<close>)
  moreover have "anyE (\<lambda>base. place_prefix item base) C = Inr (list_ex (\<lambda>base. prefix_of item base) C)"
    by (rule anyE_total) (use assms(3) in \<open>simp add: place_prefix_total\<close>)
  ultimately show ?thesis by (simp add: place_check_def unfold_target_def)
qed

lemma variant_base_ok: "place_ok e \<Longrightarrow> place_ok (variant_base e)"
  by (cases e) (auto simp: place_ok_def)

lemma conflicting_bases_ok:
  assumes "list_all place_ok left" "list_all place_ok right" "b \<in> set (conflicting_bases left right)"
  shows "place_ok b"
proof -
  have "b \<in> variant_base ` (set left \<union> set right)"
    using assms(3) hs_extend_set [of expr_eq _ "map variant_base (filter (conflict left) right)"]
      hs_collect_set [of expr_eq "map variant_base (filter (conflict right) left)"]
    by (fastforce simp: conflicting_bases_def)
  then show ?thesis using assms(1,2) variant_base_ok by (auto simp: list_all_iff)
qed

definition unfold_places :: "expr list \<Rightarrow> expr list \<Rightarrow> expr list \<Rightarrow> expr list" where
  "unfold_places C left right =
     hs_extend expr_eq (hs_collect expr_eq (filter (unfold_target C left right) left))
       (filter (unfold_target C right left) right)"

definition outermost :: "expr list \<Rightarrow> expr list" where
  "outermost C = filter (\<lambda>b. \<not> list_ex (below b) C) C"

lemma compute_fold_target_total:
  assumes "list_all place_ok left" "list_all place_ok right"
  shows "compute_fold_target left right =
    Inr (unfold_places (conflicting_bases left right) left right, outermost (conflicting_bases left right))"
proof -
  let ?C = "conflicting_bases left right"
  have "foldE (conflicting_base_of right) left [] =
      Inr (hs_collect expr_eq (map variant_base (filter (conflict right) left)))"
    unfolding hs_collect_def by (rule foldE_insert) (rule conflicting_base_total [OF assms(2)])
  moreover have "foldE (conflicting_base_of left) right acc =
      Inr (hs_extend expr_eq acc (map variant_base (filter (conflict left) right)))" for acc
    by (rule foldE_insert) (rule conflicting_base_total [OF assms(1)])
  moreover have "foldE (place_check ?C left right) left [] =
      Inr (hs_collect expr_eq (map id (filter (unfold_target ?C left right) left)))"
    unfolding hs_collect_def
    by (rule foldE_insert) (use assms place_check_total in \<open>simp add: list_all_iff\<close>)
  moreover have "foldE (place_check ?C right left) right acc =
      Inr (hs_extend expr_eq acc (map id (filter (unfold_target ?C right left) right)))" for acc
    by (rule foldE_insert) (use assms place_check_total in \<open>simp add: list_all_iff\<close>)
  moreover have "filterE (\<lambda>place. bindE (anyE (\<lambda>base. place_proper_prefix place base) ?C)
      (\<lambda>found. Inr (\<not> found))) ?C = Inr (filter (\<lambda>b. \<not> list_ex (below b) ?C) ?C)"
    by (rule filterE_total) (simp add: any_proper_total conflicting_bases_ok [OF assms])
  ultimately show ?thesis
    by (simp add: compute_fold_target_def conflicting_bases_def [symmetric] unfold_places_def outermost_def)
qed

lemma outermost_base:
  assumes "\<And>b. b \<in> set C \<Longrightarrow> place_ok b" "hs_member expr_eq C c"
  shows "\<exists>d \<in> set (outermost C). prefix_of c d"
proof -
  obtain b where b: "b \<in> set C" "expr_eq b c" using assms(2) by (auto simp: hs_member_def list_ex_iff)
  then obtain d where "d \<in> set C" "prefix_of b d" "\<forall>y \<in> set C. \<not> below d y"
    using minimal_prefix [of "set C" b] assms(1) by blast
  then show ?thesis
    using pl.pre_eq_left [of b d c] expr_eq_sym [OF b(2)] by (auto simp: outermost_def list_ex_iff)
qed

lemma unfold_places_target:
  assumes "a \<in> set (unfold_places C left right)"
  shows "(a \<in> set left \<and> unfold_target C left right a) \<or> (a \<in> set right \<and> unfold_target C right left a)"
  using assms hs_extend_set [of expr_eq _ "filter (unfold_target C right left) right"]
    hs_collect_set [of expr_eq "filter (unfold_target C left right) left"]
  unfolding unfold_places_def by fastforce

lemma unfold_places_member:
  assumes "list_all place_ok left" "list_all place_ok right"
    and "(x \<in> set left \<and> unfold_target C left right x) \<or> (x \<in> set right \<and> unfold_target C right left x)"
  shows "hs_member expr_eq (unfold_places C left right) x"
  using assms unfolding unfold_places_def
  by (subst hx.member_extend, simp add: list_all_iff place_ok_def expr_eq_refl_iff)
     (subst hx.member_collect, auto simp: list_all_iff place_ok_def expr_eq_refl_iff intro!: hx.member_self)

lemma conflicting_bases_member:
  assumes "list_all place_ok left" "list_all place_ok right"
    and "(x \<in> set left \<and> conflict right x) \<or> (x \<in> set right \<and> conflict left x)"
  shows "hs_member expr_eq (conflicting_bases left right) (variant_base x)"
proof -
  have refl: "expr_eq y y" if "y \<in> set (map variant_base (filter P xs))" "list_all place_ok xs" for P y xs
    using that variant_base_ok by (auto simp: list_all_iff place_ok_def expr_eq_refl_iff)
  have "expr_eq (variant_base x) (variant_base x)"
    using assms variant_base_ok by (auto simp: list_all_iff place_ok_def expr_eq_refl_iff)
  then show ?thesis
    using assms(3) unfolding conflicting_bases_def
    by (subst hx.member_extend, blast intro: refl assms(2))
       (subst hx.member_collect, blast intro: refl assms(1), auto simp: hs_member_def list_ex_iff)
qed

text \<open>
  What a join folds and unfolds.  On sets of places \<open>compute_fold_target\<close> does not panic.  The
  places to fold are outermost, no place to unfold lies in one of them, every enum variant without
  an extension in the other branch lies in an enum that is folded, and every leaf of one branch
  without an extension in the other is unfolded or lies in a place that is folded.
\<close>

theorem compute_fold_target_sound:
  assumes "list_all place_ok left" "list_all place_ok right"
  shows "\<exists>accs preds. compute_fold_target left right = Inr (accs, preds) \<and>
    (\<forall>a \<in> set accs. \<forall>b \<in> set preds. has_prefix a b = Some False) \<and>
    (\<forall>a \<in> set preds. \<forall>b \<in> set preds. has_proper_prefix a b = Some False) \<and>
    (\<forall>(items, others) \<in> {(left, right), (right, left)}. \<forall>x \<in> set items.
       (\<forall>q \<in> set others. has_prefix q x = Some False) \<longrightarrow>
         (is_variant x \<longrightarrow> (\<exists>d \<in> set preds. has_prefix (variant_base x) d = Some True)) \<and>
         ((\<forall>p \<in> set items. has_proper_prefix p x = Some False) \<longrightarrow>
            hs_member expr_eq accs x \<or> (\<exists>d \<in> set preds. has_prefix x d = Some True)))"
proof -
  let ?C = "conflicting_bases left right"
  have ok: "place_ok e" if "e \<in> set left \<union> set right \<union> set ?C" for e
    using that assms conflicting_bases_ok [OF assms] by (auto simp: list_all_iff)
  have acc_side: "\<exists>e \<in> set left \<union> set right. a = e \<and> \<not> list_ex (prefix_of a) ?C"
    if "a \<in> set (unfold_places ?C left right)" for a
    using unfold_places_target [OF that] by (auto simp: unfold_target_def)
  have "has_prefix a b = Some False"
    if "a \<in> set (unfold_places ?C left right)" "b \<in> set (outermost ?C)" for a b
    using acc_side [OF that(1)] that(2) ok place_tests
    by (auto simp: outermost_def list_ex_iff)
  moreover have "has_proper_prefix a b = Some False"
    if "a \<in> set (outermost ?C)" "b \<in> set (outermost ?C)" for a b
    using that ok place_tests by (auto simp: outermost_def list_ex_iff)
  moreover have "\<exists>d \<in> set (outermost ?C). has_prefix (variant_base x) d = Some True"
    if "(x \<in> set left \<and> conflict right x) \<or> (x \<in> set right \<and> conflict left x)" for x
    using outermost_base [OF _ conflicting_bases_member [OF assms that]] ok
    by (auto simp: prefix_of_def)
  moreover have "hs_member expr_eq (unfold_places ?C left right) x \<or>
      (\<exists>d \<in> set (outermost ?C). has_prefix x d = Some True)"
    if "(items, others) \<in> {(left, right), (right, left)}" "x \<in> set items"
      "\<forall>p \<in> set items. \<not> below p x" "\<forall>q \<in> set others. \<not> prefix_of q x" for items others x
  proof (cases "list_ex (prefix_of x) ?C")
    case True
    then obtain b where b: "b \<in> set ?C" "prefix_of x b" by (auto simp: list_ex_iff)
    have "hs_member expr_eq ?C b"
      using b(1) ok by (auto simp: place_ok_def expr_eq_refl_iff intro: hx.member_self)
    then obtain d where "d \<in> set (outermost ?C)" "prefix_of b d"
      using outermost_base [of ?C b] ok by blast
    then show ?thesis using pl.pre_trans [OF b(2)] by (auto simp: prefix_of_def)
  next
    case False
    show ?thesis
      by (rule disjI1, rule unfold_places_member [OF assms])
         (use that False in \<open>auto simp: unfold_target_def list_ex_iff\<close>)
  qed
  ultimately show ?thesis
    unfolding compute_fold_target_total [OF assms]
    using ok place_tests by (fastforce simp: conflict_def list_ex_iff)
qed

text \<open>The example in the comment of \<open>compute_fold_target\<close>.\<close>

definition ex_left :: "expr list" where
  "ex_left = (let a = ex_var ''a''; b = ex_var ''b''; d = ex_var ''d'' in
     [a, ex_dot b ''c'', ex_dot (ex_dot d ''e'') ''f'', ex_dot d ''g''])"

definition ex_right :: "expr list" where
  "ex_right = (let a = ex_var ''a''; b = ex_var ''b''; d = ex_var ''d'' in
     [a, ex_dot (ex_dot b ''c'') ''d'', ex_dot (ex_dot b ''c'') ''e'', ex_dot d ''e''])"

theorem compute_fold_target_sound_witness:
  "\<exists>accs preds. compute_fold_target ex_left ex_right = Inr (accs, preds) \<and>
     (\<forall>a \<in> set preds. \<forall>b \<in> set preds. has_proper_prefix a b = Some False)"
proof -
  have "list_all place_ok ex_left" "list_all place_ok ex_right"
    by (simp_all add: ex_left_def ex_right_def Let_def place_ok_def ex_place_simps)
  from compute_fold_target_sound [OF this] show ?thesis by blast
qed

text \<open>
  The first set that \<open>compute_fold_target\<close> returns is not the one its comment describes.  On the
  comment's example the place that both branches hold is left out, and a place without a prefix in
  the other set is kept.
\<close>

theorem compute_fold_target_example:
  "case compute_fold_target ex_left ex_right of
     Inr (accs, preds) \<Rightarrow>
       \<not> hs_member expr_eq accs (ex_var ''a'') \<and> hs_member expr_eq accs (ex_dot (ex_var ''d'') ''g'')
   | Inl _ \<Rightarrow> False"
  by code_simp

end
