(* ===== verification/Fu_Log.thy ===== *)
theory Fu_Log
  imports Fu_Places Vir_Cfg "HOL-Library.Multiset"
begin

section \<open>Fold-unfold: the event log (foldunfold/log.rs)\<close>

text \<open>
  The log of the actions that are undone when borrowed permissions are restored.  The lists of
  actions before a join are reference-counted and cloning a log shares them, so they live in a store
  and the log holds their addresses; the store is returned by the operations that change it.  The
  generator of unique numbers is a \<open>u32\<close> that wraps around in release builds.
\<close>

type_synonym action_store = "action list list"

record event_log =
  lg_prejoin_actions :: "block_index \<Rightarrow> nat option"
  lg_duplicated_reads :: "borrow \<Rightarrow> (expr \<times> expr \<times> 32 word) list option"
  lg_blocked_place :: "borrow \<Rightarrow> expr option"
  lg_converted_to_read_places :: "borrow \<Rightarrow> expr list option"
  lg_id_generator :: "32 word"

definition log_new :: event_log where
  "log_new = \<lparr>lg_prejoin_actions = Map.empty, lg_duplicated_reads = Map.empty,
     lg_blocked_place = Map.empty, lg_converted_to_read_places = Map.empty, lg_id_generator = 0\<rparr>"

text \<open>The actions logged for a block, read through the store.\<close>

definition prejoin_actions_of :: "action_store \<Rightarrow> event_log \<Rightarrow> block_index \<Rightarrow> action list" where
  "prejoin_actions_of store lg b = (case lg_prejoin_actions lg b of None \<Rightarrow> [] | Some a \<Rightarrow> store ! a)"

definition log_prejoin_action ::
  "action_store \<Rightarrow> event_log \<Rightarrow> block_index \<Rightarrow> action \<Rightarrow> action_store \<times> event_log" where
  "log_prejoin_action store lg blk action =
     (case lg_prejoin_actions lg blk of
        Some a \<Rightarrow> (store[a := store ! a @ [action]], lg)
      | None \<Rightarrow> (store @ [[action]],
          lg\<lparr>lg_prejoin_actions := (lg_prejoin_actions lg)(blk \<mapsto> length store)\<rparr>))"

fun dropped_by :: "stmt dag \<Rightarrow> action \<Rightarrow> failure + perm list" where
  "dropped_by dag (ADrop perm missing_perm) =
     bindE (unwrap (in_borrowed_places dag (get_place missing_perm))) (\<lambda>b. Inr (if b then [perm] else []))"
| "dropped_by dag _ = Inr []"

definition collect_dropped_permissions ::
  "action_store \<Rightarrow> event_log \<Rightarrow> block_index list \<Rightarrow> stmt dag \<Rightarrow> failure + perm list" where
  "collect_dropped_permissions store lg path dag =
     bindE (require (path \<noteq> [])) (\<lambda>_.
     bindE (mapE (dropped_by dag) (concat (map (prejoin_actions_of store lg) (butlast path)))) (\<lambda>pss.
     Inr (concat pss)))"

definition log_read_permission_duplication :: "event_log \<Rightarrow> borrow \<Rightarrow> expr \<Rightarrow> expr \<Rightarrow> event_log" where
  "log_read_permission_duplication lg borrow perm original_place =
     lg\<lparr>lg_duplicated_reads := (lg_duplicated_reads lg)(borrow \<mapsto>
          (case lg_duplicated_reads lg borrow of None \<Rightarrow> [] | Some es \<Rightarrow> es) @
          [(perm, original_place, lg_id_generator lg)]),
        lg_id_generator := lg_id_generator lg + 1\<rparr>"

subsection \<open>The order in which duplicated reads are given back\<close>

text \<open>
  The comparison of \<open>get_duplicated_read_permissions\<close>: predicates before fields, deeper fields first,
  and later ones first among fields of the same depth.  Anything but an access predicate is
  \<open>unreachable!\<close>, and the depth is defined for places only.
\<close>

definition cmp_nat :: "nat \<Rightarrow> nat \<Rightarrow> cmp_ordering" where
  "cmp_nat a b = (if a < b then Less else if a = b then Equal else Greater)"

definition cmp_pair :: "nat \<times> nat \<Rightarrow> nat \<times> nat \<Rightarrow> cmp_ordering" where
  "cmp_pair a b = (case cmp_nat (fst a) (fst b) of Equal \<Rightarrow> cmp_nat (snd a) (snd b) | o' \<Rightarrow> o')"

fun cmp_access :: "expr \<times> expr \<times> 32 word \<Rightarrow> expr \<times> expr \<times> 32 word \<Rightarrow> failure + cmp_ordering" where
  "cmp_access (EPredicateAccessPredicate _ _ _ _, _) (EPredicateAccessPredicate _ _ _ _, _) = Inr Equal"
| "cmp_access (EPredicateAccessPredicate _ _ _ _, _) (EFieldAccessPredicate _ _ _, _) = Inr Less"
| "cmp_access (EFieldAccessPredicate _ _ _, _) (EPredicateAccessPredicate _ _ _ _, _) = Inr Greater"
| "cmp_access (EFieldAccessPredicate place1 _ _, _, id1) (EFieldAccessPredicate place2 _ _, _, id2) =
     bindE (unwrap (place_depth place1)) (\<lambda>d1.
     bindE (unwrap (place_depth place2)) (\<lambda>d2.
     Inr (cmp_pair (d2, unat id2) (d1, unat id1))))"
| "cmp_access _ _ = Inl Panic"

text \<open>\<open>sort_by\<close> is a stable sort: each element goes after the earlier ones that are not greater.\<close>

fun insert_by :: "('a \<Rightarrow> 'a \<Rightarrow> 'e + cmp_ordering) \<Rightarrow> 'a \<Rightarrow> 'a list \<Rightarrow> 'e + 'a list" where
  "insert_by cmp x [] = Inr [x]"
| "insert_by cmp x (y # ys) =
     bindE (cmp y x) (\<lambda>o'. if o' = Greater then Inr (x # y # ys)
       else bindE (insert_by cmp x ys) (\<lambda>zs. Inr (y # zs)))"

definition sort_by :: "('a \<Rightarrow> 'a \<Rightarrow> 'e + cmp_ordering) \<Rightarrow> 'a list \<Rightarrow> 'e + 'a list" where
  "sort_by cmp xs = foldE (insert_by cmp) xs []"

definition get_duplicated_read_permissions :: "event_log \<Rightarrow> borrow \<Rightarrow> failure + (expr \<times> expr) list" where
  "get_duplicated_read_permissions lg borrow =
     bindE (sort_by cmp_access (case lg_duplicated_reads lg borrow of None \<Rightarrow> [] | Some es \<Rightarrow> es))
       (\<lambda>result. Inr (map (\<lambda>(access, original_place, _). (access, original_place)) result))"

subsection \<open>Conversions, expiry and join\<close>

definition log_convertion_to_read :: "event_log \<Rightarrow> borrow \<Rightarrow> expr \<Rightarrow> failure + event_log" where
  "log_convertion_to_read lg borrow perm =
     bindE (unwrap (expr_get_perm_amount perm)) (\<lambda>amount.
     bindE (require (amount = Remaining)) (\<lambda>_.
     Inr (lg\<lparr>lg_converted_to_read_places := (lg_converted_to_read_places lg)(borrow \<mapsto>
       (case lg_converted_to_read_places lg borrow of None \<Rightarrow> [] | Some es \<Rightarrow> es) @ [perm])\<rparr>)))"

definition get_converted_to_read_places :: "event_log \<Rightarrow> borrow \<Rightarrow> expr list" where
  "get_converted_to_read_places lg borrow =
     (case lg_converted_to_read_places lg borrow of Some accesses \<Rightarrow> accesses | None \<Rightarrow> [])"

definition log_borrow_expiration :: "event_log \<Rightarrow> borrow \<Rightarrow> event_log" where
  "log_borrow_expiration lg borrow =
     lg\<lparr>lg_duplicated_reads := (lg_duplicated_reads lg)(borrow := None),
        lg_blocked_place := (lg_blocked_place lg)(borrow := None),
        lg_converted_to_read_places := (lg_converted_to_read_places lg)(borrow := None)\<rparr>"

text \<open>Entries of \<open>other\<close> are taken only under keys that \<open>self\<close> does not have.\<close>

definition join_entries :: "('k \<Rightarrow> 'v option) \<Rightarrow> ('k \<Rightarrow> 'v option) \<Rightarrow> 'k \<Rightarrow> 'v option" where
  "join_entries self other = (\<lambda>k. case self k of Some v \<Rightarrow> Some v | None \<Rightarrow> other k)"

definition log_join :: "event_log \<Rightarrow> event_log \<Rightarrow> event_log" where
  "log_join self other =
     \<lparr>lg_prejoin_actions = join_entries (lg_prejoin_actions self) (lg_prejoin_actions other),
      lg_duplicated_reads = join_entries (lg_duplicated_reads self) (lg_duplicated_reads other),
      lg_blocked_place = join_entries (lg_blocked_place self) (lg_blocked_place other),
      lg_converted_to_read_places =
        join_entries (lg_converted_to_read_places self) (lg_converted_to_read_places other),
      lg_id_generator = max (lg_id_generator self) (lg_id_generator other)\<rparr>"

subsection \<open>The sort\<close>

locale preorder_cmp =
  fixes cmp :: "'a \<Rightarrow> 'a \<Rightarrow> 'e + cmp_ordering"
    and valid :: "'a \<Rightarrow> bool"
    and before :: "'a \<Rightarrow> 'a \<Rightarrow> bool"
  assumes cmp_valid: "valid x \<Longrightarrow> valid y \<Longrightarrow> \<exists>r. cmp x y = Inr r \<and> (r = Greater \<longleftrightarrow> \<not> before x y)"
    and before_total: "valid x \<Longrightarrow> valid y \<Longrightarrow> before x y \<or> before y x"
    and before_trans: "valid x \<Longrightarrow> valid y \<Longrightarrow> valid z \<Longrightarrow> before x y \<Longrightarrow> before y z \<Longrightarrow> before x z"
begin

lemma insert_by_sorted:
  assumes "valid x" "\<forall>y \<in> set ys. valid y" "sorted_wrt before ys"
  shows "\<exists>zs. insert_by cmp x ys = Inr zs \<and> mset zs = add_mset x (mset ys) \<and> sorted_wrt before zs"
  using assms(2,3)
proof (induction ys)
  case (Cons y ys)
  obtain r where r: "cmp y x = Inr r" "r = Greater \<longleftrightarrow> \<not> before y x"
    using cmp_valid [of y x] Cons.prems assms(1) by auto
  show ?case
  proof (cases "before y x")
    case True
    from Cons obtain zs where zs: "insert_by cmp x ys = Inr zs" "mset zs = add_mset x (mset ys)"
      "sorted_wrt before zs" by auto
    have "set zs = insert x (set ys)" using zs(2) by (metis set_mset_add_mset_insert set_mset_mset)
    then have "sorted_wrt before (y # zs)" using zs(3) True Cons.prems by auto
    then show ?thesis using zs r True by auto
  next
    case False
    then have xy: "before x y" using before_total [of x y] Cons.prems assms(1) by auto
    have "before x z" if "z \<in> set ys" for z
      using before_trans [of x y z] xy Cons.prems that assms(1) by auto
    then show ?thesis using r False xy Cons.prems by auto
  qed
qed simp

lemma foldE_insert_by:
  assumes "\<forall>x \<in> set xs. valid x" "\<forall>y \<in> set acc. valid y" "sorted_wrt before acc"
  shows "\<exists>zs. foldE (insert_by cmp) xs acc = Inr zs \<and> mset zs = mset xs + mset acc \<and> sorted_wrt before zs"
  using assms
proof (induction xs arbitrary: acc)
  case (Cons x xs)
  obtain ys where ys: "insert_by cmp x acc = Inr ys" "mset ys = add_mset x (mset acc)" "sorted_wrt before ys"
    using insert_by_sorted [of x acc] Cons.prems by auto
  have "set ys = insert x (set acc)" using ys(2) by (metis set_mset_add_mset_insert set_mset_mset)
  then obtain zs where "foldE (insert_by cmp) xs ys = Inr zs" "mset zs = mset xs + mset ys"
    "sorted_wrt before zs" using Cons.IH [of ys] Cons.prems ys(3) by auto
  then show ?case using ys by auto
qed simp

lemma sort_by_sorted:
  "\<forall>x \<in> set xs. valid x \<Longrightarrow> \<exists>zs. sort_by cmp xs = Inr zs \<and> mset zs = mset xs \<and> sorted_wrt before zs"
  unfolding sort_by_def using foldE_insert_by [of xs "[]"] by auto

end

text \<open>A logged access predicate on a place, and what comes before what.\<close>

fun access_valid :: "expr \<times> expr \<times> 32 word \<Rightarrow> bool" where
  "access_valid (EPredicateAccessPredicate _ _ _ _, _) = True"
| "access_valid (EFieldAccessPredicate place _ _, _) = is_place place"
| "access_valid _ = False"

fun access_rank :: "expr \<Rightarrow> nat" where
  "access_rank (EFieldAccessPredicate place _ _) = the (place_depth place)"
| "access_rank _ = 0"

fun is_field_access :: "expr \<Rightarrow> bool" where
  "is_field_access (EFieldAccessPredicate _ _ _) = True"
| "is_field_access _ = False"

definition access_before :: "expr \<times> expr \<times> 32 word \<Rightarrow> expr \<times> expr \<times> 32 word \<Rightarrow> bool" where
  "access_before a b \<longleftrightarrow>
     (if is_field_access (fst a) then
        is_field_access (fst b) \<and>
        (access_rank (fst b) < access_rank (fst a) \<or>
         (access_rank (fst b) = access_rank (fst a) \<and> snd (snd b) \<le> snd (snd a)))
      else True)"

lemma cmp_pair_Greater: "cmp_pair a b = Greater \<longleftrightarrow> fst b < fst a \<or> (fst b = fst a \<and> snd b < snd a)"
  by (auto simp: cmp_pair_def cmp_nat_def)

interpretation access: preorder_cmp cmp_access access_valid access_before
proof unfold_locales
  fix x y z :: "expr \<times> expr \<times> 32 word"
  show "\<exists>r. cmp_access x y = Inr r \<and> (r = Greater \<longleftrightarrow> \<not> access_before x y)"
    if "access_valid x" "access_valid y"
    using that
    by (cases x rule: access_valid.cases; cases y rule: access_valid.cases)
       (auto simp: access_before_def cmp_pair_Greater place_depth_place word_le_nat_alt word_less_nat_alt)
  show "access_before x y \<or> access_before y x" if "access_valid x" "access_valid y"
    by (auto simp: access_before_def)
  show "access_before x z" if "access_before x y" "access_before y z"
    using that by (auto simp: access_before_def split: if_splits)
qed

text \<open>
  C37 The reads that a borrow duplicated are given back in an order that undoes their creation: every
  logged pair is returned once, predicates come before fields, and a field comes before every field
  of a shorter place.
\<close>

theorem duplicated_reads_order:
  assumes "lg_duplicated_reads lg b = Some es" "\<forall>e \<in> set es. access_valid e"
  shows "\<exists>res. get_duplicated_read_permissions lg b = Inr res \<and>
    mset res = mset (map (\<lambda>(access, place, _). (access, place)) es) \<and>
    sorted_wrt (\<lambda>x y. is_field_access (fst x) \<longrightarrow>
      is_field_access (fst y) \<and> access_rank (fst y) \<le> access_rank (fst x)) res"
proof -
  obtain zs where zs: "sort_by cmp_access es = Inr zs" "mset zs = mset es" "sorted_wrt access_before zs"
    using access.sort_by_sorted [OF assms(2)] by blast
  let ?res = "map (\<lambda>(access, place, _). (access, place)) zs"
  have "mset ?res = mset (map (\<lambda>(access, place, _). (access, place)) es)" by (simp add: zs(2))
  moreover have "sorted_wrt (\<lambda>x y. is_field_access (fst x) \<longrightarrow>
      is_field_access (fst y) \<and> access_rank (fst y) \<le> access_rank (fst x)) ?res"
    unfolding sorted_wrt_map
    by (rule sorted_wrt_mono_rel [OF _ zs(3)]) (auto simp: access_before_def split: if_splits)
  ultimately show ?thesis using zs(1) assms(1) by (auto simp: get_duplicated_read_permissions_def)
qed

subsection \<open>The unique numbers\<close>

text \<open>The logs that the operations build; the index bounds the number of duplications on any path.\<close>

inductive logged :: "nat \<Rightarrow> event_log \<Rightarrow> bool" where
  log_start: "logged 0 log_new"
| log_prejoin: "logged n lg \<Longrightarrow> logged n (snd (log_prejoin_action store lg blk act))"
| log_duplicate: "logged n lg \<Longrightarrow> logged (Suc n) (log_read_permission_duplication lg b perm place)"
| log_convert: "logged n lg \<Longrightarrow> log_convertion_to_read lg b perm = Inr lg' \<Longrightarrow> logged n lg'"
| log_expire: "logged n lg \<Longrightarrow> logged n (log_borrow_expiration lg b)"
| log_joined: "logged n lg \<Longrightarrow> logged m lg' \<Longrightarrow> logged (max n m) (log_join lg lg')"

definition ids_ok :: "32 word \<Rightarrow> (expr \<times> expr \<times> 32 word) list \<Rightarrow> bool" where
  "ids_ok g es \<longleftrightarrow> distinct (map (snd \<circ> snd) es) \<and> list_all (\<lambda>e. snd (snd e) < g) es"

definition ids_inv :: "nat \<Rightarrow> event_log \<Rightarrow> bool" where
  "ids_inv n lg \<longleftrightarrow> unat (lg_id_generator lg) \<le> n \<and>
     (\<forall>b es. lg_duplicated_reads lg b = Some es \<longrightarrow> ids_ok (lg_id_generator lg) es)"

lemma ids_ok_mono: "ids_ok g es \<Longrightarrow> g \<le> g' \<Longrightarrow> ids_ok g' es"
  by (auto simp: ids_ok_def list_all_iff)

lemma ids_ok_snoc: "ids_ok g es \<Longrightarrow> g < g' \<Longrightarrow> ids_ok g' (es @ [(perm, place, g)])"
  by (auto simp: ids_ok_def list_all_iff)

lemma ids_inv_duplicate:
  assumes "ids_inv n lg" "Suc n < 2 ^ 32"
  shows "ids_inv (Suc n) (log_read_permission_duplication lg b perm place)"
proof -
  let ?g = "lg_id_generator lg"
  have "unat ?g + unat (1 :: 32 word) < 2 ^ LENGTH(32)" using assms by (simp add: ids_inv_def)
  then have g: "unat (?g + 1) = unat ?g + 1" using unat_add_lem [of ?g 1] by simp
  then have less: "?g < ?g + 1" by (simp add: word_less_nat_alt)
  have "ids_ok ?g (case lg_duplicated_reads lg b of None \<Rightarrow> [] | Some es \<Rightarrow> es)"
    using assms(1) by (auto simp: ids_inv_def ids_ok_def split: option.split)
  from ids_ok_snoc [OF this less] show ?thesis
    using assms(1) g ids_ok_mono [OF _ less_imp_le [OF less]]
    unfolding ids_inv_def log_read_permission_duplication_def by (simp split: if_splits)
qed

lemma ids_inv_join:
  assumes "ids_inv n lg" "ids_inv m lg'"
  shows "ids_inv (max n m) (log_join lg lg')"
proof -
  have "unat (max (lg_id_generator lg) (lg_id_generator lg')) \<le> max n m"
    using assms by (auto simp: ids_inv_def max_def)
  moreover have "ids_ok (max (lg_id_generator lg) (lg_id_generator lg')) es"
    if "lg_duplicated_reads lg b = Some es \<or> lg_duplicated_reads lg' b = Some es" for b es
    using that assms unfolding ids_inv_def by (blast intro: ids_ok_mono max.cobounded1 max.cobounded2)
  ultimately show ?thesis
    by (auto simp: ids_inv_def log_join_def join_entries_def split: option.splits)
qed

lemma logged_ids: "logged n lg \<Longrightarrow> n < 2 ^ 32 \<Longrightarrow> ids_inv n lg"
proof (induction rule: logged.induct)
  case log_start
  then show ?case by (simp add: ids_inv_def log_new_def)
next
  case (log_prejoin n lg store blk act)
  then show ?case by (simp add: ids_inv_def log_prejoin_action_def split: option.split)
next
  case (log_duplicate n lg b perm place)
  then show ?case by (intro ids_inv_duplicate) simp_all
next
  case (log_convert n lg b perm lg')
  then show ?case by (auto simp: ids_inv_def log_convertion_to_read_def fallible_simps)
next
  case (log_expire n lg b)
  then show ?case by (auto simp: ids_inv_def log_borrow_expiration_def split: if_splits)
next
  case (log_joined n lg m lg')
  then show ?case by (intro ids_inv_join) simp_all
qed

text \<open>
  C36 The numbers of the event log are unique where they are compared: in every log that the operations
  build, joins of branches included, with fewer than \<open>2^32\<close> duplications on any path, the numbers
  logged for one borrow are pairwise different and below the generator, which has not wrapped.
\<close>

theorem event_ids_unique:
  assumes "logged n lg" "n < 2 ^ 32" "lg_duplicated_reads lg b = Some es"
  shows "distinct (map (snd \<circ> snd) es) \<and> list_all (\<lambda>e. snd (snd e) < lg_id_generator lg) es \<and>
    unat (lg_id_generator lg) \<le> n"
  using logged_ids [OF assms(1,2)] assms(3) by (simp add: ids_inv_def ids_ok_def)

definition ex_log :: event_log where
  "ex_log = log_read_permission_duplication
     (log_read_permission_duplication
       (log_read_permission_duplication log_new (Borrow 1) (acc_permission (ex_dot ex_x ''f'') Read) ex_y)
       (Borrow 1) (acc_permission (ex_dot (ex_dot ex_x ''f'') ''g'') Read) ex_y)
     (Borrow 1) (predicate_access_predicate ''T'' ex_x Read) ex_y"

lemma ex_log_logged: "logged 3 ex_log"
proof -
  have "logged (Suc (Suc (Suc 0))) ex_log"
    unfolding ex_log_def by (intro log_duplicate log_start)
  then show ?thesis by (simp add: numeral_3_eq_3)
qed

theorem event_ids_unique_witness:
  "\<exists>es. lg_duplicated_reads ex_log (Borrow 1) = Some es \<and> length es = 3 \<and> distinct (map (snd \<circ> snd) es)"
proof -
  obtain es where "lg_duplicated_reads ex_log (Borrow 1) = Some es" "length es = 3"
    by (simp add: ex_log_def log_read_permission_duplication_def log_new_def)
  then show ?thesis using event_ids_unique [OF ex_log_logged, of "Borrow 1" es] by simp
qed

theorem duplicated_reads_order_witness:
  "\<exists>res. get_duplicated_read_permissions ex_log (Borrow 1) = Inr res \<and> length res = 3 \<and>
     sorted_wrt (\<lambda>x y. is_field_access (fst x) \<longrightarrow>
       is_field_access (fst y) \<and> access_rank (fst y) \<le> access_rank (fst x)) res"
proof -
  obtain es where es: "lg_duplicated_reads ex_log (Borrow 1) = Some es" "length es = 3"
      "\<forall>e \<in> set es. access_valid e"
    by (simp add: ex_log_def log_read_permission_duplication_def log_new_def acc_permission_def
        predicate_access_predicate_def ex_place_simps)
  obtain res where res: "get_duplicated_read_permissions ex_log (Borrow 1) = Inr res"
    "mset res = mset (map (\<lambda>(access, place, _). (access, place)) es)"
    "sorted_wrt (\<lambda>x y. is_field_access (fst x) \<longrightarrow>
       is_field_access (fst y) \<and> access_rank (fst y) \<le> access_rank (fst x)) res"
    using duplicated_reads_order [OF es(1,3)] by blast
  have "length res = 3" using mset_eq_length [OF res(2)] es(2) by simp
  then show ?thesis using res by blast
qed

subsection \<open>Sharing of the logged actions\<close>

text \<open>Every address of a log is in the store.\<close>

definition log_in_store :: "action_store \<Rightarrow> event_log \<Rightarrow> bool" where
  "log_in_store store lg \<longleftrightarrow> (\<forall>b a. lg_prejoin_actions lg b = Some a \<longrightarrow> a < length store)"

lemma log_prejoin_action_store:
  assumes "log_in_store store lg" "log_prejoin_action store lg blk act = (store', lg')"
  shows "log_in_store store' lg' \<and>
    prejoin_actions_of store' lg' blk = prejoin_actions_of store lg blk @ [act]"
  using assms
  by (auto simp: log_in_store_def log_prejoin_action_def prejoin_actions_of_def nth_append less_Suc_eq
      split: option.splits if_splits)

end
