(* ===== verification/Vir_Unfolding.thy ===== *)
theory Vir_Unfolding
  imports Vir_Transformers
begin

section \<open>Expressions without unfoldings\<close>

text \<open>
  \<open>unfolding P(x) in e\<close> only says which permissions are used to evaluate \<open>e\<close>.  The passes that add, move or
  remove unfoldings are specified by the expression without them.
\<close>

function strip :: "expr \<Rightarrow> expr" where
  "strip e = (case e of EUnfolding _ _ body _ _ _ \<Rightarrow> strip body | _ \<Rightarrow> fold_children strip e)"
  by pat_completeness auto
termination
  by (relation "measure size") (auto simp: children_size less_Suc_eq_le intro: size_list_estimation' [OF _ order_refl])

declare strip.simps [simp del]

lemma strip_unfolding [simp]: "strip (EUnfolding n args body q v p) = strip body"
  by (subst strip.simps) simp

lemma strip_other: "\<not> (\<exists>n args body q v p. e = EUnfolding n args body q v p) \<Longrightarrow> strip e = fold_children strip e"
  by (subst strip.simps) (auto split: expr.split)

lemma strip_place [simp]:
  "strip (EField b f p) = EField (strip b) f p" "strip (EVariant b f p) = EVariant (strip b) f p"
  "strip (ELabelledOld lb b p) = ELabelledOld lb (strip b) p" "strip (EMagicWand l r w p) = EMagicWand (strip l) (strip r) w p"
  "strip (EDowncast b pl f) = EDowncast (strip b) (strip pl) f"
  by (simp_all add: strip_other)

lemma strip_reconstruct: "strip b = strip b' \<Longrightarrow> strip (reconstruct_place b cs) = strip (reconstruct_place b' cs)"
proof (induction cs rule: rev_induct)
  case (snoc c cs)
  then show ?case by (cases c) (auto simp: reconstruct_place_def)
qed (simp add: reconstruct_place_def)

lemma with_children_not_unfolding:
  "\<not> (\<exists>n args body q v p. e = EUnfolding n args body q v p) \<Longrightarrow>
   \<not> (\<exists>n args body q v p. with_children e cs = EUnfolding n args body q v p)"
  by (cases e) auto

lemma with_children_cong: "length cs = length (children e) \<Longrightarrow>
    fold_children f (with_children e cs) = with_children e (map f cs)"
  by (cases e) (auto simp: fold_children_def length_Suc_conv numeral_2_eq_2 numeral_3_eq_3 map_butlast last_map)

lemma mapR_strip:
  assumes "\<And>c u c' u'. c \<in> set cs \<Longrightarrow> f c u = Inr (c', u') \<Longrightarrow> strip c' = strip c"
    and "mapR f cs s = Inr (cs', s')"
  shows "map strip cs' = map strip cs"
  using assms
proof (induction cs arbitrary: s cs')
  case (Cons c cs)
  from Cons.prems(2) obtain d s1 ds where "f c s = Inr (d, s1)" "mapR f cs s1 = Inr (ds, s')" "cs' = d # ds"
    by (auto split: sum.splits)
  then show ?case using Cons.IH [of s1 ds] Cons.prems(1) by auto
qed simp

lemma default_fold_strip:
  assumes "\<not> (\<exists>n args body q v p. e = EUnfolding n args body q v p)"
    and "\<And>c u c' u'. c \<in> set (children e) \<Longrightarrow> f c u = Inr (c', u') \<Longrightarrow> strip c' = strip c"
    and "default_fallible_fold_expr f e s = Inr (e', s')"
  shows "strip e' = strip e"
proof -
  obtain cs where cs: "mapR f (children e) s = Inr (cs, s')" "e' = with_children e cs"
    using assms(3) by (auto simp: default_fallible_fold_expr_def split: sum.splits)
  have same: "map strip cs = map strip (children e)" using mapR_strip [OF assms(2) cs(1)] by simp
  then have "length cs = length (children e)" using map_eq_imp_length_eq by blast
  then have "strip e' = with_children e (map strip cs)"
    using strip_other [OF with_children_not_unfolding [OF assms(1)]] with_children_cong cs(2) by simp
  then show ?thesis using strip_other [OF assms(1)] same by (simp add: fold_children_def)
qed

end
