(* ===== verification/Opt_Folding.thy ===== *)
theory Opt_Folding
  imports Fu_Log Vir_Function Vir_Unfolding "HOL-Library.List_Lexorder" "HOL-Library.Char_ord"
begin

section \<open>Pulling up unfoldings (optimizations/folding/expressions.rs)\<close>

text \<open>
  The optimizer moves the \<open>unfolding\<close> expressions of an expression outwards, as far as the permissions
  that the other parts of the expression require allow.  It gives up on expressions it does not support
  and then keeps the original; a failed assertion or an unreachable case aborts.  Hash maps and sets are
  lists in insertion order.
\<close>

datatype optimizer_error = Unsupported_Expr | Abort

type_synonym unfolding_data = "string \<times> perm_amount \<times> maybe_enum_variant_index"
type_synonym unfolding_map = "(expr, unfolding_data) hmap"
type_synonym requirement_set = "expr list"

record expr_optimizer =
  eo_unfoldings :: unfolding_map
  eo_requirements :: requirement_set

definition or_abort :: "'a option \<Rightarrow> optimizer_error + 'a" where
  "or_abort x = unwrapE Abort x"

lemma or_abort_Inr_iff [fallible_simps]: "or_abort x = Inr y \<longleftrightarrow> x = Some y"
  by (simp add: or_abort_def fallible_simps)

subsection \<open>Restoring unfoldings\<close>

definition cmp_unfolded_places :: "expr \<times> unfolding_data \<Rightarrow> expr \<times> unfolding_data \<Rightarrow> optimizer_error + cmp_ordering" where
  "cmp_unfolded_places x y =
     (let k1 = fst x; k2 = fst y in
      if expr_eq k1 k2 then Inr Equal
      else
        bindE (or_abort (get_base k1)) (\<lambda>base_k1.
        bindE (or_abort (get_base k2)) (\<lambda>base_k2.
        if lv_name base_k1 < lv_name base_k2 then Inr Less
        else if lv_name base_k2 < lv_name base_k1 then Inr Greater
        else
          bindE (or_abort (has_prefix k2 k1)) (\<lambda>longer.
          if longer then Inr Greater
          else
            bindE (or_abort (has_prefix k1 k2)) (\<lambda>shorter.
            if shorter then Inr Less
            else
              bindE (or_abort (expr_display k1)) (\<lambda>s1.
              bindE (or_abort (expr_display k2)) (\<lambda>s2.
              Inr (if s1 < s2 then Less else if s2 < s1 then Greater else Equal))))))))"

definition restore_unfoldings :: "unfolding_map \<Rightarrow> expr \<Rightarrow> optimizer_error + expr" where
  "restore_unfoldings unfolding_map e =
     bindE (sort_by cmp_unfolded_places unfolding_map) (\<lambda>unfoldings.
     Inr (fold (\<lambda>(arg, name, perm_amount, variant) e. EUnfolding name [arg] e perm_amount variant (expr_pos e))
       unfoldings e))"

subsection \<open>Conflicts\<close>

fun component_eq :: "place_component \<Rightarrow> place_component \<Rightarrow> bool" where
  "component_eq (PCField f p) (PCField g q) = (field_eq f g \<and> p = q)"
| "component_eq (PCVariant f p) (PCVariant g q) = (field_eq f g \<and> p = q)"
| "component_eq _ _ = False"

text \<open>
  The loop over the components of two places with the same base: the first difference decides.  A variant
  against another variant, or against the discriminant, is a conflict unless it is the last component of both.
\<close>

fun components_conflict :: "place_component list \<Rightarrow> place_component list \<Rightarrow> bool" where
  "components_conflict (c1 # cs1) (c2 # cs2) =
     (if component_eq c1 c2 then components_conflict cs1 cs2
      else
        (case (c1, c2) of
           (PCVariant _ _, PCVariant _ _) \<Rightarrow> cs1 \<noteq> [] \<or> cs2 \<noteq> []
         | (PCField f _, PCVariant _ _) \<Rightarrow> fd_name f = ''discriminant'' \<and> (cs1 \<noteq> [] \<or> cs2 \<noteq> [])
         | (PCVariant _ _, PCField f _) \<Rightarrow> fd_name f = ''discriminant'' \<and> (cs1 \<noteq> [] \<or> cs2 \<noteq> [])
         | _ \<Rightarrow> False))"
| "components_conflict _ _ = False"

definition place_conflict ::
  "requirement_set \<Rightarrow> requirement_set \<Rightarrow> expr \<Rightarrow> expr \<Rightarrow> expr list \<Rightarrow> optimizer_error + expr list" where
  "place_conflict reqs1 reqs2 place1 place2 conflict_set =
     (case (explode_place place1, explode_place place2) of ((base1, components1), (base2, components2)) \<Rightarrow>
        bindE (or_abort (has_proper_prefix place1 place2)) (\<lambda>p12.
        if p12 \<and> \<not> hs_member expr_eq reqs1 place2 then Inr (hs_insert expr_eq base2 conflict_set)
        else
          bindE (or_abort (has_proper_prefix place2 place1)) (\<lambda>p21.
          if p21 \<and> \<not> hs_member expr_eq reqs2 place1 then Inr (hs_insert expr_eq base1 conflict_set)
          else if \<not> expr_eq base1 base2 then Inr conflict_set
          else
            bindE (or_abort (has_prefix place1 place2)) (\<lambda>q12.
            if q12 then Inr conflict_set
            else
              bindE (or_abort (has_prefix place2 place1)) (\<lambda>q21.
              Inr (if \<not> q21 \<and> components_conflict components1 components2
                   then hs_insert expr_eq base1 conflict_set else conflict_set))))))"

definition check_requirements_conflict :: "requirement_set \<Rightarrow> requirement_set \<Rightarrow> optimizer_error + expr list" where
  "check_requirements_conflict reqs1 reqs2 =
     foldE (\<lambda>place1. foldE (place_conflict reqs1 reqs2 place1) reqs2) reqs1 []"

subsection \<open>Maps of unfoldings\<close>

definition split_unfoldings :: "unfolding_map \<Rightarrow> expr list \<Rightarrow> optimizer_error + unfolding_map \<times> unfolding_map" where
  "split_unfoldings unfoldings conflict_set =
     foldE (\<lambda>(place, data) (to_restore, to_keep).
         bindE (anyE (\<lambda>c. or_abort (has_prefix place c)) conflict_set) (\<lambda>b.
         Inr (if b then (hm_insert expr_eq to_restore place data, to_keep)
              else (to_restore, hm_insert expr_eq to_keep place data))))
       unfoldings ([], [])"

definition find_common_unfoldings2 ::
  "unfolding_map \<Rightarrow> unfolding_map \<Rightarrow> unfolding_map \<times> unfolding_map \<times> unfolding_map" where
  "find_common_unfoldings2 first second =
     fold (\<lambda>(place, data) (common, new_first, second).
         if hm_contains expr_eq second place
         then (hm_insert expr_eq common place data, new_first, hm_remove expr_eq second place)
         else (common, hm_insert expr_eq new_first place data, second))
       first ([], [], second)"

definition agrees :: "unfolding_map \<Rightarrow> requirement_set \<Rightarrow> expr \<Rightarrow> optimizer_error + bool" where
  "agrees unfoldings reqs place =
     (if hm_contains expr_eq unfoldings place then Inr True
      else bindE (anyE (\<lambda>p. or_abort (has_prefix p place)) reqs) (\<lambda>b. Inr (\<not> b)))"

definition find_common_unfoldings3 ::
  "unfolding_map \<Rightarrow> unfolding_map \<Rightarrow> requirement_set \<Rightarrow> unfolding_map \<Rightarrow> requirement_set \<Rightarrow>
   optimizer_error + unfolding_map \<times> unfolding_map \<times> unfolding_map \<times> unfolding_map" where
  "find_common_unfoldings3 first second second_reqs third third_reqs =
     foldE (\<lambda>(place, data) (common, new_first, second, third).
         bindE (agrees second second_reqs place) (\<lambda>second_agrees.
         bindE (agrees third third_reqs place) (\<lambda>third_agrees.
         Inr (if second_agrees \<and> third_agrees
              then (hm_insert expr_eq common place data, new_first, hm_remove expr_eq second place,
                    hm_remove expr_eq third place)
              else (common, hm_insert expr_eq new_first place data, second, third)))))
       first ([], [], second, third)"

definition update_requirements :: "requirement_set \<Rightarrow> expr list \<Rightarrow> optimizer_error + requirement_set" where
  "update_requirements requirements new_requirements =
     bindE (mapE (\<lambda>place. bindE (or_abort (place_depth place)) (\<lambda>d. Inr (d, place))) new_requirements) (\<lambda>keyed.
     bindE (sort_by (\<lambda>x y. Inr (cmp_nat (fst y) (fst x))) keyed) (\<lambda>sorted.
     foldE (\<lambda>(_, place) requirements.
         bindE (filterE (\<lambda>p. bindE (or_abort (has_prefix p place)) (\<lambda>b. Inr (\<not> b))) requirements) (\<lambda>kept.
         Inr (hs_insert expr_eq place kept)))
       sorted requirements))"

definition merge_requirements_and_unfoldings2 ::
  "expr \<Rightarrow> expr_optimizer \<Rightarrow> expr \<Rightarrow> expr_optimizer \<Rightarrow> optimizer_error + expr_optimizer \<times> expr \<times> expr" where
  "merge_requirements_and_unfoldings2 first o1 second o2 =
     bindE (check_requirements_conflict (eo_requirements o1) (eo_requirements o2)) (\<lambda>conflicts.
     if conflicts = [] then
       Inr (\<lparr>eo_unfoldings = hm_extend expr_eq (eo_unfoldings o1) (eo_unfoldings o2),
             eo_requirements = hs_extend expr_eq (eo_requirements o1) (eo_requirements o2)\<rparr>, first, second)
     else
       (case find_common_unfoldings2 (eo_unfoldings o1) (eo_unfoldings o2) of (common, first_unfoldings, second_unfoldings) \<Rightarrow>
          bindE (split_unfoldings first_unfoldings conflicts) (\<lambda>(first_to_restore, first_to_keep).
          bindE (split_unfoldings second_unfoldings conflicts) (\<lambda>(second_to_restore, second_to_keep).
          bindE (update_requirements (hs_extend expr_eq (eo_requirements o1) (eo_requirements o2))
                  (hm_keys first_to_restore)) (\<lambda>reqs.
          bindE (update_requirements reqs (hm_keys second_to_restore)) (\<lambda>reqs.
          bindE (restore_unfoldings first_to_restore first) (\<lambda>first_restored.
          bindE (restore_unfoldings second_to_restore second) (\<lambda>second_restored.
          Inr (\<lparr>eo_unfoldings = hm_extend expr_eq (hm_extend expr_eq common first_to_keep) second_to_keep,
                eo_requirements = reqs\<rparr>, first_restored, second_restored)))))))))"

definition merge_cond ::
  "expr \<Rightarrow> expr_optimizer \<Rightarrow> expr \<Rightarrow> expr_optimizer \<Rightarrow> expr \<Rightarrow> expr_optimizer \<Rightarrow>
   optimizer_error + expr_optimizer \<times> expr \<times> expr \<times> expr" where
  "merge_cond guard o1 then_expr o2 else_expr o3 =
     bindE (check_requirements_conflict (eo_requirements o1) (eo_requirements o2)) (\<lambda>c12.
     bindE (check_requirements_conflict (eo_requirements o1) (eo_requirements o3)) (\<lambda>c13.
     bindE (check_requirements_conflict (eo_requirements o2) (eo_requirements o3)) (\<lambda>c23.
     let conflicts = hs_extend expr_eq (hs_extend expr_eq c12 c13) c23;
         all_reqs = hs_extend expr_eq (hs_extend expr_eq (eo_requirements o1) (eo_requirements o2)) (eo_requirements o3) in
     if conflicts = [] then
       Inr (\<lparr>eo_unfoldings = hm_extend expr_eq (hm_extend expr_eq (eo_unfoldings o1) (eo_unfoldings o2)) (eo_unfoldings o3),
             eo_requirements = all_reqs\<rparr>, guard, then_expr, else_expr)
     else
       bindE (find_common_unfoldings3 (eo_unfoldings o1) (eo_unfoldings o2) (eo_requirements o2)
               (eo_unfoldings o3) (eo_requirements o3)) (\<lambda>(common, u1, u2, u3).
       bindE (split_unfoldings u1 conflicts) (\<lambda>(r1, k1).
       bindE (split_unfoldings u2 conflicts) (\<lambda>(r2, k2).
       bindE (split_unfoldings u3 conflicts) (\<lambda>(r3, k3).
       bindE (update_requirements all_reqs (hm_keys r1)) (\<lambda>reqs.
       bindE (update_requirements reqs (hm_keys r2)) (\<lambda>reqs.
       bindE (update_requirements reqs (hm_keys r3)) (\<lambda>reqs.
       bindE (restore_unfoldings r1 guard) (\<lambda>guard.
       bindE (restore_unfoldings r2 then_expr) (\<lambda>then_expr.
       bindE (restore_unfoldings r3 else_expr) (\<lambda>else_expr.
       Inr (\<lparr>eo_unfoldings = hm_extend expr_eq (hm_extend expr_eq (hm_extend expr_eq common k1) k2) k3,
             eo_requirements = reqs\<rparr>, guard, then_expr, else_expr))))))))))))))"

subsection \<open>The folder\<close>

definition add_requirement :: "expr \<Rightarrow> expr_optimizer \<Rightarrow> expr_optimizer" where
  "add_requirement place o' = o'\<lparr>eo_requirements := hs_insert expr_eq place (eo_requirements o')\<rparr>"

definition optimizer_empty :: expr_optimizer where
  "optimizer_empty = \<lparr>eo_unfoldings = [], eo_requirements = []\<rparr>"

function optimizer_fold :: "expr \<Rightarrow> expr_optimizer \<Rightarrow> optimizer_error + expr \<times> expr_optimizer" where
  "optimizer_fold e o' =
     (case e of
        ELabelledOld _ _ _ \<Rightarrow> Inr (e, if is_place e then add_requirement e o' else o')
      | EUnfolding name args body perm variant _ \<Rightarrow>
          bindE (assertE Abort (length args = 1)) (\<lambda>_.
          bindE (optimizer_fold body o') (\<lambda>(new_expr, o').
          Inr (new_expr, o'\<lparr>eo_unfoldings := hm_insert expr_eq (eo_unfoldings o') (hd args) (name, perm, variant)\<rparr>)))
      | EMagicWand _ _ _ _ \<Rightarrow> Inl Unsupported_Expr
      | EPredicateAccessPredicate _ _ _ _ \<Rightarrow> Inl Unsupported_Expr
      | EFieldAccessPredicate _ _ _ \<Rightarrow> Inl Unsupported_Expr
      | ELetExpr _ _ _ _ \<Rightarrow> Inl Abort
      | EBinOp kind first second pos \<Rightarrow>
          bindE (optimizer_fold first o') (\<lambda>(first, o1).
          bindE (optimizer_fold second optimizer_empty) (\<lambda>(second, o2).
          bindE (merge_requirements_and_unfoldings2 first o1 second o2) (\<lambda>(o', first, second).
          Inr (EBinOp kind first second pos, o'))))
      | ECond guard then_expr else_expr pos \<Rightarrow>
          bindE (optimizer_fold guard o') (\<lambda>(guard, o1).
          bindE (optimizer_fold then_expr optimizer_empty) (\<lambda>(then_expr, o2).
          bindE (optimizer_fold else_expr optimizer_empty) (\<lambda>(else_expr, o3).
          bindE (merge_cond guard o1 then_expr o2 else_expr o3) (\<lambda>(o', guard, then_expr, else_expr).
          Inr (ECond guard then_expr else_expr pos, o')))))
      | _ \<Rightarrow>
          if is_place e then Inr (e, add_requirement e o') else default_fallible_fold_expr optimizer_fold e o')"
  by pat_completeness auto
termination by (relation "measure (size \<circ> fst)") (auto simp: children_size)

declare optimizer_fold.simps [simp del]

definition optimize_expr :: "expr \<Rightarrow> optimizer_error + expr" where
  "optimize_expr e =
     (case optimizer_fold e optimizer_empty of
        Inr (new_expr, o') \<Rightarrow> restore_unfoldings (eo_unfoldings o') new_expr
      | Inl Unsupported_Expr \<Rightarrow> Inr e
      | Inl Abort \<Rightarrow> Inl Abort)"

fun optimize_stmt :: "stmt \<Rightarrow> optimizer_error + stmt" where
  "optimize_stmt (SInhale e) = bindE (optimize_expr e) (\<lambda>e. Inr (SInhale e))"
| "optimize_stmt (SPackageMagicWand w body l vs p) =
     bindE (mapE optimize_stmt body) (\<lambda>body. Inr (SPackageMagicWand w body l vs p))"
| "optimize_stmt (SIf g t e) =
     bindE (mapE optimize_stmt t) (\<lambda>t. bindE (mapE optimize_stmt e) (\<lambda>e. Inr (SIf g t e)))"
| "optimize_stmt s = Inr s"

definition optimize_method :: "cfg_method \<Rightarrow> optimizer_error + cfg_method" where
  "optimize_method m =
     bindE (mapE (\<lambda>b. bindE (mapE optimize_stmt (cb_stmts b)) (\<lambda>ss. Inr (b\<lparr>cb_stmts := ss\<rparr>))) (cm_basic_blocks m))
       (\<lambda>bs. Inr (m\<lparr>cm_basic_blocks := bs\<rparr>))"

definition optimize_function :: "vfunction \<Rightarrow> optimizer_error + vfunction" where
  "optimize_function f =
     (case fn_body f of
        None \<Rightarrow> Inr f
      | Some e \<Rightarrow> bindE (optimize_expr e) (\<lambda>e. Inr (f\<lparr>fn_body := Some e\<rparr>)))"

subsection \<open>Only unfoldings are moved\<close>

lemma restore_unfoldings_strip:
  assumes "restore_unfoldings m e = Inr e'"
  shows "strip e' = strip e"
proof -
  have "strip (fold (\<lambda>(arg, name, perm_amount, variant) e. EUnfolding name [arg] e perm_amount variant (expr_pos e)) us x) = strip x"
    for us x by (induction us arbitrary: x) auto
  then show ?thesis using assms by (auto simp: restore_unfoldings_def fallible_simps)
qed

lemma merge2_strip:
  assumes "merge_requirements_and_unfoldings2 a o1 b o2 = Inr (o', a', b')"
  shows "strip a' = strip a \<and> strip b' = strip b"
proof -
  have "(a' = a \<or> (\<exists>m. restore_unfoldings m a = Inr a')) \<and> (b' = b \<or> (\<exists>m. restore_unfoldings m b = Inr b'))"
    using assms
    by (cases "find_common_unfoldings2 (eo_unfoldings o1) (eo_unfoldings o2)")
      (auto simp: merge_requirements_and_unfoldings2_def bindE_Inr_iff case_prod_unfold split: if_splits)
  then show ?thesis using restore_unfoldings_strip by blast
qed

lemma merge_cond_strip:
  assumes "merge_cond g o1 a o2 b o3 = Inr (o', g', a', b')"
  shows "strip g' = strip g \<and> strip a' = strip a \<and> strip b' = strip b"
proof -
  have "(g' = g \<or> (\<exists>m. restore_unfoldings m g = Inr g')) \<and> (a' = a \<or> (\<exists>m. restore_unfoldings m a = Inr a')) \<and>
      (b' = b \<or> (\<exists>m. restore_unfoldings m b = Inr b'))"
    using assms by (auto simp: merge_cond_def Let_def bindE_Inr_iff case_prod_unfold split: if_splits)
  then show ?thesis using restore_unfoldings_strip by blast
qed

text \<open>The expressions that are treated like a node of their children.\<close>

definition folds_children :: "expr \<Rightarrow> bool" where
  "folds_children e = (case e of ELabelledOld _ _ _ \<Rightarrow> False | EUnfolding _ _ _ _ _ _ \<Rightarrow> False
     | EBinOp _ _ _ _ \<Rightarrow> False | ECond _ _ _ _ \<Rightarrow> False | _ \<Rightarrow> True)"

lemma optimizer_fold_default:
  assumes "folds_children e" "optimizer_fold e o' = Inr (e', o'')"
  shows "e' = e \<or> default_fallible_fold_expr optimizer_fold e o' = Inr (e', o'')"
  using assms(2) unfolding optimizer_fold.simps [of e]
  by (cases e; use assms(1) in \<open>auto simp: folds_children_def split: if_splits\<close>)

lemma optimizer_fold_strip: "optimizer_fold e o' = Inr (e', o'') \<Longrightarrow> strip e' = strip e"
proof (induction e arbitrary: o' e' o'' rule: expr_children_induct)
  case (step e)
  have IH: "strip c' = strip c" if "c \<in> set (children e)" "optimizer_fold c u = Inr (c', u')" for c u c' u'
    using step.IH [OF that] .
  show ?case
  proof (cases "folds_children e")
    case True
    have "\<not> (\<exists>n args body q v p. e = EUnfolding n args body q v p)" using True by (auto simp: folds_children_def)
    then show ?thesis
      using optimizer_fold_default [OF True step.prems] default_fold_strip [of e optimizer_fold o' e' o''] IH by blast
  next
    case False
    then consider (old) l b p where "e = ELabelledOld l b p" | (unf) n as b q v p where "e = EUnfolding n as b q v p"
      | (bin) k a b p where "e = EBinOp k a b p" | (cnd) g a b p where "e = ECond g a b p"
      by (cases e) (auto simp: folds_children_def)
    then show ?thesis
    proof cases
      case old
      then show ?thesis using step.prems by (simp add: optimizer_fold.simps [of "ELabelledOld _ _ _"])
    next
      case unf
      then show ?thesis
        using step.prems IH [of b] by (auto simp: optimizer_fold.simps [of "EUnfolding _ _ _ _ _ _"] fallible_simps)
    next
      case bin
      from step.prems [unfolded bin optimizer_fold.simps [of "EBinOp _ _ _ _"]]
      obtain a1 o1 b1 o2 o3 a2 b2 where "optimizer_fold a o' = Inr (a1, o1)" "optimizer_fold b optimizer_empty = Inr (b1, o2)"
          "merge_requirements_and_unfoldings2 a1 o1 b1 o2 = Inr (o3, a2, b2)" "e' = EBinOp k a2 b2 p"
        by (auto simp: fallible_simps)
      then show ?thesis using merge2_strip [of a1 o1 b1 o2 o3 a2 b2] IH [of a] IH [of b] bin
        by (simp add: strip_other fold_children_def)
    next
      case cnd
      from step.prems [unfolded cnd optimizer_fold.simps [of "ECond _ _ _ _"]]
      obtain g1 o1 a1 o2 b1 o3 o4 g2 a2 b2 where "optimizer_fold g o' = Inr (g1, o1)"
          "optimizer_fold a optimizer_empty = Inr (a1, o2)" "optimizer_fold b optimizer_empty = Inr (b1, o3)"
          "merge_cond g1 o1 a1 o2 b1 o3 = Inr (o4, g2, a2, b2)" "e' = ECond g2 a2 b2 p"
        by (auto simp: fallible_simps)
      then show ?thesis using merge_cond_strip [of g1 o1 a1 o2 b1 o3 o4 g2 a2 b2] IH [of g] IH [of a] IH [of b] cnd
        by (simp add: strip_other fold_children_def)
    qed
  qed
qed

lemma optimize_expr_strip:
  assumes "optimize_expr e = Inr e'"
  shows "strip e' = strip e"
proof (cases "optimizer_fold e optimizer_empty")
  case (Inl err)
  then show ?thesis using assms by (cases err) (auto simp: optimize_expr_def)
next
  case (Inr r)
  then show ?thesis
    using assms optimizer_fold_strip [of e optimizer_empty "fst r" "snd r"] restore_unfoldings_strip
    by (auto simp: optimize_expr_def split: prod.splits)
qed

lemma mapE_map_eq: "mapE f xs = Inr ys \<Longrightarrow> (\<And>x y. x \<in> set xs \<Longrightarrow> f x = Inr y \<Longrightarrow> g y = g x) \<Longrightarrow> map g ys = map g xs"
proof (induction xs arbitrary: ys)
  case (Cons x xs)
  from Cons.prems(1) obtain z zs where zs: "f x = Inr z" "mapE f xs = Inr zs" "ys = z # zs" by (auto split: sum.splits)
  have "map g zs = map g xs" by (rule Cons.IH [OF zs(2)]) (rule Cons.prems(2), auto)
  then show ?case using zs Cons.prems(2) [of x z] by simp
qed simp

lemma optimize_stmt_strip: "optimize_stmt s = Inr s' \<Longrightarrow> map_expr strip s' = map_expr strip s"
proof (induction s arbitrary: s' rule: optimize_stmt.induct)
  case (1 e)
  then show ?case by (auto simp: fallible_simps dest: optimize_expr_strip)
next
  case (2 w body l vs p)
  then obtain body' where "mapE optimize_stmt body = Inr body'" "s' = SPackageMagicWand w body' l vs p"
    by (auto simp: fallible_simps)
  then show ?case using mapE_map_eq [of optimize_stmt body body' "map_expr strip"] 2 by simp
next
  case (3 g t e)
  then obtain t' e' where "mapE optimize_stmt t = Inr t'" "mapE optimize_stmt e = Inr e'" "s' = SIf g t' e'"
    by (auto simp: fallible_simps)
  then show ?case
    using mapE_map_eq [of optimize_stmt t t' "map_expr strip"] mapE_map_eq [of optimize_stmt e e' "map_expr strip"] 3 by simp
qed simp_all

text \<open>
  C12 Pulling up unfoldings changes nothing but unfoldings: every block of the optimised method has the
  successor and, apart from the \<open>unfolding\<close> wrappers in their expressions, the statements of the original
  block, and everything else in the method is the same.
\<close>

theorem optimize_method_only_unfoldings:
  assumes "optimize_method m = Inr m'"
  shows "map (\<lambda>b. (map (map_expr strip) (cb_stmts b), cb_successor b)) (cm_basic_blocks m') =
      map (\<lambda>b. (map (map_expr strip) (cb_stmts b), cb_successor b)) (cm_basic_blocks m) \<and>
    m' = m\<lparr>cm_basic_blocks := cm_basic_blocks m'\<rparr>"
proof -
  obtain bs where bs: "mapE (\<lambda>b. bindE (mapE optimize_stmt (cb_stmts b)) (\<lambda>ss. Inr (b\<lparr>cb_stmts := ss\<rparr>)))
      (cm_basic_blocks m) = Inr bs" "m' = m\<lparr>cm_basic_blocks := bs\<rparr>"
    using assms by (auto simp: optimize_method_def bindE_Inr_iff)
  have "map (\<lambda>b. (map (map_expr strip) (cb_stmts b), cb_successor b)) bs =
      map (\<lambda>b. (map (map_expr strip) (cb_stmts b), cb_successor b)) (cm_basic_blocks m)"
  proof (rule mapE_map_eq [OF bs(1)])
    fix b b' assume "bindE (mapE optimize_stmt (cb_stmts b)) (\<lambda>ss. Inr (b\<lparr>cb_stmts := ss\<rparr>)) = Inr b'"
    then obtain ss where "mapE optimize_stmt (cb_stmts b) = Inr ss" "b' = b\<lparr>cb_stmts := ss\<rparr>" by (auto simp: bindE_Inr_iff)
    then show "(map (map_expr strip) (cb_stmts b'), cb_successor b') = (map (map_expr strip) (cb_stmts b), cb_successor b)"
      using mapE_map_eq [of optimize_stmt "cb_stmts b" ss "map_expr strip"] optimize_stmt_strip by simp
  qed
  then show ?thesis using bs(2) by simp
qed

subsection \<open>Example\<close>

definition ex_place :: expr where
  "ex_place = EField (ELocal (local_var_new ''x'' (TTypedRef ''T'')) position_default) (field_new ''f'' (TTypedRef ''F'')) position_default"

definition ex_leaf :: expr where
  "ex_leaf = EField ex_place (field_new ''val_bool'' TBool) position_default"

definition ex_unfolded :: expr where
  "ex_unfolded = EUnfolding ''F'' [ex_place] ex_leaf Read None position_default"

text \<open>Both conjuncts unfold the same place: one unfolding around the conjunction is left.\<close>

definition ex_inner :: cfg_method where
  "ex_inner = (cfg_new 7 ''m'' 0 [] [] [])\<lparr>
     cm_basic_blocks := [\<lparr>cb_stmts = [SInhale (EBinOp OpAnd ex_unfolded (expr_not ex_unfolded) position_default)],
       cb_successor = SuccReturn\<rparr>],
     cm_basic_blocks_labels := [''start'']\<rparr>"

definition ex_outer :: expr where
  "ex_outer = EUnfolding ''F'' [ex_place] (EBinOp OpAnd ex_leaf (expr_not ex_leaf) position_default) Read None position_default"

lemma ex_optimize_expr_run:
  "optimize_expr (EBinOp OpAnd ex_unfolded (expr_not ex_unfolded) position_default) = Inr ex_outer"
  by code_simp

theorem optimize_method_only_unfoldings_witness:
  "\<exists>m'. optimize_method ex_inner = Inr m' \<and> concat (map cb_stmts (cm_basic_blocks m')) = [SInhale ex_outer] \<and>
     map_expr strip (SInhale ex_outer) = SInhale (strip (EBinOp OpAnd ex_unfolded (expr_not ex_unfolded) position_default))"
proof -
  obtain m' where m': "optimize_method ex_inner = Inr m'" "concat (map cb_stmts (cm_basic_blocks m')) = [SInhale ex_outer]"
    using ex_optimize_expr_run by (simp add: optimize_method_def ex_inner_def)
  have "map (map_expr strip) (concat (map cb_stmts (cm_basic_blocks m'))) =
      concat (map fst (map (\<lambda>b. (map (map_expr strip) (cb_stmts b), cb_successor b)) (cm_basic_blocks m')))"
    by (simp add: map_concat comp_def)
  also have "\<dots> = [SInhale (strip (EBinOp OpAnd ex_unfolded (expr_not ex_unfolded) position_default))]"
    using optimize_method_only_unfoldings [OF m'(1)] by (simp add: ex_inner_def)
  finally show ?thesis using m' by simp
qed

text \<open>
  The optimizer has no case for quantifiers: an unfolding whose argument is the bound variable is pulled out of
  its quantifier.
\<close>

theorem optimizer_pulls_bound_variable_out:
  "let r = local_var_new ''r'' (TTypedRef ''T'');
       leaf = EField (ELocal r position_default) (field_new ''f'' TBool) position_default;
       arg = ELocal r position_default in
   optimize_expr (EForAll [r] [] (EUnfolding ''T'' [arg] leaf Read None position_default) position_default) =
   Inr (EUnfolding ''T'' [arg] (EForAll [r] [] leaf position_default) Read None position_default)"
  by code_simp

end
