(* ===== verification/Opt_Quantifiers.thy ===== *)
theory Opt_Quantifiers
  imports Vir_Cfg Vir_Unfolding Fallible
begin

section \<open>Quantifiers (optimizations/methods/quantifier_fixer.rs)\<close>

text \<open>
  In assertions and inhales, unfoldings inside a universal quantifier are pulled out of it, and old places,
  fields of variables and operations on unbound variables inside a quantifier are bound by a \<open>let\<close> around it.
  Hash maps are lists in insertion order.  A failed assertion or an undefined type is a panic, with its
  message.
\<close>

subsection \<open>Pulling unfoldings out of a quantifier\<close>

type_synonym extracted = "(string \<times> expr list, perm_amount \<times> maybe_enum_variant_index \<times> position) hmap"

record unfolding_extractor =
  ue_unfoldings :: extracted
  ue_in_quantifier :: bool

definition unfolding_key_eq :: "string \<times> expr list \<Rightarrow> string \<times> expr list \<Rightarrow> bool" where
  "unfolding_key_eq a b \<longleftrightarrow> fst a = fst b \<and> list_all2 expr_eq (snd a) (snd b)"

definition extractor_new :: unfolding_extractor where
  "extractor_new = \<lparr>ue_unfoldings = [], ue_in_quantifier = False\<rparr>"

function extract_unfoldings :: "expr \<Rightarrow> unfolding_extractor \<Rightarrow> string + expr \<times> unfolding_extractor" where
  "extract_unfoldings e st =
     (case e of
        EForAll variables triggers body pos \<Rightarrow>
          (if ue_unfoldings st \<noteq> [] then Inl ''Nested quantifiers are not supported.''
           else
             bindE (extract_unfoldings body (st\<lparr>ue_in_quantifier := True\<rparr>)) (\<lambda>(body, st).
             Inr (fold (\<lambda>((name, args), (perm_amount, variant, _)) forall.
                     EUnfolding name args forall perm_amount variant pos)
                   (ue_unfoldings st) (EForAll variables triggers body pos),
                  \<lparr>ue_unfoldings = [], ue_in_quantifier = False\<rparr>)))
      | EUnfolding name args body perm variant pos \<Rightarrow>
          (if ue_in_quantifier st then
             extract_unfoldings body
               (st\<lparr>ue_unfoldings := hm_insert unfolding_key_eq (ue_unfoldings st) (name, args) (perm, variant, pos)\<rparr>)
           else Inr (e, st))
      | ELabelledOld _ _ _ \<Rightarrow> Inr (e, st)
      | _ \<Rightarrow> default_fallible_fold_expr extract_unfoldings e st)"
  by pat_completeness auto
termination by (relation "measure (size \<circ> fst)") (auto simp: children_size)

declare extract_unfoldings.simps [simp del]

definition replace_expr_unfolding :: "expr \<Rightarrow> string + expr" where
  "replace_expr_unfolding e = bindE (extract_unfoldings e extractor_new) (\<lambda>(e, _). Inr e)"

subsection \<open>Binding parts of a quantifier by let\<close>

record let_replacer =
  lr_counter :: "32 word"
  lr_map :: "(expr, local_var) hmap"

definition construct_fresh_local :: "type \<Rightarrow> let_replacer \<Rightarrow> local_var \<times> let_replacer" where
  "construct_fresh_local ty st =
     (local_var_new (''_LET_'' @ int_to_string (uint (lr_counter st))) ty, st\<lparr>lr_counter := lr_counter st + 1\<rparr>)"

definition bind_by_let :: "expr \<Rightarrow> type option \<Rightarrow> position \<Rightarrow> let_replacer \<Rightarrow> string + expr \<times> let_replacer" where
  "bind_by_let original_expr ty pos st =
     (case hm_get expr_eq (lr_map st) original_expr of
        Some v \<Rightarrow> Inr (ELocal v pos, st)
      | None \<Rightarrow>
          bindE (unwrapE ''get_type'' ty) (\<lambda>ty.
          case construct_fresh_local ty st of (v, st) \<Rightarrow>
            Inr (ELocal v pos, st\<lparr>lr_map := hm_insert expr_eq (lr_map st) original_expr v\<rparr>)))"

definition mentions_bound :: "expr list \<Rightarrow> expr \<Rightarrow> bool" where
  "mentions_bound bound_vars e \<longleftrightarrow> list_ex (\<lambda>v. find_expr e v) bound_vars"

function let_replace :: "expr list \<Rightarrow> expr \<Rightarrow> let_replacer \<Rightarrow> string + expr \<times> let_replacer" where
  "let_replace bound_vars e st =
     (case e of
        ELabelledOld label body pos \<Rightarrow>
          (if is_place body then bind_by_let e (get_type body) pos st else Inr (e, st))
      | EBinOp kind first second pos \<Rightarrow>
          (if mentions_bound bound_vars first \<or> mentions_bound bound_vars second then
             bindE (let_replace bound_vars first st) (\<lambda>(first, st).
             bindE (let_replace bound_vars second st) (\<lambda>(second, st).
             Inr (EBinOp kind first second pos, st)))
           else bind_by_let e (get_type e) pos st)
      | EField receiver field pos \<Rightarrow>
          (if is_local receiver then bind_by_let e (get_type e) pos st else Inr (e, st))
      | EForAll _ _ _ _ \<Rightarrow> Inr (e, st)
      | _ \<Rightarrow> default_fallible_fold_expr (let_replace bound_vars) e st)"
  by pat_completeness auto
termination by (relation "measure (\<lambda>(bs, e, st). size e)") (auto simp: children_size)

declare let_replace.simps [simp del]

function bind_old :: "expr \<Rightarrow> 32 word \<Rightarrow> string + expr \<times> 32 word" where
  "bind_old e counter =
     (case e of
        EMagicWand _ _ _ _ \<Rightarrow> Inr (e, counter)
      | EForAll variables triggers body pos \<Rightarrow>
          bindE (bind_old body counter) (\<lambda>(folded_body, counter).
          bindE (let_replace (map expr_local variables) folded_body \<lparr>lr_counter = counter, lr_map = []\<rparr>)
            (\<lambda>(replaced_body, st).
          let forall = EForAll variables triggers replaced_body pos in
          Inr (if counter < lr_counter st
               then fold (\<lambda>(e, v) forall. ELetExpr v e forall pos) (lr_map st) forall else forall,
               lr_counter st)))
      | _ \<Rightarrow> default_fallible_fold_expr bind_old e counter)"
  by pat_completeness auto
termination by (relation "measure (size \<circ> fst)") (auto simp: children_size)

declare bind_old.simps [simp del]

subsection \<open>Statements and methods\<close>

definition fix_expr :: "expr \<Rightarrow> 32 word \<Rightarrow> string + expr \<times> 32 word" where
  "fix_expr e counter =
     bindE (replace_expr_unfolding e) (\<lambda>pulled_unfolding. bind_old pulled_unfolding counter)"

fun fix_stmt :: "stmt \<Rightarrow> 32 word \<Rightarrow> string + stmt \<times> 32 word" and
    fix_stmts :: "stmt list \<Rightarrow> 32 word \<Rightarrow> string + stmt list \<times> 32 word" where
  "fix_stmt (SAssert e pos) counter = bindE (fix_expr e counter) (\<lambda>(e, counter). Inr (SAssert e pos, counter))"
| "fix_stmt (SInhale e) counter = bindE (fix_expr e counter) (\<lambda>(e, counter). Inr (SInhale e, counter))"
| "fix_stmt (SPackageMagicWand w body l vs p) counter =
     bindE (fix_stmts body counter) (\<lambda>(body, counter). Inr (SPackageMagicWand w body l vs p, counter))"
| "fix_stmt (SIf g t e) counter =
     bindE (fix_stmts t counter) (\<lambda>(t, counter).
     bindE (fix_stmts e counter) (\<lambda>(e, counter). Inr (SIf g t e, counter)))"
| "fix_stmt s counter = Inr (s, counter)"
| "fix_stmts [] counter = Inr ([], counter)"
| "fix_stmts (s # ss) counter =
     bindE (fix_stmt s counter) (\<lambda>(s, counter).
     bindE (fix_stmts ss counter) (\<lambda>(ss, counter). Inr (s # ss, counter)))"

definition fix_quantifiers :: "cfg_method \<Rightarrow> string + cfg_method" where
  "fix_quantifiers cfg =
     bindE (foldE (\<lambda>b (bs, counter).
         bindE (fix_stmts (cb_stmts b) counter) (\<lambda>(ss, counter). Inr (bs @ [b\<lparr>cb_stmts := ss\<rparr>], counter)))
       (cm_basic_blocks cfg) ([], 0)) (\<lambda>(bs, _).
     Inr (cfg\<lparr>cm_basic_blocks := bs\<rparr>))"

subsection \<open>Only unfoldings are pulled out\<close>

lemma extract_unfoldings_default:
  "\<not> (\<exists>n as b q v p. e = EUnfolding n as b q v p) \<Longrightarrow> \<not> (\<exists>vs ts b p. e = EForAll vs ts b p) \<Longrightarrow>
   extract_unfoldings e st = Inr (e', st') \<Longrightarrow>
   e' = e \<or> default_fallible_fold_expr extract_unfoldings e st = Inr (e', st')"
  unfolding extract_unfoldings.simps [of e] by (cases e) auto

lemma extract_unfoldings_strip:
  "extract_unfoldings e st = Inr (e', st') \<Longrightarrow> strip e' = strip e"
proof (induction e arbitrary: st e' st' rule: expr_children_induct)
  case (step e)
  note IH = step.IH
  consider (unf) n as b q v p where "e = EUnfolding n as b q v p" | (all) vs ts b p where "e = EForAll vs ts b p"
    | (other) "\<not> (\<exists>n as b q v p. e = EUnfolding n as b q v p)" "\<not> (\<exists>vs ts b p. e = EForAll vs ts b p)" by blast
  then show ?case
  proof cases
    case unf
    then show ?thesis using step.prems IH [of b]
      by (auto simp: extract_unfoldings.simps [of "EUnfolding _ _ _ _ _ _"] split: if_splits)
  next
    case all
    have wrap: "strip (fold (\<lambda>((name, args), (q, v, _)) forall. EUnfolding name args forall q v p) us x) = strip x"
      for us :: extracted and x by (induction us arbitrary: x) auto
    from all step.prems obtain b' st1 where b': "extract_unfoldings b (st\<lparr>ue_in_quantifier := True\<rparr>) = Inr (b', st1)"
      "strip e' = strip (EForAll vs ts b' p)"
      by (auto simp: extract_unfoldings.simps [of "EForAll _ _ _ _"] wrap fallible_simps split: if_splits)
    then show ?thesis using IH [of b] all by (simp add: strip_other)
  next
    case other
    then show ?thesis
      using extract_unfoldings_default [OF other step.prems] default_fold_strip [of e extract_unfoldings st e' st'] IH
      by blast
  qed
qed

theorem replace_expr_unfolding_strip: "replace_expr_unfolding e = Inr e' \<Longrightarrow> strip e' = strip e"
  by (auto simp: replace_expr_unfolding_def fallible_simps dest: extract_unfoldings_strip)

text \<open>Expressions without a universal quantifier are kept, and no fresh variable is used up.\<close>

function quantifier_free :: "expr \<Rightarrow> bool" where
  "quantifier_free e = ((case e of EForAll _ _ _ _ \<Rightarrow> False | _ \<Rightarrow> True) \<and> list_all quantifier_free (children e))"
  by pat_completeness auto
termination by (relation "measure size") (auto simp: children_size)

declare quantifier_free.simps [simp del]

lemma mapR_id: "(\<And>c. c \<in> set cs \<Longrightarrow> f c s = Inr (c, s)) \<Longrightarrow> mapR f cs s = Inr (cs, s)"
  by (induction cs) auto

lemma default_fold_id:
  "(\<And>c. c \<in> set (children e) \<Longrightarrow> f c s = Inr (c, s)) \<Longrightarrow> default_fallible_fold_expr f e s = Inr (e, s)"
  by (simp add: default_fallible_fold_expr_def mapR_id)

lemma bind_old_free: "quantifier_free e \<Longrightarrow> bind_old e n = Inr (e, n)"
proof (induction e rule: expr_children_induct)
  case (step e)
  have "default_fallible_fold_expr bind_old e n = Inr (e, n)"
    by (rule default_fold_id) (use step in \<open>auto simp: quantifier_free.simps [of e] list_all_iff\<close>)
  then show ?case
    using step.prems unfolding bind_old.simps [of e] by (cases e) (auto simp: quantifier_free.simps)
qed

lemma extract_unfoldings_free: "quantifier_free e \<Longrightarrow> extract_unfoldings e extractor_new = Inr (e, extractor_new)"
proof (induction e rule: expr_children_induct)
  case (step e)
  have "default_fallible_fold_expr extract_unfoldings e extractor_new = Inr (e, extractor_new)"
    by (rule default_fold_id) (use step in \<open>auto simp: quantifier_free.simps [of e] list_all_iff\<close>)
  then show ?case
    using step.prems unfolding extract_unfoldings.simps [of e]
    by (cases e) (auto simp: quantifier_free.simps extractor_new_def)
qed

text \<open>
  Fixing quantifiers only concerns quantifiers: an assertion or inhale whose expression has no universal
  quantifier is kept as it is, it never panics, and no \<open>_LET_\<close> variable is used up for it.
\<close>

theorem fix_expr_quantifier_free:
  assumes "quantifier_free e"
  shows "fix_expr e counter = Inr (e, counter)"
  using bind_old_free [OF assms] extract_unfoldings_free [OF assms]
  by (simp add: fix_expr_def replace_expr_unfolding_def)

subsection \<open>Examples\<close>

definition ex_q :: "expr \<Rightarrow> expr" where
  "ex_q body = EForAll [local_var_new ''i'' TInt] [] body position_default"

definition ex_i :: expr where
  "ex_i = expr_local (local_var_new ''i'' TInt)"

definition ex_n :: "string \<Rightarrow> expr" where
  "ex_n x = expr_local (local_var_new x TInt)"

theorem fix_expr_quantifier_free_witness:
  "quantifier_free (EBinOp LtCmp ex_i (ex_n ''n'') position_default) \<and>
   fix_expr (EBinOp LtCmp ex_i (ex_n ''n'') position_default) 3 = Inr (EBinOp LtCmp ex_i (ex_n ''n'') position_default, 3)"
proof -
  have free: "quantifier_free (EBinOp LtCmp ex_i (ex_n ''n'') position_default)"
    by (simp add: quantifier_free.simps ex_i_def ex_n_def expr_local_def)
  then show ?thesis using fix_expr_quantifier_free by blast
qed

text \<open>\<open>forall i :: i < n + n\<close> becomes \<open>let _LET_0 == n + n in forall i :: i < _LET_0\<close>.\<close>

theorem fix_expr_binds:
  "fix_expr (ex_q (EBinOp LtCmp ex_i (EBinOp OpAdd (ex_n ''n'') (ex_n ''n'') position_default) position_default)) 0 =
   Inr (ELetExpr (local_var_new ''_LET_0'' TInt) (EBinOp OpAdd (ex_n ''n'') (ex_n ''n'') position_default)
     (ex_q (EBinOp LtCmp ex_i (ex_n ''_LET_0'') position_default)) position_default, 1)"
  by code_simp

text \<open>A field of the bound variable is bound outside of the quantifier, where the variable has no meaning.\<close>

definition ex_bound :: expr where
  "ex_bound = ELocal (local_var_new ''r'' (TTypedRef ''T'')) position_default"

definition ex_bound_field :: expr where
  "ex_bound_field = EField ex_bound (field_new ''f'' TBool) position_default"

theorem bound_variable_escapes:
  "fix_expr (EForAll [local_var_new ''r'' (TTypedRef ''T'')] [] ex_bound_field position_default) 0 =
   Inr (ELetExpr (local_var_new ''_LET_0'' TBool) ex_bound_field
     (EForAll [local_var_new ''r'' (TTypedRef ''T'')] [] (expr_local (local_var_new ''_LET_0'' TBool)) position_default)
     position_default, 1)"
  by code_simp

text \<open>The same holds for the argument of an unfolding that is pulled out.\<close>

theorem unfolding_of_bound_escapes:
  "replace_expr_unfolding (EForAll [local_var_new ''r'' (TTypedRef ''T'')] []
     (EUnfolding ''T'' [ex_bound] ex_bound_field Read None position_default) position_default) =
   Inr (EUnfolding ''T'' [ex_bound]
     (EForAll [local_var_new ''r'' (TTypedRef ''T'')] [] ex_bound_field position_default) Read None position_default)"
  by code_simp

text \<open>
  After a nested quantifier the flag \<open>in_quantifier\<close> is off although the outer quantifier goes on: an unfolding
  to the right of it stays inside.
\<close>

theorem nested_quantifier_resets_flag:
  "let u = EUnfolding ''T'' [ex_bound] ex_bound_field Read None position_default;
       e = ex_q (EBinOp OpAnd (ex_q (from_bool True)) u position_default) in
   replace_expr_unfolding e = Inr e"
  by code_simp

end
