(* ===== verification/Opt_Purifier.thy ===== *)
theory Opt_Purifier
  imports Vir_Hash Opt_Methods Fallible
begin

section \<open>Purification of heap allocated integers (optimizations/methods/purifier.rs)\<close>

text \<open>
  A local variable that is only used through its field \<open>val_int\<close> and the predicates \<open>usize\<close> and \<open>isize\<close> becomes
  a variable of the type of the field.  A collector computes which variables these are, and a folder rewrites
  the statements; a failed assertion, a missing key or index is a panic, with its message.  Hash sets and maps
  are lists in insertion order.
\<close>

subsection \<open>The collector\<close>

record var_collector =
  vc_all_vars :: "local_var list"
  vc_impure_vars :: "local_var list"
  vc_is_pure_context :: bool
  vc_replacements :: "(local_var, local_var) hmap"

type_synonym collector_state = "string + var_collector"

definition is_purifiable_predicate :: "string \<Rightarrow> bool" where
  "is_purifiable_predicate name \<longleftrightarrow> name = ''usize'' \<or> name = ''isize''"

definition is_purifiable_method :: "string \<Rightarrow> bool" where
  "is_purifiable_method name \<longleftrightarrow> name = ''builtin$havoc_ref''"

definition check_local_var :: "local_var \<Rightarrow> var_collector \<Rightarrow> var_collector" where
  "check_local_var v c =
     (let c = c\<lparr>vc_all_vars := hs_insert local_var_eq v (vc_all_vars c)\<rparr> in
      if vc_is_pure_context c then c else c\<lparr>vc_impure_vars := hs_insert local_var_eq v (vc_impure_vars c)\<rparr>)"

definition check_local :: "local_var \<Rightarrow> collector_state \<Rightarrow> collector_state" where
  "check_local v st = bindE st (\<lambda>c. Inr (check_local_var v c))"

definition set_context :: "bool \<Rightarrow> collector_state \<Rightarrow> collector_state" where
  "set_context b st = bindE st (\<lambda>c. Inr (c\<lparr>vc_is_pure_context := b\<rparr>))"

definition add_replacement :: "local_var \<Rightarrow> type \<Rightarrow> var_collector \<Rightarrow> var_collector" where
  "add_replacement v ty c = c\<lparr>vc_replacements := hm_insert local_var_eq (vc_replacements c) v (v\<lparr>lv_typ := ty\<rparr>)\<rparr>"

definition forget_var :: "local_var \<Rightarrow> collector_state \<Rightarrow> collector_state" where
  "forget_var v st = bindE st (\<lambda>c. Inr (c\<lparr>vc_all_vars := filter (\<lambda>u. \<not> local_var_eq u v) (vc_all_vars c)\<rparr>))"

text \<open>The context in which the arguments of a purifiable predicate are visited: \<open>args[0]\<close> must be a variable.\<close>

definition enter_predicate :: "string \<Rightarrow> expr list \<Rightarrow> var_collector \<Rightarrow> collector_state" where
  "enter_predicate name args c =
     (if is_purifiable_predicate name then
        (case args of
           [] \<Rightarrow> Inl ''index out of bounds''
         | arg # _ \<Rightarrow> Inr (if is_local arg then c\<lparr>vc_is_pure_context := True\<rparr> else c))
      else Inr c)"

function collect_vars :: "expr \<Rightarrow> collector_state \<Rightarrow> collector_state" where
  "collect_vars e st =
     bindE st (\<lambda>c.
       case e of
         EPredicateAccessPredicate name arg _ _ \<Rightarrow>
           set_context (vc_is_pure_context c)
             (collect_vars arg (Inr (case arg of
                ELocal v _ \<Rightarrow>
                  if is_purifiable_predicate name then (add_replacement v TInt c)\<lparr>vc_is_pure_context := True\<rparr> else c
              | _ \<Rightarrow> c)))
       | EUnfolding name args body _ _ _ \<Rightarrow>
           set_context (vc_is_pure_context c)
             (collect_vars body (fold collect_vars args (enter_predicate name args c)))
       | EField receiver field _ \<Rightarrow>
           set_context (vc_is_pure_context c)
             (collect_vars receiver (Inr
                (if fd_name field = ''val_int'' then
                   (case receiver of
                      ELocal v _ \<Rightarrow> add_replacement v (fd_typ field) (c\<lparr>vc_is_pure_context := True\<rparr>)
                    | _ \<Rightarrow> c\<lparr>vc_is_pure_context := True\<rparr>)
                 else c)))
       | ELetExpr bound_var d body _ \<Rightarrow> forget_var bound_var (collect_vars body (collect_vars d (Inr c)))
       | EForAll vars _ body _ \<Rightarrow> fold forget_var vars (collect_vars body (Inr c))
       | _ \<Rightarrow> default_walk_expr collect_vars check_local e (Inr c))"
  by pat_completeness auto
termination
  by (relation "measure (size \<circ> fst)")
    (auto simp: children_size less_Suc_eq_le intro: trans_le_add1 size_list_estimation' [OF _ order_refl])

declare collect_vars.simps [simp del]

definition collect_ghost_call :: "string \<Rightarrow> expr list \<Rightarrow> local_var list \<Rightarrow> var_collector \<Rightarrow> collector_state" where
  "collect_ghost_call name args targets c =
     bindE (assertE ''assertion failed: args.is_empty()'' (args = [])) (\<lambda>_.
     set_context (vc_is_pure_context c)
       (fold check_local targets
         (Inr (if is_purifiable_method name then c\<lparr>vc_is_pure_context := True\<rparr> else c))))"

definition collect_fold :: "string \<Rightarrow> expr list \<Rightarrow> var_collector \<Rightarrow> collector_state" where
  "collect_fold name args c =
     set_context (vc_is_pure_context c) (fold collect_vars args (enter_predicate name args c))"

fun collect_event :: "stmt_event \<Rightarrow> collector_state \<Rightarrow> collector_state" where
  "collect_event (EvExpr e) st = collect_vars e st"
| "collect_event (EvVar v) st = check_local v st"
| "collect_event (EvLabel _) st = st"

fun collect_var_stmt :: "stmt \<Rightarrow> collector_state \<Rightarrow> collector_state" where
  "collect_var_stmt (SMethodCall name args targets) st = bindE st (collect_ghost_call name args targets)"
| "collect_var_stmt (SUnfold name args _ _) st = bindE st (collect_fold name args)"
| "collect_var_stmt (SFold name args _ _ _) st = bindE st (collect_fold name args)"
| "collect_var_stmt (SPackageMagicWand wand body _ vars _) st =
     fold collect_var_stmt body (fold check_local vars (collect_vars wand st))"
| "collect_var_stmt (SIf g t e) st = fold collect_var_stmt e (fold collect_var_stmt t (collect_vars g st))"
| "collect_var_stmt s st = fold collect_event (stmt_events s) st"

definition var_collector_new :: var_collector where
  "var_collector_new =
     \<lparr>vc_all_vars = [], vc_impure_vars = [local_var_new ''_0'' (TTypedRef '''')], vc_is_pure_context = False,
      vc_replacements = []\<rparr>"

definition collect_method :: "cfg_method \<Rightarrow> collector_state" where
  "collect_method m =
     walk_successors m (\<lambda>succ. fold collect_vars (successor_guards succ))
       (walk_statements m collect_var_stmt (Inr var_collector_new))"

subsection \<open>The folder\<close>

record purifier_config =
  pu_check_overflows :: bool
  pu_encode_unsigned_num_constraint :: bool

record var_purifier =
  vp_pure_vars :: "local_var list"
  vp_replacements :: "(local_var, local_var) hmap"

fun is_pure_var :: "var_purifier \<Rightarrow> expr \<Rightarrow> bool" where
  "is_pure_var vp (ELocal v _) = var_member (vp_pure_vars vp) v"
| "is_pure_var vp _ = False"

fun get_replacement :: "var_purifier \<Rightarrow> expr \<Rightarrow> string + expr" where
  "get_replacement vp (ELocal v pos) =
     bindE (unwrapE ''key'' (hm_get local_var_eq (vp_replacements vp) v)) (\<lambda>r. Inr (ELocal r pos))"
| "get_replacement vp _ = Inl ''unreachable''"

definition get_replacement_bounds :: "purifier_config \<Rightarrow> var_purifier \<Rightarrow> expr \<Rightarrow> string + expr" where
  "get_replacement_bounds cf vp var_expr =
     bindE (get_replacement vp var_expr) (\<lambda>replacement.
     Inr (if pu_check_overflows cf then
            expr_and (ge_cmp replacement (from_const (from_i32 0))) (ge_cmp (from_const (from_usize (- 1))) replacement)
          else if pu_encode_unsigned_num_constraint cf then ge_cmp replacement (from_const (from_i32 0))
          else from_bool True))"

definition purifies :: "var_purifier \<Rightarrow> string \<Rightarrow> expr \<Rightarrow> bool" where
  "purifies vp name arg \<longleftrightarrow> is_purifiable_predicate name \<and> is_pure_var vp arg"

fun pure_field_access :: "var_purifier \<Rightarrow> expr \<Rightarrow> bool" where
  "pure_field_access vp (EField (ELocal v _) _ _) = var_member (vp_pure_vars vp) v"
| "pure_field_access vp _ = False"

function purify_var_expr :: "purifier_config \<Rightarrow> var_purifier \<Rightarrow> expr \<Rightarrow> string + expr" where
  "purify_var_expr cf vp e =
     (case e of
        ELocal v pos \<Rightarrow> bindE (assertE ''local_var'' (\<not> var_member (vp_pure_vars vp) v)) (\<lambda>_. Inr e)
      | EPredicateAccessPredicate name arg perm_amount pos \<Rightarrow>
          (if purifies vp name arg then get_replacement_bounds cf vp arg
           else fallible_fold_children (purify_var_expr cf vp) e)
      | EFieldAccessPredicate receiver perm_amount pos \<Rightarrow>
          (if pure_field_access vp receiver then Inr (from_bool True)
           else fallible_fold_children (purify_var_expr cf vp) e)
      | EUnfolding name args body perm variant pos \<Rightarrow>
          bindE (assertE ''assertion failed: args.len() == 1'' (length args = 1)) (\<lambda>_.
          if purifies vp name (hd args) then purify_var_expr cf vp body
          else bindE (purify_var_expr cf vp body) (\<lambda>body. Inr (EUnfolding name args body perm variant pos)))
      | EField receiver field pos \<Rightarrow>
          (if is_pure_var vp receiver then get_replacement vp receiver
           else fallible_fold_children (purify_var_expr cf vp) e)
      | _ \<Rightarrow> fallible_fold_children (purify_var_expr cf vp) e)"
  by pat_completeness auto
termination by (relation "measure (\<lambda>(cf, vp, e). size e)") (auto simp: children_size)

declare purify_var_expr.simps [simp del]

definition havoc_name :: "type \<Rightarrow> string + string" where
  "havoc_name ty =
     (case ty of
        TInt \<Rightarrow> Inr ''builtin$havoc_int'' | TBool \<Rightarrow> Inr ''builtin$havoc_bool''
      | TTypedRef _ \<Rightarrow> Inr ''builtin$havoc_ref'' | _ \<Rightarrow> Inl ''unreachable'')"

definition purify_call ::
  "purifier_config \<Rightarrow> var_purifier \<Rightarrow> string \<Rightarrow> expr list \<Rightarrow> local_var list \<Rightarrow> string + stmt" where
  "purify_call cf vp name args targets =
     bindE (assertE ''assertion failed: targets.len() == 1'' (length targets = 1)) (\<lambda>_.
     bindE (if var_member (vp_pure_vars vp) (hd targets) then
              bindE (unwrapE ''key'' (hm_get local_var_eq (vp_replacements vp) (hd targets))) (\<lambda>replacement.
              bindE (havoc_name (lv_typ replacement)) (\<lambda>name. Inr (name, [replacement])))
            else Inr (name, targets)) (\<lambda>(name, targets).
     bindE (mapE (purify_var_expr cf vp) args) (\<lambda>args. Inr (SMethodCall name args targets))))"

fun purify_stmt :: "purifier_config \<Rightarrow> var_purifier \<Rightarrow> stmt \<Rightarrow> string + stmt" where
  "purify_stmt cf vp (SUnfold name args perm_amount variant) =
     bindE (assertE ''assertion failed: args.len() == 1'' (length args = 1)) (\<lambda>_.
     if purifies vp name (hd args) then bindE (get_replacement_bounds cf vp (hd args)) (\<lambda>e. Inr (SInhale e))
     else bindE (mapE (purify_var_expr cf vp) args) (\<lambda>args. Inr (SUnfold name args perm_amount variant)))"
| "purify_stmt cf vp (SFold name args perm_amount variant pos) =
     bindE (assertE ''assertion failed: args.len() == 1'' (length args = 1)) (\<lambda>_.
     if purifies vp name (hd args) then bindE (get_replacement_bounds cf vp (hd args)) (\<lambda>e. Inr (SAssert e pos))
     else bindE (mapE (purify_var_expr cf vp) args) (\<lambda>args. Inr (SFold name args perm_amount variant pos)))"
| "purify_stmt cf vp (SMethodCall name args targets) = purify_call cf vp name args targets"
| "purify_stmt cf vp (SPackageMagicWand wand body l vars pos) =
     bindE (purify_var_expr cf vp wand) (\<lambda>wand.
     bindE (mapE (purify_stmt cf vp) body) (\<lambda>body. Inr (SPackageMagicWand wand body l vars pos)))"
| "purify_stmt cf vp (SIf g t e) =
     bindE (purify_var_expr cf vp g) (\<lambda>g.
     bindE (mapE (purify_stmt cf vp) t) (\<lambda>t.
     bindE (mapE (purify_stmt cf vp) e) (\<lambda>e. Inr (SIf g t e))))"
| "purify_stmt cf vp s = fallible_map_expr (purify_var_expr cf vp) s"

definition purifier_of :: "var_collector \<Rightarrow> var_purifier" where
  "purifier_of c =
     \<lparr>vp_pure_vars = filter (\<lambda>v. \<not> var_member (vc_impure_vars c) v) (vc_all_vars c),
      vp_replacements = vc_replacements c\<rparr>"

definition fix_var :: "var_purifier \<Rightarrow> local_var \<Rightarrow> string + local_var" where
  "fix_var vp v =
     (if var_member (vp_pure_vars vp) v then unwrapE ''key'' (hm_get local_var_eq (vp_replacements vp) v) else Inr v)"

definition purify_vars :: "purifier_config \<Rightarrow> cfg_method \<Rightarrow> string + cfg_method" where
  "purify_vars cf m =
     bindE (collect_method m) (\<lambda>collector.
     let purifier = purifier_of collector in
     bindE (patch_statements m (purify_stmt cf purifier)) (\<lambda>m.
     bindE (mapE (fix_var purifier) (cm_local_vars m)) (\<lambda>local_vars.
     Inr (m\<lparr>cm_local_vars := local_vars\<rparr>))))"

subsection \<open>Variables that are not purified\<close>

text \<open>The local variables of an expression that the folder looks at: all but the arguments of its unfoldings.\<close>

function folded_locals :: "expr \<Rightarrow> local_var list" where
  "folded_locals e =
     (case e of
        ELocal v _ \<Rightarrow> [v]
      | EUnfolding _ args body _ _ _ \<Rightarrow>
          (case args of [ELocal v _] \<Rightarrow> v # folded_locals body | _ \<Rightarrow> folded_locals body)
      | _ \<Rightarrow> concat (map folded_locals (children e)))"
  by pat_completeness auto
termination by (relation "measure size") (auto simp: children_size)

declare folded_locals.simps [simp del]

definition single_arguments :: "expr \<Rightarrow> bool" where
  "single_arguments e \<longleftrightarrow> (\<forall>x \<in> subexprs e. case x of EUnfolding _ args _ _ _ _ \<Rightarrow> length args = 1 | _ \<Rightarrow> True)"

lemma single_arguments_unfold:
  "single_arguments e \<longleftrightarrow>
     (case e of EUnfolding _ args _ _ _ _ \<Rightarrow> length args = 1 | _ \<Rightarrow> True) \<and> (\<forall>c \<in> set (children e). single_arguments c)"
  unfolding single_arguments_def by (subst subexprs_unfold) auto

lemma fallible_fold_children_id:
  "(\<And>c. c \<in> set (children e) \<Longrightarrow> f c = Inr c) \<Longrightarrow> fallible_fold_children f e = Inr e"
proof -
  assume "\<And>c. c \<in> set (children e) \<Longrightarrow> f c = Inr c"
  then have "mapE f (children e) = Inr (map (\<lambda>c. c) (children e))" by (intro mapE_total)
  then show ?thesis by (simp add: fallible_fold_children_def)
qed

lemma is_pure_var_locals: "is_pure_var vp e \<Longrightarrow> \<exists>v \<in> set (folded_locals e). var_member (vp_pure_vars vp) v"
  by (cases e) (auto simp: folded_locals.simps [of "ELocal _ _"])

text \<open>An expression without a purified variable is kept as it is.\<close>

theorem purify_var_expr_kept:
  assumes "single_arguments e" "\<forall>v \<in> set (folded_locals e). \<not> var_member (vp_pure_vars vp) v"
  shows "purify_var_expr cf vp e = Inr e"
  using assms
proof (induction e rule: expr_children_induct)
  case (step e)
  have single: "single_arguments c" if "c \<in> set (children e)" for c
    using step.prems(1) that by (subst (asm) single_arguments_unfold) blast
  show ?case
  proof (cases "\<exists>n args b q v p. e = EUnfolding n args b q v p")
    case True
    then obtain n arg b q v p where e: "e = EUnfolding n [arg] b q v p"
      using step.prems(1) by (subst (asm) single_arguments_unfold) (auto simp: length_Suc_conv)
    have sub: "set (folded_locals b) \<subseteq> set (folded_locals e)"
      unfolding e folded_locals.simps [of "EUnfolding _ _ _ _ _ _"] by (cases arg) auto
    have "\<not> is_pure_var vp arg"
      using step.prems(2) unfolding e folded_locals.simps [of "EUnfolding _ _ _ _ _ _"] by (cases arg) auto
    moreover have "purify_var_expr cf vp b = Inr b"
      by (rule step.IH) (use e single sub step.prems(2) in auto)
    ultimately show ?thesis
      by (simp add: e purify_var_expr.simps [of _ _ "EUnfolding _ _ _ _ _ _"] purifies_def)
  next
    case False
    have sub: "set (folded_locals c) \<subseteq> set (folded_locals e)" if "c \<in> set (children e)" for c
      using that False unfolding folded_locals.simps [of e] by (cases e) auto
    have IH: "purify_var_expr cf vp c = Inr c" if "c \<in> set (children e)" for c
      by (rule step.IH) (use that single sub step.prems(2) in auto)
    have fold: "fallible_fold_children (purify_var_expr cf vp) e = Inr e"
      using IH by (rule fallible_fold_children_id)
    have pure: "\<not> is_pure_var vp c" if "c \<in> set (children e)" for c
      using is_pure_var_locals [of vp c] sub [OF that] step.prems(2) by blast
    have acc: "\<not> pure_field_access vp c" if "c \<in> set (children e)" for c
    proof
      assume "pure_field_access vp c"
      then obtain v q f r where "c = EField (ELocal v q) f r" "var_member (vp_pure_vars vp) v"
        by (cases "(vp, c)" rule: pure_field_access.cases) auto
      then show False using sub [OF that] step.prems(2)
        by (auto simp: folded_locals.simps [of "EField _ _ _"] folded_locals.simps [of "ELocal _ _"])
    qed
    show ?thesis
      using fold pure acc False step.prems(2) unfolding purify_var_expr.simps [of cf vp e]
      by (cases e) (auto simp: purifies_def folded_locals.simps [of "ELocal _ _"])
  qed
qed

subsection \<open>Examples\<close>

definition ex_ref :: "string \<Rightarrow> local_var" where
  "ex_ref n = local_var_new n (TTypedRef ''ref'')"

definition ex_loc :: "string \<Rightarrow> expr" where
  "ex_loc n = expr_local (ex_ref n)"

definition ex_val_int :: "string \<Rightarrow> expr" where
  "ex_val_int n = EField (ex_loc n) (field_new ''val_int'' TInt) position_default"

definition ex_pure :: "string \<Rightarrow> expr" where
  "ex_pure n = expr_local (local_var_new n TInt)"

definition ex_config :: purifier_config where
  "ex_config = \<lparr>pu_check_overflows = False, pu_encode_unsigned_num_constraint = True\<rparr>"

definition ex_one_block :: "stmt list \<Rightarrow> cfg_method" where
  "ex_one_block ss = (cfg_new 7 ''m'' 0 [] [] [])\<lparr>cm_local_vars := [ex_ref ''_1''],
     cm_basic_blocks := [\<lparr>cb_stmts = ss, cb_successor = SuccReturn\<rparr>], cm_basic_blocks_labels := [''start'']\<rparr>"

definition purified_events :: "cfg_method \<Rightarrow> string + stmt_event list" where
  "purified_events m =
     bindE (purify_vars ex_config m) (\<lambda>m. Inr (concat (map stmt_events (method_stmts m)) @ map EvVar (cm_local_vars m)))"

text \<open>The reference \<open>_1\<close> becomes an integer.\<close>

theorem purify_vars_example:
  "purified_events (ex_one_block [SMethodCall ''builtin$havoc_ref'' [] [ex_ref ''_1''],
     SUnfold ''usize'' [ex_loc ''_1''] Write None, SAssert (ge_cmp (ex_val_int ''_1'') (from_const (from_i32 7))) position_default]) =
   Inr [EvVar (local_var_new ''_1'' TInt), EvExpr (ge_cmp (ex_pure ''_1'') (from_const (from_i32 0))),
     EvExpr (ge_cmp (ex_pure ''_1'') (from_const (from_i32 7))), EvVar (local_var_new ''_1'' TInt)]"
  by code_simp

text \<open>A signed integer is assumed to be non-negative where its predicate is unfolded.\<close>

theorem isize_is_unsigned:
  "purified_events (ex_one_block [SUnfold ''isize'' [ex_loc ''_1''] Write None, SAssert (ge_cmp (ex_val_int ''_1'') (from_const (from_i32 0))) position_default]) =
   Inr [EvExpr (ge_cmp (ex_pure ''_1'') (from_const (from_i32 0))),
     EvExpr (ge_cmp (ex_pure ''_1'') (from_const (from_i32 0))), EvVar (local_var_new ''_1'' TInt)]"
  by code_simp

text \<open>
  The old value of the field becomes an old expression of a local variable, which means the current value.
\<close>

theorem old_value_becomes_current:
  "purified_events (ex_one_block [SUnfold ''usize'' [ex_loc ''_1''] Write None, SAssert (ELabelledOld ''pre'' (ex_val_int ''_1'') position_default) position_default]) =
   Inr [EvExpr (ge_cmp (ex_pure ''_1'') (from_const (from_i32 0))),
     EvExpr (ELabelledOld ''pre'' (ex_pure ''_1'') position_default), EvVar (local_var_new ''_1'' TInt)]"
  by code_simp

text \<open>A variable that is only havocked has no replacement.\<close>

theorem only_havocked_panics:
  "purified_events (ex_one_block [SMethodCall ''builtin$havoc_ref'' [] [ex_ref ''_1'']]) = Inl ''key''"
  by code_simp

text \<open>
  The whole body of an unfolding counts as a pure context, so another variable that is mentioned there only
  is taken to be pure although it is not used through \<open>val_int\<close>.
\<close>

theorem variable_in_unfolding_panics:
  "purified_events (ex_one_block [SAssert (EUnfolding ''usize'' [ex_loc ''_1'']
     (EBinOp EqCmp (ex_val_int ''_1'') (EFuncApp ''f'' [ex_loc ''_2''] [] TInt position_default) position_default)
     Write None position_default) position_default]) = Inl ''local_var''"
  by code_simp

text \<open>The guards of the successors are not rewritten and keep the variable with its old type.\<close>

theorem guards_keep_references:
  "case purify_vars ex_config ((ex_one_block [])\<lparr>cm_basic_blocks := [\<lparr>cb_stmts = [],
       cb_successor = SuccGotoSwitch [(ge_cmp (ex_val_int ''_1'') (from_const (from_i32 0)), \<lparr>bi_method_uuid = 7, bi_index = 0\<rparr>)]
         \<lparr>bi_method_uuid = 7, bi_index = 0\<rparr>\<rparr>]\<rparr>) of
     Inl _ \<Rightarrow> False
   | Inr m \<Rightarrow> map (\<lambda>b. successor_guards (cb_successor b)) (cm_basic_blocks m) =
       [[ge_cmp (ex_val_int ''_1'') (from_const (from_i32 0))]] \<and> cm_local_vars m = [local_var_new ''_1'' TInt]"
  by code_simp

end
