(* ===== verification/Opt_Purification.thy ===== *)
theory Opt_Purification
  imports Vir_Predicate Vir_Replace Opt_Methods Fallible
begin

section \<open>Purification of local variables (optimizations/purification/mod.rs)\<close>

text \<open>
  Local variables of type \<open>bool\<close>, \<open>i32\<close>, \<open>usize\<close> and \<open>u32\<close> that are never mentioned without a field access
  become variables of a primitive type.  Sets of names are lists; \<open>todo!\<close>, \<open>unreachable!\<close> and an undefined type
  are panics, with a message.  The text of a replaced havoc call, which prints the targets, and the
  regular expressions behind \<open>replace_place\<close> are arguments.
\<close>

subsection \<open>Candidates\<close>

definition SUPPORTED_TYPES :: "string list" where
  "SUPPORTED_TYPES = [''bool'', ''i32'', ''usize'', ''u32'']"

definition translate_type :: "type \<Rightarrow> string + type" where
  "translate_type ty =
     (case ty of
        TTypedRef name \<Rightarrow>
          (if name \<in> {''i32'', ''usize'', ''u32''} then Inr TInt
           else if name = ''bool'' then Inr TBool else Inl ''not yet implemented'')
      | _ \<Rightarrow> Inr ty)"

definition purifiable_candidates :: "local_var list \<Rightarrow> string list" where
  "purifiable_candidates vars =
     map lv_name (filter (\<lambda>v. case lv_typ v of TTypedRef t \<Rightarrow> t \<in> set SUPPORTED_TYPES | _ \<Rightarrow> False) vars)"

text \<open>
  The walk removes the variables it meets.  Only assignments are walked, and of them only the right-hand side:
  \<open>walk_expr\<close> of the walker of statements keeps its default, which does nothing.
\<close>

function drop_mentioned :: "expr \<Rightarrow> string list \<Rightarrow> string list" where
  "drop_mentioned e vars =
     (case e of
        ELocal v _ \<Rightarrow> filter (\<lambda>n. n \<noteq> lv_name v) vars
      | EField receiver _ _ \<Rightarrow> if is_local receiver then vars else drop_mentioned receiver vars
      | _ \<Rightarrow> default_walk_expr drop_mentioned (\<lambda>_ vars. vars) e vars)"
  by pat_completeness auto
termination by (relation "measure (size \<circ> fst)") (auto simp: children_size)

declare drop_mentioned.simps [simp del]

fun drop_mentioned_stmt :: "stmt \<Rightarrow> string list \<Rightarrow> string list" where
  "drop_mentioned_stmt (SAssign _ e _) vars = drop_mentioned e vars"
| "drop_mentioned_stmt (SPackageMagicWand _ body _ _ _) vars = fold drop_mentioned_stmt body vars"
| "drop_mentioned_stmt (SIf _ t e) vars = fold drop_mentioned_stmt e (fold drop_mentioned_stmt t vars)"
| "drop_mentioned_stmt _ vars = vars"

text \<open>\<open>walk_method\<close> also walks the guards of the successors, as expressions.\<close>

definition purifiable_vars :: "cfg_method \<Rightarrow> string list" where
  "purifiable_vars m =
     walk_successors m (\<lambda>succ. fold drop_mentioned (successor_guards succ))
       (walk_statements m drop_mentioned_stmt (purifiable_candidates (cm_local_vars m)))"

subsection \<open>The purifier\<close>

record purifier =
  pf_targets :: "string list"
  pf_predicates :: "predicate list"
  pf_havoc_text :: "local_var list \<Rightarrow> string"
  pf_regex :: regex_ops

definition find_predicate :: "purifier \<Rightarrow> string \<Rightarrow> expr option" where
  "find_predicate p name =
     (case find (\<lambda>q. case q of PStruct sp \<Rightarrow> sp_name sp = name | _ \<Rightarrow> False) (pf_predicates p) of
        Some (PStruct sp) \<Rightarrow> sp_body sp
      | _ \<Rightarrow> None)"

fun is_target :: "purifier \<Rightarrow> expr \<Rightarrow> bool" where
  "is_target p (ELocal v _) = (lv_name v \<in> set (pf_targets p))"
| "is_target p _ = False"

fun is_target_list :: "purifier \<Rightarrow> expr list \<Rightarrow> bool" where
  "is_target_list p [e] = is_target p e"
| "is_target_list p _ = False"

fun is_target_field :: "purifier \<Rightarrow> expr \<Rightarrow> bool" where
  "is_target_field p (EField a _ _) = is_target p a"
| "is_target_field p _ = False"

definition pure_local :: "local_var \<Rightarrow> position \<Rightarrow> string + expr" where
  "pure_local v pos = bindE (translate_type (lv_typ v)) (\<lambda>ty. Inr (ELocal (local_var_new (lv_name v) ty) pos))"

definition pure_field :: "purifier \<Rightarrow> expr \<Rightarrow> vfield \<Rightarrow> position \<Rightarrow> string + expr" where
  "pure_field p receiver field pos =
     (case receiver of
        ELocal v lpos \<Rightarrow> if is_target p receiver then pure_local v lpos else Inr (EField receiver field pos)
      | _ \<Rightarrow> Inr (EField receiver field pos))"

function purify_expr :: "purifier \<Rightarrow> expr \<Rightarrow> string + expr" where
  "purify_expr p e =
     (case e of
        ELocal v pos \<Rightarrow> if is_target p e then pure_local v pos else Inr e
      | EField receiver field pos \<Rightarrow>
          bindE (purify_expr p receiver) (\<lambda>receiver. pure_field p receiver field pos)
      | EPredicateAccessPredicate name arg perm_amount pos \<Rightarrow>
          (if is_target p arg then Inr (from_bool True) else fallible_fold_children (purify_expr p) e)
      | EFieldAccessPredicate receiver perm_amount pos \<Rightarrow>
          Inr (if is_target_field p receiver then from_bool True else e)
      | EUnfolding name args body perm variant pos \<Rightarrow>
          (if is_target_list p args then purify_expr p body else fallible_fold_children (purify_expr p) e)
      | ELabelledOld label body pos \<Rightarrow>
          bindE (purify_expr p body) (\<lambda>folded_body.
          Inr (if is_heap_dependent folded_body then ELabelledOld label folded_body pos else folded_body))
      | _ \<Rightarrow> fallible_fold_children (purify_expr p) e)"
  by pat_completeness auto
termination by (relation "measure (size \<circ> snd)") (auto simp: children_size)

declare purify_expr.simps [simp del]

subsection \<open>Statements\<close>

definition val_field :: "string \<Rightarrow> string + vfield" where
  "val_field name =
     (if name = ''bool'' then Inr (field_new ''val_bool'' TBool)
      else if name \<in> {''i32'', ''usize'', ''u32''} then Inr (field_new ''val_int'' TInt)
      else Inl ''unreachable'')"

definition purify_assign :: "purifier \<Rightarrow> expr \<Rightarrow> expr \<Rightarrow> assign_kind \<Rightarrow> string + stmt" where
  "purify_assign p target source kind =
     bindE (if is_target p target then
              bindE (unwrapE ''get_type'' (get_type source)) (\<lambda>ty.
              case ty of
                TTypedRef name \<Rightarrow> bindE (val_field name) (\<lambda>f. Inr (expr_field source f))
              | _ \<Rightarrow> Inl ''unreachable'')
            else Inr source) (\<lambda>source.
     bindE (purify_expr p target) (\<lambda>target.
     bindE (purify_expr p source) (\<lambda>source.
     Inr (SAssign target source kind))))"

text \<open>The body of a predicate on the variable, without its permissions.\<close>

definition purified_predicate :: "purifier \<Rightarrow> string \<Rightarrow> expr \<Rightarrow> (string + expr) option" where
  "purified_predicate p name arg =
     (case (arg, find_predicate p name) of
        (ELocal v _, Some body) \<Rightarrow>
          Some (bindE (replace_place (pf_regex p) body (expr_local (local_var_new ''self'' (TTypedRef name))) (expr_local v))
            (\<lambda>e. purify_expr p (purify e)))
      | _ \<Rightarrow> None)"

fun purification_stmt :: "purifier \<Rightarrow> stmt \<Rightarrow> string + stmt" where
  "purification_stmt p (SAssign target source kind) = purify_assign p target source kind"
| "purification_stmt p (SMethodCall name args targets) =
     (if starts_with name ''builtin$havoc'' \<and> length targets = 1 \<and> lv_name (hd targets) \<in> set (pf_targets p)
      then Inr (SComment (pf_havoc_text p targets))
      else bindE (mapE (purify_expr p) args) (\<lambda>args. Inr (SMethodCall name args targets)))"
| "purification_stmt p (SFold name args perm_amount variant pos) =
     (if is_target_list p args then
        (case purified_predicate p name (hd args) of
           Some r \<Rightarrow> bindE r (\<lambda>e. Inr (SAssert e pos))
         | None \<Rightarrow> Inr (SComment ''replaced fold''))
      else bindE (mapE (purify_expr p) args) (\<lambda>args. Inr (SFold name args perm_amount variant pos)))"
| "purification_stmt p (SUnfold name args perm_amount variant) =
     (if is_target_list p args then
        (case purified_predicate p name (hd args) of
           Some r \<Rightarrow> bindE r (\<lambda>e. Inr (SInhale e))
         | None \<Rightarrow> Inr (SComment ''replaced unfold''))
      else bindE (mapE (purify_expr p) args) (\<lambda>args. Inr (SUnfold name args perm_amount variant)))"
| "purification_stmt p (SPackageMagicWand wand body l vars pos) =
     bindE (purify_expr p wand) (\<lambda>wand.
     bindE (mapE (purification_stmt p) body) (\<lambda>body. Inr (SPackageMagicWand wand body l vars pos)))"
| "purification_stmt p (SIf g t e) =
     bindE (purify_expr p g) (\<lambda>g.
     bindE (mapE (purification_stmt p) t) (\<lambda>t.
     bindE (mapE (purification_stmt p) e) (\<lambda>e. Inr (SIf g t e))))"
| "purification_stmt p s = fallible_map_expr (purify_expr p) s"

definition purify_method :: "regex_ops \<Rightarrow> (local_var list \<Rightarrow> string) \<Rightarrow> predicate list \<Rightarrow> cfg_method \<Rightarrow> string + cfg_method" where
  "purify_method rx havoc_text predicates m =
     (let targets = purifiable_vars m in
      bindE (mapE (\<lambda>v. if lv_name v \<in> set targets
                       then bindE (translate_type (lv_typ v)) (\<lambda>ty. Inr (v\<lparr>lv_typ := ty\<rparr>)) else Inr v)
               (cm_local_vars m)) (\<lambda>vars.
      patch_statements (m\<lparr>cm_local_vars := vars\<rparr>)
        (purification_stmt \<lparr>pf_targets = targets, pf_predicates = predicates, pf_havoc_text = havoc_text, pf_regex = rx\<rparr>)))"

definition purify_methods ::
  "regex_ops \<Rightarrow> (local_var list \<Rightarrow> string) \<Rightarrow> predicate list \<Rightarrow> cfg_method list \<Rightarrow> string + cfg_method list" where
  "purify_methods rx havoc_text predicates methods = mapE (purify_method rx havoc_text predicates) methods"

subsection \<open>Methods without candidates\<close>

text \<open>
  Without a target the purifier drops \<open>old\<close> around expressions that do not read the heap, and does nothing else;
  an expression without \<open>old\<close> is kept.
\<close>

definition old_free :: "expr \<Rightarrow> bool" where
  "old_free e \<longleftrightarrow> (\<forall>x \<in> subexprs e. case x of ELabelledOld _ _ _ \<Rightarrow> False | _ \<Rightarrow> True)"

lemma old_free_unfold:
  "old_free e \<longleftrightarrow> (case e of ELabelledOld _ _ _ \<Rightarrow> False | _ \<Rightarrow> True) \<and> (\<forall>c \<in> set (children e). old_free c)"
  unfolding old_free_def by (subst subexprs_unfold) auto

lemma no_target [simp]:
  assumes "pf_targets p = []"
  shows "\<not> is_target p e" "\<not> is_target_list p es" "\<not> is_target_field p e"
proof -
  show t: "\<not> is_target p e" for e using assms by (cases e) auto
  show "\<not> is_target_list p es" using t by (cases "(p, es)" rule: is_target_list.cases) auto
  show "\<not> is_target_field p e" using t by (cases e) auto
qed

lemma purify_expr_no_target:
  assumes "pf_targets p = []" "old_free e"
  shows "purify_expr p e = Inr e"
  using assms(2)
proof (induction e rule: expr_children_induct)
  case (step e)
  have IH: "purify_expr p c = Inr c" if "c \<in> set (children e)" for c
    using step.IH [OF that] step.prems that by (subst (asm) old_free_unfold) blast
  have "mapE (purify_expr p) (children e) = Inr (map (\<lambda>c. c) (children e))"
    by (rule mapE_total) (rule IH)
  then have "fallible_fold_children (purify_expr p) e = Inr e" by (simp add: fallible_fold_children_def)
  then show ?case
    using IH step.prems [unfolded old_free_unfold [of e]] assms(1) unfolding purify_expr.simps [of p e]
    by (cases e) (auto simp: pure_field_def split: expr.splits)
qed

subsection \<open>Examples\<close>

definition ex_i32 :: "string \<Rightarrow> expr" where
  "ex_i32 n = expr_local (local_var_new n (TTypedRef ''i32''))"

definition ex_value :: "string \<Rightarrow> expr" where
  "ex_value n = EField (ex_i32 n) (field_new ''val_int'' TInt) position_default"

definition ex_int :: "string \<Rightarrow> expr" where
  "ex_int n = expr_local (local_var_new n TInt)"

definition ex_purifier :: "regex_ops \<Rightarrow> purifier" where
  "ex_purifier rx = \<lparr>pf_targets = [''_1''], pf_predicates = [], pf_havoc_text = (\<lambda>_. ''text''), pf_regex = rx\<rparr>"

theorem purification_example:
  "case purification_stmt (ex_purifier rx) (SAssign (ex_value ''_1'') (ex_value ''_2'') Copy) of
     Inr s \<Rightarrow> stmt_events s = [EvExpr (ex_int ''_1''), EvExpr (ex_value ''_2'')] | Inl _ \<Rightarrow> False"
  by (simp add: ex_purifier_def purify_assign_def ex_value_def ex_i32_def ex_int_def expr_local_def local_var_new_def
    purify_expr.simps [of _ "EField _ _ _"] purify_expr.simps [of _ "ELocal _ _"] pure_local_def translate_type_def
    pure_field_def)

text \<open>
  The value of a field at a label becomes the variable itself, which is the current value: the \<open>old\<close> is dropped
  because a local variable does not depend on the heap.
\<close>

theorem old_is_dropped:
  "purify_expr (ex_purifier rx) (ELabelledOld ''pre'' (ex_value ''_1'') position_default) = Inr (ex_int ''_1'')"
  by (simp add: ex_purifier_def ex_value_def ex_i32_def ex_int_def expr_local_def local_var_new_def
    purify_expr.simps [of _ "EField _ _ _"] purify_expr.simps [of _ "ELocal _ _"] purify_expr.simps [of _ "ELabelledOld _ _ _"]
    pure_local_def translate_type_def pure_field_def is_heap_dependent_def is_heap_dependent_walk.simps [of "ELocal _ _"]
    default_walk_expr_def)

text \<open>A havoc of a purified variable is replaced by a comment, so the variable keeps its value.\<close>

theorem havoc_is_dropped:
  "purification_stmt (ex_purifier rx) (SMethodCall ''builtin$havoc_int'' [] [local_var_new ''_1'' (TTypedRef ''i32'')]) =
   Inr (SComment ''text'')"
  by (simp add: ex_purifier_def starts_with_def local_var_new_def)

text \<open>
  Only assignments are searched for mentions without a field: a variable that an assertion passes to a function
  is purified all the same, and the argument of the function becomes an integer.
\<close>

theorem mention_in_assertion_is_missed:
  "let call = EFuncApp ''f'' [ex_i32 ''_1''] [local_var_new ''x'' (TTypedRef ''i32'')] TBool position_default;
       m = (cfg_new 7 ''m'' 0 [] [] [])\<lparr>cm_local_vars := [local_var_new ''_1'' (TTypedRef ''i32'')],
         cm_basic_blocks := [\<lparr>cb_stmts = [SAssert call position_default], cb_successor = SuccReturn\<rparr>],
         cm_basic_blocks_labels := [''start'']\<rparr> in
   purifiable_vars m = [''_1''] \<and>
   purify_expr (ex_purifier rx) call =
     Inr (EFuncApp ''f'' [ex_int ''_1''] [local_var_new ''x'' (TTypedRef ''i32'')] TBool position_default)"
  by (simp add: Let_def purifiable_vars_def walk_successors_def walk_statements_def purifiable_candidates_def
    SUPPORTED_TYPES_def ex_purifier_def ex_i32_def ex_int_def expr_local_def local_var_new_def cfg_new_def
    purify_expr.simps [of _ "EFuncApp _ _ _ _ _"] purify_expr.simps [of _ "ELocal _ _"] pure_local_def
    translate_type_def fallible_fold_children_def)

end
