(* ===== verification/Opt_Program.thy ===== *)
theory Opt_Program
  imports Opt_Inliner Opt_Folding Opt_Purifier Opt_Quantifiers Opt_Cfg_Cleaner Opt_Predicates Opt_Purification
begin

section \<open>Programs and the optimization driver (program.rs, optimizations/mod.rs, config.rs)\<close>

text \<open>
  The passes of the other theories are applied in the order of \<open>Program::optimized\<close>, each if the settings
  enable it.  A panic of a pass is a panic of the driver, with a message.  Reading and logging of settings are
  not modelled: their values are arguments.
\<close>

subsection \<open>Which optimizations are enabled\<close>

record optimizations =
  op_inline_constant_functions :: bool
  op_delete_unused_predicates :: bool
  op_optimize_folding :: bool
  op_remove_empty_if :: bool
  op_purify_vars :: bool
  op_fix_quantifiers :: bool
  op_remove_unused_vars :: bool
  op_remove_trivial_assertions :: bool
  op_clean_cfg :: bool

definition all_disabled :: optimizations where
  "all_disabled = \<lparr>op_inline_constant_functions = False, op_delete_unused_predicates = False,
     op_optimize_folding = False, op_remove_empty_if = False, op_purify_vars = False, op_fix_quantifiers = False,
     op_remove_unused_vars = False, op_remove_trivial_assertions = False, op_clean_cfg = False\<rparr>"

definition all_enabled :: optimizations where
  "all_enabled = \<lparr>op_inline_constant_functions = True, op_delete_unused_predicates = True,
     op_optimize_folding = True, op_remove_empty_if = True, op_purify_vars = True, op_fix_quantifiers = True,
     op_remove_unused_vars = True, op_remove_trivial_assertions = True, op_clean_cfg = True\<rparr>"

text \<open>\<open>str::split\<close> at a character, and \<open>str::trim\<close> on ASCII text.\<close>

fun split_at :: "char \<Rightarrow> string \<Rightarrow> string list" where
  "split_at c [] = [[]]"
| "split_at c (x # xs) =
     (if x = c then [] # split_at c xs
      else case split_at c xs of [] \<Rightarrow> [[x]] | w # ws \<Rightarrow> (x # w) # ws)"

definition is_space :: "char \<Rightarrow> bool" where
  "is_space c \<longleftrightarrow> (let n = of_char c :: nat in 9 \<le> n \<and> n \<le> 13 \<or> n = 32)"

definition trim :: "string \<Rightarrow> string" where
  "trim s = rev (dropWhile is_space (rev (dropWhile is_space s)))"

definition enable_optimization :: "string \<Rightarrow> optimizations \<Rightarrow> optimizations" where
  "enable_optimization trimmed opt =
     (if trimmed = ''all'' then all_enabled
      else if trimmed = ''inline_constant_functions'' then opt\<lparr>op_inline_constant_functions := True\<rparr>
      else if trimmed = ''delete_unused_predicates'' then opt\<lparr>op_delete_unused_predicates := True\<rparr>
      else if trimmed = ''optimize_folding'' then opt\<lparr>op_optimize_folding := True\<rparr>
      else if trimmed = ''remove_empty_if'' then opt\<lparr>op_remove_empty_if := True\<rparr>
      else if trimmed = ''purify_vars'' then opt\<lparr>op_purify_vars := True\<rparr>
      else if trimmed = ''fix_quantifiers'' then opt\<lparr>op_fix_quantifiers := True\<rparr>
      else if trimmed = ''remove_unused_vars'' then opt\<lparr>op_remove_unused_vars := True\<rparr>
      else if trimmed = ''remove_trivial_assertions'' then opt\<lparr>op_remove_trivial_assertions := True\<rparr>
      else if trimmed = ''clean_cfg'' then opt\<lparr>op_clean_cfg := True\<rparr>
      else opt)"

definition read_optimizations :: "string \<Rightarrow> optimizations" where
  "read_optimizations setting = fold (enable_optimization \<circ> trim) (split_at (CHR '','') setting) all_disabled"

text \<open>Whether the optimization of a given name is enabled.\<close>

definition is_enabled :: "optimizations \<Rightarrow> string \<Rightarrow> bool" where
  "is_enabled opt n =
     (if n = ''inline_constant_functions'' then op_inline_constant_functions opt
      else if n = ''delete_unused_predicates'' then op_delete_unused_predicates opt
      else if n = ''optimize_folding'' then op_optimize_folding opt
      else if n = ''remove_empty_if'' then op_remove_empty_if opt
      else if n = ''purify_vars'' then op_purify_vars opt
      else if n = ''fix_quantifiers'' then op_fix_quantifiers opt
      else if n = ''remove_unused_vars'' then op_remove_unused_vars opt
      else if n = ''remove_trivial_assertions'' then op_remove_trivial_assertions opt
      else n = ''clean_cfg'' \<and> op_clean_cfg opt)"

lemma is_enabled_none: "\<not> is_enabled all_disabled n"
  by (simp add: is_enabled_def all_disabled_def)

lemma is_enabled_all: "is_enabled opt n \<Longrightarrow> is_enabled all_enabled n"
  unfolding is_enabled_def all_enabled_def optimizations.simps by presburger

lemma is_enabled_other: "n \<noteq> m \<Longrightarrow> n \<noteq> ''all'' \<Longrightarrow> is_enabled (enable_optimization n opt) m = is_enabled opt m"
  unfolding enable_optimization_def by (simp add: is_enabled_def) (intro impI conjI; simp)

lemma is_enabled_self: "n \<noteq> ''all'' \<Longrightarrow> is_enabled (enable_optimization n opt) n = is_enabled all_enabled n"
  unfolding enable_optimization_def by (simp add: is_enabled_def all_enabled_def)

lemma is_enabled_enable:
  "is_enabled (enable_optimization n opt) m \<longleftrightarrow> is_enabled opt m \<or> is_enabled all_enabled m \<and> (n = m \<or> n = ''all'')"
proof (cases "n = ''all''")
  case True
  then have "enable_optimization n opt = all_enabled" by (simp add: enable_optimization_def)
  then show ?thesis using True is_enabled_all [of opt m] by auto
next
  case False
  then show ?thesis
    using is_enabled_other [of n m opt] is_enabled_self [of n opt] is_enabled_all [of opt m] by (cases "n = m") auto
qed

text \<open>
  Reading the setting is exact: an optimization is enabled if and only if its name or \<open>all\<close> is one of the
  items of the comma-separated list, whatever the order, the spaces and the unknown names in the list.
\<close>

theorem read_optimizations_exact:
  "is_enabled (read_optimizations setting) n \<longleftrightarrow>
     is_enabled all_enabled n \<and>
     (n \<in> set (map trim (split_at (CHR '','') setting)) \<or> ''all'' \<in> set (map trim (split_at (CHR '','') setting)))"
proof -
  have "is_enabled (fold enable_optimization ns opt) n \<longleftrightarrow>
      is_enabled opt n \<or> is_enabled all_enabled n \<and> (n \<in> set ns \<or> ''all'' \<in> set ns)" for ns opt
    by (induction ns arbitrary: opt) (auto simp: is_enabled_enable)
  then show ?thesis by (simp add: read_optimizations_def fold_map [symmetric] is_enabled_none del: set_map)
qed

subsection \<open>Programs\<close>

record domain_axiom =
  da_name :: string
  da_expr :: expr
  da_domain_name :: string

record vdomain =
  dm_name :: string
  dm_functions :: "domain_func list"
  dm_axioms :: "domain_axiom list"
  dm_type_vars :: "type list"

record bodyless_method =
  bm_name :: string
  bm_formal_args :: "local_var list"
  bm_formal_returns :: "local_var list"

record vprogram =
  pg_domains :: "vdomain list"
  pg_fields :: "vfield list"
  pg_builtin_methods :: "bodyless_method list"
  pg_methods :: "cfg_method list"
  pg_functions :: "vfunction list"
  pg_viper_predicates :: "predicate list"

subsection \<open>The driver\<close>

record driver_config =
  dc_optimizations :: optimizations
  dc_purifier :: purifier_config
  dc_enable_purification :: bool
  dc_regex :: regex_ops
  dc_havoc_text :: "local_var list \<Rightarrow> string"

definition no_abort :: "optimizer_error + 'a \<Rightarrow> string + 'a" where
  "no_abort r = map_sum (\<lambda>_. ''folding'') id r"

definition apply_if :: "bool \<Rightarrow> ('a \<Rightarrow> string + 'a) \<Rightarrow> 'a \<Rightarrow> string + 'a" where
  "apply_if enabled f x = (if enabled then f x else Inr x)"

definition optimize_method_encoding :: "driver_config \<Rightarrow> cfg_method \<Rightarrow> string + cfg_method" where
  "optimize_method_encoding dc cfg =
     (let opt = dc_optimizations dc in
      bindE (apply_if (op_purify_vars opt) (purify_vars (dc_purifier dc)) cfg) (\<lambda>cfg.
      bindE (apply_if (op_fix_quantifiers opt) fix_quantifiers cfg) (\<lambda>cfg.
      bindE (apply_if (op_remove_empty_if opt) (\<lambda>m. Inr (remove_empty_if m)) cfg) (\<lambda>cfg.
      bindE (apply_if (op_remove_unused_vars opt) remove_unused_vars cfg) (\<lambda>cfg.
      bindE (apply_if (op_remove_trivial_assertions opt) (\<lambda>m. Inr (remove_trivial_assertions m)) cfg) (\<lambda>cfg.
      apply_if (op_clean_cfg opt) (\<lambda>m. unwrapE ''clean_cfg'' (clean_cfg m)) cfg))))))"

definition inline_program :: "vprogram \<Rightarrow> vprogram" where
  "inline_program p =
     (case inline_constant_functions (pg_methods p) (pg_functions p) of
        (methods, functions) \<Rightarrow> p\<lparr>pg_methods := methods, pg_functions := functions\<rparr>)"

definition fold_program :: "vprogram \<Rightarrow> string + vprogram" where
  "fold_program p =
     bindE (no_abort (mapE optimize_method (pg_methods p))) (\<lambda>methods.
     bindE (no_abort (mapE optimize_function (pg_functions p))) (\<lambda>functions.
     Inr (p\<lparr>pg_methods := methods, pg_functions := functions\<rparr>)))"

definition methods_program :: "driver_config \<Rightarrow> vprogram \<Rightarrow> string + vprogram" where
  "methods_program dc p =
     bindE (mapE (optimize_method_encoding dc) (pg_methods p)) (\<lambda>methods. Inr (p\<lparr>pg_methods := methods\<rparr>))"

definition delete_program :: "vprogram \<Rightarrow> string + vprogram" where
  "delete_program p =
     Inr (p\<lparr>pg_viper_predicates := delete_unused_predicates (pg_methods p) (pg_functions p) (pg_viper_predicates p)\<rparr>)"

definition purify_program :: "driver_config \<Rightarrow> vprogram \<Rightarrow> string + vprogram" where
  "purify_program dc p =
     bindE (purify_methods (dc_regex dc) (dc_havoc_text dc) (pg_viper_predicates p) (pg_methods p)) (\<lambda>methods.
     Inr (p\<lparr>pg_methods := methods\<rparr>))"

definition optimized :: "driver_config \<Rightarrow> vprogram \<Rightarrow> string + vprogram" where
  "optimized dc p =
     (let opt = dc_optimizations dc in
      bindE (apply_if (op_inline_constant_functions opt) (\<lambda>p. Inr (inline_program p)) p) (\<lambda>p.
      bindE (apply_if (op_optimize_folding opt) fold_program p) (\<lambda>p.
      bindE (methods_program dc p) (\<lambda>p.
      bindE (apply_if (op_delete_unused_predicates opt) delete_program p) (\<lambda>p.
      apply_if (dc_enable_purification dc) (purify_program dc) p)))))"

lemma apply_if_Inr [fallible_simps]: "apply_if b f x = Inr y \<longleftrightarrow> (if b then f x = Inr y else y = x)"
  by (auto simp: apply_if_def)

lemma no_abort_Inr [fallible_simps]: "no_abort r = Inr y \<longleftrightarrow> r = Inr y"
  by (cases r) (auto simp: no_abort_def)

lemma mapE_length: "mapE f xs = Inr ys \<Longrightarrow> length ys = length xs"
  by (induction xs arbitrary: ys) (auto split: sum.splits)

text \<open>
  What no optimization changes: the domains, the fields and the builtin methods, and how many methods there are.
\<close>

definition same_frame :: "vprogram \<Rightarrow> vprogram \<Rightarrow> bool" where
  "same_frame p q \<longleftrightarrow> pg_domains q = pg_domains p \<and> pg_fields q = pg_fields p \<and>
     pg_builtin_methods q = pg_builtin_methods p \<and> length (pg_methods q) = length (pg_methods p)"

lemma same_frame_trans [trans]: "same_frame p q \<Longrightarrow> same_frame q r \<Longrightarrow> same_frame p r"
  by (simp add: same_frame_def)

lemma apply_if_frame: "apply_if b f p = Inr q \<Longrightarrow> (\<And>q. f p = Inr q \<Longrightarrow> same_frame p q) \<Longrightarrow> same_frame p q"
  by (auto simp: apply_if_def same_frame_def split: if_splits)

lemma steps_frame:
  "same_frame p (inline_program p)"
  "fold_program p = Inr q \<Longrightarrow> same_frame p q"
  "methods_program dc p = Inr q \<Longrightarrow> same_frame p q"
  "delete_program p = Inr q \<Longrightarrow> same_frame p q"
  "purify_program dc p = Inr q \<Longrightarrow> same_frame p q"
  by (auto simp: same_frame_def inline_program_def inline_constant_functions_def fold_program_def methods_program_def
    delete_program_def purify_program_def purify_methods_def fallible_simps dest!: mapE_length split: prod.splits)

theorem optimized_frame:
  assumes "optimized dc p = Inr p'"
  shows "same_frame p p'"
proof -
  let ?o = "dc_optimizations dc"
  from assms [unfolded optimized_def Let_def bindE_Inr_iff] obtain p1 p2 p3 p4 where
      1: "apply_if (op_inline_constant_functions ?o) (\<lambda>p. Inr (inline_program p)) p = Inr p1"
    and 2: "apply_if (op_optimize_folding ?o) fold_program p1 = Inr p2" and 3: "methods_program dc p2 = Inr p3"
    and 4: "apply_if (op_delete_unused_predicates ?o) delete_program p3 = Inr p4"
    and 5: "apply_if (dc_enable_purification dc) (purify_program dc) p4 = Inr p'"
    by (elim exE conjE)
  have "same_frame p p1" by (rule apply_if_frame [OF 1]) (use steps_frame(1) in auto)
  also have "same_frame p1 p2" by (rule apply_if_frame [OF 2]) (rule steps_frame(2))
  also have "same_frame p2 p3" by (rule steps_frame(3) [OF 3])
  also have "same_frame p3 p4" by (rule apply_if_frame [OF 4]) (rule steps_frame(4))
  also have "same_frame p4 p'" by (rule apply_if_frame [OF 5]) (rule steps_frame(5))
  finally show ?thesis .
qed

end
