(* ===== verification/Vir_Fixes.thy ===== *)
theory Vir_Fixes
  imports Vir_Cfg Fallible Opt_Methods
begin

section \<open>Ghost variables of package statements (fixes/ghost_vars.rs)\<close>

text \<open>
  The variables declared by a package statement are renamed with the number of the statement, so that those of
  different statements are different.  The counter is a \<open>u32\<close> that wraps around in release builds; the set of
  variables is a list.
\<close>

record ghost_var_fixer =
  gv_package_stmt_count :: "32 word"
  gv_vars :: "local_var list option"

definition package_suffix :: "32 word \<Rightarrow> string" where
  "package_suffix n = ''$p'' @ int_to_string (uint n)"

definition fix_name :: "ghost_var_fixer \<Rightarrow> local_var \<Rightarrow> local_var" where
  "fix_name self v = v\<lparr>lv_name := lv_name v @ package_suffix (gv_package_stmt_count self)\<rparr>"

function fix_locals :: "ghost_var_fixer \<Rightarrow> expr \<Rightarrow> expr" where
  "fix_locals self e =
     (case e of
        ELocal v pos \<Rightarrow>
          (case gv_vars self of
             Some vars \<Rightarrow> if var_member vars v then ELocal (fix_name self v) pos else e
           | None \<Rightarrow> e)
      | _ \<Rightarrow> fold_children (fix_locals self) e)"
  by pat_completeness auto
termination by (relation "measure (size \<circ> snd)") (auto simp: children_size)

declare fix_locals.simps [simp del]

fun fix_ghost_stmt :: "stmt \<Rightarrow> ghost_var_fixer \<Rightarrow> string + stmt \<times> ghost_var_fixer" where
  "fix_ghost_stmt (SPackageMagicWand wand body label vars pos) self =
     (let wand = fix_locals self wand in
      bindE (mapR fix_ghost_stmt body (self\<lparr>gv_vars := Some (hs_collect local_var_eq vars)\<rparr>)) (\<lambda>(body, self).
      bindE (unwrapE ''called Option::unwrap() on a None value'' (gv_vars self)) (\<lambda>unfixed_vars.
      Inr (SPackageMagicWand wand body label (map (fix_name self) unfixed_vars) pos,
           self\<lparr>gv_vars := None, gv_package_stmt_count := gv_package_stmt_count self + 1\<rparr>))))"
| "fix_ghost_stmt (SIf g t e) self =
     (let g = fix_locals self g in
      bindE (mapR fix_ghost_stmt t self) (\<lambda>(t, self).
      bindE (mapR fix_ghost_stmt e self) (\<lambda>(e, self). Inr (SIf g t e, self))))"
| "fix_ghost_stmt s self = Inr (map_expr (fix_locals self) s, self)"

definition fix_ghost_block :: "cfg_block \<Rightarrow> ghost_var_fixer \<Rightarrow> string + cfg_block \<times> ghost_var_fixer" where
  "fix_ghost_block b self =
     bindE (mapR fix_ghost_stmt (cb_stmts b) self) (\<lambda>(ss, self). Inr (b\<lparr>cb_stmts := ss\<rparr>, self))"

definition fix_ghost_vars :: "cfg_method \<Rightarrow> string + cfg_method" where
  "fix_ghost_vars m =
     bindE (mapR fix_ghost_block (cm_basic_blocks m) \<lparr>gv_package_stmt_count = 0, gv_vars = None\<rparr>) (\<lambda>(bs, _).
     Inr (m\<lparr>cm_basic_blocks := bs\<rparr>))"

subsection \<open>The variables of different package statements differ\<close>

text \<open>The variables declared by each package statement, in the order of the statements.\<close>

fun package_vars :: "stmt \<Rightarrow> local_var list list" where
  "package_vars (SPackageMagicWand _ body _ vars _) = concat (map package_vars body) @ [vars]"
| "package_vars (SIf _ t e) = concat (map package_vars t) @ concat (map package_vars e)"
| "package_vars _ = []"

definition numbered :: "32 word \<Rightarrow> local_var list list \<Rightarrow> bool" where
  "numbered n dss \<longleftrightarrow>
     (\<forall>i < length dss. \<forall>v \<in> set (dss ! i). \<exists>b. lv_name v = b @ package_suffix (n + of_nat i))"

lemma numbered_Nil [simp]: "numbered n []"
  by (simp add: numbered_def)

lemma numbered_append: "numbered n (xs @ ys) \<longleftrightarrow> numbered n xs \<and> numbered (n + of_nat (length xs)) ys"
proof
  assume n: "numbered n (xs @ ys)"
  have "\<exists>b. lv_name v = b @ package_suffix (n + of_nat (length xs) + of_nat i)"
    if "i < length ys" "v \<in> set (ys ! i)" for i v
    using n [unfolded numbered_def, rule_format, of "length xs + i" v] that by (simp add: add.assoc)
  moreover have "\<exists>b. lv_name v = b @ package_suffix (n + of_nat i)" if "i < length xs" "v \<in> set (xs ! i)" for i v
    using n [unfolded numbered_def, rule_format, of i v] that by (simp add: nth_append)
  ultimately show "numbered n xs \<and> numbered (n + of_nat (length xs)) ys" by (auto simp: numbered_def)
next
  assume n: "numbered n xs \<and> numbered (n + of_nat (length xs)) ys"
  show "numbered n (xs @ ys)" unfolding numbered_def
  proof (intro allI impI ballI)
    fix i v assume i: "i < length (xs @ ys)" "v \<in> set ((xs @ ys) ! i)"
    show "\<exists>b. lv_name v = b @ package_suffix (n + of_nat i)"
    proof (cases "i < length xs")
      case True
      then show ?thesis using n i by (auto simp: numbered_def nth_append)
    next
      case False
      then have "\<exists>b. lv_name v = b @ package_suffix (n + of_nat (length xs) + of_nat (i - length xs))"
        using n [THEN conjunct2, unfolded numbered_def, rule_format, of "i - length xs" v] i by (simp add: nth_append)
      moreover have "(of_nat (length xs) :: 32 word) + of_nat (i - length xs) = of_nat i"
        using False by (simp flip: of_nat_add)
      ultimately show ?thesis by (simp add: add.assoc)
    qed
  qed
qed

text \<open>What a run does: it numbers the packages in order, and it forgets the variables of an enclosing package.\<close>

definition ghost_run :: "ghost_var_fixer \<Rightarrow> local_var list list \<Rightarrow> ghost_var_fixer \<Rightarrow> bool" where
  "ghost_run self dss self' \<longleftrightarrow>
     numbered (gv_package_stmt_count self) dss \<and>
     gv_package_stmt_count self' = gv_package_stmt_count self + of_nat (length dss) \<and>
     gv_vars self' = (if dss = [] then gv_vars self else None)"

lemma ghost_run_append: "ghost_run a xs b \<Longrightarrow> ghost_run b ys c \<Longrightarrow> ghost_run a (xs @ ys) c"
  by (auto simp: ghost_run_def numbered_append)

lemma ghost_run_Some:
  "ghost_run a ds b \<Longrightarrow> gv_vars b = Some vs \<Longrightarrow> ds = [] \<and> gv_package_stmt_count b = gv_package_stmt_count a"
  by (cases ds) (auto simp: ghost_run_def)

lemma ghost_run_map:
  assumes "\<And>x u y v. x \<in> set xs \<Longrightarrow> f x u = Inr (y, v) \<Longrightarrow> ghost_run u (p y) v"
  shows "mapR f xs a = Inr (ys, b) \<Longrightarrow> ghost_run a (concat (map p ys)) b"
  using assms
proof (induction xs arbitrary: a ys)
  case (Cons x xs)
  from Cons.prems(1) obtain y u zs where y: "f x a = Inr (y, u)" "mapR f xs u = Inr (zs, b)" "ys = y # zs"
    by (auto split: sum.splits)
  have "ghost_run u (concat (map p zs)) b" by (rule Cons.IH [OF y(2)]) (rule Cons.prems(2), auto)
  then show ?case using ghost_run_append [OF Cons.prems(2) [OF _ y(1)]] y(3) by simp
qed (simp add: ghost_run_def)

lemma package_vars_map_expr: "\<not> (\<exists>w b l vs p. s = SPackageMagicWand w b l vs p) \<Longrightarrow> \<not> (\<exists>g t e. s = SIf g t e) \<Longrightarrow>
    package_vars (map_expr f s) = []"
  by (cases s) auto

lemma fix_ghost_stmt_run: "fix_ghost_stmt s self = Inr (s', self') \<Longrightarrow> ghost_run self (package_vars s') self'"
proof (induction s arbitrary: self s' self' rule: measure_induct_rule [of size])
  case (less s)
  consider (package) wand body label vars pos where "s = SPackageMagicWand wand body label vars pos"
    | (cond) g t e where "s = SIf g t e"
    | (other) "\<not> (\<exists>w b l vs p. s = SPackageMagicWand w b l vs p)" "\<not> (\<exists>g t e. s = SIf g t e)" by blast
  then show ?case
  proof cases
    case package
    from less.prems obtain body' st vs where run:
        "mapR fix_ghost_stmt body (self\<lparr>gv_vars := Some (hs_collect local_var_eq vars)\<rparr>) = Inr (body', st)"
        "gv_vars st = Some vs" "package_vars s' = concat (map package_vars body') @ [map (fix_name st) vs]"
        "self' = st\<lparr>gv_vars := None, gv_package_stmt_count := gv_package_stmt_count st + 1\<rparr>"
      unfolding package by (auto simp: Let_def fallible_simps)
    have "ghost_run (self\<lparr>gv_vars := Some (hs_collect local_var_eq vars)\<rparr>) (concat (map package_vars body')) st"
      using run(1) by (rule ghost_run_map [rotated]) (rule less.IH, auto simp: package less_Suc_eq_le size_list_estimation' [OF _ order_refl])
    from ghost_run_Some [OF this run(2)]
    have "package_vars s' = [map (fix_name st) vs]" "gv_package_stmt_count st = gv_package_stmt_count self"
      unfolding run(3) by auto
    then show ?thesis using run(4) by (auto simp: ghost_run_def numbered_def fix_name_def)
  next
    case cond
    from less.prems obtain t' st e' where run: "mapR fix_ghost_stmt t self = Inr (t', st)"
        "mapR fix_ghost_stmt e st = Inr (e', self')" "s' = SIf (fix_locals self g) t' e'"
      unfolding cond by (auto simp: Let_def fallible_simps)
    have "ghost_run self (concat (map package_vars t')) st" using run(1)
      by (rule ghost_run_map [rotated]) (rule less.IH, auto simp: cond less_Suc_eq_le intro: trans_le_add1 size_list_estimation' [OF _ order_refl])
    moreover have "ghost_run st (concat (map package_vars e')) self'" using run(2)
      by (rule ghost_run_map [rotated]) (rule less.IH, auto simp: cond less_Suc_eq_le intro: trans_le_add2 size_list_estimation' [OF _ order_refl])
    ultimately show ?thesis using run(3) ghost_run_append by simp
  next
    case other
    then have "fix_ghost_stmt s self = Inr (map_expr (fix_locals self) s, self)" by (cases s) auto
    then show ?thesis using less.prems package_vars_map_expr [OF other] by (auto simp: ghost_run_def)
  qed
qed

lemma digits_no_dollar: "c \<in> set (nat_to_string n) \<Longrightarrow> c \<noteq> CHR ''$''"
proof (induction n rule: nat_to_string.induct)
  case (1 n)
  have "digit_char d \<noteq> CHR ''$''" if "d < 10" for d
  proof
    assume "digit_char d = CHR ''$''"
    then have "of_char (digit_char d) = (of_char (CHR ''$'') :: nat)" by simp
    then show False using that of_char_digit_char [of d] by simp
  qed
  then have "CHR ''$'' \<noteq> digit_char (n mod 10)" "n < 10 \<Longrightarrow> CHR ''$'' \<noteq> digit_char n" by (metis mod_less_divisor zero_less_numeral)+
  then show ?case using 1 by (subst (asm) nat_to_string.simps) (auto split: if_splits)
qed

lemma package_suffix_inj:
  assumes "b @ package_suffix m = c @ package_suffix n"
  shows "m = n"
proof -
  have tw: "takeWhile (\<lambda>x. x \<noteq> CHR ''$'') (rev (b @ package_suffix k)) = rev (int_to_string (uint k)) @ ''p''" for b k
  proof -
    have "\<forall>x \<in> set (rev (int_to_string (uint k)) @ ''p''). x \<noteq> CHR ''$''"
      using digits_no_dollar by (auto simp: int_to_string_def)
    then have "takeWhile (\<lambda>x. x \<noteq> CHR ''$'') ((rev (int_to_string (uint k)) @ ''p'') @ CHR ''$'' # rev b) =
        rev (int_to_string (uint k)) @ ''p''" by (subst takeWhile_append2) auto
    then show ?thesis by (simp add: package_suffix_def)
  qed
  have "rev (int_to_string (uint m)) @ ''p'' = rev (int_to_string (uint n)) @ ''p''"
    using tw [of b m] tw [of c n] assms by simp
  then show ?thesis by (auto dest!: int_to_string_inj intro: word_uint_eqI)
qed

definition method_package_vars :: "cfg_method \<Rightarrow> local_var list list" where
  "method_package_vars m = concat (map package_vars (method_stmts m))"

lemma fix_ghost_vars_numbered:
  assumes "fix_ghost_vars m = Inr m'"
  shows "numbered 0 (method_package_vars m')"
proof -
  obtain bs st where bs: "mapR fix_ghost_block (cm_basic_blocks m) \<lparr>gv_package_stmt_count = 0, gv_vars = None\<rparr> = Inr (bs, st)"
      "m' = m\<lparr>cm_basic_blocks := bs\<rparr>"
    using assms by (auto simp: fix_ghost_vars_def fallible_simps)
  have run: "ghost_run \<lparr>gv_package_stmt_count = 0, gv_vars = None\<rparr> (concat (map (\<lambda>b. concat (map package_vars (cb_stmts b))) bs)) st"
  proof (rule ghost_run_map [OF _ bs(1)])
    fix x u y v assume "fix_ghost_block x u = Inr (y, v)"
    then obtain ss where "mapR fix_ghost_stmt (cb_stmts x) u = Inr (ss, v)" "y = x\<lparr>cb_stmts := ss\<rparr>"
      by (auto simp: fix_ghost_block_def fallible_simps)
    then show "ghost_run u (concat (map package_vars (cb_stmts y))) v"
      using ghost_run_map [of "cb_stmts x" fix_ghost_stmt package_vars u ss v] fix_ghost_stmt_run by auto
  qed
  have eq: "concat (map (\<lambda>b. concat (map package_vars (cb_stmts b))) cs) = concat (map package_vars (concat (map cb_stmts cs)))" for cs
    by (induction cs) auto
  have "numbered 0 (concat (map package_vars (concat (map cb_stmts bs))))"
    unfolding eq [symmetric] using run by (simp add: ghost_run_def)
  then show ?thesis using bs(2) by (simp add: method_package_vars_def method_stmts_def)
qed

text \<open>
  C17 After \<open>fix_ghost_vars\<close>, no variable is declared by two package statements of the method, as long as there
  are fewer package statements than the counter can count.
\<close>

theorem fix_ghost_vars_unique:
  assumes "fix_ghost_vars m = Inr m'" "length (method_package_vars m') < 2 ^ 32"
    and "i < length (method_package_vars m')" "j < length (method_package_vars m')"
    and "v \<in> set (method_package_vars m' ! i)" "w \<in> set (method_package_vars m' ! j)" "lv_name v = lv_name w"
  shows "i = j"
proof -
  have n: "numbered 0 (method_package_vars m')" using assms(1) by (rule fix_ghost_vars_numbered)
  obtain b c where "lv_name v = b @ package_suffix (of_nat i)" "lv_name w = c @ package_suffix (of_nat j)"
    using n [unfolded numbered_def] assms(3-6) by fastforce
  then have "(of_nat i :: 32 word) = of_nat j" using package_suffix_inj assms(7) by metis
  then show ?thesis using assms(2-4) by (simp add: word_of_nat_eq_iff take_bit_nat_eq_self)
qed

subsection \<open>Examples\<close>

definition ex_ghost :: local_var where
  "ex_ghost = local_var_new ''g'' TInt"

definition ex_wand :: expr where
  "ex_wand = EMagicWand (from_bool True) (from_bool True) None position_default"

definition ex_package :: "stmt list \<Rightarrow> stmt" where
  "ex_package body = SPackageMagicWand ex_wand body ''lhs'' [ex_ghost] position_default"

definition ex_packages :: "stmt list \<Rightarrow> cfg_method" where
  "ex_packages ss = (cfg_new 7 ''m'' 0 [] [] [])\<lparr>
     cm_basic_blocks := [\<lparr>cb_stmts = ss, cb_successor = SuccReturn\<rparr>], cm_basic_blocks_labels := [''start'']\<rparr>"

definition ex_assign :: stmt where
  "ex_assign = SAssign (expr_local ex_ghost) (from_const (CInt 1)) Ghost"

definition ex_renamed :: cfg_method where
  "ex_renamed = (case fix_ghost_vars (ex_packages [ex_package [ex_assign], ex_package [ex_assign]]) of
     Inr m \<Rightarrow> m | Inl _ \<Rightarrow> ex_packages [])"

lemma ex_renamed_run:
  "(case fix_ghost_vars (ex_packages [ex_package [ex_assign], ex_package [ex_assign]]) of Inr _ \<Rightarrow> True | Inl _ \<Rightarrow> False)"
  "method_package_vars ex_renamed = [[local_var_new ''g$p0'' TInt], [local_var_new ''g$p1'' TInt]]"
  by code_simp+

theorem fix_ghost_vars_unique_witness:
  "lv_name (method_package_vars ex_renamed ! 0 ! 0) = ''g$p0'' \<and> lv_name (method_package_vars ex_renamed ! 1 ! 0) = ''g$p1'' \<and>
   lv_name (method_package_vars ex_renamed ! 0 ! 0) \<noteq> lv_name (method_package_vars ex_renamed ! 1 ! 0)"
proof -
  have "fix_ghost_vars (ex_packages [ex_package [ex_assign], ex_package [ex_assign]]) = Inr ex_renamed"
    using ex_renamed_run(1) by (auto simp: ex_renamed_def split: sum.splits)
  then have "\<not> lv_name (method_package_vars ex_renamed ! 0 ! 0) = lv_name (method_package_vars ex_renamed ! 1 ! 0)"
    using fix_ghost_vars_unique [of "ex_packages [ex_package [ex_assign], ex_package [ex_assign]]" ex_renamed 0 1
        "method_package_vars ex_renamed ! 0 ! 0" "method_package_vars ex_renamed ! 1 ! 0"]
    by (auto simp: ex_renamed_run(2))
  then show ?thesis by (simp add: ex_renamed_run(2) local_var_new_def)
qed

text \<open>The targets of method calls are not expressions: a ghost variable assigned by a call keeps its old name.\<close>

theorem fix_ghost_vars_skips_targets:
  "(case fix_ghost_vars (ex_packages [ex_package [SMethodCall ''havoc'' [] [ex_ghost]]]) of
      Inr m \<Rightarrow> (map (map lv_name) (method_package_vars m), concat (map stmt_events (method_stmts m)))
    | Inl _ \<Rightarrow> ([], [])) =
   ([[''g$p0'']], [EvExpr ex_wand, EvVar (local_var_new ''g$p0'' TInt), EvVar ex_ghost])"
  by code_simp

text \<open>A package statement inside another one makes the outer one panic.\<close>

theorem fix_ghost_vars_nested_panics:
  "(case fix_ghost_vars (ex_packages [ex_package [ex_package []]]) of Inl err \<Rightarrow> err | Inr _ \<Rightarrow> '''') =
   ''called Option::unwrap() on a None value''"
  by code_simp

end
