(* ===== verification/Vir_Typing.thy ===== *)
theory Vir_Typing
  imports Vir_Function
begin

section \<open>Types of expressions\<close>

text \<open>
  What \<open>get_type\<close> promises: a defined value of the expression has the kind of the type it answers.  The
  promise does not hold for let expressions, whose type is that of the bound variable, and for snapshots,
  whose type is that of the reference.
\<close>

function let_snap_free :: "expr \<Rightarrow> bool" where
  "let_snap_free e =
     ((case e of ELetExpr _ _ _ _ \<Rightarrow> False | ESnapApp _ _ \<Rightarrow> False | _ \<Rightarrow> True) \<and> list_all let_snap_free (children e))"
  by pat_completeness auto
termination by (relation "measure size") (auto simp: children_size)

declare let_snap_free.simps [simp del]

lemma let_snap_free_parts [simp]:
  "let_snap_free (ELabelledOld lb b p) = let_snap_free b"
  "let_snap_free (EUnfolding n as b q w p) = (list_all let_snap_free as \<and> let_snap_free b)"
  "let_snap_free (EUnaryOp uop b p) = let_snap_free b"
  "let_snap_free (EBinOp bop x y p) = (let_snap_free x \<and> let_snap_free y)"
  "let_snap_free (ECond g x y p) = (let_snap_free g \<and> let_snap_free x \<and> let_snap_free y)"
  "let_snap_free (EDowncast b pl f) = (let_snap_free b \<and> let_snap_free pl)"
  "\<not> let_snap_free (ELetExpr v d b p)" "\<not> let_snap_free (ESnapApp b p)"
  by (auto simp: let_snap_free.simps [of "ELabelledOld _ _ _"] let_snap_free.simps [of "EUnfolding _ _ _ _ _ _"]
    let_snap_free.simps [of "EUnaryOp _ _ _"] let_snap_free.simps [of "EBinOp _ _ _ _"]
    let_snap_free.simps [of "ECond _ _ _ _"] let_snap_free.simps [of "EDowncast _ _ _"]
    let_snap_free.simps [of "ELetExpr _ _ _ _"] let_snap_free.simps [of "ESnapApp _ _"])

lemma quant_kind: "all_val vs F = Some v \<Longrightarrow> val_kind v = KBool" "ex_val vs F = Some v \<Longrightarrow> val_kind v = KBool"
  by (auto simp: all_val_def ex_val_def split: if_splits)

lemma strict_bin_kind:
  "strict_bin bop x y = Some v \<Longrightarrow> val_kind v = (if bop \<in> {OpAdd, OpSub, OpMul, OpDiv, OpMod} then val_kind x else KBool)"
  by (cases bop; cases x; cases y) (auto simp: strict_bin_def int_bin_def split: if_splits)

text \<open>
  C13 \<open>get_type\<close> is sound: if it answers a type for an expression without let and snapshot, and the expression
  has a value, then the value has the kind of that type.
\<close>

theorem get_type_sound:
  assumes "let_snap_free e" "get_type e = Some t" "eval I l \<rho> e = Some v"
  shows "val_kind v = type_kind t"
  using assms
proof (induction e arbitrary: l \<rho> v t)
  case (EConst c p)
  then show ?case by (cases c) auto
next
  case (EUnaryOp uop a p)
  from EUnaryOp.prems(3) obtain x where x: "eval I l \<rho> a = Some x" "val_kind v = val_kind x"
    by (auto simp: un_val_Some)
  show ?case using EUnaryOp.IH [OF _ _ x(1)] EUnaryOp.prems x(2) by simp
next
  case (EBinOp bop a b p)
  show ?case
  proof (cases "bop \<in> {OpAnd, OpOr, OpImplies}")
    case True
    then show ?thesis using EBinOp.prems by (auto simp: bin_val_logic short_Some)
  next
    case False
    then obtain x y where xy: "eval I l \<rho> a = Some x" "strict_bin bop x y = Some v"
      using EBinOp.prems(3) by (auto simp: bin_val_strict split: option.splits)
    show ?thesis
    proof (cases "bop \<in> {OpAdd, OpSub, OpMul, OpDiv, OpMod}")
      case True
      then have "get_type a = Some t" using EBinOp.prems(2) by (auto split: option.splits if_splits)
      then show ?thesis using EBinOp.IH(1) EBinOp.prems(1) xy strict_bin_kind [OF xy(2)] True by simp
    next
      case ops: False
      then have "t = TBool" using EBinOp.prems(2) False by (cases bop) auto
      then show ?thesis using strict_bin_kind [OF xy(2)] ops by simp
    qed
  qed
next
  case (ECond g a b p)
  then obtain t1 t2 where t: "get_type a = Some t1" "get_type b = Some t2" "type_eq t1 t2" "t = t1"
    by (auto split: option.splits if_splits)
  consider "eval I l \<rho> a = Some v" | "eval I l \<rho> b = Some v"
    using ECond.prems(3) by (auto split: option.splits val.splits bool.splits)
  then show ?case
    using ECond.IH(2,3) ECond.prems(1) t type_eq_kind [OF t(3)] by cases auto
qed (auto simp: quant_kind bind_eq_Some_conv)

definition ex_sum :: expr where
  "ex_sum = EBinOp OpAdd (expr_local (local_var_new ''n'' TInt)) (EConst (CInt 2) position_default) position_default"

definition ex_none :: interp where
  "ex_none = \<lparr>i_heap = (\<lambda>_ _ _. None), i_addr = (\<lambda>_. None), i_pred = (\<lambda>_ _ _ _. None),
     i_facc = (\<lambda>_ _ _ _. None), i_wand = (\<lambda>_ _ _. None), i_fun = (\<lambda>_ _ _. None),
     i_dom = (\<lambda>_ _. None), i_snap = (\<lambda>_ _. None), i_const = (\<lambda>_. None)\<rparr>"

theorem get_type_sound_witness:
  "\<exists>v. eval ex_none None [''n'' \<mapsto> VInt 5] ex_sum = Some v \<and> get_type ex_sum = Some TInt \<and> val_kind v = type_kind TInt"
proof -
  have "let_snap_free ex_sum"
    by (simp add: ex_sum_def expr_local_def let_snap_free.simps [of "ELocal _ _"] let_snap_free.simps [of "EConst _ _"])
  moreover have "get_type ex_sum = Some TInt" by (simp add: ex_sum_def expr_local_def local_var_new_def)
  moreover obtain v where "eval ex_none None [''n'' \<mapsto> VInt 5] ex_sum = Some v"
    by (simp add: ex_sum_def expr_local_def local_var_new_def bin_val_strict strict_bin_def int_bin_def typed_def)
  ultimately show ?thesis using get_type_sound by blast
qed

text \<open>The type of a snapshot is, as documented, the type of the reference, until the encoder replaces it.\<close>

theorem get_type_snapshot:
  "get_type (ESnapApp (ELocal (local_var_new ''r'' (TTypedRef ''T'')) position_default) position_default) = Some (TTypedRef ''T'')"
  by (simp add: local_var_new_def)

end
