(* ===== verification/Fu_State.thy ===== *)
theory Fu_State
  imports Fu_Places
begin

section \<open>Fold-unfold: the permission state (foldunfold/state.rs)\<close>

text \<open>
  The state of the fold-unfold algorithm: the places with an access or predicate permission and
  their amounts, the places moved out, the stack of framed permissions and the permissions dropped
  while borrows are restored.  Every operation returns the updated state, an error of the source's
  type, or a panic.  The printing of states for the log is not modelled.
\<close>

record fu_state =
  st_acc :: place_perms
  st_pred :: place_perms
  st_moved :: "expr list"
  st_framing_stack :: "perm_set list"
  st_dropped :: "perm list"

definition state_new :: "place_perms \<Rightarrow> place_perms \<Rightarrow> expr list \<Rightarrow> fu_state" where
  "state_new acc pred moved =
     \<lparr>st_acc = acc, st_pred = pred, st_moved = moved, st_framing_stack = [], st_dropped = []\<rparr>"

subsection \<open>Queries\<close>

definition acc_places :: "fu_state \<Rightarrow> expr list" where
  "acc_places st = hm_keys (st_acc st)"

definition pred_places :: "fu_state \<Rightarrow> expr list" where
  "pred_places st = hm_keys (st_pred st)"

definition contains_acc :: "fu_state \<Rightarrow> expr \<Rightarrow> bool" where
  "contains_acc st place = hm_contains expr_eq (st_acc st) place"

definition contains_pred :: "fu_state \<Rightarrow> expr \<Rightarrow> bool" where
  "contains_pred st place = hm_contains expr_eq (st_pred st) place"

fun contains_perm :: "fu_state \<Rightarrow> perm \<Rightarrow> bool" where
  "contains_perm st (Acc place _) = contains_acc st place"
| "contains_perm st (Pred place _) = contains_pred st place"

definition contains_all_perms :: "fu_state \<Rightarrow> perm list \<Rightarrow> bool" where
  "contains_all_perms st items = list_all (contains_perm st) items"

definition is_proper_prefix_of_some_acc :: "fu_state \<Rightarrow> expr \<Rightarrow> failure + bool" where
  "is_proper_prefix_of_some_acc st prefix = anyE (\<lambda>place. place_proper_prefix place prefix) (acc_places st)"

definition is_prefix_of_some_acc :: "fu_state \<Rightarrow> expr \<Rightarrow> failure + bool" where
  "is_prefix_of_some_acc st prefix = anyE (\<lambda>place. place_prefix place prefix) (acc_places st)"

definition is_prefix_of_some_pred :: "fu_state \<Rightarrow> expr \<Rightarrow> failure + bool" where
  "is_prefix_of_some_pred st prefix = anyE (\<lambda>place. place_prefix place prefix) (pred_places st)"

definition is_prefix_of_some_moved :: "fu_state \<Rightarrow> expr \<Rightarrow> failure + bool" where
  "is_prefix_of_some_moved st prefix = anyE (\<lambda>place. place_prefix place prefix) (st_moved st)"

definition acc_leaves :: "fu_state \<Rightarrow> failure + expr list" where
  "acc_leaves st =
     filterE (\<lambda>place. bindE (is_proper_prefix_of_some_acc st place) (\<lambda>b. Inr (\<not> b))) (acc_places st)"

definition is_dropped :: "fu_state \<Rightarrow> perm \<Rightarrow> bool" where
  "is_dropped st item = hs_member perm_eq (st_dropped st) item"

subsection \<open>Consistency\<close>

text \<open>
  The checks of \<open>check_consistency\<close>, run in debug builds only.  Each is a loop over the places that
  panics at the first violation; \<open>consistent\<close> is the value of the whole check.
\<close>

definition amount_at :: "place_perms \<Rightarrow> expr \<Rightarrow> failure + perm_amount" where
  "amount_at m place = unwrap (hm_get expr_eq m place)"

definition check_pred_has_acc :: "fu_state \<Rightarrow> expr \<Rightarrow> failure + unit" where
  "check_pred_has_acc st place =
     (if is_simple_place place \<and> \<not> contains_acc st place then
        bindE (unwrap (get_parent place)) (\<lambda>parent.
        bindE (amount_at (st_pred st) place) (\<lambda>amount.
        require (\<not> (\<not> (case parent of Some p \<Rightarrow> hm_contains expr_eq (st_pred st) p | None \<Rightarrow> False) \<and>
                    amount \<noteq> Remaining \<and> amount \<noteq> Read \<and> \<not> is_mir_reference place))))
      else Inr ())"

definition check_acc_has_parent :: "fu_state \<Rightarrow> expr \<Rightarrow> failure + unit" where
  "check_acc_has_parent st place =
     (if is_simple_place place \<and> \<not> is_local place then
        bindE (unwrap (get_parent place)) (\<lambda>parent_opt.
        bindE (unwrap parent_opt) (\<lambda>parent.
        if contains_acc st parent then Inr ()
        else
          bindE (amount_at (st_acc st) place) (\<lambda>amount.
          if amount = Read then
            bindE (unwrap (get_parent parent)) (\<lambda>grand_opt.
            bindE (unwrap grand_opt) (\<lambda>grand_parent. require (is_local grand_parent)))
          else Inl Panic)))
      else Inr ())"

definition check_preds_nested :: "fu_state \<Rightarrow> expr \<Rightarrow> expr \<Rightarrow> failure + unit" where
  "check_preds_nested st place other_place =
     (if is_simple_place place \<and> is_simple_place other_place then
        bindE (place_proper_prefix place other_place) (\<lambda>nested.
        if nested then
          bindE (amount_at (st_pred st) place) (\<lambda>a.
          bindE (amount_at (st_pred st) other_place) (\<lambda>b.
          require ((a = Read \<or> a = Remaining) \<and> b = Read)))
        else Inr ())
      else Inr ())"

definition check_not_nested :: "expr \<Rightarrow> expr \<Rightarrow> failure + unit" where
  "check_not_nested place other_place =
     (if is_simple_place place \<and> is_simple_place other_place then
        bindE (place_proper_prefix place other_place) (\<lambda>nested. require (\<not> nested))
      else Inr ())"

definition check_pred_moved :: "expr \<Rightarrow> expr \<Rightarrow> failure + unit" where
  "check_pred_moved pred_place moved_place =
     (if is_simple_place moved_place \<and> is_simple_place pred_place then
        bindE (place_prefix pred_place moved_place) (\<lambda>inside.
        bindE (require (\<not> inside)) (\<lambda>_.
        bindE (place_prefix moved_place pred_place) (\<lambda>around. require (\<not> around))))
      else Inr ())"

definition each :: "'a list \<Rightarrow> ('a \<Rightarrow> failure + unit) \<Rightarrow> failure + unit" where
  "each xs f = foldE (\<lambda>x _. f x) xs ()"

definition check_consistency :: "bool \<Rightarrow> fu_state \<Rightarrow> failure + unit" where
  "check_consistency debug_assertions st =
     (if \<not> debug_assertions then Inr () else
      bindE (each (pred_places st) (check_pred_has_acc st)) (\<lambda>_.
      bindE (each (acc_places st) (check_acc_has_parent st)) (\<lambda>_.
      bindE (each (pred_places st) (\<lambda>p. each (pred_places st) (check_preds_nested st p))) (\<lambda>_.
      bindE (each (acc_places st) (\<lambda>a. each (pred_places st) (check_not_nested a))) (\<lambda>_.
      bindE (each (acc_places st) (\<lambda>a. each (st_moved st) (check_not_nested a))) (\<lambda>_.
      each (pred_places st) (\<lambda>p. each (st_moved st) (check_pred_moved p))))))))"

subsection \<open>Removing and replacing by place\<close>

definition set_moved :: "fu_state \<Rightarrow> expr list \<Rightarrow> fu_state" where
  "set_moved st moved = st\<lparr>st_moved := moved\<rparr>"

definition replace_keys :: "(expr \<Rightarrow> failure + expr) \<Rightarrow> place_perms \<Rightarrow> failure + place_perms" where
  "replace_keys replace m =
     foldE (\<lambda>(place, perm) coll. bindE (replace place) (\<lambda>key. Inr (hm_insert expr_eq coll key perm))) m []"

definition state_replace_places :: "(expr \<Rightarrow> failure + expr) \<Rightarrow> fu_state \<Rightarrow> failure + fu_state" where
  "state_replace_places replace st =
     bindE (replace_keys replace (st_acc st)) (\<lambda>acc.
     bindE (replace_keys replace (st_pred st)) (\<lambda>pred.
     Inr (st\<lparr>st_acc := acc, st_pred := pred\<rparr>)))"

definition retainE :: "('k \<Rightarrow> failure + bool) \<Rightarrow> ('k, 'v) hmap \<Rightarrow> failure + ('k, 'v) hmap" where
  "retainE pred m = filterE (\<lambda>(e, _). bindE (pred e) (\<lambda>b. Inr (\<not> b))) m"

definition remove_acc_matching :: "(expr \<Rightarrow> failure + bool) \<Rightarrow> fu_state \<Rightarrow> failure + fu_state" where
  "remove_acc_matching pred st = bindE (retainE pred (st_acc st)) (\<lambda>m. Inr (st\<lparr>st_acc := m\<rparr>))"

definition remove_pred_matching :: "(expr \<Rightarrow> failure + bool) \<Rightarrow> fu_state \<Rightarrow> failure + fu_state" where
  "remove_pred_matching pred st = bindE (retainE pred (st_pred st)) (\<lambda>m. Inr (st\<lparr>st_pred := m\<rparr>))"

definition remove_moved_matching :: "(expr \<Rightarrow> failure + bool) \<Rightarrow> fu_state \<Rightarrow> failure + fu_state" where
  "remove_moved_matching pred st =
     bindE (filterE (\<lambda>e. bindE (pred e) (\<lambda>b. Inr (\<not> b))) (st_moved st)) (\<lambda>m. Inr (st\<lparr>st_moved := m\<rparr>))"

definition remove_matching_place :: "(expr \<Rightarrow> failure + bool) \<Rightarrow> fu_state \<Rightarrow> failure + fu_state" where
  "remove_matching_place pred st =
     bindE (remove_acc_matching pred st) (\<lambda>st.
     bindE (remove_pred_matching pred st) (\<lambda>st.
     remove_moved_matching pred st))"

definition remove_all :: "fu_state \<Rightarrow> failure + fu_state" where
  "remove_all st = remove_matching_place (\<lambda>_. Inr True) st"

subsection \<open>Inserting and removing permissions\<close>

text \<open>The common core of \<open>insert_acc\<close>/\<open>insert_pred\<close> and of \<open>remove_acc\<close>/\<open>remove_pred\<close>.\<close>

definition add_amount :: "place_perms \<Rightarrow> expr \<Rightarrow> perm_amount \<Rightarrow> failure + place_perms" where
  "add_amount m place perm =
     (case hm_get expr_eq m place of
        Some current \<Rightarrow>
          bindE (amount_result (perm_add current perm)) (\<lambda>new_perm.
          bindE (require (new_perm = Write \<or> new_perm = Read)) (\<lambda>_.
          Inr (hm_insert expr_eq m place new_perm)))
      | None \<Rightarrow> Inr (hm_insert expr_eq m place perm))"

definition sub_amount :: "place_perms \<Rightarrow> expr \<Rightarrow> perm_amount \<Rightarrow> perm_amount \<Rightarrow> failure + place_perms" where
  "sub_amount m place current perm =
     (if current = perm then Inr (hm_remove expr_eq m place)
      else bindE (amount_result (perm_sub current perm)) (\<lambda>rest. Inr (hm_insert expr_eq m place rest)))"

definition insert_acc :: "fu_state \<Rightarrow> expr \<Rightarrow> perm_amount \<Rightarrow> failure + fu_state" where
  "insert_acc st place perm = bindE (add_amount (st_acc st) place perm) (\<lambda>m. Inr (st\<lparr>st_acc := m\<rparr>))"

definition insert_pred :: "fu_state \<Rightarrow> expr \<Rightarrow> perm_amount \<Rightarrow> failure + fu_state" where
  "insert_pred st place perm = bindE (add_amount (st_pred st) place perm) (\<lambda>m. Inr (st\<lparr>st_pred := m\<rparr>))"

definition insert_all_acc :: "fu_state \<Rightarrow> (expr \<times> perm_amount) list \<Rightarrow> failure + fu_state" where
  "insert_all_acc st items = foldE (\<lambda>(place, perm) st. insert_acc st place perm) items st"

definition insert_all_pred :: "fu_state \<Rightarrow> (expr \<times> perm_amount) list \<Rightarrow> failure + fu_state" where
  "insert_all_pred st items = foldE (\<lambda>(place, perm) st. insert_pred st place perm) items st"

definition insert_moved :: "fu_state \<Rightarrow> expr \<Rightarrow> fu_state" where
  "insert_moved st place = st\<lparr>st_moved := hs_insert expr_eq place (st_moved st)\<rparr>"

fun insert_perm :: "fu_state \<Rightarrow> perm \<Rightarrow> failure + fu_state" where
  "insert_perm st (Acc place perm) = insert_acc st place perm"
| "insert_perm st (Pred place perm) = insert_pred st place perm"

definition insert_all_perms :: "fu_state \<Rightarrow> perm list \<Rightarrow> failure + fu_state" where
  "insert_all_perms st items = foldE (\<lambda>item st. insert_perm st item) items st"

definition remove_acc_place :: "fu_state \<Rightarrow> expr \<Rightarrow> failure + perm_amount \<times> fu_state" where
  "remove_acc_place st place =
     bindE (unwrap (hm_get expr_eq (st_acc st) place)) (\<lambda>amount.
     Inr (amount, st\<lparr>st_acc := hm_remove expr_eq (st_acc st) place\<rparr>))"

definition remove_pred_place :: "fu_state \<Rightarrow> expr \<Rightarrow> failure + perm_amount \<times> fu_state" where
  "remove_pred_place st place =
     bindE (unwrap (hm_get expr_eq (st_pred st) place)) (\<lambda>amount.
     Inr (amount, st\<lparr>st_pred := hm_remove expr_eq (st_pred st) place\<rparr>))"

definition remove_acc :: "fu_state \<Rightarrow> expr \<Rightarrow> perm_amount \<Rightarrow> failure + fu_state" where
  "remove_acc st place perm =
     (case hm_get expr_eq (st_acc st) place of
        None \<Rightarrow> Inl Panic
      | Some current \<Rightarrow>
          bindE (sub_amount (st_acc st) place current perm) (\<lambda>m. Inr (st\<lparr>st_acc := m\<rparr>)))"

definition remove_pred :: "fu_state \<Rightarrow> expr \<Rightarrow> perm_amount \<Rightarrow> failure + fu_state" where
  "remove_pred st place perm =
     (case hm_get expr_eq (st_pred st) place of
        None \<Rightarrow> Inl (Err (FailedToRemovePred place))
      | Some current \<Rightarrow>
          bindE (sub_amount (st_pred st) place current perm) (\<lambda>m. Inr (st\<lparr>st_pred := m\<rparr>)))"

fun remove_perm :: "fu_state \<Rightarrow> perm \<Rightarrow> failure + fu_state" where
  "remove_perm st (Acc place perm) = remove_acc st place perm"
| "remove_perm st (Pred place perm) = remove_pred st place perm"

definition remove_all_perms :: "fu_state \<Rightarrow> perm list \<Rightarrow> failure + fu_state" where
  "remove_all_perms st items = foldE (\<lambda>item st. remove_perm st item) items st"

subsection \<open>Restoring dropped permissions\<close>

definition add_current :: "place_perms \<Rightarrow> expr \<Rightarrow> perm_amount \<Rightarrow> failure + perm_amount" where
  "add_current m place perm =
     (case hm_get expr_eq m place of
        Some curr_perm_amount \<Rightarrow> amount_result (perm_add perm curr_perm_amount)
      | None \<Rightarrow> Inr perm)"

definition restore_acc :: "fu_state \<Rightarrow> expr \<Rightarrow> perm_amount \<Rightarrow> failure + fu_state" where
  "restore_acc st acc_place perm =
     bindE (add_current (st_acc st) acc_place perm) (\<lambda>perm.
     bindE (if is_simple_place acc_place
            then anyE (\<lambda>pred_place. if is_simple_place pred_place
                                    then place_proper_prefix acc_place pred_place else Inr False)
                   (pred_places st)
            else Inr False) (\<lambda>ignored.
     Inr (if ignored then st else st\<lparr>st_acc := hm_insert expr_eq (st_acc st) acc_place perm\<rparr>)))"

definition restore_pred :: "fu_state \<Rightarrow> expr \<Rightarrow> perm_amount \<Rightarrow> failure + fu_state" where
  "restore_pred st pred_place perm =
     bindE (add_current (st_pred st) pred_place perm) (\<lambda>perm.
     bindE (if is_simple_place pred_place
            then retainE (\<lambda>acc_place. if is_simple_place acc_place
                                      then place_proper_prefix acc_place pred_place else Inr False)
                   (st_acc st)
            else Inr (st_acc st)) (\<lambda>acc.
     Inr (st\<lparr>st_acc := acc, st_pred := hm_insert expr_eq (st_pred st) pred_place perm\<rparr>)))"

fun restore_dropped_perm :: "fu_state \<Rightarrow> perm \<Rightarrow> failure + fu_state" where
  "restore_dropped_perm st (Acc place perm) =
     bindE (remove_moved_matching (\<lambda>p. place_prefix place p) st) (\<lambda>st. restore_acc st place perm)"
| "restore_dropped_perm st (Pred place perm) =
     bindE (remove_moved_matching (\<lambda>p. place_prefix place p) st) (\<lambda>st. restore_pred st place perm)"

definition restore_dropped_perms :: "bool \<Rightarrow> fu_state \<Rightarrow> perm list \<Rightarrow> failure + fu_state" where
  "restore_dropped_perms debug_assertions st items =
     bindE (foldE (\<lambda>item st. restore_dropped_perm st item) items st) (\<lambda>st.
     bindE (check_consistency debug_assertions st) (\<lambda>_. Inr st))"

subsection \<open>The state as an assertion\<close>

definition as_vir_expr :: "fu_state \<Rightarrow> failure + expr" where
  "as_vir_expr st =
     bindE (mapE (\<lambda>(place, perm_amount). unwrap (pred_permission place perm_amount)) (st_pred st)) (\<lambda>perms.
     Inr (conjoin
       (map (\<lambda>(place, perm). acc_permission place perm)
          (filter (\<lambda>(place, perm). \<not> is_local place \<and> is_curr place \<and> \<not> is_dropped st (Acc place perm))
             (st_acc st)) @
        concat (map (\<lambda>((place, perm_amount), p).
            (case p of
               Some perm \<Rightarrow> (if \<not> is_dropped st (Pred place perm_amount) \<and> is_curr place then [perm] else [])
             | None \<Rightarrow> []))
          (zip (st_pred st) perms)))))"

subsection \<open>Framing\<close>

fun frame_acc :: "expr \<times> perm_amount \<Rightarrow> place_perms \<times> perm_set \<Rightarrow> failure + place_perms \<times> perm_set" where
  "frame_acc (place, perm) (acc, framed) =
     (if \<not> is_local place then
        bindE (unwrap (hm_get expr_eq acc place)) (\<lambda>_.
        Inr (hm_remove expr_eq acc place, perm_set_add framed (Acc place perm)))
      else Inr (acc, framed))"

definition begin_frame :: "fu_state \<Rightarrow> failure + fu_state" where
  "begin_frame st =
     bindE (foldE frame_acc (st_acc st) (st_acc st, perm_set_empty)) (\<lambda>(acc, framed).
     let framed_perms = fold (\<lambda>(place, perm) s. perm_set_add s (Pred place perm)) (st_pred st) framed
     in Inr (st\<lparr>st_acc := acc, st_pred := [], st_framing_stack := st_framing_stack st @ [framed_perms]\<rparr>))"

definition end_frame :: "fu_state \<Rightarrow> failure + fu_state" where
  "end_frame st =
     (if st_framing_stack st = [] then Inl Panic
      else insert_all_perms (st\<lparr>st_framing_stack := butlast (st_framing_stack st)\<rparr>)
             (perm_set_perms (last (st_framing_stack st))))"

subsection \<open>Adding and subtracting amounts are inverse\<close>

text \<open>Two states with the same permissions: the maps may list them in another order.\<close>

definition same_map :: "place_perms \<Rightarrow> place_perms \<Rightarrow> bool" where
  "same_map m m' \<longleftrightarrow> (\<forall>k. hm_get expr_eq m k = hm_get expr_eq m' k)"

definition same_content :: "fu_state \<Rightarrow> fu_state \<Rightarrow> bool" where
  "same_content st st' \<longleftrightarrow>
     same_map (st_acc st) (st_acc st') \<and> same_map (st_pred st) (st_pred st') \<and>
     st_moved st = st_moved st' \<and> st_framing_stack st = st_framing_stack st' \<and>
     st_dropped st = st_dropped st'"

lemma same_map_refl [simp]: "same_map m m"
  by (simp add: same_map_def)

lemma add_after_sub:
  assumes "eq_supported k" "hm_get expr_eq m k = Some cur" "sub_amount m k cur q = Inr m1"
  shows "\<exists>m2. add_amount m1 k q = Inr m2 \<and> same_map m2 m"
proof -
  have refl: "expr_eq k k" using assms(1) by (simp add: expr_eq_refl_iff)
  have same: "hm_get expr_eq m k' = Some cur" if "expr_eq k k'" for k'
    using ex.get_cong [OF that, of m] assms(2) by simp
  show ?thesis
  proof (cases "cur = q")
    case True
    then show ?thesis
      using assms(3) refl same
      by (auto simp: sub_amount_def add_amount_def ex.get_remove ex.get_insert same_map_def)
  next
    case False
    then obtain r where r: "perm_sub cur q = Inr r" "m1 = hm_insert expr_eq m k r"
      using assms(3) by (auto simp: sub_amount_def fallible_simps)
    then have "perm_add r q = Inr cur" by (simp add: perm_sub_add)
    moreover have "cur = Write" using r(1) by (cases cur; cases q) auto
    ultimately show ?thesis
      using r(2) refl same
      by (auto simp: add_amount_def ex.get_insert same_map_def amount_result_def)
  qed
qed

lemma sub_after_add:
  assumes "eq_supported k" "add_amount m k q = Inr m1"
  shows "\<exists>cur m2. hm_get expr_eq m1 k = Some cur \<and> sub_amount m1 k cur q = Inr m2 \<and> same_map m2 m"
proof -
  have refl: "expr_eq k k" using assms(1) by (simp add: expr_eq_refl_iff)
  show ?thesis
  proof (cases "hm_get expr_eq m k")
    case None
    then have none: "hm_get expr_eq m k' = None" if "expr_eq k k'" for k'
      using ex.get_cong [OF that, of m] by simp
    from None have "m1 = hm_insert expr_eq m k q" using assms(2) by (simp add: add_amount_def)
    then show ?thesis
      using refl none by (auto simp: sub_amount_def ex.get_insert ex.get_remove same_map_def)
  next
    case (Some cur)
    then have same: "hm_get expr_eq m k' = Some cur" if "expr_eq k k'" for k'
      using ex.get_cong [OF that, of m] by simp
    from Some obtain r where r: "perm_add cur q = Inr r" "m1 = hm_insert expr_eq m k r"
      using assms(2) by (auto simp: add_amount_def fallible_simps)
    then have "perm_sub r q = Inr cur" by (intro perm_add_sub)
    moreover have "r \<noteq> q" using r(1) by (cases cur; cases q) auto
    ultimately show ?thesis
      using r(2) refl same
      by (auto simp: sub_amount_def ex.get_insert same_map_def amount_result_def)
  qed
qed

text \<open>
  Inserting and removing a permission undo each other: whenever one of them succeeds, the other
  succeeds on its result and gives back the permissions of the state they started from.
\<close>

theorem insert_remove_perm_inverse:
  assumes "eq_supported (get_place p)"
  shows "(remove_perm st p = Inr st1 \<longrightarrow> (\<exists>st2. insert_perm st1 p = Inr st2 \<and> same_content st2 st)) \<and>
    (insert_perm st p = Inr st1 \<longrightarrow> (\<exists>st2. remove_perm st1 p = Inr st2 \<and> same_content st2 st))"
proof (cases p)
  case (Acc k q)
  then show ?thesis
    using assms add_after_sub [of k "st_acc st"] sub_after_add [of k "st_acc st" q]
    by (auto simp: remove_acc_def insert_acc_def fallible_simps same_content_def split: option.splits) fastforce+
next
  case (Pred k q)
  then show ?thesis
    using assms add_after_sub [of k "st_pred st"] sub_after_add [of k "st_pred st" q]
    by (auto simp: remove_pred_def insert_pred_def fallible_simps same_content_def split: option.splits) fastforce+
qed

definition ex_state :: fu_state where
  "ex_state = state_new [(ex_x, Write), (ex_dot ex_x ''f'', Write)] [(ex_dot ex_x ''f'', Write)] []"

theorem insert_remove_perm_inverse_witness:
  "\<exists>st1 st2. remove_perm ex_state (Acc (ex_dot ex_x ''f'') Read) = Inr st1 \<and>
     hm_get expr_eq (st_acc st1) (ex_dot ex_x ''f'') = Some Remaining \<and>
     insert_perm st1 (Acc (ex_dot ex_x ''f'') Read) = Inr st2 \<and> same_content st2 ex_state"
proof -
  let ?p = "Acc (ex_dot ex_x ''f'') Read"
  obtain st1 where st1: "remove_perm ex_state ?p = Inr st1"
    "hm_get expr_eq (st_acc st1) (ex_dot ex_x ''f'') = Some Remaining"
    by (simp add: ex_state_def state_new_def remove_acc_def sub_amount_def amount_result_def ex_place_simps)
  have "eq_supported (get_place ?p)" by (simp add: ex_place_simps)
  from insert_remove_perm_inverse [OF this, of ex_state st1] show ?thesis using st1 by blast
qed

subsection \<open>Restoring keeps access permissions outside predicates\<close>

lemma each_iff: "each xs f = Inr () \<longleftrightarrow> (\<forall>x \<in> set xs. f x = Inr ())"
  unfolding each_def by (induction xs) (auto simp: fallible_simps)

lemma simple_place_ok: "is_simple_place e \<Longrightarrow> place_ok e"
  unfolding place_ok_def by (induction e rule: is_simple_place.induct) auto

lemma check_not_nested_iff:
  "check_not_nested a p = Inr () \<longleftrightarrow> (is_simple_place a \<and> is_simple_place p \<longrightarrow> \<not> below a p)"
  by (auto simp: check_not_nested_def place_proper_prefix_total [OF simple_place_ok] fallible_simps)

text \<open>The fourth check of \<open>check_consistency\<close>.\<close>

definition acc_outside_preds :: "fu_state \<Rightarrow> bool" where
  "acc_outside_preds st \<longleftrightarrow>
     each (acc_places st) (\<lambda>a. each (pred_places st) (check_not_nested a)) = Inr ()"

lemma acc_outside_preds_iff:
  "acc_outside_preds st \<longleftrightarrow>
     (\<forall>a \<in> set (acc_places st). \<forall>p \<in> set (pred_places st).
        is_simple_place a \<and> is_simple_place p \<longrightarrow> \<not> below a p)"
  by (simp add: acc_outside_preds_def each_iff check_not_nested_iff)

lemma restore_acc_outside:
  assumes "acc_outside_preds st" "restore_acc st acc_place perm = Inr st'"
  shows "acc_outside_preds st'"
proof -
  let ?hit = "\<lambda>p. is_simple_place p \<and> below acc_place p"
  have total: "anyE (\<lambda>p. if is_simple_place p then place_proper_prefix acc_place p else Inr False)
      (pred_places st) = Inr (list_ex ?hit (pred_places st))" if "is_simple_place acc_place"
    by (rule anyE_total) (simp add: place_proper_prefix_total [OF simple_place_ok [OF that]])
  have "st' = st \<or> (\<exists>q. st' = st\<lparr>st_acc := hm_insert expr_eq (st_acc st) acc_place q\<rparr> \<and>
      (is_simple_place acc_place \<longrightarrow> \<not> list_ex ?hit (pred_places st)))"
    using assms(2) total by (auto simp: restore_acc_def fallible_simps split: if_splits)
  then show ?thesis
  proof (elim disjE exE conjE)
    fix q assume st': "st' = st\<lparr>st_acc := hm_insert expr_eq (st_acc st) acc_place q\<rparr>"
      and new: "is_simple_place acc_place \<longrightarrow> \<not> list_ex ?hit (pred_places st)"
    have "set (acc_places st') \<subseteq> insert acc_place (set (acc_places st))"
      using ex.keys_insert_subset [of "st_acc st" acc_place q]
      by (simp add: st' acc_places_def hm_keys_def)
    moreover have "pred_places st' = pred_places st" by (simp add: st' pred_places_def)
    ultimately show ?thesis
      using assms(1) new unfolding acc_outside_preds_iff by (auto simp: list_ex_iff)
  qed (use assms(1) in simp)
qed

lemma retainE_keys:
  "retainE P m = Inr m' \<Longrightarrow> m' = filter (\<lambda>(e, _). P e = Inr False) m"
  unfolding retainE_def filterE_Inr_iff by (auto simp: fallible_simps intro!: filter_cong)

lemma restore_pred_outside:
  assumes "acc_outside_preds st" "restore_pred st pred_place perm = Inr st'"
  shows "acc_outside_preds st'"
proof -
  let ?P = "\<lambda>a. if is_simple_place a then place_proper_prefix a pred_place else Inr False"
  obtain q acc where st': "st' = st\<lparr>st_acc := acc, st_pred := hm_insert expr_eq (st_pred st) pred_place q\<rparr>"
    and acc: "if is_simple_place pred_place then retainE ?P (st_acc st) = Inr acc else acc = st_acc st"
    using assms(2) by (auto simp: restore_pred_def fallible_simps split: if_splits)
  have "\<not> (is_simple_place a \<and> is_simple_place pred_place \<and> below a pred_place) \<and> a \<in> set (acc_places st)"
    if a: "a \<in> set (acc_places st')" for a
  proof (cases "is_simple_place pred_place")
    case True
    then have "acc = filter (\<lambda>(e, _). ?P e = Inr False) (st_acc st)"
      using acc retainE_keys [of ?P "st_acc st" acc] by simp
    then have "a \<in> set (acc_places st)" "?P a = Inr False"
      using a by (auto simp: st' acc_places_def hm_keys_def)
    then show ?thesis using place_proper_prefix_total [OF simple_place_ok, of a] by auto
  next
    case False
    then show ?thesis using a acc by (simp add: st' acc_places_def)
  qed
  moreover have "set (pred_places st') \<subseteq> insert pred_place (set (pred_places st))"
    using ex.keys_insert_subset [of "st_pred st" pred_place q]
    by (simp add: st' pred_places_def hm_keys_def)
  ultimately show ?thesis using assms(1) unfolding acc_outside_preds_iff by fast
qed

lemma restore_dropped_perm_outside:
  assumes "acc_outside_preds st" "restore_dropped_perm st item = Inr st'"
  shows "acc_outside_preds st'"
proof -
  obtain st1 where st1: "remove_moved_matching (\<lambda>p. place_prefix (get_place item) p) st = Inr st1"
    and st': "case item of Acc place perm \<Rightarrow> restore_acc st1 place perm = Inr st'
              | Pred place perm \<Rightarrow> restore_pred st1 place perm = Inr st'"
    using assms(2) by (cases item) (auto simp: fallible_simps)
  have ok: "acc_outside_preds st1"
    using assms(1) st1
    by (auto simp: acc_outside_preds_iff remove_moved_matching_def fallible_simps acc_places_def pred_places_def)
  show ?thesis
  proof (cases item)
    case (Acc place perm)
    then show ?thesis using restore_acc_outside [OF ok] st' by simp
  next
    case (Pred place perm)
    then show ?thesis using restore_pred_outside [OF ok] st' by simp
  qed
qed

text \<open>
  C39 Restoring dropped permissions keeps the fourth check of \<open>check_consistency\<close>: if no access permission for a
  simple place (a path from a local variable without \<open>old\<close>) lies strictly inside a predicate on a simple place
  before, then none does after, whichever permissions are restored and in whichever order.  Like the check, this
  says nothing about places with \<open>old\<close>, where restoring does put accesses inside predicates.
\<close>

theorem restore_dropped_perms_consistent:
  assumes "acc_outside_preds st" "restore_dropped_perms debug st items = Inr st'"
  shows "acc_outside_preds st'"
proof -
  have "foldE (\<lambda>item st. restore_dropped_perm st item) items st = Inr st'"
    using assms(2) by (auto simp: restore_dropped_perms_def fallible_simps)
  then show ?thesis using assms(1) by (rule foldE_invariant) (rule restore_dropped_perm_outside)
qed

theorem restore_dropped_perms_consistent_witness:
  "\<exists>st'. restore_dropped_perms False ex_state
       [Acc (ex_dot (ex_dot ex_x ''f'') ''g'') Write, Pred ex_x Read] = Inr st' \<and> acc_outside_preds st' \<and>
     length (st_acc st') = 1 \<and> length (st_pred st') = 2"
proof -
  let ?items = "[Acc (ex_dot (ex_dot ex_x ''f'') ''g'') Write, Pred ex_x Read]"
  have "acc_outside_preds ex_state" by code_simp
  moreover have run: "case restore_dropped_perms False ex_state ?items of
      Inr st' \<Rightarrow> length (st_acc st') = 1 \<and> length (st_pred st') = 2 | Inl _ \<Rightarrow> False"
    by code_simp
  ultimately show ?thesis
    using restore_dropped_perms_consistent [of ex_state False ?items]
    by (cases "restore_dropped_perms False ex_state ?items") auto
qed

text \<open>A place with \<open>old\<close> is not simple, and restoring its permission does not look for a predicate around it.\<close>

theorem restore_keeps_old_access:
  "let old = ELabelledOld ''l'' (ex_dot ex_x ''f'') position_default; st = state_new [] [(old, Write)] []
   in restore_dropped_perms True st [Acc (ex_dot old ''g'') Write] =
        Inr (state_new [(ex_dot old ''g'', Write)] [(old, Write)] []) \<and> below (ex_dot old ''g'') old"
  by code_simp

subsection \<open>Framing loses nothing\<close>

definition state_wf :: "fu_state \<Rightarrow> bool" where
  "state_wf st \<longleftrightarrow> hm_wf expr_eq (st_acc st) \<and> hm_wf expr_eq (st_pred st)"

lemma insert_fresh: "\<forall>k' \<in> set (map fst m). \<not> expr_eq k' k \<Longrightarrow> hm_insert expr_eq m k v = m @ [(k, v)]"
  by (induction m) auto

lemma wf_append:
  "hm_wf expr_eq (m @ m') \<longleftrightarrow> hm_wf expr_eq m \<and> hm_wf expr_eq m' \<and>
     (\<forall>k \<in> set (map fst m). \<forall>k' \<in> set (map fst m'). \<not> expr_eq k k')"
proof (induction m)
  case (Cons kv m)
  then show ?case by (cases kv) auto
qed simp

lemma foldE_frame_acc:
  assumes "hm_wf expr_eq (xs @ ys)"
  shows "foldE frame_acc ys (filter (\<lambda>a. is_local (fst a)) xs @ ys,
      \<lparr>ps_acc_perms = filter (\<lambda>a. \<not> is_local (fst a)) xs, ps_pred_perms = []\<rparr>) =
    Inr (filter (\<lambda>a. is_local (fst a)) (xs @ ys),
      \<lparr>ps_acc_perms = filter (\<lambda>a. \<not> is_local (fst a)) (xs @ ys), ps_pred_perms = []\<rparr>)"
  using assms
proof (induction ys arbitrary: xs)
  case (Cons kv ys)
  obtain k v where kv: "kv = (k, v)" by (cases kv)
  have before: "\<not> expr_eq k' k" if "k' \<in> set (map fst xs)" for k'
    using Cons.prems that by (auto simp: wf_append kv)
  have after: "\<not> expr_eq k' k" if "k' \<in> set (map fst ys)" for k'
    using Cons.prems that expr_eq_sym [of k' k] by (auto simp: wf_append kv)
  have refl: "expr_eq k k" using Cons.prems by (simp add: wf_append kv)
  have get: "hm_get expr_eq (filter (\<lambda>a. is_local (fst a)) xs @ kv # ys) k = Some v"
  proof -
    have "hm_get expr_eq (filter (\<lambda>a. is_local (fst a)) xs) k = None"
      using before by (force simp: ex.get_eq_None_iff)
    then show ?thesis using refl by (simp add: hx.get_append kv)
  qed
  have remove: "hm_remove expr_eq (filter (\<lambda>a. is_local (fst a)) xs @ kv # ys) k = filter (\<lambda>a. is_local (fst a)) xs @ ys"
  proof -
    have "filter (\<lambda>(k', _). \<not> expr_eq k' k) (filter (\<lambda>a. is_local (fst a)) xs) = filter (\<lambda>a. is_local (fst a)) xs"
      by (rule filter_True) (use before in force)
    moreover have "filter (\<lambda>(k', _). \<not> expr_eq k' k) ys = ys"
      by (rule filter_True) (use after in force)
    ultimately show ?thesis using refl by (simp add: hm_remove_def kv del: filter_filter)
  qed
  have add: "hm_insert expr_eq (filter (\<lambda>a. \<not> is_local (fst a)) xs) k v =
      filter (\<lambda>a. \<not> is_local (fst a)) xs @ [(k, v)]"
    by (rule insert_fresh) (use before in auto)
  have IH: "foldE frame_acc ys (filter (\<lambda>a. is_local (fst a)) (xs @ [kv]) @ ys,
      \<lparr>ps_acc_perms = filter (\<lambda>a. \<not> is_local (fst a)) (xs @ [kv]), ps_pred_perms = []\<rparr>) =
    Inr (filter (\<lambda>a. is_local (fst a)) ((xs @ [kv]) @ ys),
      \<lparr>ps_acc_perms = filter (\<lambda>a. \<not> is_local (fst a)) ((xs @ [kv]) @ ys), ps_pred_perms = []\<rparr>)"
    by (rule Cons.IH) (use Cons.prems in simp)
  show ?case
  proof (cases "is_local k")
    case True
    then show ?thesis using IH kv by simp
  next
    case False
    then show ?thesis using IH get remove add kv by simp
  qed
qed simp

lemma fold_frame_pred:
  assumes "hm_wf expr_eq (xs @ ys)"
  shows "fold (\<lambda>(place, perm) s. perm_set_add s (Pred place perm)) ys
      \<lparr>ps_acc_perms = m, ps_pred_perms = xs\<rparr> = \<lparr>ps_acc_perms = m, ps_pred_perms = xs @ ys\<rparr>"
  using assms
proof (induction ys arbitrary: xs)
  case (Cons kv ys)
  obtain k v where kv: "kv = (k, v)" by (cases kv)
  have "hm_insert expr_eq xs k v = xs @ [(k, v)]"
    by (rule insert_fresh) (use Cons.prems in \<open>auto simp: wf_append kv\<close>)
  then show ?case using Cons.IH [of "xs @ [kv]"] Cons.prems kv by simp
qed simp

lemma begin_frame_wf:
  assumes "state_wf st"
  shows "begin_frame st = Inr (st\<lparr>st_acc := filter (\<lambda>a. is_local (fst a)) (st_acc st), st_pred := [],
    st_framing_stack := st_framing_stack st @
      [\<lparr>ps_acc_perms = filter (\<lambda>a. \<not> is_local (fst a)) (st_acc st), ps_pred_perms = st_pred st\<rparr>]\<rparr>)"
  using foldE_frame_acc [of "[]" "st_acc st"] fold_frame_pred [of "[]" "st_pred st"] assms
  by (simp add: begin_frame_def state_wf_def perm_set_empty_def)

lemma add_amounts_fresh:
  assumes "hm_wf expr_eq items" "\<And>k v. (k, v) \<in> set items \<Longrightarrow> hm_get expr_eq m k = None"
  shows "\<exists>m'. foldE (\<lambda>(k, v) m. add_amount m k v) items m = Inr m' \<and>
    (\<forall>k. hm_get expr_eq m' k = hm_get expr_eq (items @ m) k)"
  using assms
proof (induction items arbitrary: m)
  case (Cons kv items)
  obtain k v where kv: "kv = (k, v)" by (cases kv)
  have refl: "expr_eq k k" and other: "\<And>k' v'. (k', v') \<in> set items \<Longrightarrow> \<not> expr_eq k k'"
    using Cons.prems(1) kv by force+
  have step: "add_amount m k v = Inr (hm_insert expr_eq m k v)"
    using Cons.prems(2) [of k v] kv by (simp add: add_amount_def)
  have "\<exists>m'. foldE (\<lambda>(k, v) m. add_amount m k v) items (hm_insert expr_eq m k v) = Inr m' \<and>
    (\<forall>k'. hm_get expr_eq m' k' = hm_get expr_eq (items @ hm_insert expr_eq m k v) k')"
    by (rule Cons.IH) (use Cons.prems kv refl other in \<open>auto simp: ex.get_insert\<close>)
  then obtain m' where m': "foldE (\<lambda>(k, v) m. add_amount m k v) items (hm_insert expr_eq m k v) = Inr m'"
    "\<And>k'. hm_get expr_eq m' k' = hm_get expr_eq (items @ hm_insert expr_eq m k v) k'" by blast
  have none: "hm_get expr_eq items k' = None" if "expr_eq k k'" for k'
    unfolding ex.get_eq_None_iff using other expr_eq_trans [OF that expr_eq_sym] by fast
  have "hm_get expr_eq m' k' = hm_get expr_eq ((kv # items) @ m) k'" for k'
    using none by (auto simp: m'(2) hx.get_append ex.get_insert [OF refl] kv split: option.split)
  then show ?case using m'(1) step kv by auto
qed simp

lemma insert_accs:
  "foldE (\<lambda>item st. insert_perm st item) (map (\<lambda>(place, q). Acc place q) items) st =
     bindE (foldE (\<lambda>(k, v) m. add_amount m k v) items (st_acc st)) (\<lambda>m. Inr (st\<lparr>st_acc := m\<rparr>))"
proof (induction items arbitrary: st)
  case (Cons kv items)
  then show ?case
    by (cases kv; cases "add_amount (st_acc st) (fst kv) (snd kv)") (auto simp: insert_acc_def)
qed simp

lemma insert_preds:
  "foldE (\<lambda>item st. insert_perm st item) (map (\<lambda>(place, q). Pred place q) items) st =
     bindE (foldE (\<lambda>(k, v) m. add_amount m k v) items (st_pred st)) (\<lambda>m. Inr (st\<lparr>st_pred := m\<rparr>))"
proof (induction items arbitrary: st)
  case (Cons kv items)
  then show ?case
    by (cases kv; cases "add_amount (st_pred st) (fst kv) (snd kv)") (auto simp: insert_pred_def)
qed simp

lemma is_local_cong: "expr_eq x k \<Longrightarrow> is_local x = is_local k"
  by (cases x; cases k) auto

lemma local_keys: "list_all is_local (hm_keys m) \<Longrightarrow> hm_contains expr_eq m k \<Longrightarrow> is_local k"
  unfolding hx.contains_iff using is_local_cong by (force simp: hm_keys_def list_all_iff)

lemma get_nonlocal:
  "hm_get expr_eq (filter (\<lambda>a. \<not> is_local (fst a)) m) k = (if is_local k then None else hm_get expr_eq m k)"
  using hx.get_retain [of k "\<lambda>e. \<not> is_local e" m] is_local_cong [of _ k]
  by (auto simp: hm_retain_def case_prod_unfold)

lemma end_frame_fresh:
  assumes wf: "hm_wf expr_eq accs" "hm_wf expr_eq preds"
    and free: "\<And>k v. (k, v) \<in> set accs \<Longrightarrow> hm_get expr_eq (st_acc st) k = None"
      "\<And>k v. (k, v) \<in> set preds \<Longrightarrow> hm_get expr_eq (st_pred st) k = None"
    and stack: "st_framing_stack st = stack @ [\<lparr>ps_acc_perms = accs, ps_pred_perms = preds\<rparr>]"
  shows "\<exists>st'. end_frame st = Inr st' \<and> st_framing_stack st' = stack \<and>
    (\<forall>k. hm_get expr_eq (st_acc st') k = hm_get expr_eq (accs @ st_acc st) k) \<and>
    (\<forall>k. hm_get expr_eq (st_pred st') k = hm_get expr_eq (preds @ st_pred st) k)"
proof -
  obtain acc where acc: "foldE (\<lambda>(k, v) m. add_amount m k v) accs (st_acc st) = Inr acc"
      "\<forall>k. hm_get expr_eq acc k = hm_get expr_eq (accs @ st_acc st) k"
    using add_amounts_fresh [OF wf(1), of "st_acc st"] free(1) by blast
  obtain pred where pred: "foldE (\<lambda>(k, v) m. add_amount m k v) preds (st_pred st) = Inr pred"
      "\<forall>k. hm_get expr_eq pred k = hm_get expr_eq (preds @ st_pred st) k"
    using add_amounts_fresh [OF wf(2), of "st_pred st"] free(2) by blast
  have "end_frame st = Inr (st\<lparr>st_framing_stack := stack, st_acc := acc, st_pred := pred\<rparr>)"
    using stack acc(1) pred(1)
    by (simp add: end_frame_def insert_all_perms_def perm_set_perms_def foldE_append insert_accs insert_preds)
  then show ?thesis using acc(2) pred(2) by simp
qed

text \<open>
  C38 Framing.  \<open>begin_frame\<close> never fails on a well-formed state and leaves access to local variables
  only.  However the state changes inside the frame, as long as the frame stack is restored and none
  of the framed places is held, \<open>end_frame\<close> succeeds, pops the frame and puts back exactly the
  permissions that were framed, with their amounts, beside those gained inside.
\<close>

theorem frame_roundtrip:
  assumes "state_wf st"
  shows "\<exists>st1. begin_frame st = Inr st1 \<and> list_all is_local (acc_places st1) \<and> st_pred st1 = [] \<and>
    (\<forall>st2. st_framing_stack st2 = st_framing_stack st1 \<and>
       (\<forall>k. contains_acc st k \<and> \<not> is_local k \<longrightarrow> \<not> contains_acc st2 k) \<and>
       (\<forall>k. contains_pred st k \<longrightarrow> \<not> contains_pred st2 k) \<longrightarrow>
       (\<exists>st3. end_frame st2 = Inr st3 \<and> st_framing_stack st3 = st_framing_stack st \<and>
          (\<forall>k. hm_get expr_eq (st_acc st3) k =
             (if contains_acc st k \<and> \<not> is_local k then hm_get expr_eq (st_acc st) k
              else hm_get expr_eq (st_acc st2) k)) \<and>
          (\<forall>k. hm_get expr_eq (st_pred st3) k =
             (if contains_pred st k then hm_get expr_eq (st_pred st) k
              else hm_get expr_eq (st_pred st2) k))))"
proof (rule exI, intro conjI allI impI)
  let ?acc = "filter (\<lambda>a. \<not> is_local (fst a)) (st_acc st)"
  show "begin_frame st = Inr (st\<lparr>st_acc := filter (\<lambda>a. is_local (fst a)) (st_acc st), st_pred := [],
    st_framing_stack := st_framing_stack st @ [\<lparr>ps_acc_perms = ?acc, ps_pred_perms = st_pred st\<rparr>]\<rparr>)"
    (is "_ = Inr ?st1")
    by (rule begin_frame_wf [OF assms])
  show "list_all is_local (acc_places ?st1)" "st_pred ?st1 = []"
    by (auto simp: acc_places_def hm_keys_def list_all_iff)
  fix st2 assume st2: "st_framing_stack st2 = st_framing_stack ?st1 \<and>
       (\<forall>k. contains_acc st k \<and> \<not> is_local k \<longrightarrow> \<not> contains_acc st2 k) \<and>
       (\<forall>k. contains_pred st k \<longrightarrow> \<not> contains_pred st2 k)"
  have wf: "hm_wf expr_eq ?acc" "hm_wf expr_eq (st_pred st)"
    using assms by (simp_all add: state_wf_def ex.wf_filter)
  have free: "hm_get expr_eq (st_acc st2) k = None" if "(k, v) \<in> set ?acc" for k v
    using that ex.wf_get_member [of "st_acc st" k v] assms st2
    by (auto simp: contains_acc_def hm_contains_def state_wf_def)
  have free_pred: "hm_get expr_eq (st_pred st2) k = None" if "(k, v) \<in> set (st_pred st)" for k v
    using that ex.wf_get_member [of "st_pred st" k v] assms st2
    by (auto simp: contains_pred_def hm_contains_def state_wf_def)
  have "\<exists>st3. end_frame st2 = Inr st3 \<and> st_framing_stack st3 = st_framing_stack st \<and>
      (\<forall>k. hm_get expr_eq (st_acc st3) k = hm_get expr_eq (?acc @ st_acc st2) k) \<and>
      (\<forall>k. hm_get expr_eq (st_pred st3) k = hm_get expr_eq (st_pred st @ st_pred st2) k)"
    by (rule end_frame_fresh [OF wf]) (use free free_pred st2 in auto)
  then show "\<exists>st3. end_frame st2 = Inr st3 \<and> st_framing_stack st3 = st_framing_stack st \<and>
          (\<forall>k. hm_get expr_eq (st_acc st3) k =
             (if contains_acc st k \<and> \<not> is_local k then hm_get expr_eq (st_acc st) k
              else hm_get expr_eq (st_acc st2) k)) \<and>
          (\<forall>k. hm_get expr_eq (st_pred st3) k =
             (if contains_pred st k then hm_get expr_eq (st_pred st) k
              else hm_get expr_eq (st_pred st2) k))"
    by (auto simp: hx.get_append get_nonlocal contains_acc_def contains_pred_def hm_contains_def
        split: option.split)
qed

theorem frame_roundtrip_witness:
  "\<exists>st1 st3. begin_frame ex_state = Inr st1 \<and> st_pred st1 = [] \<and> end_frame st1 = Inr st3 \<and>
     same_map (st_pred st3) (st_pred ex_state)"
proof -
  have "state_wf ex_state" by (simp add: state_wf_def ex_state_def state_new_def ex_place_simps)
  from frame_roundtrip [OF this] obtain st1 where st1: "begin_frame ex_state = Inr st1"
      "list_all is_local (acc_places st1)" "st_pred st1 = []"
    and ends: "(\<forall>k. contains_acc ex_state k \<and> \<not> is_local k \<longrightarrow> \<not> contains_acc st1 k) \<Longrightarrow>
      (\<forall>k. contains_pred ex_state k \<longrightarrow> \<not> contains_pred st1 k) \<Longrightarrow>
      \<exists>st3. end_frame st1 = Inr st3 \<and> (\<forall>k. hm_get expr_eq (st_pred st3) k =
             (if contains_pred ex_state k then hm_get expr_eq (st_pred ex_state) k
              else hm_get expr_eq (st_pred st1) k))"
    by blast
  have "is_local k" if "contains_acc st1 k" for k
    using st1(2) that local_keys by (simp add: contains_acc_def acc_places_def)
  then obtain st3 where "end_frame st1 = Inr st3" "\<forall>k. hm_get expr_eq (st_pred st3) k =
             (if contains_pred ex_state k then hm_get expr_eq (st_pred ex_state) k
              else hm_get expr_eq (st_pred st1) k)"
    using ends st1(3) by (auto simp: contains_pred_def hm_contains_def)
  then show ?thesis
    using st1 by (auto simp: same_map_def contains_pred_def hm_contains_def split: if_splits)
qed

end
