(* ===== verification/Fu_Footprint.thy ===== *)
theory Fu_Footprint
  imports Fu_Places Vir_Predicate Vir_Replace
begin

section \<open>Fold-unfold: footprints and required permissions\<close>

text \<open>
  \<^verbatim>\<open>foldunfold/footprint.rs\<close>: the permissions that an \<open>inhale\<close> or \<open>exhale\<close> of an expression adds or
  removes and those in the body of a predicate, and \<^verbatim>\<open>foldunfold/requirements.rs\<close>: the permissions
  that an expression or a statement needs to be well defined.  Sets of permissions are lists over
  \<open>perm_eq\<close>.  The body of a predicate is looked at with no predicates in scope, so an \<open>unfolding\<close>
  inside it panics; the recursion into bodies therefore has depth one, and the footprint takes what an
  \<open>unfolding\<close> uncovers as an argument.
\<close>

type_synonym predicates = "string \<Rightarrow> predicate option"

type_synonym perms_result = "failure + perm list"

definition quantified_places :: "local_var list \<Rightarrow> perm list" where
  "quantified_places vars = hs_collect perm_eq (map (\<lambda>v. Acc (expr_local v) Write) vars)"

definition no_ref_vars :: "local_var list \<Rightarrow> bool" where
  "no_ref_vars vars = list_all (\<lambda>v. \<not> type_is_ref (lv_typ v)) vars"

fun footprint_with ::
  "(expr list \<Rightarrow> perm_amount \<Rightarrow> maybe_enum_variant_index \<Rightarrow> perms_result) \<Rightarrow> expr \<Rightarrow> perms_result" where
  "footprint_with unf (EUnfolding _ args e perm_amount variant _) =
     bindE (unf args perm_amount variant) (\<lambda>places_in_pred.
     bindE (footprint_with unf e) (\<lambda>expr_access_places.
     perm_difference expr_access_places places_in_pred))"
| "footprint_with unf (EUnaryOp _ e _) = footprint_with unf e"
| "footprint_with unf (EBinOp _ left right _) =
     bindE (footprint_with unf left) (\<lambda>l. bindE (footprint_with unf right) (\<lambda>r.
     Inr (union_sets perm_eq l r)))"
| "footprint_with unf (EContainerOp _ left right _) =
     bindE (footprint_with unf left) (\<lambda>l. bindE (footprint_with unf right) (\<lambda>r.
     Inr (union_sets perm_eq l r)))"
| "footprint_with unf (ESeq _ elems _) =
     foldE (\<lambda>e hs. bindE (footprint_with unf e) (\<lambda>fp. Inr (hs_extend perm_eq hs fp))) elems []"
| "footprint_with unf (ECond guard left right _) =
     bindE (footprint_with unf guard) (\<lambda>g. bindE (footprint_with unf left) (\<lambda>l.
     bindE (footprint_with unf right) (\<lambda>r. Inr (union3_sets perm_eq g l r))))"
| "footprint_with unf (EForAll vars _ body _) =
     bindE (require (no_ref_vars vars)) (\<lambda>_. bindE (footprint_with unf body) (\<lambda>fp.
     perm_difference fp (quantified_places vars)))"
| "footprint_with unf (EExists vars _ body _) =
     bindE (require (no_ref_vars vars)) (\<lambda>_. bindE (footprint_with unf body) (\<lambda>fp.
     perm_difference fp (quantified_places vars)))"
| "footprint_with unf (EPredicateAccessPredicate _ arg perm_amount _) =
     Inr (if is_place arg then
            [case get_label arg of
               None \<Rightarrow> Pred arg perm_amount
             | Some label \<Rightarrow> Pred (expr_old arg label) perm_amount]
          else [])"
| "footprint_with unf (EFieldAccessPredicate place perm_amount _) = Inr [Acc place perm_amount]"
| "footprint_with unf (ELetExpr _ _ _ _) = Inl Panic"
| "footprint_with unf (EDowncast base _ _) = footprint_with unf base"
| "footprint_with unf (ESnapApp e _) = footprint_with unf e"
| "footprint_with unf _ = Inr []"

subsection \<open>Bodies of predicates\<close>

definition struct_body_footprint :: "struct_predicate \<Rightarrow> perms_result" where
  "struct_body_footprint p =
     (case sp_body p of
        Some body \<Rightarrow> footprint_with (\<lambda>_ _ _. Inl Panic) body
      | None \<Rightarrow> Inr [])"

definition get_underapproximated_body_footprint :: "enum_predicate \<Rightarrow> perm list" where
  "get_underapproximated_body_footprint p =
     [Acc (expr_field (from_local (ep_this p)) (ep_discriminant_field p)) Write]"

definition get_variant_footprint :: "enum_predicate \<Rightarrow> enum_variant_index \<Rightarrow> perms_result" where
  "get_variant_footprint p variant =
     bindE (unwrap (expr_variant (from_local (ep_this p)) (get_variant_name variant))) (\<lambda>place.
     Inr [Acc place Write, Pred place Write])"

definition enum_body_footprint :: "enum_predicate \<Rightarrow> enum_variant_index \<Rightarrow> perms_result" where
  "enum_body_footprint p variant =
     bindE (get_variant_footprint p variant) (\<lambda>perms.
     Inr (hs_extend perm_eq (get_underapproximated_body_footprint p) perms))"

fun get_body_footprint :: "predicate \<Rightarrow> maybe_enum_variant_index \<Rightarrow> perms_result" where
  "get_body_footprint (PStruct p) maybe_variant =
     bindE (require (maybe_variant = None)) (\<lambda>_. struct_body_footprint p)"
| "get_body_footprint (PEnum p) maybe_variant =
     (case maybe_variant of
        Some variant \<Rightarrow> enum_body_footprint p variant
      | None \<Rightarrow> Inr (get_underapproximated_body_footprint p))"
| "get_body_footprint (PBodyless _ _) maybe_variant = Inr []"

text \<open>
  What folding or unfolding \<open>place\<close> exchanges: the steps that \<open>fold\<close>, \<open>unfold\<close> and \<open>unfolding\<close> share.
\<close>

definition one_arg :: "expr list \<Rightarrow> failure + expr" where
  "one_arg args = (case args of [place] \<Rightarrow> Inr place | _ \<Rightarrow> Inl Panic)"

definition lookup_predicate :: "predicates \<Rightarrow> expr \<Rightarrow> failure + predicate" where
  "lookup_predicate predicates place =
     bindE (unwrap (expr_typed_ref_name place)) (\<lambda>name_opt.
     bindE (unwrap name_opt) (\<lambda>predicate_name. unwrap (predicates predicate_name)))"

definition places_in_pred ::
  "regex_ops \<Rightarrow> predicate \<Rightarrow> maybe_enum_variant_index \<Rightarrow> expr \<Rightarrow> perms_result" where
  "places_in_pred rx predicate variant place =
     bindE (get_body_footprint predicate variant)
       (mapE (map_place (\<lambda>p. to_panic (replace_place rx p (self_place predicate) place))))"

definition scale_perms :: "perm_amount \<Rightarrow> perm list \<Rightarrow> perms_result" where
  "scale_perms perm_amount perms = mapE (\<lambda>p. unwrap (init_perm_amount p perm_amount)) perms"

text \<open>
  Footprints rescale with \<open>init_perm_amount\<close> and requirements with \<open>update_perm_amount\<close>: the two agree
  (\<open>update_is_init\<close>).
\<close>

definition unfolded_places ::
  "regex_ops \<Rightarrow> predicates \<Rightarrow> expr list \<Rightarrow> perm_amount \<Rightarrow> maybe_enum_variant_index \<Rightarrow> perms_result" where
  "unfolded_places rx predicates args perm_amount variant =
     bindE (one_arg args) (\<lambda>place.
     bindE (lookup_predicate predicates place) (\<lambda>predicate.
     bindE (places_in_pred rx predicate variant place) (\<lambda>places.
     bindE (scale_perms perm_amount places) (\<lambda>scaled. Inr (hs_collect perm_eq scaled)))))"

definition get_footprint :: "regex_ops \<Rightarrow> predicates \<Rightarrow> expr \<Rightarrow> perms_result" where
  "get_footprint rx predicates e = footprint_with (unfolded_places rx predicates) e"

subsection \<open>Required permissions of expressions (requirements.rs)\<close>

definition predicate_access_requirements :: "expr \<Rightarrow> perm list" where
  "predicate_access_requirements place =
     (case get_label place of
        None \<Rightarrow> (if is_old place then [Pred place Read]
                 else hs_collect perm_eq [Pred place Read, Acc place Read])
      | Some label \<Rightarrow> (if is_old place then [Pred (expr_old place label) Read]
                 else hs_collect perm_eq [Pred (expr_old place label) Read, Acc (expr_old place label) Read]))"

text \<open>
  An argument of a function that is a place of reference type requires its predicate, and a Rust
  reference requires the field and the predicate behind it: the source builds \<open>acc(f) && pred(f)\<close>
  for the field \<open>f\<close> and asks for the requirements of that expression, which are these.
\<close>

definition deref_requirements :: "expr \<Rightarrow> perms_result" where
  "deref_requirements field_place =
     bindE (unwrap (pred_permission field_place Read)) (\<lambda>perm.
     bindE (unwrap perm) (\<lambda>_.
     Inr (union_sets perm_eq (union_sets perm_eq [] [Acc field_place Read])
       (predicate_access_requirements field_place))))"

definition place_arg_requirements :: "expr \<Rightarrow> perms_result" where
  "place_arg_requirements arg =
     bindE (unwrap (try_deref arg)) (\<lambda>deref.
     (case deref of
        Some field_place \<Rightarrow> deref_requirements field_place
      | None \<Rightarrow> Inr (predicate_access_requirements arg)))"

definition is_ref_place :: "expr \<Rightarrow> bool" where
  "is_ref_place arg \<longleftrightarrow> is_place arg \<and> (case get_type arg of Some t \<Rightarrow> type_is_ref t | None \<Rightarrow> False)"

definition discriminant_requirement :: "predicates \<Rightarrow> expr \<Rightarrow> perms_result" where
  "discriminant_requirement predicates enum_place =
     bindE (lookup_predicate predicates enum_place) (\<lambda>predicate.
     (case predicate of
        PEnum enum_predicate \<Rightarrow> Inr [Acc (expr_field enum_place (ep_discriminant_field enum_predicate)) Read]
      | _ \<Rightarrow> Inl Panic))"

fun expr_required :: "regex_ops \<Rightarrow> predicates \<Rightarrow> expr \<Rightarrow> perms_result" where
  "expr_required rx preds (EConst _ _) = Inr []"
| "expr_required rx preds (EUnfolding _ args e perm_amount variant _) =
     bindE (unfolded_places rx preds args perm_amount variant) (\<lambda>places.
     bindE (one_arg args) (\<lambda>place.
     bindE (expr_required rx preds e) (\<lambda>expr_req_places.
     bindE (perm_difference expr_req_places places) (\<lambda>req_places.
     Inr (hs_insert perm_eq (Pred place perm_amount) req_places)))))"
| "expr_required rx preds (ELabelledOld _ _ _) = Inr []"
| "expr_required rx preds (EPredicateAccessPredicate _ place _ _) = Inr (predicate_access_requirements place)"
| "expr_required rx preds (EFieldAccessPredicate e _ _) = expr_required rx preds e"
| "expr_required rx preds (EUnaryOp _ e _) = expr_required rx preds e"
| "expr_required rx preds (EBinOp _ left right _) =
     foldE (\<lambda>e res. bindE (expr_required rx preds e) (\<lambda>r. Inr (union_sets perm_eq res r))) [left, right] []"
| "expr_required rx preds (EContainerOp _ left right _) =
     foldE (\<lambda>e res. bindE (expr_required rx preds e) (\<lambda>r. Inr (union_sets perm_eq res r))) [left, right] []"
| "expr_required rx preds (ESeq _ elems _) =
     foldE (\<lambda>e res. bindE (expr_required rx preds e) (\<lambda>r. Inr (union_sets perm_eq res r))) elems []"
| "expr_required rx preds (ECond guard thn elze _) =
     foldE (\<lambda>e res. bindE (expr_required rx preds e) (\<lambda>r. Inr (union_sets perm_eq res r)))
       [guard, thn, elze] []"
| "expr_required rx preds (ELetExpr _ _ _ _) = Inl Panic"
| "expr_required rx preds (EForAll vars _ body _) =
     bindE (require (no_ref_vars vars)) (\<lambda>_. bindE (expr_required rx preds body) (\<lambda>req.
     perm_difference req (quantified_places vars)))"
| "expr_required rx preds (EExists vars _ body _) =
     bindE (require (no_ref_vars vars)) (\<lambda>_. bindE (expr_required rx preds body) (\<lambda>req.
     perm_difference req (quantified_places vars)))"
| "expr_required rx preds (ELocal _ _) = Inr []"
| "expr_required rx preds (EAddrOf _ _ _) = Inl Panic"
| "expr_required rx preds (EVariant b f p) = Inr [Acc (EVariant b f p) Read]"
| "expr_required rx preds (EField b f p) = Inr [Acc (EField b f p) Read]"
| "expr_required rx preds (EMagicWand _ _ _ _) = Inr []"
| "expr_required rx preds (EFuncApp _ args _ _ _) =
     foldE (\<lambda>arg res. bindE (if is_ref_place arg then place_arg_requirements arg
                             else expr_required rx preds arg)
       (\<lambda>r. Inr (union_sets perm_eq res r))) args []"
| "expr_required rx preds (EDomainFuncApp _ args _) =
     foldE (\<lambda>arg res. bindE (if is_ref_place arg then place_arg_requirements arg
                             else expr_required rx preds arg)
       (\<lambda>r. Inr (union_sets perm_eq res r))) args []"
| "expr_required rx preds (EInhaleExhale _ _ _) = Inr []"
| "expr_required rx preds (EDowncast _ enum_place _) = discriminant_requirement preds enum_place"
| "expr_required rx preds (ESnapApp _ _) = Inl Panic"

definition exprs_required :: "regex_ops \<Rightarrow> predicates \<Rightarrow> expr list \<Rightarrow> perms_result" where
  "exprs_required rx preds es =
     foldE (\<lambda>e res. bindE (expr_required rx preds e) (\<lambda>r. Inr (union_sets perm_eq res r))) es []"

subsection \<open>Required permissions of statements\<close>

definition with_default_pos :: "position \<Rightarrow> perm list \<Rightarrow> perm list" where
  "with_default_pos pos perms = hs_collect perm_eq (map (perm_set_default_pos pos) perms)"

fun stmt_required :: "regex_ops \<Rightarrow> predicates \<Rightarrow> (string \<Rightarrow> expr list option) \<Rightarrow> stmt \<Rightarrow> perms_result" where
  "stmt_required rx preds old_exprs (SComment _) = Inr []"
| "stmt_required rx preds old_exprs (SLabel label) =
     (case old_exprs label of Some es \<Rightarrow> exprs_required rx preds es | None \<Rightarrow> Inr [])"
| "stmt_required rx preds old_exprs (SInhale e) =
     bindE (expr_required rx preds e) (\<lambda>req. bindE (get_footprint rx preds e) (\<lambda>fp. perm_difference req fp))"
| "stmt_required rx preds old_exprs (SExhale e pos) =
     bindE (expr_required rx preds e) (\<lambda>perms. Inr (with_default_pos pos perms))"
| "stmt_required rx preds old_exprs (SAssert e pos) =
     bindE (expr_required rx preds e) (\<lambda>perms. Inr (with_default_pos pos perms))"
| "stmt_required rx preds old_exprs (SObtain e pos) =
     bindE (expr_required rx preds e) (\<lambda>perms. Inr (with_default_pos pos perms))"
| "stmt_required rx preds old_exprs (SMethodCall _ args vars) =
     bindE (require (args = [])) (\<lambda>_.
     Inr (hs_collect perm_eq (map (\<lambda>v. Acc (expr_local v) Write) vars)))"
| "stmt_required rx preds old_exprs (SAssign lhs rhs _) =
     bindE (expr_required rx preds rhs) (\<lambda>res. Inr (hs_insert perm_eq (Acc lhs Write) res))"
| "stmt_required rx preds old_exprs (SFold _ args perm_amount variant _) =
     unfolded_places rx preds args perm_amount variant"
| "stmt_required rx preds old_exprs (SUnfold _ args perm_amount _) =
     bindE (one_arg args) (\<lambda>place. bindE (expr_required rx preds place) (\<lambda>perms.
     bindE (scale_perms perm_amount perms) (\<lambda>scaled. Inr (hs_collect perm_eq scaled))))"
| "stmt_required rx preds old_exprs SBeginFrame = Inr []"
| "stmt_required rx preds old_exprs SEndFrame = Inr []"
| "stmt_required rx preds old_exprs (STransferPerm lhs _ unchecked) =
     Inr (if \<not> unchecked then [Acc lhs Read] else [])"
| "stmt_required rx preds old_exprs (SPackageMagicWand wand _ _ _ _) =
     (case wand of EMagicWand _ _ _ _ \<Rightarrow> Inr [] | _ \<Rightarrow> Inl Panic)"
| "stmt_required rx preds old_exprs (SApplyMagicWand wand _) =
     (case wand of EMagicWand lhs _ _ _ \<Rightarrow> expr_required rx preds lhs | _ \<Rightarrow> Inl Panic)"
| "stmt_required rx preds old_exprs (SExpireBorrows _) = Inr []"
| "stmt_required rx preds old_exprs (SIf guard thn elze) =
     bindE (expr_required rx preds guard) (\<lambda>guard_reqs.
     bindE (foldE (\<lambda>s res. bindE (stmt_required rx preds old_exprs s) (\<lambda>r. Inr (union_sets perm_eq res r)))
              thn []) (\<lambda>then_reqs.
     bindE (foldE (\<lambda>s res. bindE (stmt_required rx preds old_exprs s) (\<lambda>r. Inr (union_sets perm_eq res r)))
              elze []) (\<lambda>elze_reqs.
     Inr (union_sets perm_eq guard_reqs (intersection_sets perm_eq then_reqs elze_reqs)))))"
| "stmt_required rx preds old_exprs (SDowncast enum_place variant_field) =
     expr_required rx preds (expr_downcast (from_bool True) enum_place variant_field)"

subsection \<open>The footprint of a struct\<close>

lemma footprint_conjoin:
  assumes "\<And>e. e \<in> set es \<Longrightarrow> footprint_with unf e = Inr (g e) \<and> (\<forall>p \<in> set (g e). perm_eq p p)"
  shows "\<exists>res. footprint_with unf (conjoin es) = Inr res \<and> (\<forall>p \<in> set res. perm_eq p p) \<and>
    (\<forall>q. hs_member perm_eq res q \<longleftrightarrow> (\<exists>e \<in> set es. hs_member perm_eq (g e) q))"
  using assms
proof (induction es)
  case Nil
  show ?case by (simp add: from_bool_def hs_member_def)
next
  case (Cons e es)
  have "\<exists>res. footprint_with unf (conjoin es) = Inr res \<and> (\<forall>p \<in> set res. perm_eq p p) \<and>
    (\<forall>q. hs_member perm_eq res q \<longleftrightarrow> (\<exists>e \<in> set es. hs_member perm_eq (g e) q))"
    by (rule Cons.IH) (use Cons.prems in auto)
  then obtain res where res: "footprint_with unf (conjoin es) = Inr res" "\<forall>p \<in> set res. perm_eq p p"
    "\<And>q. hs_member perm_eq res q \<longleftrightarrow> (\<exists>e \<in> set es. hs_member perm_eq (g e) q)" by blast
  have e: "footprint_with unf e = Inr (g e)" "\<forall>p \<in> set (g e). perm_eq p p"
    using Cons.prems [of e] by simp_all
  let ?u = "hs_extend perm_eq (g e) res"
  have "footprint_with unf (conjoin (e # es)) = Inr ?u"
    using e(1) res(1) by (simp add: expr_and_def expr_bin_def union_sets_def)
  moreover have "\<forall>p \<in> set ?u. perm_eq p p"
    using hs_extend_set [of perm_eq "g e" res] e(2) res(2) by blast
  moreover have "hs_member perm_eq ?u q \<longleftrightarrow> (\<exists>e' \<in> set (e # es). hs_member perm_eq (g e') q)" for q
    using pe.member_extend [of res "g e" q] res(2,3) by auto
  ultimately show ?case by blast
qed

definition self_field :: "type \<Rightarrow> vfield \<Rightarrow> expr" where
  "self_field typ f = expr_field (from_local (construct_this typ)) f"

definition permission_footprint :: "expr \<Rightarrow> perm list" where
  "permission_footprint e = (case e of
     EFieldAccessPredicate place q _ \<Rightarrow> [Acc place q]
   | EPredicateAccessPredicate _ place q _ \<Rightarrow> [Pred place q]
   | _ \<Rightarrow> [])"

lemma permission_footprint_simps [simp]:
  "permission_footprint (acc_permission place q) = [Acc place q]"
  "permission_footprint (predicate_access_predicate n place q) = [Pred place q]"
  by (simp_all add: permission_footprint_def acc_permission_def predicate_access_predicate_def)

lemma mapO_the: "mapO f xs = Some ys \<Longrightarrow> ys = map (the \<circ> f) xs \<and> (\<forall>x \<in> set xs. f x \<noteq> None)"
  by (induction xs arbitrary: ys) (auto split: option.splits)

lemma struct_conjuncts:
  assumes "mapO (field_permissions (construct_this typ)) flds = Some parts"
  shows "set (concat parts) = (\<Union>f \<in> set flds. {acc_permission (self_field typ f) Write,
    predicate_access_predicate (the (field_typed_ref_name f)) (self_field typ f) Write})"
proof -
  have "the (field_permissions (construct_this typ) f) = [acc_permission (self_field typ f) Write,
      predicate_access_predicate (the (field_typed_ref_name f)) (self_field typ f) Write]"
    if "f \<in> set flds" for f
    using mapO_the [OF assms] that by (auto simp: field_permissions_def self_field_def Let_def)
  then show ?thesis using mapO_the [OF assms] by auto
qed

text \<open>
  C40 The predicate that \<open>StructPredicate::new\<close> builds for a struct type has a body footprint, and it
  is exactly a full access and a full predicate permission for each field of \<open>self\<close>: this is what
  a fold of the struct consumes and what an unfold produces.
\<close>

theorem struct_footprint_exact:
  assumes "new_struct typ flds = Some p"
  shows "\<exists>res. get_body_footprint p None = Inr res \<and>
    (\<forall>q. hs_member perm_eq res q \<longleftrightarrow>
       (\<exists>f \<in> set flds. perm_eq (Acc (self_field typ f) Write) q \<or> perm_eq (Pred (self_field typ f) Write) q))"
proof -
  obtain parts where parts: "mapO (field_permissions (construct_this typ)) flds = Some parts"
    and p: "p = PStruct \<lparr>sp_name = type_name typ, sp_this = construct_this typ,
      sp_body = Some (conjoin (concat parts))\<rparr>"
    using assms by (auto simp: new_struct_def struct_predicate_new_def Let_def)
  have fp: "footprint_with unf e = Inr (permission_footprint e) \<and>
      (\<forall>q \<in> set (permission_footprint e). perm_eq q q)" if "e \<in> set (concat parts)" for unf e
    using that unfolding struct_conjuncts [OF parts]
    by (auto simp: acc_permission_def predicate_access_predicate_def permission_footprint_def
        self_field_def expr_field_def from_local_def)
  have mem: "(\<exists>e \<in> set (concat parts). hs_member perm_eq (permission_footprint e) q) \<longleftrightarrow>
      (\<exists>f \<in> set flds. perm_eq (Acc (self_field typ f) Write) q \<or> perm_eq (Pred (self_field typ f) Write) q)" for q
    unfolding struct_conjuncts [OF parts] by (auto simp: hs_member_def)
  obtain res where "footprint_with (\<lambda>_ _ _. Inl Panic) (conjoin (concat parts)) = Inr res"
    "\<And>q. hs_member perm_eq res q \<longleftrightarrow> (\<exists>e \<in> set (concat parts). hs_member perm_eq (permission_footprint e) q)"
    using footprint_conjoin [OF fp, of "concat parts" "\<lambda>_ _ _. Inl Panic"] by blast
  then show ?thesis unfolding mem by (simp add: p struct_body_footprint_def)
qed

theorem struct_footprint_exact_witness:
  "let f = field_new ''f'' (TTypedRef ''i32''); typ = TTypedRef ''S'' in
   \<exists>p res. new_struct typ [f] = Some p \<and> get_body_footprint p None = Inr res \<and>
     hs_member perm_eq res (Pred (self_field typ f) Write)"
proof -
  let ?f = "field_new ''f'' (TTypedRef ''i32'')" and ?ty = "TTypedRef ''S''"
  obtain p where p: "new_struct ?ty [?f] = Some p"
    by (simp add: new_struct_def struct_predicate_new_def field_permissions_def field_typed_ref_name_def
        field_new_def Let_def)
  have "perm_eq (Pred (self_field ?ty ?f) Write) (Pred (self_field ?ty ?f) Write)"
    by (simp add: self_field_def expr_field_def from_local_def)
  then show ?thesis unfolding Let_def using struct_footprint_exact [OF p] p by auto
qed

end
