(* ===== verification/Fu_Semantics.thy ===== *)
theory Fu_Semantics
  imports Fu_State Fu_Footprint
begin

section \<open>Fold-unfold: the effect of statements (foldunfold/semantics.rs)\<close>

text \<open>
  How a VIR statement changes the permission state: \<open>inhale\<close> and \<open>exhale\<close> add and remove footprints,
  an assignment moves permissions from the right to the left, \<open>fold\<close> and \<open>unfold\<close> exchange a predicate
  and its body, and the expiry of a borrow transfers permissions back.  Statements that the
  algorithm must not meet are \<open>unimplemented!\<close>, a panic.  The debug assertions of the file, that arguments are
  places, have reference types or are held, are not modelled: this is the behaviour of a release build.
\<close>

subsection \<open>The variant of an unfolded enum\<close>

text \<open>
  The variants found are collected in a hash set and the first one is taken; at most one is expected,
  a debug assertion.
\<close>

definition find_unfolded_variant :: "fu_state \<Rightarrow> expr \<Rightarrow> failure + maybe_enum_variant_index" where
  "find_unfolded_variant st enum_place =
     bindE (filterE (\<lambda>place. bindE (place_proper_prefix place enum_place) (\<lambda>b. Inr (b \<and> is_variant place)))
              (acc_places st)) (\<lambda>variant_places.
     bindE (mapE (find_variant enum_place) variant_places) (\<lambda>found.
     Inr (case concat (map (\<lambda>v. case v of Some i \<Rightarrow> [i] | None \<Rightarrow> []) found) of [] \<Rightarrow> None | i # _ \<Rightarrow> Some i)))"

subsection \<open>Inhale and exhale\<close>

definition inhale_expr :: "regex_ops \<Rightarrow> predicates \<Rightarrow> expr \<Rightarrow> fu_state \<Rightarrow> failure + fu_state" where
  "inhale_expr rx preds e st =
     bindE (get_footprint rx preds e) (\<lambda>fp.
     insert_all_perms st (filter (\<lambda>p. \<not> (perm_is_local p \<and> is_acc p)) fp))"

definition exhale_expr :: "regex_ops \<Rightarrow> predicates \<Rightarrow> expr \<Rightarrow> fu_state \<Rightarrow> failure + fu_state" where
  "exhale_expr rx preds e st =
     bindE (get_footprint rx preds e) (\<lambda>fp.
     remove_all_perms st
       (filter (\<lambda>p. (perm_is_curr p \<or> is_pred p) \<and> \<not> (perm_is_local p \<and> is_acc p) \<and>
                    perm_get_label p \<noteq> Some ''pre'') fp))"

subsection \<open>Assignments\<close>

definition base_in :: "local_var list \<Rightarrow> expr \<Rightarrow> failure + bool" where
  "base_in targets p = bindE (unwrap (get_base p)) (\<lambda>b. Inr (vars_contain targets b))"

definition guarded :: "bool \<Rightarrow> failure + bool \<Rightarrow> failure + bool" where
  "guarded c r = (if c then r else Inr False)"

definition proper_nonlocal :: "expr \<Rightarrow> expr \<Rightarrow> failure + bool" where
  "proper_nonlocal place p = bindE (place_proper_prefix p place) (\<lambda>b. Inr (b \<and> \<not> is_local p))"

text \<open>A permission below \<open>source\<close>, renamed below \<open>target\<close>; nothing when it is not below.\<close>

definition rename_acc ::
  "regex_ops \<Rightarrow> expr \<Rightarrow> expr \<Rightarrow> expr \<times> perm_amount \<Rightarrow> failure + (expr \<times> perm_amount) list" where
  "rename_acc rx source target entry = (case entry of (p, perm_amount) \<Rightarrow>
     bindE (place_proper_prefix p source) (\<lambda>b.
     if b then bindE (to_panic (replace_place rx p source target)) (\<lambda>q.
            Inr (if is_local q then [] else [(q, perm_amount)]))
     else Inr []))"

definition rename_pred ::
  "regex_ops \<Rightarrow> expr \<Rightarrow> expr \<Rightarrow> expr \<times> perm_amount \<Rightarrow> failure + (expr \<times> perm_amount) list" where
  "rename_pred rx source target entry = (case entry of (p, perm_amount) \<Rightarrow>
     bindE (place_prefix p source) (\<lambda>b.
     if b then bindE (to_panic (replace_place rx p source target)) (\<lambda>q. Inr [(q, perm_amount)])
     else Inr []))"

definition check_rhs :: "expr \<Rightarrow> fu_state \<Rightarrow> failure + unit" where
  "check_rhs rhs st =
     bindE (require (is_place rhs)) (\<lambda>_.
     bindE (unwrap (get_type rhs)) (\<lambda>typ.
     bindE (require (type_is_ref typ)) (\<lambda>_.
     bindE (is_prefix_of_some_moved st rhs) (\<lambda>moved.
     if moved then Inl (Err (Unsupported ''two-phase borrows are not supported''))
     else bindE (unwrap (all_proper_prefixes rhs)) (\<lambda>prefixes.
          each prefixes (\<lambda>prefix. require (\<not> contains_pred st prefix)))))))"

definition lose_permissions :: "expr \<Rightarrow> fu_state \<Rightarrow> failure + fu_state" where
  "lose_permissions place st =
     bindE (remove_pred_matching (\<lambda>p. place_prefix p place) st) (\<lambda>st.
     remove_acc_matching (proper_nonlocal place) st)"

definition move_permissions :: "regex_ops \<Rightarrow> expr \<Rightarrow> expr \<Rightarrow> fu_state \<Rightarrow> fu_state \<Rightarrow> failure + fu_state" where
  "move_permissions rx lhs_place rhs original_state st =
     bindE (lose_permissions rhs st) (\<lambda>st.
     bindE (lose_permissions lhs_place st) (\<lambda>st.
     bindE (foldE (\<lambda>e st. bindE (rename_acc rx rhs lhs_place e) (insert_all_acc st)) (st_acc original_state) st) (\<lambda>st.
     bindE (foldE (\<lambda>e st. bindE (rename_pred rx rhs lhs_place e) (insert_all_pred st)) (st_pred original_state) st) (\<lambda>st.
     bindE (place_prefix rhs lhs_place) (\<lambda>b.
     Inr (if b then st else insert_moved st rhs))))))"

definition apply_assign ::
  "regex_ops \<Rightarrow> expr \<Rightarrow> expr \<Rightarrow> assign_kind \<Rightarrow> fu_state \<Rightarrow> failure + fu_state" where
  "apply_assign rx lhs_place rhs kind original_state =
     bindE (if kind \<noteq> Copy then check_rhs rhs original_state else Inr ()) (\<lambda>_.
     bindE (remove_moved_matching (\<lambda>p. place_prefix p lhs_place) original_state) (\<lambda>st.
     bindE (remove_pred_matching (\<lambda>p. place_prefix p lhs_place) st) (\<lambda>st.
     bindE (remove_acc_matching (\<lambda>p. place_proper_prefix p lhs_place) st) (\<lambda>st.
     if is_ref_place rhs then
       (case kind of
          Move \<Rightarrow> move_permissions rx lhs_place rhs original_state st
        | MutableBorrow _ \<Rightarrow> move_permissions rx lhs_place rhs original_state st
        | SharedBorrow _ \<Rightarrow> lose_permissions lhs_place st
        | Ghost \<Rightarrow> Inl Panic
        | Copy \<Rightarrow> Inl Panic)
     else bindE (require (kind = Copy)) (\<lambda>_. Inr st)))))"

subsection \<open>Fold and unfold\<close>

definition apply_fold ::
  "regex_ops \<Rightarrow> predicates \<Rightarrow> expr list \<Rightarrow> perm_amount \<Rightarrow> maybe_enum_variant_index \<Rightarrow> fu_state \<Rightarrow>
   failure + fu_state" where
  "apply_fold rx preds args perm_amount variant st =
     bindE (one_arg args) (\<lambda>place.
     bindE (require (\<not> contains_pred st place)) (\<lambda>_.
     bindE (is_prefix_of_some_moved st place) (\<lambda>moved.
     bindE (require (\<not> moved)) (\<lambda>_.
     bindE (lookup_predicate preds place) (\<lambda>predicate.
     bindE (places_in_pred rx predicate variant place) (\<lambda>places.
     bindE (scale_perms perm_amount places) (\<lambda>scaled.
     bindE (remove_all_perms st scaled) (\<lambda>st.
     insert_pred st place perm_amount))))))))"

definition apply_unfold ::
  "regex_ops \<Rightarrow> predicates \<Rightarrow> expr list \<Rightarrow> perm_amount \<Rightarrow> maybe_enum_variant_index \<Rightarrow> fu_state \<Rightarrow>
   failure + fu_state" where
  "apply_unfold rx preds args perm_amount variant st =
     bindE (one_arg args) (\<lambda>place.
     bindE (require (contains_pred st place)) (\<lambda>_.
     bindE (is_prefix_of_some_moved st place) (\<lambda>moved.
     bindE (require (\<not> moved)) (\<lambda>_.
     bindE (lookup_predicate preds place) (\<lambda>predicate.
     bindE (places_in_pred rx predicate variant place) (\<lambda>places.
     bindE (each places (\<lambda>p. require (\<not> contains_perm st p))) (\<lambda>_.
     bindE (remove_pred st place perm_amount) (\<lambda>st.
     insert_all_perms st places))))))))"

subsection \<open>Expiring borrows and downcasts\<close>

definition move_old_acc :: "expr \<Rightarrow> expr \<Rightarrow> fu_state \<Rightarrow> failure + fu_state" where
  "move_old_acc lhs_place rhs_place st =
     (case hm_get expr_eq (st_acc st) lhs_place of
        Some amount \<Rightarrow>
          (if \<not> contains_acc st rhs_place \<and> is_old rhs_place then
             bindE (insert_acc st rhs_place amount) (\<lambda>st.
             if \<not> is_local lhs_place \<and> \<not> is_curr lhs_place
             then bindE (remove_acc_place st lhs_place) (\<lambda>(_, st). Inr st)
             else Inr st)
           else Inr st)
      | None \<Rightarrow> Inr st)"

definition apply_transfer_perm ::
  "regex_ops \<Rightarrow> expr \<Rightarrow> expr \<Rightarrow> bool \<Rightarrow> fu_state \<Rightarrow> failure + fu_state" where
  "apply_transfer_perm rx lhs_place rhs_place unchecked original_state =
     bindE (lose_permissions lhs_place original_state) (\<lambda>st.
     bindE (lose_permissions rhs_place st) (\<lambda>st.
     bindE (remove_moved_matching (\<lambda>p. place_prefix p rhs_place) st) (\<lambda>st.
     bindE (unwrap (get_type rhs_place)) (\<lambda>typ.
     let rhs_is_array = starts_with (type_name typ) ''Array$'' in
     bindE (if rhs_is_array then Inr [] else mapE (rename_acc rx lhs_place rhs_place) (st_acc original_state)) (\<lambda>new_accs.
     bindE (if rhs_is_array then Inr [[(rhs_place, Write)]]
            else mapE (rename_pred rx lhs_place rhs_place) (st_pred original_state)) (\<lambda>new_preds.
     bindE (insert_all_acc st (concat new_accs)) (\<lambda>st.
     bindE (insert_all_pred st (concat new_preds)) (\<lambda>st.
     bindE (move_old_acc lhs_place rhs_place st) (\<lambda>st.
     bindE (if contains_acc st lhs_place \<and> is_old lhs_place
            then bindE (remove_acc_place st lhs_place) (\<lambda>(_, st). Inr st) else Inr st) (\<lambda>st.
     bindE (place_prefix lhs_place rhs_place) (\<lambda>b.
     Inr (if \<not> b \<and> \<not> unchecked then insert_moved st lhs_place else st))))))))))))"

definition apply_downcast ::
  "regex_ops \<Rightarrow> predicates \<Rightarrow> expr \<Rightarrow> vfield \<Rightarrow> fu_state \<Rightarrow> failure + fu_state" where
  "apply_downcast rx preds enum_place variant_field st =
     bindE (find_unfolded_variant st enum_place) (\<lambda>found.
     if found \<noteq> None then Inr st
     else
       bindE (lookup_predicate preds enum_place) (\<lambda>predicate.
       (case predicate of
          PEnum enum_predicate \<Rightarrow>
            (case hm_get expr_eq (st_acc st) (expr_field enum_place (ep_discriminant_field enum_predicate)) of
               Some perm_amount \<Rightarrow>
                 bindE (unwrap (field_into_variant_index variant_field)) (\<lambda>variant.
                 bindE (get_variant_footprint enum_predicate variant) (\<lambda>perms.
                 bindE (mapE (\<lambda>perm. bindE (unwrap (update_perm_amount perm perm_amount))
                     (map_place (\<lambda>p. to_panic (replace_place rx p (from_local (ep_this enum_predicate)) enum_place))))
                     perms) (\<lambda>variant_footprint.
                 insert_all_perms st variant_footprint)))
             | None \<Rightarrow> Inr st)
        | _ \<Rightarrow> Inl Panic)))"

subsection \<open>All statements\<close>

fun apply_on_state :: "regex_ops \<Rightarrow> predicates \<Rightarrow> stmt \<Rightarrow> fu_state \<Rightarrow> failure + fu_state" where
  "apply_on_state rx preds (SComment _) st = Inr st"
| "apply_on_state rx preds (SLabel _) st = Inr st"
| "apply_on_state rx preds (SAssert _ _) st = Inr st"
| "apply_on_state rx preds (SObtain _ _) st = Inr st"
| "apply_on_state rx preds (SInhale e) st = inhale_expr rx preds e st"
| "apply_on_state rx preds (SExhale e _) st = exhale_expr rx preds e st"
| "apply_on_state rx preds (SMethodCall _ _ targets) st =
     bindE (remove_moved_matching (base_in targets) st) (\<lambda>st.
     bindE (remove_pred_matching (\<lambda>p. guarded (is_curr p) (base_in targets p)) st) (\<lambda>st.
     remove_acc_matching (\<lambda>p. guarded (is_curr p \<and> \<not> is_local p) (base_in targets p)) st))"
| "apply_on_state rx preds (SAssign lhs_place rhs kind) st =
     (if kind = Ghost then Inr st else apply_assign rx lhs_place rhs kind st)"
| "apply_on_state rx preds (SFold _ args perm_amount variant _) st =
     apply_fold rx preds args perm_amount variant st"
| "apply_on_state rx preds (SUnfold _ args perm_amount variant) st =
     apply_unfold rx preds args perm_amount variant st"
| "apply_on_state rx preds SBeginFrame st = begin_frame st"
| "apply_on_state rx preds SEndFrame st = end_frame st"
| "apply_on_state rx preds (STransferPerm lhs_place rhs_place unchecked) st =
     apply_transfer_perm rx lhs_place rhs_place unchecked st"
| "apply_on_state rx preds (SPackageMagicWand wand _ _ _ _) st =
     (case wand of
        EMagicWand lhs rhs _ _ \<Rightarrow> bindE (exhale_expr rx preds rhs st) (inhale_expr rx preds lhs)
      | _ \<Rightarrow> Inl Panic)"
| "apply_on_state rx preds (SApplyMagicWand wand _) st =
     (case wand of
        EMagicWand lhs rhs _ _ \<Rightarrow> bindE (exhale_expr rx preds lhs st) (inhale_expr rx preds rhs)
      | _ \<Rightarrow> Inl Panic)"
| "apply_on_state rx preds (SExpireBorrows _) st = Inr st"
| "apply_on_state rx preds (SDowncast enum_place variant_field) st =
     apply_downcast rx preds enum_place variant_field st"
| "apply_on_state rx preds (SIf _ _ _) st = Inl Panic"

subsection \<open>Full permissions: what insertion and removal do\<close>

definition held :: "fu_state \<Rightarrow> perm \<Rightarrow> perm_amount option" where
  "held st p = hm_get expr_eq (if is_acc p then st_acc st else st_pred st) (get_place p)"

definition same_rest :: "fu_state \<Rightarrow> fu_state \<Rightarrow> bool" where
  "same_rest st st' \<longleftrightarrow> st_moved st = st_moved st' \<and> st_framing_stack st = st_framing_stack st' \<and>
     st_dropped st = st_dropped st'"

definition full_perm :: "perm \<Rightarrow> bool" where
  "full_perm p \<longleftrightarrow> get_perm_amount p = Write \<and> eq_supported (get_place p)"

lemma same_content_held: "same_content st st' \<longleftrightarrow> (\<forall>q. held st q = held st' q) \<and> same_rest st st'"
proof -
  have "(\<forall>q. held st q = held st' q) \<longleftrightarrow>
      (\<forall>k. hm_get expr_eq (st_acc st) k = hm_get expr_eq (st_acc st') k) \<and>
      (\<forall>k. hm_get expr_eq (st_pred st) k = hm_get expr_eq (st_pred st') k)"
  proof (intro iffI conjI allI)
    fix k assume all: "\<forall>q. held st q = held st' q"
    show "hm_get expr_eq (st_acc st) k = hm_get expr_eq (st_acc st') k"
      using all [rule_format, of "Acc k Write"] by (simp add: held_def)
    show "hm_get expr_eq (st_pred st) k = hm_get expr_eq (st_pred st') k"
      using all [rule_format, of "Pred k Write"] by (simp add: held_def)
  qed (simp add: held_def)
  then show ?thesis by (auto simp: same_content_def same_map_def same_rest_def)
qed

lemma contains_perm_held: "contains_perm st p \<longleftrightarrow> held st p \<noteq> None"
  by (cases p) (simp_all add: held_def contains_acc_def contains_pred_def hm_contains_def)

lemma held_cong: "same_location p q \<Longrightarrow> held st p = held st q"
  using ex.get_cong by (auto simp: same_location_def held_def)

lemma perm_add_Write: "perm_add c Write = Inl e \<longleftrightarrow> e = InvalidAdd c Write"
  by (cases c) auto

lemma insert_full:
  assumes "full_perm p"
  shows "insert_perm st p = Inr st' \<Longrightarrow>
      held st p = None \<and> (\<forall>q. held st' q = (if same_location p q then Some Write else held st q)) \<and>
      same_rest st' st"
    and "held st p = None \<Longrightarrow> \<exists>st'. insert_perm st p = Inr st'"
proof -
  obtain k where p: "p = Acc k Write \<or> p = Pred k Write" and k: "expr_eq k k"
    using assms by (cases p) (auto simp: full_perm_def expr_eq_refl_iff)
  have no_add: "perm_add c Write \<noteq> Inr r" for c r by (cases c) auto
  have add: "add_amount m k Write = Inr m' \<longleftrightarrow> hm_get expr_eq m k = None \<and> m' = hm_insert expr_eq m k Write" for m m'
    by (auto simp: add_amount_def fallible_simps no_add split: option.splits)
  show "insert_perm st p = Inr st' \<Longrightarrow>
      held st p = None \<and> (\<forall>q. held st' q = (if same_location p q then Some Write else held st q)) \<and>
      same_rest st' st"
    using p
    by (auto simp: insert_acc_def insert_pred_def fallible_simps add held_def same_location_def
        same_rest_def ex.get_insert [OF k])
  show "held st p = None \<Longrightarrow> \<exists>st'. insert_perm st p = Inr st'"
    using p by (auto simp: insert_acc_def insert_pred_def fallible_simps add held_def)
qed

lemma remove_full:
  assumes "full_perm p"
  shows "remove_perm st p = Inr st' \<Longrightarrow>
      held st p = Some Write \<and> (\<forall>q. held st' q = (if same_location p q then None else held st q)) \<and>
      same_rest st' st"
    and "held st p = Some Write \<Longrightarrow> \<exists>st'. remove_perm st p = Inr st'"
proof -
  obtain k where p: "p = Acc k Write \<or> p = Pred k Write" and k: "expr_eq k k"
    using assms by (cases p) (auto simp: full_perm_def expr_eq_refl_iff)
  have no_sub: "perm_sub c Write \<noteq> Inr r" for c r by (cases c) auto
  have sub: "sub_amount m k c Write = Inr m' \<longleftrightarrow> c = Write \<and> m' = hm_remove expr_eq m k" for m m' c
    by (auto simp: sub_amount_def fallible_simps no_sub)
  show "remove_perm st p = Inr st' \<Longrightarrow>
      held st p = Some Write \<and> (\<forall>q. held st' q = (if same_location p q then None else held st q)) \<and>
      same_rest st' st"
    using p
    by (auto simp: remove_acc_def remove_pred_def fallible_simps sub held_def same_location_def
        same_rest_def ex.get_remove split: option.splits)
  show "held st p = Some Write \<Longrightarrow> \<exists>st'. remove_perm st p = Inr st'"
    using p by (auto simp: remove_acc_def remove_pred_def fallible_simps sub held_def)
qed

text \<open>The same for lists of permissions at pairwise different locations.\<close>

definition apart :: "perm list \<Rightarrow> bool" where
  "apart ps = sorted_wrt (\<lambda>p q. \<not> same_location p q) ps"

definition at_some :: "perm list \<Rightarrow> perm \<Rightarrow> bool" where
  "at_some ps q \<longleftrightarrow> (\<exists>p \<in> set ps. same_location p q)"

lemma at_some_Cons: "at_some (p # ps) q \<longleftrightarrow> same_location p q \<or> at_some ps q"
  by (auto simp: at_some_def)

lemma same_location_sym: "same_location p q \<Longrightarrow> same_location q p"
  by (auto simp: same_location_def intro: expr_eq_sym)

lemma same_location_refl: "full_perm p \<Longrightarrow> same_location p p"
  by (simp add: same_location_def full_perm_def expr_eq_refl_iff)

lemma insert_all_full:
  assumes "list_all full_perm ps" "insert_all_perms st ps = Inr st'"
  shows "apart ps \<and> (\<forall>p \<in> set ps. held st p = None) \<and>
    (\<forall>q. held st' q = (if at_some ps q then Some Write else held st q)) \<and> same_rest st' st"
  using assms
proof (induction ps arbitrary: st)
  case Nil
  then show ?case by (simp add: insert_all_perms_def apart_def at_some_def same_rest_def)
next
  case (Cons p ps)
  obtain st1 where st1: "insert_perm st p = Inr st1" "insert_all_perms st1 ps = Inr st'"
    using Cons.prems(2) by (auto simp: insert_all_perms_def fallible_simps)
  note first = insert_full(1) [OF _ st1(1)]
  have p: "full_perm p" "list_all full_perm ps" using Cons.prems(1) by simp_all
  note rest = Cons.IH [OF p(2) st1(2)]
  have held1: "held st1 q = (if same_location p q then Some Write else held st q)" for q
    using first [OF p(1)] by simp
  have new: "\<not> same_location p q \<and> held st q = None" if "q \<in> set ps" for q
    using rest that held1 [of q] by (auto split: if_splits)
  then show ?case
    using first [OF p(1)] rest held1 by (auto simp: apart_def at_some_Cons same_rest_def)
qed

lemma insert_all_full_ok:
  assumes "list_all full_perm ps" "apart ps" "\<forall>p \<in> set ps. held st p = None"
  shows "\<exists>st'. insert_all_perms st ps = Inr st'"
  using assms
proof (induction ps arbitrary: st)
  case (Cons p ps)
  have p: "full_perm p" "list_all full_perm ps" using Cons.prems(1) by simp_all
  obtain st1 where st1: "insert_perm st p = Inr st1" using insert_full(2) [OF p(1)] Cons.prems(3) by auto
  have "\<forall>q \<in> set ps. held st1 q = None"
    using insert_full(1) [OF p(1) st1] Cons.prems(2,3) by (auto simp: apart_def)
  then show ?case
    using Cons.IH [OF p(2), of st1] Cons.prems(2) st1 by (auto simp: apart_def insert_all_perms_def)
qed (simp add: insert_all_perms_def)

lemma remove_all_full:
  assumes "list_all full_perm ps" "remove_all_perms st ps = Inr st'"
  shows "apart ps \<and> (\<forall>p \<in> set ps. held st p = Some Write) \<and>
    (\<forall>q. held st' q = (if at_some ps q then None else held st q)) \<and> same_rest st' st"
  using assms
proof (induction ps arbitrary: st)
  case Nil
  then show ?case by (simp add: remove_all_perms_def apart_def at_some_def same_rest_def)
next
  case (Cons p ps)
  obtain st1 where st1: "remove_perm st p = Inr st1" "remove_all_perms st1 ps = Inr st'"
    using Cons.prems(2) by (auto simp: remove_all_perms_def fallible_simps)
  note first = remove_full(1) [OF _ st1(1)]
  have p: "full_perm p" "list_all full_perm ps" using Cons.prems(1) by simp_all
  note rest = Cons.IH [OF p(2) st1(2)]
  have held1: "held st1 q = (if same_location p q then None else held st q)" for q
    using first [OF p(1)] by simp
  have new: "\<not> same_location p q \<and> held st q = Some Write" if "q \<in> set ps" for q
    using rest that held1 [of q] by (auto split: if_splits)
  then show ?case
    using first [OF p(1)] rest held1 by (auto simp: apart_def at_some_Cons same_rest_def)
qed

lemma remove_all_full_ok:
  assumes "list_all full_perm ps" "apart ps" "\<forall>p \<in> set ps. held st p = Some Write"
  shows "\<exists>st'. remove_all_perms st ps = Inr st'"
  using assms
proof (induction ps arbitrary: st)
  case (Cons p ps)
  have p: "full_perm p" "list_all full_perm ps" using Cons.prems(1) by simp_all
  obtain st1 where st1: "remove_perm st p = Inr st1" using remove_full(2) [OF p(1)] Cons.prems(3) by auto
  have "\<forall>q \<in> set ps. held st1 q = Some Write"
    using remove_full(1) [OF p(1) st1] Cons.prems(2,3) by (auto simp: apart_def)
  then show ?case
    using Cons.IH [OF p(2), of st1] Cons.prems(2) st1 by (auto simp: apart_def remove_all_perms_def)
qed (simp add: remove_all_perms_def)

subsection \<open>Fold and unfold are inverse\<close>

text \<open>A predicate whose body, at \<open>place\<close>, holds full permissions and not the predicate itself.\<close>

definition full_body ::
  "regex_ops \<Rightarrow> predicates \<Rightarrow> expr \<Rightarrow> maybe_enum_variant_index \<Rightarrow> perm list \<Rightarrow> bool" where
  "full_body rx preds place variant ps \<longleftrightarrow> eq_supported place \<and>
     bindE (lookup_predicate preds place) (\<lambda>pr. places_in_pred rx pr variant place) = Inr ps \<and>
     list_all full_perm ps \<and> \<not> at_some ps (Pred place Write)"

lemma scale_full: "list_all full_perm ps \<Longrightarrow> scale_perms Write ps = Inr ps"
proof -
  assume full: "list_all full_perm ps"
  have "init_perm_amount p Write = Some p" if "p \<in> set ps" for p
    using full that by (cases p) (auto simp: list_all_iff full_perm_def init_perm_amount_def)
  then show ?thesis unfolding scale_perms_def by (subst mapE_total [of ps _ id]) auto
qed

lemma apply_unfold_full:
  assumes "full_body rx preds place variant ps"
  shows "apply_unfold rx preds [place] Write variant st = Inr st1 \<longleftrightarrow>
    held st (Pred place Write) \<noteq> None \<and> is_prefix_of_some_moved st place = Inr False \<and>
    (\<forall>p \<in> set ps. held st p = None) \<and>
    (\<exists>st0. remove_perm st (Pred place Write) = Inr st0 \<and> insert_all_perms st0 ps = Inr st1)"
  using assms
  by (auto simp: full_body_def apply_unfold_def one_arg_def fallible_simps each_iff contains_perm_held
      contains_perm_held [of st "Pred place Write", simplified])

lemma apply_fold_full:
  assumes "full_body rx preds place variant ps"
  shows "apply_fold rx preds [place] Write variant st = Inr st1 \<longleftrightarrow>
    held st (Pred place Write) = None \<and> is_prefix_of_some_moved st place = Inr False \<and>
    (\<exists>st0. remove_all_perms st ps = Inr st0 \<and> insert_perm st0 (Pred place Write) = Inr st1)"
  using assms scale_full [of ps]
  by (auto simp: full_body_def apply_fold_def one_arg_def fallible_simps
      contains_perm_held [of st "Pred place Write", simplified])

lemma moved_prefix_same_rest:
  "same_rest st st' \<Longrightarrow> is_prefix_of_some_moved st place = is_prefix_of_some_moved st' place"
  by (simp add: same_rest_def is_prefix_of_some_moved_def)

lemma fold_after_unfold:
  assumes body: "full_body rx preds place variant ps"
    and unfold: "apply_unfold rx preds [place] Write variant st = Inr st1"
  shows "\<exists>st2. apply_fold rx preds [place] Write variant st1 = Inr st2 \<and> same_content st2 st"
proof -
  let ?P = "Pred place Write"
  have P: "full_perm ?P" and ps: "list_all full_perm ps" "\<not> at_some ps ?P"
    using body by (simp_all add: full_body_def full_perm_def)
  obtain st0 where st0: "remove_perm st ?P = Inr st0" "insert_all_perms st0 ps = Inr st1"
    and moved: "is_prefix_of_some_moved st place = Inr False"
    using unfold apply_unfold_full [OF body] by blast
  note r = remove_full(1) [OF P st0(1)] and i = insert_all_full [OF ps(1) st0(2)]
  have "\<forall>p \<in> set ps. held st1 p = Some Write"
    using i ps(1) same_location_refl by (auto simp: at_some_def list_all_iff)
  then obtain st3 where st3: "remove_all_perms st1 ps = Inr st3"
    using remove_all_full_ok [OF ps(1)] i by blast
  note r3 = remove_all_full [OF ps(1) st3]
  have "held st3 ?P = None"
    using r3 i r ps(2) same_location_refl [OF P] by simp
  then obtain st2 where st2: "insert_perm st3 ?P = Inr st2" using insert_full(2) [OF P] by blast
  note i2 = insert_full(1) [OF P st2]
  have away: "held st0 q = None" if "at_some ps q" for q
    using that i held_cong by (auto simp: at_some_def)
  have "held st2 q = held st q" for q
    using i2 r3 i r away [of q] held_cong [of ?P q st] ps(2) by auto
  moreover have "same_rest st2 st" using i2 r3 i r by (simp add: same_rest_def)
  moreover have "apply_fold rx preds [place] Write variant st1 = Inr st2"
  proof -
    have "held st1 ?P = None" using i r ps(2) same_location_refl [OF P] by simp
    moreover have "is_prefix_of_some_moved st1 place = Inr False"
      using moved moved_prefix_same_rest [of st1 st] i r by (simp add: same_rest_def)
    ultimately show ?thesis unfolding apply_fold_full [OF body] using st3 st2 by blast
  qed
  ultimately show ?thesis by (auto simp: same_content_held)
qed

lemma unfold_after_fold:
  assumes body: "full_body rx preds place variant ps"
    and fold: "apply_fold rx preds [place] Write variant st = Inr st1"
  shows "\<exists>st2. apply_unfold rx preds [place] Write variant st1 = Inr st2 \<and> same_content st2 st"
proof -
  let ?P = "Pred place Write"
  have P: "full_perm ?P" and ps: "list_all full_perm ps" "\<not> at_some ps ?P"
    using body by (simp_all add: full_body_def full_perm_def)
  obtain st0 where st0: "remove_all_perms st ps = Inr st0" "insert_perm st0 ?P = Inr st1"
    and moved: "is_prefix_of_some_moved st place = Inr False" and none: "held st ?P = None"
    using fold apply_fold_full [OF body] by blast
  note r = remove_all_full [OF ps(1) st0(1)] and i = insert_full(1) [OF P st0(2)]
  have P1: "held st1 ?P = Some Write" using i same_location_refl [OF P] by simp
  then obtain st3 where st3: "remove_perm st1 ?P = Inr st3" using remove_full(2) [OF P] by blast
  note r3 = remove_full(1) [OF P st3]
  have apart_P: "\<not> same_location ?P p" if "p \<in> set ps" for p
    using that ps(2) same_location_sym by (auto simp: at_some_def)
  have gone: "held st0 p = None" if "p \<in> set ps" for p
    using that r ps(1) same_location_refl by (auto simp: at_some_def list_all_iff)
  have "\<forall>p \<in> set ps. held st3 p = None" using r3 i gone apart_P by simp
  then obtain st2 where st2: "insert_all_perms st3 ps = Inr st2"
    using insert_all_full_ok [OF ps(1)] r by blast
  note i2 = insert_all_full [OF ps(1) st2]
  have back_held: "held st q = Some Write" if "at_some ps q" for q
    using that r held_cong by (auto simp: at_some_def)
  have "held st2 q = held st q" for q
    using i2 r3 i r back_held [of q] held_cong [of ?P q st] none by auto
  moreover have "same_rest st2 st" using i2 r3 i r by (simp add: same_rest_def)
  moreover have "apply_unfold rx preds [place] Write variant st1 = Inr st2"
  proof -
    have "\<forall>p \<in> set ps. held st1 p = None" using i gone apart_P by simp
    moreover have "is_prefix_of_some_moved st1 place = Inr False"
      using moved moved_prefix_same_rest [of st1 st] i r by (simp add: same_rest_def)
    ultimately show ?thesis unfolding apply_unfold_full [OF body] using P1 st3 st2 by blast
  qed
  ultimately show ?thesis by (auto simp: same_content_held)
qed

text \<open>
  C33 Folding and unfolding a predicate with full permission undo each other: when one of the
  statements succeeds on a state, the other succeeds on the result and gives back the permissions of
  that state.  The body of the predicate at the place must consist of full permissions other than
  the predicate itself.
\<close>

theorem fold_unfold_inverse:
  assumes "full_body rx preds place variant ps"
  shows "(apply_on_state rx preds (SUnfold n [place] Write variant) st = Inr st1 \<longrightarrow>
      (\<exists>st2. apply_on_state rx preds (SFold n [place] Write variant pos) st1 = Inr st2 \<and> same_content st2 st)) \<and>
    (apply_on_state rx preds (SFold n [place] Write variant pos) st = Inr st1 \<longrightarrow>
      (\<exists>st2. apply_on_state rx preds (SUnfold n [place] Write variant) st1 = Inr st2 \<and> same_content st2 st))"
  using fold_after_unfold [OF assms] unfold_after_fold [OF assms] by simp

text \<open>An example: the struct \<open>T_f\<close> with one field, in a regex engine that finds no type parameters.\<close>

definition ex_rx :: regex_ops where
  "ex_rx = \<lparr>rx_typaram_find_iter = (\<lambda>_. []), rx_is_valid = (\<lambda>_. True), rx_captures = (\<lambda>_ _. None)\<rparr>"

definition ex_preds :: predicates where
  "ex_preds name =
     (if name = ''T_f'' then new_struct (TTypedRef ''T_f'') [field_new ''g'' (TTypedRef ''T_g'')] else None)"

definition ex_xf :: expr where
  "ex_xf = ex_dot ex_x ''f''"

definition ex_body :: "perm list" where
  "ex_body = [Acc (ex_dot ex_xf ''g'') Write, Pred (ex_dot ex_xf ''g'') Write]"

lemma ex_full_body: "full_body ex_rx ex_preds ex_xf None ex_body"
  by code_simp

theorem fold_unfold_inverse_witness:
  "\<exists>st1 st2. apply_on_state ex_rx ex_preds (SUnfold ''T_f'' [ex_xf] Write None) ex_state = Inr st1 \<and>
     contains_pred st1 (ex_dot ex_xf ''g'') \<and>
     apply_on_state ex_rx ex_preds (SFold ''T_f'' [ex_xf] Write None position_default) st1 = Inr st2 \<and>
     same_content st2 ex_state"
proof -
  have "case apply_on_state ex_rx ex_preds (SUnfold ''T_f'' [ex_xf] Write None) ex_state of
      Inr st1 \<Rightarrow> contains_pred st1 (ex_dot ex_xf ''g'') | Inl _ \<Rightarrow> False"
    by code_simp
  then obtain st1 where st1: "apply_on_state ex_rx ex_preds (SUnfold ''T_f'' [ex_xf] Write None) ex_state = Inr st1"
    "contains_pred st1 (ex_dot ex_xf ''g'')" by (auto split: sum.splits)
  then show ?thesis using fold_unfold_inverse [OF ex_full_body] by blast
qed

end
