(* ===== verification/Fu_Path.thy ===== *)
theory Fu_Path
  imports Fu_Semantics Fu_Log
begin

section \<open>Fold-unfold: path contexts (foldunfold/path_ctxt.rs)\<close>

text \<open>
  The context of a path through the control-flow graph: the permission state and the event log.  The
  predicates and the labelled-old expressions are shared by all contexts and are arguments here.
  \<open>obtain\<close> calls itself on the same requirement after an unfold and on the parts of a predicate before
  a fold; it has a fuel argument and returns \<open>NoFuel\<close> when that is used up.  The three debug assertions before the
  simulated fold are not modelled; the consistency check of the state, which runs in debug builds only, is.
\<close>

record path_ctxt =
  pc_state :: fu_state
  pc_log :: event_log

datatype obtain_result = Success "action list" | Failure perm

definition path_ctxt_new :: "local_var list \<Rightarrow> path_ctxt" where
  "path_ctxt_new local_vars =
     \<lparr>pc_state = state_new (hm_extend expr_eq [] (map (\<lambda>v. (expr_local v, Write)) local_vars)) [] [],
      pc_log = log_new\<rparr>"

fun get_actions :: "obtain_result \<Rightarrow> failure + action list" where
  "get_actions (Success actions) = Inr actions"
| "get_actions (Failure p) = Inl (Err (FailedToObtain p))"

lemma get_actions_Inr_iff [fallible_simps]: "get_actions r = Inr actions \<longleftrightarrow> r = Success actions"
  by (cases r) auto

subsection \<open>Simulating an unfold\<close>

definition path_unfold ::
  "regex_ops \<Rightarrow> predicates \<Rightarrow> expr \<Rightarrow> perm_amount \<Rightarrow> maybe_enum_variant_index \<Rightarrow> fu_state \<Rightarrow>
   failure + action \<times> fu_state" where
  "path_unfold rx preds pred_place perm_amount variant st =
     bindE (require (contains_pred st pred_place)) (\<lambda>_.
     bindE (require (is_valid_for_specs perm_amount)) (\<lambda>_.
     bindE (unwrap (expr_typed_ref_name pred_place)) (\<lambda>name_opt.
     bindE (unwrap name_opt) (\<lambda>predicate_name.
     bindE (unwrapE (Err (MissingPredicate predicate_name)) (preds predicate_name)) (\<lambda>predicate.
     bindE (places_in_pred rx predicate variant pred_place) (\<lambda>places.
     bindE (scale_perms perm_amount places) (\<lambda>scaled.
     bindE (remove_pred st pred_place perm_amount) (\<lambda>st.
     bindE (insert_all_perms st scaled) (\<lambda>st.
     Inr (AUnfold predicate_name [pred_place] perm_amount variant, st))))))))))"

subsection \<open>Obtaining a permission\<close>

definition at_least :: "perm_amount \<Rightarrow> perm_amount \<Rightarrow> bool" where
  "at_least a b \<longleftrightarrow> perm_partial_cmp a b = Some Greater \<or> perm_partial_cmp a b = Some Equal"

text \<open>\<open>Iterator::min\<close> compares with \<open>Ord::cmp\<close>, which panics on incomparable amounts.\<close>

fun min_amount :: "perm_amount list \<Rightarrow> failure + perm_amount option" where
  "min_amount [] = Inr None"
| "min_amount [a] = Inr (Some a)"
| "min_amount (a # b # as) =
     bindE (unwrap (perm_cmp a b)) (\<lambda>o'. min_amount ((if o' = Greater then b else a) # as))"

definition offered_amount :: "fu_state \<Rightarrow> perm \<Rightarrow> failure + perm_amount" where
  "offered_amount st p =
     bindE (filterE (\<lambda>(place, _). place_prefix place (get_place p)) (st_acc st @ st_pred st)) (\<lambda>entries.
     bindE (min_amount (map snd entries)) (\<lambda>m. Inr (case m of Some a \<Rightarrow> a | None \<Rightarrow> Write)))"

definition fold_amount :: "fu_state \<Rightarrow> perm list \<Rightarrow> failure + perm_amount" where
  "fold_amount st places =
     bindE (mapE (offered_amount st) places) (\<lambda>amounts.
     bindE (min_amount amounts) (\<lambda>m. Inr (case m of Some a \<Rightarrow> a | None \<Rightarrow> Write)))"

fun obtain_each ::
  "(perm \<Rightarrow> fu_state \<Rightarrow> failure + obtain_result \<times> fu_state) \<Rightarrow> perm list \<Rightarrow> action list \<Rightarrow> fu_state \<Rightarrow>
   failure + obtain_result \<times> fu_state" where
  "obtain_each f [] actions st = Inr (Success actions, st)"
| "obtain_each f (p # ps) actions st =
     bindE (f p st) (\<lambda>(r, st).
       (case r of
          Success new_actions \<Rightarrow> obtain_each f ps (actions @ new_actions) st
        | Failure q \<Rightarrow> Inr (Failure q, st)))"

fun finish_fold ::
  "string \<Rightarrow> expr \<Rightarrow> perm_amount \<Rightarrow> maybe_enum_variant_index \<Rightarrow> perm list \<Rightarrow> obtain_result \<Rightarrow> fu_state \<Rightarrow>
   failure + obtain_result \<times> fu_state" where
  "finish_fold pred_name place perm_amount variant places (Failure q) st = Inr (Failure q, st)"
| "finish_fold pred_name place perm_amount variant places (Success actions) st =
     bindE (scale_perms perm_amount places) (\<lambda>scaled.
     bindE (remove_all_perms st scaled) (\<lambda>st.
     bindE (insert_pred st place perm_amount) (\<lambda>st.
     Inr (Success (actions @ [AFold pred_name [place] perm_amount variant (expr_pos place)]), st))))"

text \<open>The fold branch of \<open>obtain\<close>, with the recursive calls as an argument.\<close>

definition obtain_by_fold ::
  "regex_ops \<Rightarrow> predicates \<Rightarrow> (perm \<Rightarrow> fu_state \<Rightarrow> failure + obtain_result \<times> fu_state) \<Rightarrow> perm \<Rightarrow>
   fu_state \<Rightarrow> failure + obtain_result \<times> fu_state" where
  "obtain_by_fold rx preds rec req st =
     bindE (unwrap (perm_typed_ref_name req)) (\<lambda>name_opt.
     bindE (unwrap name_opt) (\<lambda>predicate_name.
     bindE (unwrap (preds predicate_name)) (\<lambda>predicate.
     bindE (find_unfolded_variant st (get_place req)) (\<lambda>variant.
     bindE (findE (\<lambda>p. place_proper_prefix p (get_place req)) (acc_places st)) (\<lambda>extension.
     bindE (places_in_pred rx predicate variant (get_place req)) (\<lambda>places.
     if (case extension of Some _ \<Rightarrow> True | None \<Rightarrow> places = [] \<and> \<not> is_abstract predicate) then
       bindE (fold_amount st places) (\<lambda>perm_amount.
       bindE (obtain_each rec (map (perm_set_default_pos (expr_pos (get_place req))) places) [] st) (\<lambda>(r, st).
       finish_fold predicate_name (get_place req) perm_amount variant places r st))
     else Inr (Failure req, st)))))))"

fun obtain_perm ::
  "regex_ops \<Rightarrow> predicates \<Rightarrow> nat \<Rightarrow> perm \<Rightarrow> bool \<Rightarrow> fu_state \<Rightarrow> failure + obtain_result \<times> fu_state" where
  "obtain_perm rx preds 0 req in_join st = Inl NoFuel"
| "obtain_perm rx preds (Suc fuel) req in_join st =
     (if contains_perm st req then Inr (Success [], st)
      else if is_acc req \<and> perm_is_local req then Inr (Success [], st)
      else
        bindE (findE (\<lambda>p. place_proper_prefix (get_place req) p) (pred_places st)) (\<lambda>existing.
          (case existing of
             Some existing_pred_to_unfold \<Rightarrow>
               bindE (amount_at (st_pred st) existing_pred_to_unfold) (\<lambda>perm_amount.
               bindE (require (at_least perm_amount (get_perm_amount req))) (\<lambda>_.
               bindE (find_variant existing_pred_to_unfold (get_place req)) (\<lambda>variant.
               bindE (path_unfold rx preds existing_pred_to_unfold perm_amount variant st) (\<lambda>(action, st).
               bindE (obtain_perm rx preds fuel req False st) (\<lambda>(r, st).
               bindE (get_actions r) (\<lambda>new_actions.
               Inr (Success (action # new_actions), st)))))))
           | None \<Rightarrow>
               (if is_pred req then
                  obtain_by_fold rx preds (\<lambda>p st. obtain_perm rx preds fuel p False st) req st
                else if in_join \<and> get_perm_amount req = Read then Inr (Failure req, st)
                else Inr (Failure req, st)))))"

definition obtain_all :: "regex_ops \<Rightarrow> predicates \<Rightarrow> nat \<Rightarrow> perm list \<Rightarrow> fu_state \<Rightarrow> failure + action list \<times> fu_state" where
  "obtain_all rx preds fuel reqs st =
     foldE (\<lambda>perm (actions, st).
       bindE (obtain_perm rx preds fuel perm False st) (\<lambda>(r, st).
       bindE (get_actions r) (\<lambda>new_actions. Inr (actions @ new_actions, st)))) reqs ([], st)"

definition apply_stmt :: "bool \<Rightarrow> regex_ops \<Rightarrow> predicates \<Rightarrow> stmt \<Rightarrow> fu_state \<Rightarrow> failure + fu_state" where
  "apply_stmt debug rx preds stmt st =
     bindE (check_consistency debug st) (\<lambda>_.
     bindE (apply_on_state rx preds stmt st) (\<lambda>st.
     bindE (check_consistency debug st) (\<lambda>_. Inr st)))"

definition obtain_permissions ::
  "bool \<Rightarrow> regex_ops \<Rightarrow> predicates \<Rightarrow> nat \<Rightarrow> perm list \<Rightarrow> fu_state \<Rightarrow> failure + action list \<times> fu_state" where
  "obtain_permissions debug rx preds fuel permissions st =
     bindE (solve_conficts permissions) (\<lambda>permissions.
     bindE (check_consistency debug st) (\<lambda>_.
     bindE (obtain_all rx preds fuel permissions st) (\<lambda>(actions, st).
     bindE (check_consistency debug st) (\<lambda>_. Inr (actions, st)))))"

subsection \<open>What a successful obtain gives\<close>

lemma insert_pred_contains: "eq_supported place \<Longrightarrow> insert_pred st place q = Inr st' \<Longrightarrow> contains_pred st' place"
  by (auto simp: insert_pred_def add_amount_def fallible_simps contains_pred_def hm_contains_def
      ex.get_insert expr_eq_refl_iff split: option.splits)

lemma obtain_by_fold_contains:
  assumes "eq_supported (get_place req)" "is_pred req"
    "obtain_by_fold rx preds rec req st = Inr (Success actions, st')"
  shows "contains_perm st' req"
proof -
  obtain n q v places r st1 where "finish_fold n (get_place req) q v places r st1 = Inr (Success actions, st')"
    using assms(3) unfolding obtain_by_fold_def by (auto simp: fallible_simps split: if_splits)
  then obtain st2 where "insert_pred st2 (get_place req) q = Inr st'" by (cases r) (auto simp: fallible_simps)
  then show ?thesis using insert_pred_contains assms(1,2) by (cases req) auto
qed

text \<open>States in which everything is held with the full amount stay like that.\<close>

definition all_full :: "place_perms \<Rightarrow> bool" where
  "all_full m = list_all (\<lambda>(_, q). q = Write) m"

definition full_state :: "fu_state \<Rightarrow> bool" where
  "full_state st \<longleftrightarrow> all_full (st_acc st) \<and> all_full (st_pred st)"

lemma all_full_insert: "all_full m \<Longrightarrow> all_full (hm_insert expr_eq m k Write)"
  unfolding all_full_def
proof (induction m)
  case (Cons kv m)
  then show ?case by (cases kv) auto
qed simp

lemma all_full_remove: "all_full m \<Longrightarrow> all_full (hm_remove expr_eq m k)"
  by (auto simp: all_full_def hm_remove_def list_all_iff)

lemma all_full_get: "all_full m \<Longrightarrow> hm_get expr_eq m k = Some q \<Longrightarrow> q = Write"
  using ex.get_Some_key [of m k q] by (auto simp: all_full_def list_all_iff)

lemma full_held: "full_state st \<Longrightarrow> held st p = Some q \<Longrightarrow> q = Write"
  by (auto simp: held_def full_state_def dest: all_full_get split: if_splits)

lemma all_full_add: "all_full m \<Longrightarrow> add_amount m k Write = Inr m' \<Longrightarrow> all_full m'"
  by (auto simp: add_amount_def fallible_simps all_full_insert dest: all_full_get split: option.splits)

lemma all_full_sub: "all_full m \<Longrightarrow> hm_get expr_eq m k = Some q \<Longrightarrow> sub_amount m k q Write = Inr m' \<Longrightarrow> all_full m'"
  by (auto simp: sub_amount_def all_full_remove dest: all_full_get split: if_splits)

lemma full_insert: "full_state st \<Longrightarrow> get_perm_amount p = Write \<Longrightarrow> insert_perm st p = Inr st' \<Longrightarrow> full_state st'"
  by (cases p) (auto simp: insert_acc_def insert_pred_def fallible_simps full_state_def dest: all_full_add)

lemma full_remove: "full_state st \<Longrightarrow> get_perm_amount p = Write \<Longrightarrow> remove_perm st p = Inr st' \<Longrightarrow> full_state st'"
  by (cases p)
    (auto simp: remove_acc_def remove_pred_def fallible_simps full_state_def dest: all_full_sub split: option.splits)

lemma scaled_amounts: "scale_perms q ps = Inr scaled \<Longrightarrow> p \<in> set scaled \<Longrightarrow> get_perm_amount p = q"
  by (auto simp: scale_perms_def init_perm_amount_def fallible_simps dest!: mapE_Inr_set split: if_splits)

lemma full_insert_all:
  assumes "full_state st" "scale_perms Write ps = Inr scaled" "insert_all_perms st scaled = Inr st'"
  shows "full_state st'"
  using assms(3,1) unfolding insert_all_perms_def
  by (rule foldE_invariant) (use full_insert scaled_amounts [OF assms(2)] in blast)

lemma full_remove_all:
  assumes "full_state st" "scale_perms Write ps = Inr scaled" "remove_all_perms st scaled = Inr st'"
  shows "full_state st'"
  using assms(3,1) unfolding remove_all_perms_def
  by (rule foldE_invariant) (use full_remove scaled_amounts [OF assms(2)] in blast)

lemma full_path_unfold:
  "full_state st \<Longrightarrow> path_unfold rx preds place Write variant st = Inr (action, st') \<Longrightarrow> full_state st'"
  using full_remove [of st "Pred place Write"] by (auto simp: path_unfold_def fallible_simps intro: full_insert_all)

lemma min_amount_full: "list_all (\<lambda>a. a = Write) as \<Longrightarrow> min_amount as = Inr (Some q) \<Longrightarrow> q = Write"
  by (induction as rule: min_amount.induct) (auto simp: fallible_simps split: if_splits)

lemma full_offered: "full_state st \<Longrightarrow> offered_amount st p = Inr q \<Longrightarrow> q = Write"
proof -
  assume full: "full_state st" and run: "offered_amount st p = Inr q"
  obtain entries m where m: "filterE (\<lambda>(place, _). place_prefix place (get_place p)) (st_acc st @ st_pred st) = Inr entries"
    "min_amount (map snd entries) = Inr m" "q = (case m of Some a \<Rightarrow> a | None \<Rightarrow> Write)"
    using run unfolding offered_amount_def bindE_Inr_iff by auto
  have "set entries \<subseteq> set (st_acc st @ st_pred st)" using m(1) unfolding filterE_Inr_iff by auto
  then have "list_all (\<lambda>a. a = Write) (map snd entries)"
    using full by (fastforce simp: full_state_def all_full_def list_all_iff)
  then show ?thesis using min_amount_full m by (auto split: option.splits)
qed

lemma full_fold_amount: "full_state st \<Longrightarrow> fold_amount st places = Inr q \<Longrightarrow> q = Write"
proof -
  assume full: "full_state st" and run: "fold_amount st places = Inr q"
  obtain amounts m where m: "mapE (offered_amount st) places = Inr amounts"
    "min_amount amounts = Inr m" "q = (case m of Some a \<Rightarrow> a | None \<Rightarrow> Write)"
    using run unfolding fold_amount_def bindE_Inr_iff by auto
  have "list_all (\<lambda>a. a = Write) amounts"
    using mapE_Inr_set [OF m(1)] full_offered [OF full] by (auto simp: list_all_iff)
  then show ?thesis using min_amount_full m by (auto split: option.splits)
qed

lemma full_obtain_each:
  assumes "\<And>p st r st'. full_state st \<Longrightarrow> f p st = Inr (r, st') \<Longrightarrow> full_state st'"
  shows "full_state st \<Longrightarrow> obtain_each f ps actions st = Inr (r, st') \<Longrightarrow> full_state st'"
proof (induction ps arbitrary: actions st)
  case (Cons p ps)
  then obtain r1 st1 where run: "f p st = Inr (r1, st1)" by (auto simp: fallible_simps)
  then have "full_state st1" using assms Cons.prems(1) by blast
  then show ?case using Cons run by (cases r1) (auto simp: fallible_simps)
qed simp

lemma full_obtain_by_fold:
  assumes rec: "\<And>p st r st'. full_state st \<Longrightarrow> rec p st = Inr (r, st') \<Longrightarrow> full_state st'"
    and full: "full_state st" and run: "obtain_by_fold rx preds rec req st = Inr (r, st')"
  shows "full_state st'"
proof (rule ccontr)
  assume "\<not> full_state st'"
  then have "st' \<noteq> st" using full by blast
  then obtain n v places q r1 st1 where steps: "fold_amount st places = Inr q"
    "obtain_each rec (map (perm_set_default_pos (expr_pos (get_place req))) places) [] st = Inr (r1, st1)"
    "finish_fold n (get_place req) q v places r1 st1 = Inr (r, st')"
    using run unfolding obtain_by_fold_def by (auto simp: fallible_simps split: if_splits)
  have full1: "full_state st1" by (rule full_obtain_each [of rec, OF _ full steps(2)]) (rule rec)
  have "q = Write" using full_fold_amount full steps(1) by blast
  then have "full_state st'" using steps(3) full1
    by (cases r1) (auto simp: fallible_simps intro: full_insert [of _ "Pred (get_place req) Write"] full_remove_all)
  then show False using \<open>\<not> full_state st'\<close> by blast
qed

lemma obtain_perm_full:
  "full_state st \<Longrightarrow> obtain_perm rx preds fuel req in_join st = Inr (r, st') \<Longrightarrow> full_state st'"
proof (induction fuel arbitrary: req in_join st r st')
  case (Suc fuel)
  show ?case
  proof (cases "contains_perm st req \<or> (is_acc req \<and> perm_is_local req)")
    case True
    then have "st' = st" using Suc.prems(2) by (cases "contains_perm st req") auto
    then show ?thesis using Suc.prems(1) by simp
  next
    case False
    then obtain existing where found:
        "findE (\<lambda>p. place_proper_prefix (get_place req) p) (pred_places st) = Inr existing"
      using Suc.prems by (auto simp: fallible_simps)
    show ?thesis
    proof (cases existing)
      case None
      then have "st' = st \<or> obtain_by_fold rx preds (\<lambda>p st. obtain_perm rx preds fuel p False st) req st = Inr (r, st')"
        using Suc.prems(2) False found by (auto simp: fallible_simps split: if_splits)
      then show ?thesis
      proof
        assume "obtain_by_fold rx preds (\<lambda>p st. obtain_perm rx preds fuel p False st) req st = Inr (r, st')"
        then show ?thesis by (rule full_obtain_by_fold [rotated 2]) (use Suc in blast)+
      qed (use Suc.prems(1) in simp)
    next
      case (Some p)
      then obtain q v a st1 r1 where steps: "amount_at (st_pred st) p = Inr q"
        "path_unfold rx preds p q v st = Inr (a, st1)" "obtain_perm rx preds fuel req False st1 = Inr (r1, st')"
        using Suc.prems(2) False found by (auto simp: fallible_simps)
      have "q = Write" using steps(1) Suc.prems(1) by (auto simp: amount_at_def fallible_simps full_state_def dest: all_full_get)
      then show ?thesis using steps full_path_unfold Suc.prems(1) Suc.IH by blast
    qed
  qed
qed simp

lemma obtain_perm_contains:
  assumes "eq_supported (get_place req)"
  shows "obtain_perm rx preds fuel req in_join st = Inr (Success actions, st') \<Longrightarrow>
    contains_perm st' req \<or> (is_acc req \<and> perm_is_local req)"
proof (induction fuel arbitrary: in_join st actions)
  case (Suc fuel)
  show ?case
  proof (cases "contains_perm st req \<or> (is_acc req \<and> perm_is_local req)")
    case True
    then show ?thesis using Suc.prems by auto
  next
    case False
    then obtain existing where found:
        "findE (\<lambda>p. place_proper_prefix (get_place req) p) (pred_places st) = Inr existing"
      using Suc.prems by (auto simp: fallible_simps)
    show ?thesis
    proof (cases existing)
      case None
      then show ?thesis
        using Suc.prems False found obtain_by_fold_contains [OF assms]
        by (auto simp: fallible_simps split: if_splits)
    next
      case (Some p)
      then obtain st1 new where "obtain_perm rx preds fuel req False st1 = Inr (Success new, st')"
        using Suc.prems False found by (auto simp: fallible_simps)
      then show ?thesis by (rule Suc.IH)
    qed
  qed
qed simp

text \<open>
  C35 Obtaining a permission is sound.  Whenever \<open>obtain\<close> reports success, the state it leaves holds a permission
  of the requested kind for the requested place, with some amount, or the request was the access to a local
  variable, which is always granted.  The amount can be less than the requested one, because \<open>contains_perm\<close> ignores
  amounts; but in a state that holds everything with the full amount, \<open>obtain\<close> leaves such a state, and the
  requested permission is held with the full amount.
\<close>

theorem obtain_perm_sound:
  assumes "eq_supported (get_place req)"
    and "obtain_perm rx preds fuel req in_join st = Inr (Success actions, st')"
  shows "(is_acc req \<and> perm_is_local req) \<or>
    (\<exists>q. held st' req = Some q \<and> (full_state st \<longrightarrow> full_state st' \<and> q = Write))"
proof -
  have "contains_perm st' req \<or> (is_acc req \<and> perm_is_local req)" using assms by (rule obtain_perm_contains)
  moreover have "full_state st \<longrightarrow> full_state st'" using obtain_perm_full assms(2) by blast
  ultimately show ?thesis using full_held [of st' req] by (auto simp: contains_perm_held)
qed

theorem obtain_perm_sound_witness:
  "\<exists>actions st'. obtain_perm ex_rx ex_preds 3 (Acc (ex_dot ex_xf ''g'') Read) False ex_state =
       Inr (Success actions, st') \<and> length actions = 1 \<and> held st' (Acc (ex_dot ex_xf ''g'') Read) = Some Write"
proof -
  let ?req = "Acc (ex_dot ex_xf ''g'') Read"
  have "case obtain_perm ex_rx ex_preds 3 ?req False ex_state of
      Inr (Success actions, st') \<Rightarrow> length actions = 1 | _ \<Rightarrow> False"
    by code_simp
  then obtain actions st' where run:
      "obtain_perm ex_rx ex_preds 3 ?req False ex_state = Inr (Success actions, st')" "length actions = 1"
    by (auto split: sum.splits prod.splits obtain_result.splits)
  have "eq_supported (get_place ?req)" by (simp add: ex_xf_def ex_place_simps)
  moreover have "full_state ex_state" by (simp add: ex_state_def state_new_def full_state_def all_full_def)
  ultimately have "held st' ?req = Some Write"
    using obtain_perm_sound [OF _ run(1)] by (auto simp: perm_is_local_def ex_xf_def ex_place_simps)
  then show ?thesis using run by blast
qed

text \<open>The amount of a permission that is held already is not compared with the requested one.\<close>

theorem obtain_ignores_amount:
  "let st = state_new [(ex_x, Write), (ex_xf, Read)] [] []
   in obtain_perm ex_rx ex_preds 1 (Acc ex_xf Write) False st = Inr (Success [], st) \<and>
      held st (Acc ex_xf Write) = Some Read"
  by code_simp

text \<open>
  An unfold statement with a read amount: the statement's effect gives full permission to the body
  of the predicate, while the unfold that the path context performs for the same action gives read
  permission.
\<close>

definition ex_read_state :: fu_state where
  "ex_read_state = state_new [(ex_x, Write), (ex_xf, Write)] [(ex_xf, Read)] []"

theorem unfold_read_amounts:
  "case (apply_on_state ex_rx ex_preds (SUnfold ''T_f'' [ex_xf] Read None) ex_read_state,
         path_unfold ex_rx ex_preds ex_xf Read None ex_read_state) of
     (Inr st1, Inr (_, st2)) \<Rightarrow>
       hm_get expr_eq (st_acc st1) (ex_dot ex_xf ''g'') = Some Write \<and>
       hm_get expr_eq (st_acc st2) (ex_dot ex_xf ''g'') = Some Read
   | _ \<Rightarrow> False"
  by code_simp

end
