(* ===== verification/Fu_Join.thy ===== *)
theory Fu_Join
  imports Fu_Path
begin

section \<open>Fold-unfold: joining two branches (PathCtxt::join in foldunfold/path_ctxt.rs)\<close>

text \<open>
  At a join point of the control-flow graph the contexts of the incoming branches are made equal: by
  folding the enums unfolded differently, by unfolding where only one branch is unfolded, and by
  dropping what the other branch does not have.  A branch is the list of actions to perform in it and
  its permission state.
\<close>

type_synonym branch = "action list \<times> fu_state"

subsection \<open>Equality of states\<close>

definition hm_eq :: "place_perms \<Rightarrow> place_perms \<Rightarrow> bool" where
  "hm_eq m m' \<longleftrightarrow> length m = length m' \<and> list_all (\<lambda>(k, v). hm_get expr_eq m' k = Some v) m"

definition hs_eq :: "('k \<Rightarrow> 'k \<Rightarrow> bool) \<Rightarrow> 'k list \<Rightarrow> 'k list \<Rightarrow> bool" where
  "hs_eq eq xs ys \<longleftrightarrow> length xs = length ys \<and> list_all (hs_member eq ys) xs"

definition perm_set_eq :: "perm_set \<Rightarrow> perm_set \<Rightarrow> bool" where
  "perm_set_eq s t \<longleftrightarrow> hm_eq (ps_acc_perms s) (ps_acc_perms t) \<and> hm_eq (ps_pred_perms s) (ps_pred_perms t)"

definition state_eq :: "fu_state \<Rightarrow> fu_state \<Rightarrow> bool" where
  "state_eq s t \<longleftrightarrow>
     hm_eq (st_acc s) (st_acc t) \<and> hm_eq (st_pred s) (st_pred t) \<and>
     hs_eq expr_eq (st_moved s) (st_moved t) \<and>
     list_all2 perm_set_eq (st_framing_stack s) (st_framing_stack t) \<and>
     hs_eq perm_eq (st_dropped s) (st_dropped t)"

subsection \<open>Obtaining predicates by folding\<close>

definition drop_acc_because :: "perm \<Rightarrow> expr \<Rightarrow> expr \<Rightarrow> branch \<Rightarrow> failure + branch" where
  "drop_acc_because missing_perm pred_place acc_place b =
     (case b of (actions, st) \<Rightarrow>
        bindE (place_proper_prefix acc_place pred_place) (\<lambda>inside.
        if inside then
          bindE (remove_acc_place st acc_place) (\<lambda>(perm_amount, st).
          Inr (actions @ [ADrop (Acc acc_place perm_amount) missing_perm], st))
        else Inr (actions, st)))"

definition drop_pred_because :: "perm \<Rightarrow> expr \<Rightarrow> expr \<Rightarrow> branch \<Rightarrow> failure + branch" where
  "drop_pred_because missing_perm pred_place place b =
     (case b of (actions, st) \<Rightarrow>
        bindE (place_prefix place pred_place) (\<lambda>inside.
        if inside then
          bindE (remove_pred_place st place) (\<lambda>(perm_amount, st).
          Inr (actions @ [ADrop (Pred place perm_amount) missing_perm], st))
        else Inr (actions, st)))"

definition remove_places :: "perm \<Rightarrow> expr \<Rightarrow> branch \<Rightarrow> failure + branch" where
  "remove_places missing_perm pred_place b =
     (case b of (actions, st) \<Rightarrow>
        bindE (remove_moved_matching (\<lambda>moved_place. place_prefix moved_place pred_place) st) (\<lambda>st.
        bindE (foldE (drop_acc_because missing_perm pred_place) (acc_places st) (actions, st)) (\<lambda>(actions, st).
        foldE (drop_pred_because missing_perm pred_place) (pred_places st) (actions, st))))"

definition try_obtain_pred ::
  "regex_ops \<Rightarrow> predicates \<Rightarrow> nat \<Rightarrow> expr \<Rightarrow> perm_amount \<Rightarrow> branch \<Rightarrow> branch \<Rightarrow> failure + branch \<times> branch" where
  "try_obtain_pred rx preds fuel pred_place perm_amount left right =
     bindE (obtain_perm rx preds fuel (Pred pred_place perm_amount) True (snd left)) (\<lambda>(r, left_st).
       (case r of
          Success new_actions \<Rightarrow> Inr ((fst left @ new_actions, left_st), right)
        | Failure missing_perm \<Rightarrow>
            bindE (remove_places missing_perm pred_place (fst left, left_st)) (\<lambda>left.
            bindE (remove_places missing_perm pred_place right) (\<lambda>right.
            Inr (left, right)))))"

definition get_extension_amount :: "expr \<Rightarrow> fu_state \<Rightarrow> failure + perm_amount option" where
  "get_extension_amount pred_place st =
     bindE (findE (\<lambda>(place, _). place_proper_prefix place pred_place) (st_acc st)) (\<lambda>entry.
     Inr (map_option snd entry))"

definition join_pred ::
  "regex_ops \<Rightarrow> predicates \<Rightarrow> nat \<Rightarrow> expr \<Rightarrow> branch \<times> branch \<Rightarrow> failure + branch \<times> branch" where
  "join_pred rx preds fuel pred_place bs =
     (case bs of (left, right) \<Rightarrow>
        bindE (get_extension_amount pred_place (snd left)) (\<lambda>left_amount.
        bindE (case left_amount of
                 Some a \<Rightarrow> Inr a
               | None \<Rightarrow> bindE (get_extension_amount pred_place (snd right)) unwrap) (\<lambda>perm_amount.
        bindE (try_obtain_pred rx preds fuel pred_place perm_amount left right) (\<lambda>(left, right).
        bindE (try_obtain_pred rx preds fuel pred_place perm_amount right left) (\<lambda>(right, left).
        Inr (left, right))))))"

subsection \<open>Obtaining access permissions by unfolding\<close>

definition try_obtain_acc ::
  "regex_ops \<Rightarrow> predicates \<Rightarrow> nat \<Rightarrow> expr \<Rightarrow> branch \<Rightarrow> branch \<Rightarrow> failure + bool \<times> branch \<times> branch" where
  "try_obtain_acc rx preds fuel acc_place left right =
     (if \<not> contains_acc (snd left) acc_place then
        bindE (amount_at (st_acc (snd right)) acc_place) (\<lambda>perm_amount.
        bindE (obtain_perm rx preds fuel (Acc acc_place perm_amount) True (snd left)) (\<lambda>(r, left_st).
          (case r of
             Success new_actions \<Rightarrow> Inr (True, (fst left @ new_actions, left_st), right)
           | Failure missing_perm \<Rightarrow>
               bindE (remove_perm (snd right) (Acc acc_place perm_amount)) (\<lambda>right_st.
               Inr (False, (fst left, left_st),
                 (fst right @ [ADrop (Acc acc_place perm_amount) missing_perm], right_st))))))
      else Inr (True, left, right))"

definition join_acc ::
  "regex_ops \<Rightarrow> predicates \<Rightarrow> nat \<Rightarrow> expr \<Rightarrow> branch \<times> branch \<Rightarrow> failure + branch \<times> branch" where
  "join_acc rx preds fuel acc_place bs =
     (case bs of (left, right) \<Rightarrow>
        bindE (try_obtain_acc rx preds fuel acc_place left right) (\<lambda>(ok, left, right).
        if ok then
          bindE (try_obtain_acc rx preds fuel acc_place right left) (\<lambda>(_, right, left). Inr (left, right))
        else Inr (left, right)))"

subsection \<open>Dropping what only one branch has\<close>

definition drop_pred :: "expr \<Rightarrow> branch \<Rightarrow> failure + branch" where
  "drop_pred pred_place b =
     (case b of (actions, st) \<Rightarrow>
        bindE (require (contains_pred st pred_place)) (\<lambda>_.
        bindE (remove_pred_place st pred_place) (\<lambda>(perm_amount, st).
        Inr (actions @ [ADrop (Pred pred_place perm_amount) (Pred pred_place perm_amount)], st))))"

definition drop_acc :: "expr \<Rightarrow> branch \<Rightarrow> failure + branch" where
  "drop_acc acc_place b =
     (case b of (actions, st) \<Rightarrow>
        bindE (require (contains_acc st acc_place)) (\<lambda>_.
        bindE (remove_acc_place st acc_place) (\<lambda>(perm_amount, st).
        Inr (actions @ [ADrop (Acc acc_place perm_amount) (Acc acc_place perm_amount)], st))))"

definition drop_acc_and_moved :: "expr \<Rightarrow> branch \<Rightarrow> failure + branch" where
  "drop_acc_and_moved acc_place b =
     (case b of (actions, st) \<Rightarrow>
        bindE (require (contains_acc st acc_place)) (\<lambda>_.
        bindE (remove_acc_place st acc_place) (\<lambda>(perm_amount, st).
        bindE (remove_moved_matching (\<lambda>moved_place. place_prefix moved_place acc_place) st) (\<lambda>st.
        Inr (actions @ [ADrop (Acc acc_place perm_amount) (Acc acc_place perm_amount)], st)))))"

definition drop_moved_preds :: "expr list \<Rightarrow> branch \<Rightarrow> failure + branch" where
  "drop_moved_preds moved_paths b =
     bindE (filter_proper_extensions_of (pred_places (snd b)) moved_paths) (\<lambda>places. foldE drop_pred places b)"

definition drop_moved_accs :: "expr list \<Rightarrow> branch \<Rightarrow> failure + branch" where
  "drop_moved_accs moved_paths b =
     bindE (filter_proper_extensions_of (acc_places (snd b)) moved_paths) (\<lambda>places. foldE drop_acc places b)"

definition drop_other_preds :: "expr list \<Rightarrow> branch \<Rightarrow> failure + branch" where
  "drop_other_preds preserved_preds b =
     foldE drop_pred (hs_difference expr_eq (pred_places (snd b)) preserved_preds) b"

definition drop_other_accs :: "expr list \<Rightarrow> branch \<Rightarrow> failure + branch" where
  "drop_other_accs others b =
     foldE drop_acc_and_moved (hs_difference expr_eq (acc_places (snd b)) others) b"

subsection \<open>Making the amounts equal\<close>

definition weaken_acc :: "bool \<Rightarrow> expr \<Rightarrow> branch \<Rightarrow> failure + branch" where
  "weaken_acc excess acc_place b =
     (if excess then
        bindE (remove_acc (snd b) acc_place Remaining) (\<lambda>st.
        Inr (fst b @ [ADrop (Acc acc_place Remaining) (Acc acc_place Remaining)], st))
      else Inr b)"

definition weaken_pred :: "bool \<Rightarrow> expr \<Rightarrow> branch \<Rightarrow> failure + branch" where
  "weaken_pred excess pred_place b =
     (if excess then
        bindE (remove_pred (snd b) pred_place Remaining) (\<lambda>st.
        Inr (fst b @ [ADrop (Pred pred_place Remaining) (Pred pred_place Remaining)], st))
      else Inr b)"

definition equalise_acc :: "expr \<Rightarrow> branch \<times> branch \<Rightarrow> failure + branch \<times> branch" where
  "equalise_acc acc_place bs =
     (case bs of (left, right) \<Rightarrow>
        bindE (require (contains_acc (snd right) acc_place)) (\<lambda>_.
        bindE (amount_at (st_acc (snd left)) acc_place) (\<lambda>left_perm.
        bindE (amount_at (st_acc (snd right)) acc_place) (\<lambda>right_perm.
        bindE (weaken_acc (left_perm = Write \<and> right_perm = Read) acc_place left) (\<lambda>left.
        bindE (weaken_acc (left_perm = Read \<and> right_perm = Write) acc_place right) (\<lambda>right.
        Inr (left, right)))))))"

definition equalise_pred :: "expr \<Rightarrow> branch \<times> branch \<Rightarrow> failure + branch \<times> branch" where
  "equalise_pred pred_place bs =
     (case bs of (left, right) \<Rightarrow>
        bindE (require (contains_pred (snd right) pred_place)) (\<lambda>_.
        bindE (amount_at (st_pred (snd left)) pred_place) (\<lambda>left_perm.
        bindE (amount_at (st_pred (snd right)) pred_place) (\<lambda>right_perm.
        bindE (weaken_pred (left_perm = Write \<and> right_perm = Read) pred_place left) (\<lambda>left.
        bindE (weaken_pred (left_perm = Read \<and> right_perm = Write) pred_place right) (\<lambda>right.
        Inr (left, right)))))))"

subsection \<open>The join\<close>

text \<open>The part of the join after the obtaining phases.\<close>

definition finish_join :: "expr list \<Rightarrow> branch \<Rightarrow> branch \<Rightarrow> failure + branch \<times> branch" where
  "finish_join moved_paths left right =
     bindE (drop_moved_preds moved_paths left) (\<lambda>left.
     bindE (drop_moved_preds moved_paths right) (\<lambda>right.
     let preserved_preds = intersection_sets expr_eq (pred_places (snd left)) (pred_places (snd right)) in
     bindE (drop_other_preds preserved_preds left) (\<lambda>left.
     bindE (drop_other_preds preserved_preds right) (\<lambda>right.
     bindE (drop_moved_accs moved_paths left) (\<lambda>left.
     bindE (drop_moved_accs moved_paths right) (\<lambda>right.
     bindE (drop_other_accs (acc_places (snd right)) left) (\<lambda>left.
     bindE (drop_other_accs (acc_places (snd left)) right) (\<lambda>right.
     bindE (foldE equalise_acc (acc_places (snd left)) (left, right)) (\<lambda>(left, right).
     bindE (foldE equalise_pred (pred_places (snd left)) (left, right)) (\<lambda>(left, right).
     bindE (require (hm_eq (st_acc (snd left)) (st_acc (snd right)))) (\<lambda>_.
     bindE (require (hm_eq (st_pred (snd left)) (st_pred (snd right)))) (\<lambda>_.
     Inr (left, right)))))))))))))"

definition join_states ::
  "bool \<Rightarrow> regex_ops \<Rightarrow> predicates \<Rightarrow> nat \<Rightarrow> fu_state \<Rightarrow> fu_state \<Rightarrow> failure + branch \<times> branch" where
  "join_states debug rx preds fuel left right =
     bindE (ancestors (union_sets expr_eq (st_moved left) (st_moved right))) (\<lambda>moved_paths.
     let left = set_moved left moved_paths; right = set_moved right moved_paths in
     bindE (compute_fold_target (acc_places left) (acc_places right)) (\<lambda>(unfold_potential_acc, fold_potential_pred).
     bindE (filter_not_proper_extensions_of unfold_potential_acc moved_paths) (\<lambda>unfold_actual_acc.
     bindE (filter_not_proper_extensions_of fold_potential_pred moved_paths) (\<lambda>fold_actual_pred.
     bindE (foldE (join_pred rx preds fuel) fold_actual_pred (([], left), ([], right))) (\<lambda>bs.
     bindE (foldE (join_acc rx preds fuel) unfold_actual_acc bs) (\<lambda>(left, right).
     bindE (finish_join moved_paths left right) (\<lambda>(left, right).
     bindE (check_consistency debug (snd left)) (\<lambda>_.
     Inr (left, right)))))))))"

definition join_ctxt ::
  "bool \<Rightarrow> regex_ops \<Rightarrow> predicates \<Rightarrow> nat \<Rightarrow> path_ctxt \<Rightarrow> path_ctxt \<Rightarrow>
   failure + (action list \<times> action list) \<times> path_ctxt" where
  "join_ctxt debug rx preds fuel self other =
     bindE (check_consistency debug (pc_state self)) (\<lambda>_.
     bindE (if state_eq (pc_state self) (pc_state other) then
              Inr (([], pc_state self), ([], pc_state other))
            else join_states debug rx preds fuel (pc_state self) (pc_state other)) (\<lambda>(left, right).
     Inr ((fst left, fst right),
       \<lparr>pc_state = snd left, pc_log = log_join (pc_log self) (pc_log other)\<rparr>)))"

subsection \<open>One kind of permission in a branch\<close>

text \<open>
  Access and predicate permissions go through the same phases.  The interface: a map of the state, how
  one place of it is dropped, and how its amounts in the two branches are made equal.
\<close>

definition comparable :: "perm_amount \<Rightarrow> perm_amount \<Rightarrow> bool" where
  "comparable a b \<longleftrightarrow> a = b \<or> (a = Write \<and> b = Read) \<or> (a = Read \<and> b = Write)"

definition lowered :: "place_perms \<Rightarrow> expr \<Rightarrow> perm_amount \<Rightarrow> perm_amount \<Rightarrow> place_perms" where
  "lowered m p a b = (if a = Write \<and> b = Read then hm_insert expr_eq m p Read else m)"

definition meet :: "perm_amount option \<Rightarrow> perm_amount option \<Rightarrow> perm_amount option" where
  "meet x y = (case (x, y) of (Some a, Some b) \<Rightarrow> Some (if a = b then a else Read) | _ \<Rightarrow> None)"

definition places_ok :: "place_perms \<Rightarrow> bool" where
  "places_ok m \<longleftrightarrow> hm_wf expr_eq m \<and> list_all place_ok (hm_keys m)"

lemma places_ok_remove: "places_ok m \<Longrightarrow> places_ok (hm_remove expr_eq m k)"
  unfolding places_ok_def using ex.wf_remove [of m k] by (auto simp: hm_keys_def hm_remove_def list_all_iff)

lemma places_ok_insert: "places_ok m \<Longrightarrow> place_ok k \<Longrightarrow> places_ok (hm_insert expr_eq m k v)"
proof -
  assume m: "places_ok m" and k: "place_ok k"
  have "hm_wf expr_eq (hm_insert expr_eq m k v)"
    using m k by (intro ex.wf_insert) (simp_all add: places_ok_def place_ok_def expr_eq_refl_iff)
  moreover have "place_ok x" if "x \<in> set (map fst (hm_insert expr_eq m k v))" for x
  proof -
    have "x = k \<or> x \<in> set (hm_keys m)" using ex.keys_insert_subset [of m k v] that unfolding hm_keys_def by blast
    then show ?thesis using m k by (auto simp: places_ok_def list_all_iff)
  qed
  ultimately show ?thesis by (simp add: places_ok_def hm_keys_def list_all_iff)
qed

lemma meet_comparable:
  "comparable a b \<Longrightarrow> meet (Some a) (Some b) = Some (if a = Write \<and> b = Read then Read else a)"
  by (auto simp: comparable_def meet_def)

lemma meet_None [simp]: "meet None y = None" "meet x None = None"
  by (simp_all add: meet_def split: option.split)

lemma below_cong: "expr_eq x y \<Longrightarrow> below x z = below y z"
proof -
  assume xy: "expr_eq x y"
  then have "prefix_of x y" "prefix_of y x"
    using expr_eq_sym [OF xy] by (simp_all add: pl.pre_unfold [of x y] pl.pre_unfold [of y x])
  then show ?thesis using below_trans by blast
qed

locale branch_component =
  fixes content :: "fu_state \<Rightarrow> place_perms"
    and update :: "place_perms \<Rightarrow> fu_state \<Rightarrow> fu_state"
    and dropping :: "expr \<Rightarrow> branch \<Rightarrow> failure + branch"
    and equalise :: "expr \<Rightarrow> branch \<times> branch \<Rightarrow> failure + branch \<times> branch"
  assumes content_update [simp]: "content (update m st) = m"
    and update_update [simp]: "update m (update m' st) = update m st"
    and update_content [simp]: "update (content st) st = st"
    and dropping_step:
      "hm_get expr_eq (content st) p = Some a \<Longrightarrow>
       \<exists>actions'. dropping p (actions, st) = Inr (actions', update (hm_remove expr_eq (content st) p) st)"
    and equalise_step:
      "hm_get expr_eq (content l) p = Some a \<Longrightarrow> hm_get expr_eq (content r) p = Some b \<Longrightarrow> comparable a b \<Longrightarrow>
       \<exists>la' ra'. equalise p ((la, l), (ra, r)) =
         Inr ((la', update (lowered (content l) p a b) l), (ra', update (lowered (content r) p b a) r))"
begin

lemma drop_all:
  assumes "places_ok (content st)" "hs_wf expr_eq ps" "\<And>p. p \<in> set ps \<Longrightarrow> hm_contains expr_eq (content st) p"
  shows "\<exists>actions' m. foldE dropping ps (actions, st) = Inr (actions', update m st) \<and> places_ok m \<and>
    (\<forall>k. hm_get expr_eq m k = (if hs_member expr_eq ps k then None else hm_get expr_eq (content st) k))"
  using assms
proof (induction ps arbitrary: st actions)
  case Nil
  then show ?case by (intro exI [of _ actions] exI [of _ "content st"]) (simp add: hs_member_def)
next
  case (Cons p ps)
  obtain a where "hm_get expr_eq (content st) p = Some a"
    using Cons.prems(3) [of p] by (auto simp: hm_contains_def)
  from dropping_step [OF this] obtain actions1 where
    step: "dropping p (actions, st) = Inr (actions1, update (hm_remove expr_eq (content st) p) st)" by blast
  let ?st = "update (hm_remove expr_eq (content st) p) st"
  have others: "hm_contains expr_eq (content ?st) q" if "q \<in> set ps" for q
    using Cons.prems(2) Cons.prems(3) [of q] that by (simp add: hm_contains_def ex.get_remove hs_wf_def)
  have "hs_wf expr_eq ps" "places_ok (content ?st)"
    using Cons.prems(1,2) by (simp_all add: hs_wf_def places_ok_remove)
  then obtain actions2 m where rest: "foldE dropping ps (actions1, ?st) = Inr (actions2, update m ?st)" "places_ok m"
    "\<forall>k. hm_get expr_eq m k = (if hs_member expr_eq ps k then None else hm_get expr_eq (content ?st) k)"
    using Cons.IH [of ?st actions1] others by blast
  have "foldE dropping (p # ps) (actions, st) = Inr (actions2, update m st)" using step rest(1) by simp
  moreover have "hm_get expr_eq m k = (if hs_member expr_eq (p # ps) k then None else hm_get expr_eq (content st) k)" for k
    using rest(3) by (simp add: hs_member_def ex.get_remove)
  ultimately show ?case using rest(2) by blast
qed

text \<open>Dropping the places of the branch itself that satisfy a test.\<close>

lemma drop_matching:
  assumes ok: "places_ok (content st)" and P: "\<And>x y. expr_eq x y \<Longrightarrow> P x = P y"
  shows "\<exists>actions' m. foldE dropping (filter P (hm_keys (content st))) (actions, st) = Inr (actions', update m st) \<and>
    places_ok m \<and> (\<forall>k. hm_get expr_eq m k = (if P k then None else hm_get expr_eq (content st) k))"
proof -
  let ?ps = "filter P (hm_keys (content st))"
  have wf: "hs_wf expr_eq (hm_keys (content st))" using ok by (intro hx.wf_pairwise) (simp add: places_ok_def)
  then have "hs_wf expr_eq ?ps" by (auto simp: hs_wf_def sorted_wrt_filter list_all_iff)
  moreover have "hm_contains expr_eq (content st) p" if "p \<in> set ?ps" for p
    using wf that unfolding hx.contains_iff by (force simp: hs_wf_def list_all_iff hm_keys_def)
  ultimately obtain actions' m where res: "foldE dropping ?ps (actions, st) = Inr (actions', update m st)"
    "places_ok m"
    "\<forall>k. hm_get expr_eq m k = (if hs_member expr_eq ?ps k then None else hm_get expr_eq (content st) k)"
    using drop_all [OF ok] by blast
  have "hm_get expr_eq m k = (if P k then None else hm_get expr_eq (content st) k)" for k
  proof (cases "hm_get expr_eq (content st) k")
    case None
    then show ?thesis using res(3) by simp
  next
    case (Some v)
    from ex.get_Some_key [OF this] obtain a where mem: "(a, v) \<in> set (content st)" and a: "expr_eq a k" by (elim exE conjE)
    from mem have key: "a \<in> set (hm_keys (content st))" by (force simp: hm_keys_def)
    have "hs_member expr_eq ?ps k = P k"
    proof
      assume "hs_member expr_eq ?ps k"
      then obtain x where "P x" "expr_eq x k" by (auto simp: hs_member_def list_ex_iff)
      then show "P k" using P [of x k] by simp
    next
      assume "P k"
      then have "a \<in> set ?ps" using key P [OF a] by simp
      then show "hs_member expr_eq ?ps k" unfolding hs_member_def list_ex_iff using a by (rule bexI [rotated])
    qed
    then show ?thesis using res(3) by simp
  qed
  then show ?thesis using res(1,2) by blast
qed

lemma equalise_all:
  assumes "places_ok (content l)" "places_ok (content r)" "hs_wf expr_eq ps" "list_all place_ok ps"
    "\<And>p. p \<in> set ps \<Longrightarrow> \<exists>a b. hm_get expr_eq (content l) p = Some a \<and> hm_get expr_eq (content r) p = Some b \<and>
       comparable a b"
  shows "\<exists>la' ra' m m'. foldE equalise ps ((la, l), (ra, r)) = Inr ((la', update m l), (ra', update m' r)) \<and>
    places_ok m \<and> places_ok m' \<and>
    (\<forall>k. hm_get expr_eq m k = (if hs_member expr_eq ps k
       then meet (hm_get expr_eq (content l) k) (hm_get expr_eq (content r) k) else hm_get expr_eq (content l) k)) \<and>
    (\<forall>k. hm_get expr_eq m' k = (if hs_member expr_eq ps k
       then meet (hm_get expr_eq (content l) k) (hm_get expr_eq (content r) k) else hm_get expr_eq (content r) k))"
  using assms
proof (induction ps arbitrary: l r la ra)
  case Nil
  then show ?case
    by (intro exI [of _ la] exI [of _ ra] exI [of _ "content l"] exI [of _ "content r"]) (simp add: hs_member_def)
next
  case (Cons p ps)
  obtain a b where ab: "hm_get expr_eq (content l) p = Some a" "hm_get expr_eq (content r) p = Some b" "comparable a b"
    using Cons.prems(5) [of p] by auto
  let ?m = "lowered (content l) p a b" and ?m' = "lowered (content r) p b a"
  let ?l = "update ?m l" and ?r = "update ?m' r"
  from equalise_step [OF ab] obtain la1 ra1 where
    step: "equalise p ((la, l), (ra, r)) = Inr ((la1, ?l), (ra1, ?r))" by blast
  have ok: "place_ok p" "expr_eq p p"
    using Cons.prems(4) by (simp_all add: place_ok_def expr_eq_refl_iff)
  have same: "hm_get expr_eq (content l) k = Some a \<and> hm_get expr_eq (content r) k = Some b" if "expr_eq p k" for k
    using ab ex.get_cong [OF that, of "content l"] ex.get_cong [OF that, of "content r"] by simp
  have gets: "hm_get expr_eq ?m k = (if expr_eq p k then meet (Some a) (Some b) else hm_get expr_eq (content l) k)"
      "hm_get expr_eq ?m' k = (if expr_eq p k then meet (Some a) (Some b) else hm_get expr_eq (content r) k)" for k
    using same [of k] ab(3) by (simp_all add: lowered_def ex.get_insert [OF ok(2)] meet_def comparable_def) auto
  have oks: "places_ok (content ?l)" "places_ok (content ?r)"
    using Cons.prems(1,2) ok(1) by (simp_all add: lowered_def places_ok_insert)
  have wf: "hs_wf expr_eq ps" "list_all place_ok ps" using Cons.prems(3,4) by (simp_all add: hs_wf_def)
  have "\<exists>a b. hm_get expr_eq (content ?l) q = Some a \<and> hm_get expr_eq (content ?r) q = Some b \<and> comparable a b"
    if "q \<in> set ps" for q
    using Cons.prems(3) Cons.prems(5) [of q] that by (simp add: gets hs_wf_def)
  from Cons.IH [OF oks wf this, of la1 ra1] obtain la2 ra2 m m' where
    rest: "foldE equalise ps ((la1, ?l), (ra1, ?r)) = Inr ((la2, update m ?l), (ra2, update m' ?r))"
      "places_ok m" "places_ok m'"
      "\<forall>k. hm_get expr_eq m k = (if hs_member expr_eq ps k
         then meet (hm_get expr_eq ?m k) (hm_get expr_eq ?m' k) else hm_get expr_eq ?m k)"
      "\<forall>k. hm_get expr_eq m' k = (if hs_member expr_eq ps k
         then meet (hm_get expr_eq ?m k) (hm_get expr_eq ?m' k) else hm_get expr_eq ?m' k)"
    by auto
  have "foldE equalise (p # ps) ((la, l), (ra, r)) = Inr ((la2, update m l), (ra2, update m' r))"
    using step rest(1) by simp
  moreover have idem: "meet (meet (Some a) (Some b)) (meet (Some a) (Some b)) = meet (Some a) (Some b)"
    by (simp add: meet_def)
  moreover have "hm_get expr_eq m k = (if hs_member expr_eq (p # ps) k
      then meet (hm_get expr_eq (content l) k) (hm_get expr_eq (content r) k) else hm_get expr_eq (content l) k)"
    "hm_get expr_eq m' k = (if hs_member expr_eq (p # ps) k
      then meet (hm_get expr_eq (content l) k) (hm_get expr_eq (content r) k) else hm_get expr_eq (content r) k)" for k
    using rest(4,5) same [of k] idem by (auto simp: hs_member_def gets)
  ultimately show ?case using rest(2,3) by blast
qed

lemma drop_moved:
  assumes ok: "places_ok (content st)"
  shows "\<exists>actions' m.
    bindE (filter_proper_extensions_of (hm_keys (content st)) M) (\<lambda>ps. foldE dropping ps (actions, st)) =
      Inr (actions', update m st) \<and> places_ok m \<and>
    (\<forall>k. hm_get expr_eq m k = (if list_ex (below k) M then None else hm_get expr_eq (content st) k))"
proof -
  have "filter_proper_extensions_of (hm_keys (content st)) M =
      Inr (filter (\<lambda>k. list_ex (below k) M) (hm_keys (content st)))"
    unfolding filter_proper_extensions_of_def using ok
    by (intro filterE_total anyE_total place_proper_prefix_total) (simp add: places_ok_def list_all_iff)
  moreover have "list_ex (below x) M = list_ex (below y) M" if "expr_eq x y" for x y
    using below_cong [OF that] by (simp add: list_ex_iff)
  ultimately show ?thesis using drop_matching [OF ok, of "\<lambda>k. list_ex (below k) M" actions] by simp
qed

lemma drop_other:
  assumes "places_ok (content st)"
  shows "\<exists>actions' m.
    foldE dropping (hs_difference expr_eq (hm_keys (content st)) keep) (actions, st) = Inr (actions', update m st) \<and>
    places_ok m \<and> (\<forall>k. hm_get expr_eq m k = (if hs_member expr_eq keep k then hm_get expr_eq (content st) k else None))"
proof -
  have "\<And>x y. expr_eq x y \<Longrightarrow> (\<not> hs_member expr_eq keep x) = (\<not> hs_member expr_eq keep y)"
    using ex.member_cong [of _ _ keep] by simp
  from drop_matching [where P = "\<lambda>k. \<not> hs_member expr_eq keep k" and actions = actions, OF assms this]
  obtain actions' m where res: "foldE dropping (filter (\<lambda>k. \<not> hs_member expr_eq keep k) (hm_keys (content st))) (actions, st) =
      Inr (actions', update m st)" "places_ok m"
    "\<forall>k. hm_get expr_eq m k = (if \<not> hs_member expr_eq keep k then None else hm_get expr_eq (content st) k)"
    by auto
  then show ?thesis unfolding hs_difference_def by (intro exI [of _ actions'] exI [of _ m]) simp
qed

lemma equalise_same_places:
  assumes ok: "places_ok (content l)" "places_ok (content r)"
    and same: "\<And>k. hm_contains expr_eq (content l) k = hm_contains expr_eq (content r) k"
    and cmp: "\<And>k a b. hm_get expr_eq (content l) k = Some a \<Longrightarrow> hm_get expr_eq (content r) k = Some b \<Longrightarrow> comparable a b"
  shows "\<exists>la' ra' m m'. foldE equalise (hm_keys (content l)) ((la, l), (ra, r)) =
      Inr ((la', update m l), (ra', update m' r)) \<and> places_ok m \<and> places_ok m' \<and>
    (\<forall>k. hm_get expr_eq m k = meet (hm_get expr_eq (content l) k) (hm_get expr_eq (content r) k)) \<and>
    (\<forall>k. hm_get expr_eq m' k = meet (hm_get expr_eq (content l) k) (hm_get expr_eq (content r) k))"
proof -
  let ?ps = "hm_keys (content l)"
  have wf: "hs_wf expr_eq ?ps" "list_all place_ok ?ps"
    using ok(1) hx.wf_pairwise [of "content l"] by (simp_all add: places_ok_def)
  have member: "hs_member expr_eq ?ps k = hm_contains expr_eq (content l) k" for k
    unfolding hx.contains_iff hs_member_def list_ex_iff hm_keys_def by force
  have "\<exists>a b. hm_get expr_eq (content l) p = Some a \<and> hm_get expr_eq (content r) p = Some b \<and> comparable a b"
    if "p \<in> set ?ps" for p
  proof -
    have "hm_contains expr_eq (content l) p"
      using wf(1) that hx.member_self [of p ?ps] by (simp add: member [symmetric] hs_wf_def list_all_iff)
    then show ?thesis using same [of p] cmp [of p] by (auto simp: hm_contains_def)
  qed
  from equalise_all [OF ok wf this, of la ra] obtain la' ra' m m' where
    res: "foldE equalise ?ps ((la, l), (ra, r)) = Inr ((la', update m l), (ra', update m' r))"
      "places_ok m" "places_ok m'"
      "\<forall>k. hm_get expr_eq m k = (if hs_member expr_eq ?ps k
         then meet (hm_get expr_eq (content l) k) (hm_get expr_eq (content r) k) else hm_get expr_eq (content l) k)"
      "\<forall>k. hm_get expr_eq m' k = (if hs_member expr_eq ?ps k
         then meet (hm_get expr_eq (content l) k) (hm_get expr_eq (content r) k) else hm_get expr_eq (content r) k)"
    by auto
  have "hm_get expr_eq m k = meet (hm_get expr_eq (content l) k) (hm_get expr_eq (content r) k)"
    "hm_get expr_eq m' k = meet (hm_get expr_eq (content l) k) (hm_get expr_eq (content r) k)" for k
    using spec [OF res(4), of k] spec [OF res(5), of k] same [of k]
    by (cases "hm_get expr_eq (content l) k"; cases "hm_get expr_eq (content r) k"; simp add: member hm_contains_def)+
  then show ?thesis using res(1-3) by blast
qed

end

interpretation acc_part: branch_component st_acc "\<lambda>m. st_acc_update (\<lambda>_. m)" drop_acc equalise_acc
proof unfold_locales
  fix st l r :: fu_state and p :: expr and a b :: perm_amount and actions la ra :: "action list"
  show "\<exists>actions'. drop_acc p (actions, st) = Inr (actions', st\<lparr>st_acc := hm_remove expr_eq (st_acc st) p\<rparr>)"
    if "hm_get expr_eq (st_acc st) p = Some a"
    using that by (simp add: drop_acc_def contains_acc_def hm_contains_def remove_acc_place_def)
  show "\<exists>la' ra'. equalise_acc p ((la, l), (ra, r)) =
      Inr ((la', l\<lparr>st_acc := lowered (st_acc l) p a b\<rparr>), (ra', r\<lparr>st_acc := lowered (st_acc r) p b a\<rparr>))"
    if "hm_get expr_eq (st_acc l) p = Some a" "hm_get expr_eq (st_acc r) p = Some b" "comparable a b"
    using that by (auto simp: equalise_acc_def contains_acc_def hm_contains_def amount_at_def weaken_acc_def
        remove_acc_def sub_amount_def amount_result_def lowered_def comparable_def)
qed simp_all

interpretation pred_part: branch_component st_pred "\<lambda>m. st_pred_update (\<lambda>_. m)" drop_pred equalise_pred
proof unfold_locales
  fix st l r :: fu_state and p :: expr and a b :: perm_amount and actions la ra :: "action list"
  show "\<exists>actions'. drop_pred p (actions, st) = Inr (actions', st\<lparr>st_pred := hm_remove expr_eq (st_pred st) p\<rparr>)"
    if "hm_get expr_eq (st_pred st) p = Some a"
    using that by (simp add: drop_pred_def contains_pred_def hm_contains_def remove_pred_place_def)
  show "\<exists>la' ra'. equalise_pred p ((la, l), (ra, r)) =
      Inr ((la', l\<lparr>st_pred := lowered (st_pred l) p a b\<rparr>), (ra', r\<lparr>st_pred := lowered (st_pred r) p b a\<rparr>))"
    if "hm_get expr_eq (st_pred l) p = Some a" "hm_get expr_eq (st_pred r) p = Some b" "comparable a b"
    using that by (auto simp: equalise_pred_def contains_pred_def hm_contains_def amount_at_def weaken_pred_def
        remove_pred_def sub_amount_def amount_result_def lowered_def comparable_def)
qed simp_all

subsection \<open>The finishing phases of the join make the branches equal\<close>

lemma drop_acc_moved:
  "drop_acc p (actions, st\<lparr>st_moved := mv\<rparr>) =
     bindE (drop_acc p (actions, st)) (\<lambda>(actions', st'). Inr (actions', st'\<lparr>st_moved := mv\<rparr>))"
  by (cases "hm_get expr_eq (st_acc st) p") (simp_all add: drop_acc_def contains_acc_def hm_contains_def remove_acc_place_def)

lemma drop_acc_and_moved_step:
  assumes "list_all place_ok (st_moved st)"
  shows "drop_acc_and_moved p (actions, st) =
    bindE (drop_acc p (actions, st)) (\<lambda>(actions', st').
      Inr (actions', st'\<lparr>st_moved := filter (\<lambda>m. \<not> prefix_of m p) (st_moved st)\<rparr>))"
proof -
  have "filterE (\<lambda>e. bindE (place_prefix e p) (\<lambda>b. Inr (\<not> b))) (st_moved st) =
      Inr (filter (\<lambda>m. \<not> prefix_of m p) (st_moved st))"
    using assms by (intro filterE_total) (simp add: place_prefix_total list_all_iff)
  then show ?thesis
    by (cases "hm_get expr_eq (st_acc st) p")
      (simp_all add: drop_acc_and_moved_def drop_acc_def remove_acc_place_def remove_moved_matching_def
        contains_acc_def hm_contains_def)
qed

lemma drop_accs_and_moved:
  "foldE drop_acc ps (actions, st) = Inr (actions', st') \<Longrightarrow> list_all place_ok mv \<Longrightarrow>
   \<exists>mv'. foldE drop_acc_and_moved ps (actions, st\<lparr>st_moved := mv\<rparr>) = Inr (actions', st'\<lparr>st_moved := mv'\<rparr>)"
proof (induction ps arbitrary: actions st mv)
  case Nil
  then show ?case by auto
next
  case (Cons p ps)
  from Cons.prems(1) obtain actions1 st1 where
    step: "drop_acc p (actions, st) = Inr (actions1, st1)" "foldE drop_acc ps (actions1, st1) = Inr (actions', st')"
    by (auto simp: fallible_simps)
  let ?mv = "filter (\<lambda>m. \<not> prefix_of m p) mv"
  have "drop_acc_and_moved p (actions, st\<lparr>st_moved := mv\<rparr>) = Inr (actions1, st1\<lparr>st_moved := ?mv\<rparr>)"
    using Cons.prems(2) by (simp add: drop_acc_and_moved_step drop_acc_moved step(1))
  moreover have "list_all place_ok ?mv" using Cons.prems(2) by (simp add: list_all_iff)
  ultimately show ?case using Cons.IH [OF step(2)] by simp
qed

lemma hm_eqI:
  assumes "places_ok m" "places_ok m'" "\<And>k. hm_get expr_eq m k = hm_get expr_eq m' k"
  shows "hm_eq m m'"
  using assms hx.same_get_length [of m m'] ex.wf_get_member [of m]
  by (auto simp: hm_eq_def places_ok_def list_all_iff)

text \<open>What a place holds after the join: nothing below a moved path, else the smaller of the two amounts.\<close>

definition joined :: "expr list \<Rightarrow> place_perms \<Rightarrow> place_perms \<Rightarrow> expr \<Rightarrow> perm_amount option" where
  "joined moved_paths m m' k =
     (if list_ex (below k) moved_paths then None else meet (hm_get expr_eq m k) (hm_get expr_eq m' k))"

definition joinable :: "place_perms \<Rightarrow> place_perms \<Rightarrow> bool" where
  "joinable m m' \<longleftrightarrow> places_ok m \<and> places_ok m' \<and>
     (\<forall>k a b. hm_get expr_eq m k = Some a \<longrightarrow> hm_get expr_eq m' k = Some b \<longrightarrow> comparable a b)"

text \<open>What the dropping phases leave in a branch: what the other branch has too and no move excludes.\<close>

definition kept :: "expr list \<Rightarrow> place_perms \<Rightarrow> place_perms \<Rightarrow> place_perms \<Rightarrow> bool" where
  "kept moved_paths m m' res \<longleftrightarrow> places_ok res \<and>
     (\<forall>k. hm_get expr_eq res k =
        (if list_ex (below k) moved_paths \<or> hm_get expr_eq m' k = None then None else hm_get expr_eq m k))"

lemma kept_meet:
  assumes "joinable m m'" "kept M m m' res" "kept M m' m res'"
  shows "joinable res res'" "hm_contains expr_eq res k = hm_contains expr_eq res' k"
    "meet (hm_get expr_eq res k) (hm_get expr_eq res' k) = joined M m m' k"
  using assms by (auto simp: joinable_def kept_def hm_contains_def joined_def meet_def split: option.splits)

lemma member_keys: "hs_member expr_eq (hm_keys m) k = (hm_get expr_eq m k \<noteq> None)"
  using hx.contains_iff [of m k] unfolding hs_member_def list_ex_iff hm_keys_def hm_contains_def by force

lemma preds_phase:
  assumes "places_ok (st_pred l)" "places_ok (st_pred r)"
  obtains la1 p1 ra1 q1 la2 p2 ra2 q2 where
    "drop_moved_preds M (la, l) = Inr (la1, l\<lparr>st_pred := p1\<rparr>)"
    "drop_moved_preds M (ra, r) = Inr (ra1, r\<lparr>st_pred := q1\<rparr>)"
    "drop_other_preds (intersection_sets expr_eq (hm_keys p1) (hm_keys q1)) (la1, l\<lparr>st_pred := p1\<rparr>) =
       Inr (la2, l\<lparr>st_pred := p2\<rparr>)"
    "drop_other_preds (intersection_sets expr_eq (hm_keys p1) (hm_keys q1)) (ra1, r\<lparr>st_pred := q1\<rparr>) =
       Inr (ra2, r\<lparr>st_pred := q2\<rparr>)"
    "kept M (st_pred l) (st_pred r) p2" "kept M (st_pred r) (st_pred l) q2"
proof -
  obtain la1 p1 where 1: "drop_moved_preds M (la, l) = Inr (la1, l\<lparr>st_pred := p1\<rparr>)" "places_ok p1"
      "\<forall>k. hm_get expr_eq p1 k = (if list_ex (below k) M then None else hm_get expr_eq (st_pred l) k)"
    using pred_part.drop_moved [OF assms(1), of M la] by (auto simp: drop_moved_preds_def pred_places_def)
  obtain ra1 q1 where 2: "drop_moved_preds M (ra, r) = Inr (ra1, r\<lparr>st_pred := q1\<rparr>)" "places_ok q1"
      "\<forall>k. hm_get expr_eq q1 k = (if list_ex (below k) M then None else hm_get expr_eq (st_pred r) k)"
    using pred_part.drop_moved [OF assms(2), of M ra] by (auto simp: drop_moved_preds_def pred_places_def)
  let ?keep = "intersection_sets expr_eq (hm_keys p1) (hm_keys q1)"
  have keep: "hs_member expr_eq ?keep k = (hm_get expr_eq p1 k \<noteq> None \<and> hm_get expr_eq q1 k \<noteq> None)" for k
    by (simp add: intersection_sets_def hx.member_intersection member_keys)
  have ok: "places_ok (st_pred (l\<lparr>st_pred := p1\<rparr>))" "places_ok (st_pred (r\<lparr>st_pred := q1\<rparr>))"
    using 1(2) 2(2) by simp_all
  obtain la2 p2 where 3: "drop_other_preds ?keep (la1, l\<lparr>st_pred := p1\<rparr>) = Inr (la2, l\<lparr>st_pred := p2\<rparr>)" "places_ok p2"
      "\<forall>k. hm_get expr_eq p2 k = (if hs_member expr_eq ?keep k then hm_get expr_eq p1 k else None)"
    using pred_part.drop_other [OF ok(1), of ?keep la1] by (auto simp: drop_other_preds_def pred_places_def)
  obtain ra2 q2 where 4: "drop_other_preds ?keep (ra1, r\<lparr>st_pred := q1\<rparr>) = Inr (ra2, r\<lparr>st_pred := q2\<rparr>)" "places_ok q2"
      "\<forall>k. hm_get expr_eq q2 k = (if hs_member expr_eq ?keep k then hm_get expr_eq q1 k else None)"
    using pred_part.drop_other [OF ok(2), of ?keep ra1] by (auto simp: drop_other_preds_def pred_places_def)
  have "kept M (st_pred l) (st_pred r) p2" "kept M (st_pred r) (st_pred l) q2"
    using 3(2) 4(2) by (auto simp add: kept_def 3(3) 4(3) keep 1(3) 2(3))
  then show thesis using that 1(1) 2(1) 3(1) 4(1) by blast
qed

lemma drop_other_accs_ok:
  assumes "places_ok (st_acc st)" "list_all place_ok (st_moved st)"
  shows "\<exists>actions' m mv.
    drop_other_accs keep (actions, st) = Inr (actions', st\<lparr>st_acc := m, st_moved := mv\<rparr>) \<and> places_ok m \<and>
    (\<forall>k. hm_get expr_eq m k = (if hs_member expr_eq keep k then hm_get expr_eq (st_acc st) k else None))"
proof -
  obtain actions' m where res: "foldE drop_acc (hs_difference expr_eq (hm_keys (st_acc st)) keep) (actions, st) =
      Inr (actions', st\<lparr>st_acc := m\<rparr>)" "places_ok m"
    "\<forall>k. hm_get expr_eq m k = (if hs_member expr_eq keep k then hm_get expr_eq (st_acc st) k else None)"
    using acc_part.drop_other [OF assms(1), of keep actions] by auto
  from drop_accs_and_moved [OF res(1) assms(2)] obtain mv where
    "drop_other_accs keep (actions, st) = Inr (actions', st\<lparr>st_acc := m, st_moved := mv\<rparr>)"
    by (auto simp: drop_other_accs_def acc_places_def)
  then show ?thesis using res(2,3) by blast
qed

lemma accs_phase:
  assumes "places_ok (st_acc l)" "places_ok (st_acc r)"
    "list_all place_ok (st_moved l)" "list_all place_ok (st_moved r)"
  obtains la1 a1 ra1 b1 la2 a2 ra2 b2 mv nv where
    "drop_moved_accs M (la, l) = Inr (la1, l\<lparr>st_acc := a1\<rparr>)"
    "drop_moved_accs M (ra, r) = Inr (ra1, r\<lparr>st_acc := b1\<rparr>)"
    "drop_other_accs (hm_keys b1) (la1, l\<lparr>st_acc := a1\<rparr>) = Inr (la2, l\<lparr>st_acc := a2, st_moved := mv\<rparr>)"
    "drop_other_accs (hm_keys a2) (ra1, r\<lparr>st_acc := b1\<rparr>) = Inr (ra2, r\<lparr>st_acc := b2, st_moved := nv\<rparr>)"
    "kept M (st_acc l) (st_acc r) a2" "kept M (st_acc r) (st_acc l) b2"
proof -
  obtain la1 a1 where 1: "drop_moved_accs M (la, l) = Inr (la1, l\<lparr>st_acc := a1\<rparr>)" "places_ok a1"
      "\<forall>k. hm_get expr_eq a1 k = (if list_ex (below k) M then None else hm_get expr_eq (st_acc l) k)"
    using acc_part.drop_moved [OF assms(1), of M la] by (auto simp: drop_moved_accs_def acc_places_def)
  obtain ra1 b1 where 2: "drop_moved_accs M (ra, r) = Inr (ra1, r\<lparr>st_acc := b1\<rparr>)" "places_ok b1"
      "\<forall>k. hm_get expr_eq b1 k = (if list_ex (below k) M then None else hm_get expr_eq (st_acc r) k)"
    using acc_part.drop_moved [OF assms(2), of M ra] by (auto simp: drop_moved_accs_def acc_places_def)
  obtain la2 a2 mv where 3: "drop_other_accs (hm_keys b1) (la1, l\<lparr>st_acc := a1\<rparr>) =
      Inr (la2, l\<lparr>st_acc := a2, st_moved := mv\<rparr>)" "places_ok a2"
      "\<forall>k. hm_get expr_eq a2 k = (if hs_member expr_eq (hm_keys b1) k then hm_get expr_eq a1 k else None)"
    using drop_other_accs_ok [of "l\<lparr>st_acc := a1\<rparr>" "hm_keys b1" la1] 1(2) assms(3) by auto
  obtain ra2 b2 nv where 4: "drop_other_accs (hm_keys a2) (ra1, r\<lparr>st_acc := b1\<rparr>) =
      Inr (ra2, r\<lparr>st_acc := b2, st_moved := nv\<rparr>)" "places_ok b2"
      "\<forall>k. hm_get expr_eq b2 k = (if hs_member expr_eq (hm_keys a2) k then hm_get expr_eq b1 k else None)"
    using drop_other_accs_ok [of "r\<lparr>st_acc := b1\<rparr>" "hm_keys a2" ra1] 2(2) assms(4) by auto
  have "kept M (st_acc l) (st_acc r) a2" "kept M (st_acc r) (st_acc l) b2"
    using 3(2) 4(2) by (auto simp add: kept_def 3(3) 4(3) member_keys 1(3) 2(3))
  then show thesis using that 1(1) 2(1) 3(1) 4(1) by blast
qed

text \<open>
  C34 The finishing phases of the join succeed and leave the two branches with the same permissions: a
  place keeps its permission exactly when both branches hold it and no moved path excludes it, with read
  permission where one branch has read and the other write.  None of the assertions and lookups of these
  phases fails, for states over well-formed places whose common amounts are comparable.
\<close>

theorem finish_join_agrees:
  assumes "joinable (st_acc l) (st_acc r)" "joinable (st_pred l) (st_pred r)"
    "list_all place_ok (st_moved l)" "list_all place_ok (st_moved r)"
  shows "\<exists>la' l' ra' r'. finish_join moved_paths (la, l) (ra, r) = Inr ((la', l'), (ra', r')) \<and>
    (\<forall>k. hm_get expr_eq (st_acc l') k = joined moved_paths (st_acc l) (st_acc r) k \<and>
       hm_get expr_eq (st_acc r') k = joined moved_paths (st_acc l) (st_acc r) k \<and>
       hm_get expr_eq (st_pred l') k = joined moved_paths (st_pred l) (st_pred r) k \<and>
       hm_get expr_eq (st_pred r') k = joined moved_paths (st_pred l) (st_pred r) k)"
proof -
  obtain la1 p1 ra1 q1 la2 p2 ra2 q2 where
    P: "drop_moved_preds moved_paths (la, l) = Inr (la1, l\<lparr>st_pred := p1\<rparr>)"
      "drop_moved_preds moved_paths (ra, r) = Inr (ra1, r\<lparr>st_pred := q1\<rparr>)"
      "drop_other_preds (intersection_sets expr_eq (hm_keys p1) (hm_keys q1)) (la1, l\<lparr>st_pred := p1\<rparr>) =
         Inr (la2, l\<lparr>st_pred := p2\<rparr>)"
      "drop_other_preds (intersection_sets expr_eq (hm_keys p1) (hm_keys q1)) (ra1, r\<lparr>st_pred := q1\<rparr>) =
         Inr (ra2, r\<lparr>st_pred := q2\<rparr>)"
      "kept moved_paths (st_pred l) (st_pred r) p2" "kept moved_paths (st_pred r) (st_pred l) q2"
    using preds_phase assms(2) unfolding joinable_def by metis
  let ?l = "l\<lparr>st_pred := p2\<rparr>" and ?r = "r\<lparr>st_pred := q2\<rparr>"
  obtain la3 a1 ra3 b1 la4 a2 ra4 b2 mv nv where
    A: "drop_moved_accs moved_paths (la2, ?l) = Inr (la3, ?l\<lparr>st_acc := a1\<rparr>)"
      "drop_moved_accs moved_paths (ra2, ?r) = Inr (ra3, ?r\<lparr>st_acc := b1\<rparr>)"
      "drop_other_accs (hm_keys b1) (la3, ?l\<lparr>st_acc := a1\<rparr>) = Inr (la4, ?l\<lparr>st_acc := a2, st_moved := mv\<rparr>)"
      "drop_other_accs (hm_keys a2) (ra3, ?r\<lparr>st_acc := b1\<rparr>) = Inr (ra4, ?r\<lparr>st_acc := b2, st_moved := nv\<rparr>)"
      "kept moved_paths (st_acc l) (st_acc r) a2" "kept moved_paths (st_acc r) (st_acc l) b2"
    using accs_phase [of ?l ?r moved_paths la2 ra2 thesis] assms(1,3,4) by (auto simp: joinable_def)
  let ?l2 = "?l\<lparr>st_acc := a2, st_moved := mv\<rparr>" and ?r2 = "?r\<lparr>st_acc := b2, st_moved := nv\<rparr>"
  note accs = kept_meet [OF assms(1) A(5,6)] and preds = kept_meet [OF assms(2) P(5,6)]
  obtain la5 ra5 a3 b3 where
    EA: "foldE equalise_acc (hm_keys a2) ((la4, ?l2), (ra4, ?r2)) =
        Inr ((la5, ?l2\<lparr>st_acc := a3\<rparr>), (ra5, ?r2\<lparr>st_acc := b3\<rparr>))" "places_ok a3" "places_ok b3"
      "\<forall>k. hm_get expr_eq a3 k = joined moved_paths (st_acc l) (st_acc r) k"
      "\<forall>k. hm_get expr_eq b3 k = joined moved_paths (st_acc l) (st_acc r) k"
    using acc_part.equalise_same_places [of ?l2 ?r2 la4 ra4] accs by (auto simp: joinable_def)
  let ?l3 = "?l2\<lparr>st_acc := a3\<rparr>" and ?r3 = "?r2\<lparr>st_acc := b3\<rparr>"
  obtain la6 ra6 p3 q3 where
    EP: "foldE equalise_pred (hm_keys p2) ((la5, ?l3), (ra5, ?r3)) =
        Inr ((la6, ?l3\<lparr>st_pred := p3\<rparr>), (ra6, ?r3\<lparr>st_pred := q3\<rparr>))" "places_ok p3" "places_ok q3"
      "\<forall>k. hm_get expr_eq p3 k = joined moved_paths (st_pred l) (st_pred r) k"
      "\<forall>k. hm_get expr_eq q3 k = joined moved_paths (st_pred l) (st_pred r) k"
    using pred_part.equalise_same_places [of ?l3 ?r3 la5 ra5] preds by (auto simp: joinable_def)
  have "hm_eq a3 b3" "hm_eq p3 q3" using EA EP by (auto intro: hm_eqI)
  then have "finish_join moved_paths (la, l) (ra, r) =
      Inr ((la6, ?l3\<lparr>st_pred := p3\<rparr>), (ra6, ?r3\<lparr>st_pred := q3\<rparr>))"
    using P(1-4) A(1-4) EA(1) EP(1) by (simp add: finish_join_def pred_places_def acc_places_def)
  then show ?thesis using EA(4,5) EP(4,5) by (intro exI conjI) auto
qed

definition ex_other :: fu_state where
  "ex_other = state_new [(ex_y, Write), (ex_xf, Read), (ex_x, Write)] [] []"

theorem finish_join_agrees_witness:
  "\<exists>la' l' ra' r'. finish_join [] ([], ex_state) ([], ex_other) = Inr ((la', l'), (ra', r')) \<and>
     hm_get expr_eq (st_acc l') ex_xf = Some Read \<and> hm_get expr_eq (st_acc r') ex_xf = Some Read \<and>
     hm_get expr_eq (st_acc r') ex_y = None \<and> hm_get expr_eq (st_pred l') ex_xf = None"
proof -
  have "joinable (st_acc ex_state) (st_acc ex_other)" "joinable (st_pred ex_state) (st_pred ex_other)"
    by (auto simp: joinable_def places_ok_def ex_state_def ex_other_def state_new_def hm_keys_def ex_xf_def
        place_ok_def comparable_def ex_place_simps split: if_splits)
  moreover have "st_moved ex_state = []" "st_moved ex_other = []"
    by (simp_all add: ex_state_def ex_other_def state_new_def)
  ultimately obtain la' l' ra' r' where
    "finish_join [] ([], ex_state) ([], ex_other) = Inr ((la', l'), (ra', r'))"
    "\<forall>k. hm_get expr_eq (st_acc l') k = joined [] (st_acc ex_state) (st_acc ex_other) k \<and>
       hm_get expr_eq (st_acc r') k = joined [] (st_acc ex_state) (st_acc ex_other) k \<and>
       hm_get expr_eq (st_pred l') k = joined [] (st_pred ex_state) (st_pred ex_other) k \<and>
       hm_get expr_eq (st_pred r') k = joined [] (st_pred ex_state) (st_pred ex_other) k"
    using finish_join_agrees [of ex_state ex_other "[]" "[]" "[]"] by auto
  moreover have "joined [] (st_acc ex_state) (st_acc ex_other) ex_xf = Some Read"
    "joined [] (st_acc ex_state) (st_acc ex_other) ex_y = None"
    "joined [] (st_pred ex_state) (st_pred ex_other) ex_xf = None"
    by code_simp+
  ultimately show ?thesis by auto
qed

text \<open>
  The whole join on a branch where the predicate of \<open>x.f\<close> is folded and one where it is unfolded: the
  first branch unfolds, the second does nothing.
\<close>

theorem join_unfolds_example:
  "case join_states False ex_rx ex_preds 3 ex_state
       (state_new [(ex_x, Write), (ex_xf, Write), (ex_dot ex_xf ''g'', Write)] [(ex_dot ex_xf ''g'', Write)] []) of
     Inr ((left_actions, left), (right_actions, right)) \<Rightarrow>
       length left_actions = 1 \<and> right_actions = [] \<and> state_eq left right \<and> contains_pred left (ex_dot ex_xf ''g'')
   | Inl _ \<Rightarrow> False"
  by code_simp

end
