(* ===== verification/Fu_Replacer.thy ===== *)
theory Fu_Replacer
  imports Fu_Join Vir_Function Vir_Unfolding
begin

section \<open>Fold-unfold: unfoldings in expressions (ExprReplacer in foldunfold/mod.rs)\<close>

text \<open>
  The folder that puts \<open>unfolding .. in ..\<close> around the parts of an expression that need it.  Its fields
  \<open>curr_pctxt\<close> and \<open>wait_old_expr\<close> are swapped around recursive calls and are arguments here; \<open>lhs_pctxt\<close>
  is left changed by a magic wand and is threaded.  The folder uses only the permission state of a path
  context.  The debug assertion on the base of a folded place is not modelled.
\<close>

record fu_env =
  fe_debug :: bool
  fe_rx :: regex_ops
  fe_preds :: predicates
  fe_old_exprs :: "string \<Rightarrow> expr list option"
  fe_fuel :: nat

type_synonym label_states = "string \<Rightarrow> fu_state option"

subsection \<open>The folder\<close>

definition add_unfoldings :: "fu_env \<Rightarrow> fu_state \<Rightarrow> perm list \<Rightarrow> expr \<Rightarrow> failure + expr" where
  "add_unfoldings env st perms e =
     bindE (obtain_permissions (fe_debug env) (fe_rx env) (fe_preds env) (fe_fuel env) perms st) (\<lambda>(actions, _).
     foldE (\<lambda>action result. map_sum Err id (to_expr action result)) (rev actions) e)"

definition wand_side_state :: "fu_env \<Rightarrow> fu_state \<Rightarrow> expr \<Rightarrow> failure + fu_state" where
  "wand_side_state env st side =
     bindE (remove_all st) (\<lambda>st.
     bindE (get_footprint (fe_rx env) (fe_preds env) side) (\<lambda>fp.
     insert_all_perms st
       (concat (map (\<lambda>p. [Acc (get_place p) (get_perm_amount p), p]) (filter is_pred fp)))))"

definition wand_lhs_state :: "fu_env \<Rightarrow> fu_state \<Rightarrow> expr \<Rightarrow> failure + fu_state" where
  "wand_lhs_state env st lhs =
     bindE (wand_side_state env st lhs) (\<lambda>st.
     state_replace_places (\<lambda>place. Inr (expr_set_pos (expr_pos place) (expr_old place ''lhs''))) st)"

definition label_state :: "label_states \<Rightarrow> fu_state option \<Rightarrow> string \<Rightarrow> failure + fu_state" where
  "label_state labels lhs_pctxt label =
     bindE (case (if label = ''lhs'' then lhs_pctxt else None) of
              Some st \<Rightarrow> Inr st
            | None \<Rightarrow> unwrapE (Err (MissingLabel label)) (labels label)) (\<lambda>st.
     state_replace_places (\<lambda>place. Inr (map_labels (\<lambda>l. if l = label then None else Some l) place)) st)"

text \<open>The end of \<open>fallible_fold\<close>: the permissions that the folded expression still misses.\<close>

fun unfold_around ::
  "fu_env \<Rightarrow> fu_state \<Rightarrow> bool \<Rightarrow> expr \<Rightarrow> expr \<times> fu_state option \<Rightarrow> failure + expr \<times> fu_state option" where
  "unfold_around env st wait_old_expr e (inner_expr, lhs_pctxt) =
     (if wait_old_expr \<or> \<not> is_pure e then Inr (inner_expr, lhs_pctxt)
      else
        bindE (expr_required (fe_rx env) (fe_preds env) inner_expr) (\<lambda>perms.
        bindE (add_unfoldings env st (filter perm_is_curr perms) inner_expr) (\<lambda>result.
        Inr (result, lhs_pctxt))))"

lemma explode_size: "size (fst (explode_place e)) \<le> size e"
  by (induction e rule: explode_place.induct) (auto split: prod.splits)

function replace_in_expr ::
  "fu_env \<Rightarrow> label_states \<Rightarrow> fu_state \<Rightarrow> bool \<Rightarrow> expr \<Rightarrow> fu_state option \<Rightarrow> failure + expr \<times> fu_state option" where
  "replace_in_expr env labels st wait_old_expr e lhs_pctxt =
     bindE (case e of
         EField base field pos \<Rightarrow>
           (if wait_old_expr then
              bindE (replace_in_expr env labels st wait_old_expr base lhs_pctxt) (\<lambda>(base, lhs_pctxt).
              Inr (EField base field pos, lhs_pctxt))
            else
              bindE (replace_in_expr env labels st wait_old_expr (fst (explode_place base)) lhs_pctxt)
                (\<lambda>(new_base, lhs_pctxt).
              Inr (reconstruct_place new_base (snd (explode_place base) @ [PCField field pos]), lhs_pctxt)))
       | EUnfolding name args body perm variant pos \<Rightarrow>
           bindE (if wait_old_expr then Inr st
                  else apply_on_state (fe_rx env) (fe_preds env) (SUnfold name args perm variant) st) (\<lambda>inner.
           bindE (replace_in_expr env labels inner wait_old_expr body lhs_pctxt) (\<lambda>(body, lhs_pctxt).
           Inr (EUnfolding name args body perm variant pos, lhs_pctxt)))
       | EMagicWand lhs rhs borrow pos \<Rightarrow>
           bindE (wand_lhs_state env st lhs) (\<lambda>lhs_st.
           bindE (replace_in_expr env labels lhs_st wait_old_expr lhs lhs_pctxt) (\<lambda>(new_lhs, _).
           bindE (wand_lhs_state env st new_lhs) (\<lambda>new_lhs_st.
           bindE (wand_side_state env st rhs) (\<lambda>rhs_st.
           bindE (replace_in_expr env labels rhs_st wait_old_expr rhs (Some new_lhs_st)) (\<lambda>(new_rhs, _).
           Inr (EMagicWand new_lhs new_rhs borrow pos, None))))))
       | ELabelledOld label body pos \<Rightarrow>
           bindE (label_state labels lhs_pctxt label) (\<lambda>old_st.
           bindE (replace_in_expr env labels old_st False body lhs_pctxt) (\<lambda>(body, lhs_pctxt).
           Inr (ELabelledOld label body pos, lhs_pctxt)))
       | EDowncast base enum_place variant_field \<Rightarrow>
           bindE (if wait_old_expr then Inr st
                  else apply_on_state (fe_rx env) (fe_preds env) (SDowncast enum_place variant_field) st) (\<lambda>inner.
           bindE (replace_in_expr env labels inner wait_old_expr base lhs_pctxt) (\<lambda>(base, lhs_pctxt).
           Inr (EDowncast base enum_place variant_field, lhs_pctxt)))
       | EFuncApp name args formal_args return_type pos \<Rightarrow>
           (if wait_old_expr then
              default_fallible_fold_expr (replace_in_expr env labels st wait_old_expr) e lhs_pctxt
            else
              bindE (expr_required (fe_rx env) (fe_preds env) e) (\<lambda>perms.
              bindE (add_unfoldings env st perms e) (\<lambda>result. Inr (result, lhs_pctxt))))
       | _ \<Rightarrow> default_fallible_fold_expr (replace_in_expr env labels st wait_old_expr) e lhs_pctxt)
     (unfold_around env st wait_old_expr e)"
  by pat_completeness auto
termination
  by (relation "measure (\<lambda>(env, labels, st, wait, e, lhs). size e)")
    (auto simp: children_size less_Suc_eq_le intro: explode_size le_SucI size_list_estimation' [OF _ order_refl])

declare replace_in_expr.simps [simp del]

definition replace_expr :: "fu_env \<Rightarrow> label_states \<Rightarrow> bool \<Rightarrow> fu_state \<Rightarrow> expr \<Rightarrow> failure + expr" where
  "replace_expr env labels wait_old_expr st e =
     bindE (replace_in_expr env labels st wait_old_expr e None) (\<lambda>(e, _). Inr e)"

definition add_folding_unfolding_to_expr :: "fu_env \<Rightarrow> fu_state \<Rightarrow> expr \<Rightarrow> failure + expr" where
  "add_folding_unfolding_to_expr env st e =
     bindE (replace_expr env Map.empty True st e) (\<lambda>e. replace_expr env Map.empty False st e)"

subsection \<open>Functions\<close>

definition add_folding_unfolding_to_function :: "fu_env \<Rightarrow> vfunction \<Rightarrow> failure + vfunction" where
  "add_folding_unfolding_to_function env f =
     (let pctxt = path_ctxt_new (fn_formal_args f) in
      bindE (foldE (\<lambda>pre st. apply_stmt (fe_debug env) (fe_rx env) (fe_preds env) (SInhale pre) st)
               (fn_pres f) (pc_state pctxt)) (\<lambda>st.
      bindE (mapE (add_folding_unfolding_to_expr env st) (fn_pres f)) (\<lambda>pres.
      bindE (mapE (add_folding_unfolding_to_expr env st) (fn_posts f)) (\<lambda>posts.
      bindE (case fn_body f of
               None \<Rightarrow> Inr None
             | Some e \<Rightarrow> bindE (add_folding_unfolding_to_expr env st e) (\<lambda>e. Inr (Some e))) (\<lambda>body.
      Inr (f\<lparr>fn_pres := pres, fn_posts := posts, fn_body := body\<rparr>))))))"

subsection \<open>Only unfoldings are added\<close>

lemma add_unfoldings_strip:
  assumes "add_unfoldings env st perms e = Inr e'"
  shows "strip e' = strip e"
proof -
  obtain actions where "foldE (\<lambda>action result. map_sum Err id (to_expr action result)) actions e = Inr e'"
    using assms by (auto simp: add_unfoldings_def fallible_simps)
  then show ?thesis
  proof (rule foldE_invariant [where I = "\<lambda>r. strip r = strip e"])
    fix action u v
    assume "strip u = strip e" "map_sum Err id (to_expr action u) = Inr v"
    then show "strip v = strip e" by (cases action) (auto simp: expr_unfolding_def)
  qed simp
qed

text \<open>The fold of the subexpressions, before the unfoldings around the expression itself.\<close>

definition is_special :: "expr \<Rightarrow> bool" where
  "is_special e = (case e of
     EField _ _ _ \<Rightarrow> True | EUnfolding _ _ _ _ _ _ \<Rightarrow> True | EMagicWand _ _ _ _ \<Rightarrow> True
   | ELabelledOld _ _ _ \<Rightarrow> True | EDowncast _ _ _ \<Rightarrow> True | EFuncApp _ _ _ _ _ \<Rightarrow> True | _ \<Rightarrow> False)"

lemma replace_simps:
  "replace_in_expr env labels st w (EField base f p) lhs =
     bindE (if w then bindE (replace_in_expr env labels st w base lhs) (\<lambda>(b, l). Inr (EField b f p, l))
            else bindE (replace_in_expr env labels st w (fst (explode_place base)) lhs) (\<lambda>(b, l).
              Inr (reconstruct_place b (snd (explode_place base) @ [PCField f p]), l)))
       (unfold_around env st w (EField base f p))"
  "replace_in_expr env labels st w (EUnfolding n args body q v p) lhs =
     bindE (bindE (if w then Inr st else apply_on_state (fe_rx env) (fe_preds env) (SUnfold n args q v) st) (\<lambda>st1.
            bindE (replace_in_expr env labels st1 w body lhs) (\<lambda>(b, l). Inr (EUnfolding n args b q v p, l))))
       (unfold_around env st w (EUnfolding n args body q v p))"
  "replace_in_expr env labels st w (ELabelledOld lb body p) lhs =
     bindE (bindE (label_state labels lhs lb) (\<lambda>st1.
            bindE (replace_in_expr env labels st1 False body lhs) (\<lambda>(b, l). Inr (ELabelledOld lb b p, l))))
       (unfold_around env st w (ELabelledOld lb body p))"
  "replace_in_expr env labels st w (EDowncast base en f) lhs =
     bindE (bindE (if w then Inr st else apply_on_state (fe_rx env) (fe_preds env) (SDowncast en f) st) (\<lambda>st1.
            bindE (replace_in_expr env labels st1 w base lhs) (\<lambda>(b, l). Inr (EDowncast b en f, l))))
       (unfold_around env st w (EDowncast base en f))"
  "replace_in_expr env labels st w (EFuncApp n args fs t p) lhs =
     bindE (if w then default_fallible_fold_expr (replace_in_expr env labels st w) (EFuncApp n args fs t p) lhs
            else bindE (expr_required (fe_rx env) (fe_preds env) (EFuncApp n args fs t p)) (\<lambda>perms.
                 bindE (add_unfoldings env st perms (EFuncApp n args fs t p)) (\<lambda>res. Inr (res, lhs))))
       (unfold_around env st w (EFuncApp n args fs t p))"
  by (subst replace_in_expr.simps, simp)+

lemma replace_in_expr_default:
  "\<not> is_special e \<Longrightarrow> replace_in_expr env labels st w e lhs =
     bindE (default_fallible_fold_expr (replace_in_expr env labels st w) e lhs) (unfold_around env st w e)"
  by (subst replace_in_expr.simps) (simp add: is_special_def split: expr.splits)

lemma unfold_around_strip: "unfold_around env st w e x = Inr (e', l) \<Longrightarrow> strip e' = strip (fst x)"
  by (cases x) (auto simp: fallible_simps split: if_splits dest: add_unfoldings_strip)

declare unfold_around.simps [simp del]

lemma not_special: "\<not> is_special e \<Longrightarrow> \<not> (\<exists>n args body q v p. e = EUnfolding n args body q v p)"
  by (auto simp: is_special_def)

lemma replace_wand_strip:
  assumes "replace_in_expr env labels st w (EMagicWand l r b p) lhs = Inr (e', lhs')"
    "\<And>c st u c' u'. c \<in> {l, r} \<Longrightarrow> replace_in_expr env labels st w c u = Inr (c', u') \<Longrightarrow> strip c' = strip c"
  shows "strip e' = strip (EMagicWand l r b p)"
proof -
  from assms(1) [unfolded replace_in_expr.simps [of _ _ _ _ "EMagicWand l r b p"] expr.case bindE_Inr_iff]
  obtain st1 l' l1 st3 r' l2 st2 u where "replace_in_expr env labels st1 w l lhs = Inr (l', l1)"
      "replace_in_expr env labels st2 w r (Some st3) = Inr (r', l2)" "strip e' = strip (EMagicWand l' r' b p)"
    by (auto simp: fallible_simps dest!: unfold_around_strip)
  then show ?thesis using assms(2) [of l] assms(2) [of r] by simp
qed

lemma replace_field_strip:
  assumes "replace_in_expr env labels st w (EField base f p) lhs = Inr (e', lhs')"
    "\<And>c u c' u'. size c \<le> size base \<Longrightarrow> replace_in_expr env labels st w c u = Inr (c', u') \<Longrightarrow> strip c' = strip c"
  shows "strip e' = strip (EField base f p)"
proof (cases w)
  case True
  then obtain b l where "replace_in_expr env labels st w base lhs = Inr (b, l)" "strip e' = strip (EField b f p)"
    using assms(1) unfolding replace_simps by (auto simp: fallible_simps dest!: unfold_around_strip)
  then show ?thesis using assms(2) [of base] by simp
next
  case False
  let ?cs = "snd (explode_place base) @ [PCField f p]"
  obtain b l where b: "replace_in_expr env labels st w (fst (explode_place base)) lhs = Inr (b, l)"
      "strip e' = strip (reconstruct_place b ?cs)"
    using assms(1) False unfolding replace_simps by (auto simp: fallible_simps dest!: unfold_around_strip)
  then have "strip e' = strip (reconstruct_place (fst (explode_place base)) ?cs)"
    using strip_reconstruct [OF assms(2) [OF explode_size b(1)]] by simp
  also have "reconstruct_place (fst (explode_place base)) ?cs = EField base f p"
    using reconstruct_explode [of base] by (simp add: reconstruct_place_def case_prod_unfold)
  finally show ?thesis .
qed

lemma replace_in_expr_strip:
  "replace_in_expr env labels st w e lhs = Inr (e', lhs') \<Longrightarrow> strip e' = strip e"
proof (induction "size e" arbitrary: st w e lhs e' lhs' rule: less_induct)
  case less
  let ?rec = "replace_in_expr env labels"
  have IH: "strip c' = strip c" if "size c < size e" "?rec st1 w1 c u = Inr (c', u')" for c st1 w1 u c' u'
    using that by (rule less.hyps)
  have child: "strip c' = strip c" if "c \<in> set (children e)" "?rec st1 w1 c u = Inr (c', u')" for c st1 w1 u c' u'
    using children_size [OF that(1)] that(2) by (rule IH)
  have dflt: "strip inner = strip e"
    if "default_fallible_fold_expr (?rec st w) e lhs = Inr (inner, l)" "\<not> (\<exists>n args body q v p. e = EUnfolding n args body q v p)" for inner l
    using that(2) child that(1) by (rule default_fold_strip)
  show ?case
  proof (cases "is_special e")
    case False
    from less.prems [unfolded replace_in_expr_default [OF False] bindE_Inr_iff]
    obtain x where x: "default_fallible_fold_expr (?rec st w) e lhs = Inr x" "unfold_around env st w e x = Inr (e', lhs')"
      by (elim exE conjE)
    then show ?thesis
      using dflt [of "fst x" "snd x"] unfold_around_strip [OF x(2)] not_special [OF False] by simp
  next
    case True
    then show ?thesis
    proof (cases e)
      case (EField base f p)
      show ?thesis
        by (rule replace_field_strip [OF less.prems [unfolded EField], folded EField]) (rule IH, use EField in auto)
    next
      case (EFuncApp n args fs t p)
      note prems = less.prems [unfolded EFuncApp replace_simps bindE_Inr_iff, folded EFuncApp]
      show ?thesis
        using prems dflt EFuncApp by (cases w) (auto simp: bindE_Inr_iff dest!: unfold_around_strip add_unfoldings_strip)
    next
      case (EUnfolding n args body q v p)
      then show ?thesis
        using less.prems [unfolded EUnfolding replace_simps bindE_Inr_iff] child [of body]
        by (auto dest!: unfold_around_strip)
    next
      case (EMagicWand l r b p)
      show ?thesis
        by (rule replace_wand_strip [OF less.prems [unfolded EMagicWand], folded EMagicWand]) (rule child, use EMagicWand in auto)
    next
      case (ELabelledOld lb body p)
      then show ?thesis
        using less.prems [unfolded ELabelledOld replace_simps bindE_Inr_iff] child [of body]
        by (auto dest!: unfold_around_strip)
    next
      case (EDowncast base en f)
      then show ?thesis
        using less.prems [unfolded EDowncast replace_simps bindE_Inr_iff] child [of base]
        by (auto dest!: unfold_around_strip)
    qed (simp_all add: is_special_def)
  qed
qed

text \<open>
  C9 Adding unfoldings to a function changes nothing but unfoldings: without its \<open>unfolding\<close> wrappers,
  every precondition, postcondition and the body of the result is the original one, and all other parts of
  the function are the same.
\<close>

theorem add_folding_unfolding_to_function_only_unfoldings:
  assumes "add_folding_unfolding_to_function env f = Inr f'"
  shows "map strip (fn_pres f') = map strip (fn_pres f) \<and> map strip (fn_posts f') = map strip (fn_posts f) \<and>
    map_option strip (fn_body f') = map_option strip (fn_body f) \<and>
    f' = f\<lparr>fn_pres := fn_pres f', fn_posts := fn_posts f', fn_body := fn_body f'\<rparr>"
proof -
  have one: "strip e' = strip e" if "add_folding_unfolding_to_expr env st e = Inr e'" for st e e'
    using that replace_in_expr_strip by (auto simp: add_folding_unfolding_to_expr_def replace_expr_def fallible_simps)
  have many: "map strip es' = map strip es" if "mapE (add_folding_unfolding_to_expr env st) es = Inr es'" for st es es'
    using that unfolding mapE_Inr_iff by (induction rule: list_all2_induct) (auto intro: one)
  obtain st0 where start: "foldE (\<lambda>pre st. apply_stmt (fe_debug env) (fe_rx env) (fe_preds env) (SInhale pre) st)
      (fn_pres f) (pc_state (path_ctxt_new (fn_formal_args f))) = Inr st0"
    using assms by (auto simp: add_folding_unfolding_to_function_def Let_def fallible_simps)
  obtain st where run: "mapE (add_folding_unfolding_to_expr env st) (fn_pres f) = Inr (fn_pres f')"
      "mapE (add_folding_unfolding_to_expr env st) (fn_posts f) = Inr (fn_posts f')"
      "case fn_body f of None \<Rightarrow> fn_body f' = None
       | Some e \<Rightarrow> \<exists>e'. add_folding_unfolding_to_expr env st e = Inr e' \<and> fn_body f' = Some e'"
      "f' = f\<lparr>fn_pres := fn_pres f', fn_posts := fn_posts f', fn_body := fn_body f'\<rparr>"
    using assms start
    by (cases "fn_body f") (auto simp: add_folding_unfolding_to_function_def Let_def fallible_simps)
  have "map_option strip (fn_body f') = map_option strip (fn_body f)"
    using run(3) one by (auto split: option.splits)
  then show ?thesis using many [OF run(1)] many [OF run(2)] run(4) by blast
qed

definition ex_env :: fu_env where
  "ex_env = \<lparr>fe_debug = False, fe_rx = ex_rx, fe_preds = ex_preds, fe_old_exprs = Map.empty, fe_fuel = 5\<rparr>"

definition ex_function :: vfunction where
  "ex_function =
     \<lparr>fn_name = ''get_g'', fn_formal_args = [local_var_new ''x'' (TTypedRef ''T'')], fn_return_type = TTypedRef ''T_g'',
      fn_pres = [acc_permission ex_xf Read, predicate_access_predicate ''T_f'' ex_xf Read], fn_posts = [],
      fn_body = Some (ex_dot ex_xf ''g'')\<rparr>"

lemma ex_function_run:
  "case add_folding_unfolding_to_function ex_env ex_function of
     Inl _ \<Rightarrow> False
   | Inr f \<Rightarrow> (case fn_body f of Some (EUnfolding n _ _ _ _ _) \<Rightarrow> n = ''T_f'' | _ \<Rightarrow> False)"
  by code_simp

theorem add_folding_unfolding_to_function_only_unfoldings_witness:
  "\<exists>f' args body q v p. add_folding_unfolding_to_function ex_env ex_function = Inr f' \<and>
     fn_body f' = Some (EUnfolding ''T_f'' args body q v p) \<and> strip body = strip (ex_dot ex_xf ''g'')"
proof -
  obtain f' args body q v p where f': "add_folding_unfolding_to_function ex_env ex_function = Inr f'"
      "fn_body f' = Some (EUnfolding ''T_f'' args body q v p)"
    using ex_function_run by (auto split: sum.splits option.splits expr.splits)
  then show ?thesis
    using add_folding_unfolding_to_function_only_unfoldings [OF f'(1)] by (auto simp: ex_function_def)
qed

end
