(* ===== verification/Cfg_Replacer.thy ===== *)
theory Cfg_Replacer
  imports Vir_Cfg Fu_Perm
begin

section \<open>Replacing the blocks of a method (CfgReplacer in cfg/visitor.rs)\<close>

text \<open>
  The trait \<open>CfgReplacer\<close> rebuilds a method block by block in topological order, carries a context along
  the control flow, and inserts blocks on the edges into a join point.  The required methods of the trait
  are the fields of a record; \<open>'c\<close> is the branch context, \<open>'a\<close> the action type and \<open>'s\<close> the replacer's
  own state.  \<open>replace_cfg\<close>, the provided method, is modelled in full, except for the debugging callback
  \<open>current_cfg\<close>, which gets shared references and returns nothing.
\<close>

record ('c, 's, 'a) replacer =
  rp_check_compatible_back_edge :: "'c \<Rightarrow> 'c \<Rightarrow> failure + unit"
  rp_initial_context :: "'s \<Rightarrow> failure + 'c \<times> 's"
  rp_replace_stmt ::
    "nat \<Rightarrow> stmt \<Rightarrow> bool \<Rightarrow> 'c \<Rightarrow> block_index \<Rightarrow> cfg_method \<Rightarrow> string option \<Rightarrow> 's \<Rightarrow> failure + stmt list \<times> 'c \<times> 's"
  rp_replace_successor :: "successor \<Rightarrow> 'c \<Rightarrow> 's \<Rightarrow> failure + (stmt list \<times> successor) \<times> 'c \<times> 's"
  rp_prepend_join :: "'c list \<Rightarrow> 's \<Rightarrow> failure + ('a list \<times> 'c) \<times> 's"
  rp_perform_prejoin_action :: "'c \<Rightarrow> block_index \<Rightarrow> 'a \<Rightarrow> 's \<Rightarrow> failure + stmt list \<times> 'c \<times> 's"
  rp_is_noop :: "'a \<Rightarrow> bool"

text \<open>The variables of \<open>replace_cfg\<close>.\<close>

record ('c, 's) replacement =
  rs_new_cfg :: cfg_method
  rs_visited :: "bool list"
  rs_reachable :: "bool list"
  rs_initial_pctxt :: "'c option list"
  rs_final_pctxt :: "'c option list"
  rs_self :: 's

subsection \<open>The parts of the loop body\<close>

definition add_empty_blocks :: "cfg_method \<Rightarrow> cfg_method \<Rightarrow> failure + cfg_method" where
  "add_empty_blocks cfg new_cfg =
     foldE (\<lambda>index m.
         bindE (unwrap (get_block_label cfg (block_index cfg index))) (\<lambda>label.
         bindE (unwrap (add_block m label [])) (\<lambda>(_, m). Inr m)))
       [0..<length (cm_basic_blocks cfg)] new_cfg"

definition mark_at :: "nat \<Rightarrow> 'b \<Rightarrow> 'b list \<Rightarrow> failure + 'b list" where
  "mark_at i v xs = (if i < length xs then Inr (xs[i := v]) else Inl Panic)"

definition copy_unreachable :: "cfg_block \<Rightarrow> block_index \<Rightarrow> cfg_method \<Rightarrow> failure + cfg_method" where
  "copy_unreachable curr_block curr_block_index m =
     bindE (unwrap (add_stmts m curr_block_index (cb_stmts curr_block))) (\<lambda>m.
     unwrap (set_successor m curr_block_index (replace_uuid (cb_successor curr_block) (cm_uuid m))))"

definition insert_join_block ::
  "('c, 's, 'a) replacer \<Rightarrow> bool list \<Rightarrow> block_index \<Rightarrow> nat \<times> 'a \<Rightarrow> cfg_method \<times> 'c \<times> 's \<Rightarrow>
   failure + cfg_method \<times> 'c \<times> 's" where
  "insert_join_block rp visited curr_block_index edge acc =
     (case edge of (src_index, action) \<Rightarrow> case acc of (m, pctxt, s) \<Rightarrow>
        bindE (require (src_index < length visited \<and> visited ! src_index)) (\<lambda>_.
        if rp_is_noop rp action then Inr (m, pctxt, s)
        else
          let src_block_index = block_index m src_index in
          bindE (unwrap (get_fresh_label_name m)) (\<lambda>(new_label, m).
          bindE (unwrap (add_block m new_label [SComment (''========== '' @ new_label @ '' =========='')]))
            (\<lambda>(new_block_index, m).
          bindE (rp_perform_prejoin_action rp pctxt new_block_index action s) (\<lambda>(stmts_to_add, pctxt, s).
          bindE (unwrap (add_stmts m new_block_index stmts_to_add)) (\<lambda>m.
          bindE (unwrap (set_successor m new_block_index (SuccGoto curr_block_index))) (\<lambda>m.
          bindE (unwrap (get_successor m src_block_index)) (\<lambda>succ.
          bindE (unwrap (replace_target succ curr_block_index new_block_index)) (\<lambda>succ.
          bindE (unwrap (set_successor m src_block_index succ)) (\<lambda>m.
          Inr (m, pctxt, s)))))))))))"

definition incoming_edges :: "cfg_method \<Rightarrow> bool list \<Rightarrow> nat \<Rightarrow> failure + nat list" where
  "incoming_edges cfg visited curr_index =
     bindE (unwrap (get_preceding cfg (block_index cfg curr_index))) (\<lambda>blocks.
     Inr (filter (\<lambda>i. visited ! i) (map bi_index blocks)))"

definition join_incoming ::
  "('c, 's, 'a) replacer \<Rightarrow> bool list \<Rightarrow> 'c option list \<Rightarrow> nat list \<Rightarrow> block_index \<Rightarrow> cfg_method \<Rightarrow> 's \<Rightarrow>
   failure + cfg_method \<times> 'c \<times> 's" where
  "join_incoming rp visited final_pctxt edges curr_block_index m s =
     bindE (mapE (\<lambda>i. unwrap (final_pctxt ! i)) edges) (\<lambda>incoming_pctxt.
     if incoming_pctxt = [] then
       bindE (rp_initial_context rp s) (\<lambda>(pctxt, s). Inr (m, pctxt, s))
     else
       bindE (rp_prepend_join rp incoming_pctxt s) (\<lambda>((actions, pctxt), s).
       foldE (insert_join_block rp visited curr_block_index) (zip edges actions) (m, pctxt, s)))"

definition replace_one_stmt ::
  "('c, 's, 'a) replacer \<Rightarrow> cfg_block \<Rightarrow> block_index \<Rightarrow> nat \<times> stmt \<Rightarrow> cfg_method \<times> 'c \<times> 's \<Rightarrow>
   failure + cfg_method \<times> 'c \<times> 's" where
  "replace_one_stmt rp curr_block curr_block_index item acc =
     (case item of (stmt_index, stmt) \<Rightarrow> case acc of (m, pctxt, s) \<Rightarrow>
        let last_stmt_before_return =
          Suc stmt_index = length (cb_stmts curr_block) \<and> is_return (cb_successor curr_block) in
        bindE (rp_replace_stmt rp stmt_index stmt last_stmt_before_return pctxt curr_block_index m None s)
          (\<lambda>(new_stmts, pctxt, s).
        bindE (unwrap (add_stmts m curr_block_index new_stmts)) (\<lambda>m.
        Inr (m, pctxt, s))))"

definition replace_block_stmts ::
  "('c, 's, 'a) replacer \<Rightarrow> cfg_block \<Rightarrow> block_index \<Rightarrow> cfg_method \<times> 'c \<times> 's \<Rightarrow> failure + cfg_method \<times> 'c \<times> 's" where
  "replace_block_stmts rp curr_block curr_block_index acc =
     foldE (replace_one_stmt rp curr_block curr_block_index) (List.enumerate 0 (cb_stmts curr_block)) acc"

definition replace_block_successor ::
  "('c, 's, 'a) replacer \<Rightarrow> cfg_block \<Rightarrow> block_index \<Rightarrow> cfg_method \<times> 'c \<times> 's \<Rightarrow> failure + cfg_method \<times> 'c \<times> 's" where
  "replace_block_successor rp curr_block curr_block_index acc =
     (case acc of (m, pctxt, s) \<Rightarrow>
        bindE (rp_replace_successor rp (cb_successor curr_block) pctxt s) (\<lambda>((new_stmts, new_successor), pctxt, s).
        bindE (unwrap (add_stmts m curr_block_index new_stmts)) (\<lambda>m.
        bindE (require (map bi_index (get_following (cb_successor curr_block)) =
                        map bi_index (get_following new_successor))) (\<lambda>_.
        bindE (unwrap (set_successor m curr_block_index (replace_uuid new_successor (cm_uuid m)))) (\<lambda>m.
        Inr (m, pctxt, s))))))"

definition check_back_edges ::
  "('c, 's, 'a) replacer \<Rightarrow> bool list \<Rightarrow> 'c option list \<Rightarrow> 'c \<Rightarrow> nat list \<Rightarrow> failure + unit" where
  "check_back_edges rp visited initial_pctxt pctxt following =
     foldE (\<lambda>index _.
         bindE (require (index < length visited)) (\<lambda>_.
         if visited ! index then
           bindE (unwrap (initial_pctxt ! index)) (\<lambda>other. rp_check_compatible_back_edge rp pctxt other)
         else Inr ()))
       following ()"

subsection \<open>The loop\<close>

definition visit_block ::
  "('c, 's, 'a) replacer \<Rightarrow> cfg_method \<Rightarrow> nat \<Rightarrow> ('c, 's) replacement \<Rightarrow> failure + ('c, 's) replacement" where
  "visit_block rp cfg curr_index st =
     bindE (require (curr_index < length (cm_basic_blocks cfg) \<and> \<not> rs_visited st ! curr_index)) (\<lambda>_.
     let visited = (rs_visited st)[curr_index := True];
         curr_block_index = block_index (rs_new_cfg st) curr_index;
         curr_block = cm_basic_blocks cfg ! curr_index in
     if \<not> rs_reachable st ! curr_index then
       bindE (copy_unreachable curr_block curr_block_index (rs_new_cfg st)) (\<lambda>m.
       Inr (st\<lparr>rs_new_cfg := m, rs_visited := visited\<rparr>))
     else
       bindE (foldE (\<lambda>b. mark_at (bi_index b) True) (get_following (cb_successor curr_block)) (rs_reachable st))
         (\<lambda>reachable.
       bindE (incoming_edges cfg visited curr_index) (\<lambda>edges.
       bindE (join_incoming rp visited (rs_final_pctxt st) edges curr_block_index (rs_new_cfg st) (rs_self st))
         (\<lambda>(m, pctxt, s).
       let initial_pctxt = (rs_initial_pctxt st)[curr_index := Some pctxt] in
       bindE (replace_block_stmts rp curr_block curr_block_index (m, pctxt, s)) (\<lambda>(m, pctxt, s).
       bindE (replace_block_successor rp curr_block curr_block_index (m, pctxt, s)) (\<lambda>(m, pctxt, s).
       bindE (check_back_edges rp visited initial_pctxt pctxt
               (map bi_index (get_following (cb_successor (cm_basic_blocks m ! curr_index))))) (\<lambda>_.
       Inr \<lparr>rs_new_cfg = m, rs_visited = visited, rs_reachable = reachable, rs_initial_pctxt = initial_pctxt,
            rs_final_pctxt = (rs_final_pctxt st)[curr_index := Some pctxt], rs_self = s\<rparr>)))))))"

definition new_method :: "nat \<Rightarrow> cfg_method \<Rightarrow> cfg_method" where
  "new_method uuid cfg =
     (cfg_new uuid (cm_method_name cfg) (cm_formal_arg_count cfg) (cm_formal_returns cfg) (cm_local_vars cfg) [])
       \<lparr>cm_reserved_labels := get_all_labels cfg\<rparr>"

definition replace_cfg ::
  "('c, 's, 'a) replacer \<Rightarrow> nat \<Rightarrow> cfg_method \<Rightarrow> 's \<Rightarrow> failure + cfg_method \<times> 's" where
  "replace_cfg rp uuid cfg s =
     bindE (add_empty_blocks cfg (new_method uuid cfg)) (\<lambda>new_cfg.
     bindE (unwrap (get_topological_sort cfg)) (\<lambda>to_visit.
     let n = length (cm_basic_blocks cfg) in
     bindE (mark_at 0 True (replicate n False)) (\<lambda>reachable.
     bindE (foldE (\<lambda>b. visit_block rp cfg (bi_index b)) to_visit
             \<lparr>rs_new_cfg = new_cfg, rs_visited = replicate n False, rs_reachable = reachable,
              rs_initial_pctxt = replicate n None, rs_final_pctxt = replicate n None, rs_self = s\<rparr>) (\<lambda>st.
     Inr (rs_new_cfg st, rs_self st)))))"

subsection \<open>The control-flow skeleton of a method\<close>

text \<open>
  The successors of the blocks.  The first \<open>n\<close> blocks of the new method stand for the blocks of the
  original; an inserted block leads to one of them, and stands for the edge into it.
\<close>

definition skeleton :: "cfg_method \<Rightarrow> successor list" where
  "skeleton m = map cb_successor (cm_basic_blocks m)"

definition targets :: "successor \<Rightarrow> nat list" where
  "targets s = map bi_index (get_following s)"

definition original_target :: "nat \<Rightarrow> successor list \<Rightarrow> nat \<Rightarrow> nat" where
  "original_target n S t = (if t < n then t else case S ! t of SuccGoto b \<Rightarrow> bi_index b | _ \<Rightarrow> t)"

definition same_edges :: "successor list \<Rightarrow> successor list \<Rightarrow> nat \<Rightarrow> bool" where
  "same_edges C S i \<longleftrightarrow> list_all (\<lambda>t. t < length S) (targets (S ! i)) \<and>
     map (original_target (length C) S) (targets (S ! i)) = targets (C ! i)"

definition skeleton_inv :: "successor list \<Rightarrow> nat set \<Rightarrow> successor list \<Rightarrow> bool" where
  "skeleton_inv C D S \<longleftrightarrow> length C \<le> length S \<and>
     (\<forall>t. length C \<le> t \<and> t < length S \<longrightarrow> (\<exists>b. S ! t = SuccGoto b \<and> bi_index b < length C)) \<and>
     (\<forall>i \<in> D. i < length C \<and> same_edges C S i)"

lemma targets_replace_uuid [simp]: "targets (replace_uuid s u) = targets s"
  by (simp add: targets_def get_following_replace_uuid set_uuid_def comp_def)

lemma skeleton_inv_set:
  assumes inv: "skeleton_inv C D S" and i: "i < length C"
    and s: "targets s = targets (C ! i)" "list_all (\<lambda>t. t < length C) (targets s)"
  shows "skeleton_inv C (insert i D) (S[i := s])"
proof -
  have len: "length C \<le> length S" using inv by (simp add: skeleton_inv_def)
  have orig: "original_target (length C) (S[i := s]) = original_target (length C) S"
    using i by (auto simp: original_target_def fun_eq_iff)
  have "same_edges C (S[i := s]) j" if "j \<in> D" "j \<noteq> i" for j
    using inv that by (simp add: skeleton_inv_def same_edges_def orig)
  moreover have "map (original_target (length C) S) (targets s) = targets s"
    using s(2) by (auto simp: original_target_def list_all_iff intro: map_idI)
  then have "same_edges C (S[i := s]) i"
    using i len s by (auto simp: same_edges_def orig list_all_iff)
  ultimately show ?thesis using inv i by (auto simp: skeleton_inv_def)
qed

lemma skeleton_inv_insert:
  assumes inv: "skeleton_inv C D S" and src: "src \<in> D" and c: "bi_index c < length C"
    and d: "bi_index d = length S" and s': "replace_target (S ! src) c d = Some s'"
  shows "skeleton_inv C D ((S @ [SuccGoto c])[src := s'])"
proof -
  let ?S = "(S @ [SuccGoto c])[src := s']" and ?n = "length C"
  have len: "?n \<le> length S" and srcn: "src < ?n" using inv src by (auto simp: skeleton_inv_def)
  have old: "original_target ?n ?S t = original_target ?n S t" if "t < length S" for t
    using that srcn len by (auto simp: original_target_def nth_append)
  have new: "original_target ?n ?S (length S) = bi_index c"
    using srcn len by (simp add: original_target_def)
  have "same_edges C ?S j" if "j \<in> D" "j \<noteq> src" for j
  proof -
    have j: "j < length S" "same_edges C S j" using inv that(1) len by (auto simp: skeleton_inv_def)
    then have map: "map (original_target ?n ?S) (targets (S ! j)) = map (original_target ?n S) (targets (S ! j))"
      by (intro map_cong refl old) (auto simp: same_edges_def list_all_iff)
    have Sj: "?S ! j = S ! j" using j(1) that(2) by (simp add: nth_append)
    show ?thesis unfolding same_edges_def Sj map using j(2) by (auto simp: same_edges_def list_all_iff)
  qed
  moreover have "same_edges C ?S src"
  proof -
    have src_ok: "same_edges C S src" using inv src by (simp add: skeleton_inv_def)
    have tgt: "targets s' = map (\<lambda>b. bi_index (redirect c d b)) (get_following (S ! src))"
      using get_following_replace_target [OF s'] by (simp add: targets_def comp_def)
    have "original_target ?n ?S (bi_index (redirect c d b)) = original_target ?n S (bi_index b) \<and>
        bi_index (redirect c d b) < Suc (length S)" if "b \<in> set (get_following (S ! src))" for b
    proof (cases "b = c")
      case True
      then show ?thesis using c new by (simp add: redirect_def d) (simp add: original_target_def)
    next
      case False
      then show ?thesis using src_ok that old [of "bi_index b"]
        by (auto simp: redirect_def same_edges_def targets_def list_all_iff)
    qed
    note step = this
    have "map (original_target ?n ?S) (targets s') = map (original_target ?n S) (targets (S ! src))"
      unfolding tgt using step by (simp add: targets_def)
    then have "map (original_target ?n ?S) (targets s') = targets (C ! src)"
      using src_ok by (simp add: same_edges_def)
    moreover have "list_all (\<lambda>t. t < Suc (length S)) (targets s')"
      unfolding tgt using step by (simp add: list_all_iff)
    ultimately show ?thesis using srcn len by (simp add: same_edges_def)
  qed
  moreover have "\<exists>b. ?S ! t = SuccGoto b \<and> bi_index b < ?n" if "?n \<le> t" "t < Suc (length S)" for t
    using inv that srcn c by (auto simp: skeleton_inv_def nth_append less_Suc_eq)
  ultimately show ?thesis using inv by (auto simp: skeleton_inv_def)
qed

lemma register_labels_blocks:
  "register_labels m ls = Some m' \<Longrightarrow> cm_basic_blocks m' = cm_basic_blocks m \<and> cm_uuid m' = cm_uuid m"
  by (induction ls arbitrary: m) (auto split: if_splits)

lemma add_stmts_skeleton [simp]: "add_stmts m index ss = Some m' \<Longrightarrow> skeleton m' = skeleton m"
proof (induction ss arbitrary: m)
  case (Cons s ss)
  from Cons.prems obtain m1 where m1: "add_stmt m index s = Some m1" "add_stmts m1 index ss = Some m'"
    by (auto split: option.splits)
  have "skeleton m1 = skeleton m"
    using m1(1) register_labels_blocks [of m "gather_labels s"]
    by (auto simp: add_stmt_def skeleton_def push_stmt_def intro!: nth_equalityI split: option.splits if_splits)
      (auto simp: nth_list_update)
  then show ?case using Cons.IH [OF m1(2)] by simp
qed simp

lemma set_successor_skeleton:
  "set_successor m b s = Some m' \<Longrightarrow> skeleton m' = (skeleton m)[bi_index b := s] \<and> bi_index b < length (skeleton m)"
  by (auto simp: set_successor_def skeleton_def map_update split: if_splits)

lemma get_successor_skeleton: "get_successor m b = Some s \<Longrightarrow> s = skeleton m ! bi_index b"
  by (auto simp: get_successor_def skeleton_def split: if_splits)

lemma add_block_skeleton:
  "add_block m l ss = Some (b, m') \<Longrightarrow> skeleton m' = skeleton m @ [SuccUndefined] \<and> bi_index b = length (skeleton m)"
  by (auto simp: add_block_def skeleton_def block_index_def split: if_splits)

lemma get_fresh_label_skeleton: "get_fresh_label_name m = Some (l, m') \<Longrightarrow> skeleton m' = skeleton m"
  by (auto simp: get_fresh_label_name_def skeleton_def)

lemmas skeleton_ops = set_successor_skeleton get_successor_skeleton add_block_skeleton get_fresh_label_skeleton

subsection \<open>Replacing keeps the control flow\<close>

lemma insert_join_block_inv:
  assumes inv: "skeleton_inv C D (skeleton m)" and src: "fst edge \<in> D" and c: "bi_index c < length C"
    and run: "insert_join_block rp visited c edge (m, pctxt, s) = Inr (m', pctxt', s')"
  shows "skeleton_inv C D (skeleton m')"
proof (cases "rp_is_noop rp (snd edge)")
  case True
  then show ?thesis using run inv by (auto simp: insert_join_block_def fallible_simps split: prod.splits)
next
  case False
  obtain label m1 d m2 stmts new_stmts m3 m4 succ0 succ where run':
      "get_fresh_label_name m = Some (label, m1)" "add_block m1 label stmts = Some (d, m2)"
      "add_stmts m2 d new_stmts = Some m3" "set_successor m3 d (SuccGoto c) = Some m4"
      "get_successor m4 (block_index m (fst edge)) = Some succ0" "replace_target succ0 c d = Some succ"
      "set_successor m4 (block_index m (fst edge)) succ = Some m'"
    using run False
    by (cases edge) (auto simp: insert_join_block_def fallible_simps Let_def simp del: replace_target.simps)
  have ops: "get_fresh_label_name m = Some (label, m1)" "add_block m1 label stmts = Some (d, m2)"
      "skeleton m3 = skeleton m2" "set_successor m3 d (SuccGoto c) = Some m4"
      "replace_target (skeleton m4 ! fst edge) c d = Some succ"
      "set_successor m4 (block_index m (fst edge)) succ = Some m'"
    using run' get_successor_skeleton [OF run'(5)] by (simp_all add: block_index_def del: replace_target.simps)
  have srcn: "fst edge < length (skeleton m)" using inv src by (auto simp: skeleton_inv_def)
  have S4: "skeleton m4 = skeleton m @ [SuccGoto c]" and d: "bi_index d = length (skeleton m)"
    using ops(1-4) by (auto dest!: skeleton_ops)
  have "skeleton m' = (skeleton m @ [SuccGoto c])[fst edge := succ]"
    using ops(6) S4 by (auto dest!: skeleton_ops simp: block_index_def)
  moreover have "replace_target (skeleton m ! fst edge) c d = Some succ"
    using ops(5) S4 srcn by (simp add: nth_append)
  ultimately show ?thesis using skeleton_inv_insert [OF inv src c d] by simp
qed

lemma join_incoming_inv:
  assumes inv: "skeleton_inv C D (skeleton m)" and c: "bi_index c < length C"
    and fin: "\<And>i. i \<in> set edges \<Longrightarrow> final_pctxt ! i \<noteq> None \<Longrightarrow> i \<in> D"
    and run: "join_incoming rp visited final_pctxt edges c m s = Inr (m', pctxt', s')"
  shows "skeleton_inv C D (skeleton m')"
proof -
  obtain ctxts where ctxts: "mapE (\<lambda>i. unwrap (final_pctxt ! i)) edges = Inr ctxts"
    using run by (auto simp: join_incoming_def fallible_simps)
  have D: "i \<in> D" if "i \<in> set edges" for i
    using ctxts that fin [OF that] by (auto simp: mapE_Inr_iff unwrapE_Inr_iff in_set_conv_nth list_all2_conv_all_nth)
  show ?thesis
  proof (cases "ctxts = []")
    case True
    then show ?thesis using run ctxts inv by (auto simp: join_incoming_def fallible_simps)
  next
    case False
    then obtain actions pctxt1 s1 where
      "foldE (insert_join_block rp visited c) (zip edges actions) (m, pctxt1, s1) = Inr (m', pctxt', s')"
      using run ctxts by (auto simp: join_incoming_def fallible_simps)
    then have "skeleton_inv C D (skeleton (fst (m', pctxt', s')))"
    proof (rule foldE_invariant [where I = "\<lambda>u. skeleton_inv C D (skeleton (fst u))"])
      show "skeleton_inv C D (skeleton (fst (m, pctxt1, s1)))" using inv by simp
      fix x u v
      assume x: "x \<in> set (zip edges actions)" and u: "skeleton_inv C D (skeleton (fst u))"
        and step: "insert_join_block rp visited c x u = Inr v"
      have "fst x \<in> D" using x D set_zip_leftD [of "fst x" "snd x"] by simp
      then show "skeleton_inv C D (skeleton (fst v))"
        using insert_join_block_inv [OF u _ c, of x rp visited "fst (snd u)" "snd (snd u)" "fst v"] step
        by (cases u; cases v) auto
    qed
    then show ?thesis by simp
  qed
qed

lemma replace_block_stmts_skeleton:
  assumes "replace_block_stmts rp b c (m, pctxt, s) = Inr (m', pctxt', s')"
  shows "skeleton m' = skeleton m"
proof -
  have "skeleton (fst (m', pctxt', s')) = skeleton m"
    by (rule foldE_invariant [OF assms [unfolded replace_block_stmts_def]])
      (auto simp: replace_one_stmt_def fallible_simps Let_def dest: add_stmts_skeleton)
  then show ?thesis by simp
qed

lemma replace_block_successor_inv:
  assumes inv: "skeleton_inv C D (skeleton m)" and i: "bi_index c < length C"
    and b: "cb_successor b = C ! bi_index c" "list_all (\<lambda>t. t < length C) (targets (C ! bi_index c))"
    and run: "replace_block_successor rp b c (m, pctxt, s) = Inr (m', pctxt', s')"
  shows "skeleton_inv C (insert (bi_index c) D) (skeleton m')"
proof -
  obtain m1 stmts succ where "add_stmts m c stmts = Some m1" "targets succ = targets (cb_successor b)"
      "set_successor m1 c (replace_uuid succ (cm_uuid m1)) = Some m'"
    using run by (auto simp: replace_block_successor_def fallible_simps targets_def)
  then have "skeleton m' = (skeleton m)[bi_index c := replace_uuid succ (cm_uuid m1)]"
    "targets succ = targets (C ! bi_index c)"
    using b(1) by (auto dest!: set_successor_skeleton dest: add_stmts_skeleton)
  then show ?thesis using skeleton_inv_set [OF inv i] b(2) by simp
qed

lemma copy_unreachable_inv:
  assumes inv: "skeleton_inv C D (skeleton m)" and i: "bi_index c < length C"
    and b: "cb_successor b = C ! bi_index c" "list_all (\<lambda>t. t < length C) (targets (C ! bi_index c))"
    and run: "copy_unreachable b c m = Inr m'"
  shows "skeleton_inv C (insert (bi_index c) D) (skeleton m')"
proof -
  obtain m1 where m1: "add_stmts m c (cb_stmts b) = Some m1"
      "set_successor m1 c (replace_uuid (cb_successor b) (cm_uuid m1)) = Some m'"
    using run by (auto simp: copy_unreachable_def fallible_simps)
  have "skeleton m' = (skeleton m)[bi_index c := replace_uuid (C ! bi_index c) (cm_uuid m1)]"
    using set_successor_skeleton [OF m1(2)] add_stmts_skeleton [OF m1(1)] b(1) by simp
  then show ?thesis using skeleton_inv_set [OF inv i] b(2) by simp
qed

definition replacement_inv :: "successor list \<Rightarrow> nat set \<Rightarrow> ('c, 's) replacement \<Rightarrow> bool" where
  "replacement_inv C D st \<longleftrightarrow> skeleton_inv C D (skeleton (rs_new_cfg st)) \<and>
     length (rs_final_pctxt st) = length C \<and> (\<forall>i < length C. rs_final_pctxt st ! i \<noteq> None \<longrightarrow> i \<in> D)"

lemma visit_block_inv:
  fixes st st' :: "('c, 's) replacement"
  assumes wf: "cfg_wf cfg" and inv: "replacement_inv (skeleton cfg) D st"
    and run: "visit_block rp cfg ci st = Inr st'"
  shows "replacement_inv (skeleton cfg) (insert ci D) st'"
proof -
  let ?C = "skeleton cfg" and ?b = "cm_basic_blocks cfg ! ci"
  let ?c = "block_index (rs_new_cfg st) ci"
  have ci: "ci < length ?C" using run by (simp add: visit_block_def fallible_simps skeleton_def)
  have c: "bi_index ?c = ci" by (simp add: block_index_def)
  have b: "cb_successor ?b = ?C ! ci" "list_all (\<lambda>t. t < length ?C) (targets (?C ! ci))"
    using wf ci by (auto simp: skeleton_def cfg_wf_def targets_def list_all_iff targets_ok_def)
  have inv': "skeleton_inv ?C D (skeleton (rs_new_cfg st))" using inv by (simp add: replacement_inv_def)
  show ?thesis
  proof (cases "rs_reachable st ! ci")
    case False
    then obtain m where "copy_unreachable ?b ?c (rs_new_cfg st) = Inr m" "rs_new_cfg st' = m"
        "rs_final_pctxt st' = rs_final_pctxt st"
      using run by (auto simp: visit_block_def fallible_simps Let_def)
    then show ?thesis
      using copy_unreachable_inv [OF inv', of ?c ?b m] ci b c inv by (auto simp: replacement_inv_def)
  next
    case True
    then obtain edges m1 p1 s1 m2 p2 s2 m3 p3 s3 where steps:
        "incoming_edges cfg ((rs_visited st)[ci := True]) ci = Inr edges"
        "join_incoming rp ((rs_visited st)[ci := True]) (rs_final_pctxt st) edges ?c (rs_new_cfg st) (rs_self st) =
           Inr (m1, p1, s1)"
        "replace_block_stmts rp ?b ?c (m1, p1, s1) = Inr (m2, p2, s2)"
        "replace_block_successor rp ?b ?c (m2, p2, s2) = Inr (m3, p3, s3)"
        "rs_new_cfg st' = m3" "rs_final_pctxt st' = (rs_final_pctxt st)[ci := Some p3]"
      using run by (auto simp: visit_block_def fallible_simps Let_def)
    have "i < length ?C" if "i \<in> set edges" for i
      using steps(1) that
      by (auto simp: incoming_edges_def get_preceding_def fallible_simps skeleton_def block_index_def split: if_splits)
    then have fin: "i \<in> D" if "i \<in> set edges" "rs_final_pctxt st ! i \<noteq> None" for i
      using inv that by (auto simp: replacement_inv_def)
    have "skeleton_inv ?C D (skeleton m2)"
      using join_incoming_inv [OF inv' _ fin steps(2)] ci c replace_block_stmts_skeleton [OF steps(3)] by simp
    then have "skeleton_inv ?C (insert ci D) (skeleton m3)"
      using replace_block_successor_inv [OF _ _ _ _ steps(4), of ?C D] ci b c by simp
    moreover have "i \<in> insert ci D" if "i < length ?C" "rs_final_pctxt st' ! i \<noteq> None" for i
      using inv that steps(6) by (cases "i = ci") (auto simp: replacement_inv_def)
    ultimately show ?thesis using inv steps(5,6) by (simp add: replacement_inv_def)
  qed
qed

lemma add_empty_blocks_skeleton:
  assumes "add_empty_blocks cfg m = Inr m'" "skeleton m = []"
  shows "skeleton m' = replicate (length (cm_basic_blocks cfg)) SuccUndefined"
proof -
  have "foldE (\<lambda>index m. bindE (unwrap (get_block_label cfg (block_index cfg index))) (\<lambda>label.
      bindE (unwrap (add_block m label [])) (\<lambda>(_, m). Inr m))) xs m = Inr m' \<Longrightarrow>
    skeleton m' = skeleton m @ replicate (length xs) SuccUndefined" for xs m
    by (induction xs arbitrary: m)
      (auto simp: fallible_simps dest!: add_block_skeleton simp: replicate_append_same replicate_app_Cons_same)
  then show ?thesis using assms by (simp add: add_empty_blocks_def)
qed

text \<open>An invariant of the loop over the set of visited blocks holds at the end for all blocks.\<close>

lemma replace_cfg_loop:
  fixes rp :: "('c, 's, 'a) replacer" and I :: "nat set \<Rightarrow> ('c, 's) replacement \<Rightarrow> bool"
  assumes "cfg_wf cfg" "replace_cfg rp uuid cfg s = Inr (new_cfg, s')"
    and start: "\<And>m0 reachable. add_empty_blocks cfg (new_method uuid cfg) = Inr m0 \<Longrightarrow>
      I {} \<lparr>rs_new_cfg = m0, rs_visited = replicate (length (cm_basic_blocks cfg)) False, rs_reachable = reachable,
        rs_initial_pctxt = replicate (length (cm_basic_blocks cfg)) None,
        rs_final_pctxt = replicate (length (cm_basic_blocks cfg)) None, rs_self = s\<rparr>"
    and step: "\<And>D i st st'. I D st \<Longrightarrow> visit_block rp cfg i st = Inr st' \<Longrightarrow> I (insert i D) st'"
  shows "\<exists>st. new_cfg = rs_new_cfg st \<and> I {..<length (cm_basic_blocks cfg)} st"
proof -
  let ?n = "length (cm_basic_blocks cfg)"
  obtain m0 order reachable st where run:
      "add_empty_blocks cfg (new_method uuid cfg) = Inr m0" "get_topological_sort cfg = Some order"
      "mark_at 0 True (replicate ?n False) = Inr reachable"
      "foldE (\<lambda>b. visit_block rp cfg (bi_index b)) order
         \<lparr>rs_new_cfg = m0, rs_visited = replicate ?n False, rs_reachable = reachable,
          rs_initial_pctxt = replicate ?n None, rs_final_pctxt = replicate ?n None, rs_self = s\<rparr> = Inr st"
      "new_cfg = rs_new_cfg st"
    using assms(2) by (auto simp: replace_cfg_def fallible_simps Let_def)
  have visit: "foldE (\<lambda>b. visit_block rp cfg (bi_index b)) bs st0 = Inr st1 \<Longrightarrow> I D st0 \<Longrightarrow>
      I (D \<union> bi_index ` set bs) st1" for bs st0 st1 D
  proof (induction bs arbitrary: st0 D)
    case (Cons b bs)
    from Cons.prems(1) obtain st2 where st2: "visit_block rp cfg (bi_index b) st0 = Inr st2"
        "foldE (\<lambda>b. visit_block rp cfg (bi_index b)) bs st2 = Inr st1"
      by (auto simp: fallible_simps)
    from Cons.IH [OF st2(2) step [OF Cons.prems(2) st2(1)]] show ?case by (simp add: Un_insert_right)
  qed simp
  have "?n \<noteq> 0" using run(3) by (auto simp: mark_at_def)
  then have "cfg_adj cfg \<noteq> []" by (simp add: cfg_adj_def)
  from graph_topological_sort_spec [OF adj_wf_cfg [OF assms(1)] this] obtain ord where
    ord: "graph_topological_sort (cfg_adj cfg) = Some (0 # ord)" "set (0 # ord) = {..<length (cfg_adj cfg)}"
    by (elim exE conjE)
  then have "order = map (block_index cfg) (0 # ord)" using run(2) by (simp add: get_topological_sort_def)
  then have "bi_index ` set order = set (0 # ord)" by (simp add: block_index_def image_image)
  then have "I {..<?n} st" using visit [OF run(4) start [OF run(1)]] ord(2) by simp
  then show ?thesis using run(5) by blast
qed

lemma replace_cfg_skeleton:
  fixes rp :: "('c, 's, 'a) replacer"
  assumes "cfg_wf cfg" "replace_cfg rp uuid cfg s = Inr (new_cfg, s')"
  shows "skeleton_inv (skeleton cfg) {..<length (skeleton cfg)} (skeleton new_cfg)"
proof -
  have "\<exists>st :: ('c, 's) replacement.
      new_cfg = rs_new_cfg st \<and> replacement_inv (skeleton cfg) {..<length (cm_basic_blocks cfg)} st"
  proof (rule replace_cfg_loop [OF assms])
    fix m0 reachable
    assume "add_empty_blocks cfg (new_method uuid cfg) = Inr m0"
    then have "skeleton m0 = replicate (length (cm_basic_blocks cfg)) SuccUndefined"
      by (rule add_empty_blocks_skeleton) (simp add: new_method_def cfg_new_def skeleton_def)
    then show "replacement_inv (skeleton cfg) {} \<lparr>rs_new_cfg = m0,
        rs_visited = replicate (length (cm_basic_blocks cfg)) False, rs_reachable = reachable,
        rs_initial_pctxt = replicate (length (cm_basic_blocks cfg)) None,
        rs_final_pctxt = replicate (length (cm_basic_blocks cfg)) None, rs_self = s\<rparr>"
      by (simp add: replacement_inv_def skeleton_inv_def skeleton_def)
  qed (rule visit_block_inv [OF assms(1)])
  then show ?thesis by (auto simp: replacement_inv_def skeleton_def)
qed

text \<open>
  C7 Replacing the blocks of a method keeps its control flow, whatever the replacer does with statements
  and contexts: the blocks of the original come first, every inserted block jumps to an original block,
  and the targets of an original block are, through inserted blocks, its original targets in the same order.
\<close>

theorem replace_cfg_edges:
  assumes "cfg_wf cfg" "replace_cfg rp uuid cfg s = Inr (new_cfg, s')"
  shows "length (skeleton cfg) \<le> length (skeleton new_cfg) \<and>
    (\<forall>t. length (skeleton cfg) \<le> t \<and> t < length (skeleton new_cfg) \<longrightarrow>
       (\<exists>b. skeleton new_cfg ! t = SuccGoto b \<and> bi_index b < length (skeleton cfg))) \<and>
    (\<forall>i < length (skeleton cfg).
       map (original_target (length (skeleton cfg)) (skeleton new_cfg)) (targets (skeleton new_cfg ! i)) =
         targets (skeleton cfg ! i))"
  using replace_cfg_skeleton [OF assms] unfolding skeleton_inv_def same_edges_def by blast

subsection \<open>Examples\<close>

definition ex_replacer :: "(nat, unit, bool) replacer" where
  "ex_replacer =
     \<lparr>rp_check_compatible_back_edge = (\<lambda>_ _. Inr ()),
      rp_initial_context = (\<lambda>s. Inr (0, s)),
      rp_replace_stmt = (\<lambda>_ stmt _ c _ _ _ s. Inr ([stmt], Suc c, s)),
      rp_replace_successor = (\<lambda>succ c s. Inr (([], succ), c, s)),
      rp_prepend_join = (\<lambda>cs s. Inr ((map (\<lambda>_. 1 < length cs) cs, sum_list cs), s)),
      rp_perform_prejoin_action = (\<lambda>c _ _ s. Inr ([SComment ''join''], c, s)),
      rp_is_noop = Not\<rparr>"

lemma ex_replacer_run:
  "case replace_cfg ex_replacer 8 ex_method () of Inr (m, _) \<Rightarrow> length (skeleton m) = 5 | Inl _ \<Rightarrow> False"
  by code_simp

theorem replace_cfg_edges_witness:
  "\<exists>m. replace_cfg ex_replacer 8 ex_method () = Inr (m, ()) \<and> length (skeleton m) = 5 \<and>
     map (original_target 3 (skeleton m)) (targets (skeleton m ! 0)) = [2, 1]"
proof -
  obtain m where m: "replace_cfg ex_replacer 8 ex_method () = Inr (m, ())" "length (skeleton m) = 5"
    using ex_replacer_run by (auto split: sum.splits)
  have "length (skeleton ex_method) = 3" "targets (skeleton ex_method ! 0) = [2, 1]" by code_simp+
  then show ?thesis using replace_cfg_edges [OF ex_method_wf(1) m(1)] m by auto
qed

text \<open>
  A block that jumps to itself is its own incoming edge, already visited and without a final context:
  the replacement panics.
\<close>

definition ex_self_loop :: cfg_method where
  "ex_self_loop = (cfg_new 7 ''m'' 0 [] [] [])\<lparr>
     cm_basic_blocks := map ex_block [SuccGoto \<lparr>bi_method_uuid = 7, bi_index = 0\<rparr>],
     cm_basic_blocks_labels := [''start'']\<rparr>"

theorem replace_cfg_self_loop_panics: "case replace_cfg ex_replacer 8 ex_self_loop () of Inl e \<Rightarrow> e = Panic | Inr _ \<Rightarrow> False"
  by code_simp

definition ex_unreachable :: cfg_method where
  "ex_unreachable = (cfg_new 7 ''m'' 0 [] [] [])\<lparr>
     cm_basic_blocks := map ex_block
       [SuccGoto \<lparr>bi_method_uuid = 7, bi_index = 1\<rparr>, SuccReturn, SuccGoto \<lparr>bi_method_uuid = 7, bi_index = 1\<rparr>],
     cm_basic_blocks_labels := [''start'', ''a'', ''dead'']\<rparr>"

text \<open>
  A method with an unreachable block that has an edge to a reachable block cannot be replaced: the
  topological order has the unreachable block first, it is skipped without a final context, and the
  reachable block asks for that context and panics.
\<close>

theorem replace_cfg_unreachable_panics: "case replace_cfg ex_replacer 8 ex_unreachable () of Inl e \<Rightarrow> e = Panic | Inr _ \<Rightarrow> False"
  by code_simp

end
