(* ===== verification/Cfg_Ghost.thy ===== *)
theory Cfg_Ghost
  imports Cfg_Replacer Opt_Methods
begin

section \<open>Replacers that only add ghost code\<close>

text \<open>
  What a replacer has to promise so that \<open>replace_cfg\<close> keeps the program up to ghost code.  An erasure
  maps a statement to what is left of it, and a guard to its erased form.  The interface asks that the
  statements for one statement erase to its erasure, that the statements added for joins and successors
  erase to nothing, and that guards keep their erasure.
\<close>

definition block_body :: "(stmt \<Rightarrow> 'x list) \<Rightarrow> (expr \<Rightarrow> 'g) \<Rightarrow> cfg_block \<Rightarrow> 'x list \<times> 'g list" where
  "block_body er erg b = (concat (map er (cb_stmts b)), map erg (successor_guards (cb_successor b)))"

definition bodies :: "(stmt \<Rightarrow> 'x list) \<Rightarrow> (expr \<Rightarrow> 'g) \<Rightarrow> cfg_method \<Rightarrow> ('x list \<times> 'g list) list" where
  "bodies er erg m = map (block_body er erg) (cm_basic_blocks m)"

lemma successor_guards_replace_target:
  "replace_target s a b = Some s' \<Longrightarrow> successor_guards s' = successor_guards s"
  by (cases s) (auto simp: comp_def case_prod_unfold split: if_splits)

lemma successor_guards_replace_uuid [simp]: "successor_guards (replace_uuid s u) = successor_guards s"
  by (cases s) (auto simp: comp_def case_prod_unfold)

lemma length_bodies [simp]: "length (bodies er erg m) = length (cm_basic_blocks m)"
  by (simp add: bodies_def)

lemma nth_bodies:
  "i < length (cm_basic_blocks m) \<Longrightarrow> bodies er erg m ! i = block_body er erg (cm_basic_blocks m ! i)"
  by (simp add: bodies_def)

definition append_body :: "nat \<Rightarrow> 'x list \<Rightarrow> ('x list \<times> 'g list) list \<Rightarrow> ('x list \<times> 'g list) list" where
  "append_body i xs B = B[i := (fst (B ! i) @ xs, snd (B ! i))]"

lemma append_body_Nil [simp]: "append_body i [] B = B"
  by (simp add: append_body_def)

lemma append_body_append: "append_body i ys (append_body i xs B) = append_body i (xs @ ys) B"
  by (cases "i < length B") (simp_all add: append_body_def list_update_beyond)

lemma bodies_add_stmts:
  "add_stmts m b ss = Some m' \<Longrightarrow> bodies er erg m' = append_body (bi_index b) (concat (map er ss)) (bodies er erg m)"
proof (induction ss arbitrary: m)
  case (Cons s ss)
  from Cons.prems obtain m1 where m1: "add_stmt m b s = Some m1" "add_stmts m1 b ss = Some m'"
    by (auto split: option.splits)
  obtain m0 where m0: "register_labels m (gather_labels s) = Some m0" "bi_index b < length (cm_basic_blocks m0)"
      "m1 = m0\<lparr>cm_basic_blocks := (cm_basic_blocks m0)[bi_index b := push_stmt s (cm_basic_blocks m0 ! bi_index b)]\<rparr>"
    using m1(1) by (auto simp: add_stmt_def split: option.splits if_splits)
  have "bodies er erg m1 = append_body (bi_index b) (er s) (bodies er erg m)"
    using m0 register_labels_blocks [OF m0(1)]
    by (simp add: bodies_def append_body_def map_update block_body_def push_stmt_def)
  then show ?case using Cons.IH [OF m1(2)] by (simp add: append_body_append)
qed simp

lemma bodies_set_successor:
  "set_successor m b s = Some m' \<Longrightarrow>
   bodies er erg m' = (bodies er erg m)[bi_index b := (fst (bodies er erg m ! bi_index b), map erg (successor_guards s))]"
  by (auto simp: set_successor_def bodies_def map_update block_body_def split: if_splits)

lemma bodies_get_successor:
  "get_successor m b = Some s \<Longrightarrow> snd (bodies er erg m ! bi_index b) = map erg (successor_guards s)"
  by (auto simp: get_successor_def bodies_def block_body_def split: if_splits)

lemma bodies_add_block:
  "add_block m l ss = Some (b, m') \<Longrightarrow>
   bodies er erg m' = bodies er erg m @ [(concat (map er ss), [])] \<and> bi_index b = length (bodies er erg m)"
  by (auto simp: add_block_def bodies_def block_body_def block_index_def split: if_splits)

lemma bodies_fresh_label: "get_fresh_label_name m = Some (l, m') \<Longrightarrow> bodies er erg m' = bodies er erg m"
  by (auto simp: get_fresh_label_name_def bodies_def)

text \<open>Visited blocks have the body of the original, all others none.\<close>

definition bodies_inv ::
  "(stmt \<Rightarrow> 'x list) \<Rightarrow> (expr \<Rightarrow> 'g) \<Rightarrow> cfg_method \<Rightarrow> nat set \<Rightarrow> cfg_method \<Rightarrow> bool" where
  "bodies_inv er erg cfg D m \<longleftrightarrow>
     length (cm_basic_blocks cfg) \<le> length (cm_basic_blocks m) \<and>
     (\<forall>i < length (cm_basic_blocks m). bodies er erg m ! i =
        (if i < length (cm_basic_blocks cfg) \<and> i \<in> D then bodies er erg cfg ! i else ([], [])))"

lemma bodies_inv_empty:
  assumes "add_empty_blocks cfg (new_method uuid cfg) = Inr m"
  shows "bodies_inv er erg cfg {} m"
proof -
  have "foldE (\<lambda>index m. bindE (unwrap (get_block_label cfg (block_index cfg index))) (\<lambda>label.
      bindE (unwrap (add_block m label [])) (\<lambda>(_, m). Inr m))) xs m0 = Inr m \<Longrightarrow>
    bodies er erg m = bodies er erg m0 @ replicate (length xs) ([], [])" for xs m0
    by (induction xs arbitrary: m0)
      (auto simp: fallible_simps dest!: bodies_add_block [where er = er and erg = erg]
        simp: replicate_append_same replicate_app_Cons_same)
  then have "bodies er erg m = replicate (length (cm_basic_blocks cfg)) ([], [])"
    using assms by (simp add: add_empty_blocks_def new_method_def cfg_new_def bodies_def)
  moreover from this have "length (cm_basic_blocks m) = length (cm_basic_blocks cfg)"
    by (metis length_bodies length_replicate)
  ultimately show ?thesis by (simp add: bodies_inv_def)
qed

locale ghost_replacer =
  fixes rp :: "('c, 's, 'a) replacer"
    and er :: "stmt \<Rightarrow> 'x list"
    and erg :: "expr \<Rightarrow> 'g"
    and ok :: "stmt \<Rightarrow> bool"
  assumes ghost_comment: "er (SComment t) = []"
    and ghost_stmt: "ok stmt \<Longrightarrow> rp_replace_stmt rp i stmt is_last c b m label s = Inr (out, c', s') \<Longrightarrow>
      concat (map er out) = er stmt"
    and ghost_successor: "rp_replace_successor rp succ c s = Inr ((out, succ'), c', s') \<Longrightarrow>
      concat (map er out) = [] \<and> map erg (successor_guards succ') = map erg (successor_guards succ)"
    and ghost_prejoin: "rp_perform_prejoin_action rp c b a s = Inr (out, c', s') \<Longrightarrow> concat (map er out) = []"
begin

lemma insert_join_block_bodies:
  assumes "insert_join_block rp visited c edge (m, pctxt, s) = Inr (m', pctxt', s')"
  shows "bodies er erg m' = bodies er erg m \<or> bodies er erg m' = bodies er erg m @ [([], [])]"
proof (cases "rp_is_noop rp (snd edge)")
  case True
  then show ?thesis using assms by (auto simp: insert_join_block_def fallible_simps split: prod.splits)
next
  case False
  obtain label m1 d m2 new_stmts c1 s1 m3 m4 succ0 succ where run:
      "get_fresh_label_name m = Some (label, m1)"
      "add_block m1 label [SComment (''========== '' @ label @ '' =========='')] = Some (d, m2)"
      "rp_perform_prejoin_action rp pctxt d (snd edge) s = Inr (new_stmts, c1, s1)"
      "add_stmts m2 d new_stmts = Some m3" "set_successor m3 d (SuccGoto c) = Some m4"
      "get_successor m4 (block_index m (fst edge)) = Some succ0" "replace_target succ0 c d = Some succ"
      "set_successor m4 (block_index m (fst edge)) succ = Some m'"
    using assms False
    by (cases edge) (auto simp: insert_join_block_def fallible_simps Let_def simp del: replace_target.simps)
  have m2: "bodies er erg m2 = bodies er erg m @ [([], [])]" and d: "bi_index d = length (bodies er erg m)"
    using bodies_add_block [OF run(2), of er erg] bodies_fresh_label [OF run(1), of er erg] ghost_comment by auto
  have "bodies er erg m4 = bodies er erg m @ [([], [])]"
    using bodies_set_successor [OF run(5), of er erg] bodies_add_stmts [OF run(4), of er erg]
      ghost_prejoin [OF run(3)] m2 d by (simp add: list_update_append nth_append del: length_bodies)
  moreover have "bodies er erg m' = bodies er erg m4"
  proof -
    let ?i = "bi_index (block_index m (fst edge))"
    have "map erg (successor_guards succ) = snd (bodies er erg m4 ! ?i)"
      using bodies_get_successor [OF run(6), of er erg] successor_guards_replace_target [OF run(7)] by simp
    then show ?thesis using bodies_set_successor [OF run(8), of er erg] by simp
  qed
  ultimately show ?thesis by simp
qed

lemma bodies_inv_extend:
  assumes inv: "bodies_inv er erg cfg D m"
    and ext: "bodies er erg m' = bodies er erg m \<or> bodies er erg m' = bodies er erg m @ [([], [])]"
  shows "bodies_inv er erg cfg D m'"
  using ext
proof (elim disjE)
  assume eq: "bodies er erg m' = bodies er erg m"
  then have "length (cm_basic_blocks m') = length (cm_basic_blocks m)" by (metis length_bodies)
  then show ?thesis using inv eq by (simp add: bodies_inv_def)
next
  assume eq: "bodies er erg m' = bodies er erg m @ [([], [])]"
  from arg_cong [OF eq, of length] have len: "length (cm_basic_blocks m') = Suc (length (cm_basic_blocks m))" by simp
  have n: "length (cm_basic_blocks cfg) \<le> length (cm_basic_blocks m)" using inv by (simp add: bodies_inv_def)
  have "bodies er erg m' ! i = (if i < length (cm_basic_blocks cfg) \<and> i \<in> D then bodies er erg cfg ! i else ([], []))"
    if "i < length (cm_basic_blocks m')" for i
  proof (cases "i < length (cm_basic_blocks m)")
    case True
    then show ?thesis using inv eq by (simp add: bodies_inv_def nth_append)
  next
    case False
    then show ?thesis using that eq len n by (simp add: nth_append)
  qed
  then show ?thesis using n len by (simp add: bodies_inv_def)
qed

lemma join_incoming_bodies:
  assumes "bodies_inv er erg cfg D m" "join_incoming rp visited fin edges c m s = Inr (m', pctxt', s')"
  shows "bodies_inv er erg cfg D m'"
proof -
  obtain ctxts where ctxts: "mapE (\<lambda>i. unwrap (fin ! i)) edges = Inr ctxts"
    using assms(2) by (auto simp: join_incoming_def fallible_simps)
  show ?thesis
  proof (cases "ctxts = []")
    case True
    then show ?thesis using assms ctxts by (auto simp: join_incoming_def fallible_simps)
  next
    case False
    then obtain actions pctxt1 s1 where
      "foldE (insert_join_block rp visited c) (zip edges actions) (m, pctxt1, s1) = Inr (m', pctxt', s')"
      using assms(2) ctxts by (auto simp: join_incoming_def fallible_simps)
    then have "bodies_inv er erg cfg D (fst (m', pctxt', s'))"
    proof (rule foldE_invariant [where I = "\<lambda>u. bodies_inv er erg cfg D (fst u)"])
      show "bodies_inv er erg cfg D (fst (m, pctxt1, s1))" using assms(1) by simp
      fix x u v
      assume u: "bodies_inv er erg cfg D (fst u)" and step: "insert_join_block rp visited c x u = Inr v"
      obtain m1 p1 s1 m2 p2 s2 where uv: "u = (m1, p1, s1)" "v = (m2, p2, s2)" by (cases u, cases v)
      show "bodies_inv er erg cfg D (fst v)"
        using bodies_inv_extend [OF u, of m2] insert_join_block_bodies [of visited c x m1 p1 s1 m2 p2 s2] step uv
        by simp
    qed
    then show ?thesis by simp
  qed
qed

lemma replace_block_stmts_bodies:
  assumes "list_all ok (cb_stmts b)" "replace_block_stmts rp b c (m, pctxt, s) = Inr (m', pctxt', s')"
  shows "bodies er erg m' = append_body (bi_index c) (concat (map er (cb_stmts b))) (bodies er erg m)"
proof -
  have "foldE (replace_one_stmt rp b c) (List.enumerate k ss) (m, pctxt, s) = Inr (m', pctxt', s') \<Longrightarrow>
      list_all ok ss \<Longrightarrow> bodies er erg m' = append_body (bi_index c) (concat (map er ss)) (bodies er erg m)"
    for k ss m pctxt s
  proof (induction ss arbitrary: k m pctxt s)
    case (Cons st ss)
    from Cons.prems(1) obtain v where v: "replace_one_stmt rp b c (k, st) (m, pctxt, s) = Inr v"
        "foldE (replace_one_stmt rp b c) (List.enumerate (Suc k) ss) v = Inr (m', pctxt', s')"
      by (auto simp: fallible_simps)
    obtain m1 p1 s1 where v_eq: "v = (m1, p1, s1)" by (cases v)
    obtain out is_last where step: "rp_replace_stmt rp k st is_last pctxt c m None s = Inr (out, p1, s1)"
        "add_stmts m c out = Some m1"
      using v(1) v_eq by (auto simp: replace_one_stmt_def fallible_simps Let_def)
    have "bodies er erg m1 = append_body (bi_index c) (er st) (bodies er erg m)"
      using bodies_add_stmts [OF step(2), of er erg] ghost_stmt [OF _ step(1)] Cons.prems(2) by simp
    then show ?case using Cons.IH [OF v(2) [unfolded v_eq]] Cons.prems(2) by (simp add: append_body_append)
  qed simp
  then show ?thesis using assms by (simp add: replace_block_stmts_def)
qed

lemma replace_block_successor_bodies:
  assumes "replace_block_successor rp b c (m, pctxt, s) = Inr (m', pctxt', s')"
  shows "bodies er erg m' = (bodies er erg m)[bi_index c :=
    (fst (bodies er erg m ! bi_index c), map erg (successor_guards (cb_successor b)))]"
proof -
  obtain out succ p1 s1 m1 where run: "rp_replace_successor rp (cb_successor b) pctxt s = Inr ((out, succ), p1, s1)"
      "add_stmts m c out = Some m1" "set_successor m1 c (replace_uuid succ (cm_uuid m1)) = Some m'"
    using assms by (auto simp: replace_block_successor_def fallible_simps)
  show ?thesis
    using bodies_set_successor [OF run(3), of er erg] bodies_add_stmts [OF run(2), of er erg] ghost_successor [OF run(1)]
    by simp
qed

lemma copy_unreachable_bodies:
  assumes "copy_unreachable b c m = Inr m'"
  shows "bodies er erg m' = (append_body (bi_index c) (concat (map er (cb_stmts b))) (bodies er erg m))[bi_index c :=
    (fst (append_body (bi_index c) (concat (map er (cb_stmts b))) (bodies er erg m) ! bi_index c),
     map erg (successor_guards (cb_successor b)))]"
proof -
  obtain m1 where m1: "add_stmts m c (cb_stmts b) = Some m1"
      "set_successor m1 c (replace_uuid (cb_successor b) (cm_uuid m1)) = Some m'"
    using assms by (auto simp: copy_unreachable_def fallible_simps)
  show ?thesis using bodies_set_successor [OF m1(2), of er erg] bodies_add_stmts [OF m1(1), of er erg] by simp
qed

text \<open>A block without a body gets the body of its original.\<close>

lemma bodies_inv_fill:
  assumes inv: "bodies_inv er erg cfg D m" and ci: "ci < length (cm_basic_blocks cfg)" "ci \<notin> D"
    and b: "b = cm_basic_blocks cfg ! ci"
    and m': "bodies er erg m' = (append_body ci (concat (map er (cb_stmts b))) (bodies er erg m))[ci :=
      (fst (append_body ci (concat (map er (cb_stmts b))) (bodies er erg m) ! ci),
       map erg (successor_guards (cb_successor b)))]"
  shows "bodies_inv er erg cfg (insert ci D) m'"
proof -
  have n: "length (cm_basic_blocks cfg) \<le> length (cm_basic_blocks m)" using inv by (simp add: bodies_inv_def)
  have none: "bodies er erg m ! ci = ([], [])" using inv ci n by (simp add: bodies_inv_def)
  have "bodies er erg cfg ! ci = (concat (map er (cb_stmts b)), map erg (successor_guards (cb_successor b)))"
    using ci(1) b by (simp add: nth_bodies block_body_def)
  then have eq: "bodies er erg m' = (bodies er erg m)[ci := bodies er erg cfg ! ci]"
    using m' ci(1) n by (simp add: append_body_def none)
  from arg_cong [OF eq, of length] have len: "length (cm_basic_blocks m') = length (cm_basic_blocks m)" by simp
  show ?thesis using inv n ci unfolding bodies_inv_def len eq by (simp add: nth_list_update)
qed

definition ghost_inv :: "cfg_method \<Rightarrow> nat set \<Rightarrow> ('c, 's) replacement \<Rightarrow> bool" where
  "ghost_inv cfg D st \<longleftrightarrow> bodies_inv er erg cfg D (rs_new_cfg st) \<and>
     length (rs_visited st) = length (cm_basic_blocks cfg) \<and>
     (\<forall>i \<in> D. i < length (cm_basic_blocks cfg) \<and> rs_visited st ! i)"

lemma visit_block_ghost:
  assumes inv: "ghost_inv cfg D st" and ok: "\<And>b. b \<in> set (cm_basic_blocks cfg) \<Longrightarrow> list_all ok (cb_stmts b)"
    and run: "visit_block rp cfg ci st = Inr st'"
  shows "ghost_inv cfg (insert ci D) st'"
proof -
  let ?b = "cm_basic_blocks cfg ! ci" and ?c = "block_index (rs_new_cfg st) ci"
  have ci: "ci < length (cm_basic_blocks cfg)" "\<not> rs_visited st ! ci"
    using run by (auto simp: visit_block_def fallible_simps)
  have c: "bi_index ?c = ci" by (simp add: block_index_def)
  have notin: "ci \<notin> D" using inv ci by (auto simp: ghost_inv_def)
  have inv': "bodies_inv er erg cfg D (rs_new_cfg st)" using inv by (simp add: ghost_inv_def)
  have "bodies_inv er erg cfg (insert ci D) (rs_new_cfg st') \<and> rs_visited st' = (rs_visited st)[ci := True]"
  proof (cases "rs_reachable st ! ci")
    case False
    then obtain m where m: "copy_unreachable ?b ?c (rs_new_cfg st) = Inr m" "rs_new_cfg st' = m"
        "rs_visited st' = (rs_visited st)[ci := True]"
      using run by (auto simp: visit_block_def fallible_simps Let_def)
    show ?thesis
      using bodies_inv_fill [OF inv' ci(1) notin refl] copy_unreachable_bodies [OF m(1)] m(2,3) c by simp
  next
    case True
    then obtain edges m1 p1 s1 m2 p2 s2 m3 p3 s3 where steps:
        "join_incoming rp ((rs_visited st)[ci := True]) (rs_final_pctxt st) edges ?c (rs_new_cfg st) (rs_self st) =
           Inr (m1, p1, s1)"
        "replace_block_stmts rp ?b ?c (m1, p1, s1) = Inr (m2, p2, s2)"
        "replace_block_successor rp ?b ?c (m2, p2, s2) = Inr (m3, p3, s3)"
        "rs_new_cfg st' = m3" "rs_visited st' = (rs_visited st)[ci := True]"
      using run by (auto simp: visit_block_def fallible_simps Let_def)
    have "list_all ok (cb_stmts ?b)" using ok ci(1) by simp
    note m2 = replace_block_stmts_bodies [OF this steps(2)]
    have "bodies_inv er erg cfg (insert ci D) m3"
      using bodies_inv_fill [OF join_incoming_bodies [OF inv' steps(1)] ci(1) notin refl]
        replace_block_successor_bodies [OF steps(3)] m2 c by simp
    then show ?thesis using steps(4,5) by simp
  qed
  then show ?thesis using inv ci by (auto simp: ghost_inv_def nth_list_update)
qed

theorem replace_cfg_bodies:
  assumes wf: "cfg_wf cfg" and ok: "\<And>b. b \<in> set (cm_basic_blocks cfg) \<Longrightarrow> list_all ok (cb_stmts b)"
    and run: "replace_cfg rp uuid cfg s = Inr (new_cfg, s')"
  shows "bodies er erg new_cfg = bodies er erg cfg @
    replicate (length (cm_basic_blocks new_cfg) - length (cm_basic_blocks cfg)) ([], [])"
proof -
  let ?n = "length (cm_basic_blocks cfg)"
  have "\<exists>st. new_cfg = rs_new_cfg st \<and> ghost_inv cfg {..<?n} st"
  proof (rule replace_cfg_loop [OF wf run])
    fix m0 reachable
    assume "add_empty_blocks cfg (new_method uuid cfg) = Inr m0"
    from bodies_inv_empty [OF this, of er erg]
    show "ghost_inv cfg {} \<lparr>rs_new_cfg = m0, rs_visited = replicate ?n False, rs_reachable = reachable,
        rs_initial_pctxt = replicate ?n None, rs_final_pctxt = replicate ?n None, rs_self = s\<rparr>"
      by (simp add: ghost_inv_def)
  qed (rule visit_block_ghost [OF _ ok])
  then have inv: "bodies_inv er erg cfg {..<?n} new_cfg" by (auto simp: ghost_inv_def)
  show ?thesis
  proof (rule nth_equalityI)
    show "length (bodies er erg new_cfg) = length (bodies er erg cfg @
        replicate (length (cm_basic_blocks new_cfg) - ?n) ([], []))"
      using inv by (simp add: bodies_inv_def)
    fix i assume "i < length (bodies er erg new_cfg)"
    then show "bodies er erg new_cfg ! i = (bodies er erg cfg @
        replicate (length (cm_basic_blocks new_cfg) - ?n) ([], [])) ! i"
      using inv by (simp add: bodies_inv_def nth_append)
  qed
qed

end

end
