(* ===== verification/Fold_Unfold.thy ===== *)
theory Fold_Unfold
  imports Fu_Replacer Cfg_Ghost
begin

section \<open>Fold-unfold: the algorithm on methods (foldunfold/mod.rs)\<close>

text \<open>
  \<open>FoldUnfold\<close> is the replacer that adds the fold and unfold statements to a method.  Its constant fields
  are in \<open>fold_unfold_params\<close>, the field it changes and the shared lists of logged actions in
  \<open>fold_unfold\<close>.  A statement is replaced by recursive calls for nested statements, for permissions to
  recombine and for the statements of expiring borrows; the recursion has fuel.  The locations of borrows
  and the map from MIR blocks to blocks come from the encoder, the printed form of statements and borrows
  (only used in comments) is a parameter, and the options that dump debugging output are off.
\<close>

record fold_unfold_params =
  fp_env :: fu_env
  fp_check_foldunfold_state :: bool
  fp_cfg :: cfg_method
  fp_borrow_locations :: "borrow \<Rightarrow> nat option"
  fp_cfg_map :: "nat \<Rightarrow> block_index list option"
  fp_method_pos :: position
  fp_initial_pctxt :: path_ctxt
  fp_show_stmt :: "stmt \<Rightarrow> string"
  fp_show_borrow :: "borrow \<Rightarrow> string"

record fold_unfold =
  fu_pctxt_at_label :: "string \<Rightarrow> path_ctxt option"
  fu_action_store :: action_store

type_synonym replace_fn =
  "nat \<Rightarrow> stmt \<Rightarrow> bool \<Rightarrow> path_ctxt \<Rightarrow> block_index \<Rightarrow> cfg_method \<Rightarrow> string option \<Rightarrow> fold_unfold \<Rightarrow>
   failure + stmt list \<times> path_ctxt \<times> fold_unfold"

subsection \<open>Rewriting the expressions of a statement\<close>

definition states_at_label :: "fold_unfold \<Rightarrow> label_states" where
  "states_at_label fu label = map_option pc_state (fu_pctxt_at_label fu label)"

definition replace_with :: "fold_unfold_params \<Rightarrow> fold_unfold \<Rightarrow> bool \<Rightarrow> path_ctxt \<Rightarrow> expr \<Rightarrow> failure + expr" where
  "replace_with P fu wait_old_expr pctxt e =
     replace_expr (fp_env P) (states_at_label fu) wait_old_expr (pc_state pctxt) e"

definition rewrite_stmt_with_unfoldings_in_old ::
  "fold_unfold_params \<Rightarrow> fold_unfold \<Rightarrow> path_ctxt \<Rightarrow> stmt \<Rightarrow> failure + stmt" where
  "rewrite_stmt_with_unfoldings_in_old P fu pctxt stmt = fallible_map_expr (replace_with P fu True pctxt) stmt"

fun rewrite_stmt_with_unfoldings ::
  "fold_unfold_params \<Rightarrow> fold_unfold \<Rightarrow> path_ctxt \<Rightarrow> stmt \<Rightarrow> failure + stmt" where
  "rewrite_stmt_with_unfoldings P fu pctxt (SInhale e) =
     bindE (get_footprint (fe_rx (fp_env P)) (fe_preds (fp_env P)) e) (\<lambda>fp.
     bindE (insert_all_perms (pc_state pctxt)
             (filter (\<lambda>p. \<not> is_local (get_place p) \<and> perm_is_curr p) fp)) (\<lambda>inner_state.
     bindE (replace_with P fu False (pctxt\<lparr>pc_state := inner_state\<rparr>) e) (\<lambda>e.
     Inr (SInhale e))))"
| "rewrite_stmt_with_unfoldings P fu pctxt (STransferPerm lhs rhs unchecked) =
     bindE (if unchecked then Inr lhs else replace_with P fu False pctxt lhs) (\<lambda>new_lhs.
     bindE (replace_with P fu True pctxt rhs) (\<lambda>new_rhs.
     Inr (STransferPerm new_lhs new_rhs unchecked)))"
| "rewrite_stmt_with_unfoldings P fu pctxt (SPackageMagicWand wand stmts label vars pos) =
     bindE (replace_with P fu False pctxt wand) (\<lambda>wand.
     Inr (SPackageMagicWand wand stmts label vars pos))"
| "rewrite_stmt_with_unfoldings P fu pctxt stmt = fallible_map_expr (replace_with P fu False pctxt) stmt"

subsection \<open>Effects on a path context\<close>

definition ctxt_apply :: "fold_unfold_params \<Rightarrow> stmt \<Rightarrow> path_ctxt \<Rightarrow> failure + path_ctxt" where
  "ctxt_apply P stmt pctxt =
     bindE (apply_stmt (fe_debug (fp_env P)) (fe_rx (fp_env P)) (fe_preds (fp_env P)) stmt (pc_state pctxt)) (\<lambda>st.
     Inr (pctxt\<lparr>pc_state := st\<rparr>))"

definition action_stmts :: "action list \<Rightarrow> failure + stmt list" where
  "action_stmts actions = mapE (\<lambda>a. unwrap (to_stmt a)) actions"

definition ctxt_obtain :: "fold_unfold_params \<Rightarrow> perm list \<Rightarrow> path_ctxt \<Rightarrow> failure + stmt list \<times> path_ctxt" where
  "ctxt_obtain P perms pctxt =
     bindE (obtain_permissions (fe_debug (fp_env P)) (fe_rx (fp_env P)) (fe_preds (fp_env P))
             (fe_fuel (fp_env P)) perms (pc_state pctxt)) (\<lambda>(actions, st).
     bindE (action_stmts actions) (\<lambda>stmts. Inr (stmts, pctxt\<lparr>pc_state := st\<rparr>)))"

definition assert_state :: "path_ctxt \<Rightarrow> failure + stmt list" where
  "assert_state pctxt =
     bindE (as_vir_expr (pc_state pctxt)) (\<lambda>e.
     Inr [SComment ''Assert content of fold/unfold state'', SAssert e position_default])"

subsection \<open>Joins\<close>

function prepend_join :: "fu_env \<Rightarrow> path_ctxt list \<Rightarrow> failure + action list list \<times> path_ctxt" where
  "prepend_join env [] = Inl Panic"
| "prepend_join env [c] = Inr ([[]], c)"
| "prepend_join env (c # d # cs) =
     (let bcs = c # d # cs; mid = length bcs div 2 in
      bindE (prepend_join env (take mid bcs)) (\<lambda>(left_actions_vec, left_pctxt).
      bindE (prepend_join env (drop mid bcs)) (\<lambda>(right_actions_vec, right_pctxt).
      bindE (join_ctxt (fe_debug env) (fe_rx env) (fe_preds env) (fe_fuel env) left_pctxt right_pctxt)
        (\<lambda>((merge_actions_left, merge_actions_right), merged_pctxt).
      Inr (map (\<lambda>a. a @ merge_actions_left) left_actions_vec @
           map (\<lambda>a. a @ merge_actions_right) right_actions_vec, merged_pctxt)))))"
  by pat_completeness auto
termination by (relation "measure (length \<circ> snd)") auto

definition perform_prejoin_action ::
  "path_ctxt \<Rightarrow> block_index \<Rightarrow> action list \<Rightarrow> fold_unfold \<Rightarrow> failure + stmt list \<times> path_ctxt \<times> fold_unfold" where
  "perform_prejoin_action pctxt blk actions fu =
     foldE (\<lambda>action (stmts, pctxt, fu).
         bindE (unwrap (to_stmt action)) (\<lambda>stmt.
         case log_prejoin_action (fu_action_store fu) (pc_log pctxt) blk action of (store, lg) \<Rightarrow>
           Inr (stmts @ [stmt], pctxt\<lparr>pc_log := lg\<rparr>, fu\<lparr>fu_action_store := store\<rparr>)))
       actions ([], pctxt, fu)"

subsection \<open>Borrows\<close>

text \<open>The nearest block that creates the borrow; the set of candidates is a list here.\<close>

definition nearest_step ::
  "cfg_method \<Rightarrow> block_index \<Rightarrow> block_index \<Rightarrow> (block_index \<times> nat) option \<Rightarrow> failure + (block_index \<times> nat) option" where
  "nearest_step cfg curr_block blk nearest =
     bindE (unwrap (find_path cfg blk curr_block)) (\<lambda>found.
     Inr (case found of
            None \<Rightarrow> nearest
          | Some path \<Rightarrow>
              (case nearest of
                 Some (_, distance) \<Rightarrow> if distance > length path then Some (blk, length path) else nearest
               | None \<Rightarrow> Some (blk, length path))))"

definition get_cfg_block_of_last_borrow ::
  "fold_unfold_params \<Rightarrow> block_index \<Rightarrow> borrow \<Rightarrow> failure + block_index" where
  "get_cfg_block_of_last_borrow P curr_block b =
     bindE (unwrap (fp_borrow_locations P b)) (\<lambda>mir_block.
     bindE (unwrap (fp_cfg_map P mir_block)) (\<lambda>borrow_creation.
     bindE (foldE (nearest_step (fp_cfg P) curr_block) borrow_creation None) (\<lambda>nearest_block.
     bindE (unwrap nearest_block) (\<lambda>(blk, _). Inr blk))))"

fun restorable_perm :: "expr \<Rightarrow> failure + perm" where
  "restorable_perm (EPredicateAccessPredicate _ arg perm_amount _) =
     bindE (require (perm_amount = Remaining)) (\<lambda>_. Inr (Pred arg Read))"
| "restorable_perm (EFieldAccessPredicate place perm_amount _) =
     bindE (require (perm_amount = Remaining)) (\<lambda>_. Inr (Acc place Read))"
| "restorable_perm _ = Inl Panic"

definition restore_write_permissions ::
  "fold_unfold_params \<Rightarrow> borrow \<Rightarrow> path_ctxt \<Rightarrow> failure + stmt list \<times> path_ctxt" where
  "restore_write_permissions P b pctxt =
     bindE (foldE (\<lambda>access (stmts, pctxt).
         bindE (restorable_perm access) (\<lambda>perm.
         bindE (ctxt_obtain P [perm] pctxt) (\<lambda>(new_stmts, pctxt).
         bindE (ctxt_apply P (SInhale access) pctxt) (\<lambda>pctxt.
         Inr (stmts @ new_stmts @ [SInhale access], pctxt)))))
       (get_converted_to_read_places (pc_log pctxt) b) ([], pctxt)) (\<lambda>(stmts, pctxt).
     Inr (stmts, pctxt\<lparr>pc_log := log_borrow_expiration (pc_log pctxt) b\<rparr>))"

function patch_place :: "string \<Rightarrow> expr \<Rightarrow> expr" where
  "patch_place label e =
     (case e of
        EField (ELocal _ _) _ _ \<Rightarrow> expr_old e label
      | ELabelledOld _ _ _ \<Rightarrow> e
      | _ \<Rightarrow> fold_children (patch_place label) e)"
  by pat_completeness auto
termination by (relation "measure (size \<circ> snd)") (auto simp: children_size)

declare patch_place.simps [simp del]

definition patch_args :: "string \<Rightarrow> expr list \<Rightarrow> failure + expr list" where
  "patch_args label args = mapE (\<lambda>arg. bindE (require (is_place arg)) (\<lambda>_. Inr (patch_place label arg))) args"

fun patch_stmt :: "string \<Rightarrow> stmt \<Rightarrow> failure + stmt" where
  "patch_stmt label (SComment c) = Inr (SComment c)"
| "patch_stmt label (SApplyMagicWand w p) = Inr (SApplyMagicWand w p)"
| "patch_stmt label (STransferPerm a b u) = Inr (STransferPerm a b u)"
| "patch_stmt label (SAssign a b k) = Inr (SAssign a b k)"
| "patch_stmt label (SInhale e) = Inr (SInhale (patch_place label e))"
| "patch_stmt label (SExhale e p) = Inr (SExhale (patch_place label e) p)"
| "patch_stmt label (SFold n args q v p) = bindE (patch_args label args) (\<lambda>args. Inr (SFold n args q v p))"
| "patch_stmt label (SUnfold n args q v) = bindE (patch_args label args) (\<lambda>args. Inr (SUnfold n args q v))"
| "patch_stmt label _ = Inl Panic"

definition patch_places :: "stmt list \<Rightarrow> string option \<Rightarrow> failure + stmt list" where
  "patch_places stmts maybe_label =
     (case maybe_label of Some label \<Rightarrow> mapE (patch_stmt label) stmts | None \<Rightarrow> Inr stmts)"

subsection \<open>Expiring borrows (borrows.rs, process_expire_borrows.rs)\<close>

record expire_block =
  eb_guard :: expr
  eb_current_guard :: expr
  eb_node :: "stmt dag_node"
  eb_predecessors :: "nat list"
  eb_statements :: "stmt list"
  eb_successors :: "nat list"

record expire_cfg =
  ec_basic_blocks :: "expire_block list"
  ec_edges :: "((nat \<times> nat) \<times> stmt list) list"

fun extend_edge :: "nat \<times> nat \<Rightarrow> stmt list \<Rightarrow> ((nat \<times> nat) \<times> stmt list) list \<Rightarrow> ((nat \<times> nat) \<times> stmt list) list" where
  "extend_edge key stmts [] = [(key, stmts)]"
| "extend_edge key stmts ((k, ss) # es) =
     (if k = key then (k, ss @ stmts) # es else (k, ss) # extend_edge key stmts es)"

definition build_initial_cfg :: "fold_unfold_params \<Rightarrow> stmt dag \<Rightarrow> failure + expire_cfg" where
  "build_initial_cfg P dag =
     bindE (mapE (\<lambda>node.
         bindE (mapE (\<lambda>b. unwrap (get_borrow_index dag b)) (nd_reborrowing_nodes node)) (\<lambda>predecessors.
         bindE (mapE (\<lambda>b. unwrap (get_borrow_index dag b)) (nd_reborrowed_nodes node)) (\<lambda>successors.
         bindE (unwrap (dag_guard dag (nd_borrow node))) (\<lambda>guard.
         Inr \<lparr>eb_guard = guard, eb_current_guard = nd_guard node, eb_node = node, eb_predecessors = predecessors,
              eb_statements = [SComment (''expire loan '' @ fp_show_borrow P (nd_borrow node))],
              eb_successors = successors\<rparr>))))
       (dag_nodes dag)) (\<lambda>blocks.
     Inr \<lparr>ec_basic_blocks = blocks, ec_edges = []\<rparr>)"

definition push_stmts :: "nat \<Rightarrow> stmt list \<Rightarrow> expire_cfg \<Rightarrow> expire_cfg" where
  "push_stmts i stmts cfg =
     cfg\<lparr>ec_basic_blocks := (ec_basic_blocks cfg)[i :=
       (ec_basic_blocks cfg ! i)\<lparr>eb_statements := eb_statements (ec_basic_blocks cfg ! i) @ stmts\<rparr>]\<rparr>"

definition restored_comments :: "perm list \<Rightarrow> failure + stmt list" where
  "restored_comments perms =
     mapE (\<lambda>p. bindE (unwrap (perm_show p)) (\<lambda>t. Inr (SComment (''restored (from log): '' @ t)))) perms"

text \<open>The permissions dropped on the way between two blocks, and the state with them restored.\<close>

definition restore_from_log ::
  "fold_unfold_params \<Rightarrow> fold_unfold \<Rightarrow> path_ctxt \<Rightarrow> stmt dag \<Rightarrow> cfg_method \<Rightarrow> block_index \<Rightarrow> block_index \<Rightarrow>
   path_ctxt \<Rightarrow> failure + stmt list \<times> path_ctxt" where
  "restore_from_log P fu surrounding_pctxt dag new_cfg start_block end_block pctxt =
     bindE (unwrap (find_path new_cfg start_block end_block)) (\<lambda>found.
     bindE (unwrap found) (\<lambda>path.
     bindE (collect_dropped_permissions (fu_action_store fu) (pc_log surrounding_pctxt) path dag) (\<lambda>dropped.
     bindE (restored_comments dropped) (\<lambda>comments.
     bindE (restore_dropped_perms (fe_debug (fp_env P)) (pc_state pctxt) dropped) (\<lambda>st.
     Inr (comments, pctxt\<lparr>pc_state := st\<rparr>))))))"

definition construct_initial_pctxt_no_predecessors ::
  "fold_unfold_params \<Rightarrow> fold_unfold \<Rightarrow> stmt dag \<Rightarrow> expire_block \<Rightarrow> path_ctxt \<Rightarrow> block_index \<Rightarrow> cfg_method \<Rightarrow>
   failure + path_ctxt \<times> stmt list" where
  "construct_initial_pctxt_no_predecessors P fu dag curr_block surrounding_pctxt end_block new_cfg =
     bindE (get_cfg_block_of_last_borrow P end_block (nd_borrow (eb_node curr_block))) (\<lambda>start_block.
     if \<not> weak_eq start_block end_block then
       bindE (restore_from_log P fu surrounding_pctxt dag new_cfg start_block end_block surrounding_pctxt)
         (\<lambda>(comments, pctxt). Inr (pctxt, comments))
     else Inr (surrounding_pctxt, []))"

text \<open>The statements of the actions before a join; dropped permissions that are borrowed come back.\<close>

definition merge_action ::
  "stmt dag \<Rightarrow> action \<Rightarrow> stmt list \<times> path_ctxt \<Rightarrow> failure + stmt list \<times> path_ctxt" where
  "merge_action dag a acc =
     (case acc of (stmts, pctxt) \<Rightarrow>
        bindE (unwrap (to_stmt a)) (\<lambda>stmt.
        case a of
          ADrop perm missing_perm \<Rightarrow>
            bindE (unwrap (in_borrowed_places dag (get_place missing_perm))) (\<lambda>borrowed.
            if borrowed \<and> get_perm_amount perm \<noteq> Read then
              bindE (unwrap (perm_show perm)) (\<lambda>t.
              bindE (unwrap (perm_show missing_perm)) (\<lambda>u.
              bindE (restore_dropped_perm (pc_state pctxt) perm) (\<lambda>st.
              Inr (stmts @ [stmt, SComment (''restored (in branch merge): '' @ t @ '' ('' @ u @ '')'')],
                   pctxt\<lparr>pc_state := st\<rparr>))))
            else Inr (stmts @ [stmt], pctxt))
        | _ \<Rightarrow> Inr (stmts @ [stmt], pctxt)))"

definition construct_initial_pctxt_with_predecessors ::
  "fold_unfold_params \<Rightarrow> fold_unfold \<Rightarrow> stmt dag \<Rightarrow> expire_cfg \<Rightarrow> path_ctxt \<Rightarrow> block_index \<Rightarrow> cfg_method \<Rightarrow> nat \<Rightarrow>
   path_ctxt option list \<Rightarrow> failure + path_ctxt \<times> expire_cfg" where
  "construct_initial_pctxt_with_predecessors P fu dag cfg surrounding_pctxt surrounding_block new_cfg curr_index final_pctxt =
     (let curr_block = ec_basic_blocks cfg ! curr_index in
      bindE (foldE (\<lambda>predecessor (incoming, edges).
          bindE (require (predecessor < length final_pctxt)) (\<lambda>_.
          bindE (unwrap (final_pctxt ! predecessor)) (\<lambda>pctxt.
          bindE (get_cfg_block_of_last_borrow P surrounding_block
                  (nd_borrow (eb_node (ec_basic_blocks cfg ! predecessor)))) (\<lambda>end_block.
          bindE (get_cfg_block_of_last_borrow P surrounding_block (nd_borrow (eb_node curr_block))) (\<lambda>start_block.
          if start_block \<noteq> end_block then
            bindE (restore_from_log P fu surrounding_pctxt dag new_cfg start_block end_block pctxt) (\<lambda>(comments, pctxt).
            Inr (incoming @ [pctxt],
                 if comments = [] then edges else extend_edge (predecessor, curr_index) comments edges))
          else Inr (incoming @ [pctxt], edges))))))
        (eb_predecessors curr_block) ([], ec_edges cfg)) (\<lambda>(incoming, edges).
      bindE (prepend_join (fp_env P) incoming) (\<lambda>(actions, pctxt).
      bindE (foldE (\<lambda>(src_index, action) (pctxt, edges).
          bindE (require (src_index < curr_index)) (\<lambda>_.
          if action \<noteq> [] then
            bindE (foldE (merge_action dag) action ([], pctxt)) (\<lambda>(stmts_to_add, pctxt).
            Inr (pctxt, extend_edge (src_index, curr_index) stmts_to_add edges))
          else Inr (pctxt, edges)))
        (zip (eb_predecessors curr_block) actions) (pctxt, edges)) (\<lambda>(pctxt, edges).
      Inr (pctxt, cfg\<lparr>ec_edges := edges\<rparr>)))))"

definition construct_final_pctxt ::
  "fold_unfold_params \<Rightarrow> stmt dag \<Rightarrow> expire_cfg \<Rightarrow> path_ctxt option list \<Rightarrow> failure + path_ctxt \<times> expire_cfg" where
  "construct_final_pctxt P dag cfg final_pctxt =
     (let final_blocks = filter (\<lambda>i. eb_successors (ec_basic_blocks cfg ! i) = []) [0..<length (ec_basic_blocks cfg)] in
      bindE (mapE (\<lambda>i. unwrap (final_pctxt ! i)) final_blocks) (\<lambda>final_pctxts.
      bindE (prepend_join (fp_env P) final_pctxts) (\<lambda>(actions, pctxt).
      foldE (\<lambda>(i, action) (pctxt, cfg).
          if action \<noteq> [] then
            bindE (foldE (merge_action dag) action ([], pctxt)) (\<lambda>(stmts_to_add, pctxt).
            Inr (pctxt, push_stmts i stmts_to_add cfg))
          else Inr (pctxt, cfg))
        (zip final_blocks actions) (pctxt, cfg))))"

definition generate_final_statements :: "expire_cfg \<Rightarrow> string option \<Rightarrow> failure + stmt list" where
  "generate_final_statements cfg label =
     foldE (\<lambda>i stmts.
         let block = ec_basic_blocks cfg ! i in
         bindE (patch_places (eb_statements block) label) (\<lambda>patched.
         bindE (mapE (\<lambda>((from, to), statements).
             bindE (require (to < length (ec_basic_blocks cfg))) (\<lambda>_.
             bindE (patch_places statements label) (\<lambda>patched_edge.
             Inr (SIf (expr_and (eb_guard block) (eb_current_guard (ec_basic_blocks cfg ! to))) patched_edge []))))
           (filter (\<lambda>((from, to), _). from = i) (ec_edges cfg))) (\<lambda>edge_stmts.
         Inr (stmts @ SIf (eb_guard block) patched [] # edge_stmts))))
       [0..<length (ec_basic_blocks cfg)] []"

text \<open>The body of \<open>process_node\<close>, with the replacement of statements as an argument.\<close>

definition replace_into ::
  "replace_fn \<Rightarrow> block_index \<Rightarrow> cfg_method \<Rightarrow> string option \<Rightarrow> nat \<Rightarrow> stmt \<Rightarrow> stmt list \<times> path_ctxt \<times> fold_unfold \<Rightarrow>
   failure + stmt list \<times> path_ctxt \<times> fold_unfold" where
  "replace_into rec blk new_cfg label stmt_index stmt acc =
     (case acc of (stmts, pctxt, fu) \<Rightarrow>
        bindE (rec stmt_index stmt False pctxt blk new_cfg label fu) (\<lambda>(new_stmts, pctxt, fu).
        Inr (stmts @ new_stmts, pctxt, fu)))"

definition exhale_duplicated ::
  "fold_unfold_params \<Rightarrow> replace_fn \<Rightarrow> block_index \<Rightarrow> cfg_method \<Rightarrow> string option \<Rightarrow> expr option \<Rightarrow>
   expr \<times> expr \<Rightarrow> stmt list \<times> path_ctxt \<times> fold_unfold \<Rightarrow> failure + stmt list \<times> path_ctxt \<times> fold_unfold" where
  "exhale_duplicated P rec blk new_cfg label node_place dup acc =
     (case dup of (read_access, original_place) \<Rightarrow>
        bindE (case node_place of
                 Some place \<Rightarrow> to_panic (replace_place (fe_rx (fp_env P)) read_access original_place place)
               | None \<Rightarrow> Inr read_access) (\<lambda>read_access.
        replace_into rec blk new_cfg label (length (fst acc)) (SExhale read_access (fp_method_pos P)) acc))"

definition mark_moved :: "(expr \<times> expr) list \<Rightarrow> path_ctxt \<Rightarrow> path_ctxt" where
  "mark_moved duplicated_perms pctxt =
     (if duplicated_perms = [] then pctxt
      else let original_place = snd (last duplicated_perms) in
           if contains_acc (pc_state pctxt) original_place
           then pctxt\<lparr>pc_state := insert_moved (pc_state pctxt) original_place\<rparr> else pctxt)"

definition restore_all_write ::
  "fold_unfold_params \<Rightarrow> borrow list \<Rightarrow> stmt list \<times> path_ctxt \<Rightarrow> failure + stmt list \<times> path_ctxt" where
  "restore_all_write P bs acc =
     foldE (\<lambda>b (stmts, pctxt).
         bindE (restore_write_permissions P b pctxt) (\<lambda>(new_stmts, pctxt). Inr (stmts @ new_stmts, pctxt)))
       bs acc"

definition process_node ::
  "fold_unfold_params \<Rightarrow> replace_fn \<Rightarrow> path_ctxt \<Rightarrow> block_index \<Rightarrow> cfg_method \<Rightarrow> expire_block \<Rightarrow> string option \<Rightarrow>
   path_ctxt \<Rightarrow> fold_unfold \<Rightarrow> failure + stmt list \<times> path_ctxt \<times> fold_unfold" where
  "process_node P rec surrounding_pctxt blk new_cfg curr_block label pctxt fu =
     (let curr_node = eb_node curr_block in
      bindE (foldE (\<lambda>(stmt_index, stmt). replace_into rec blk new_cfg label stmt_index stmt)
              (List.enumerate 0 (nd_stmts curr_node)) (eb_statements curr_block, pctxt, fu)) (\<lambda>acc.
      bindE (get_duplicated_read_permissions (pc_log surrounding_pctxt) (nd_borrow curr_node)) (\<lambda>duplicated_perms.
      bindE (foldE (exhale_duplicated P rec blk new_cfg label (nd_place curr_node)) duplicated_perms acc)
        (\<lambda>(stmts, pctxt, fu).
      let pctxt = mark_moved duplicated_perms pctxt in
      if nd_alive_conflicting_borrows curr_node = [] then
        bindE (restore_all_write P (nd_conflicting_borrows curr_node @ [nd_borrow curr_node]) (stmts, pctxt))
          (\<lambda>(stmts, pctxt). Inr (stmts, pctxt, fu))
      else Inr (stmts, pctxt, fu)))))"

definition process_block ::
  "fold_unfold_params \<Rightarrow> replace_fn \<Rightarrow> stmt dag \<Rightarrow> path_ctxt \<Rightarrow> block_index \<Rightarrow> cfg_method \<Rightarrow> string option \<Rightarrow> nat \<Rightarrow>
   expire_cfg \<times> path_ctxt option list \<times> fold_unfold \<Rightarrow> failure + expire_cfg \<times> path_ctxt option list \<times> fold_unfold" where
  "process_block P rec dag surrounding_pctxt blk new_cfg label curr_index acc =
     (case acc of (cfg, final_pctxt, fu) \<Rightarrow>
        bindE (if eb_predecessors (ec_basic_blocks cfg ! curr_index) = [] then
                 bindE (construct_initial_pctxt_no_predecessors P fu dag (ec_basic_blocks cfg ! curr_index)
                         surrounding_pctxt blk new_cfg) (\<lambda>(pctxt, pre_statements).
                 Inr (pctxt, push_stmts curr_index pre_statements cfg))
               else
                 construct_initial_pctxt_with_predecessors P fu dag cfg surrounding_pctxt blk new_cfg curr_index
                   final_pctxt) (\<lambda>(pctxt, cfg).
        bindE (process_node P rec surrounding_pctxt blk new_cfg (ec_basic_blocks cfg ! curr_index) label pctxt fu)
          (\<lambda>(stmts, pctxt, fu).
        Inr (cfg\<lparr>ec_basic_blocks := (ec_basic_blocks cfg)[curr_index :=
               (ec_basic_blocks cfg ! curr_index)\<lparr>eb_statements := stmts\<rparr>]\<rparr>,
             final_pctxt[curr_index := Some pctxt], fu))))"

definition process_expire_borrows ::
  "fold_unfold_params \<Rightarrow> replace_fn \<Rightarrow> stmt dag \<Rightarrow> path_ctxt \<Rightarrow> block_index \<Rightarrow> cfg_method \<Rightarrow> string option \<Rightarrow>
   fold_unfold \<Rightarrow> failure + stmt list \<times> path_ctxt \<times> fold_unfold" where
  "process_expire_borrows P rec dag surrounding_pctxt blk new_cfg label fu =
     bindE (build_initial_cfg P dag) (\<lambda>cfg.
     let n = length (ec_basic_blocks cfg) in
     bindE (foldE (process_block P rec dag surrounding_pctxt blk new_cfg label) [0..<n]
             (cfg, replicate n None, fu)) (\<lambda>(cfg, final_pctxt, fu).
     bindE (construct_final_pctxt P dag cfg final_pctxt) (\<lambda>(pctxt, cfg).
     bindE (generate_final_statements cfg label) (\<lambda>stmts.
     Inr (stmts, pctxt, fu)))))"

subsection \<open>Replacing a statement\<close>

fun wand_lhs_of :: "stmt \<Rightarrow> expr option" where
  "wand_lhs_of (SPackageMagicWand (EMagicWand lhs _ _ _) _ _ _ _) = Some lhs"
| "wand_lhs_of (SApplyMagicWand (EMagicWand lhs _ _ _) _) = Some lhs"
| "wand_lhs_of (SInhale (EMagicWand lhs _ _ _)) = Some lhs"
| "wand_lhs_of _ = None"

definition store_label :: "string \<Rightarrow> path_ctxt \<Rightarrow> fold_unfold \<Rightarrow> failure + fold_unfold" where
  "store_label label pctxt fu =
     bindE (state_replace_places (\<lambda>place. Inr (expr_old place label)) (pc_state pctxt)) (\<lambda>st.
     Inr (fu\<lparr>fu_pctxt_at_label := (fu_pctxt_at_label fu)(label \<mapsto> pctxt\<lparr>pc_state := st\<rparr>)\<rparr>))"

definition store_lhs :: "fold_unfold_params \<Rightarrow> stmt \<Rightarrow> path_ctxt \<Rightarrow> fold_unfold \<Rightarrow> failure + fold_unfold" where
  "store_lhs P stmt pctxt fu =
     (case wand_lhs_of stmt of
        None \<Rightarrow> Inr fu
      | Some lhs \<Rightarrow>
          bindE (remove_all (pc_state pctxt)) (\<lambda>st.
          bindE (apply_on_state (fe_rx (fp_env P)) (fe_preds (fp_env P)) (SInhale lhs) st) (\<lambda>st.
          bindE (case lhs of
                   EPredicateAccessPredicate _ arg perm_amount _ \<Rightarrow> insert_acc st arg perm_amount
                 | _ \<Rightarrow> Inr st) (\<lambda>st.
          store_label ''lhs'' (pctxt\<lparr>pc_state := st\<rparr>) fu))))"

definition select_perms :: "perm list \<Rightarrow> perm list" where
  "select_perms all_perms =
     (let pred_permissions = filter is_pred all_perms;
          acc_permissions = filter (\<lambda>p. is_acc p \<and>
            (perm_is_curr p \<or> list_ex (\<lambda>pred_p. expr_eq (get_place pred_p) (get_place p)) pred_permissions)) all_perms
      in acc_permissions @ pred_permissions)"

definition obtain_required ::
  "fold_unfold_params \<Rightarrow> stmt \<Rightarrow> bool \<Rightarrow> string option \<Rightarrow> path_ctxt \<Rightarrow> failure + stmt list \<times> path_ctxt" where
  "obtain_required P stmt is_last_before_return label pctxt =
     bindE (stmt_required (fe_rx (fp_env P)) (fe_preds (fp_env P)) (fe_old_exprs (fp_env P)) stmt) (\<lambda>all_perms.
     let perms = select_perms all_perms in
     if perms = [] then Inr ([], pctxt)
     else
       bindE (ctxt_obtain P perms pctxt) (\<lambda>(stmts, pctxt).
       if fp_check_foldunfold_state P \<and> \<not> is_last_before_return \<and> label = None then
         bindE (assert_state pctxt) (\<lambda>check. Inr (stmts @ check, pctxt))
       else Inr (stmts, pctxt)))"

definition replace_all ::
  "replace_fn \<Rightarrow> nat \<Rightarrow> block_index \<Rightarrow> cfg_method \<Rightarrow> string option \<Rightarrow> stmt list \<Rightarrow> path_ctxt \<Rightarrow> fold_unfold \<Rightarrow>
   failure + stmt list \<times> path_ctxt \<times> fold_unfold" where
  "replace_all rec stmt_index blk new_cfg label stmts pctxt fu =
     foldE (replace_into rec blk new_cfg label stmt_index) stmts ([], pctxt, fu)"

definition replace_package ::
  "replace_fn \<Rightarrow> nat \<Rightarrow> block_index \<Rightarrow> cfg_method \<Rightarrow> stmt \<Rightarrow> path_ctxt \<Rightarrow> fold_unfold \<Rightarrow> failure + stmt \<times> fold_unfold" where
  "replace_package rec stmt_index blk new_cfg stmt pctxt fu =
     (case stmt of
        SPackageMagicWand (EMagicWand lhs rhs _ _) old_package_stmts label vars pos \<Rightarrow>
          bindE (replace_all rec stmt_index blk new_cfg (Some label) old_package_stmts pctxt fu)
            (\<lambda>(package_stmts, _, fu).
          Inr (stmt_package_magic_wand lhs rhs package_stmts label vars pos, fu))
      | _ \<Rightarrow> Inr (stmt, fu))"

definition apply_replaced ::
  "fold_unfold_params \<Rightarrow> replace_fn \<Rightarrow> nat \<Rightarrow> block_index \<Rightarrow> cfg_method \<Rightarrow> stmt \<Rightarrow> path_ctxt \<Rightarrow> fold_unfold \<Rightarrow>
   failure + stmt \<times> path_ctxt \<times> fold_unfold" where
  "apply_replaced P rec stmt_index blk new_cfg stmt pctxt fu =
     (case stmt of
        SIf cond then_stmts else_stmts \<Rightarrow>
          bindE (replace_all rec stmt_index blk new_cfg None then_stmts pctxt fu) (\<lambda>(then_stmts, then_pctxt, fu).
          bindE (replace_all rec stmt_index blk new_cfg None else_stmts pctxt fu) (\<lambda>(else_stmts, else_pctxt, fu).
          bindE (prepend_join (fp_env P) [then_pctxt, else_pctxt]) (\<lambda>(join_actions, joined_pctxt).
          bindE (require (1 < length join_actions)) (\<lambda>_.
          bindE (perform_prejoin_action joined_pctxt blk (join_actions ! 1) fu) (\<lambda>(else_join, joined_pctxt, fu).
          bindE (perform_prejoin_action joined_pctxt blk (join_actions ! 0) fu) (\<lambda>(then_join, joined_pctxt, fu).
          Inr (SIf cond (then_stmts @ then_join) (else_stmts @ else_join), joined_pctxt, fu)))))))
      | _ \<Rightarrow> bindE (ctxt_apply P stmt pctxt) (\<lambda>pctxt. Inr (stmt, pctxt, fu)))"

definition recombine ::
  "replace_fn \<Rightarrow> nat \<Rightarrow> block_index \<Rightarrow> cfg_method \<Rightarrow> string option \<Rightarrow> stmt \<Rightarrow> stmt list \<times> path_ctxt \<times> fold_unfold \<Rightarrow>
   failure + stmt list \<times> path_ctxt \<times> fold_unfold" where
  "recombine rec stmt_index blk new_cfg label stmt acc =
     (case stmt of
        SInhale e \<Rightarrow>
          (let inhaled_places = extract_predicate_places e Read in
           bindE (filterE (\<lambda>(place, perm).
               if perm = Remaining then anyE (\<lambda>ip. place_prefix place ip) inhaled_places else Inr False)
             (st_pred (pc_state (fst (snd acc))))) (\<lambda>restorable.
           foldE (\<lambda>(place, _) acc.
               bindE (unwrap (pred_permission place Read)) (\<lambda>perm_opt.
               bindE (unwrap perm_opt) (\<lambda>perm.
               replace_into rec blk new_cfg label stmt_index (SObtain perm position_default) acc)))
             restorable acc))
      | _ \<Rightarrow> Inr acc)"

subsubsection \<open>Shared borrows\<close>

definition depth_cmp :: "(expr \<times> perm_amount) \<times> nat \<Rightarrow> (expr \<times> perm_amount) \<times> nat \<Rightarrow> failure + cmp_ordering" where
  "depth_cmp a b =
     bindE (unwrap (place_depth (fst (fst a)))) (\<lambda>d1.
     bindE (unwrap (place_depth (fst (fst b)))) (\<lambda>d2.
     Inr (cmp_pair (d1, snd a) (d2, snd b))))"

definition borrowed_entries :: "(expr \<Rightarrow> bool) \<Rightarrow> expr \<Rightarrow> place_perms \<Rightarrow> failure + place_perms" where
  "borrowed_entries keep rhs_place m =
     filterE (\<lambda>(place, perm_amount).
       bindE (require (is_valid_for_specs perm_amount)) (\<lambda>_.
       bindE (place_prefix place rhs_place) (\<lambda>b. Inr (b \<and> keep place)))) m"

text \<open>The conversion of one place: give up the rest of a write permission, copy read permission.\<close>

definition share_place ::
  "fold_unfold_params \<Rightarrow> borrow \<Rightarrow> expr \<Rightarrow> expr \<Rightarrow> perm_amount \<Rightarrow> expr \<Rightarrow> (expr \<Rightarrow> expr) \<Rightarrow> expr \<Rightarrow>
   stmt list \<times> path_ctxt \<Rightarrow> failure + stmt list \<times> path_ctxt" where
  "share_place P b lhs_place rhs_place perm_amount remaining_access read_access place acc =
     (case acc of (stmts, pctxt) \<Rightarrow>
        bindE (if perm_amount = Write then
                 bindE (log_convertion_to_read (pc_log pctxt) b remaining_access) (\<lambda>lg.
                 let stmt = SExhale remaining_access (fp_method_pos P) in
                 bindE (ctxt_apply P stmt (pctxt\<lparr>pc_log := lg\<rparr>)) (\<lambda>pctxt.
                 Inr (stmts @ [stmt], pctxt)))
               else Inr (stmts, pctxt)) (\<lambda>(stmts, pctxt).
        bindE (to_panic (replace_place (fe_rx (fp_env P)) place rhs_place lhs_place)) (\<lambda>new_place.
        let lhs_read_access = read_access new_place;
            lg = log_read_permission_duplication (pc_log pctxt) b lhs_read_access lhs_place;
            stmt = SInhale lhs_read_access in
        bindE (ctxt_apply P stmt (pctxt\<lparr>pc_log := lg\<rparr>)) (\<lambda>pctxt.
        Inr (stmts @ [stmt], pctxt)))))"

definition share_acc ::
  "fold_unfold_params \<Rightarrow> borrow \<Rightarrow> expr \<Rightarrow> expr \<Rightarrow> (expr \<times> perm_amount) \<times> nat \<Rightarrow> stmt list \<times> path_ctxt \<Rightarrow>
   failure + stmt list \<times> path_ctxt" where
  "share_acc P b lhs_place rhs_place entry acc =
     (case entry of ((place, perm_amount), _) \<Rightarrow>
        if expr_eq rhs_place place \<and> hm_get expr_eq (st_acc (pc_state (snd acc))) lhs_place = Some Write
        then Inr acc
        else
          share_place P b lhs_place rhs_place perm_amount
            (EFieldAccessPredicate place Remaining position_default)
            (\<lambda>new_place. EFieldAccessPredicate new_place Read position_default) place acc)"

definition share_pred ::
  "fold_unfold_params \<Rightarrow> borrow \<Rightarrow> expr \<Rightarrow> expr \<Rightarrow> expr \<times> perm_amount \<Rightarrow> stmt list \<times> path_ctxt \<Rightarrow>
   failure + stmt list \<times> path_ctxt" where
  "share_pred P b lhs_place rhs_place entry acc =
     (case entry of (place, perm_amount) \<Rightarrow>
        bindE (unwrap (expr_typed_ref_name place)) (\<lambda>name_opt.
        bindE (unwrap name_opt) (\<lambda>predicate_name.
        share_place P b lhs_place rhs_place perm_amount
          (EPredicateAccessPredicate predicate_name place Remaining (expr_pos place))
          (\<lambda>new_place. EPredicateAccessPredicate predicate_name new_place Read position_default) place acc)))"

definition handle_shared_borrow ::
  "fold_unfold_params \<Rightarrow> stmt \<Rightarrow> stmt list \<times> path_ctxt \<Rightarrow> failure + stmt list \<times> path_ctxt" where
  "handle_shared_borrow P stmt acc =
     (case stmt of
        SAssign lhs_place rhs_place (SharedBorrow b) \<Rightarrow>
          bindE (borrowed_entries (\<lambda>place. \<not> is_local place) rhs_place (st_acc (pc_state (snd acc)))) (\<lambda>acc_perms.
          bindE (sort_by depth_cmp (zip acc_perms [1..<Suc (length acc_perms)])) (\<lambda>acc_perms.
          bindE (foldE (share_acc P b lhs_place rhs_place) acc_perms acc) (\<lambda>acc.
          bindE (borrowed_entries (\<lambda>_. True) rhs_place (st_pred (pc_state (snd acc)))) (\<lambda>pred_perms.
          foldE (share_pred P b lhs_place rhs_place) pred_perms acc))))
      | _ \<Rightarrow> Inr acc)"

subsubsection \<open>All steps\<close>

definition finish_labels :: "stmt \<Rightarrow> path_ctxt \<Rightarrow> fold_unfold \<Rightarrow> failure + fold_unfold" where
  "finish_labels stmt pctxt fu =
     bindE (case stmt of SLabel label \<Rightarrow> store_label label pctxt fu | _ \<Rightarrow> Inr fu) (\<lambda>fu.
     Inr (fu\<lparr>fu_pctxt_at_label := (fu_pctxt_at_label fu)(''lhs'' := None)\<rparr>))"

definition replace_other_stmt :: "fold_unfold_params \<Rightarrow> replace_fn \<Rightarrow> replace_fn" where
  "replace_other_stmt P rec stmt_index stmt is_last_before_return pctxt blk new_cfg label fu =
     bindE (store_lhs P stmt pctxt fu) (\<lambda>fu.
     bindE (rewrite_stmt_with_unfoldings_in_old P fu pctxt stmt) (\<lambda>stmt.
     bindE (obtain_required P stmt is_last_before_return label pctxt) (\<lambda>(stmts, pctxt).
     bindE (replace_package rec stmt_index blk new_cfg stmt pctxt fu) (\<lambda>(stmt, fu).
     bindE (rewrite_stmt_with_unfoldings P fu pctxt stmt) (\<lambda>stmt.
     bindE (apply_replaced P rec stmt_index blk new_cfg stmt pctxt fu) (\<lambda>(stmt, pctxt, fu).
     bindE (recombine rec stmt_index blk new_cfg label stmt (stmts @ [stmt], pctxt, fu)) (\<lambda>(stmts, pctxt, fu).
     bindE (handle_shared_borrow P stmt (stmts, pctxt)) (\<lambda>(stmts, pctxt).
     bindE (finish_labels stmt pctxt fu) (\<lambda>fu.
     Inr (stmts, pctxt, fu))))))))))"

fun replace_stmt :: "fold_unfold_params \<Rightarrow> nat \<Rightarrow> replace_fn" where
  "replace_stmt P 0 stmt_index stmt is_last pctxt blk new_cfg label fu = Inl NoFuel"
| "replace_stmt P (Suc fuel) stmt_index stmt is_last pctxt blk new_cfg label fu =
     (case stmt of
        SExpireBorrows dag \<Rightarrow>
          bindE (process_expire_borrows P (replace_stmt P fuel) dag pctxt blk new_cfg label fu) (\<lambda>(stmts, pctxt, fu).
          Inr (SComment (fp_show_stmt P stmt) # stmts, pctxt, fu))
      | _ \<Rightarrow> replace_other_stmt P (replace_stmt P fuel) stmt_index stmt is_last pctxt blk new_cfg label fu)"

subsection \<open>Replacing a successor and a method\<close>

definition fu_replace_successor ::
  "fold_unfold_params \<Rightarrow> successor \<Rightarrow> path_ctxt \<Rightarrow> fold_unfold \<Rightarrow> failure + (stmt list \<times> successor) \<times> path_ctxt \<times> fold_unfold" where
  "fu_replace_successor P succ pctxt fu =
     bindE (mapE (expr_required (fe_rx (fp_env P)) (fe_preds (fp_env P))) (successor_guards succ)) (\<lambda>reqs.
     bindE (case group_by_label (concat reqs) None of
              None \<Rightarrow> Inr ([], pctxt)
            | Some perms \<Rightarrow>
                bindE (ctxt_obtain P perms pctxt) (\<lambda>(stmts, pctxt).
                if fp_check_foldunfold_state P then
                  bindE (assert_state pctxt) (\<lambda>check. Inr (stmts @ check, pctxt))
                else Inr (stmts, pctxt))) (\<lambda>(stmts, pctxt).
     bindE (case succ of
              SuccGotoSwitch guarded_targets default_target \<Rightarrow>
                bindE (mapE (\<lambda>(cond, targ). bindE (replace_with P fu False pctxt cond) (\<lambda>e. Inr (e, targ))) guarded_targets)
                  (\<lambda>guarded. Inr (SuccGotoSwitch guarded default_target))
            | _ \<Rightarrow> Inr succ) (\<lambda>new_succ.
     Inr ((stmts, new_succ), pctxt, fu))))"

definition fold_unfold_replacer ::
  "fold_unfold_params \<Rightarrow> nat \<Rightarrow> (path_ctxt, fold_unfold, action list) replacer" where
  "fold_unfold_replacer P fuel =
     \<lparr>rp_check_compatible_back_edge = (\<lambda>_ _. Inr ()),
      rp_initial_context = (\<lambda>fu. Inr (fp_initial_pctxt P, fu)),
      rp_replace_stmt = replace_stmt P fuel,
      rp_replace_successor = fu_replace_successor P,
      rp_prepend_join = (\<lambda>cs fu. bindE (prepend_join (fp_env P) cs) (\<lambda>r. Inr (r, fu))),
      rp_perform_prejoin_action = perform_prejoin_action,
      rp_is_noop = (\<lambda>actions. actions = [])\<rparr>"

function old_expr_walk :: "expr \<Rightarrow> (string \<Rightarrow> expr list option) \<Rightarrow> string \<Rightarrow> expr list option" where
  "old_expr_walk e m =
     (case e of
        ELabelledOld label body _ \<Rightarrow>
          old_expr_walk body (m(label \<mapsto> (case m label of Some es \<Rightarrow> es | None \<Rightarrow> []) @ [body]))
      | _ \<Rightarrow> default_walk_expr old_expr_walk (\<lambda>_ s. s) e m)"
  by pat_completeness auto
termination by (relation "measure (size \<circ> fst)") (auto simp: children_size)

declare old_expr_walk.simps [simp del]

definition add_fold_unfold ::
  "bool \<Rightarrow> bool \<Rightarrow> regex_ops \<Rightarrow> predicates \<Rightarrow> nat \<Rightarrow> nat \<Rightarrow> cfg_method \<Rightarrow> (borrow \<Rightarrow> nat option) \<Rightarrow>
   (nat \<Rightarrow> block_index list option) \<Rightarrow> position \<Rightarrow> (stmt \<Rightarrow> string) \<Rightarrow> (borrow \<Rightarrow> string) \<Rightarrow> failure + cfg_method" where
  "add_fold_unfold debug check_state rx preds fuel uuid cfg borrow_locations cfg_map method_pos show_stmt show_borrow =
     (let env = \<lparr>fe_debug = debug, fe_rx = rx, fe_preds = preds,
                 fe_old_exprs = walk_expressions cfg old_expr_walk Map.empty, fe_fuel = fuel\<rparr>;
          P = \<lparr>fp_env = env, fp_check_foldunfold_state = check_state, fp_cfg = cfg,
               fp_borrow_locations = borrow_locations, fp_cfg_map = cfg_map, fp_method_pos = method_pos,
               fp_initial_pctxt = path_ctxt_new (get_all_vars cfg), fp_show_stmt = show_stmt,
               fp_show_borrow = show_borrow\<rparr> in
      bindE (replace_cfg (fold_unfold_replacer P fuel) uuid cfg
              \<lparr>fu_pctxt_at_label = Map.empty, fu_action_store = []\<rparr>) (\<lambda>(new_cfg, _).
      Inr new_cfg))"

subsection \<open>Only ghost code is added\<close>

text \<open>
  The erasure of a statement drops comments, folds, unfolds and obtains, and the unfoldings in its
  expressions.  Statements that expire borrows, package wands or create shared borrows add inhales and
  exhales of their own; the plain statements are all others.
\<close>

fun erase_ghost :: "stmt \<Rightarrow> stmt list" where
  "erase_ghost (SComment _) = []"
| "erase_ghost (SFold _ _ _ _ _) = []"
| "erase_ghost (SUnfold _ _ _ _) = []"
| "erase_ghost (SObtain _ _) = []"
| "erase_ghost (SIf g t e) = [SIf (strip g) (concat (map erase_ghost t)) (concat (map erase_ghost e))]"
| "erase_ghost s = [map_expr strip s]"

fun plain :: "stmt \<Rightarrow> bool" where
  "plain (SExpireBorrows _) = False"
| "plain (SPackageMagicWand _ _ _ _ _) = False"
| "plain (SAssign _ _ (SharedBorrow _)) = False"
| "plain (SIf _ t e) = (list_all plain t \<and> list_all plain e)"
| "plain _ = True"

abbreviation erase_all :: "stmt list \<Rightarrow> stmt list" where
  "erase_all ss \<equiv> concat (map erase_ghost ss)"

definition keeps_strip :: "(expr \<Rightarrow> failure + expr) \<Rightarrow> bool" where
  "keeps_strip f \<longleftrightarrow> (\<forall>e e'. f e = Inr e' \<longrightarrow> strip e' = strip e)"

lemma keeps_stripD: "keeps_strip f \<Longrightarrow> f e = Inr e' \<Longrightarrow> strip e' = strip e"
  by (simp add: keeps_strip_def)

lemma keeps_strip_list: "keeps_strip f \<Longrightarrow> mapE f es = Inr es' \<Longrightarrow> map strip es' = map strip es"
  unfolding mapE_Inr_iff by (rotate_tac, induction rule: list_all2_induct) (auto dest: keeps_stripD)

lemma mapE_erase:
  assumes "mapE f ss = Inr ss'" "\<And>s s'. s \<in> set ss \<Longrightarrow> f s = Inr s' \<Longrightarrow> erase_ghost s' = erase_ghost s \<and> plain s'"
  shows "erase_all ss' = erase_all ss \<and> list_all plain ss'"
  using assms
proof (induction ss arbitrary: ss')
  case (Cons s ss)
  from Cons.prems(1) obtain t ts where "f s = Inr t" "mapE f ss = Inr ts" "ss' = t # ts"
    by (auto split: sum.splits)
  moreover have "erase_all ts = erase_all ss \<and> list_all plain ts"
    using \<open>mapE f ss = Inr ts\<close> by (rule Cons.IH) (rule Cons.prems(2), auto)
  ultimately show ?case using Cons.prems(2) [of s t] by simp
qed simp

lemma fallible_map_expr_erase:
  assumes "keeps_strip f" "fallible_map_expr f s = Inr s'" "plain s"
  shows "erase_ghost s' = erase_ghost s \<and> plain s'"
  using assms
proof (induction f s arbitrary: s' rule: fallible_map_expr.induct)
  case (7 f a b k)
  then show ?case by (cases k) (auto simp: map2E_Inr_iff dest: keeps_stripD)
next
  case (17 f g t e)
  then obtain g' ts es where b: "f g = Inr g'" "mapE (fallible_map_expr f) t = Inr ts"
      "mapE (fallible_map_expr f) e = Inr es" "s' = SIf g' ts es"
    by (auto simp: map2E_Inr_iff)
  have "erase_all ts = erase_all t \<and> list_all plain ts"
    using 17 by (intro mapE_erase [OF b(2)]) (auto simp: list_all_iff)
  moreover have "erase_all es = erase_all e \<and> list_all plain es"
    using 17 by (intro mapE_erase [OF b(3)]) (auto simp: list_all_iff)
  ultimately show ?case using b(1,4) "17.prems"(1) by (auto dest: keeps_stripD)
qed (auto simp: map2E_Inr_iff map_sum_Inr_iff dest: keeps_stripD keeps_strip_list)

lemma keeps_strip_replace [simp]: "keeps_strip (replace_with P fu w pctxt)"
  by (auto simp: keeps_strip_def replace_with_def replace_expr_def fallible_simps dest: replace_in_expr_strip)

lemma rewrite_erase:
  assumes "rewrite_stmt_with_unfoldings P fu pctxt stmt = Inr stmt'" "plain stmt"
  shows "erase_ghost stmt' = erase_ghost stmt \<and> plain stmt'"
  using assms
proof (induction P fu pctxt stmt rule: rewrite_stmt_with_unfoldings.induct)
  case (1 P fu pctxt e)
  then show ?case by (auto simp: fallible_simps dest: keeps_stripD [OF keeps_strip_replace])
next
  case (2 P fu pctxt a b u)
  then show ?case by (auto simp: fallible_simps dest: keeps_stripD [OF keeps_strip_replace] split: if_splits)
next
  case (3 P fu pctxt wand stmts label vars pos)
  then show ?case by simp
qed (auto simp: fallible_simps simp del: fallible_map_expr.simps plain.simps erase_ghost.simps
  dest!: fallible_map_expr_erase [OF keeps_strip_replace])

lemma to_stmt_erase: "to_stmt a = Some s \<Longrightarrow> erase_ghost s = []"
  by (cases a) (auto simp: app2O_def split: option.splits)

lemma ctxt_obtain_erase: "ctxt_obtain P perms pctxt = Inr (stmts, pctxt') \<Longrightarrow> erase_all stmts = []"
  by (auto simp: ctxt_obtain_def action_stmts_def fallible_simps mapE_Inr_iff list_all2_conv_all_nth in_set_conv_nth
    dest!: to_stmt_erase)

lemma perform_prejoin_action_erase:
  assumes "perform_prejoin_action pctxt blk actions fu = Inr (stmts, pctxt', fu')"
  shows "erase_all stmts = []"
proof -
  have "erase_all (fst (stmts, pctxt', fu')) = []"
    by (rule foldE_invariant [OF assms [unfolded perform_prejoin_action_def], where I = "\<lambda>u. erase_all (fst u) = []"])
      (auto simp: fallible_simps case_prod_unfold dest: to_stmt_erase)
  then show ?thesis by simp
qed

lemma obtain_required_erase:
  "obtain_required P stmt is_last label pctxt = Inr (stmts, pctxt') \<Longrightarrow> \<not> fp_check_foldunfold_state P \<Longrightarrow>
   erase_all stmts = []"
  by (auto simp: obtain_required_def fallible_simps Let_def simp del: concat_eq_Nil_conv
    dest: ctxt_obtain_erase split: if_splits)

lemma replace_package_plain: "plain stmt \<Longrightarrow> replace_package rec i blk m stmt pctxt fu = Inr (stmt, fu)"
  by (cases stmt) (simp_all add: replace_package_def)

lemma handle_shared_borrow_plain: "plain stmt \<Longrightarrow> handle_shared_borrow P stmt acc = Inr acc"
  by (cases stmt rule: plain.cases) (simp_all add: handle_shared_borrow_def)

text \<open>What the recursive calls promise.\<close>

definition keeps_erasure :: "replace_fn \<Rightarrow> bool" where
  "keeps_erasure rec \<longleftrightarrow> (\<forall>i stmt is_last pctxt blk m label fu out pctxt' fu'. plain stmt \<longrightarrow>
     rec i stmt is_last pctxt blk m label fu = Inr (out, pctxt', fu') \<longrightarrow> erase_all out = erase_ghost stmt)"

lemma keeps_erasureD:
  "keeps_erasure rec \<Longrightarrow> plain stmt \<Longrightarrow> rec i stmt is_last pctxt blk m label fu = Inr (out, pctxt', fu') \<Longrightarrow>
   erase_all out = erase_ghost stmt"
  unfolding keeps_erasure_def by blast

lemma replace_into_erase:
  "keeps_erasure rec \<Longrightarrow> plain stmt \<Longrightarrow> replace_into rec blk m label i stmt acc = Inr (out, pctxt, fu) \<Longrightarrow>
   erase_all out = erase_all (fst acc) @ erase_ghost stmt"
  by (cases acc) (auto simp: replace_into_def fallible_simps simp del: concat_eq_Nil_conv dest: keeps_erasureD)

lemma replace_all_erase:
  assumes rec: "keeps_erasure rec" and "list_all plain ss" "replace_all rec i blk m label ss pctxt fu = Inr (out, pctxt', fu')"
  shows "erase_all out = erase_all ss"
proof -
  have "foldE (replace_into rec blk m label i) ss acc = Inr (out, pctxt', fu') \<Longrightarrow> list_all plain ss \<Longrightarrow>
      erase_all out = erase_all (fst acc) @ erase_all ss" for acc
  proof (induction ss arbitrary: acc)
    case (Cons s ss)
    from Cons.prems(1) obtain acc1 where acc1: "replace_into rec blk m label i s acc = Inr acc1"
        "foldE (replace_into rec blk m label i) ss acc1 = Inr (out, pctxt', fu')"
      by (auto simp: fallible_simps)
    have "erase_all (fst acc1) = erase_all (fst acc) @ erase_ghost s"
      using replace_into_erase [OF rec, of s blk m label i acc "fst acc1" "fst (snd acc1)" "snd (snd acc1)"]
        acc1(1) Cons.prems(2) by simp
    then show ?case using Cons.IH [OF acc1(2)] Cons.prems(2) by simp
  qed simp
  then show ?thesis using assms(2,3) by (simp add: replace_all_def)
qed

lemma apply_replaced_if_erase:
  assumes rec: "keeps_erasure rec" and pl: "list_all plain t" "list_all plain e"
    and run: "apply_replaced P rec i blk m (SIf c t e) pctxt fu = Inr (stmt', pctxt', fu')"
  shows "erase_ghost stmt' = erase_ghost (SIf c t e) \<and> (\<exists>t' e'. stmt' = SIf c t' e')"
proof -
  from run obtain t' p1 fu1 e' p2 fu2 acts p3 ej p4 fu4 tj where steps:
      "replace_all rec i blk m None t pctxt fu = Inr (t', p1, fu1)"
      "replace_all rec i blk m None e pctxt fu1 = Inr (e', p2, fu2)"
      "perform_prejoin_action p3 blk (acts ! 1) fu2 = Inr (ej, p4, fu4)"
      "perform_prejoin_action p4 blk (acts ! 0) fu4 = Inr (tj, pctxt', fu')"
      "stmt' = SIf c (t' @ tj) (e' @ ej)"
    by (auto simp: apply_replaced_def fallible_simps simp del: prepend_join.simps)
  then show ?thesis
    using replace_all_erase [OF rec pl(1) steps(1)] replace_all_erase [OF rec pl(2) steps(2)]
      perform_prejoin_action_erase [OF steps(3)] perform_prejoin_action_erase [OF steps(4)] by simp
qed

lemma apply_replaced_erase:
  assumes "keeps_erasure rec" "plain stmt" "apply_replaced P rec i blk m stmt pctxt fu = Inr (stmt', pctxt', fu')"
  shows "erase_ghost stmt' = erase_ghost stmt \<and> (stmt' = stmt \<or> (\<exists>c t e. stmt' = SIf c t e))"
proof (cases "\<exists>c t e. stmt = SIf c t e")
  case False
  then show ?thesis using assms(3) by (cases stmt) (auto simp: apply_replaced_def fallible_simps)
next
  case True
  then obtain c t e where s: "stmt = SIf c t e" by (elim exE)
  then show ?thesis using apply_replaced_if_erase [OF assms(1), of t e P i blk m c pctxt fu] assms(2,3) by auto
qed

lemma recombine_erase:
  assumes rec: "keeps_erasure rec" and run: "recombine rec i blk m label stmt acc = Inr (out, pctxt, fu)"
  shows "erase_all out = erase_all (fst acc)"
proof (cases "\<exists>e. stmt = SInhale e")
  case False
  then have "recombine rec i blk m label stmt acc = Inr acc" by (cases stmt) (simp_all add: recombine_def)
  then show ?thesis using run by auto
next
  case True
  then obtain e and restorable :: place_perms where fold: "foldE (\<lambda>(place, _) acc.
      bindE (unwrap (pred_permission place Read)) (\<lambda>perm_opt. bindE (unwrap perm_opt) (\<lambda>perm.
      replace_into rec blk m label i (SObtain perm position_default) acc))) restorable acc = Inr (out, pctxt, fu)"
    using run by (auto simp: recombine_def Let_def bindE_Inr_iff)
  have "erase_all (fst (out, pctxt, fu)) = erase_all (fst acc)"
  proof (rule foldE_invariant [OF fold, where I = "\<lambda>u. erase_all (fst u) = erase_all (fst acc)"])
    fix x u v
    assume u: "erase_all (fst u) = erase_all (fst acc)"
      and step: "(\<lambda>(place, _) acc. bindE (unwrap (pred_permission place Read)) (\<lambda>perm_opt. bindE (unwrap perm_opt)
        (\<lambda>perm. replace_into rec blk m label i (SObtain perm position_default) acc))) x u = Inr v"
    then obtain perm where "replace_into rec blk m label i (SObtain perm position_default) u = Inr v"
      by (auto simp: fallible_simps case_prod_unfold)
    then have "erase_all (fst v) = erase_all (fst u)"
      using replace_into_erase [OF rec, of "SObtain perm position_default" blk m label i u "fst v" "fst (snd v)" "snd (snd v)"]
      by simp
    then show "erase_all (fst v) = erase_all (fst acc)" using u by simp
  qed simp
  then show ?thesis by simp
qed

lemma replace_other_stmt_erase:
  assumes rec: "keeps_erasure rec" and "\<not> fp_check_foldunfold_state P" "plain stmt"
    and run: "replace_other_stmt P rec i stmt is_last pctxt blk m label fu = Inr (out, pctxt', fu')"
  shows "erase_all out = erase_ghost stmt"
proof -
  from run obtain fu1 s1 pre p1 s2 fu2 s3 s4 p2 fu3 ss p3 fu4 where steps:
      "rewrite_stmt_with_unfoldings_in_old P fu1 pctxt stmt = Inr s1"
      "obtain_required P s1 is_last label pctxt = Inr (pre, p1)"
      "replace_package rec i blk m s1 p1 fu1 = Inr (s2, fu2)"
      "rewrite_stmt_with_unfoldings P fu2 p1 s2 = Inr s3"
      "apply_replaced P rec i blk m s3 p1 fu2 = Inr (s4, p2, fu3)"
      "recombine rec i blk m label s4 (pre @ [s4], p2, fu3) = Inr (ss, p3, fu4)"
      "handle_shared_borrow P s4 (ss, p3) = Inr (out, pctxt')"
    by (auto simp: replace_other_stmt_def fallible_simps)
  have s1: "erase_ghost s1 = erase_ghost stmt \<and> plain s1"
    using steps(1) assms(3) fallible_map_expr_erase [OF keeps_strip_replace]
    by (auto simp: rewrite_stmt_with_unfoldings_in_old_def)
  then have "s2 = s1" using steps(3) replace_package_plain by simp
  then have s3: "erase_ghost s3 = erase_ghost stmt \<and> plain s3" using rewrite_erase [OF steps(4)] s1 by simp
  note s4 = apply_replaced_erase [OF rec conjunct2 [OF s3] steps(5)]
  then have "out = ss"
    using steps(7) s3 handle_shared_borrow_plain [of s4 P "(ss, p3)"] by (auto simp: handle_shared_borrow_def)
  moreover have "erase_all ss = erase_ghost s4"
    using recombine_erase [OF rec steps(6)] obtain_required_erase [OF steps(2) assms(2)] by simp
  ultimately show ?thesis using s3 s4 by simp
qed

lemma replace_stmt_erase: "\<not> fp_check_foldunfold_state P \<Longrightarrow> keeps_erasure (replace_stmt P fuel)"
proof (induction fuel)
  case (Suc fuel)
  show ?case
    unfolding keeps_erasure_def
  proof (intro allI impI)
    fix i stmt is_last pctxt blk m label fu out pctxt' fu'
    assume p: "plain stmt" and run: "replace_stmt P (Suc fuel) i stmt is_last pctxt blk m label fu = Inr (out, pctxt', fu')"
    have "replace_other_stmt P (replace_stmt P fuel) i stmt is_last pctxt blk m label fu = Inr (out, pctxt', fu')"
      using run p by (cases stmt) simp_all
    then show "erase_all out = erase_ghost stmt" using replace_other_stmt_erase [OF Suc.IH] Suc.prems p by blast
  qed
qed (simp add: keeps_erasure_def)

lemma fu_replace_successor_erase:
  assumes "\<not> fp_check_foldunfold_state P" "fu_replace_successor P succ pctxt fu = Inr ((out, succ'), pctxt', fu')"
  shows "erase_all out = [] \<and> map strip (successor_guards succ') = map strip (successor_guards succ)"
proof -
  from assms(2) obtain reqs p1 where steps:
      "(case group_by_label (concat reqs) None of None \<Rightarrow> Inr ([], pctxt)
        | Some perms \<Rightarrow> bindE (ctxt_obtain P perms pctxt) (\<lambda>(stmts, pctxt).
            if fp_check_foldunfold_state P then bindE (assert_state pctxt) (\<lambda>check. Inr (stmts @ check, pctxt))
            else Inr (stmts, pctxt))) = Inr (out, p1)"
      "(case succ of SuccGotoSwitch gs d \<Rightarrow>
          bindE (mapE (\<lambda>(cond, targ). bindE (replace_with P fu False p1 cond) (\<lambda>e. Inr (e, targ))) gs)
            (\<lambda>gs. Inr (SuccGotoSwitch gs d)) | _ \<Rightarrow> Inr succ) = Inr succ'"
    unfolding fu_replace_successor_def bindE_Inr_iff by (elim exE conjE) (auto simp: bindE_Inr_iff)
  have "erase_all out = []"
    using steps(1) assms(1) by (auto simp: fallible_simps simp del: concat_eq_Nil_conv dest: ctxt_obtain_erase split: option.splits)
  moreover have guards: "map (strip \<circ> fst) gs' = map (strip \<circ> fst) gs"
    if "mapE (\<lambda>(cond, targ). bindE (replace_with P fu False p1 cond) (\<lambda>e. Inr (e, targ))) gs = Inr gs'" for gs gs'
    using that unfolding mapE_Inr_iff
    by (induction rule: list_all2_induct) (auto simp: fallible_simps dest: keeps_stripD [OF keeps_strip_replace])
  then have "map strip (successor_guards succ') = map strip (successor_guards succ)"
    using steps(2) by (cases succ) (auto simp: fallible_simps)
  ultimately show ?thesis by blast
qed

text \<open>Fold-unfold without the state checks is a replacer that only adds ghost code.\<close>

interpretation fu: ghost_replacer
  "fold_unfold_replacer (P\<lparr>fp_check_foldunfold_state := False\<rparr>) fuel" erase_ghost strip plain for P fuel
proof
  fix stmt i is_last c b m label s out c' s'
  assume "plain stmt" "rp_replace_stmt (fold_unfold_replacer (P\<lparr>fp_check_foldunfold_state := False\<rparr>) fuel)
    i stmt is_last c b m label s = Inr (out, c', s')"
  then show "erase_all out = erase_ghost stmt"
    using keeps_erasureD [OF replace_stmt_erase [of "P\<lparr>fp_check_foldunfold_state := False\<rparr>"]]
    by (simp add: fold_unfold_replacer_def)
next
  fix succ c s out succ' c' s'
  assume "rp_replace_successor (fold_unfold_replacer (P\<lparr>fp_check_foldunfold_state := False\<rparr>) fuel) succ c s =
    Inr ((out, succ'), c', s')"
  then show "erase_all out = [] \<and> map strip (successor_guards succ') = map strip (successor_guards succ)"
    using fu_replace_successor_erase [of "P\<lparr>fp_check_foldunfold_state := False\<rparr>"]
    by (simp add: fold_unfold_replacer_def)
next
  fix c b a s out c' s'
  assume "rp_perform_prejoin_action (fold_unfold_replacer (P\<lparr>fp_check_foldunfold_state := False\<rparr>) fuel) c b a s =
    Inr (out, c', s')"
  then show "erase_all out = []" using perform_prejoin_action_erase by (simp add: fold_unfold_replacer_def)
qed simp

text \<open>
  C8 Adding folds and unfolds to a method keeps the program.  For a method whose statements expire no
  borrows, package no wands and create no shared borrows, and without the state checks: the blocks of the
  result that stand for the original blocks have, without folds, unfolds, obtains, comments and unfoldings,
  exactly the original statements and guards in the original order, the inserted blocks have none, and
  every original block leads, through inserted blocks, to its original targets.
\<close>

theorem add_fold_unfold_only_ghost:
  assumes "cfg_wf cfg" "\<forall>b \<in> set (cm_basic_blocks cfg). list_all plain (cb_stmts b)"
    and "add_fold_unfold debug False rx preds fuel uuid cfg locs cfg_map pos show_stmt show_borrow = Inr new_cfg"
  shows "bodies erase_ghost strip new_cfg = bodies erase_ghost strip cfg @
      replicate (length (cm_basic_blocks new_cfg) - length (cm_basic_blocks cfg)) ([], []) \<and>
    (\<forall>i < length (skeleton cfg).
       map (original_target (length (skeleton cfg)) (skeleton new_cfg)) (targets (skeleton new_cfg ! i)) =
         targets (skeleton cfg ! i))"
proof -
  define P where "P = \<lparr>fp_env = \<lparr>fe_debug = debug, fe_rx = rx, fe_preds = preds,
      fe_old_exprs = walk_expressions cfg old_expr_walk Map.empty, fe_fuel = fuel\<rparr>,
    fp_check_foldunfold_state = False, fp_cfg = cfg, fp_borrow_locations = locs, fp_cfg_map = cfg_map,
    fp_method_pos = pos, fp_initial_pctxt = path_ctxt_new (get_all_vars cfg), fp_show_stmt = show_stmt,
    fp_show_borrow = show_borrow\<rparr>"
  obtain fu' where run: "replace_cfg (fold_unfold_replacer (P\<lparr>fp_check_foldunfold_state := False\<rparr>) fuel) uuid cfg
      \<lparr>fu_pctxt_at_label = Map.empty, fu_action_store = []\<rparr> = Inr (new_cfg, fu')"
    using assms(3) by (auto simp: add_fold_unfold_def P_def Let_def fallible_simps)
  have "bodies erase_ghost strip new_cfg = bodies erase_ghost strip cfg @
      replicate (length (cm_basic_blocks new_cfg) - length (cm_basic_blocks cfg)) ([], [])"
    using assms(2) by (intro fu.replace_cfg_bodies [OF assms(1) _ run]) blast
  moreover have "\<forall>i < length (skeleton cfg).
      map (original_target (length (skeleton cfg)) (skeleton new_cfg)) (targets (skeleton new_cfg ! i)) =
        targets (skeleton cfg ! i)"
    using replace_cfg_skeleton [OF assms(1) run] by (simp add: skeleton_inv_def same_edges_def)
  ultimately show ?thesis by blast
qed

text \<open>One branch needs \<open>x.f.g\<close>, which is inside the predicate of \<open>x.f\<close>; the other branch needs nothing.\<close>

definition ex_branches :: cfg_method where
  "ex_branches = (cfg_new 7 ''m'' 0 [] [local_var_new ''x'' (TTypedRef ''T'')] [])\<lparr>
     cm_basic_blocks :=
       [\<lparr>cb_stmts = [SInhale (acc_permission ex_xf Write), SInhale (predicate_access_predicate ''T_f'' ex_xf Write)],
         cb_successor = SuccGotoSwitch [(from_bool True, \<lparr>bi_method_uuid = 7, bi_index = 2\<rparr>)]
           \<lparr>bi_method_uuid = 7, bi_index = 1\<rparr>\<rparr>,
        \<lparr>cb_stmts = [SExhale (acc_permission (ex_dot ex_xf ''g'') Write) position_default],
         cb_successor = SuccGoto \<lparr>bi_method_uuid = 7, bi_index = 2\<rparr>\<rparr>,
        \<lparr>cb_stmts = [], cb_successor = SuccReturn\<rparr>],
     cm_basic_blocks_labels := [''start'', ''a'', ''b'']\<rparr>"

definition ex_folded :: "failure + cfg_method" where
  "ex_folded = add_fold_unfold False False ex_rx ex_preds 5 8 ex_branches Map.empty Map.empty position_default
     (\<lambda>_. []) (\<lambda>_. [])"

lemma ex_folded_run:
  "case ex_folded of Inl _ \<Rightarrow> False | Inr m \<Rightarrow> length (cm_basic_blocks m) = 5 \<and>
     list_ex (\<lambda>s. case s of SUnfold n _ _ _ \<Rightarrow> n = ''T_f'' | _ \<Rightarrow> False) (cb_stmts (cm_basic_blocks m ! 1))"
  by code_simp

lemma ex_branches_wf: "cfg_wf ex_branches" "\<forall>b \<in> set (cm_basic_blocks ex_branches). list_all plain (cb_stmts b)"
  by (simp_all add: ex_branches_def cfg_wf_def targets_ok_def cfg_new_def)

theorem add_fold_unfold_only_ghost_witness:
  "\<exists>m. ex_folded = Inr m \<and> length (cm_basic_blocks m) = 5 \<and>
     bodies erase_ghost strip m = bodies erase_ghost strip ex_branches @ [([], []), ([], [])] \<and>
     map (original_target 3 (skeleton m)) (targets (skeleton m ! 0)) = [2, 1]"
proof -
  obtain m where m: "ex_folded = Inr m" "length (cm_basic_blocks m) = 5"
    using ex_folded_run by (auto split: sum.splits)
  have "length (cm_basic_blocks ex_branches) = 3" "length (skeleton ex_branches) = 3"
    "targets (skeleton ex_branches ! 0) = [2, 1]" by code_simp+
  then show ?thesis
    using add_fold_unfold_only_ghost [OF ex_branches_wf m(1) [unfolded ex_folded_def]] m
    by (auto simp: numeral_2_eq_2)
qed

end
