(* ===== verification/Name_Interner.thy ===== *)
theory Name_Interner
  imports Fallible
begin

section \<open>The name interner (prusti-viper/src/encoder/name_interner.rs)\<close>

text \<open>
  Long unique names are replaced by readable ones without losing uniqueness.  The debug assertions are run if the
  first argument says so; a failed one is a panic.
\<close>

record name_interner =
  ni_name_to_symbol :: "string \<rightharpoonup> string"
  ni_used_symbols :: "string set"

definition interner_new :: name_interner where
  "interner_new = \<lparr>ni_name_to_symbol = Map.empty, ni_used_symbols = {}\<rparr>"

definition intern_checks :: "name_interner \<Rightarrow> string \<Rightarrow> string list \<Rightarrow> bool" where
  "intern_checks self full_unique_name readable_names \<longleftrightarrow>
     \<not> list_ex (\<lambda>r. r = '''') readable_names \<and>
     \<not> list_ex (\<lambda>r. r \<noteq> full_unique_name \<and> ni_name_to_symbol self r \<noteq> None) readable_names \<and>
     (ni_name_to_symbol self full_unique_name \<noteq> None \<or> full_unique_name \<notin> ni_used_symbols self)"

definition intern :: "bool \<Rightarrow> string \<times> string list \<Rightarrow> name_interner \<Rightarrow> string + string \<times> name_interner" where
  "intern debug call self =
     (case call of (full_unique_name, readable_names) \<Rightarrow>
        bindE (assertE ''assertion failed'' (debug \<longrightarrow> intern_checks self full_unique_name readable_names)) (\<lambda>_.
        case ni_name_to_symbol self full_unique_name of
          Some symbol \<Rightarrow> Inr (symbol, self)
        | None \<Rightarrow>
            let symbol = (case find (\<lambda>r. r \<notin> ni_used_symbols self) readable_names of
                            Some r \<Rightarrow> r | None \<Rightarrow> full_unique_name) in
            Inr (symbol, self\<lparr>ni_used_symbols := insert symbol (ni_used_symbols self),
                              ni_name_to_symbol := (ni_name_to_symbol self)(full_unique_name \<mapsto> symbol)\<rparr>)))"

subsection \<open>Uniqueness\<close>

definition interner_ok :: "name_interner \<Rightarrow> bool" where
  "interner_ok self \<longleftrightarrow> ni_used_symbols self = ran (ni_name_to_symbol self) \<and>
     inj_on (ni_name_to_symbol self) (dom (ni_name_to_symbol self))"

lemma interner_new_ok: "interner_ok interner_new"
  by (simp add: interner_ok_def interner_new_def)

lemma intern_step:
  assumes "interner_ok st" "intern True (f, rs) st = Inr (s, st')"
  shows "interner_ok st' \<and> ni_name_to_symbol st' f = Some s \<and> ni_name_to_symbol st \<subseteq>\<^sub>m ni_name_to_symbol st'"
proof (cases "ni_name_to_symbol st f")
  case (Some x)
  then show ?thesis using assms by (auto simp: intern_def assertE_def split: if_splits)
next
  case None
  define sym where "sym = (case find (\<lambda>r. r \<notin> ni_used_symbols st) rs of Some r \<Rightarrow> r | None \<Rightarrow> f)"
  have checks: "f \<notin> ni_used_symbols st" and
      st': "s = sym" "st' = st\<lparr>ni_used_symbols := insert sym (ni_used_symbols st), ni_name_to_symbol := (ni_name_to_symbol st)(f \<mapsto> sym)\<rparr>"
    using assms(2) None by (auto simp: intern_def assertE_def intern_checks_def sym_def Let_def split: if_splits)
  have new: "sym \<notin> ni_used_symbols st"
    using checks by (auto simp: sym_def find_Some_iff split: option.splits)
  have "inj_on ((ni_name_to_symbol st)(f \<mapsto> sym)) (insert f (dom (ni_name_to_symbol st)))"
    using assms(1) new None 
    unfolding interner_ok_def inj_on_def by (auto simp: ran_def)
  moreover have "ran ((ni_name_to_symbol st)(f \<mapsto> sym)) = insert sym (ran (ni_name_to_symbol st))"
    using None by (rule ran_map_upd)
  ultimately have "interner_ok st'" using assms(1) by (simp add: interner_ok_def st'(2))
  moreover have "ni_name_to_symbol st \<subseteq>\<^sub>m ni_name_to_symbol st'" using None st'(2) by (auto simp: map_le_def)
  ultimately show ?thesis using st' by simp
qed

lemma intern_runs:
  "interner_ok st \<Longrightarrow> mapR (intern True) cs st = Inr (ss, st') \<Longrightarrow>
   interner_ok st' \<and> list_all2 (\<lambda>c s. ni_name_to_symbol st' (fst c) = Some s) cs ss \<and>
   ni_name_to_symbol st \<subseteq>\<^sub>m ni_name_to_symbol st'"
proof (induction cs arbitrary: st ss)
  case (Cons c cs)
  obtain f rs where c: "c = (f, rs)" by (cases c)
  from Cons.prems(2) obtain s st1 zs where z: "intern True c st = Inr (s, st1)" "mapR (intern True) cs st1 = Inr (zs, st')" "ss = s # zs"
    by (auto split: sum.splits)
  note step = intern_step [OF Cons.prems(1) z(1) [unfolded c]]
  note rest = Cons.IH [OF step [THEN conjunct1] z(2)]
  have "ni_name_to_symbol st' f = Some s" using step rest by (auto simp: map_le_def dom_def)
  then show ?case using step rest z(3) c by (auto intro: map_le_trans)
qed auto

text \<open>The contract of the documentation: a readable name is neither empty nor the full name of another call.\<close>

definition intern_contract :: "(string \<times> string list) list \<Rightarrow> bool" where
  "intern_contract cs \<longleftrightarrow> (\<forall>c \<in> set cs. '''' \<notin> set (snd c) \<and> (\<forall>d \<in> set cs. fst d \<in> set (snd c) \<longrightarrow> fst d = fst c))"

lemma intern_contractD: "intern_contract cs \<Longrightarrow> (f, rs) \<in> set cs \<Longrightarrow> (g, ss) \<in> set cs \<Longrightarrow> g \<in> set rs \<Longrightarrow> g = f"
  unfolding intern_contract_def by (metis fst_conv snd_conv)

lemma intern_contract_checks:
  assumes "intern_contract cs" "set past \<subseteq> set cs" "set rest \<subseteq> set cs"
    and "dom (ni_name_to_symbol st) \<subseteq> fst ` set past"
    and "\<forall>s \<in> ni_used_symbols st. \<exists>(g, ss) \<in> set past. s = g \<or> s \<in> set ss"
    and "fst ` set past \<subseteq> dom (ni_name_to_symbol st)"
  shows "\<exists>ss st'. mapR (intern True) rest st = Inr (ss, st') \<and> mapR (intern False) rest st = Inr (ss, st')"
  using assms
proof (induction rest arbitrary: st past)
  case (Cons c rest)
  obtain f rs where c: "c = (f, rs)" by (cases c)
  have own: "g = f" if "(g, ss) \<in> set cs" "g \<in> set rs" for g ss
    by (rule intern_contractD [OF Cons.prems(1) _ that]) (use Cons.prems(3) c in simp)
  have full: "g = f" if "(g, ss) \<in> set cs" "f \<in> set ss" for g ss
    by (rule intern_contractD [OF Cons.prems(1) that(1) _ that(2), of rs, symmetric]) (use Cons.prems(3) c in simp)
  have checks: "intern_checks st f rs"
    unfolding intern_checks_def
  proof (intro conjI)
    show "\<not> list_ex (\<lambda>r. r = '''') rs" using Cons.prems(1,3) c by (auto simp: intern_contract_def list_ex_iff)
    show "\<not> list_ex (\<lambda>r. r \<noteq> f \<and> ni_name_to_symbol st r \<noteq> None) rs"
    proof
      assume "list_ex (\<lambda>r. r \<noteq> f \<and> ni_name_to_symbol st r \<noteq> None) rs"
      then obtain r where r: "r \<in> set rs" "r \<noteq> f" "r \<in> dom (ni_name_to_symbol st)" by (auto simp: list_ex_iff)
      then obtain ss where "(r, ss) \<in> set cs" using Cons.prems(2,4) by fastforce
      then show False using own r by blast
    qed
    show "ni_name_to_symbol st f \<noteq> None \<or> f \<notin> ni_used_symbols st"
    proof (rule disjCI)
      assume "\<not> f \<notin> ni_used_symbols st"
      then obtain g ss where g: "(g, ss) \<in> set past" "f = g \<or> f \<in> set ss" using Cons.prems(5) by blast
      then have "g = f" using full Cons.prems(2) by blast
      then show "ni_name_to_symbol st f \<noteq> None" using g(1) Cons.prems(6) by force
    qed
  qed
  obtain s st1 where step: "intern False c st = Inr (s, st1)"
    by (cases "ni_name_to_symbol st f") (auto simp: intern_def c Let_def)
  have same: "intern True c st = intern False c st" using checks by (simp add: intern_def c)
  have dom1: "dom (ni_name_to_symbol st1) = insert f (dom (ni_name_to_symbol st))"
    using step by (cases "ni_name_to_symbol st f") (auto simp: intern_def c Let_def)
  have "\<exists>ss st'. mapR (intern True) rest st1 = Inr (ss, st') \<and> mapR (intern False) rest st1 = Inr (ss, st')"
  proof (rule Cons.IH [where past = "c # past"])
    show "intern_contract cs" "set (c # past) \<subseteq> set cs" "set rest \<subseteq> set cs" using Cons.prems by auto
    show "dom (ni_name_to_symbol st1) \<subseteq> fst ` set (c # past)" "fst ` set (c # past) \<subseteq> dom (ni_name_to_symbol st1)"
      unfolding dom1 using Cons.prems(4,6) c by auto
    have "s \<in> insert f (set rs) \<or> s \<in> ni_used_symbols st \<or> ni_used_symbols st1 = ni_used_symbols st"
        "ni_used_symbols st1 \<subseteq> insert s (ni_used_symbols st)"
      using step by (cases "ni_name_to_symbol st f"; auto simp: intern_def c Let_def find_Some_iff split: option.splits)+
    then have "t \<in> ni_used_symbols st \<or> t = f \<or> t \<in> set rs" if "t \<in> ni_used_symbols st1" for t using that by auto
    then show "\<forall>s \<in> ni_used_symbols st1. \<exists>(g, ss) \<in> set (c # past). s = g \<or> s \<in> set ss"
      using Cons.prems(5) c by fastforce
  qed
  then show ?case using step same by auto
qed auto

text \<open>
  C18 Interning keeps names unique: for every sequence of calls that respects the documented contract no debug
  assertion fails, release builds return the same symbols, and two calls return the same symbol if and only if
  they intern the same full name.
\<close>

theorem intern_unique:
  assumes "intern_contract cs"
  shows "\<exists>ss st. mapR (intern True) cs interner_new = Inr (ss, st) \<and> mapR (intern False) cs interner_new = Inr (ss, st) \<and>
    length ss = length cs \<and>
    (\<forall>i < length cs. \<forall>j < length cs. ss ! i = ss ! j \<longleftrightarrow> fst (cs ! i) = fst (cs ! j))"
proof -
  obtain ss st where run: "mapR (intern True) cs interner_new = Inr (ss, st)" "mapR (intern False) cs interner_new = Inr (ss, st)"
    using intern_contract_checks [OF assms, of "[]" cs interner_new] by (auto simp: interner_new_def)
  note ok = intern_runs [OF interner_new_ok run(1)]
  have sym: "ni_name_to_symbol st (fst (cs ! i)) = Some (ss ! i)" if "i < length cs" for i
    using ok that by (simp add: list_all2_conv_all_nth)
  have "ss ! i = ss ! j \<longleftrightarrow> fst (cs ! i) = fst (cs ! j)" if "i < length cs" "j < length cs" for i j
  proof
    have inj: "inj_on (ni_name_to_symbol st) (dom (ni_name_to_symbol st))" using ok by (simp add: interner_ok_def)
    assume "ss ! i = ss ! j"
    then show "fst (cs ! i) = fst (cs ! j)"
      using inj_onD [OF inj, of "fst (cs ! i)" "fst (cs ! j)"] sym [OF that(1)] sym [OF that(2)] by auto
  qed (use sym [OF that(1)] sym [OF that(2)] in simp)
  then show ?thesis using run ok by (auto dest: list_all2_lengthD)
qed

theorem intern_unique_witness:
  "map_sum id fst (mapR (intern False) [(''my$first$name'', [''name'', ''first$name'']), (''my$second$name'', [''name'', ''second$name''])] interner_new)
     = Inr [''name'', ''second$name''] \<and> ''name'' \<noteq> ''second$name''"
proof -
  let ?cs = "[(''my$first$name'', [''name'', ''first$name'']), (''my$second$name'', [''name'', ''second$name''])]"
  have "intern_contract ?cs" by (simp add: intern_contract_def)
  from intern_unique [OF this] obtain ss st where "mapR (intern False) ?cs interner_new = Inr (ss, st)" "ss ! 0 \<noteq> ss ! 1"
    by (auto simp: nth_Cons')
  moreover have "map_sum id fst (mapR (intern False) ?cs interner_new) = Inr [''name'', ''second$name'']"
    by (simp add: intern_def intern_checks_def interner_new_def Let_def)
  ultimately show ?thesis by auto
qed

text \<open>Outside of the contract, release builds give two full names the same symbol.\<close>

theorem intern_collides:
  "map_sum id fst (mapR (intern False) [(''first'', [''second'']), (''second'', [])] interner_new) = Inr [''second'', ''second'']"
  "map_sum id fst (mapR (intern True) [(''first'', [''second'']), (''second'', [])] interner_new) = Inl ''assertion failed''"
  by (simp_all add: intern_def intern_checks_def interner_new_def Let_def)

end
