(* ===== verification/Spec_Common.thy ===== *)
theory Spec_Common
  imports Fallible "HOL-Library.Word"
begin

section \<open>Specifications (prusti-specs/src/specifications/common.rs)\<close>

text \<open>
  The data of specifications: assertions over expressions \<open>'et\<close> and bound variables \<open>'at\<close>, whose parts carry
  identifiers \<open>'eid\<close> (nothing after parsing, a number later).  A specification id is a UUID, a 128-bit number.
\<close>

datatype spec_type = Precondition | Postcondition | Invariant | Predicate

definition spec_type_try_from :: "string \<Rightarrow> spec_type option" where
  "spec_type_try_from typ =
     (if typ = ''requires'' then Some Precondition else if typ = ''ensures'' then Some Postcondition
      else if typ = ''invariant'' then Some Invariant else if typ = ''predicate'' then Some Predicate else None)"

type_synonym specification_id = "128 word"

definition specification_id_dummy :: specification_id where
  "specification_id_dummy = 0"

type_synonym expression_id = "64 word"

record ('eid, 'et) spec_expression =
  sx_spec_id :: specification_id
  sx_id :: 'eid
  sx_expr :: 'et

type_synonym ('eid, 'et) spec_trigger = "('eid, 'et) spec_expression list"
type_synonym ('eid, 'et) trigger_set = "('eid, 'et) spec_trigger list"

record ('eid, 'at) quantifier_vars =
  qv_spec_id :: specification_id
  qv_id :: 'eid
  qv_vars :: "'at list"

record ('eid, 'at) spec_entailment_vars =
  sv_spec_id :: specification_id
  sv_pre_id :: 'eid
  sv_post_id :: 'eid
  sv_args :: "'at list"
  sv_result :: 'at

datatype ('eid, 'et, 'at) assertion =
    AExpr "('eid, 'et) spec_expression"
  | AAnd "('eid, 'et, 'at) assertion list"
  | AImplies "('eid, 'et, 'at) assertion" "('eid, 'et, 'at) assertion"
  | ATypeCond "('eid, 'at) quantifier_vars" "('eid, 'et, 'at) assertion"
  | AForAll "('eid, 'at) quantifier_vars" "('eid, 'et) trigger_set" "('eid, 'et, 'at) assertion"
  | AExists "('eid, 'at) quantifier_vars" "('eid, 'et) trigger_set" "('eid, 'et, 'at) assertion"
  | ASpecEntailment "('eid, 'et) spec_expression" "('eid, 'at) spec_entailment_vars"
      "('eid, 'et, 'at) assertion list" "('eid, 'et, 'at) assertion list"

record ('eid, 'et, 'at) pledge =
  pl_reference :: "('eid, 'et) spec_expression option"
  pl_lhs :: "('eid, 'et, 'at) assertion option"
  pl_rhs :: "('eid, 'et, 'at) assertion"

record ('eid, 'et, 'at) spec_item =
  sp_typ :: spec_type
  sp_assertion :: "('eid, 'et, 'at) assertion"

type_synonym ('eid, 'et, 'at) loop_specification = "('eid, 'et, 'at) assertion list"

record ('eid, 'et, 'at) procedure_specification =
  ps_pres :: "('eid, 'et, 'at) assertion list"
  ps_posts :: "('eid, 'et, 'at) assertion list"
  ps_pledges :: "('eid, 'et, 'at) pledge list"
  ps_predicate_body :: "('eid, 'et, 'at) assertion option"
  ps_pure :: bool
  ps_trusted :: bool

definition procedure_specification_new ::
  "('eid, 'et, 'at) assertion list \<Rightarrow> ('eid, 'et, 'at) assertion list \<Rightarrow> ('eid, 'et, 'at) pledge list \<Rightarrow>
   ('eid, 'et, 'at) assertion option \<Rightarrow> ('eid, 'et, 'at) procedure_specification" where
  "procedure_specification_new pres posts pledges predicate_body =
     \<lparr>ps_pres = pres, ps_posts = posts, ps_pledges = pledges, ps_predicate_body = predicate_body,
      ps_pure = False, ps_trusted = False\<rparr>"

definition procedure_specification_empty :: "('eid, 'et, 'at) procedure_specification" where
  "procedure_specification_empty = procedure_specification_new [] [] [] None"

definition procedure_specification_is_empty :: "('eid, 'et, 'at) procedure_specification \<Rightarrow> bool" where
  "procedure_specification_is_empty s \<longleftrightarrow> ps_pres s = [] \<and> ps_posts s = [] \<and> ps_predicate_body s = None"

definition refine ::
  "('eid, 'et, 'at) procedure_specification \<Rightarrow> ('eid, 'et, 'at) procedure_specification \<Rightarrow>
   ('eid, 'et, 'at) procedure_specification" where
  "refine self other =
     \<lparr>ps_pres = (if ps_pres other = [] then ps_pres self else ps_pres other),
      ps_posts = (if ps_posts other = [] then ps_posts self else ps_posts other),
      ps_pledges = (if ps_pledges other = [] then ps_pledges self else ps_pledges other),
      ps_predicate_body = (if ps_predicate_body other = None then ps_predicate_body self else ps_predicate_body other),
      ps_pure = ps_pure other, ps_trusted = ps_trusted other\<rparr>"

datatype ('eid, 'et, 'at) specification_set =
    SetProcedure "('eid, 'et, 'at) procedure_specification"
  | SetLoop "('eid, 'et, 'at) loop_specification"
  | SetStruct "('eid, 'et, 'at) spec_item list"

fun specification_set_is_empty :: "('eid, 'et, 'at) specification_set \<Rightarrow> bool" where
  "specification_set_is_empty (SetProcedure s) = procedure_specification_is_empty s"
| "specification_set_is_empty (SetLoop invs) = (invs = [])"
| "specification_set_is_empty (SetStruct invs) = (invs = [])"

fun expect_procedure :: "('eid, 'et, 'at) specification_set \<Rightarrow> ('eid, 'et, 'at) procedure_specification option" where
  "expect_procedure (SetProcedure s) = Some s"
| "expect_procedure _ = None"

fun expect_loop :: "('eid, 'et, 'at) specification_set \<Rightarrow> ('eid, 'et, 'at) loop_specification option" where
  "expect_loop (SetLoop s) = Some s"
| "expect_loop _ = None"

fun expect_struct :: "('eid, 'et, 'at) specification_set \<Rightarrow> ('eid, 'et, 'at) spec_item list option" where
  "expect_struct (SetStruct s) = Some s"
| "expect_struct _ = None"

subsection \<open>Refinement of trait specifications\<close>

text \<open>
  Refining is a monoid action: the specification of the last refinement that gives a part wins, and an empty
  refinement that agrees on the flags changes nothing.
\<close>

theorem refine_assoc: "refine (refine a b) c = refine a (refine b c)"
  by (auto simp: refine_def)

lemma refine_self: "refine a a = a"
  by (simp add: refine_def)

text \<open>
  A specification with pledges only counts as empty.
\<close>

theorem pledges_only_is_empty:
  "procedure_specification_is_empty (procedure_specification_new [] [] [p] None)"
  by (simp add: procedure_specification_is_empty_def procedure_specification_new_def)

subsection \<open>Generators\<close>

definition expression_id_generator_new :: expression_id where
  "expression_id_generator_new = 100"

definition generate :: "expression_id \<Rightarrow> expression_id \<times> expression_id" where
  "generate last_id = (last_id + 1, last_id + 1)"

end
