(* ===== verification/Spec_Parser.thy ===== *)
theory Spec_Parser
  imports Spec_Common
begin

section \<open>The parser of specifications (prusti-specs/src/specifications/preparser.rs)\<close>

text \<open>
  The parser splits the tokens of a specification at Prusti's own operators and keywords and gives the rest to
  \<open>syn\<close>, which is an argument here: what it answers for the tokens of an expression, of a list of arguments and
  of an array.  Token trees are those of \<open>proc_macro2\<close> without spans and spacing; spans only say where an error
  is reported, and errors are modelled by their kind.  A failing \<open>Span::join\<close> is not modelled.

  The functions call each other on the rest of the tokens and on the contents of groups.  They take fuel, and
  \<open>fuel_for\<close> of the tokens is always enough (\<open>parser_has_fuel\<close>).
\<close>

datatype delimiter = Parenthesis | Brace | Bracket | NoDelimiter

datatype token_tree = Group delimiter "token_tree list" | Ident string | Punct char | Literal string

type_synonym tokens = "token_tree list"

datatype parse_error =
    Expected string | NoQuantifierArguments | ExpectedTuple | UnexpectedToken | NoImplies | AmbiguousExpression
  | SynError string | NoFuel

datatype 'e array_item = TupleItem "'e list" | OtherItem

record ('e, 'a) syn_parser =
  sy_expr :: "tokens \<Rightarrow> string + 'e"
  sy_args :: "tokens \<Rightarrow> string + 'a list"
  sy_array :: "tokens \<Rightarrow> string + 'e array_item list"
  sy_result :: 'a

type_synonym ('e, 'a) parsed = "(unit, 'e, 'a) assertion"

definition or_syn :: "string + 'b \<Rightarrow> parse_error + 'b" where
  "or_syn r = map_sum SynError id r"

definition without_id :: "'e \<Rightarrow> (unit, 'e) spec_expression" where
  "without_id e = \<lparr>sx_spec_id = specification_id_dummy, sx_id = (), sx_expr = e\<rparr>"

subsection \<open>Looking at tokens\<close>

fun peek_operator :: "string \<Rightarrow> tokens \<Rightarrow> bool" where
  "peek_operator [] ts = True"
| "peek_operator (c # cs) (Punct d # ts) = (d = c \<and> peek_operator cs ts)"
| "peek_operator _ _ = False"

definition consume_operator :: "string \<Rightarrow> tokens \<Rightarrow> tokens option" where
  "consume_operator operator ts = (if peek_operator operator ts then Some (drop (length operator) ts) else None)"

fun peek_keyword :: "string \<Rightarrow> tokens \<Rightarrow> bool" where
  "peek_keyword keyword (Ident i # _) = (i = keyword)"
| "peek_keyword _ _ = False"

definition consume_keyword :: "string \<Rightarrow> tokens \<Rightarrow> tokens option" where
  "consume_keyword keyword ts = (if peek_keyword keyword ts then Some (tl ts) else None)"

fun peek_group :: "delimiter \<Rightarrow> tokens \<Rightarrow> bool" where
  "peek_group d (Group d' _ # _) = (d = d')"
| "peek_group _ _ = False"

fun consume_group :: "delimiter \<Rightarrow> tokens \<Rightarrow> (tokens \<times> tokens) option" where
  "consume_group d (Group d' stream # ts) = (if d = d' then Some (stream, ts) else None)"
| "consume_group _ _ = None"

fun contains_operator :: "string \<Rightarrow> tokens \<Rightarrow> bool" where
  "contains_operator operator [] = False"
| "contains_operator operator (t # ts) = (peek_operator operator (t # ts) \<or> contains_operator operator ts)"

function contains_operator_recursive :: "string \<Rightarrow> tokens \<Rightarrow> bool" where
  "contains_operator_recursive operator [] = False"
| "contains_operator_recursive operator (t # ts) =
     (peek_operator operator (t # ts) \<or>
      (case t of Group _ stream \<Rightarrow> contains_operator_recursive operator stream | _ \<Rightarrow> False) \<or>
      contains_operator_recursive operator ts)"
  by pat_completeness auto
termination by (relation "measure (size_list size \<circ> snd)") auto

text \<open>\<open>contains_both_and_or\<close>: the spans seen so far are flags.\<close>

function both_and_or :: "bool \<Rightarrow> bool \<Rightarrow> tokens \<Rightarrow> bool" where
  "both_and_or and_span or_span [] = False"
| "both_and_or and_span or_span (t # ts) =
     (if peek_operator ''&&'' (t # ts) then or_span \<or> both_and_or True or_span ts
      else if peek_operator ''||'' (t # ts) then and_span \<or> both_and_or and_span True ts
      else if peek_operator ''==>'' (t # ts) then both_and_or False False ts
      else
        (case t of Group Parenthesis stream \<Rightarrow> both_and_or False False stream | _ \<Rightarrow> False) \<or>
        and_span \<and> or_span \<or> both_and_or and_span or_span ts)"
  by pat_completeness auto
termination by (relation "measure (\<lambda>(a, b, ts). size_list size ts)") auto

definition contains_both_and_or :: "tokens \<Rightarrow> bool" where
  "contains_both_and_or ts = both_and_or False False ts"

text \<open>Is there any non-Prusti operator following the first thing?\<close>

fun is_part_of_rust_expr :: "tokens \<Rightarrow> bool" where
  "is_part_of_rust_expr [] = False"
| "is_part_of_rust_expr (_ # ts) =
     (\<not> (peek_operator ''|='' ts \<or> peek_operator ''&&'' ts \<or> peek_operator ''==>'' ts \<or> ts = []))"

fun tokens_until :: "(tokens \<Rightarrow> bool) \<Rightarrow> tokens \<Rightarrow> tokens \<times> tokens" where
  "tokens_until stop [] = ([], [])"
| "tokens_until stop (t # ts) =
     (if stop (t # ts) then ([], t # ts) else case tokens_until stop ts of (a, b) \<Rightarrow> (t # a, b))"

definition stops_rust :: "string \<Rightarrow> tokens \<Rightarrow> bool" where
  "stops_rust terminator ts \<longleftrightarrow>
     peek_operator ''|='' ts \<or> peek_operator ''&&'' ts \<or> peek_operator ''==>'' ts \<or> peek_operator terminator ts"

definition create_stream_until :: "string \<Rightarrow> tokens \<Rightarrow> tokens \<times> tokens" where
  "create_stream_until delimiter ts = tokens_until (peek_operator delimiter) ts"

definition parse_rust_until ::
  "('e, 'a) syn_parser \<Rightarrow> string \<Rightarrow> tokens \<Rightarrow> parse_error + (unit, 'e) spec_expression \<times> tokens" where
  "parse_rust_until sy terminator ts =
     (case tokens_until (stops_rust terminator) ts of (stream, rest) \<Rightarrow>
        if contains_operator_recursive ''==>'' stream then Inl NoImplies
        else if stream = [] then Inl (Expected ''expression'')
        else bindE (or_syn (sy_expr sy stream)) (\<lambda>e. Inr (without_id e, rest)))"

subsection \<open>The parser\<close>

definition parse_binders :: "('e, 'a) syn_parser \<Rightarrow> tokens \<Rightarrow> parse_error + 'a list \<times> tokens" where
  "parse_binders sy ts =
     (case create_stream_until ''|'' ts of (arg_tokens, ts) \<Rightarrow>
        bindE (or_syn (sy_args sy arg_tokens)) (\<lambda>args.
        bindE (unwrapE (Expected ''`|`'') (consume_operator ''|'' ts)) (\<lambda>ts. Inr (args, ts))))"

definition parse_trigger_item :: "'e array_item \<Rightarrow> parse_error + (unit, 'e) spec_trigger" where
  "parse_trigger_item item =
     (case item of TupleItem es \<Rightarrow> Inr (map without_id es) | OtherItem \<Rightarrow> Inl ExpectedTuple)"

definition parse_triggers :: "('e, 'a) syn_parser \<Rightarrow> tokens \<Rightarrow> parse_error + (unit, 'e) trigger_set \<times> tokens" where
  "parse_triggers sy ts =
     (case consume_operator '','' ts of
        None \<Rightarrow> Inr ([], ts)
      | Some ts \<Rightarrow>
          bindE (unwrapE (Expected ''`triggers`'') (consume_keyword ''triggers'' ts)) (\<lambda>ts.
          bindE (unwrapE (Expected ''`=`'') (consume_operator ''='' ts)) (\<lambda>ts.
          bindE (map_sum (\<lambda>_. ExpectedTuple) id (sy_array sy ts)) (\<lambda>items.
          bindE (mapE parse_trigger_item items) (\<lambda>set. Inr (set, []))))))"

definition spec_entailment ::
  "('e, 'a) syn_parser \<Rightarrow> (unit, 'e) spec_expression \<Rightarrow> 'a list \<Rightarrow> ('e, 'a) parsed list \<Rightarrow> ('e, 'a) parsed list \<Rightarrow>
   ('e, 'a) parsed" where
  "spec_entailment sy lhs vars pres posts =
     ASpecEntailment lhs
       \<lparr>sv_spec_id = specification_id_dummy, sv_pre_id = (), sv_post_id = (), sv_args = vars, sv_result = sy_result sy\<rparr>
       pres posts"

definition quantifier :: "bool \<Rightarrow> 'a list \<Rightarrow> (unit, 'e) trigger_set \<Rightarrow> ('e, 'a) parsed \<Rightarrow> ('e, 'a) parsed" where
  "quantifier exists args trigger_set body =
     (let vars = \<lparr>qv_spec_id = specification_id_dummy, qv_id = (), qv_vars = args\<rparr> in
      if exists then AExists vars trigger_set body else AForAll vars trigger_set body)"

text \<open>The methods of the parser, with the methods they call as arguments.\<close>

type_synonym ('e, 'a) parser = "tokens \<Rightarrow> parse_error + ('e, 'a) parsed \<times> tokens"
type_synonym ('e, 'a) list_parser = "tokens \<Rightarrow> parse_error + ('e, 'a) parsed list \<times> tokens"
type_synonym ('e, 'a) extractor = "tokens \<Rightarrow> parse_error + ('e, 'a) parsed"
type_synonym ('e, 'a) rhs_extractor = "tokens \<Rightarrow> parse_error + ('e, 'a) parsed list \<times> ('e, 'a) parsed list"

definition extract_assertion :: "('e, 'a) parser \<Rightarrow> ('e, 'a) extractor" where
  "extract_assertion prusti ts =
     (if ts = [] then Inr (AAnd [])
      else if contains_both_and_or ts then Inl AmbiguousExpression
      else bindE (prusti ts) (\<lambda>(a, ts). if ts = [] then Inr a else Inl UnexpectedToken))"

definition parse_prusti :: "('e, 'a) parser \<Rightarrow> ('e, 'a) parser \<Rightarrow> ('e, 'a) parser" where
  "parse_prusti conjunction prusti ts =
     bindE (conjunction ts) (\<lambda>(lhs, ts).
     case consume_operator ''==>'' ts of
       Some ts \<Rightarrow> bindE (prusti ts) (\<lambda>(rhs, ts). Inr (AImplies lhs rhs, ts))
     | None \<Rightarrow> Inr (lhs, ts))"

definition parse_conjunction :: "('e, 'a) parser \<Rightarrow> ('e, 'a) list_parser \<Rightarrow> ('e, 'a) parser" where
  "parse_conjunction entailment conjuncts ts =
     bindE (entailment ts) (\<lambda>(c, ts).
     bindE (conjuncts ts) (\<lambda>(cs, ts). Inr (if cs = [] then c else AAnd (c # cs), ts)))"

definition parse_conjuncts :: "('e, 'a) parser \<Rightarrow> ('e, 'a) list_parser \<Rightarrow> ('e, 'a) list_parser" where
  "parse_conjuncts entailment conjuncts ts =
     (case consume_operator ''&&'' ts of
        Some ts \<Rightarrow>
          bindE (entailment ts) (\<lambda>(c, ts).
          bindE (conjuncts ts) (\<lambda>(cs, ts). Inr (c # cs, ts)))
      | None \<Rightarrow> Inr ([], ts))"

definition parse_entailment ::
  "('e, 'a) syn_parser \<Rightarrow> ('e, 'a) parser \<Rightarrow> ('e, 'a) rhs_extractor \<Rightarrow> ('e, 'a) parser" where
  "parse_entailment sy primary rhs ts =
     (if peek_group Parenthesis ts \<and> \<not> is_part_of_rust_expr ts \<or> peek_keyword ''forall'' ts \<or> peek_keyword ''exists'' ts
      then primary ts
      else
        bindE (parse_rust_until sy '','' ts) (\<lambda>(lhs, ts).
        case consume_operator ''|='' ts of
          Some ts \<Rightarrow>
            bindE (case consume_operator ''|'' ts of Some ts \<Rightarrow> parse_binders sy ts | None \<Rightarrow> Inr ([], ts)) (\<lambda>(vars, ts).
            bindE (unwrapE (Expected ''`[`'') (consume_group Bracket ts)) (\<lambda>(stream, ts).
            bindE (rhs stream) (\<lambda>(pres, posts).
            Inr (spec_entailment sy lhs vars pres posts, ts))))
        | None \<Rightarrow> Inr (AExpr lhs, ts)))"

definition extract_entailment_rhs ::
  "('e, 'a) extractor \<Rightarrow> ('e, 'a) rhs_extractor \<Rightarrow> bool \<Rightarrow> ('e, 'a) rhs_extractor" where
  "extract_entailment_rhs assertion rest first ts =
     (if ts = [] then Inr ([], [])
      else
        bindE (if first then Inr ts else unwrapE (Expected ''`,`'') (consume_operator '','' ts)) (\<lambda>ts.
        case consume_keyword ''requires'' ts of
          Some ts \<Rightarrow>
            bindE (unwrapE (Expected ''`(`'') (consume_group Parenthesis ts)) (\<lambda>(stream, ts).
            bindE (assertion stream) (\<lambda>pre.
            bindE (rest ts) (\<lambda>(pres, posts). Inr (pre # pres, posts))))
        | None \<Rightarrow>
            (case consume_keyword ''ensures'' ts of
               Some ts \<Rightarrow>
                 bindE (unwrapE (Expected ''`(`'') (consume_group Parenthesis ts)) (\<lambda>(stream, ts).
                 bindE (assertion stream) (\<lambda>post.
                 bindE (rest ts) (\<lambda>(pres, posts). Inr (pres, post # posts))))
             | None \<Rightarrow> Inl (Expected ''`requires` or `ensures`''))))"

definition parse_primary ::
  "('e, 'a) extractor \<Rightarrow> (bool \<Rightarrow> ('e, 'a) extractor) \<Rightarrow> ('e, 'a) parser" where
  "parse_primary assertion quantifier_rhs ts =
     (case consume_group Parenthesis ts of
        Some (stream, ts) \<Rightarrow> bindE (assertion stream) (\<lambda>a. Inr (a, ts))
      | None \<Rightarrow>
          (case consume_keyword ''forall'' ts of
             Some ts \<Rightarrow>
               bindE (unwrapE (Expected ''`(`'') (consume_group Parenthesis ts)) (\<lambda>(stream, ts).
               bindE (quantifier_rhs False stream) (\<lambda>a. Inr (a, ts)))
           | None \<Rightarrow>
               (case consume_keyword ''exists'' ts of
                  Some ts \<Rightarrow>
                    bindE (unwrapE (Expected ''`(`'') (consume_group Parenthesis ts)) (\<lambda>(stream, ts).
                    bindE (quantifier_rhs True stream) (\<lambda>a. Inr (a, ts)))
                | None \<Rightarrow> Inl (Expected ''`(`, `forall` or `exists`''))))"

definition extract_quantifier_rhs :: "('e, 'a) syn_parser \<Rightarrow> ('e, 'a) parser \<Rightarrow> bool \<Rightarrow> ('e, 'a) extractor" where
  "extract_quantifier_rhs sy prusti exists ts =
     bindE (unwrapE (Expected ''`|`'') (consume_operator ''|'' ts)) (\<lambda>ts.
     bindE (assertE NoQuantifierArguments (fst (create_stream_until ''|'' ts) \<noteq> [])) (\<lambda>_.
     bindE (parse_binders sy ts) (\<lambda>(vars, ts).
     bindE (prusti ts) (\<lambda>(body, ts).
     bindE (parse_triggers sy ts) (\<lambda>(trigger_set, ts).
     Inr (quantifier exists vars trigger_set body))))))"

text \<open>The recursion, with fuel.\<close>

fun assertion_at :: "('e, 'a) syn_parser \<Rightarrow> nat \<Rightarrow> ('e, 'a) extractor"
and prusti_at :: "('e, 'a) syn_parser \<Rightarrow> nat \<Rightarrow> ('e, 'a) parser"
and conjunction_at :: "('e, 'a) syn_parser \<Rightarrow> nat \<Rightarrow> ('e, 'a) parser"
and conjuncts_at :: "('e, 'a) syn_parser \<Rightarrow> nat \<Rightarrow> ('e, 'a) list_parser"
and entailment_at :: "('e, 'a) syn_parser \<Rightarrow> nat \<Rightarrow> ('e, 'a) parser"
and rhs_at :: "('e, 'a) syn_parser \<Rightarrow> nat \<Rightarrow> bool \<Rightarrow> ('e, 'a) rhs_extractor"
and primary_at :: "('e, 'a) syn_parser \<Rightarrow> nat \<Rightarrow> ('e, 'a) parser"
and quantifier_at :: "('e, 'a) syn_parser \<Rightarrow> nat \<Rightarrow> bool \<Rightarrow> ('e, 'a) extractor" where
  "assertion_at sy 0 = (\<lambda>ts. Inl NoFuel)"
| "assertion_at sy (Suc n) = extract_assertion (prusti_at sy n)"
| "prusti_at sy 0 = (\<lambda>ts. Inl NoFuel)"
| "prusti_at sy (Suc n) = parse_prusti (conjunction_at sy n) (prusti_at sy n)"
| "conjunction_at sy 0 = (\<lambda>ts. Inl NoFuel)"
| "conjunction_at sy (Suc n) = parse_conjunction (entailment_at sy n) (conjuncts_at sy n)"
| "conjuncts_at sy 0 = (\<lambda>ts. Inl NoFuel)"
| "conjuncts_at sy (Suc n) = parse_conjuncts (entailment_at sy n) (conjuncts_at sy n)"
| "entailment_at sy 0 = (\<lambda>ts. Inl NoFuel)"
| "entailment_at sy (Suc n) = parse_entailment sy (primary_at sy n) (rhs_at sy n True)"
| "rhs_at sy 0 = (\<lambda>first ts. Inl NoFuel)"
| "rhs_at sy (Suc n) = extract_entailment_rhs (assertion_at sy n) (rhs_at sy n False)"
| "primary_at sy 0 = (\<lambda>ts. Inl NoFuel)"
| "primary_at sy (Suc n) = parse_primary (assertion_at sy n) (quantifier_at sy n)"
| "quantifier_at sy 0 = (\<lambda>exists ts. Inl NoFuel)"
| "quantifier_at sy (Suc n) = extract_quantifier_rhs sy (prusti_at sy n)"

definition fuel_for :: "tokens \<Rightarrow> nat" where
  "fuel_for ts = 5 * size_list size ts + 5"

definition parse_assertion :: "('e, 'a) syn_parser \<Rightarrow> ('e, 'a) extractor" where
  "parse_assertion sy ts = assertion_at sy (fuel_for ts) ts"

subsection \<open>Pledges\<close>

definition parse_pledge_assertion_only ::
  "('e, 'a) syn_parser \<Rightarrow> tokens \<Rightarrow> parse_error + ((unit, 'e) spec_expression option \<times> ('e, 'a) parsed) \<times> tokens" where
  "parse_pledge_assertion_only sy ts =
     bindE (if contains_operator ''=>'' ts then
              bindE (parse_rust_until sy ''=>'' ts) (\<lambda>(e, ts).
              Inr (Some e, case consume_operator ''=>'' ts of Some ts \<Rightarrow> ts | None \<Rightarrow> ts))
            else Inr (None, ts)) (\<lambda>(reference, ts).
     bindE (prusti_at sy (fuel_for ts) ts) (\<lambda>(a, ts). Inr ((reference, a), ts)))"

definition extract_pledge :: "('e, 'a) syn_parser \<Rightarrow> tokens \<Rightarrow> parse_error + (unit, 'e, 'a) pledge" where
  "extract_pledge sy ts =
     bindE (parse_pledge_assertion_only sy ts) (\<lambda>((reference, lhs), ts).
     bindE (unwrapE (Expected ''`,`'') (consume_operator '','' ts)) (\<lambda>ts.
     bindE (prusti_at sy (fuel_for ts) ts) (\<lambda>(rhs, ts).
     if ts = [] then Inr \<lparr>pl_reference = reference, pl_lhs = Some lhs, pl_rhs = rhs\<rparr> else Inl UnexpectedToken)))"

definition extract_pledge_rhs_only :: "('e, 'a) syn_parser \<Rightarrow> tokens \<Rightarrow> parse_error + (unit, 'e, 'a) pledge" where
  "extract_pledge_rhs_only sy ts =
     bindE (parse_pledge_assertion_only sy ts) (\<lambda>((reference, rhs), ts).
     if ts = [] then Inr \<lparr>pl_reference = reference, pl_lhs = None, pl_rhs = rhs\<rparr> else Inl UnexpectedToken)"

subsection \<open>The fuel is enough\<close>

abbreviation tokens_size :: "tokens \<Rightarrow> nat" where
  "tokens_size \<equiv> size_list size"

lemma consume_operator_size: "consume_operator operator ts = Some ts' \<Longrightarrow> operator \<noteq> [] \<Longrightarrow> tokens_size ts' < tokens_size ts"
proof -
  have drop: "tokens_size (drop k ts) \<le> tokens_size ts" for k ts
    by (induction ts arbitrary: k) (auto simp: drop_Cons split: nat.split intro: le_SucI trans_le_add2)
  assume a: "consume_operator operator ts = Some ts'" "operator \<noteq> []"
  then obtain c cs d us where "operator = c # cs" "ts = Punct d # us"
    by (cases "(operator, ts)" rule: peek_operator.cases) (auto simp: consume_operator_def split: if_splits)
  then show ?thesis using a drop [of "length cs" us] by (auto simp: consume_operator_def split: if_splits)
qed

lemma consume_keyword_size: "consume_keyword keyword ts = Some ts' \<Longrightarrow> tokens_size ts' < tokens_size ts"
  by (cases "(keyword, ts)" rule: peek_keyword.cases) (auto simp: consume_keyword_def split: if_splits)

lemma consume_group_size: "consume_group d ts = Some (stream, ts') \<Longrightarrow> tokens_size stream + tokens_size ts' + 2 \<le> tokens_size ts"
  by (cases "(d, ts)" rule: consume_group.cases) (auto split: if_splits)

lemma tokens_until_size: "tokens_until stop ts = (a, b) \<Longrightarrow> tokens_size a + tokens_size b = tokens_size ts"
  by (induction ts arbitrary: a) (auto split: if_splits prod.splits)

lemma or_syn_fuel [simp]: "or_syn r \<noteq> Inl NoFuel"
  by (cases r) (auto simp: or_syn_def)

lemma parse_rust_until_size:
  "parse_rust_until sy terminator ts \<noteq> Inl NoFuel"
  "parse_rust_until sy terminator ts = Inr (e, ts') \<Longrightarrow> tokens_size ts' < tokens_size ts"
proof -
  obtain a b where ab: "tokens_until (stops_rust terminator) ts = (a, b)" by (cases "tokens_until (stops_rust terminator) ts")
  show "parse_rust_until sy terminator ts \<noteq> Inl NoFuel"
    by (auto simp: parse_rust_until_def ab bindE_Inl_iff)
  show "tokens_size ts' < tokens_size ts" if "parse_rust_until sy terminator ts = Inr (e, ts')"
    using that tokens_until_size [OF ab] by (cases a) (auto simp: parse_rust_until_def ab fallible_simps split: if_splits)
qed

lemma parse_binders_size:
  "parse_binders sy ts \<noteq> Inl NoFuel"
  "parse_binders sy ts = Inr (vs, ts') \<Longrightarrow> tokens_size ts' < tokens_size ts"
proof -
  obtain a b where ab: "create_stream_until ''|'' ts = (a, b)" by (cases "create_stream_until ''|'' ts")
  show "parse_binders sy ts \<noteq> Inl NoFuel"
    by (auto simp: parse_binders_def ab bindE_Inl_iff unwrapE_def split: option.splits)
  show "tokens_size ts' < tokens_size ts" if "parse_binders sy ts = Inr (vs, ts')"
    using that tokens_until_size [OF ab [unfolded create_stream_until_def]] consume_operator_size [of "''|''" b ts']
    by (auto simp: parse_binders_def ab fallible_simps)
qed

lemma parse_triggers_fuel: "parse_triggers sy ts \<noteq> Inl NoFuel"
proof -
  have "mapE parse_trigger_item items \<noteq> Inl NoFuel" for items :: "'c array_item list"
    by (induction items) (auto simp: parse_trigger_item_def split: sum.splits array_item.splits)
  then show ?thesis
    by (auto simp: parse_triggers_def bindE_Inl_iff unwrapE_def map_sum_def split: option.splits sum.splits)
qed

definition enough :: "nat \<Rightarrow> nat \<Rightarrow> (tokens \<Rightarrow> parse_error + 'x) \<Rightarrow> bool" where
  "enough n k f \<longleftrightarrow> (\<forall>ts. 5 * tokens_size ts + k \<le> n \<longrightarrow> f ts \<noteq> Inl NoFuel)"

definition shrinks :: "(tokens \<Rightarrow> parse_error + 'x \<times> tokens) \<Rightarrow> bool" where
  "shrinks f \<longleftrightarrow> (\<forall>ts x ts'. f ts = Inr (x, ts') \<longrightarrow> tokens_size ts' < tokens_size ts)"

definition shrinks_eq :: "(tokens \<Rightarrow> parse_error + 'x \<times> tokens) \<Rightarrow> bool" where
  "shrinks_eq f \<longleftrightarrow> (\<forall>ts x ts'. f ts = Inr (x, ts') \<longrightarrow> tokens_size ts' \<le> tokens_size ts)"

lemma shrinkD: "shrinks f \<Longrightarrow> f ts = Inr (x, ts') \<Longrightarrow> tokens_size ts' < tokens_size ts"
  by (auto simp: shrinks_def)

lemma shrink_eqD: "shrinks_eq f \<Longrightarrow> f ts = Inr (x, ts') \<Longrightarrow> tokens_size ts' \<le> tokens_size ts"
  by (auto simp: shrinks_eq_def)

lemma enoughD: "enough n k f \<Longrightarrow> f ts = Inl NoFuel \<Longrightarrow> n < 5 * tokens_size ts + k"
  unfolding enough_def by (rule ccontr) auto

lemma parse_conjuncts_shrinks:
  assumes "shrinks e" "shrinks_eq c"
  shows "shrinks_eq (parse_conjuncts e c)"
  unfolding shrinks_eq_def parse_conjuncts_def
  by (auto simp: fallible_simps split: option.split_asm
      dest!: shrinkD [OF assms(1)] shrink_eqD [OF assms(2)] consume_operator_size)

lemma parse_conjunction_shrinks:
  assumes "shrinks e" "shrinks_eq c"
  shows "shrinks (parse_conjunction e c)"
  unfolding shrinks_def parse_conjunction_def
  by (auto simp: fallible_simps dest!: shrinkD [OF assms(1)] shrink_eqD [OF assms(2)])

lemma parse_prusti_shrinks:
  assumes "shrinks c" "shrinks p"
  shows "shrinks (parse_prusti c p)"
  unfolding shrinks_def parse_prusti_def
  by (auto simp: fallible_simps split: option.split_asm
      dest!: shrinkD [OF assms(1)] shrinkD [OF assms(2)] consume_operator_size)

lemma parse_primary_shrinks: "shrinks (parse_primary a q)"
  unfolding shrinks_def parse_primary_def
  by (auto simp: fallible_simps split: option.split_asm dest!: consume_group_size consume_keyword_size)

lemma parse_entailment_shrinks:
  assumes "shrinks p"
  shows "shrinks (parse_entailment sy p r)"
  unfolding shrinks_def parse_entailment_def
  by (auto simp: fallible_simps split: option.split_asm if_split_asm
      dest!: shrinkD [OF assms] consume_operator_size consume_group_size parse_rust_until_size(2) parse_binders_size(2))

lemma all_shrink:
  "shrinks (prusti_at sy n) \<and> shrinks (conjunction_at sy n) \<and> shrinks_eq (conjuncts_at sy n) \<and>
   shrinks (entailment_at sy n) \<and> shrinks (primary_at sy n)"
proof (induction n)
  case 0
  show ?case by (simp add: shrinks_def shrinks_eq_def)
next
  case (Suc n)
  then show ?case
    by (simp add: parse_conjuncts_shrinks parse_conjunction_shrinks parse_prusti_shrinks parse_primary_shrinks
      parse_entailment_shrinks)
qed

lemma all_enough:
  "enough n 5 (assertion_at sy n) \<and> enough n 4 (prusti_at sy n) \<and> enough n 3 (conjunction_at sy n) \<and>
   enough n 1 (conjuncts_at sy n) \<and> enough n 2 (entailment_at sy n) \<and> (\<forall>b. enough n 6 (rhs_at sy n b)) \<and>
   enough n 1 (primary_at sy n) \<and> (\<forall>b. enough n 5 (quantifier_at sy n b))"
proof (induction n)
  case 0
  show ?case by (simp add: enough_def)
next
  case (Suc n)
  have E: "enough n 5 (assertion_at sy n)" "enough n 4 (prusti_at sy n)" "enough n 3 (conjunction_at sy n)"
      "enough n 1 (conjuncts_at sy n)" "enough n 2 (entailment_at sy n)"
    using Suc by simp_all
  have S: "shrinks (conjunction_at sy n)" "shrinks (entailment_at sy n)" using all_shrink [of sy n] by simp_all
  note D = enoughD [OF E(1)] enoughD [OF E(2)] enoughD [OF E(3)] enoughD [OF E(4)] enoughD [OF E(5)]
    shrinkD [OF S(1)] shrinkD [OF S(2)] consume_operator_size
  have "enough (Suc n) 5 (extract_assertion (prusti_at sy n))"
    unfolding enough_def extract_assertion_def by (auto simp: bindE_Inl_iff dest!: D split: if_split_asm)
  moreover have "enough (Suc n) 4 (parse_prusti (conjunction_at sy n) (prusti_at sy n))"
    unfolding enough_def parse_prusti_def by (auto simp: bindE_Inl_iff dest!: D split: option.split_asm)
  moreover have "enough (Suc n) 3 (parse_conjunction (entailment_at sy n) (conjuncts_at sy n))"
    unfolding enough_def parse_conjunction_def by (auto simp: bindE_Inl_iff dest!: D)
  moreover have "enough (Suc n) 1 (parse_conjuncts (entailment_at sy n) (conjuncts_at sy n))"
    unfolding enough_def parse_conjuncts_def by (auto simp: bindE_Inl_iff dest!: D split: option.split_asm)
  moreover have "enough (Suc n) 2 (parse_entailment sy (primary_at sy n) (rhs_at sy n True))"
    unfolding enough_def
  proof (intro allI impI notI)
    fix ts assume fuel: "5 * tokens_size ts + 2 \<le> Suc n" and none: "parse_entailment sy (primary_at sy n) (rhs_at sy n True) ts = Inl NoFuel"
    have prim: "primary_at sy n ts \<noteq> Inl NoFuel" using Suc fuel enoughD [of n 1 "primary_at sy n" ts] by auto
    from none prim obtain e us vs where us: "parse_rust_until sy '','' ts = Inr (e, us)" "consume_operator ''|='' us = Some vs"
      and rest: "bindE (case consume_operator ''|'' vs of Some ts \<Rightarrow> parse_binders sy ts | None \<Rightarrow> Inr ([], vs)) (\<lambda>(vars, ts).
            bindE (unwrapE (Expected ''`[`'') (consume_group Bracket ts)) (\<lambda>(stream, ts).
            bindE (rhs_at sy n True stream) (\<lambda>(pres, posts). Inr (spec_entailment sy e vars pres posts, ts)))) = Inl NoFuel"
      using parse_rust_until_size(1) [of sy "'',''" ts]
      by (auto simp: parse_entailment_def bindE_Inl_iff split: if_splits option.splits)
    have vs: "tokens_size vs < tokens_size ts" using us parse_rust_until_size(2) consume_operator_size by fastforce
    have binders: "ws \<noteq> Inl NoFuel" "ws = Inr (as, xs) \<Longrightarrow> tokens_size xs < tokens_size ts"
      if "ws = (case consume_operator ''|'' vs of Some ts \<Rightarrow> parse_binders sy ts | None \<Rightarrow> Inr ([], vs))" for ws as xs
      using that vs parse_binders_size [of sy] consume_operator_size [of "''|''" vs]
      by (auto split: option.splits) (meson less_trans list.distinct(1))
    from rest binders(1) obtain as xs stream ys where xs: "tokens_size xs < tokens_size ts"
      "consume_group Bracket xs = Some (stream, ys)" "rhs_at sy n True stream = Inl NoFuel"
      using binders(2) by (auto simp: bindE_Inl_iff unwrapE_def split: option.splits)
    show False
      using xs consume_group_size [OF xs(2)] Suc enoughD [of n 6 "rhs_at sy n True" stream] fuel by auto
  qed
  moreover have "enough (Suc n) 6 (extract_entailment_rhs (assertion_at sy n) (rhs_at sy n False) b)" for b
    unfolding enough_def
  proof (intro allI impI notI)
    fix ts assume fuel: "5 * tokens_size ts + 6 \<le> Suc n" and none: "extract_entailment_rhs (assertion_at sy n) (rhs_at sy n False) b ts = Inl NoFuel"
    have no: "assertion_at sy n stream \<noteq> Inl NoFuel \<and> rhs_at sy n False ys \<noteq> Inl NoFuel"
      if "consume_group Parenthesis xs = Some (stream, ys)" "tokens_size xs \<le> tokens_size ts" for xs stream ys
      using consume_group_size [OF that(1)] that(2) Suc fuel enoughD [of n 5 "assertion_at sy n" stream]
        enoughD [of n 6 "rhs_at sy n False" ys] by auto
    have key: "tokens_size xs \<le> tokens_size ts" if "consume_keyword k us = Some xs" "us = ts \<or> consume_operator '','' ts = Some us" for k us xs
      using that consume_keyword_size [OF that(1)] consume_operator_size [of "'',''" ts us] by auto
    show False using none no key
      by (auto simp: extract_entailment_rhs_def bindE_Inl_iff unwrapE_def split: if_splits option.splits; blast)
  qed
  moreover have "enough (Suc n) 1 (parse_primary (assertion_at sy n) (quantifier_at sy n))"
    unfolding enough_def
  proof (intro allI impI notI)
    fix ts assume fuel: "5 * tokens_size ts + 1 \<le> Suc n" and none: "parse_primary (assertion_at sy n) (quantifier_at sy n) ts = Inl NoFuel"
    have no: "assertion_at sy n stream \<noteq> Inl NoFuel \<and> quantifier_at sy n b stream \<noteq> Inl NoFuel"
      if "consume_group Parenthesis xs = Some (stream, ys)" "tokens_size xs \<le> tokens_size ts" for xs stream ys b
      using consume_group_size [OF that(1)] that(2) Suc fuel enoughD [of n 5 "assertion_at sy n" stream]
        enoughD [of n 5 "quantifier_at sy n b" stream] by auto
    have key: "tokens_size xs \<le> tokens_size ts" if "consume_keyword k ts = Some xs" for k xs
      using consume_keyword_size [OF that] by simp
    show False using none no key
      by (auto simp: parse_primary_def bindE_Inl_iff unwrapE_def split: option.splits; blast)
  qed
  moreover have "enough (Suc n) 5 (extract_quantifier_rhs sy (prusti_at sy n) b)" for b
    unfolding enough_def
  proof (intro allI impI notI)
    fix ts assume fuel: "5 * tokens_size ts + 5 \<le> Suc n" and none: "extract_quantifier_rhs sy (prusti_at sy n) b ts = Inl NoFuel"
    then obtain us vs ws where "consume_operator ''|'' ts = Some us" "parse_binders sy us = Inr (vs, ws)" "prusti_at sy n ws = Inl NoFuel"
      using parse_binders_size(1) [of sy] parse_triggers_fuel [of sy]
      by (auto simp: extract_quantifier_rhs_def bindE_Inl_iff unwrapE_def assertE_def split: option.splits if_splits)
    then show False
      using consume_operator_size [of "''|''" ts us] parse_binders_size(2) [of sy us vs ws] Suc fuel enoughD [of n 4 "prusti_at sy n" ws]
      by auto
  qed
  ultimately show ?case by simp
qed

text \<open>
  C16 Parsing terminates for every list of tokens: the fuel given to the parser, which only depends on the size
  of the tokens, never runs out, so an assertion is found or one of the parser's own errors is reported.
\<close>

theorem parser_has_fuel: "parse_assertion sy ts \<noteq> Inl NoFuel"
  using all_enough [of "fuel_for ts" sy] unfolding parse_assertion_def enough_def fuel_for_def by auto

end
