(* ===== verification/Spec_Roundtrip.thy ===== *)
theory Spec_Roundtrip
  imports Spec_Parser
begin

section \<open>Printing and parsing specifications\<close>

text \<open>
  A printer that puts parentheses only where the precedence of the parser needs them, and the round trip: what it
  prints is parsed back.  The printer covers expressions, conjunctions, implications and quantifiers with
  triggers.  It gets the tokens of expressions, of lists of arguments and of arrays of triggers as arguments, with
  the hypothesis that \<open>syn\<close> reads them back.
\<close>

record ('e, 'a) token_printer =
  tp_expr :: "'e \<Rightarrow> tokens"
  tp_args :: "'a list \<Rightarrow> tokens"
  tp_array :: "'e list list \<Rightarrow> tokens"

definition op_tokens :: "string \<Rightarrow> tokens" where
  "op_tokens = map Punct"

definition trigger_tokens :: "('e, 'a) token_printer \<Rightarrow> (unit, 'e) trigger_set \<Rightarrow> tokens" where
  "trigger_tokens tp ts =
     (if ts = [] then []
      else op_tokens '','' @ [Ident ''triggers''] @ op_tokens ''='' @ tp_array tp (map (map sx_expr) ts))"

definition quantifier_tokens :: "('e, 'a) token_printer \<Rightarrow> 'a list \<Rightarrow> tokens \<Rightarrow> (unit, 'e) trigger_set \<Rightarrow> tokens" where
  "quantifier_tokens tp vars body ts =
     op_tokens ''|'' @ tp_args tp vars @ op_tokens ''|'' @ body @ trigger_tokens tp ts"

definition parens_if :: "bool \<Rightarrow> tokens \<Rightarrow> tokens" where
  "parens_if b ts = (if b then [Group Parenthesis ts] else ts)"

text \<open>
  The level is 0 where an implication may stand, 1 for a conjunction and 2 for its parts.  An expression with \<open>||\<close> is
  put into parentheses when it is a part of a conjunction: the parser rejects \<open>&&\<close> and \<open>||\<close> side by side.
\<close>

fun print_assertion :: "('e, 'a) token_printer \<Rightarrow> nat \<Rightarrow> ('e, 'a) parsed \<Rightarrow> tokens" where
  "print_assertion tp lvl (AExpr x) =
     parens_if (1 < lvl \<and> contains_operator ''||'' (tp_expr tp (sx_expr x))) (tp_expr tp (sx_expr x))"
| "print_assertion tp lvl (AAnd []) = [Group Parenthesis []]"
| "print_assertion tp lvl (AAnd (c # cs)) =
     parens_if (1 < lvl) (print_assertion tp 2 c @ concat (map (\<lambda>c. op_tokens ''&&'' @ print_assertion tp 2 c) cs))"
| "print_assertion tp lvl (AImplies l r) =
     parens_if (0 < lvl) (print_assertion tp 1 l @ op_tokens ''==>'' @ print_assertion tp 0 r)"
| "print_assertion tp lvl (AForAll vars ts body) =
     [Ident ''forall'', Group Parenthesis (quantifier_tokens tp (qv_vars vars) (print_assertion tp 0 body) ts)]"
| "print_assertion tp lvl (AExists vars ts body) =
     [Ident ''exists'', Group Parenthesis (quantifier_tokens tp (qv_vars vars) (print_assertion tp 0 body) ts)]"
| "print_assertion tp lvl _ = []"

subsection \<open>What can be printed\<close>

definition op_punct :: "token_tree \<Rightarrow> bool" where
  "op_punct t \<longleftrightarrow> t \<in> set (op_tokens ''|&=>,'')"

text \<open>
  The tokens of an expression: they do not start with a bar or end with a character of an operator of specifications; at
  the top level there is no \<open>&&\<close>, \<open>|=\<close>, \<open>==>\<close> or comma (a comma inside a group is fine), and \<open>==>\<close> is nowhere; no parenthesised
  part has \<open>&&\<close> and \<open>||\<close> side by side; and they are not taken for a quantifier or an assertion in parentheses.
\<close>

definition expr_tokens :: "tokens \<Rightarrow> bool" where
  "expr_tokens ts \<longleftrightarrow>
     ts \<noteq> [] \<and> hd ts \<noteq> Punct CHR ''|'' \<and> \<not> op_punct (last ts) \<and>
     list_all (\<lambda>op. \<not> contains_operator op ts) [''|='', ''&&'', ''==>'', '',''] \<and>
     \<not> contains_operator_recursive ''==>'' ts \<and> \<not> contains_both_and_or ts \<and>
     \<not> peek_keyword ''forall'' ts \<and> \<not> peek_keyword ''exists'' ts \<and> (peek_group Parenthesis ts \<longrightarrow> tl ts \<noteq> [])"

text \<open>The arguments and triggers of a quantifier: no \<open>&&\<close> or \<open>||\<close> at the top level, and not side by side in parentheses.\<close>

definition inner_ok :: "tokens \<Rightarrow> bool" where
  "inner_ok ts \<longleftrightarrow> list_all (\<lambda>t. case t of Group Parenthesis us \<Rightarrow> \<not> contains_both_and_or us | _ \<Rightarrow> True) ts"

definition no_logic :: "tokens \<Rightarrow> bool" where
  "no_logic ts \<longleftrightarrow> \<not> contains_operator ''&&'' ts \<and> \<not> contains_operator ''||'' ts \<and> inner_ok ts"

definition args_ok :: "('e, 'a) syn_parser \<Rightarrow> ('e, 'a) token_printer \<Rightarrow> (unit, 'a) quantifier_vars \<Rightarrow> bool" where
  "args_ok sy tp v \<longleftrightarrow>
     v = \<lparr>qv_spec_id = specification_id_dummy, qv_id = (), qv_vars = qv_vars v\<rparr> \<and>
     tp_args tp (qv_vars v) \<noteq> [] \<and> \<not> contains_operator ''|'' (tp_args tp (qv_vars v)) \<and>
     no_logic (tp_args tp (qv_vars v)) \<and>
     sy_args sy (tp_args tp (qv_vars v)) = Inr (qv_vars v)"

definition triggers_ok :: "('e, 'a) syn_parser \<Rightarrow> ('e, 'a) token_printer \<Rightarrow> (unit, 'e) trigger_set \<Rightarrow> bool" where
  "triggers_ok sy tp ts \<longleftrightarrow>
     ts = map (map without_id) (map (map sx_expr) ts) \<and>
     no_logic (tp_array tp (map (map sx_expr) ts)) \<and>
     sy_array sy (tp_array tp (map (map sx_expr) ts)) = Inr (map TupleItem (map (map sx_expr) ts))"

text \<open>The last part is not parenthesised, so that a comma can follow.\<close>

fun bare_part :: "('e, 'a) token_printer \<Rightarrow> ('e, 'a) parsed \<Rightarrow> bool" where
  "bare_part tp (AExpr x) = (\<not> contains_operator ''||'' (tp_expr tp (sx_expr x)))"
| "bare_part tp (AForAll _ _ _) = True"
| "bare_part tp (AExists _ _ _) = True"
| "bare_part tp _ = False"

definition bare_conjunction :: "('e, 'a) token_printer \<Rightarrow> ('e, 'a) parsed \<Rightarrow> bool" where
  "bare_conjunction tp a =
     (case a of AAnd cs \<Rightarrow> cs \<noteq> [] \<and> bare_part tp (last cs) | AExpr _ \<Rightarrow> True | _ \<Rightarrow> bare_part tp a)"

fun bare_tail :: "('e, 'a) token_printer \<Rightarrow> ('e, 'a) parsed \<Rightarrow> bool" where
  "bare_tail tp (AImplies _ r) = bare_tail tp r"
| "bare_tail tp a = bare_conjunction tp a"

fun printable :: "('e, 'a) syn_parser \<Rightarrow> ('e, 'a) token_printer \<Rightarrow> ('e, 'a) parsed \<Rightarrow> bool" where
  "printable sy tp (AExpr x) =
     (x = without_id (sx_expr x) \<and> expr_tokens (tp_expr tp (sx_expr x)) \<and>
      sy_expr sy (tp_expr tp (sx_expr x)) = Inr (sx_expr x))"
| "printable sy tp (AAnd cs) = (length cs \<noteq> 1 \<and> list_all (printable sy tp) cs)"
| "printable sy tp (AImplies l r) = (printable sy tp l \<and> printable sy tp r)"
| "printable sy tp (AForAll v ts body) =
     (args_ok sy tp v \<and> triggers_ok sy tp ts \<and> printable sy tp body \<and> (ts = [] \<or> bare_tail tp body))"
| "printable sy tp (AExists v ts body) =
     (args_ok sy tp v \<and> triggers_ok sy tp ts \<and> printable sy tp body \<and> (ts = [] \<or> bare_tail tp body))"
| "printable sy tp _ = False"

subsection \<open>Tokens at the seams\<close>

lemma op_tokens_simps [simp]: "op_tokens [] = []" "op_tokens (c # cs) = Punct c # op_tokens cs"
  by (simp_all add: op_tokens_def)

lemma peek_operator_append:
  "ts \<noteq> [] \<Longrightarrow> \<not> op_punct (last ts) \<Longrightarrow> set op \<subseteq> set ''|&=>,'' \<Longrightarrow>
   peek_operator op (ts @ rest) = peek_operator op ts"
proof (induction op ts rule: peek_operator.induct)
  case (2 c cs d ts)
  then show ?case by (cases ts) (auto simp: op_punct_def)
qed auto

lemma tokens_until_seam:
  assumes "\<And>i. i < length ts \<Longrightarrow> \<not> stop (drop i ts @ rest)" "rest = [] \<or> stop rest"
  shows "tokens_until stop (ts @ rest) = (ts, rest)"
  using assms(1)
proof (induction ts)
  case Nil
  then show ?case using assms(2) by (cases rest) auto
next
  case (Cons t ts)
  have "tokens_until stop (ts @ rest) = (ts, rest)" by (rule Cons.IH) (use Cons.prems [of "Suc i" for i] in auto)
  then show ?case using Cons.prems [of 0] by simp
qed

lemma contains_operator_drop: "contains_operator op (drop i ts) \<Longrightarrow> contains_operator op ts"
  by (induction ts arbitrary: i) (auto simp: drop_Cons split: nat.split_asm)

lemma contains_peek: "ts \<noteq> [] \<Longrightarrow> peek_operator op ts \<Longrightarrow> contains_operator op ts"
  by (cases ts) auto

lemma no_operator_inside:
  assumes "\<not> contains_operator op ts" "\<not> op_punct (last ts)" "set op \<subseteq> set ''|&=>,''" "i < length ts"
  shows "\<not> peek_operator op (drop i ts @ rest)"
proof -
  have "last (drop i ts) = last ts" using assms(4) by simp
  then show ?thesis
    using peek_operator_append [of "drop i ts" op rest] contains_peek [of "drop i ts" op] contains_operator_drop [of op i ts] assms
    by auto
qed

text \<open>What may follow: the end, one of some operators, or a comma.\<close>

definition follows :: "string list \<Rightarrow> bool \<Rightarrow> tokens \<Rightarrow> bool" where
  "follows ops bare rest \<longleftrightarrow>
     rest = [] \<or> list_ex (\<lambda>op. peek_operator op rest) ops \<or> bare \<and> peek_operator '','' rest"

lemma peek_operator_Cons: "peek_operator (c # cs) ts \<Longrightarrow> \<exists>us. ts = Punct c # us \<and> peek_operator cs us"
  by (cases "(c # cs, ts)" rule: peek_operator.cases) auto

lemmas peek_cases = peek_operator_Cons [of "CHR ''&''"] peek_operator_Cons [of "CHR ''=''"] peek_operator_Cons [of "CHR '',''"]

lemma no_bar: "\<not> contains_operator ''|'' ts \<Longrightarrow> t \<in> set ts \<Longrightarrow> t \<noteq> Punct CHR ''|''"
  by (induction ts) auto

lemma parse_expr_seam:
  assumes "expr_tokens ts" "sy_expr sy ts = Inr e" "follows [''&&'', ''==>''] True rest"
  shows "parse_entailment sy prim rhs (ts @ rest) = Inr (AExpr (without_id e), rest)"
proof -
  have inside: "\<not> peek_operator op (drop i ts @ rest)" if "op \<in> {''|='', ''&&'', ''==>'', '',''}" "i < length ts" for op i
    by (rule no_operator_inside) (use assms(1) that in \<open>auto simp: expr_tokens_def\<close>)
  have stop: "rest = [] \<or> stops_rust '','' rest" using assms(3) by (auto simp: follows_def stops_rust_def)
  have until: "tokens_until (stops_rust '','') (ts @ rest) = (ts, rest)"
    using tokens_until_seam [where stop = "stops_rust '',''" and ts = ts and rest = rest] inside stop
    by (auto simp: stops_rust_def)
  have rust: "parse_rust_until sy '','' (ts @ rest) = Inr (without_id e, rest)"
    using assms(1,2) by (simp add: parse_rust_until_def until expr_tokens_def or_syn_def)
  have no: "consume_operator ''|='' rest = None"
    using assms(3) by (auto simp: follows_def consume_operator_def dest: peek_cases)
  obtain t us where ts: "ts = t # us" using assms(1) by (cases ts) (auto simp: expr_tokens_def)
  have part: "is_part_of_rust_expr (ts @ rest)" if "peek_group Parenthesis ts"
  proof -
    have "us \<noteq> []" using assms(1) that ts by (auto simp: expr_tokens_def)
    then show ?thesis using inside [of _ 1] ts by (cases us) auto
  qed
  have "peek_group Parenthesis (ts @ rest) = peek_group Parenthesis ts" "peek_keyword k (ts @ rest) = peek_keyword k ts" for k
    using ts by (cases t; simp)+
  then show ?thesis using part rust no assms(1) by (auto simp: parse_entailment_def expr_tokens_def)
qed

subsection \<open>What is printed is not ambiguous\<close>

lemma peek_before: "peek_operator op (xs @ Punct c # zs) \<Longrightarrow> xs \<noteq> [] \<Longrightarrow> c \<notin> set op \<Longrightarrow> peek_operator op xs"
proof (induction op xs rule: peek_operator.induct)
  case (2 c' cs d ts)
  then show ?case by (cases "ts = []"; cases cs) auto
qed auto

lemma contains_append:
  assumes "xs = [] \<or> \<not> op_punct (last xs)" "set op \<subseteq> set ''|&=>,''"
  shows "contains_operator op (xs @ ys) \<longleftrightarrow> contains_operator op xs \<or> contains_operator op ys"
  using assms(1)
proof (induction xs)
  case (Cons x xs)
  have "peek_operator op ((x # xs) @ ys) = peek_operator op (x # xs)"
    by (rule peek_operator_append) (use Cons.prems assms(2) in auto)
  then show ?case using Cons by (cases "xs = []") auto
qed simp

lemma inner_ok_simps [simp]:
  "inner_ok []" "inner_ok (Punct c # ts) = inner_ok ts" "inner_ok (Ident i # ts) = inner_ok ts"
  "inner_ok (xs @ ys) \<longleftrightarrow> inner_ok xs \<and> inner_ok ys"
  by (simp_all add: inner_ok_def)

lemma inner_ok_Cons: "inner_ok (t # ts) \<longleftrightarrow> inner_ok [t] \<and> inner_ok ts"
  by (simp add: inner_ok_def)

lemma both_group [simp]:
  "contains_both_and_or [Group Parenthesis ts] = contains_both_and_or ts"
  "contains_both_and_or [Ident k, Group Parenthesis ts] = contains_both_and_or ts"
  by (simp_all add: contains_both_and_or_def)

lemma inner_of_unambiguous: "\<not> both_and_or a b ts \<Longrightarrow> inner_ok ts"
proof (induction a b ts rule: both_and_or.induct)
  case (2 a b t ts)
  then show ?case
    by (cases t) (auto simp: inner_ok_def contains_both_and_or_def split: if_splits delimiter.splits)
qed simp

text \<open>Only one of the two operators.\<close>

lemma unambiguous_one:
  "inner_ok ts \<Longrightarrow> \<not> a \<and> \<not> contains_operator ''&&'' ts \<or> \<not> b \<and> \<not> contains_operator ''||'' ts \<Longrightarrow> \<not> both_and_or a b ts"
proof (induction a b ts rule: both_and_or.induct)
  case (2 a b t ts)
  then show ?case
    by (cases t) (auto simp: inner_ok_def contains_both_and_or_def split: delimiter.splits)
qed simp

text \<open>An implication separates its sides.\<close>

lemma unambiguous_implies:
  "xs = [] \<or> \<not> op_punct (last xs) \<Longrightarrow> \<not> both_and_or a b xs \<Longrightarrow> \<not> both_and_or False False ys \<Longrightarrow>
   \<not> both_and_or a b (xs @ op_tokens ''==>'' @ ys)"
proof (induction xs arbitrary: a b)
  case (Cons x xs)
  have "peek_operator op ((x # xs) @ zs) = peek_operator op (x # xs)" if "set op \<subseteq> set ''|&=>,''" for op zs
    by (rule peek_operator_append) (use Cons.prems(1) that in auto)
  note peek = this [of "''&&''"] this [of "''||''"] this [of "''==>''"]
  have last: "xs = [] \<or> \<not> op_punct (last xs)" using Cons.prems(1) by auto
  show ?case using Cons.prems(2,3) Cons.IH [OF last] peek by (auto split: if_splits)
qed simp

lemma unambiguous_append:
  "xs = [] \<or> \<not> op_punct (last xs) \<Longrightarrow> \<not> both_and_or a b xs \<Longrightarrow> \<not> (a \<and> b) \<Longrightarrow> no_logic ys \<Longrightarrow>
   \<not> both_and_or a b (xs @ ys)"
proof (induction xs arbitrary: a b)
  case Nil
  then show ?case using unambiguous_one [of ys a b] by (auto simp: no_logic_def)
next
  case (Cons x xs)
  have "peek_operator op ((x # xs) @ zs) = peek_operator op (x # xs)" if "set op \<subseteq> set ''|&=>,''" for op zs
    by (rule peek_operator_append) (use Cons.prems(1) that in auto)
  note peek = this [of "''&&''"] this [of "''||''"] this [of "''==>''"]
  have last: "xs = [] \<or> \<not> op_punct (last xs)" using Cons.prems(1) by auto
  show ?case using Cons.prems(2,3,4) Cons.IH [OF last] peek by (auto split: if_splits)
qed

text \<open>The arguments of a quantifier and the bars around them do not count.\<close>

lemma unambiguous_args:
  "no_logic as \<Longrightarrow> Punct CHR ''|'' \<notin> set as \<Longrightarrow>
   both_and_or False False (as @ Punct CHR ''|'' # zs) = both_and_or False False (Punct CHR ''|'' # zs)"
proof (induction as)
  case (Cons x as)
  have no: "\<not> peek_operator ''&&'' ((x # as) @ Punct CHR ''|'' # zs)"
    using peek_before [of "''&&''" "x # as" "CHR ''|''" zs] Cons.prems(1) by (auto simp: no_logic_def)
  have nor: "\<not> peek_operator ''||'' ((x # as) @ Punct CHR ''|'' # zs)" using Cons.prems(2) by (cases x) auto
  have "no_logic as" "inner_ok [x]" using Cons.prems(1) inner_ok_Cons [of x as] by (auto simp: no_logic_def)
  then have "both_and_or False False (as @ Punct CHR ''|'' # zs) = both_and_or False False (Punct CHR ''|'' # zs)"
    and group: "\<not> (case x of Group Parenthesis us \<Rightarrow> both_and_or False False us | _ \<Rightarrow> False)"
    using Cons by (auto simp: inner_ok_def contains_both_and_or_def split: token_tree.splits delimiter.splits)
  then show ?case using no nor by simp
qed simp

lemma both_bar: "zs = [] \<or> hd zs \<noteq> Punct CHR ''|'' \<Longrightarrow> both_and_or False False (Punct CHR ''|'' # zs) = both_and_or False False zs"
  by (cases zs; cases "hd zs") auto

lemma print_ends:
  "printable sy tp a \<Longrightarrow> print_assertion tp lvl a \<noteq> [] \<and> hd (print_assertion tp lvl a) \<noteq> Punct CHR ''|'' \<and>
   \<not> op_punct (last (print_assertion tp lvl a))"
proof (induction tp lvl a rule: print_assertion.induct)
  case (1 tp lvl x)
  then show ?case by (simp add: expr_tokens_def parens_if_def op_punct_def)
next
  case (3 tp lvl c cs)
  have c: "print_assertion tp 2 c \<noteq> [] \<and> hd (print_assertion tp 2 c) \<noteq> Punct CHR ''|'' \<and> \<not> op_punct (last (print_assertion tp 2 c))"
    using 3 by simp
  have cs: "print_assertion tp 2 d \<noteq> [] \<and> \<not> op_punct (last (print_assertion tp 2 d))" if "d \<in> set cs" for d
    using 3 that by (auto simp: list_all_iff)
  have "\<not> op_punct (last (concat (map (\<lambda>c. op_tokens ''&&'' @ print_assertion tp 2 c) ds)))"
    if "set ds \<subseteq> set cs" "ds \<noteq> []" for ds
    using that(2,1) by (induction ds rule: list_nonempty_induct) (auto dest: cs)
  then show ?case using c by (cases "cs = []") (auto simp: parens_if_def op_punct_def)
qed (auto simp: parens_if_def op_punct_def)

lemma triggers_no_logic: "triggers_ok sy tp ts \<Longrightarrow> no_logic (trigger_tokens tp ts)"
  by (auto simp: triggers_ok_def trigger_tokens_def no_logic_def)

lemma quantifier_unambiguous:
  assumes "args_ok sy tp v" "triggers_ok sy tp ts" "\<not> contains_both_and_or body" "body \<noteq> []" "hd body \<noteq> Punct CHR ''|''"
    "\<not> op_punct (last body)"
  shows "\<not> contains_both_and_or (quantifier_tokens tp (qv_vars v) body ts)"
proof -
  let ?as = "tp_args tp (qv_vars v)" and ?rest = "body @ trigger_tokens tp ts"
  have as: "?as \<noteq> []" "no_logic ?as" "Punct CHR ''|'' \<notin> set ?as"
    using assms(1) no_bar [of ?as] by (auto simp: args_ok_def)
  have "\<not> both_and_or False False ?rest"
    using unambiguous_append [of body False False "trigger_tokens tp ts"] assms(3,6) triggers_no_logic [OF assms(2)]
    by (simp add: contains_both_and_or_def)
  moreover have "?rest = [] \<or> hd ?rest \<noteq> Punct CHR ''|''" using assms(4,5) by (auto simp: op_punct_def)
  ultimately have "\<not> both_and_or False False (?as @ Punct CHR ''|'' # ?rest)"
    using unambiguous_args [OF as(2,3)] both_bar by metis
  moreover have "hd (?as @ Punct CHR ''|'' # ?rest) \<noteq> Punct CHR ''|''" using as(1,3) by (cases ?as) auto
  ultimately have "\<not> both_and_or False False (Punct CHR ''|'' # (?as @ Punct CHR ''|'' # ?rest))"
    using both_bar by metis
  then show ?thesis by (simp add: contains_both_and_or_def quantifier_tokens_def)
qed

definition settled :: "nat \<Rightarrow> tokens \<Rightarrow> bool" where
  "settled lvl ts \<longleftrightarrow> \<not> contains_both_and_or ts \<and> (1 < lvl \<longrightarrow> \<not> contains_operator ''||'' ts)"

lemma settled_group: "\<not> contains_both_and_or ts \<Longrightarrow> settled lvl [Group Parenthesis ts]"
  by (simp add: settled_def)

lemma settled_keyword: "\<not> contains_both_and_or ts \<Longrightarrow> settled lvl [Ident k, Group Parenthesis ts]"
  by (simp add: settled_def)

lemma print_settled: "printable sy tp a \<Longrightarrow> settled lvl (print_assertion tp lvl a)"
proof (induction tp lvl a rule: print_assertion.induct)
  case (1 tp lvl x)
  then show ?case using settled_group by (auto simp: parens_if_def expr_tokens_def settled_def)
next
  case (3 tp lvl c cs)
  have parts: "settled 2 (print_assertion tp 2 d) \<and> \<not> op_punct (last (print_assertion tp 2 d)) \<and> print_assertion tp 2 d \<noteq> []"
    if "d \<in> set (c # cs)" for d
    using that 3 print_ends [of sy tp d 2] by (auto simp: list_all_iff)
  have plain: "\<not> contains_operator ''||'' (print_assertion tp 2 d)" "inner_ok (print_assertion tp 2 d)" if "d \<in> set (c # cs)" for d
    using parts [OF that] inner_of_unambiguous [of False False] by (auto simp: settled_def contains_both_and_or_def)
  have "\<not> contains_operator ''||'' (concat (map (\<lambda>c. op_tokens ''&&'' @ print_assertion tp 2 c) ds)) \<and>
      inner_ok (concat (map (\<lambda>c. op_tokens ''&&'' @ print_assertion tp 2 c) ds))" if "set ds \<subseteq> set cs" for ds
    using that
  proof (induction ds)
    case (Cons d ds)
    then have "d \<in> set (c # cs)" by auto
    then show ?case using Cons parts plain by (simp add: contains_append)
  qed simp
  then have "\<not> contains_operator ''||'' (print_assertion tp 1 (AAnd (c # cs))) \<and> inner_ok (print_assertion tp 1 (AAnd (c # cs)))"
    using parts [of c] plain [of c] by (simp add: parens_if_def contains_append)
  then have "\<not> contains_both_and_or (print_assertion tp 1 (AAnd (c # cs)))"
    using unambiguous_one [of _ False False] by (simp add: contains_both_and_or_def)
  then show ?case using settled_group by (simp add: parens_if_def settled_def)
next
  case (4 tp lvl l r)
  then have ok: "printable sy tp l" "printable sy tp r" by simp_all
  have "\<not> contains_both_and_or (print_assertion tp 0 (AImplies l r))"
    using 4 ok print_ends [OF ok(1), of 1] unambiguous_implies [of "print_assertion tp 1 l" False False "print_assertion tp 0 r"]
    by (simp add: parens_if_def settled_def contains_both_and_or_def)
  then show ?case using settled_group by (auto simp: parens_if_def settled_def)
next
  case (5 tp lvl v ts body)
  then show ?case using quantifier_unambiguous [of sy tp v ts "print_assertion tp 0 body"] print_ends [of sy tp body 0]
    by (simp add: settled_keyword settled_def)
next
  case (6 tp lvl v ts body)
  then show ?case using quantifier_unambiguous [of sy tp v ts "print_assertion tp 0 body"] print_ends [of sy tp body 0]
    by (simp add: settled_keyword settled_def)
qed (auto simp: parens_if_def settled_def contains_both_and_or_def)

subsection \<open>Parsing what is printed\<close>

definition gives :: "(tokens \<Rightarrow> parse_error + 'x) \<Rightarrow> tokens \<Rightarrow> 'x \<Rightarrow> bool" where
  "gives f ts x \<longleftrightarrow> f ts \<noteq> Inl NoFuel \<longrightarrow> f ts = Inr x"

definition conjunct_tokens :: "('e, 'a) token_printer \<Rightarrow> ('e, 'a) parsed list \<Rightarrow> tokens" where
  "conjunct_tokens tp cs = concat (map (\<lambda>c. op_tokens ''&&'' @ print_assertion tp 2 c) cs)"

text \<open>An expression that is printed without parentheses wherever it stands.\<close>

definition bare_expr :: "('e, 'a) token_printer \<Rightarrow> ('e, 'a) parsed \<Rightarrow> bool" where
  "bare_expr tp a \<longleftrightarrow> (\<exists>x. a = AExpr x \<and> bare_part tp a)"

definition parses_expr :: "('e, 'a) syn_parser \<Rightarrow> ('e, 'a) token_printer \<Rightarrow> ('e, 'a) parser \<Rightarrow> bool" where
  "parses_expr sy tp f \<longleftrightarrow>
     (\<forall>x rest. printable sy tp (AExpr x) \<longrightarrow> follows [''&&'', ''==>''] True rest \<longrightarrow>
        gives f (tp_expr tp (sx_expr x) @ rest) (AExpr x, rest))"

definition parses_primary :: "('e, 'a) syn_parser \<Rightarrow> ('e, 'a) token_printer \<Rightarrow> ('e, 'a) parser \<Rightarrow> bool" where
  "parses_primary sy tp f \<longleftrightarrow>
     (\<forall>a rest. printable sy tp a \<longrightarrow> \<not> bare_expr tp a \<longrightarrow> gives f (print_assertion tp 2 a @ rest) (a, rest))"

definition parses_part :: "('e, 'a) syn_parser \<Rightarrow> ('e, 'a) token_printer \<Rightarrow> ('e, 'a) parser \<Rightarrow> bool" where
  "parses_part sy tp f \<longleftrightarrow>
     (\<forall>a rest. printable sy tp a \<longrightarrow> follows [''&&'', ''==>''] (bare_part tp a) rest \<longrightarrow>
        gives f (print_assertion tp 2 a @ rest) (a, rest))"

definition parses_conjuncts :: "('e, 'a) syn_parser \<Rightarrow> ('e, 'a) token_printer \<Rightarrow> ('e, 'a) list_parser \<Rightarrow> bool" where
  "parses_conjuncts sy tp f \<longleftrightarrow>
     (\<forall>cs rest. list_all (printable sy tp) cs \<longrightarrow> follows [''==>''] (cs = [] \<or> bare_part tp (last cs)) rest \<longrightarrow>
        gives f (conjunct_tokens tp cs @ rest) (cs, rest))"

definition parses_conjunction :: "('e, 'a) syn_parser \<Rightarrow> ('e, 'a) token_printer \<Rightarrow> ('e, 'a) parser \<Rightarrow> bool" where
  "parses_conjunction sy tp f \<longleftrightarrow>
     (\<forall>a rest. printable sy tp a \<longrightarrow> follows [''==>''] (bare_conjunction tp a) rest \<longrightarrow>
        gives f (print_assertion tp 1 a @ rest) (a, rest))"

definition parses_prusti :: "('e, 'a) syn_parser \<Rightarrow> ('e, 'a) token_printer \<Rightarrow> ('e, 'a) parser \<Rightarrow> bool" where
  "parses_prusti sy tp f \<longleftrightarrow>
     (\<forall>a rest. printable sy tp a \<longrightarrow> follows [] (bare_tail tp a) rest \<longrightarrow>
        gives f (print_assertion tp 0 a @ rest) (a, rest))"

definition parses_assertion :: "('e, 'a) syn_parser \<Rightarrow> ('e, 'a) token_printer \<Rightarrow> ('e, 'a) extractor \<Rightarrow> bool" where
  "parses_assertion sy tp f \<longleftrightarrow>
     gives f [] (AAnd []) \<and> (\<forall>a. printable sy tp a \<longrightarrow> gives f (print_assertion tp 0 a) a)"

definition parses_quantifier ::
  "('e, 'a) syn_parser \<Rightarrow> ('e, 'a) token_printer \<Rightarrow> (bool \<Rightarrow> ('e, 'a) extractor) \<Rightarrow> bool" where
  "parses_quantifier sy tp f \<longleftrightarrow>
     (\<forall>v ts body. args_ok sy tp v \<longrightarrow> triggers_ok sy tp ts \<longrightarrow> printable sy tp body \<longrightarrow> (ts = [] \<or> bare_tail tp body) \<longrightarrow>
        gives (f False) (quantifier_tokens tp (qv_vars v) (print_assertion tp 0 body) ts) (AForAll v ts body) \<and>
        gives (f True) (quantifier_tokens tp (qv_vars v) (print_assertion tp 0 body) ts) (AExists v ts body))"

lemma consume_op_tokens [simp]: "consume_operator op (op_tokens op @ rest) = Some rest"
proof -
  have "peek_operator op (op_tokens op @ rest) \<and> drop (length op) (op_tokens op @ rest) = rest" by (induction op) auto
  then show ?thesis by (simp add: consume_operator_def)
qed

lemma follows_not:
  assumes "follows ops b rest" "op \<in> {''&&'', ''==>'', ''|=''}" "op \<notin> set ops" "set ops \<subseteq> {''&&'', ''==>''}"
  shows "consume_operator op rest = None"
proof -
  have "\<not> peek_operator op rest"
    using assms by (auto simp: follows_def list_ex_iff dest!: peek_cases peek_operator_Cons [of _ _ rest])
  then show ?thesis by (simp add: consume_operator_def)
qed

lemma follows_mono: "follows ops b rest \<Longrightarrow> set ops \<subseteq> set ops' \<Longrightarrow> (b \<longrightarrow> b') \<Longrightarrow> follows ops' b' rest"
  by (auto simp: follows_def list_ex_iff)

lemma assertion_step:
  assumes "parses_prusti sy tp f"
  shows "parses_assertion sy tp (extract_assertion f)"
proof -
  have "gives (extract_assertion f) (print_assertion tp 0 a) a" if "printable sy tp a" for a
  proof -
    have "gives f (print_assertion tp 0 a @ []) (a, [])"
      using assms that unfolding parses_prusti_def by (simp add: follows_def)
    then show ?thesis
      using print_ends [OF that, of 0] print_settled [OF that, of 0]
      by (auto simp: gives_def extract_assertion_def settled_def)
  qed
  then show ?thesis by (simp add: parses_assertion_def gives_def extract_assertion_def)
qed

lemma prusti_step:
  assumes "parses_conjunction sy tp c" "parses_prusti sy tp f"
  shows "parses_prusti sy tp (parse_prusti c f)"
  unfolding parses_prusti_def
proof (intro allI impI)
  fix a :: "('a, 'b) parsed" and rest
  assume ok: "printable sy tp a" and follows: "follows [] (bare_tail tp a) rest"
  have no: "consume_operator ''==>'' rest = None" by (rule follows_not [OF follows]) auto
  show "gives (parse_prusti c f) (print_assertion tp 0 a @ rest) (a, rest)"
  proof (cases "\<exists>l r. a = AImplies l r")
    case True
    then obtain l r where a: "a = AImplies l r" by blast
    let ?rest = "op_tokens ''==>'' @ print_assertion tp 0 r @ rest"
    have "follows [''==>''] (bare_conjunction tp l) ?rest" by (simp add: follows_def)
    then have "gives c (print_assertion tp 1 l @ ?rest) (l, ?rest)"
      using assms(1) ok a unfolding parses_conjunction_def by simp
    moreover have "gives f (print_assertion tp 0 r @ rest) (r, rest)"
      using assms(2) ok a follows unfolding parses_prusti_def by simp
    moreover have "consume_operator ''==>'' ?rest = Some (print_assertion tp 0 r @ rest)" by (rule consume_op_tokens)
    ultimately show ?thesis
      unfolding gives_def parse_prusti_def a by (auto simp: parens_if_def simp del: consume_op_tokens)
  next
    case False
    then have same: "bare_tail tp a = bare_conjunction tp a" "print_assertion tp 0 a = print_assertion tp 1 a"
      using ok by (cases "(tp, 0::nat, a)" rule: print_assertion.cases; simp add: parens_if_def)+
    have "follows [''==>''] (bare_conjunction tp a) rest" by (rule follows_mono [OF follows]) (simp_all add: same)
    then have "gives c (print_assertion tp 1 a @ rest) (a, rest)"
      using assms(1) ok unfolding parses_conjunction_def by simp
    then show ?thesis using no unfolding gives_def parse_prusti_def same by auto
  qed
qed

lemma conjunction_step:
  assumes "parses_part sy tp e" "parses_conjuncts sy tp cs" "parses_expr sy tp e"
  shows "parses_conjunction sy tp (parse_conjunction e cs)"
  unfolding parses_conjunction_def
proof (intro allI impI)
  fix a :: "('a, 'b) parsed" and rest
  assume ok: "printable sy tp a" and follows: "follows [''==>''] (bare_conjunction tp a) rest"
  show "gives (parse_conjunction e cs) (print_assertion tp 1 a @ rest) (a, rest)"
  proof (cases "\<exists>d ds. a = AAnd (d # ds)")
    case True
    then obtain d ds where a: "a = AAnd (d # ds)" by blast
    then have ds: "ds \<noteq> []" "list_all (printable sy tp) ds" "printable sy tp d" using ok by auto
    let ?rest = "conjunct_tokens tp ds @ rest"
    have "follows [''&&'', ''==>''] (bare_part tp d) ?rest"
      using ds(1) by (cases ds) (simp_all add: follows_def conjunct_tokens_def)
    then have "gives e (print_assertion tp 2 d @ ?rest) (d, ?rest)"
      using assms(1) ds(3) unfolding parses_part_def by simp
    moreover have "follows [''==>''] (ds = [] \<or> bare_part tp (last ds)) rest"
      by (rule follows_mono [OF follows]) (simp_all add: a ds(1) bare_conjunction_def)
    then have "gives cs ?rest (ds, rest)"
      using assms(2) ds(2) unfolding parses_conjuncts_def by simp
    ultimately show ?thesis
      using ds(1) unfolding gives_def parse_conjunction_def a by (auto simp: parens_if_def conjunct_tokens_def)
  next
    case False
    have "gives e (print_assertion tp 1 a @ rest) (a, rest)"
    proof (cases "\<exists>x. a = AExpr x")
      case True
      then obtain x where a: "a = AExpr x" by blast
      have "follows [''&&'', ''==>''] True rest" by (rule follows_mono [OF follows]) simp_all
      then show ?thesis using assms(3) ok a unfolding parses_expr_def by (simp add: parens_if_def)
    next
      case other: False
      then have same: "bare_conjunction tp a = bare_part tp a" "print_assertion tp 1 a = print_assertion tp 2 a"
        using ok False by (cases "(tp, 1::nat, a)" rule: print_assertion.cases; simp add: parens_if_def bare_conjunction_def)+
      have "follows [''&&'', ''==>''] (bare_part tp a) rest" by (rule follows_mono [OF follows]) (simp_all add: same)
      then show ?thesis using assms(1) ok same unfolding parses_part_def by simp
    qed
    moreover have "follows [''==>''] (([] :: ('a, 'b) parsed list) = [] \<or> bare_part tp (last ([] :: ('a, 'b) parsed list))) rest"
      by (rule follows_mono [OF follows]) simp_all
    then have "gives cs (conjunct_tokens tp [] @ rest) ([], rest)"
      using assms(2) [unfolded parses_conjuncts_def, rule_format, of "[]" rest] by simp
    ultimately show ?thesis unfolding gives_def parse_conjunction_def by (auto simp: conjunct_tokens_def)
  qed
qed

lemma conjuncts_step:
  assumes "parses_part sy tp e" "parses_conjuncts sy tp f"
  shows "parses_conjuncts sy tp (parse_conjuncts e f)"
  unfolding parses_conjuncts_def
proof (intro allI impI)
  fix cs :: "('a, 'b) parsed list" and rest
  assume ok: "list_all (printable sy tp) cs" and follows: "follows [''==>''] (cs = [] \<or> bare_part tp (last cs)) rest"
  have no: "consume_operator ''&&'' rest = None" by (rule follows_not [OF follows]) auto
  show "gives (parse_conjuncts e f) (conjunct_tokens tp cs @ rest) (cs, rest)"
  proof (cases cs)
    case Nil
    then show ?thesis using no by (simp add: gives_def parse_conjuncts_def conjunct_tokens_def)
  next
    case (Cons d ds)
    let ?rest = "conjunct_tokens tp ds @ rest"
    have "follows [''&&'', ''==>''] (bare_part tp d) ?rest"
    proof (cases ds)
      case Nil
      then show ?thesis
        using follows_mono [OF follows, of "[''&&'', ''==>'']" "bare_part tp d"] Cons by (simp add: conjunct_tokens_def)
    qed (simp add: follows_def conjunct_tokens_def)
    then have part: "gives e (print_assertion tp 2 d @ ?rest) (d, ?rest)"
      using assms(1) ok Cons unfolding parses_part_def by simp
    have "follows [''==>''] (ds = [] \<or> bare_part tp (last ds)) rest"
      by (rule follows_mono [OF follows]) (auto simp: Cons)
    then have rest: "gives f ?rest (ds, rest)"
      using assms(2) ok Cons unfolding parses_conjuncts_def by simp
    have consumed: "consume_operator ''&&'' (conjunct_tokens tp cs @ rest) = Some (print_assertion tp 2 d @ ?rest)"
      using consume_op_tokens [of "''&&''" "print_assertion tp 2 d @ ?rest"] by (simp add: Cons conjunct_tokens_def)
    show ?thesis
      using part rest unfolding gives_def parse_conjuncts_def consumed by (auto simp: Cons)
  qed
qed

lemma expr_step: "parses_expr sy tp (parse_entailment sy p r)"
  unfolding parses_expr_def
proof (intro allI impI)
  fix x :: "(unit, 'a) spec_expression" and rest
  assume "printable sy tp (AExpr x)" "follows [''&&'', ''==>''] True rest"
  then show "gives (parse_entailment sy p r) (tp_expr tp (sx_expr x) @ rest) (AExpr x, rest)"
    using parse_expr_seam [of "tp_expr tp (sx_expr x)" sy "sx_expr x" rest p r] by (auto simp: gives_def)
qed

lemma part_step:
  assumes "parses_primary sy tp p"
  shows "parses_part sy tp (parse_entailment sy p r)"
  unfolding parses_part_def
proof (intro allI impI)
  fix a :: "('a, 'b) parsed" and rest
  assume ok: "printable sy tp a" and follows: "follows [''&&'', ''==>''] (bare_part tp a) rest"
  show "gives (parse_entailment sy p r) (print_assertion tp 2 a @ rest) (a, rest)"
  proof (cases "bare_expr tp a")
    case True
    then obtain x where a: "a = AExpr x" "bare_part tp a" by (auto simp: bare_expr_def)
    have "follows [''&&'', ''==>''] True rest" by (rule follows_mono [OF follows]) simp_all
    then show ?thesis using expr_step [of sy tp p r] ok a unfolding parses_expr_def by (simp add: parens_if_def)
  next
    case False
    then have "gives p (print_assertion tp 2 a @ rest) (a, rest)" using assms ok unfolding parses_primary_def by blast
    moreover have "parse_entailment sy p r (print_assertion tp 2 a @ rest) = p (print_assertion tp 2 a @ rest)"
    proof (cases "bare_part tp a")
      case True
      then show ?thesis using False by (cases a) (auto simp: parse_entailment_def bare_expr_def)
    next
      case bare: False
      have "peek_group Parenthesis (print_assertion tp 2 a @ rest) \<and> tl (print_assertion tp 2 a @ rest) = rest"
        using ok bare by (cases "(tp, 2::nat, a)" rule: print_assertion.cases) (auto simp: parens_if_def)
      moreover have "rest = [] \<or> peek_operator ''&&'' rest \<or> peek_operator ''==>'' rest"
        using follows bare by (auto simp: follows_def)
      ultimately show ?thesis
        by (cases "print_assertion tp 2 a @ rest") (auto simp: parse_entailment_def)
    qed
    ultimately show ?thesis by (simp add: gives_def)
  qed
qed

lemma primary_step:
  assumes "parses_assertion sy tp f" "parses_quantifier sy tp q"
  shows "parses_primary sy tp (parse_primary f q)"
  unfolding parses_primary_def
proof (intro allI impI)
  fix a :: "('a, 'b) parsed" and rest
  assume ok: "printable sy tp a" and other: "\<not> bare_expr tp a"
  show "gives (parse_primary f q) (print_assertion tp 2 a @ rest) (a, rest)"
  proof (cases "bare_part tp a")
    case True
    then have "\<exists>v ts body b. a = (if b then AExists v ts body else AForAll v ts body)"
      using other by (cases a; simp add: bare_expr_def; metis)
    then obtain v ts body b where a: "a = (if b then AExists v ts body else AForAll v ts body)" by blast
    then have "gives (q b) (quantifier_tokens tp (qv_vars v) (print_assertion tp 0 body) ts) a"
      using assms(2) ok unfolding parses_quantifier_def by (cases b) auto
    then show ?thesis unfolding a gives_def
      by (cases b) (auto simp: parse_primary_def consume_keyword_def unwrapE_def)
  next
    case False
    then have "gives f ts a" if "print_assertion tp 2 a = [Group Parenthesis ts]" for ts
      using assms(1) ok that unfolding parses_assertion_def
      by (cases "(tp, 2::nat, a)" rule: print_assertion.cases)
        (auto simp: parens_if_def simp del: printable.simps dest!: spec [of _ a])
    moreover have "\<exists>ts. print_assertion tp 2 a = [Group Parenthesis ts]"
      using ok False by (cases "(tp, 2::nat, a)" rule: print_assertion.cases) (auto simp: parens_if_def)
    ultimately show ?thesis unfolding gives_def parse_primary_def by auto
  qed
qed

lemma quantifier_step:
  assumes "parses_prusti sy tp f"
  shows "parses_quantifier sy tp (extract_quantifier_rhs sy f)"
proof -
  have step: "gives (extract_quantifier_rhs sy f b) (quantifier_tokens tp (qv_vars v) (print_assertion tp 0 body) ts)
      (quantifier b (qv_vars v) ts body)"
    if ok: "args_ok sy tp v" "triggers_ok sy tp ts" "printable sy tp body" "ts = [] \<or> bare_tail tp body" for b v ts body
  proof -
    let ?as = "tp_args tp (qv_vars v)" and ?bs = "print_assertion tp 0 body" and ?ts = "trigger_tokens tp ts"
    have as: "?as \<noteq> []" "\<not> contains_operator ''|'' ?as" "sy_args sy ?as = Inr (qv_vars v)"
      using ok(1) by (simp_all add: args_ok_def)
    have "\<not> peek_operator ''|'' (drop i ?as @ op_tokens ''|'' @ ?bs @ ?ts)" if "i < length ?as" for i
      using no_bar [OF as(2) nth_mem [OF that]] that by (cases "?as ! i") (auto simp: Cons_nth_drop_Suc [symmetric])
    then have until: "create_stream_until ''|'' (?as @ op_tokens ''|'' @ ?bs @ ?ts) = (?as, op_tokens ''|'' @ ?bs @ ?ts)"
      unfolding create_stream_until_def by (intro tokens_until_seam) auto
    have binders: "parse_binders sy (?as @ op_tokens ''|'' @ ?bs @ ?ts) = Inr (qv_vars v, ?bs @ ?ts)"
      using consume_op_tokens [of "''|''" "?bs @ ?ts"]
      by (simp add: parse_binders_def until as or_syn_def unwrapE_def del: op_tokens_simps)
    have "follows [] (bare_tail tp body) ?ts" using ok(4) by (auto simp: follows_def trigger_tokens_def)
    then have body: "gives f (?bs @ ?ts) (body, ?ts)" using assms ok(3) unfolding parses_prusti_def by blast
    have triggers: "parse_triggers sy ?ts = Inr (ts, [])"
    proof (cases "ts = []")
      case False
      have items: "mapE parse_trigger_item (map TupleItem es) = Inr (map (map without_id) es)" for es :: "'a list list"
        by (induction es) (simp_all add: parse_trigger_item_def)
      have array: "sy_array sy (tp_array tp (map (map sx_expr) ts)) = Inr (map TupleItem (map (map sx_expr) ts))"
        and ids: "ts = map (map without_id) (map (map sx_expr) ts)" using ok(2) by (simp_all add: triggers_ok_def)
      show ?thesis using False
        by (simp add: parse_triggers_def trigger_tokens_def consume_operator_def consume_keyword_def unwrapE_def array items
          ids [symmetric] del: map_map)
    qed (simp add: trigger_tokens_def parse_triggers_def consume_operator_def)
    have start: "consume_operator ''|'' (quantifier_tokens tp (qv_vars v) ?bs ts) = Some (?as @ op_tokens ''|'' @ ?bs @ ?ts)"
      unfolding quantifier_tokens_def by (rule consume_op_tokens)
    show ?thesis using body
      by (auto simp: gives_def extract_quantifier_rhs_def start unwrapE_def until as(1) assertE_def binders triggers
        simp del: op_tokens_simps)
  qed
  have "v = \<lparr>qv_spec_id = specification_id_dummy, qv_id = (), qv_vars = qv_vars v\<rparr>" if "args_ok sy tp v" for v
    using that by (simp add: args_ok_def)
  then show ?thesis using step [of _ _ _ True] step [of _ _ _ False]
    unfolding parses_quantifier_def quantifier_def by (metis (full_types))
qed

lemma all_parse:
  "parses_assertion sy tp (assertion_at sy n) \<and> parses_prusti sy tp (prusti_at sy n) \<and>
   parses_conjunction sy tp (conjunction_at sy n) \<and> parses_conjuncts sy tp (conjuncts_at sy n) \<and>
   parses_part sy tp (entailment_at sy n) \<and> parses_expr sy tp (entailment_at sy n) \<and> parses_primary sy tp (primary_at sy n) \<and>
   parses_quantifier sy tp (quantifier_at sy n)"
proof (induction n)
  case 0
  show ?case
    by (simp add: parses_assertion_def parses_prusti_def parses_conjunction_def parses_conjuncts_def parses_part_def
      parses_expr_def parses_primary_def parses_quantifier_def gives_def)
next
  case (Suc n)
  have "quantifier_at sy (Suc n) = extract_quantifier_rhs sy (prusti_at sy n)" by (rule ext) simp
  then show ?case
    using Suc by (simp add: assertion_step prusti_step conjunction_step conjuncts_step part_step expr_step primary_step quantifier_step)
qed

text \<open>
  C15 What is printed is parsed back.  For every assertion built from expressions, conjunctions of not exactly one
  part, implications and quantifiers with triggers, printed with parentheses only around a conjunction or implication
  inside a smaller one and around an expression with \<open>||\<close> in a conjunction, the parser returns that assertion; in
  particular it never calls the printed tokens ambiguous.  The condition \<open>printable\<close> asks of the tokens of an
  expression what the parser can take for one: they do not start with a bar or end with one of the characters
  \<open>|&=>,\<close>; outside of groups they have no \<open>&&\<close>, \<open>|=\<close>, \<open>==>\<close> or comma, and \<open>==>\<close> is not inside of groups either; parentheses in them do not
  have \<open>&&\<close> and \<open>||\<close> side by side; they do not start with \<open>forall\<close> or \<open>exists\<close> and are not one parenthesised group.
  Arguments of quantifiers are not empty and have no bar and no \<open>&&\<close> outside of groups, triggers have no \<open>&&\<close> or
  \<open>||\<close> outside of groups, \<open>syn\<close> reads back the tokens of all three, and an assertion in front of triggers does not end in
  parentheses.  Specification entailments are not covered.
\<close>

theorem parse_print_roundtrip:
  assumes "printable sy tp a"
  shows "parse_assertion sy (print_assertion tp 0 a) = Inr a"
proof -
  have "assertion_at sy (fuel_for ts) ts \<noteq> Inl NoFuel" for ts
    using all_enough [of "fuel_for ts" sy] unfolding enough_def fuel_for_def by auto
  then show ?thesis using all_parse [of sy tp] assms unfolding parse_assertion_def parses_assertion_def gives_def by blast
qed

subsection \<open>Examples\<close>

text \<open>Expressions and arguments are their tokens, triggers are one tuple in brackets.\<close>

definition ex_syn :: "(tokens, tokens) syn_parser" where
  "ex_syn = \<lparr>sy_expr = Inr, sy_args = \<lambda>ts. Inr [ts],
     sy_array = \<lambda>ts. (case ts of [Group Bracket us] \<Rightarrow> Inr [TupleItem [us]] | _ \<Rightarrow> Inl ''array''), sy_result = []\<rparr>"

definition ex_printer :: "(tokens, tokens) token_printer" where
  "ex_printer = \<lparr>tp_expr = id, tp_args = concat, tp_array = \<lambda>ts. [Group Bracket (concat (concat ts))]\<rparr>"

definition ex_atom :: "string \<Rightarrow> (tokens, tokens) parsed" where
  "ex_atom s = AExpr (without_id [Ident s])"

definition ex_or :: "string \<Rightarrow> string \<Rightarrow> (tokens, tokens) parsed" where
  "ex_or s r = AExpr (without_id ([Ident s] @ op_tokens ''||'' @ [Ident r]))"

definition ex_args :: "string \<Rightarrow> (unit, tokens) quantifier_vars" where
  "ex_args s = \<lparr>qv_spec_id = specification_id_dummy, qv_id = (), qv_vars = [[Ident s]]\<rparr>"

definition ex_assertion :: "(tokens, tokens) parsed" where
  "ex_assertion =
     AImplies (AAnd [ex_or ''a'' ''d'', AImplies (ex_atom ''b'') (ex_atom ''c'')])
       (AForAll (ex_args ''x'') [[without_id [Ident ''p'']]] (AImplies (ex_atom ''p'') (ex_atom ''q'')))"

lemma ex_printable: "printable ex_syn ex_printer ex_assertion"
  by code_simp

lemma parse_print_roundtrip_witness:
  "parse_assertion ex_syn (print_assertion ex_printer 0 ex_assertion) = Inr ex_assertion"
  by (rule parse_print_roundtrip [OF ex_printable])

text \<open>Evaluation one function at a time: the callees are unfolded when they get their tokens.\<close>

lemma at_numeral:
  "assertion_at sy (numeral k) ts = extract_assertion (prusti_at sy (pred_numeral k)) ts"
  "prusti_at sy (numeral k) ts = parse_prusti (conjunction_at sy (pred_numeral k)) (prusti_at sy (pred_numeral k)) ts"
  "conjunction_at sy (numeral k) ts =
     parse_conjunction (entailment_at sy (pred_numeral k)) (conjuncts_at sy (pred_numeral k)) ts"
  "conjuncts_at sy (numeral k) ts =
     parse_conjuncts (entailment_at sy (pred_numeral k)) (conjuncts_at sy (pred_numeral k)) ts"
  "entailment_at sy (numeral k) ts =
     parse_entailment sy (primary_at sy (pred_numeral k)) (rhs_at sy (pred_numeral k) True) ts"
  "primary_at sy (numeral k) ts =
     parse_primary (assertion_at sy (pred_numeral k)) (quantifier_at sy (pred_numeral k)) ts"
  "quantifier_at sy (numeral k) b ts = extract_quantifier_rhs sy (prusti_at sy (pred_numeral k)) b ts"
  by (simp_all add: numeral_eq_Suc)

lemma bindE_weak: "x = y \<Longrightarrow> bindE x f = bindE y f"
  by simp

lemmas parse_step = at_numeral extract_assertion_def parse_prusti_def parse_conjunction_def parse_conjuncts_def
  parse_entailment_def parse_primary_def extract_quantifier_rhs_def parse_binders_def parse_triggers_def
  parse_rust_until_def stops_rust_def create_stream_until_def consume_operator_def consume_keyword_def contains_both_and_or_def
  unwrapE_def assertE_def or_syn_def quantifier_def parse_trigger_item_def

text \<open>
  Tokens after the body of a quantifier are dropped: \<open>forall(|x| exists(|y| p) || q)\<close> means
  \<open>forall(|x| exists(|y| p))\<close>.
\<close>

lemma tokens_after_body_are_dropped:
  "parse_assertion ex_syn
     [Ident ''forall'', Group Parenthesis
        (op_tokens ''|'' @ [Ident ''x''] @ op_tokens ''|'' @
         [Ident ''exists'', Group Parenthesis (op_tokens ''|'' @ [Ident ''y''] @ op_tokens ''|'' @ [Ident ''p''])] @
         op_tokens ''||'' @ [Ident ''q''])] =
   Inr (AForAll (ex_args ''x'') [] (AExists (ex_args ''y'') [] (ex_atom ''p'')))"
  by (simp add: parse_assertion_def fuel_for_def parse_step ex_syn_def ex_args_def ex_atom_def cong: bindE_weak)

text \<open>
  A body in parentheses cannot be followed by triggers: the comma makes it a part of a Rust expression, in which
  \<open>==>\<close> is an error.
\<close>

lemma parenthesised_body_with_triggers_is_rejected:
  "parse_assertion ex_syn
     [Ident ''forall'', Group Parenthesis
        (op_tokens ''|'' @ [Ident ''x''] @ op_tokens ''|'' @
         [Group Parenthesis ([Ident ''p''] @ op_tokens ''==>'' @ [Ident ''q''])] @ op_tokens '','' @ [Ident ''triggers''] @
         op_tokens ''='' @ [Group Bracket [Ident ''p'']])] =
   Inl NoImplies"
  by (simp add: parse_assertion_def fuel_for_def parse_step ex_syn_def cong: bindE_weak)

text \<open>
  A comma outside of groups ends an expression: a call with two generic arguments, \<open>f::<A, B>(x)\<close>, is rejected.
\<close>

lemma generic_arguments_are_rejected:
  "parse_assertion ex_syn
     ([Ident ''f''] @ op_tokens ''::<'' @ [Ident ''A''] @ op_tokens '','' @ [Ident ''B''] @ op_tokens ''>'' @
      [Group Parenthesis [Ident ''x'']]) =
   Inl UnexpectedToken"
  by (simp add: parse_assertion_def fuel_for_def parse_step ex_syn_def cong: bindE_weak)

text \<open>
  A pledge that is an implication is taken for one with a reference, because \<open>=>\<close> is found inside \<open>==>\<close>.
\<close>

lemma implication_as_pledge_is_rejected:
  "extract_pledge_rhs_only ex_syn ([Ident ''a''] @ op_tokens ''==>'' @ [Ident ''b'']) = Inl (Expected ''expression'')"
  by (simp add: extract_pledge_rhs_only_def parse_pledge_assertion_only_def fuel_for_def parse_step ex_syn_def cong: bindE_weak)

end
