(* ===== verification/Viper_Ast.thy ===== *)
theory Viper_Ast
  imports Vir_Function
begin

section \<open>The Viper abstract syntax (viper/src/ast_factory)\<close>

text \<open>
  The factory builds nodes of Viper's own syntax tree through JNI.  A node is a constructor here, with the
  arguments that the factory passes on; only nodes that Prusti builds have one.  The factory gives a node
  without a position argument no position, and literals of integers are given as their decimal digits.
\<close>

datatype vposition = NoPosition | IdentifierPosition "32 word" "32 word" string

datatype vtype = VTInt | VTBool | VTRef | VTPerm | VTDomain string | VTSeq vtype

record vfield_decl =
  vfd_name :: string
  vfd_typ :: vtype

record var_decl =
  vvd_name :: string
  vvd_typ :: vtype

record domain_func_decl =
  vdf_name :: string
  vdf_formal_args :: "var_decl list"
  vdf_typ :: vtype
  vdf_unique :: bool
  vdf_domain_name :: string

datatype viper_bin_op =
    XEqCmp | XNeCmp | XGtCmp | XGeCmp | XLtCmp | XLeCmp | XAdd | XSub | XMul | XDiv | XMod | XAnd | XOr | XImplies

datatype 'e viper_trigger = VTrigger (vtrigger_exps: "'e list") vposition

datatype viper_expr =
    XLocalVar string vtype vposition
  | XResult vtype vposition
  | XFieldAccess viper_expr vfield_decl vposition
  | XBoolLit bool vposition
  | XIntLit string vposition
  | XNullLit vposition
  | XLabelledOld viper_expr string vposition
  | XMagicWand viper_expr viper_expr vposition
  | XPredicateAccess "viper_expr list" string vposition
  | XPredicateAccessPredicate viper_expr viper_expr vposition
  | XFieldAccessPredicate viper_expr viper_expr vposition
  | XNot viper_expr vposition
  | XMinus viper_expr vposition
  | XBinExp viper_bin_op viper_expr viper_expr vposition
  | XSeqIndex viper_expr viper_expr
  | XSeqAppend viper_expr viper_expr
  | XSeqLength viper_expr
  | XEmptySeq vtype
  | XExplicitSeq "viper_expr list"
  | XUnfolding viper_expr viper_expr vposition
  | XCondExp viper_expr viper_expr viper_expr vposition
  | XForall "var_decl list" "viper_expr viper_trigger list" viper_expr vposition
  | XExists "var_decl list" "viper_expr viper_trigger list" viper_expr vposition
  | XLet var_decl viper_expr viper_expr vposition
  | XFuncApp string "viper_expr list" vtype vposition
  | XDomainFuncApp domain_func_decl "viper_expr list"
  | XInhaleExhale viper_expr viper_expr
  | XFullPerm
  | XNoPerm
  | XPermSub viper_expr viper_expr

datatype viper_decl = DeclVar var_decl | DeclLabel string

datatype viper_stmt =
    VComment string
  | VLabel string
  | VInhale viper_expr vposition
  | VExhale viper_expr vposition
  | VAssert viper_expr vposition
  | VMethodCall string "viper_expr list" "viper_expr list"
  | VAbstractAssign viper_expr viper_expr
  | VFold viper_expr vposition
  | VUnfold viper_expr
  | VPackage viper_expr viper_stmt vposition
  | VApply viper_expr vposition
  | VIf viper_expr viper_stmt viper_stmt
  | VSeqn "viper_stmt list" "viper_decl list"
  | VGoto string

record viper_method =
  vm_name :: string
  vm_formal_args :: "var_decl list"
  vm_formal_returns :: "var_decl list"
  vm_body :: "viper_stmt option"

record viper_predicate =
  vp_name :: string
  vp_formal_args :: "var_decl list"
  vp_body :: "viper_expr option"

record viper_function =
  vf_name :: string
  vf_formal_args :: "var_decl list"
  vf_typ :: vtype
  vf_pres :: "viper_expr list"
  vf_posts :: "viper_expr list"
  vf_pos :: vposition
  vf_body :: "viper_expr option"

record viper_axiom =
  vx_name :: string
  vx_expr :: viper_expr
  vx_domain_name :: string

record viper_domain =
  vd_name :: string
  vd_functions :: "domain_func_decl list"
  vd_axioms :: "viper_axiom list"
  vd_type_vars :: "vtype list"

record viper_program =
  vpg_domains :: "viper_domain list"
  vpg_fields :: "vfield_decl list"
  vpg_functions :: "viper_function list"
  vpg_predicates :: "viper_predicate list"
  vpg_methods :: "viper_method list"

subsection \<open>Positions in the factory\<close>

text \<open>\<open>exists_with_pos\<close> does not use the position it gets.\<close>

definition exists_with_pos ::
  "var_decl list \<Rightarrow> viper_expr viper_trigger list \<Rightarrow> viper_expr \<Rightarrow> vposition \<Rightarrow> viper_expr" where
  "exists_with_pos variables triggers e pos = XExists variables triggers e NoPosition"

subsection \<open>A meaning for Viper expressions\<close>

text \<open>
  The evaluation that Viper documents, for expressions without permissions, in the same style as that of VIR
  expressions: values of locals, of fields per old label, of functions by their Viper names.
\<close>

record viper_interp =
  vi_heap :: "string option \<Rightarrow> val \<Rightarrow> string \<Rightarrow> val option"
  vi_fun :: "string option \<Rightarrow> string \<Rightarrow> val list \<Rightarrow> val option"
  vi_dom :: "string \<Rightarrow> val list \<Rightarrow> val option"
  vi_null :: "val option"

fun vtype_kind :: "vtype \<Rightarrow> kind" where
  "vtype_kind VTInt = KInt"
| "vtype_kind VTBool = KBool"
| "vtype_kind VTRef = KRef"
| "vtype_kind VTPerm = KOther"
| "vtype_kind (VTDomain _) = KOther"
| "vtype_kind (VTSeq _) = KSeq"

definition vtyped :: "vtype \<Rightarrow> val option \<Rightarrow> val option" where
  "vtyped t v = (case v of Some x \<Rightarrow> if val_kind x = vtype_kind t then Some x else None | None \<Rightarrow> None)"

fun viper_op :: "viper_bin_op \<Rightarrow> bin_op_kind" where
  "viper_op XEqCmp = EqCmp" | "viper_op XNeCmp = NeCmp" | "viper_op XGtCmp = GtCmp" | "viper_op XGeCmp = GeCmp"
| "viper_op XLtCmp = LtCmp" | "viper_op XLeCmp = LeCmp" | "viper_op XAdd = OpAdd" | "viper_op XSub = OpSub"
| "viper_op XMul = OpMul" | "viper_op XDiv = OpDiv" | "viper_op XMod = OpMod" | "viper_op XAnd = OpAnd"
| "viper_op XOr = OpOr" | "viper_op XImplies = OpImplies"

fun bind_decls :: "var_decl list \<Rightarrow> val list \<Rightarrow> env \<Rightarrow> env" where
  "bind_decls (v # vs) (x # xs) \<rho> = bind_decls vs xs (\<rho>(vvd_name v \<mapsto> x))"
| "bind_decls _ _ \<rho> = \<rho>"

definition decls_take :: "var_decl list \<Rightarrow> val list \<Rightarrow> bool" where
  "decls_take vs xs \<longleftrightarrow> list_all2 (\<lambda>v x. val_kind x = vtype_kind (vvd_typ v)) vs xs"

definition vall :: "var_decl list \<Rightarrow> (val list \<Rightarrow> val option) \<Rightarrow> val option" where
  "vall vs F =
     (if \<forall>xs. decls_take vs xs \<longrightarrow> (\<exists>b. F xs = Some (VBool b))
      then Some (VBool (\<forall>xs. decls_take vs xs \<longrightarrow> F xs = Some (VBool True))) else None)"

definition vex :: "var_decl list \<Rightarrow> (val list \<Rightarrow> val option) \<Rightarrow> val option" where
  "vex vs F =
     (if \<forall>xs. decls_take vs xs \<longrightarrow> (\<exists>b. F xs = Some (VBool b))
      then Some (VBool (\<exists>xs. decls_take vs xs \<and> F xs = Some (VBool True))) else None)"

fun veval :: "viper_interp \<Rightarrow> string option \<Rightarrow> env \<Rightarrow> viper_expr \<Rightarrow> val option" where
  "veval V l \<rho> (XLocalVar n t p) = vtyped t (\<rho> n)"
| "veval V l \<rho> (XResult t p) = vtyped t (\<rho> ''__result'')"
| "veval V l \<rho> (XFieldAccess b f p) =
     vtyped (vfd_typ f) (Option.bind (veval V l \<rho> b) (\<lambda>r. vi_heap V l r (vfd_name f)))"
| "veval V l \<rho> (XBoolLit b p) = Some (VBool b)"
| "veval V l \<rho> (XIntLit s p) = Some (VInt (int_value s))"
| "veval V l \<rho> (XNullLit p) = vtyped VTRef (vi_null V)"
| "veval V l \<rho> (XLabelledOld b lbl p) = veval V (Some lbl) \<rho> b"
| "veval V l \<rho> (XNot a p) = un_val UnNot (veval V l \<rho> a)"
| "veval V l \<rho> (XMinus a p) = un_val UnMinus (veval V l \<rho> a)"
| "veval V l \<rho> (XBinExp bop a b p) = bin_val (viper_op bop) (veval V l \<rho> a) (veval V l \<rho> b)"
| "veval V l \<rho> (XSeqIndex a b) = container_val SeqIndex (veval V l \<rho> a) (veval V l \<rho> b)"
| "veval V l \<rho> (XSeqAppend a b) = container_val SeqConcat (veval V l \<rho> a) (veval V l \<rho> b)"
| "veval V l \<rho> (XSeqLength a) = container_val SeqLen (veval V l \<rho> a) None"
| "veval V l \<rho> (XEmptySeq t) = Some (VSeq [])"
| "veval V l \<rho> (XExplicitSeq es) = map_option VSeq (mapO (veval V l \<rho>) es)"
| "veval V l \<rho> (XUnfolding acc b p) =
     (case acc of
        XPredicateAccessPredicate (XPredicateAccess es n q) m q' \<Rightarrow>
          Option.bind (mapO (veval V l \<rho>) es) (\<lambda>_. veval V l \<rho> b)
      | _ \<Rightarrow> None)"
| "veval V l \<rho> (XCondExp g a b p) =
     (case veval V l \<rho> g of
        Some (VBool True) \<Rightarrow> veval V l \<rho> a
      | Some (VBool False) \<Rightarrow> veval V l \<rho> b
      | _ \<Rightarrow> None)"
| "veval V l \<rho> (XForall vs ts b p) = vall vs (\<lambda>xs. veval V l (bind_decls vs xs \<rho>) b)"
| "veval V l \<rho> (XExists vs ts b p) = vex vs (\<lambda>xs. veval V l (bind_decls vs xs \<rho>) b)"
| "veval V l \<rho> (XLet v d b p) =
     Option.bind (vtyped (vvd_typ v) (veval V l \<rho> d)) (\<lambda>x. veval V l (\<rho>(vvd_name v \<mapsto> x)) b)"
| "veval V l \<rho> (XFuncApp n es t p) = vtyped t (Option.bind (mapO (veval V l \<rho>) es) (vi_fun V l n))"
| "veval V l \<rho> (XDomainFuncApp f es) =
     vtyped (vdf_typ f) (Option.bind (mapO (veval V l \<rho>) es) (vi_dom V (vdf_name f)))"
| "veval V l \<rho> _ = None"

end
