(* ===== verification/Vir_To_Viper.thy ===== *)
theory Vir_To_Viper
  imports Viper_Ast Vir_Hash Vir_Stmt Fallible
begin

section \<open>Translation of expressions and statements to Viper (to_viper.rs)\<close>

text \<open>
  \<open>to_viper\<close> of types, expressions and statements.  A reached \<open>unreachable!\<close> or a failed assertion is a panic,
  with a message.  Viper's own simplifier and the printer of statements for comments are arguments.
\<close>

record viper_config =
  tv_simplify_encoding :: bool
  tv_simplified_expression :: "viper_expr \<Rightarrow> viper_expr"
  tv_to_string :: "stmt \<Rightarrow> string"

definition position_to_viper :: "position \<Rightarrow> vposition" where
  "position_to_viper pos =
     IdentifierPosition (pos_line pos) (pos_column pos) (int_to_string (uint (pos_id pos)))"

fun type_to_viper :: "type \<Rightarrow> vtype" where
  "type_to_viper TInt = VTInt"
| "type_to_viper TBool = VTBool"
| "type_to_viper (TTypedRef _) = VTRef"
| "type_to_viper (TDomain name) = VTDomain name"
| "type_to_viper (TSnapshot name) = VTDomain (''Snap$'' @ name)"
| "type_to_viper (TSeq elem_ty) = VTSeq (type_to_viper elem_ty)"

definition local_to_viper :: "local_var \<Rightarrow> position \<Rightarrow> viper_expr" where
  "local_to_viper v pos =
     (if lv_name v = ''__result'' then XResult (type_to_viper (lv_typ v)) (position_to_viper pos)
      else XLocalVar (lv_name v) (type_to_viper (lv_typ v)) (position_to_viper pos))"

definition var_to_viper_decl :: "local_var \<Rightarrow> var_decl" where
  "var_to_viper_decl v = \<lparr>vvd_name = lv_name v, vvd_typ = type_to_viper (lv_typ v)\<rparr>"

definition field_to_viper :: "vfield \<Rightarrow> vfield_decl" where
  "field_to_viper f = \<lparr>vfd_name = fd_name f, vfd_typ = type_to_viper (fd_typ f)\<rparr>"

definition domain_func_to_viper :: "domain_func \<Rightarrow> domain_func_decl" where
  "domain_func_to_viper f =
     \<lparr>vdf_name = domain_func_get_identifier f, vdf_formal_args = map var_to_viper_decl (df_formal_args f),
      vdf_typ = type_to_viper (df_return_type f), vdf_unique = df_unique f, vdf_domain_name = df_domain_name f\<rparr>"

fun const_to_viper :: "const_lit \<Rightarrow> position \<Rightarrow> viper_expr" where
  "const_to_viper (CBool b) pos = XBoolLit b (position_to_viper pos)"
| "const_to_viper (CInt x) pos = XIntLit (int_to_string (sint x)) (position_to_viper pos)"
| "const_to_viper (CBigInt x) pos = XIntLit x (position_to_viper pos)"
| "const_to_viper CFnPtr pos = XNullLit (position_to_viper pos)"

fun perm_to_viper :: "perm_amount \<Rightarrow> viper_expr" where
  "perm_to_viper Write = XFullPerm"
| "perm_to_viper Read = XFuncApp ''read$'' [] VTPerm NoPosition"
| "perm_to_viper Remaining = XPermSub XFullPerm (XFuncApp ''read$'' [] VTPerm NoPosition)"

fun unary_to_viper :: "unary_op_kind \<Rightarrow> viper_expr \<Rightarrow> vposition \<Rightarrow> viper_expr" where
  "unary_to_viper UnNot e pos = XNot e pos"
| "unary_to_viper UnMinus e pos = XMinus e pos"

fun bin_op_to_viper :: "bin_op_kind \<Rightarrow> viper_bin_op" where
  "bin_op_to_viper EqCmp = XEqCmp" | "bin_op_to_viper NeCmp = XNeCmp" | "bin_op_to_viper GtCmp = XGtCmp"
| "bin_op_to_viper GeCmp = XGeCmp" | "bin_op_to_viper LtCmp = XLtCmp" | "bin_op_to_viper LeCmp = XLeCmp"
| "bin_op_to_viper OpAdd = XAdd" | "bin_op_to_viper OpSub = XSub" | "bin_op_to_viper OpMul = XMul"
| "bin_op_to_viper OpDiv = XDiv" | "bin_op_to_viper OpMod = XMod" | "bin_op_to_viper OpAnd = XAnd"
| "bin_op_to_viper OpOr = XOr" | "bin_op_to_viper OpImplies = XImplies"

definition simplified :: "viper_config \<Rightarrow> string + viper_expr \<Rightarrow> string + viper_expr" where
  "simplified cf r = map_sum id (\<lambda>x. if tv_simplify_encoding cf then tv_simplified_expression cf x else x) r"

text \<open>The token of an expiring borrow: \<open>acc(DeadBorrowToken$(borrow))\<close>.\<close>

definition borrow_literal :: "viper_config \<Rightarrow> const_lit \<Rightarrow> string + viper_expr" where
  "borrow_literal cf c = simplified cf (Inr (const_to_viper c position_default))"

definition dead_borrow_token :: "viper_expr \<Rightarrow> viper_expr" where
  "dead_borrow_token borrow =
     XPredicateAccessPredicate (XPredicateAccess [borrow] ''DeadBorrowToken$'' NoPosition) XFullPerm NoPosition"

definition wand_borrow :: "borrow option \<Rightarrow> const_lit" where
  "wand_borrow maybe_borrow =
     from_isize (case maybe_borrow of Some borrow \<Rightarrow> of_nat (borrow_id borrow) | None \<Rightarrow> - 1)"

definition triggers_to_viper ::
  "(expr \<Rightarrow> string + viper_expr) \<Rightarrow> position \<Rightarrow> expr trigger list \<Rightarrow> string + viper_expr viper_trigger list" where
  "triggers_to_viper f pos triggers =
     mapE (\<lambda>t. bindE (mapE f (trigger_elements t)) (\<lambda>es. Inr (VTrigger es (position_to_viper pos)))) triggers"

lemma triggers_to_viper_cong [fundef_cong]:
  assumes "ts = us" "pos = pos'" "\<And>t e. t \<in> set us \<Longrightarrow> e \<in> set (trigger_elements t) \<Longrightarrow> f e = g e"
  shows "triggers_to_viper f pos ts = triggers_to_viper g pos' us"
  unfolding triggers_to_viper_def using assms by (auto intro!: mapE_cong arg_cong [where f = "\<lambda>x. bindE x _"])

fun expr_to_viper :: "viper_config \<Rightarrow> expr \<Rightarrow> string + viper_expr" where
  "expr_to_viper cf (ELocal v pos) = simplified cf (Inr (local_to_viper v pos))"
| "expr_to_viper cf (EVariant base field pos) = simplified cf (
     bindE (expr_to_viper cf base) (\<lambda>base.
     Inr (XFieldAccess base (field_to_viper field) (position_to_viper pos))))"
| "expr_to_viper cf (EField base field pos) = simplified cf (
     bindE (expr_to_viper cf base) (\<lambda>base.
     Inr (XFieldAccess base (field_to_viper field) (position_to_viper pos))))"
| "expr_to_viper cf (EAddrOf _ _ _) = Inl ''unreachable''"
| "expr_to_viper cf (EConst val pos) = simplified cf (Inr (const_to_viper val pos))"
| "expr_to_viper cf (ELabelledOld old_label e pos) = simplified cf (
     bindE (expr_to_viper cf e) (\<lambda>e. Inr (XLabelledOld e old_label (position_to_viper pos))))"
| "expr_to_viper cf (EMagicWand lhs rhs maybe_borrow pos) = simplified cf (
     bindE (borrow_literal cf (wand_borrow maybe_borrow)) (\<lambda>borrow.
     bindE (expr_to_viper cf lhs) (\<lambda>lhs.
     bindE (expr_to_viper cf rhs) (\<lambda>rhs.
     Inr (XMagicWand (XBinExp XAnd (dead_borrow_token borrow) lhs (position_to_viper pos)) rhs (position_to_viper pos))))))"
| "expr_to_viper cf (EPredicateAccessPredicate predicate_name arg perm pos) = simplified cf (
     bindE (expr_to_viper cf arg) (\<lambda>arg.
     Inr (XPredicateAccessPredicate (XPredicateAccess [arg] predicate_name NoPosition) (perm_to_viper perm)
       (position_to_viper pos))))"
| "expr_to_viper cf (EFieldAccessPredicate loc perm pos) = simplified cf (
     bindE (expr_to_viper cf loc) (\<lambda>loc.
     Inr (XFieldAccessPredicate loc (perm_to_viper perm) (position_to_viper pos))))"
| "expr_to_viper cf (EUnaryOp uop e pos) = simplified cf (
     bindE (expr_to_viper cf e) (\<lambda>e. Inr (unary_to_viper uop e (position_to_viper pos))))"
| "expr_to_viper cf (EBinOp bop left right pos) = simplified cf (
     bindE (expr_to_viper cf left) (\<lambda>left.
     bindE (expr_to_viper cf right) (\<lambda>right.
     Inr (XBinExp (bin_op_to_viper bop) left right (position_to_viper pos)))))"
| "expr_to_viper cf (EContainerOp cop left right pos) = simplified cf (
     case cop of
       SeqIndex \<Rightarrow>
         bindE (expr_to_viper cf left) (\<lambda>left. bindE (expr_to_viper cf right) (\<lambda>right. Inr (XSeqIndex left right)))
     | SeqConcat \<Rightarrow>
         bindE (expr_to_viper cf left) (\<lambda>left. bindE (expr_to_viper cf right) (\<lambda>right. Inr (XSeqAppend left right)))
     | SeqLen \<Rightarrow> bindE (expr_to_viper cf left) (\<lambda>left. Inr (XSeqLength left)))"
| "expr_to_viper cf (ESeq ty elems pos) = simplified cf (
     case ty of
       TSeq elem_ty \<Rightarrow>
         if elems = [] then Inr (XEmptySeq (type_to_viper elem_ty))
         else bindE (mapE (expr_to_viper cf) elems) (\<lambda>elems. Inr (XExplicitSeq elems))
     | _ \<Rightarrow> Inl ''unreachable'')"
| "expr_to_viper cf (EUnfolding predicate_name args e perm variant pos) = simplified cf (
     bindE (mapE (expr_to_viper cf) args) (\<lambda>args.
     bindE (expr_to_viper cf e) (\<lambda>e.
     Inr (XUnfolding
       (XPredicateAccessPredicate (XPredicateAccess args predicate_name NoPosition) (perm_to_viper perm) NoPosition) e
       (position_to_viper pos)))))"
| "expr_to_viper cf (ECond guard left right pos) = simplified cf (
     bindE (expr_to_viper cf guard) (\<lambda>guard.
     bindE (expr_to_viper cf left) (\<lambda>left.
     bindE (expr_to_viper cf right) (\<lambda>right. Inr (XCondExp guard left right (position_to_viper pos))))))"
| "expr_to_viper cf (EForAll vars triggers body pos) = simplified cf (
     bindE (triggers_to_viper (expr_to_viper cf) pos triggers) (\<lambda>triggers.
     bindE (expr_to_viper cf body) (\<lambda>body.
     Inr (XForall (map var_to_viper_decl vars) triggers body (position_to_viper pos)))))"
| "expr_to_viper cf (EExists vars triggers body pos) = simplified cf (
     bindE (triggers_to_viper (expr_to_viper cf) pos triggers) (\<lambda>triggers.
     bindE (expr_to_viper cf body) (\<lambda>body.
     Inr (exists_with_pos (map var_to_viper_decl vars) triggers body (position_to_viper pos)))))"
| "expr_to_viper cf (ELetExpr var e body pos) = simplified cf (
     bindE (expr_to_viper cf e) (\<lambda>e.
     bindE (expr_to_viper cf body) (\<lambda>body.
     Inr (XLet (var_to_viper_decl var) e body (position_to_viper pos)))))"
| "expr_to_viper cf (EFuncApp function_name args formal_args return_type pos) = simplified cf (
     bindE (mapE (expr_to_viper cf) args) (\<lambda>args.
     Inr (XFuncApp (compute_identifier function_name formal_args return_type) args (type_to_viper return_type)
       (position_to_viper pos))))"
| "expr_to_viper cf (EDomainFuncApp f args pos) = simplified cf (
     bindE (mapE (expr_to_viper cf) args) (\<lambda>args. Inr (XDomainFuncApp (domain_func_to_viper f) args)))"
| "expr_to_viper cf (EInhaleExhale inhale_expr exhale_expr pos) = simplified cf (
     bindE (expr_to_viper cf inhale_expr) (\<lambda>i.
     bindE (expr_to_viper cf exhale_expr) (\<lambda>e. Inr (XInhaleExhale i e))))"
| "expr_to_viper cf (EDowncast base _ _) = simplified cf (expr_to_viper cf base)"
| "expr_to_viper cf (ESnapApp _ _) = Inl ''unpatched snapshot operation''"

subsection \<open>The translation keeps the meaning\<close>

text \<open>
  What the names of a Viper program stand for: the function with the identifier of a VIR function is that function,
  and fields, domain functions and the null reference agree.
\<close>

definition same_meaning :: "interp \<Rightarrow> viper_interp \<Rightarrow> expr \<Rightarrow> bool" where
  "same_meaning I V e =
     (case e of
        EMagicWand _ _ _ _ \<Rightarrow> False | EPredicateAccessPredicate _ _ _ _ \<Rightarrow> False
      | EFieldAccessPredicate _ _ _ \<Rightarrow> False | EInhaleExhale _ _ _ \<Rightarrow> False
      | EFuncApp n es fs t p \<Rightarrow> \<forall>l. vi_fun V l (compute_identifier n fs t) = i_fun I l n
      | EDomainFuncApp f es p \<Rightarrow> vi_dom V (domain_func_get_identifier f) = i_dom I (df_name f)
      | _ \<Rightarrow> True)"

definition represents :: "interp \<Rightarrow> viper_interp \<Rightarrow> expr \<Rightarrow> bool" where
  "represents I V e \<longleftrightarrow>
     vi_heap V = i_heap I \<and> vi_null V = i_const I CFnPtr \<and> (\<forall>x \<in> subexprs e. same_meaning I V x)"

definition simplifier_sound :: "viper_config \<Rightarrow> viper_interp \<Rightarrow> bool" where
  "simplifier_sound cf V \<longleftrightarrow>
     (\<forall>l \<rho> x v. veval V l \<rho> x = Some v \<longrightarrow> veval V l \<rho> (tv_simplified_expression cf x) = Some v)"

lemma represents_unfold:
  "represents I V e \<longleftrightarrow>
     vi_heap V = i_heap I \<and> vi_null V = i_const I CFnPtr \<and> same_meaning I V e \<and>
     (\<forall>c \<in> set (children e). represents I V c)"
  unfolding represents_def by (subst subexprs_unfold) auto

lemma type_to_viper_kind [simp]: "vtype_kind (type_to_viper t) = type_kind t"
  by (cases t) auto

lemma vtyped_to_viper [simp]: "vtyped (type_to_viper t) v = typed t v"
  by (cases v) (auto simp: vtyped_def typed_def)

lemma viper_op_to_viper [simp]: "viper_op (bin_op_to_viper bop) = bop"
  by (cases bop) auto

lemma bind_decls_to_viper [simp]: "bind_decls (map var_to_viper_decl vs) xs \<rho> = bind_vars vs xs \<rho>"
  by (induction vs xs \<rho> rule: bind_vars.induct) (simp_all add: var_to_viper_decl_def fun_upd_def)

lemma decls_take_to_viper [simp]: "decls_take (map var_to_viper_decl vs) xs = vars_take vs xs"
  by (simp add: decls_take_def vars_take_def list_all2_map1 var_to_viper_decl_def)

lemma quants_to_viper [simp]:
  "vall (map var_to_viper_decl vs) F = all_val vs F" "vex (map var_to_viper_decl vs) F = ex_val vs F"
  by (simp_all add: vall_def all_val_def vex_def ex_val_def)

lemma mapE_mapO:
  assumes "mapE f es = Inr xs" "mapO g es = Some vs"
    "\<And>e x v. e \<in> set es \<Longrightarrow> f e = Inr x \<Longrightarrow> g e = Some v \<Longrightarrow> h x = Some v"
  shows "mapO h xs = Some vs"
  using assms
proof (induction es arbitrary: xs vs)
  case (Cons e es)
  obtain y ys where xs: "f e = Inr y" "mapE f es = Inr ys" "xs = y # ys"
    using Cons.prems(1) by (auto split: sum.split_asm)
  obtain u us where vs: "g e = Some u" "mapO g es = Some us" "vs = u # us"
    using Cons.prems(2) by (auto split: option.split_asm)
  have "h y = Some u" by (rule Cons.prems(3) [OF _ xs(1) vs(1)]) simp
  moreover have "mapO h ys = Some us" by (rule Cons.IH [OF xs(2) vs(2)]) (rule Cons.prems(3); simp)
  ultimately show ?case by (simp add: xs vs)
qed simp

lemma simplified_Inr:
  "simplified cf r = Inr x \<longleftrightarrow> (\<exists>y. r = Inr y \<and> x = (if tv_simplify_encoding cf then tv_simplified_expression cf y else y))"
  by (cases r) (auto simp: simplified_def)

lemma simplified_sound:
  assumes "simplifier_sound cf V" "simplified cf r = Inr x" "\<And>y. r = Inr y \<Longrightarrow> veval V l \<rho> y = Some v"
  shows "veval V l \<rho> x = Some v"
  using assms by (auto simp: simplified_Inr simplifier_sound_def)

lemma const_sound:
  assumes "vi_null V = i_const I CFnPtr" "const_val I c = Some v"
  shows "veval V l \<rho> (const_to_viper c p) = Some v"
  using assms by (cases c; cases "i_const I CFnPtr") (auto simp: int_value_int_to_string vtyped_def typed_def)

lemma unary_sound: "veval V l \<rho> (unary_to_viper uop x p) = un_val uop (veval V l \<rho> x)"
  by (cases uop) auto

lemma node_sound:
  assumes "represents I V e" "eval I l \<rho> e = Some v" "simplified cf r = Inr x" "simplifier_sound cf V"
    and "\<And>y. r = Inr y \<Longrightarrow> veval V l \<rho> y = Some v"
  shows "veval V l \<rho> x = Some v"
  using assms(3,4,5) by (auto simp: simplified_Inr simplifier_sound_def)

lemma bin_sound:
  assumes "bindE (expr_to_viper cf a) (\<lambda>left. bindE (expr_to_viper cf b) (\<lambda>right. Inr (XBinExp (bin_op_to_viper bop) left right p))) = Inr y"
    and "bin_val bop (eval I l \<rho> a) (eval I l \<rho> b) = Some v"
    and "\<And>c y v. c \<in> {a, b} \<Longrightarrow> expr_to_viper cf c = Inr y \<Longrightarrow> eval I l \<rho> c = Some v \<Longrightarrow> veval V l \<rho> y = Some v"
  shows "veval V l \<rho> y = Some v"
proof -
  obtain a' b' where ab: "expr_to_viper cf a = Inr a'" "expr_to_viper cf b = Inr b'"
    and y: "y = XBinExp (bin_op_to_viper bop) a' b' p" using assms(1) by (auto simp: fallible_simps)
  have "bin_val bop (veval V l \<rho> a') (veval V l \<rho> b') = Some v"
    by (rule bin_val_mono [OF assms(2)]) (use assms(3) ab in auto)
  then show ?thesis by (simp add: y)
qed

lemma container_sound:
  assumes "(case cop of
        SeqIndex \<Rightarrow> bindE (expr_to_viper cf a) (\<lambda>left. bindE (expr_to_viper cf b) (\<lambda>right. Inr (XSeqIndex left right)))
      | SeqConcat \<Rightarrow> bindE (expr_to_viper cf a) (\<lambda>left. bindE (expr_to_viper cf b) (\<lambda>right. Inr (XSeqAppend left right)))
      | SeqLen \<Rightarrow> bindE (expr_to_viper cf a) (\<lambda>left. Inr (XSeqLength left))) = Inr y"
    and ev: "container_val cop (eval I l \<rho> a) (eval I l \<rho> b) = Some v"
    and child: "\<And>c y v. c \<in> {a, b} \<Longrightarrow> expr_to_viper cf c = Inr y \<Longrightarrow> eval I l \<rho> c = Some v \<Longrightarrow> veval V l \<rho> y = Some v"
  shows "veval V l \<rho> y = Some v"
proof (cases cop)
  case SeqLen
  then obtain xs where "eval I l \<rho> a = Some (VSeq xs)" "v = VInt (int (length xs))"
    using ev by (cases "(SeqLen, eval I l \<rho> a, eval I l \<rho> b)" rule: container_val.cases) auto
  then show ?thesis using assms(1) SeqLen child [of a] by (auto simp: fallible_simps)
qed (use assms(1) container_val_mono [OF ev] child [of a] child [of b] in \<open>auto simp: fallible_simps\<close>)

lemma quant_sound:
  assumes "\<And>\<rho> v. eval I l \<rho> b = Some v \<Longrightarrow> veval V l \<rho> b' = Some v"
  shows "all_val vs (\<lambda>xs. eval I l (bind_vars vs xs \<rho>) b) = Some v \<Longrightarrow> all_val vs (\<lambda>xs. veval V l (bind_vars vs xs \<rho>) b') = Some v"
    and "ex_val vs (\<lambda>xs. eval I l (bind_vars vs xs \<rho>) b) = Some v \<Longrightarrow> ex_val vs (\<lambda>xs. veval V l (bind_vars vs xs \<rho>) b') = Some v"
  using quant_mono [of "\<lambda>xs. eval I l (bind_vars vs xs \<rho>) b" "\<lambda>xs. veval V l (bind_vars vs xs \<rho>) b'"] assms by blast+

lemma expr_to_viper_step:
  assumes "simplifier_sound cf V" "represents I V e" "expr_to_viper cf e = Inr x" "eval I l \<rho> e = Some v"
    and child: "\<And>c y l \<rho> v. c \<in> set (children e) \<Longrightarrow> expr_to_viper cf c = Inr y \<Longrightarrow> eval I l \<rho> c = Some v \<Longrightarrow>
      veval V l \<rho> y = Some v"
  shows "veval V l \<rho> x = Some v"
proof -
  note node = node_sound [OF assms(2,4) _ assms(1)]
  note R = assms(2) [unfolded represents_unfold [of I V e] same_meaning_def]
  have children: "mapO (veval V l \<rho>) ys = Some vs"
    if "mapE (expr_to_viper cf) es = Inr ys" "mapO (eval I l \<rho>) es = Some vs" "set es \<subseteq> set (children e)" for es ys vs
    by (rule mapE_mapO [OF that(1,2)]) (use child that(3) in blast)
  show ?thesis
  proof (cases e)
    case (ELocal w p)
    show ?thesis
      by (rule node [OF assms(3) [unfolded ELocal expr_to_viper.simps]])
        (use assms(4) ELocal in \<open>auto simp: local_to_viper_def\<close>)
  next
    case (EVariant b f p)
    show ?thesis
      by (rule node [OF assms(3) [unfolded EVariant expr_to_viper.simps]])
        (use assms(4) EVariant R child in \<open>auto simp: fallible_simps field_to_viper_def bind_eq_Some_conv\<close>)
  next
    case (EField b f p)
    show ?thesis
      by (rule node [OF assms(3) [unfolded EField expr_to_viper.simps]])
        (use assms(4) EField R child in \<open>auto simp: fallible_simps field_to_viper_def bind_eq_Some_conv\<close>)
  next
    case (EConst c p)
    show ?thesis
      by (rule node [OF assms(3) [unfolded EConst expr_to_viper.simps]])
        (use assms(4) EConst R const_sound [of V I c v] in auto)
  next
    case (ELabelledOld lbl b p)
    show ?thesis
      by (rule node [OF assms(3) [unfolded ELabelledOld expr_to_viper.simps]])
        (use assms(4) ELabelledOld child in \<open>auto simp: fallible_simps\<close>)
  next
    case (EUnaryOp uop a p)
    show ?thesis
      by (rule node [OF assms(3) [unfolded EUnaryOp expr_to_viper.simps]])
        (use assms(4) EUnaryOp child in \<open>auto simp: fallible_simps unary_sound un_val_Some\<close>)
  next
    case (EBinOp bop a b p)
    show ?thesis
      by (rule node [OF assms(3) [unfolded EBinOp expr_to_viper.simps]], erule bin_sound)
        (use assms(4) EBinOp child [of a] child [of b] in auto)
  next
    case (EContainerOp cop a b p)
    show ?thesis
      by (rule node [OF assms(3) [unfolded EContainerOp expr_to_viper.simps]], erule container_sound)
        (use assms(4) EContainerOp child [of a] child [of b] in auto)
  next
    case (ESeq t es p)
    show ?thesis
      by (rule node [OF assms(3) [unfolded ESeq expr_to_viper.simps]])
        (use assms(4) ESeq children [of es] in \<open>auto simp: fallible_simps split: type.splits if_splits\<close>)
  next
    case (EUnfolding n es b m i p)
    show ?thesis
      by (rule node [OF assms(3) [unfolded EUnfolding expr_to_viper.simps]])
        (use assms(4) EUnfolding children [of es] child [of b] in \<open>auto simp: fallible_simps bind_eq_Some_conv subset_insertI\<close>)
  next
    case (ECond g a b p)
    show ?thesis
      by (rule node [OF assms(3) [unfolded ECond expr_to_viper.simps]])
        (use assms(4) ECond child [of g] child [of a] child [of b] in
          \<open>auto simp: fallible_simps split: option.split_asm val.split_asm bool.split_asm\<close>)
  next
    case (EForAll vs ts b p)
    obtain b' where b: "expr_to_viper cf b = Inr b'" using assms(3) EForAll by (auto simp: simplified_Inr fallible_simps)
    have "all_val vs (\<lambda>xs. veval V l (bind_vars vs xs \<rho>) b') = Some v"
      by (rule quant_sound(1) [of I l b]) (use assms(4) EForAll child [OF _ b] in auto)
    then show ?thesis
      by (intro node [OF assms(3) [unfolded EForAll expr_to_viper.simps]]) (auto simp: fallible_simps b)
  next
    case (EExists vs ts b p)
    obtain b' where b: "expr_to_viper cf b = Inr b'" using assms(3) EExists by (auto simp: simplified_Inr fallible_simps)
    have "ex_val vs (\<lambda>xs. veval V l (bind_vars vs xs \<rho>) b') = Some v"
      by (rule quant_sound(2) [of I l b]) (use assms(4) EExists child [OF _ b] in auto)
    then show ?thesis
      by (intro node [OF assms(3) [unfolded EExists expr_to_viper.simps]]) (auto simp: fallible_simps b exists_with_pos_def)
  next
    case (ELetExpr w d b p)
    show ?thesis
      by (rule node [OF assms(3) [unfolded ELetExpr expr_to_viper.simps]])
        (use assms(4) ELetExpr child [of d] child [of b] in \<open>auto simp: fallible_simps bind_eq_Some_conv var_to_viper_decl_def\<close>)
  next
    case (EFuncApp n es fs t p)
    show ?thesis
      by (rule node [OF assms(3) [unfolded EFuncApp expr_to_viper.simps]])
        (use assms(4) EFuncApp R children [of es] in \<open>auto simp: fallible_simps bind_eq_Some_conv\<close>)
  next
    case (EDomainFuncApp f es p)
    show ?thesis
      by (rule node [OF assms(3) [unfolded EDomainFuncApp expr_to_viper.simps]])
        (use assms(4) EDomainFuncApp R children [of es] in \<open>auto simp: fallible_simps bind_eq_Some_conv domain_func_to_viper_def\<close>)
  next
    case (EDowncast b pl f)
    show ?thesis
      by (rule node [OF assms(3) [unfolded EDowncast expr_to_viper.simps]])
        (use assms(4) EDowncast child [of b] in \<open>auto simp: bind_eq_Some_conv\<close>)
  qed (use R assms(3) in auto)
qed

text \<open>
  C4 Translation to Viper keeps the meaning of expressions without permissions, wands and inhale-exhale pairs: if the
  translation returns a Viper expression and the expression has a value, the Viper expression has the same value, in an interpretation
  of the Viper program in which the names of fields and functions stand for what they stand for in VIR, and whatever
  meaning-preserving simplifier is used.
\<close>

theorem expr_to_viper_sound:
  assumes "simplifier_sound cf V" "represents I V e" "expr_to_viper cf e = Inr x" "eval I l \<rho> e = Some v"
  shows "veval V l \<rho> x = Some v"
  using assms(2-4)
proof (induction e arbitrary: x l \<rho> v rule: expr_children_induct)
  case (step e)
  show ?case
    by (rule expr_to_viper_step [OF assms(1) step.prems])
      (use step in \<open>auto simp: represents_unfold [of I V e]\<close>)
qed

subsection \<open>Which expressions are translated\<close>

text \<open>The parts of an expression that the translation visits, triggers included.\<close>

definition viper_parts :: "expr \<Rightarrow> expr list" where
  "viper_parts e =
     (case e of
        EContainerOp cop l r p \<Rightarrow> if cop = SeqLen then [l] else [l, r]
      | EDowncast b pl f \<Rightarrow> [b]
      | EForAll vs ts b p \<Rightarrow> concat (map trigger_elements ts) @ [b]
      | EExists vs ts b p \<Rightarrow> concat (map trigger_elements ts) @ [b]
      | _ \<Rightarrow> children e)"

definition untranslatable :: "expr \<Rightarrow> bool" where
  "untranslatable e =
     (case e of
        EAddrOf _ _ _ \<Rightarrow> True | ESnapApp _ _ \<Rightarrow> True
      | ESeq ty _ _ \<Rightarrow> (case ty of TSeq _ \<Rightarrow> False | _ \<Rightarrow> True)
      | _ \<Rightarrow> False)"

lemma viper_parts_size: "c \<in> set (viper_parts e) \<Longrightarrow> size c < size e"
proof -
  have "size c < Suc (size_list (size_trigger size) ts + n)" if "t \<in> set ts" "c \<in> set (trigger_elements t)" for ts t n
  proof -
    have "size c \<le> size_trigger size t" using that(2) by (cases t) (auto intro: le_SucI size_list_estimation')
    also have "\<dots> \<le> size_list (size_trigger size) ts" using that(1) by (rule size_list_estimation') simp
    finally show ?thesis by simp
  qed
  then show "c \<in> set (viper_parts e) \<Longrightarrow> size c < size e"
    using children_size [of c e] by (cases e) (auto simp: viper_parts_def split: if_splits)
qed

function translatable :: "expr \<Rightarrow> bool" where
  "translatable e = (\<not> untranslatable e \<and> list_all translatable (viper_parts e))"
  by pat_completeness auto
termination by (relation "measure size") (auto simp: viper_parts_size)

declare translatable.simps [simp del]

lemma translatable_simps [simp]:
  "translatable (ELocal v p)" "translatable (EConst c p)"
  "translatable (EVariant b fd p) = translatable b" "translatable (EField b fd p) = translatable b"
  "\<not> translatable (EAddrOf b t p)" "\<not> translatable (ESnapApp b p)"
  "translatable (ELabelledOld lbl b p) = translatable b"
  "translatable (EMagicWand l r w p) = (translatable l \<and> translatable r)"
  "translatable (EPredicateAccessPredicate n b q p) = translatable b"
  "translatable (EFieldAccessPredicate b q p) = translatable b"
  "translatable (EUnaryOp uop b p) = translatable b"
  "translatable (EBinOp bop l r p) = (translatable l \<and> translatable r)"
  "translatable (EContainerOp cop l r p) = (translatable l \<and> (cop = SeqLen \<or> translatable r))"
  "translatable (ESeq t es p) = (\<not> untranslatable (ESeq t es p) \<and> list_all translatable es)"
  "translatable (EUnfolding n es b q i p) = (list_all translatable es \<and> translatable b)"
  "translatable (ECond g l r p) = (translatable g \<and> translatable l \<and> translatable r)"
  "translatable (EForAll vs ts b p) = (list_all (\<lambda>t. list_all translatable (trigger_elements t)) ts \<and> translatable b)"
  "translatable (EExists vs ts b p) = (list_all (\<lambda>t. list_all translatable (trigger_elements t)) ts \<and> translatable b)"
  "translatable (ELetExpr v d b p) = (translatable d \<and> translatable b)"
  "translatable (EFuncApp n es fs t p) = list_all translatable es"
  "translatable (EDomainFuncApp f es p) = list_all translatable es"
  "translatable (EInhaleExhale l r p) = (translatable l \<and> translatable r)"
  "translatable (EDowncast b pl fd) = translatable b"
  by (subst translatable.simps; auto simp: viper_parts_def untranslatable_def list_all_iff split: type.splits)+

lemma mapE_total_iff: "(\<exists>ys. mapE f xs = Inr ys) \<longleftrightarrow> list_all (\<lambda>x. \<exists>y. f x = Inr y) xs"
  by (induction xs) (auto split: sum.splits)

lemma bindE_total_iff: "(\<exists>y. bindE m f = Inr y) \<longleftrightarrow> (\<exists>x. m = Inr x \<and> (\<exists>y. f x = Inr y))"
  by (cases m) auto

lemma simplified_total_iff: "(\<exists>y. simplified cf r = Inr y) \<longleftrightarrow> (\<exists>y. r = Inr y)"
  by (cases r) (auto simp: simplified_def)

lemma triggers_total_iff:
  "(\<exists>y. triggers_to_viper f pos ts = Inr y) \<longleftrightarrow> list_all (\<lambda>t. list_all (\<lambda>e. \<exists>y. f e = Inr y) (trigger_elements t)) ts"
  by (simp add: triggers_to_viper_def mapE_total_iff bindE_total_iff)

lemmas total_iffs = mapE_total_iff bindE_total_iff simplified_total_iff triggers_total_iff

lemma translated_iff: "(\<exists>x. expr_to_viper cf e = Inr x) \<longleftrightarrow> translatable e"
proof (induction e rule: measure_induct_rule [of size])
  case (less e)
  have part: "(\<exists>x. expr_to_viper cf c = Inr x) \<longleftrightarrow> translatable c" if "c \<in> set (viper_parts e)" for c
    using less viper_parts_size that by blast
  show ?case
  proof (cases e)
    case (EContainerOp cop left right pos)
    then show ?thesis using part by (cases cop) (auto simp: total_iffs viper_parts_def)
  next
    case (EForAll vs ts b p)
    then have "\<forall>t \<in> set ts. \<forall>c \<in> set (trigger_elements t). (\<exists>x. expr_to_viper cf c = Inr x) \<longleftrightarrow> translatable c"
      using part by (auto simp: viper_parts_def)
    then show ?thesis using part [of b] EForAll by (auto simp: total_iffs list_all_iff viper_parts_def)
  next
    case (EExists vs ts b p)
    then have "\<forall>t \<in> set ts. \<forall>c \<in> set (trigger_elements t). (\<exists>x. expr_to_viper cf c = Inr x) \<longleftrightarrow> translatable c"
      using part by (auto simp: viper_parts_def)
    then show ?thesis using part [of b] EExists by (auto simp: total_iffs list_all_iff viper_parts_def)
  qed (use part in \<open>auto simp: total_iffs list_all_iff untranslatable_def borrow_literal_def viper_parts_def split: type.splits\<close>)
qed

text \<open>
  C20 Translation of an expression panics exactly if it reaches an address-of, a snapshot that was not replaced, or a
  sequence whose type is not that of a sequence; arguments of predicates, bodies and triggers of quantifiers are
  reached, the second operand of a length and the place of a downcast are not.
\<close>

theorem expr_to_viper_total: "(\<exists>x. expr_to_viper cf e = Inr x) \<longleftrightarrow> translatable e"
  by (rule translated_iff)

subsection \<open>Examples\<close>

definition ex_viper_config :: viper_config where
  "ex_viper_config = \<lparr>tv_simplify_encoding = True, tv_simplified_expression = id, tv_to_string = (\<lambda>_. ''stmt'')\<rparr>"

definition ex_inc :: expr where
  "ex_inc = EBinOp OpAdd
     (EFuncApp ''inc'' [expr_local (local_var_new ''n'' TInt)] [local_var_new ''x'' TInt] TInt position_default)
     (EConst (CInt 2) position_default) position_default"

definition inc_val :: "val list \<Rightarrow> val option" where
  "inc_val vs = (case vs of [VInt i] \<Rightarrow> Some (VInt (i + 1)) | _ \<Rightarrow> None)"

definition ex_interp :: interp where
  "ex_interp = \<lparr>i_heap = (\<lambda>_ _ _. None), i_addr = (\<lambda>_. None), i_pred = (\<lambda>_ _ _ _. None),
     i_facc = (\<lambda>_ _ _ _. None), i_wand = (\<lambda>_ _ _. None), i_fun = (\<lambda>_ n. if n = ''inc'' then inc_val else (\<lambda>_. None)),
     i_dom = (\<lambda>_ _. None), i_snap = (\<lambda>_ _. None), i_const = (\<lambda>_. None)\<rparr>"

definition ex_viper_interp :: viper_interp where
  "ex_viper_interp = \<lparr>vi_heap = (\<lambda>_ _ _. None),
     vi_fun = (\<lambda>_ n. if n = ''inc__$TY$__$int$$$int$'' then inc_val else (\<lambda>_. None)),
     vi_dom = (\<lambda>_ _. None), vi_null = None\<rparr>"

lemma ex_inc_represented: "represents ex_interp ex_viper_interp ex_inc"
proof -
  have "compute_identifier ''inc'' [local_var_new ''x'' TInt] TInt = ''inc__$TY$__$int$$$int$''" by code_simp
  then show ?thesis
    by (simp add: same_meaning_def ex_interp_def ex_viper_interp_def expr_local_def ex_inc_def
      represents_unfold [where e = "EBinOp bop a b p" for bop a b p] represents_unfold [where e = "ELocal v p" for v p]
      represents_unfold [where e = "EFuncApp n es fs t p" for n es fs t p] represents_unfold [where e = "EConst c p" for c p])
qed

theorem expr_to_viper_sound_witness:
  "\<exists>x. expr_to_viper ex_viper_config ex_inc = Inr x \<and> veval ex_viper_interp None [''n'' \<mapsto> VInt 5] x = Some (VInt 8)"
proof -
  have "translatable ex_inc" by (simp add: ex_inc_def expr_local_def)
  then obtain x where x: "expr_to_viper ex_viper_config ex_inc = Inr x" using translated_iff [of ex_viper_config ex_inc] by blast
  have "eval ex_interp None [''n'' \<mapsto> VInt 5] ex_inc = Some (VInt 8)"
    by (simp add: ex_inc_def expr_local_def local_var_new_def ex_interp_def inc_val_def bin_val_strict strict_bin_def
      int_bin_def typed_def)
  then show ?thesis
    using expr_to_viper_sound [OF _ ex_inc_represented x] x by (auto simp: simplifier_sound_def ex_viper_config_def)
qed

text \<open>The position of an existential quantifier is lost.\<close>

theorem exists_loses_position:
  "expr_to_viper cf (EExists vs [] (EConst (CBool True) p) pos) =
     simplified cf (bindE (expr_to_viper cf (EConst (CBool True) p)) (\<lambda>body.
       Inr (XExists (map var_to_viper_decl vs) [] body NoPosition)))"
  by (simp add: triggers_to_viper_def exists_with_pos_def)

end
