(* ===== verification/Cfg_To_Viper.thy ===== *)
theory Cfg_To_Viper
  imports Vir_To_Viper Opt_Cfg_Cleaner "HOL-Library.AList" "HOL-Library.Char_ord" "HOL-Library.List_Lexorder" "HOL-Library.Sublist"
begin

section \<open>Translation of statements and methods to Viper (to_viper.rs, cfg/to_viper.rs)\<close>

text \<open>
  A control-flow graph becomes a list of labelled blocks that end in jumps.  A panic is an error with a message;
  the settings that choose a path of blocks are arguments, the names of blocks are a list, and the blocks that the
  debugging mode leaves over, a hash map in the code, are in the order of the blocks.
\<close>

subsection \<open>Statements\<close>

definition assert_to_viper :: "viper_config \<Rightarrow> expr \<Rightarrow> position \<Rightarrow> string + viper_stmt" where
  "assert_to_viper cf e pos = bindE (expr_to_viper cf e) (\<lambda>e. Inr (VAssert e (position_to_viper pos)))"

text \<open>The assertions that Silicon needs in a package statement.\<close>

definition create_footprint_asserts :: "viper_config \<Rightarrow> expr \<Rightarrow> perm_amount \<Rightarrow> string + viper_stmt list" where
  "create_footprint_asserts cf e perm =
     mapE (\<lambda>access. assert_to_viper cf access position_default) (compute_footprint e perm)"

definition exhale_to_viper :: "viper_config \<Rightarrow> expr \<Rightarrow> position \<Rightarrow> string + viper_stmt" where
  "exhale_to_viper cf e pos =
     bindE (assertE ''stmt with default pos'' (\<not> position_is_default pos)) (\<lambda>_.
     bindE (expr_to_viper cf e) (\<lambda>e. Inr (VExhale e (position_to_viper pos))))"

definition assign_to_viper :: "viper_config \<Rightarrow> expr \<Rightarrow> expr \<Rightarrow> string + viper_stmt" where
  "assign_to_viper cf lhs rhs =
     bindE (expr_to_viper cf lhs) (\<lambda>lhs. bindE (expr_to_viper cf rhs) (\<lambda>rhs. Inr (VAbstractAssign lhs rhs)))"

definition fold_to_viper ::
  "viper_config \<Rightarrow> string \<Rightarrow> expr list \<Rightarrow> perm_amount \<Rightarrow> position \<Rightarrow> string + viper_stmt" where
  "fold_to_viper cf pred_name args perm pos =
     (let pos = position_to_viper pos in
      bindE (mapE (expr_to_viper cf) args) (\<lambda>args.
      Inr (VFold (XPredicateAccessPredicate (XPredicateAccess args pred_name pos) (perm_to_viper perm) pos) pos)))"

definition apply_to_viper :: "viper_config \<Rightarrow> expr \<Rightarrow> position \<Rightarrow> string + viper_stmt" where
  "apply_to_viper cf wand pos =
     (case wand of
        EMagicWand _ _ (Some borrow) _ \<Rightarrow>
          bindE (borrow_literal cf (from_usize (of_nat (borrow_id borrow)))) (\<lambda>b.
          bindE (expr_to_viper cf wand) (\<lambda>wand.
          Inr (VSeqn [VInhale (dead_borrow_token b) (position_to_viper pos), VApply wand (position_to_viper pos)] [])))
      | _ \<Rightarrow> Inl ''unreachable'')"

text \<open>After the assertions about the footprint, the statement itself.\<close>

definition with_footprint :: "viper_config \<Rightarrow> expr \<Rightarrow> string + viper_stmt \<Rightarrow> string + viper_stmt" where
  "with_footprint cf e s =
     bindE (create_footprint_asserts cf e Read) (\<lambda>stmts. bindE s (\<lambda>s. Inr (VSeqn (stmts @ [s]) [])))"

definition package_fold_to_viper ::
  "viper_config \<Rightarrow> string \<Rightarrow> expr list \<Rightarrow> perm_amount \<Rightarrow> position \<Rightarrow> string + viper_stmt" where
  "package_fold_to_viper cf pred_name args perm pos =
     bindE (assertE ''assertion failed: args.len() == 1'' (length args = 1)) (\<lambda>_.
     bindE (assertE ''assertion failed: place.is_place()'' (is_place (hd args))) (\<lambda>_.
     with_footprint cf (hd args) (fold_to_viper cf pred_name args perm pos)))"

text \<open>The flag says whether the statement is in the body of a package statement (\<open>stmt_to_viper_in_packge\<close>).\<close>

fun stmt_to_viper_at :: "viper_config \<Rightarrow> bool \<Rightarrow> stmt \<Rightarrow> string + viper_stmt" where
  "stmt_to_viper_at cf pk (SComment comment) = Inr (VComment comment)"
| "stmt_to_viper_at cf pk (SLabel label) = Inr (VLabel label)"
| "stmt_to_viper_at cf pk (SInhale e) =
     bindE (expr_to_viper cf e) (\<lambda>e. Inr (VInhale e (position_to_viper position_default)))"
| "stmt_to_viper_at cf pk (SExhale e pos) =
     (if pk then with_footprint cf e (exhale_to_viper cf e pos) else exhale_to_viper cf e pos)"
| "stmt_to_viper_at cf pk (SAssert e pos) = assert_to_viper cf e pos"
| "stmt_to_viper_at cf pk (SMethodCall method_name args targets) =
     bindE (mapE (expr_to_viper cf) args) (\<lambda>args.
     Inr (VMethodCall method_name args (map (\<lambda>v. local_to_viper v position_default) targets)))"
| "stmt_to_viper_at cf pk (SAssign lhs rhs kind) =
     (if pk then with_footprint cf rhs (assign_to_viper cf lhs rhs) else assign_to_viper cf lhs rhs)"
| "stmt_to_viper_at cf pk (SFold pred_name args perm variant pos) =
     (if pk then package_fold_to_viper cf pred_name args perm pos else fold_to_viper cf pred_name args perm pos)"
| "stmt_to_viper_at cf pk (SUnfold pred_name args perm variant) =
     bindE (mapE (expr_to_viper cf) args) (\<lambda>args.
     Inr (VUnfold (XPredicateAccessPredicate (XPredicateAccess args pred_name NoPosition) (perm_to_viper perm) NoPosition)))"
| "stmt_to_viper_at cf pk (SPackageMagicWand wand package_stmts label vars pos) =
     bindE (mapE (stmt_to_viper_at cf True) package_stmts) (\<lambda>stmts.
     bindE (expr_to_viper cf wand) (\<lambda>wand.
     Inr (VPackage wand (VSeqn stmts (map (DeclVar \<circ> var_to_viper_decl) vars)) (position_to_viper pos))))"
| "stmt_to_viper_at cf pk (SApplyMagicWand wand pos) = apply_to_viper cf wand pos"
| "stmt_to_viper_at cf pk (SIf guard then_stmts else_stmts) =
     bindE (mapE (stmt_to_viper_at cf pk) then_stmts) (\<lambda>t.
     bindE (mapE (stmt_to_viper_at cf pk) else_stmts) (\<lambda>e.
     bindE (expr_to_viper cf guard) (\<lambda>guard. Inr (VIf guard (VSeqn t []) (VSeqn e [])))))"
| "stmt_to_viper_at cf pk s = Inr (VComment (tv_to_string cf s))"

definition stmt_to_viper :: "viper_config \<Rightarrow> stmt \<Rightarrow> string + viper_stmt" where
  "stmt_to_viper cf s = stmt_to_viper_at cf False s"

subsection \<open>Methods\<close>

definition index_to_label :: "string list \<Rightarrow> nat \<Rightarrow> string + string" where
  "index_to_label labels i =
     (if i < length labels then Inr (labels ! i) else Inl ''index out of bounds'')"

definition goto_to_viper :: "string list \<Rightarrow> block_index \<Rightarrow> string + viper_stmt" where
  "goto_to_viper labels target = bindE (index_to_label labels (bi_index target)) (\<lambda>l. Inr (VGoto l))"

definition guarded_to_viper :: "viper_config \<Rightarrow> string list \<Rightarrow> expr \<times> block_index \<Rightarrow> string + viper_stmt" where
  "guarded_to_viper cf labels gt =
     bindE (goto_to_viper labels (snd gt)) (\<lambda>goto.
     bindE (expr_to_viper cf (fst gt)) (\<lambda>test. Inr (VIf test goto (VSeqn [] []))))"

fun successor_to_viper :: "viper_config \<Rightarrow> string list \<Rightarrow> successor \<Rightarrow> string + viper_stmt" where
  "successor_to_viper cf labels SuccUndefined = Inl ''CFG block has no successor.''"
| "successor_to_viper cf labels SuccReturn = Inr (VGoto RETURN_LABEL)"
| "successor_to_viper cf labels (SuccGoto target) = goto_to_viper labels target"
| "successor_to_viper cf labels (SuccGotoSwitch successors default_target) =
     bindE (mapE (guarded_to_viper cf labels) successors) (\<lambda>stmts.
     bindE (goto_to_viper labels default_target) (\<lambda>default_goto. Inr (VSeqn (stmts @ [default_goto]) [])))"

definition block_to_viper :: "viper_config \<Rightarrow> string list \<Rightarrow> cfg_block \<Rightarrow> nat \<Rightarrow> string + viper_stmt" where
  "block_to_viper cf labels block index =
     bindE (index_to_label labels index) (\<lambda>label.
     bindE (mapE (stmt_to_viper cf) (cb_stmts block)) (\<lambda>stmts.
     bindE (successor_to_viper cf labels (cb_successor block)) (\<lambda>succ.
     Inr (VSeqn ([VLabel label] @ stmts @ [succ]) []))))"

text \<open>A block with the declaration of its label.\<close>

definition declared_block ::
  "viper_config \<Rightarrow> string list \<Rightarrow> nat \<times> cfg_block \<Rightarrow> string + viper_stmt \<times> viper_decl" where
  "declared_block cf labels ib =
     bindE (block_to_viper cf labels (snd ib) (fst ib)) (\<lambda>s.
     bindE (index_to_label labels (fst ib)) (\<lambda>l. Inr (s, DeclLabel l)))"

text \<open>The first block stays first, the others are sorted by their labels.\<close>

definition sorted_blocks :: "string list \<Rightarrow> cfg_block list \<Rightarrow> (nat \<times> cfg_block) list" where
  "sorted_blocks labels blocks =
     (case zip [0..<length blocks] blocks of
        [] \<Rightarrow> []
      | first # rest \<Rightarrow> first # sort_key (\<lambda>(i, _). labels ! i) rest)"

definition all_blocks :: "viper_config \<Rightarrow> cfg_method \<Rightarrow> string + (viper_stmt \<times> viper_decl) list" where
  "all_blocks cf m =
     bindE (assertE ''index out of bounds'' (cm_basic_blocks m \<noteq> [])) (\<lambda>_.
     bindE (mapE (index_to_label (cm_basic_blocks_labels m)) [1..<length (cm_basic_blocks m)]) (\<lambda>_.
     mapE (declared_block cf (cm_basic_blocks_labels m))
       (sorted_blocks (cm_basic_blocks_labels m) (cm_basic_blocks m))))"

definition method_with_blocks ::
  "cfg_method \<Rightarrow> string list \<Rightarrow> (viper_stmt \<times> viper_decl) list \<Rightarrow> viper_method" where
  "method_with_blocks m labels blocks =
     \<lparr>vm_name = cm_method_name m, vm_formal_args = [],
      vm_formal_returns = map var_to_viper_decl (cm_formal_returns m),
      vm_body = Some (VSeqn (map fst blocks @ [VLabel RETURN_LABEL])
        (map (DeclVar \<circ> var_to_viper_decl) (cm_local_vars m) @ map DeclLabel labels @ map snd blocks @
         [DeclLabel RETURN_LABEL]))\<rparr>"

text \<open>
  The debugging mode that follows a given path of blocks: the blocks on it come first, then blocks to delete, whose
  body becomes \<open>inhale false\<close>, then the others.
\<close>

type_synonym remaining_blocks = "(string \<times> nat \<times> cfg_block) list"

definition following_labels :: "string list \<Rightarrow> cfg_block \<Rightarrow> string + string list" where
  "following_labels labels block =
     bindE (mapE (\<lambda>ci. index_to_label labels (bi_index ci)) (get_following (cb_successor block))) (\<lambda>successors.
     bindE (assertE ''assertion failed: !successors.is_empty()'' (successors \<noteq> [])) (\<lambda>_. Inr successors))"

text \<open>The label of the next block, if the path goes on, and the rest of the path.\<close>

definition next_label :: "string list \<Rightarrow> string list \<Rightarrow> string + (string \<times> string list) option" where
  "next_label successors path =
     (if length successors = 1 then Inr (Some (hd successors, path))
      else case path of
        l # path \<Rightarrow> bindE (assertE ''successors'' (l \<in> set successors)) (\<lambda>_. Inr (Some (l, path)))
      | [] \<Rightarrow> Inr None)"

fun follow_path ::
  "viper_config \<Rightarrow> string list \<Rightarrow> nat \<Rightarrow> string list \<Rightarrow> string \<Rightarrow> remaining_blocks \<Rightarrow>
     string + (viper_stmt \<times> viper_decl) list \<times> remaining_blocks" where
  "follow_path cf labels 0 path current remaining = Inr ([], remaining)"
| "follow_path cf labels (Suc n) path current remaining =
     (case map_of remaining current of
        None \<Rightarrow> Inr ([], remaining)
      | Some ib \<Rightarrow>
          let remaining = AList.delete current remaining in
          bindE (declared_block cf labels ib) (\<lambda>block.
          bindE (following_labels labels (snd ib)) (\<lambda>successors.
          bindE (next_label successors path) (\<lambda>next_path.
          case next_path of
            None \<Rightarrow> Inr ([block], remaining)
          | Some (l, path) \<Rightarrow>
              bindE (follow_path cf labels n path l remaining) (\<lambda>(blocks, remaining). Inr (block # blocks, remaining))))))"

definition deleted_block :: "viper_config \<Rightarrow> string list \<Rightarrow> string \<Rightarrow> cfg_block \<Rightarrow> string + viper_stmt \<times> viper_decl" where
  "deleted_block cf labels label block =
     (let fake_position = position_to_viper position_default in
      bindE (successor_to_viper cf labels (cb_successor block)) (\<lambda>succ.
      Inr (VSeqn [VLabel label, VInhale (XBoolLit False fake_position) fake_position, succ] [], DeclLabel label)))"

fun delete_blocks ::
  "viper_config \<Rightarrow> string list \<Rightarrow> string list \<Rightarrow> remaining_blocks \<Rightarrow>
     string + (viper_stmt \<times> viper_decl) list \<times> remaining_blocks" where
  "delete_blocks cf labels [] remaining = Inr ([], remaining)"
| "delete_blocks cf labels (label # deleted) remaining =
     bindE (unwrapE ''called Option::unwrap() on a None value'' (map_of remaining label)) (\<lambda>(index, block).
     bindE (deleted_block cf labels label block) (\<lambda>d.
     bindE (delete_blocks cf labels deleted (AList.delete label remaining)) (\<lambda>(ds, remaining). Inr (d # ds, remaining))))"

text \<open>\<open>convert_basic_block_path\<close>: each round of the loop removes a block, so their number is enough fuel.\<close>

definition convert_basic_block_path ::
  "viper_config \<Rightarrow> string list \<Rightarrow> string list \<Rightarrow> cfg_method \<Rightarrow> string + (viper_stmt \<times> viper_decl) list" where
  "convert_basic_block_path cf path deleted m =
     (let labels = cm_basic_blocks_labels m; blocks = zip [0..<length (cm_basic_blocks m)] (cm_basic_blocks m) in
      bindE (mapE (\<lambda>ib. bindE (index_to_label labels (fst ib)) (\<lambda>l. Inr (l, ib))) blocks) (\<lambda>remaining_blocks.
      bindE (index_to_label labels 0) (\<lambda>current_label.
      bindE (follow_path cf labels (length blocks) path current_label remaining_blocks) (\<lambda>(on_path, remaining_blocks).
      bindE (delete_blocks cf labels deleted remaining_blocks) (\<lambda>(ds, remaining_blocks).
      bindE (mapE (declared_block cf labels) (map snd remaining_blocks)) (\<lambda>others. Inr (on_path @ ds @ others)))))))"

record path_mode =
  pm_verify_only_basic_block_path :: "string list"
  pm_delete_basic_blocks :: "string list"

text \<open>
  \<open>to_viper\<close> of a method; the labels of the method are a hash set in the code, a list in any order here, and the
  debugging mode is off if there is no path.
\<close>

definition method_to_viper ::
  "viper_config \<Rightarrow> path_mode option \<Rightarrow> string list \<Rightarrow> cfg_method \<Rightarrow> string + viper_method" where
  "method_to_viper cf mode labels m =
     bindE (case mode of
         Some pm \<Rightarrow> convert_basic_block_path cf (pm_verify_only_basic_block_path pm) (pm_delete_basic_blocks pm) m
       | None \<Rightarrow> all_blocks cf m) (\<lambda>blocks. Inr (method_with_blocks m labels blocks))"

subsection \<open>Runs of a Viper method\<close>

text \<open>
  The statements of a body in the order in which they are written; blocks of statements have no effect of their own.
\<close>

fun flat :: "viper_stmt \<Rightarrow> viper_stmt list" where
  "flat (VSeqn ss ds) = concat (map flat ss)"
| "flat s = [s]"

fun has_goto :: "viper_stmt \<Rightarrow> bool" where
  "has_goto (VGoto _) = True"
| "has_goto (VIf _ t e) = (has_goto t \<or> has_goto e)"
| "has_goto (VSeqn ss _) = list_ex has_goto ss"
| "has_goto _ = False"

text \<open>The statements after a label.\<close>

definition after_label :: "string \<Rightarrow> viper_stmt list \<Rightarrow> viper_stmt list option" where
  "after_label l P = (case dropWhile (\<lambda>s. s \<noteq> VLabel l) P of [] \<Rightarrow> None | _ # ks \<Rightarrow> Some ks)"

datatype viper_event = VEvStep viper_stmt | VEvBranch viper_expr bool | VEvEnd

text \<open>
  \<open>vtrace B P n ks tr\<close>: the method body \<open>P\<close>, with \<open>ks\<close> left to do, can produce the events \<open>tr\<close> with at most \<open>n\<close> jumps.
  Events are the statements, the conditions of jumps with their outcome, and the end of the method.  The labels in
  \<open>B\<close>, which are those of blocks, are silent, and a run may be observed up to any point.
\<close>

inductive vtrace :: "string set \<Rightarrow> viper_stmt list \<Rightarrow> nat \<Rightarrow> viper_stmt list \<Rightarrow> viper_event list \<Rightarrow> bool" for B P where
  vtrace_stop: "vtrace B P n ks []"
| vtrace_end: "vtrace B P n [] [VEvEnd]"
| vtrace_label: "l \<in> B \<Longrightarrow> vtrace B P n ks tr \<Longrightarrow> vtrace B P n (VLabel l # ks) tr"
| vtrace_goto: "after_label l P = Some ks' \<Longrightarrow> vtrace B P n ks' tr \<Longrightarrow> vtrace B P (Suc n) (VGoto l # ks) tr"
| vtrace_then: "has_goto (VIf g t e) \<Longrightarrow> vtrace B P n (flat t @ ks) tr \<Longrightarrow>
    vtrace B P n (VIf g t e # ks) (VEvBranch g True # tr)"
| vtrace_else: "has_goto (VIf g t e) \<Longrightarrow> vtrace B P n (flat e @ ks) tr \<Longrightarrow>
    vtrace B P n (VIf g t e # ks) (VEvBranch g False # tr)"
| vtrace_step: "\<not> has_goto s \<Longrightarrow> s \<notin> VLabel ` B \<Longrightarrow> vtrace B P n ks tr \<Longrightarrow> vtrace B P n (s # ks) (VEvStep s # tr)"

inductive_simps vtrace_goto_simp: "vtrace B P n (VGoto l # ks) tr"
inductive_simps vtrace_if_simp: "vtrace B P n (VIf g t e # ks) tr"
inductive_simps vtrace_label_simp: "vtrace B P n (VLabel l # ks) tr"
inductive_simps vtrace_Nil_simp: "vtrace B P n [] tr"
inductive_simps vtrace_Cons_simp: "vtrace B P n (s # ks) tr"

definition plain :: "string set \<Rightarrow> viper_stmt \<Rightarrow> bool" where
  "plain B s \<longleftrightarrow> \<not> has_goto s \<and> s \<notin> VLabel ` B"

lemma plain_Cons: "plain B s \<Longrightarrow> vtrace B P n (s # ks) tr \<longleftrightarrow> tr = [] \<or> (\<exists>tr'. tr = VEvStep s # tr' \<and> vtrace B P n ks tr')"
  by (subst vtrace_Cons_simp) (auto simp: plain_def)

lemma plain_run:
  "list_all (plain B) us \<Longrightarrow>
   vtrace B P n (us @ ks) tr \<longleftrightarrow> prefix tr (map VEvStep us) \<or> (\<exists>tr'. tr = map VEvStep us @ tr' \<and> vtrace B P n ks tr')"
proof (induction us arbitrary: tr)
  case Nil
  then show ?case by (auto intro: vtrace_stop)
next
  case (Cons u us)
  then show ?case by (cases tr) (auto simp: plain_Cons)
qed

lemma goto_rest: "vtrace B P n (VGoto l # ks) tr = vtrace B P n (VGoto l # ks') tr"
  by (simp add: vtrace_goto_simp)

text \<open>A guarded jump, as the translation writes it.\<close>

definition cond_goto :: "viper_expr \<times> string \<Rightarrow> viper_stmt" where
  "cond_goto gl = VIf (fst gl) (VGoto (snd gl)) (VSeqn [] [])"

definition refused :: "(viper_expr \<times> string) list \<Rightarrow> viper_event list" where
  "refused gls = map (\<lambda>gl. VEvBranch (fst gl) False) gls"

lemma cond_goto_Cons:
  "vtrace B P n (cond_goto gl # ks) tr \<longleftrightarrow>
     tr = [] \<or> (\<exists>tr'. tr = VEvBranch (fst gl) True # tr' \<and> vtrace B P n (VGoto (snd gl) # ks) tr') \<or>
     (\<exists>tr'. tr = VEvBranch (fst gl) False # tr' \<and> vtrace B P n ks tr')"
  by (auto simp: cond_goto_def vtrace_if_simp)

definition switch_trace ::
  "string set \<Rightarrow> viper_stmt list \<Rightarrow> nat \<Rightarrow> (viper_expr \<times> string) list \<Rightarrow> string \<Rightarrow> viper_event list \<Rightarrow> bool" where
  "switch_trace B P n gls d tr \<longleftrightarrow>
     prefix tr (refused gls) \<or>
     (\<exists>k tr'. k < length gls \<and> tr = refused (take k gls) @ VEvBranch (fst (gls ! k)) True # tr' \<and>
        vtrace B P n [VGoto (snd (gls ! k))] tr') \<or>
     (\<exists>tr'. tr = refused gls @ tr' \<and> vtrace B P n [VGoto d] tr')"

lemma switch_trace_Cons:
  "switch_trace B P n (gl # gls) d tr \<longleftrightarrow>
     tr = [] \<or> (\<exists>tr'. tr = VEvBranch (fst gl) True # tr' \<and> vtrace B P n [VGoto (snd gl)] tr') \<or>
     (\<exists>tr'. tr = VEvBranch (fst gl) False # tr' \<and> switch_trace B P n gls d tr')"
  (is "_ \<longleftrightarrow> ?rhs")
proof
  assume "switch_trace B P n (gl # gls) d tr"
  then show ?rhs unfolding switch_trace_def
  proof (elim disjE exE conjE)
    fix k tr' assume "k < length (gl # gls)" "tr = refused (take k (gl # gls)) @ VEvBranch (fst ((gl # gls) ! k)) True # tr'"
      "vtrace B P n [VGoto (snd ((gl # gls) ! k))] tr'"
    then show "tr = [] \<or> (\<exists>tr'. tr = VEvBranch (fst gl) True # tr' \<and> vtrace B P n [VGoto (snd gl)] tr') \<or>
        (\<exists>tr'. tr = VEvBranch (fst gl) False # tr' \<and> (prefix tr' (refused gls) \<or>
           (\<exists>k tr''. k < length gls \<and> tr' = refused (take k gls) @ VEvBranch (fst (gls ! k)) True # tr'' \<and>
              vtrace B P n [VGoto (snd (gls ! k))] tr'') \<or>
           (\<exists>tr''. tr' = refused gls @ tr'' \<and> vtrace B P n [VGoto d] tr'')))"
      by (cases k) (auto simp: refused_def)
  qed (cases tr; auto simp: refused_def)+
next
  assume ?rhs
  then show "switch_trace B P n (gl # gls) d tr" unfolding switch_trace_def
  proof (elim disjE exE conjE)
    fix tr' assume "tr = VEvBranch (fst gl) True # tr'" "vtrace B P n [VGoto (snd gl)] tr'"
    then have "0 < length (gl # gls) \<and> tr = refused (take 0 (gl # gls)) @ VEvBranch (fst ((gl # gls) ! 0)) True # tr' \<and>
        vtrace B P n [VGoto (snd ((gl # gls) ! 0))] tr'" by (simp add: refused_def)
    then show "prefix tr (refused (gl # gls)) \<or>
        (\<exists>k tr'. k < length (gl # gls) \<and> tr = refused (take k (gl # gls)) @ VEvBranch (fst ((gl # gls) ! k)) True # tr' \<and>
          vtrace B P n [VGoto (snd ((gl # gls) ! k))] tr') \<or>
        (\<exists>tr'. tr = refused (gl # gls) @ tr' \<and> vtrace B P n [VGoto d] tr')" by blast
  next
    fix tr' k tr'' assume "tr = VEvBranch (fst gl) False # tr'" "k < length gls"
      "tr' = refused (take k gls) @ VEvBranch (fst (gls ! k)) True # tr''" "vtrace B P n [VGoto (snd (gls ! k))] tr''"
    then have "Suc k < length (gl # gls) \<and> tr = refused (take (Suc k) (gl # gls)) @ VEvBranch (fst ((gl # gls) ! Suc k)) True # tr'' \<and>
        vtrace B P n [VGoto (snd ((gl # gls) ! Suc k))] tr''" by (simp add: refused_def)
    then show "prefix tr (refused (gl # gls)) \<or>
        (\<exists>k tr'. k < length (gl # gls) \<and> tr = refused (take k (gl # gls)) @ VEvBranch (fst ((gl # gls) ! k)) True # tr' \<and>
          vtrace B P n [VGoto (snd ((gl # gls) ! k))] tr') \<or>
        (\<exists>tr'. tr = refused (gl # gls) @ tr' \<and> vtrace B P n [VGoto d] tr')" by blast
  qed (auto simp: refused_def)
qed

lemma switch_run: "vtrace B P n (map cond_goto gls @ VGoto d # ks) tr \<longleftrightarrow> switch_trace B P n gls d tr"
proof (induction gls arbitrary: tr)
  case Nil
  show ?case using goto_rest [of B P n d ks tr "[]"] by (auto simp: switch_trace_def refused_def vtrace_goto_simp)
next
  case (Cons gl gls)
  show ?case using goto_rest [of B P n "snd gl" "map cond_goto gls @ VGoto d # ks" _ "[]"] by (simp add: cond_goto_Cons switch_trace_Cons Cons.IH)
qed

subsection \<open>The translation keeps the runs\<close>

text \<open>The statements that a block is translated to, and the events of a trace of the graph.\<close>

definition viper_steps :: "viper_config \<Rightarrow> stmt list \<Rightarrow> viper_stmt list" where
  "viper_steps cf ss = concat (map (\<lambda>s. flat (projr (stmt_to_viper cf s))) ss)"

definition viper_guard :: "viper_config \<Rightarrow> expr \<Rightarrow> viper_expr" where
  "viper_guard cf g = projr (expr_to_viper cf g)"

fun viper_events :: "viper_config \<Rightarrow> event \<Rightarrow> viper_event list" where
  "viper_events cf (EvStep s) = map VEvStep (viper_steps cf [s])"
| "viper_events cf (EvBranch gs taken) =
     map (\<lambda>g. VEvBranch (viper_guard cf g) False) gs @
     (case taken of None \<Rightarrow> [] | Some g \<Rightarrow> [VEvBranch (viper_guard cf g) True])"
| "viper_events cf EvReturn = [VEvEnd]"

definition viper_event_list :: "viper_config \<Rightarrow> event list \<Rightarrow> viper_event list" where
  "viper_event_list cf tr = concat (map (viper_events cf) tr)"

definition block_labels :: "cfg_method \<Rightarrow> string set" where
  "block_labels m = insert RETURN_LABEL (set (cm_basic_blocks_labels m))"

definition viper_runs :: "string set \<Rightarrow> viper_method \<Rightarrow> viper_event list set" where
  "viper_runs B vm =
     {tr. \<exists>body n. vm_body vm = Some body \<and> vtrace B (flat body) n (flat body) tr}"

text \<open>The jump at the end of a block.\<close>

definition switch_targets :: "viper_config \<Rightarrow> string list \<Rightarrow> (expr \<times> block_index) list \<Rightarrow> (viper_expr \<times> string) list" where
  "switch_targets cf labels gs = map (\<lambda>gt. (viper_guard cf (fst gt), labels ! bi_index (snd gt))) gs"

fun viper_jump :: "viper_config \<Rightarrow> string list \<Rightarrow> successor \<Rightarrow> viper_stmt list" where
  "viper_jump cf labels SuccUndefined = []"
| "viper_jump cf labels SuccReturn = [VGoto RETURN_LABEL]"
| "viper_jump cf labels (SuccGoto t) = [VGoto (labels ! bi_index t)]"
| "viper_jump cf labels (SuccGotoSwitch gs d) =
     map cond_goto (switch_targets cf labels gs) @ [VGoto (labels ! bi_index d)]"

definition viper_block :: "viper_config \<Rightarrow> string list \<Rightarrow> cfg_block \<Rightarrow> viper_stmt list" where
  "viper_block cf labels b = viper_steps cf (cb_stmts b) @ viper_jump cf labels (cb_successor b)"

lemma mapE_elem: "mapE f xs = Inr ys \<Longrightarrow> y \<in> set ys \<Longrightarrow> \<exists>x \<in> set xs. f x = Inr y"
  by (induction xs arbitrary: ys) (auto split: sum.split_asm)

lemma with_footprint_no_goto:
  assumes "with_footprint cf e r = Inr x" "\<And>s. r = Inr s \<Longrightarrow> \<not> has_goto s"
  shows "\<not> has_goto x"
proof -
  have "\<not> list_ex has_goto ss" if "create_footprint_asserts cf e q = Inr ss" for q ss
    using mapE_elem [OF that [unfolded create_footprint_asserts_def]]
    by (fastforce simp: list_ex_iff assert_to_viper_def fallible_simps)
  then show ?thesis using assms by (auto simp: with_footprint_def fallible_simps)
qed

lemma stmt_to_viper_no_goto: "stmt_to_viper_at cf pk s = Inr x \<Longrightarrow> \<not> has_goto x"
proof (induction cf pk s arbitrary: x rule: stmt_to_viper_at.induct)
  case (10 cf pk wand ss label vars pos)
  then show ?case by (auto simp: fallible_simps)
next
  case (12 cf pk guard t e)
  have "\<not> list_ex has_goto xs" if "mapE (stmt_to_viper_at cf pk) ss = Inr xs"
    "\<And>s x. s \<in> set ss \<Longrightarrow> stmt_to_viper_at cf pk s = Inr x \<Longrightarrow> \<not> has_goto x" for ss xs
    using that(2) mapE_elem [OF that(1)] unfolding list_ex_iff by blast
  then show ?case using 12 by (fastforce simp: fallible_simps)
qed (auto simp: fallible_simps exhale_to_viper_def assert_to_viper_def assign_to_viper_def fold_to_viper_def
    package_fold_to_viper_def Let_def apply_to_viper_def split: expr.split_asm option.split_asm if_split_asm
    dest!: with_footprint_no_goto)

lemma stmt_to_viper_plain:
  assumes "stmt_to_viper cf s = Inr x" "s \<notin> SLabel ` B"
  shows "list_all (plain B) (flat x)"
proof -
  have "\<not> has_goto x" using stmt_to_viper_no_goto assms(1) unfolding stmt_to_viper_def by blast
  then show ?thesis
    using assms unfolding stmt_to_viper_def
    by (cases s) (auto simp: plain_def fallible_simps exhale_to_viper_def assert_to_viper_def assign_to_viper_def
      fold_to_viper_def apply_to_viper_def Let_def split: expr.split_asm option.split_asm)
qed

lemma viper_steps_simps [simp]:
  "viper_steps cf [] = []"
  "viper_steps cf (s # ss) = flat (projr (stmt_to_viper cf s)) @ viper_steps cf ss"
  by (simp_all add: viper_steps_def)

lemma viper_steps_plain:
  assumes "mapE (stmt_to_viper cf) ss = Inr xs" "set ss \<inter> SLabel ` B = {}"
  shows "concat (map flat xs) = viper_steps cf ss \<and> list_all (plain B) (viper_steps cf ss)"
  using assms
proof (induction ss arbitrary: xs)
  case (Cons s ss)
  then show ?case using stmt_to_viper_plain [of cf s _ B] by (auto split: sum.split_asm)
qed simp

lemma guarded_jumps:
  "mapE (guarded_to_viper cf labels) gs = Inr xs \<Longrightarrow> concat (map flat xs) = map cond_goto (switch_targets cf labels gs)"
proof (induction gs arbitrary: xs)
  case (Cons g gs)
  then show ?case
    by (auto simp: switch_targets_def cond_goto_def viper_guard_def guarded_to_viper_def goto_to_viper_def
      index_to_label_def fallible_simps split: sum.split_asm if_split_asm)
qed (simp add: switch_targets_def)

lemma successor_jump:
  assumes "successor_to_viper cf labels succ = Inr x"
  shows "flat x = viper_jump cf labels succ \<and> succ \<noteq> SuccUndefined"
  using assms guarded_jumps [of cf labels]
  by (cases succ) (auto simp: goto_to_viper_def index_to_label_def fallible_simps split: if_split_asm)

lemma block_flat:
  assumes "block_to_viper cf labels b i = Inr x" "set (cb_stmts b) \<inter> SLabel ` B = {}"
  shows "i < length labels \<and> flat x = VLabel (labels ! i) # viper_block cf labels b \<and>
    list_all (plain B) (viper_steps cf (cb_stmts b)) \<and> cb_successor b \<noteq> SuccUndefined"
proof -
  obtain xs s where xs: "i < length labels" "mapE (stmt_to_viper cf) (cb_stmts b) = Inr xs"
    "successor_to_viper cf labels (cb_successor b) = Inr s" "x = VSeqn ([VLabel (labels ! i)] @ xs @ [s]) []"
    using assms(1) by (auto simp: block_to_viper_def index_to_label_def fallible_simps split: if_split_asm)
  then show ?thesis
    using viper_steps_plain [OF xs(2) assms(2)] successor_jump [OF xs(3)] by (simp add: viper_block_def)
qed

text \<open>What the runs of a body depend on.\<close>

definition written :: "viper_config \<Rightarrow> cfg_method \<Rightarrow> string set \<Rightarrow> viper_stmt list \<Rightarrow> bool" where
  "written cf m B P \<longleftrightarrow>
     after_label RETURN_LABEL P = Some [] \<and>
     (\<forall>i < length (cm_basic_blocks m). let b = cm_basic_blocks m ! i in
        (\<exists>rest. after_label (cm_basic_blocks_labels m ! i) P = Some (viper_block cf (cm_basic_blocks_labels m) b @ rest)) \<and>
        list_all (plain B) (viper_steps cf (cb_stmts b)) \<and> cb_successor b \<noteq> SuccUndefined \<and>
        (\<forall>t \<in> set (get_following (cb_successor b)). bi_index t < length (cm_basic_blocks m)))"

lemma trace_append: "trace m [] succ tr \<Longrightarrow> trace m ss succ (map EvStep ss @ tr)"
  by (induction ss) (auto intro: trace_stmt)

lemma viper_event_list_simps [simp]:
  "viper_event_list cf [] = []"
  "viper_event_list cf (e # tr) = viper_events cf e @ viper_event_list cf tr"
  "viper_event_list cf (tr @ tr') = viper_event_list cf tr @ viper_event_list cf tr'"
  "viper_event_list cf (map EvStep ss) = map VEvStep (viper_steps cf ss)"
  by (simp_all add: viper_event_list_def) (induction ss; simp)

lemma refused_targets: "refused (switch_targets cf labels gs) = map (\<lambda>g. VEvBranch (viper_guard cf g) False) (map fst gs)"
  by (simp add: refused_def switch_targets_def)

lemma vtrace_jump:
  assumes "written cf m B P" "i < length (cm_basic_blocks m)"
    "vtrace B P n (VGoto (cm_basic_blocks_labels m ! i) # ks) vt"
  shows "vt = [] \<or> (\<exists>k rest. n = Suc k \<and>
    vtrace B P k (viper_block cf (cm_basic_blocks_labels m) (cm_basic_blocks m ! i) @ rest) vt)"
  using assms by (fastforce simp: vtrace_goto_simp written_def Let_def)

text \<open>What has been shown for runs with fewer jumps.\<close>

definition followed :: "viper_config \<Rightarrow> cfg_method \<Rightarrow> string set \<Rightarrow> viper_stmt list \<Rightarrow> nat \<Rightarrow> bool" where
  "followed cf m B P n \<longleftrightarrow>
     (\<forall>i < length (cm_basic_blocks m). \<forall>rest vt.
        vtrace B P n (viper_block cf (cm_basic_blocks_labels m) (cm_basic_blocks m ! i) @ rest) vt \<longrightarrow>
        (\<exists>tr. trace m (cb_stmts (cm_basic_blocks m ! i)) (cb_successor (cm_basic_blocks m ! i)) tr \<and>
           prefix vt (viper_event_list cf tr)))"

lemma goto_to_trace:
  assumes "written cf m B P" "\<And>k. k < n \<Longrightarrow> followed cf m B P k" "j < length (cm_basic_blocks m)"
    and v: "vtrace B P n (VGoto (cm_basic_blocks_labels m ! j) # ks) vt"
    and tr: "\<And>tr. trace m (cb_stmts (cm_basic_blocks m ! j)) (cb_successor (cm_basic_blocks m ! j)) tr \<Longrightarrow> trace m [] succ (pre @ tr)"
  shows "\<exists>tr. trace m [] succ (pre @ tr) \<and> prefix vt (viper_event_list cf tr)"
proof (cases "vt = []")
  case True
  then show ?thesis using tr [OF trace_stop] by (auto intro!: exI [of _ "[]"])
next
  case False
  then obtain k rest where k: "n = Suc k"
      "vtrace B P k (viper_block cf (cm_basic_blocks_labels m) (cm_basic_blocks m ! j) @ rest) vt"
    using vtrace_jump [OF assms(1,3) v] by blast
  then obtain tr' where "trace m (cb_stmts (cm_basic_blocks m ! j)) (cb_successor (cm_basic_blocks m ! j)) tr'"
      "prefix vt (viper_event_list cf tr')"
    using assms(2) [of k] assms(3) unfolding followed_def by blast
  then show ?thesis using tr by blast
qed

lemma switch_to_trace:
  assumes W: "written cf m B P" "\<And>k. k < n \<Longrightarrow> followed cf m B P k"
    and "\<And>t. t \<in> set (get_following (SuccGotoSwitch gs d)) \<Longrightarrow> bi_index t < length (cm_basic_blocks m)"
    and v: "vtrace B P n (viper_jump cf (cm_basic_blocks_labels m) (SuccGotoSwitch gs d) @ rest) vt"
  shows "\<exists>tr. trace m [] (SuccGotoSwitch gs d) tr \<and> prefix vt (viper_event_list cf tr)"
proof -
  let ?labels = "cm_basic_blocks_labels m"
  have d: "bi_index d < length (cm_basic_blocks m)" using assms(3) by simp
  have gs: "bi_index (snd (gs ! k)) < length (cm_basic_blocks m)" if "k < length gs" for k
    using assms(3) that by (simp add: image_iff) (metis nth_mem prod.collapse)
  have "switch_trace B P n (switch_targets cf ?labels gs) (?labels ! bi_index d) vt" using v by (simp add: switch_run)
  then consider "prefix vt (refused (switch_targets cf ?labels gs))"
    | k vt' where "k < length gs" "vt = refused (switch_targets cf ?labels (take k gs)) @ VEvBranch (viper_guard cf (fst (gs ! k))) True # vt'"
        "vtrace B P n [VGoto (?labels ! bi_index (snd (gs ! k)))] vt'"
    | vt' where "vt = refused (switch_targets cf ?labels gs) @ vt'" "vtrace B P n [VGoto (?labels ! bi_index d)] vt'"
    by (auto simp: switch_trace_def switch_targets_def take_map)
  then show ?thesis
  proof cases
    case 1
    then show ?thesis using trace_default [OF d refl trace_stop, of gs]
      by (auto simp: refused_targets intro!: exI [of _ "[EvBranch (map fst gs) None]"])
  next
    case (2 k vt')
    have "\<exists>tr. trace m [] (SuccGotoSwitch gs d) ([EvBranch (map fst (take k gs)) (Some (fst (gs ! k)))] @ tr) \<and>
        prefix vt' (viper_event_list cf tr)"
      by (rule goto_to_trace [OF W(1) _ gs [OF 2(1)] 2(3)]) (use W(2) trace_guard [OF 2(1) gs [OF 2(1)] refl] in auto)
    then obtain tr where "trace m [] (SuccGotoSwitch gs d) ([EvBranch (map fst (take k gs)) (Some (fst (gs ! k)))] @ tr)"
        "prefix vt' (viper_event_list cf tr)" by blast
    then show ?thesis using 2
      by (auto simp: refused_targets intro!: exI [of _ "[EvBranch (map fst (take k gs)) (Some (fst (gs ! k)))] @ tr"])
  next
    case (3 vt')
    have "\<exists>tr. trace m [] (SuccGotoSwitch gs d) ([EvBranch (map fst gs) None] @ tr) \<and> prefix vt' (viper_event_list cf tr)"
      by (rule goto_to_trace [OF W(1) _ d 3(2)]) (use W(2) trace_default [OF d refl] in auto)
    then obtain tr where "trace m [] (SuccGotoSwitch gs d) ([EvBranch (map fst gs) None] @ tr)"
        "prefix vt' (viper_event_list cf tr)" by blast
    then show ?thesis using 3
      by (auto simp: refused_targets intro!: exI [of _ "[EvBranch (map fst gs) None] @ tr"])
  qed
qed

lemma jump_to_trace:
  assumes W: "written cf m B P" "\<And>k. k < n \<Longrightarrow> followed cf m B P k" and "succ \<noteq> SuccUndefined"
    and following: "\<And>t. t \<in> set (get_following succ) \<Longrightarrow> bi_index t < length (cm_basic_blocks m)"
    and v: "vtrace B P n (viper_jump cf (cm_basic_blocks_labels m) succ @ rest) vt"
  shows "\<exists>tr. trace m [] succ tr \<and> prefix vt (viper_event_list cf tr)"
proof (cases succ)
  case SuccReturn
  have "vt = [] \<or> vt = [VEvEnd]"
    using v SuccReturn W(1) by (auto simp: vtrace_goto_simp vtrace_Nil_simp written_def)
  then show ?thesis using SuccReturn trace_return [of m] by (auto intro!: exI [of _ "[EvReturn]"])
next
  case (SuccGoto t)
  have "bi_index t < length (cm_basic_blocks m)" using following SuccGoto by simp
  then have "\<exists>tr. trace m [] (SuccGoto t) ([] @ tr) \<and> prefix vt (viper_event_list cf tr)"
    by (intro goto_to_trace [OF W(1), of n "bi_index t" rest]) (use W(2) v SuccGoto in \<open>auto intro: trace_goto\<close>)
  then show ?thesis using SuccGoto by simp
next
  case (SuccGotoSwitch gs d)
  then show ?thesis using switch_to_trace [OF W(1), of n gs d rest vt] W(2) following v by simp
qed (use assms(3) in simp)

lemma vtrace_to_trace:
  assumes W: "written cf m B P"
  shows "followed cf m B P n"
proof (induction n rule: less_induct)
  case (less n)
  show ?case unfolding followed_def
  proof (intro allI impI)
    fix i rest vt assume i: "i < length (cm_basic_blocks m)"
      and v: "vtrace B P n (viper_block cf (cm_basic_blocks_labels m) (cm_basic_blocks m ! i) @ rest) vt"
    let ?b = "cm_basic_blocks m ! i"
    have ok: "list_all (plain B) (viper_steps cf (cb_stmts ?b))" "cb_successor ?b \<noteq> SuccUndefined"
        "\<And>t. t \<in> set (get_following (cb_successor ?b)) \<Longrightarrow> bi_index t < length (cm_basic_blocks m)"
      using W i by (auto simp: written_def Let_def)
    have "prefix vt (map VEvStep (viper_steps cf (cb_stmts ?b))) \<or>
        (\<exists>vt'. vt = map VEvStep (viper_steps cf (cb_stmts ?b)) @ vt' \<and>
           vtrace B P n (viper_jump cf (cm_basic_blocks_labels m) (cb_successor ?b) @ rest) vt')"
      using v plain_run [OF ok(1)] by (simp add: viper_block_def)
    then show "\<exists>tr. trace m (cb_stmts ?b) (cb_successor ?b) tr \<and> prefix vt (viper_event_list cf tr)"
    proof (elim disjE exE conjE)
      assume "prefix vt (map VEvStep (viper_steps cf (cb_stmts ?b)))"
      then show ?thesis using trace_append [OF trace_stop, of m "cb_stmts ?b" "cb_successor ?b"] by auto
    next
      fix vt' assume vt': "vt = map VEvStep (viper_steps cf (cb_stmts ?b)) @ vt'"
        "vtrace B P n (viper_jump cf (cm_basic_blocks_labels m) (cb_successor ?b) @ rest) vt'"
      obtain tr where "trace m [] (cb_successor ?b) tr" "prefix vt' (viper_event_list cf tr)"
        using jump_to_trace [OF W _ ok(2) _ vt'(2)] less.IH ok(3) by blast
      then show ?thesis using trace_append [of m "cb_successor ?b" tr "cb_stmts ?b"] vt'(1) by fastforce
    qed
  qed
qed

lemma vtrace_enter:
  assumes "written cf m B P" "i < length (cm_basic_blocks m)"
    "\<And>rest. \<exists>n. vtrace B P n (viper_block cf (cm_basic_blocks_labels m) (cm_basic_blocks m ! i) @ rest) vt"
  shows "\<exists>n. vtrace B P n (VGoto (cm_basic_blocks_labels m ! i) # ks) vt"
proof -
  obtain rest where "after_label (cm_basic_blocks_labels m ! i) P =
      Some (viper_block cf (cm_basic_blocks_labels m) (cm_basic_blocks m ! i) @ rest)"
    using assms(1,2) by (auto simp: written_def Let_def)
  then show ?thesis using assms(3) [of rest] vtrace_goto by metis
qed

lemma switch_traceI:
  "prefix tr (refused gls) \<Longrightarrow> switch_trace B P n gls d tr"
  "k < length gls \<Longrightarrow> vtrace B P n [VGoto (snd (gls ! k))] tr' \<Longrightarrow>
     switch_trace B P n gls d (refused (take k gls) @ VEvBranch (fst (gls ! k)) True # tr')"
  "vtrace B P n [VGoto d] tr' \<Longrightarrow> switch_trace B P n gls d (refused gls @ tr')"
  by (auto simp: switch_trace_def)

lemma trace_to_vtrace:
  assumes W: "written cf m B P"
  shows "trace m ss succ tr \<Longrightarrow> prefix vt (viper_event_list cf tr) \<Longrightarrow> list_all (plain B) (viper_steps cf ss) \<Longrightarrow>
    \<exists>n. vtrace B P n (viper_steps cf ss @ viper_jump cf (cm_basic_blocks_labels m) succ @ rest) vt"
proof (induction ss succ tr arbitrary: vt rest rule: trace.induct)
  case (trace_stop ss succ)
  then show ?case by (auto intro: vtrace_stop)
next
  case (trace_stmt ss succ tr s)
  let ?f = "flat (projr (stmt_to_viper cf s))"
  have plain: "list_all (plain B) ?f" "list_all (plain B) (viper_steps cf ss)" using trace_stmt.prems(2) by simp_all
  from trace_stmt.prems(1) have "prefix vt (map VEvStep ?f) \<or> (\<exists>us. vt = map VEvStep ?f @ us \<and> prefix us (viper_event_list cf tr))"
    by (simp add: prefix_append)
  then show ?case using plain_run [OF plain(1)] trace_stmt.IH [OF _ plain(2)] by (simp add: vtrace_stop) metis
next
  case trace_return
  then have "vt = [] \<or> vt = [VEvEnd]" by (cases vt) auto
  moreover have "after_label RETURN_LABEL P = Some []" using W by (simp add: written_def)
  ultimately show ?case
    by (auto intro: vtrace_stop intro!: exI [of _ "Suc 0"] vtrace_goto [of _ _ "[]"] vtrace_end)
next
  case (trace_goto t b tr)
  have "list_all (plain B) (viper_steps cf (cb_stmts b))" using W trace_goto.hyps by (auto simp: written_def Let_def)
  then show ?case using trace_goto.IH [OF trace_goto.prems(1)] vtrace_enter [OF W trace_goto.hyps(1), of vt rest]
    by (simp add: viper_block_def trace_goto.hyps(2))
next
  case (trace_guard k gs b tr d)
  let ?gls = "switch_targets cf (cm_basic_blocks_labels m) gs"
  have b: "list_all (plain B) (viper_steps cf (cb_stmts b))" using W trace_guard.hyps by (auto simp: written_def Let_def)
  have nth: "snd (?gls ! k) = cm_basic_blocks_labels m ! bi_index (snd (gs ! k))" "fst (?gls ! k) = viper_guard cf (fst (gs ! k))"
      "k < length ?gls" using trace_guard.hyps(1) by (simp_all add: switch_targets_def)
  have refused: "refused (take k ?gls) = map (\<lambda>g. VEvBranch (viper_guard cf g) False) (map fst (take k gs))"
    by (simp add: refused_def switch_targets_def take_map)
  have "prefix (refused (take k ?gls)) (refused ?gls)"
    by (metis refused_def take_is_prefix take_map)
  have enter: "\<exists>n. vtrace B P n [VGoto (snd (?gls ! k))] us" if "prefix us (viper_event_list cf tr)" for us
    using trace_guard.IH [OF that b] vtrace_enter [OF W trace_guard.hyps(2), of us "[]"]
    by (simp add: viper_block_def trace_guard.hyps(3) nth)
  have "\<exists>n. switch_trace B P n ?gls (cm_basic_blocks_labels m ! bi_index d) vt"
  proof (cases "prefix vt (refused (take k ?gls))")
    case True
    then show ?thesis using \<open>prefix (refused (take k ?gls)) (refused ?gls)\<close> switch_traceI(1) by (metis prefix_order.trans)
  next
    case False
    then obtain us where us: "vt = refused (take k ?gls) @ VEvBranch (fst (?gls ! k)) True # us" "prefix us (viper_event_list cf tr)"
      using trace_guard.prems(1) refused nth by (auto simp: prefix_append prefix_Cons)
    then show ?thesis using enter [OF us(2)] switch_traceI(2) [OF nth(3)] by blast
  qed
  then show ?case by (simp add: switch_run)
next
  case (trace_default d b tr gs)
  let ?gls = "switch_targets cf (cm_basic_blocks_labels m) gs"
  have b: "list_all (plain B) (viper_steps cf (cb_stmts b))" using W trace_default.hyps by (auto simp: written_def Let_def)
  have enter: "\<exists>n. vtrace B P n [VGoto (cm_basic_blocks_labels m ! bi_index d)] us" if "prefix us (viper_event_list cf tr)" for us
    using trace_default.IH [OF that b] vtrace_enter [OF W trace_default.hyps(1), of us "[]"]
    by (simp add: viper_block_def trace_default.hyps(2))
  from trace_default.prems(1) have "prefix vt (refused ?gls) \<or> (\<exists>us. vt = refused ?gls @ us \<and> prefix us (viper_event_list cf tr))"
    by (simp add: prefix_append refused_targets)
  then have "\<exists>n. switch_trace B P n ?gls (cm_basic_blocks_labels m ! bi_index d) vt"
    using enter switch_traceI(1,3) by metis
  then show ?case by (simp add: switch_run)
qed

text \<open>Blocks in their order, each label once.\<close>

lemma sorted_blocks_distinct:
  "distinct (map fst (sorted_blocks labels bs)) \<and> set (sorted_blocks labels bs) = {(i, bs ! i) | i. i < length bs}"
proof -
  have "mset (sorted_blocks labels bs) = mset (zip [0..<length bs] bs)"
    by (simp add: sorted_blocks_def split: list.split)
  then have m: "mset (map fst (sorted_blocks labels bs)) = mset (map fst (zip [0..<length bs] bs))"
      and "set (sorted_blocks labels bs) = set (zip [0..<length bs] bs)"
    by (metis mset_map, metis set_mset_mset)
  moreover have "set (zip [0..<length bs] bs) = {(i, bs ! i) | i. i < length bs}"
    by (auto simp: set_zip) (metis add.left_neutral nth_upt)
  ultimately show ?thesis using mset_eq_imp_distinct_iff [OF m] by simp
qed

lemma sorted_blocks_first: "bs \<noteq> [] \<Longrightarrow> \<exists>rest. sorted_blocks labels bs = (0, bs ! 0) # rest"
  by (cases bs) (simp_all add: sorted_blocks_def upt_rec)

definition block_text :: "viper_config \<Rightarrow> string list \<Rightarrow> nat \<times> cfg_block \<Rightarrow> viper_stmt list" where
  "block_text cf labels ib = VLabel (labels ! fst ib) # viper_block cf labels (snd ib)"

definition block_fine :: "viper_config \<Rightarrow> string set \<Rightarrow> string list \<Rightarrow> nat \<times> cfg_block \<Rightarrow> bool" where
  "block_fine cf B labels ib \<longleftrightarrow> fst ib < length labels \<and> list_all (plain B) (viper_steps cf (cb_stmts (snd ib))) \<and>
     cb_successor (snd ib) \<noteq> SuccUndefined"

lemma declared_blocks_flat:
  "mapE (declared_block cf labels) ibs = Inr xs \<Longrightarrow> list_all (\<lambda>ib. set (cb_stmts (snd ib)) \<inter> SLabel ` B = {}) ibs \<Longrightarrow>
   concat (map flat (map fst xs)) = concat (map (block_text cf labels) ibs) \<and> list_all (block_fine cf B labels) ibs"
proof (induction ibs arbitrary: xs)
  case (Cons ib ibs)
  obtain y ys where y: "declared_block cf labels ib = Inr y" "mapE (declared_block cf labels) ibs = Inr ys" "xs = y # ys"
    using Cons.prems(1) by (auto split: sum.split_asm)
  have "block_to_viper cf labels (snd ib) (fst ib) = Inr (fst y)"
    using y(1) by (auto simp: declared_block_def fallible_simps)
  then show ?case
    using block_flat [of cf labels "snd ib" "fst ib" "fst y" B] Cons.IH [OF y(2)] Cons.prems(2)
    by (simp add: y(3) block_text_def block_fine_def)
qed simp

lemma after_label_append: "VLabel l \<notin> set xs \<Longrightarrow> after_label l (xs @ VLabel l # ys) = Some ys"
  by (simp add: after_label_def dropWhile_append)

lemma label_in_block_text:
  assumes "block_fine cf B labels ib" "l \<in> B" "VLabel l \<in> set (block_text cf labels ib)"
  shows "l = labels ! fst ib"
proof -
  have "VLabel l \<notin> set (viper_jump cf labels succ)" for succ
    by (cases succ) (auto simp: cond_goto_def)
  then show ?thesis using assms by (auto simp: block_text_def viper_block_def block_fine_def list_all_iff plain_def)
qed

definition goto_ready :: "cfg_method \<Rightarrow> bool" where
  "goto_ready m \<longleftrightarrow> cfg_wf m \<and> distinct (cm_basic_blocks_labels m) \<and> RETURN_LABEL \<notin> set (cm_basic_blocks_labels m) \<and>
     list_all (\<lambda>b. set (cb_stmts b) \<inter> SLabel ` block_labels m = {}) (cm_basic_blocks m)"

lemma method_written:
  assumes "all_blocks cf m = Inr bs" "goto_ready m"
  defines "P \<equiv> concat (map flat (map fst bs)) @ [VLabel RETURN_LABEL]"
  shows "written cf m (block_labels m) P \<and>
    (\<exists>rest. P = block_text cf (cm_basic_blocks_labels m) (0, cm_basic_blocks m ! 0) @ rest) \<and> cm_basic_blocks m \<noteq> [] \<and>
    cm_basic_blocks_labels m ! 0 \<in> block_labels m"
proof -
  let ?labels = "cm_basic_blocks_labels m" and ?B = "block_labels m"
  let ?ibs = "sorted_blocks ?labels (cm_basic_blocks m)"
  have ibs: "distinct (map fst ?ibs)" "set ?ibs = {(i, cm_basic_blocks m ! i) | i. i < length (cm_basic_blocks m)}"
    using sorted_blocks_distinct by blast+
  have ne: "cm_basic_blocks m \<noteq> []" and mapE: "mapE (declared_block cf ?labels) ?ibs = Inr bs"
    using assms(1) by (auto simp: all_blocks_def fallible_simps)
  have "list_all (\<lambda>ib. set (cb_stmts (snd ib)) \<inter> SLabel ` ?B = {}) ?ibs"
    using assms(2) ibs(2) by (auto simp: list_all_iff goto_ready_def)
  then have layout: "P = concat (map (block_text cf ?labels) ?ibs) @ [VLabel RETURN_LABEL]" "list_all (block_fine cf ?B ?labels) ?ibs"
    using declared_blocks_flat [OF mapE] unfolding P_def by simp_all
  have "VLabel RETURN_LABEL \<notin> set (block_text cf ?labels ib)" if "ib \<in> set ?ibs" for ib
  proof
    assume "VLabel RETURN_LABEL \<in> set (block_text cf ?labels ib)"
    moreover have "block_fine cf ?B ?labels ib" using layout(2) that by (simp add: list_all_iff)
    ultimately have "RETURN_LABEL = ?labels ! fst ib" "fst ib < length ?labels"
      using label_in_block_text [of cf ?B ?labels ib RETURN_LABEL] by (simp_all add: block_labels_def block_fine_def)
    then show False using assms(2) by (metis goto_ready_def nth_mem)
  qed
  then have "VLabel RETURN_LABEL \<notin> set (concat (map (block_text cf ?labels) ?ibs))" by simp
  then have ret: "after_label RETURN_LABEL P = Some []" using after_label_append [of RETURN_LABEL _ "[]"] layout(1) by simp
  have block: "(\<exists>rest. after_label (?labels ! i) P = Some (viper_block cf ?labels (cm_basic_blocks m ! i) @ rest)) \<and>
      block_fine cf ?B ?labels (i, cm_basic_blocks m ! i)" if i: "i < length (cm_basic_blocks m)" for i
  proof -
    have "(i, cm_basic_blocks m ! i) \<in> set ?ibs" using i ibs(2) by blast
    then obtain pre post where split: "?ibs = pre @ (i, cm_basic_blocks m ! i) # post" by (meson split_list)
    have fine: "list_all (block_fine cf ?B ?labels) pre" "block_fine cf ?B ?labels (i, cm_basic_blocks m ! i)"
      using layout(2) split by simp_all
    have l: "?labels ! i \<in> ?B" "i < length ?labels" using fine(2) by (simp_all add: block_fine_def block_labels_def)
    have "VLabel (?labels ! i) \<notin> set (block_text cf ?labels ib)" if "ib \<in> set pre" for ib
    proof
      assume "VLabel (?labels ! i) \<in> set (block_text cf ?labels ib)"
      moreover have "block_fine cf ?B ?labels ib" using fine(1) that by (simp add: list_all_iff)
      ultimately have "?labels ! i = ?labels ! fst ib" "fst ib < length ?labels"
        using label_in_block_text [of cf ?B ?labels ib "?labels ! i"] l(1) by (simp_all add: block_fine_def)
      then have "i = fst ib" using l(2) assms(2) by (simp add: goto_ready_def nth_eq_iff_index_eq)
      then show False using ibs(1) that split by auto
    qed
    then have "VLabel (?labels ! i) \<notin> set (concat (map (block_text cf ?labels) pre))" by simp
    then show ?thesis using after_label_append fine(2) by (simp add: layout(1) split block_text_def)
  qed
  have "\<forall>t \<in> set (get_following (cb_successor (cm_basic_blocks m ! i))). bi_index t < length (cm_basic_blocks m)"
    if "i < length (cm_basic_blocks m)" for i
    using assms(2) that by (auto simp: goto_ready_def cfg_wf_def targets_ok_def list_all_iff)
  then have "written cf m ?B P" using ret block by (simp add: written_def Let_def block_fine_def)
  moreover have "\<exists>rest. P = block_text cf ?labels (0, cm_basic_blocks m ! 0) @ rest"
    using sorted_blocks_first [OF ne, of ?labels] layout(1) by auto
  moreover have "?labels ! 0 \<in> ?B" using block [of 0] ne by (simp add: block_fine_def block_labels_def)
  ultimately show ?thesis using ne by blast
qed

lemma method_to_viper_runs_iff:
  assumes "method_to_viper cf None ls m = Inr vm" "goto_ready m"
  shows "viper_runs (block_labels m) vm = {vt. \<exists>tr \<in> method_traces m. prefix vt (viper_event_list cf tr)}"
proof -
  obtain bs where bs: "all_blocks cf m = Inr bs" "vm = method_with_blocks m ls bs"
    using assms(1) by (auto simp: method_to_viper_def fallible_simps)
  let ?P = "concat (map flat (map fst bs)) @ [VLabel RETURN_LABEL]" and ?b = "cm_basic_blocks m ! 0"
  let ?B = "block_labels m"
  obtain rest where W: "written cf m ?B ?P" and P: "?P = block_text cf (cm_basic_blocks_labels m) (0, ?b) @ rest"
    and ne: "cm_basic_blocks m \<noteq> []" and label: "cm_basic_blocks_labels m ! 0 \<in> ?B"
    using method_written [OF bs(1) assms(2)] by blast
  have plain: "list_all (plain ?B) (viper_steps cf (cb_stmts ?b))" using W ne by (simp add: written_def Let_def)
  have "viper_runs ?B vm = {vt. \<exists>n. vtrace ?B ?P n ?P vt}"
    using bs(2) by (simp add: viper_runs_def method_with_blocks_def)
  also have "\<dots> = {vt. \<exists>n. vtrace ?B ?P n (viper_block cf (cm_basic_blocks_labels m) ?b @ rest) vt}"
    unfolding P using label by (auto simp: block_text_def vtrace_label_simp intro: vtrace_stop)
  also have "\<dots> = {vt. \<exists>tr. trace m (cb_stmts ?b) (cb_successor ?b) tr \<and> prefix vt (viper_event_list cf tr)}"
    using vtrace_to_trace [OF W] trace_to_vtrace [OF W _ _ plain] ne
    unfolding followed_def viper_block_def by (auto simp: P [symmetric])
  finally show ?thesis using ne by (simp add: method_traces_def)
qed

definition translated_runs :: "viper_config \<Rightarrow> cfg_method \<Rightarrow> viper_event list set" where
  "translated_runs cf m = {vt. \<exists>tr \<in> method_traces m. prefix vt (viper_event_list cf tr)}"

text \<open>
  C5 Translating a control-flow graph to a Viper method keeps its runs: what can be observed of the labels and jumps of
  the Viper method, at any point, are exactly the beginnings of the translated traces of the graph, in whatever order
  the blocks are written.  This needs distinct labels of blocks that no statement uses, and jumps to blocks of the
  method.  It is about the normal translation: the debugging mode that verifies one path of blocks is off (\<open>None\<close>).
\<close>

theorem method_to_viper_runs:
  assumes "method_to_viper cf None ls m = Inr vm" "goto_ready m"
  shows "viper_runs (block_labels m) vm = translated_runs cf m"
  unfolding translated_runs_def using assms by (rule method_to_viper_runs_iff)

subsection \<open>Which methods are translated\<close>

definition stmt_translated :: "viper_config \<Rightarrow> stmt \<Rightarrow> bool" where
  "stmt_translated cf s \<longleftrightarrow> (\<exists>x. stmt_to_viper cf s = Inr x)"

definition successor_translatable :: "string list \<Rightarrow> successor \<Rightarrow> bool" where
  "successor_translatable labels succ \<longleftrightarrow> succ \<noteq> SuccUndefined \<and>
     list_all (\<lambda>t. bi_index t < length labels) (get_following succ) \<and>
     (case succ of SuccGotoSwitch gs d \<Rightarrow> list_all (translatable \<circ> fst) gs | _ \<Rightarrow> True)"

lemma successor_translated:
  "(\<exists>x. successor_to_viper cf labels succ = Inr x) \<longleftrightarrow> successor_translatable labels succ"
  by (cases succ)
    (auto simp: total_iffs successor_translatable_def goto_to_viper_def guarded_to_viper_def index_to_label_def
      translated_iff list_all_iff split: if_split_asm)

lemma block_translated:
  "(\<exists>x. block_to_viper cf labels b i = Inr x) \<longleftrightarrow>
     i < length labels \<and> list_all (stmt_translated cf) (cb_stmts b) \<and> successor_translatable labels (cb_successor b)"
  unfolding block_to_viper_def total_iffs
  by (auto simp: total_iffs index_to_label_def stmt_translated_def [abs_def] successor_translated split: if_split_asm)

lemma declared_block_translated:
  "(\<exists>x. declared_block cf labels ib = Inr x) \<longleftrightarrow> (\<exists>x. block_to_viper cf labels (snd ib) (fst ib) = Inr x)"
proof (cases "block_to_viper cf labels (snd ib) (fst ib)")
  case (Inr y)
  then have "fst ib < length labels" using block_translated [of cf labels "snd ib" "fst ib"] by simp
  then show ?thesis by (simp add: declared_block_def Inr index_to_label_def)
qed (simp add: declared_block_def)

lemma method_translated_iff:
  "(\<exists>vm. method_to_viper cf None ls m = Inr vm) \<longleftrightarrow>
     cm_basic_blocks m \<noteq> [] \<and> length (cm_basic_blocks m) \<le> length (cm_basic_blocks_labels m) \<and>
     list_all (\<lambda>b. list_all (stmt_translated cf) (cb_stmts b) \<and>
       successor_translatable (cm_basic_blocks_labels m) (cb_successor b)) (cm_basic_blocks m)"
proof -
  let ?labels = "cm_basic_blocks_labels m" and ?bs = "cm_basic_blocks m"
  have "(\<exists>vm. method_to_viper cf None ls m = Inr vm) \<longleftrightarrow>
      ?bs \<noteq> [] \<and> list_all (\<lambda>i. i < length ?labels) [1..<length ?bs] \<and>
      list_all (\<lambda>ib. \<exists>x. declared_block cf ?labels ib = Inr x) (sorted_blocks ?labels ?bs)"
    by (auto simp: method_to_viper_def all_blocks_def total_iffs index_to_label_def assertE_def list_all_iff split: if_split_asm)
  also have "\<dots> \<longleftrightarrow> ?bs \<noteq> [] \<and> (\<forall>i < length ?bs. i < length ?labels \<and> list_all (stmt_translated cf) (cb_stmts (?bs ! i)) \<and>
      successor_translatable ?labels (cb_successor (?bs ! i)))"
    using sorted_blocks_distinct [of ?labels ?bs] unfolding declared_block_translated block_translated
    by (auto simp: list_all_iff)
  also have "\<dots> \<longleftrightarrow> ?bs \<noteq> [] \<and> length ?bs \<le> length ?labels \<and>
      list_all (\<lambda>b. list_all (stmt_translated cf) (cb_stmts b) \<and> successor_translatable ?labels (cb_successor b)) ?bs"
    by (auto simp: list_all_length not_less [symmetric])
  finally show ?thesis .
qed

text \<open>
  C19 With the debugging mode that verifies one path of blocks off (\<open>None\<close>), translating a method panics exactly if it
  has no block or a block without label, a block has no successor or one without label, or a statement or a guard is
  not translated.
\<close>

theorem method_to_viper_total:
  "(\<exists>vm. method_to_viper cf None ls m = Inr vm) \<longleftrightarrow>
     cm_basic_blocks m \<noteq> [] \<and> length (cm_basic_blocks m) \<le> length (cm_basic_blocks_labels m) \<and>
     list_all (\<lambda>b. list_all (stmt_translated cf) (cb_stmts b) \<and>
       successor_translatable (cm_basic_blocks_labels m) (cb_successor b)) (cm_basic_blocks m)"
  by (rule method_translated_iff)

subsection \<open>Examples\<close>

text \<open>A loop that a condition ends.\<close>

definition ex_at :: "nat \<Rightarrow> block_index" where
  "ex_at i = \<lparr>bi_method_uuid = 7, bi_index = i\<rparr>"

definition ex_graph :: cfg_method where
  "ex_graph = (cfg_new 7 ''m'' 0 [] [] [])\<lparr>cm_basic_blocks_labels := [''start'', ''body'', ''after''],
     cm_basic_blocks :=
       [\<lparr>cb_stmts = [SAssert (EConst (CBool True) position_default) position_default],
         cb_successor = SuccGotoSwitch [(expr_local (local_var_new ''b'' TBool), ex_at 1)] (ex_at 2)\<rparr>,
        \<lparr>cb_stmts = [SLabel ''here''], cb_successor = SuccGoto (ex_at 0)\<rparr>,
        \<lparr>cb_stmts = [], cb_successor = SuccReturn\<rparr>]\<rparr>"

lemma ex_graph_ready: "goto_ready ex_graph"
  by (simp add: goto_ready_def ex_graph_def cfg_new_def cfg_wf_def targets_ok_def ex_at_def block_labels_def RETURN_LABEL_def)

lemma ex_graph_translated: "\<exists>vm. method_to_viper ex_viper_config None [''here''] ex_graph = Inr vm"
  unfolding method_translated_iff
  by (simp add: ex_graph_def cfg_new_def stmt_translated_def stmt_to_viper_def assert_to_viper_def total_iffs
    translated_iff successor_translatable_def ex_at_def expr_local_def)

theorem method_to_viper_runs_witness:
  "\<exists>vm. method_to_viper ex_viper_config None [''here''] ex_graph = Inr vm \<and>
     viper_runs (block_labels ex_graph) vm = translated_runs ex_viper_config ex_graph"
  using ex_graph_translated method_to_viper_runs [OF _ ex_graph_ready] by blast

text \<open>
  A block may get the label of a statement that was added before it, and a statement may have the label of the end of
  the method: then a jump to the block goes to the statement.
\<close>

definition ex_clash :: cfg_method where
  "ex_clash = (cfg_new 7 ''m'' 0 [] [] [])\<lparr>cm_labels := {''a''}, cm_basic_blocks_labels := [''start'', ''a''],
     cm_basic_blocks := [\<lparr>cb_stmts = [SLabel ''a''], cb_successor = SuccUndefined\<rparr>,
       \<lparr>cb_stmts = [], cb_successor = SuccUndefined\<rparr>]\<rparr>"

theorem block_label_clashes: "built ex_clash \<and> \<not> goto_ready ex_clash"
proof -
  let ?m0 = "cfg_new 7 ''m'' 0 [] [] []"
  let ?m1 = "?m0\<lparr>cm_basic_blocks_labels := [''start''], cm_basic_blocks := [ex_block SuccUndefined]\<rparr>"
  let ?m2 = "?m1\<lparr>cm_labels := {''a''}, cm_basic_blocks := [\<lparr>cb_stmts = [SLabel ''a''], cb_successor = SuccUndefined\<rparr>]\<rparr>"
  have "built ?m0" by (rule built_new) simp
  moreover have "method_step ?m0 ?m1"
    by (rule step_block [of _ "''start''" "block_index ?m0 0"])
      (simp add: add_block_def cfg_new_def block_index_def ex_block_def RETURN_LABEL_def
        char_is_alphabetic_def char_is_alphanumeric_def)
  moreover have "method_step ?m1 ?m2"
    by (rule step_stmts [of _ "block_index ?m1 0" "[SLabel ''a'']"])
      (simp add: add_stmt_def cfg_new_def block_index_def ex_block_def gather_labels_def
        is_fresh_local_name_def local_var_new_def push_stmt_def)
  moreover have "method_step ?m2 ex_clash"
    by (rule step_block [of _ "''a''" "block_index ?m2 1"])
      (simp add: add_block_def cfg_new_def block_index_def RETURN_LABEL_def char_is_alphabetic_def
        char_is_alphanumeric_def ex_clash_def)
  ultimately have "built ex_clash" by (blast intro: built_step)
  moreover have "\<not> goto_ready ex_clash"
    by (simp add: goto_ready_def ex_clash_def block_labels_def)
  ultimately show ?thesis by blast
qed

text \<open>The debugging mode cannot follow a path to the end: the assertion fails at a block that returns.\<close>

theorem path_to_return_panics:
  "convert_basic_block_path cf [] [] ((cfg_new 7 ''m'' 0 [] [] [])\<lparr>cm_basic_blocks_labels := [''start''],
     cm_basic_blocks := [\<lparr>cb_stmts = [], cb_successor = SuccReturn\<rparr>]\<rparr>) =
   Inl ''assertion failed: !successors.is_empty()''"
  by (simp add: convert_basic_block_path_def cfg_new_def index_to_label_def declared_block_def block_to_viper_def
    following_labels_def assertE_def Let_def)

text \<open>The token that applying a wand inhales is the one the wand asks for.\<close>

theorem apply_token_agrees:
  assumes "borrow_id b < 2 ^ 63"
  shows "wand_borrow (Some b) = from_usize (of_nat (borrow_id b))"
proof -
  have "sint (of_nat (borrow_id b) :: 64 word) = int (borrow_id b)" "uint (of_nat (borrow_id b) :: 64 word) = int (borrow_id b)"
    using assms by (simp_all add: signed_of_nat unsigned_of_nat signed_take_bit_int_eq_self take_bit_int_eq_self take_bit_nat_eq_self)
  then show ?thesis by (simp add: wand_borrow_def from_isize_def from_usize_def)
qed

end
