(* ===== verification/Program_To_Viper.thy ===== *)
theory Program_To_Viper
  imports Cfg_To_Viper Opt_Program
begin

section \<open>Translation of programs to Viper (to_viper.rs)\<close>

text \<open>
  Predicates, functions, domains and bodyless methods, and the program with the function that stands for the amount
  of a read permission.  The settings are arguments, and so is the order in which the labels of a method are listed.
\<close>

definition option_to_viper :: "viper_config \<Rightarrow> expr option \<Rightarrow> string + viper_expr option" where
  "option_to_viper cf body =
     (case body of None \<Rightarrow> Inr None | Some b \<Rightarrow> bindE (expr_to_viper cf b) (\<lambda>b. Inr (Some b)))"

fun predicate_to_viper :: "viper_config \<Rightarrow> predicate \<Rightarrow> string + viper_predicate" where
  "predicate_to_viper cf (PStruct p) =
     bindE (option_to_viper cf (sp_body p)) (\<lambda>body.
     Inr \<lparr>vp_name = sp_name p, vp_formal_args = [var_to_viper_decl (sp_this p)], vp_body = body\<rparr>)"
| "predicate_to_viper cf (PEnum p) =
     bindE (expr_to_viper cf (enum_body p)) (\<lambda>body.
     Inr \<lparr>vp_name = ep_name p, vp_formal_args = [var_to_viper_decl (ep_this p)], vp_body = Some body\<rparr>)"
| "predicate_to_viper cf (PBodyless name this) =
     Inr \<lparr>vp_name = name, vp_formal_args = [var_to_viper_decl this], vp_body = None\<rparr>"

definition bodyless_to_viper :: "bodyless_method \<Rightarrow> viper_method" where
  "bodyless_to_viper m =
     \<lparr>vm_name = bm_name m, vm_formal_args = map var_to_viper_decl (bm_formal_args m),
      vm_formal_returns = map var_to_viper_decl (bm_formal_returns m), vm_body = None\<rparr>"

definition function_to_viper :: "viper_config \<Rightarrow> vfunction \<Rightarrow> string + viper_function" where
  "function_to_viper cf f =
     bindE (mapE (expr_to_viper cf) (fn_pres f)) (\<lambda>pres.
     bindE (mapE (expr_to_viper cf) (fn_posts f)) (\<lambda>posts.
     bindE (option_to_viper cf (fn_body f)) (\<lambda>body.
     Inr \<lparr>vf_name = function_get_identifier f, vf_formal_args = map var_to_viper_decl (fn_formal_args f),
       vf_typ = type_to_viper (fn_return_type f), vf_pres = pres, vf_posts = posts, vf_pos = NoPosition, vf_body = body\<rparr>)))"

definition axiom_to_viper :: "viper_config \<Rightarrow> domain_axiom \<Rightarrow> string + viper_axiom" where
  "axiom_to_viper cf a =
     bindE (expr_to_viper cf (da_expr a)) (\<lambda>e.
     Inr \<lparr>vx_name = da_name a, vx_expr = e, vx_domain_name = da_domain_name a\<rparr>)"

definition domain_to_viper :: "viper_config \<Rightarrow> vdomain \<Rightarrow> string + viper_domain" where
  "domain_to_viper cf d =
     bindE (mapE (axiom_to_viper cf) (dm_axioms d)) (\<lambda>axioms.
     Inr \<lparr>vd_name = dm_name d, vd_functions = map domain_func_to_viper (dm_functions d), vd_axioms = axioms,
       vd_type_vars = map type_to_viper (dm_type_vars d)\<rparr>)"

text \<open>The function \<open>read$\<close>: its result is between no permission and full permission.\<close>

definition read_function :: viper_function where
  "read_function =
     (let result = XResult VTPerm NoPosition in
      \<lparr>vf_name = ''read$'', vf_formal_args = [], vf_typ = VTPerm, vf_pres = [],
       vf_posts = [XBinExp XLtCmp XNoPerm result NoPosition, XBinExp XLtCmp result XFullPerm NoPosition],
       vf_pos = NoPosition, vf_body = None\<rparr>)"

record translation =
  tr_config :: viper_config
  tr_path_mode :: "path_mode option"
  tr_verify_only_preamble :: bool
  tr_label_order :: "cfg_method \<Rightarrow> string list"

definition program_to_viper :: "translation \<Rightarrow> vprogram \<Rightarrow> string + viper_program" where
  "program_to_viper tr p =
     (let cf = tr_config tr in
      bindE (mapE (domain_to_viper cf) (pg_domains p)) (\<lambda>domains.
      bindE (mapE (\<lambda>m. method_to_viper cf (tr_path_mode tr) (tr_label_order tr m) m) (pg_methods p)) (\<lambda>methods.
      let viper_methods = methods @ map bodyless_to_viper (pg_builtin_methods p);
          viper_methods = (if tr_verify_only_preamble tr then [] else viper_methods) in
      bindE (mapE (function_to_viper cf) (pg_functions p)) (\<lambda>functions.
      bindE (mapE (predicate_to_viper cf) (pg_viper_predicates p)) (\<lambda>predicates.
      Inr \<lparr>vpg_domains = domains, vpg_fields = map field_to_viper (pg_fields p),
        vpg_functions = functions @ [read_function], vpg_predicates = predicates, vpg_methods = viper_methods\<rparr>)))))"

subsection \<open>Names\<close>

lemma mapE_names:
  assumes "mapE f xs = Inr ys" "\<And>x y. f x = Inr y \<Longrightarrow> g y = h x"
  shows "map g ys = map h xs"
  using assms(1) by (induction xs arbitrary: ys) (auto dest: assms(2) split: sum.split_asm)

text \<open>The members of the Viper program are those of the program, in the same order and under the same names.\<close>

theorem program_to_viper_names:
  assumes "program_to_viper tr p = Inr vp" "\<not> tr_verify_only_preamble tr"
  shows "map vd_name (vpg_domains vp) = map dm_name (pg_domains p)"
    "map vfd_name (vpg_fields vp) = map fd_name (pg_fields p)"
    "map vf_name (vpg_functions vp) = map function_get_identifier (pg_functions p) @ [''read$'']"
    "map vp_name (vpg_predicates vp) = map predicate_name (pg_viper_predicates p)"
    "map vm_name (vpg_methods vp) = map cm_method_name (pg_methods p) @ map bm_name (pg_builtin_methods p)"
proof -
  obtain ds ms fs ps where parts: "mapE (domain_to_viper (tr_config tr)) (pg_domains p) = Inr ds"
      "mapE (\<lambda>m. method_to_viper (tr_config tr) (tr_path_mode tr) (tr_label_order tr m) m) (pg_methods p) = Inr ms"
      "mapE (function_to_viper (tr_config tr)) (pg_functions p) = Inr fs"
      "mapE (predicate_to_viper (tr_config tr)) (pg_viper_predicates p) = Inr ps"
    and vp: "vp = \<lparr>vpg_domains = ds, vpg_fields = map field_to_viper (pg_fields p), vpg_functions = fs @ [read_function],
       vpg_predicates = ps, vpg_methods = ms @ map bodyless_to_viper (pg_builtin_methods p)\<rparr>"
    using assms by (auto simp: program_to_viper_def Let_def fallible_simps)
  have "vd_name y = dm_name x" if "domain_to_viper (tr_config tr) x = Inr y" for x y
    using that by (auto simp: domain_to_viper_def fallible_simps)
  then show "map vd_name (vpg_domains vp) = map dm_name (pg_domains p)"
    using mapE_names [OF parts(1), of vd_name dm_name] by (simp add: vp)
  show "map vfd_name (vpg_fields vp) = map fd_name (pg_fields p)" by (simp add: vp field_to_viper_def)
  have "vf_name y = function_get_identifier x" if "function_to_viper (tr_config tr) x = Inr y" for x y
    using that by (auto simp: function_to_viper_def fallible_simps)
  then show "map vf_name (vpg_functions vp) = map function_get_identifier (pg_functions p) @ [''read$'']"
    using mapE_names [OF parts(3), of vf_name function_get_identifier] by (simp add: vp read_function_def Let_def)
  have "vp_name y = predicate_name x" if "predicate_to_viper (tr_config tr) x = Inr y" for x y
    using that by (cases x) (auto simp: fallible_simps)
  then show "map vp_name (vpg_predicates vp) = map predicate_name (pg_viper_predicates p)"
    using mapE_names [OF parts(4), of vp_name predicate_name] by (simp add: vp)
  have "vm_name y = cm_method_name x" if "method_to_viper (tr_config tr) (tr_path_mode tr) (tr_label_order tr x) x = Inr y" for x y
    using that by (auto simp: method_to_viper_def method_with_blocks_def fallible_simps)
  then show "map vm_name (vpg_methods vp) = map cm_method_name (pg_methods p) @ map bm_name (pg_builtin_methods p)"
    using mapE_names [OF parts(2), of vm_name cm_method_name] by (simp add: vp bodyless_to_viper_def)
qed

end
