(* ===== verification/Vir_Assigned.thy ===== *)
theory Vir_Assigned
  imports Vir_Cfg Fallible "HOL-Library.List_Lexorder" "HOL-Library.Char_ord"
begin

section \<open>Variables assigned in a part of the graph (cfg/assigned_vars.rs)\<close>

text \<open>
  The encoder of loops havocs the variables that the body of a loop assigns.  They are collected by a search along
  the incoming edges that starts at the last block of the body and does not pass the block in front of the
  loop.  The sets are lists, so variables that differ in their type only stay in the order in which they are found,
  which the code leaves open; \<open>None\<close> is an index out of bounds.
\<close>

fun check_block_stmt :: "stmt \<Rightarrow> local_var list \<Rightarrow> local_var list" where
  "check_block_stmt (SMethodCall _ _ targets) vars = hs_extend local_var_eq vars targets"
| "check_block_stmt (SAssign (ELocal var _) _ _) vars = hs_insert local_var_eq var vars"
| "check_block_stmt _ vars = vars"

definition check_block :: "cfg_block \<Rightarrow> local_var list \<Rightarrow> local_var list" where
  "check_block block vars = fold check_block_stmt (cb_stmts block) vars"

fun push_unmarked :: "nat list \<Rightarrow> nat list \<times> nat list \<Rightarrow> nat list \<times> nat list" where
  "push_unmarked [] st = st"
| "push_unmarked (p # ps) (marked, to_visit) =
     push_unmarked ps (if p \<in> set marked then (marked, to_visit) else (p # marked, p # to_visit))"

definition known_predecessors :: "cfg_method \<Rightarrow> nat \<Rightarrow> nat list" where
  "known_predecessors m current = (case predecessors m current of Some ps \<Rightarrow> ps | None \<Rightarrow> [])"

lemma push_unmarked_spec:
  "push_unmarked ps (marked, to_visit) = (marked', to_visit') \<Longrightarrow> \<exists>new. marked' = new @ marked \<and>
     to_visit' = new @ to_visit \<and> distinct new \<and> set new = set ps - set marked"
proof (induction ps arbitrary: marked to_visit)
  case (Cons p ps)
  show ?case
  proof (cases "p \<in> set marked")
    case True
    then show ?thesis using Cons.IH [of marked to_visit] Cons.prems by (auto simp: insert_absorb)
  next
    case False
    then obtain new where "marked' = new @ p # marked" "to_visit' = new @ p # to_visit" "distinct new"
      "set new = set ps - insert p (set marked)"
      using Cons.IH [of "p # marked" "p # to_visit"] Cons.prems by auto
    then show ?thesis using False by (intro exI [of _ "new @ [p]"]) auto
  qed
qed simp

lemma known_predecessors_set: "set (known_predecessors m j) = {i. (i, j) \<in> cfg_edges m}"
  by (auto simp: known_predecessors_def predecessors_eq edge_sources_set [symmetric])

lemma known_predecessors_range: "i \<in> set (known_predecessors m j) \<Longrightarrow> i < length (cm_basic_blocks m)"
  by (auto simp: known_predecessors_set cfg_edges_def)

definition unmarked :: "cfg_method \<Rightarrow> nat list \<Rightarrow> nat" where
  "unmarked m marked = card ({..<length (cm_basic_blocks m)} - set marked)"

lemma push_unmarked_measure:
  assumes "push_unmarked (known_predecessors m c) (marked, to_visit) = (marked', to_visit')"
  shows "2 * unmarked m marked' + length to_visit' \<le> 2 * unmarked m marked + length to_visit"
proof -
  let ?B = "{..<length (cm_basic_blocks m)}"
  from push_unmarked_spec [OF assms] obtain new where new: "marked' = new @ marked" "to_visit' = new @ to_visit"
    "distinct new" "set new = set (known_predecessors m c) - set marked" by blast
  then have "set new \<subseteq> ?B - set marked" using known_predecessors_range by blast
  moreover have "?B - set marked' = (?B - set marked) - set new" using new(1) by auto
  ultimately have "unmarked m marked' = unmarked m marked - card (set new)" "card (set new) \<le> unmarked m marked"
    unfolding unmarked_def by (auto intro: card_Diff_subset card_mono)
  then show ?thesis using new(2) distinct_card [OF new(3)] by simp
qed

function assigned_loop ::
  "cfg_method \<Rightarrow> local_var list \<Rightarrow> nat list \<Rightarrow> nat list \<Rightarrow> local_var list option" where
  "assigned_loop m variables marked [] = Some variables"
| "assigned_loop m variables marked (current # to_visit) =
     (let (marked', to_visit') = push_unmarked (known_predecessors m current) (marked, to_visit)
      in if current < length (cm_basic_blocks m)
         then assigned_loop m (check_block (cm_basic_blocks m ! current) variables) marked' to_visit'
         else None)"
  by pat_completeness auto
termination
proof (relation "measure (\<lambda>(m, vs, marked, to_visit). 2 * unmarked m marked + length to_visit)")
  fix m :: cfg_method and variables marked current to_visit x marked' to_visit'
  assume "x = push_unmarked (known_predecessors m current) (marked, to_visit)" "(marked', to_visit') = x"
  then have p: "push_unmarked (known_predecessors m current) (marked, to_visit) = (marked', to_visit')" by simp
  show "((m, check_block (cm_basic_blocks m ! current) variables, marked', to_visit'), m, variables, marked,
      current # to_visit) \<in> measure (\<lambda>(m, vs, marked, to_visit). 2 * unmarked m marked + length to_visit)"
    using push_unmarked_measure [OF p] by simp
qed simp

definition collect_assigned_vars :: "cfg_method \<Rightarrow> block_index \<Rightarrow> block_index \<Rightarrow> local_var list option" where
  "collect_assigned_vars m start_block end_block =
     map_option (sort_key lv_name)
       (assigned_loop m [] [bi_index start_block, bi_index end_block] [bi_index start_block])"

subsection \<open>What is collected\<close>

fun assigns :: "stmt \<Rightarrow> local_var set" where
  "assigns (SMethodCall _ _ targets) = set targets"
| "assigns (SAssign (ELocal var _) _ _) = {var}"
| "assigns _ = {}"

definition block_assigns :: "cfg_method \<Rightarrow> nat \<Rightarrow> local_var set" where
  "block_assigns m i = (\<Union>s \<in> set (cb_stmts (cm_basic_blocks m ! i)). assigns s)"

text \<open>The blocks from which a block is reached without passing the end block.\<close>

definition region :: "cfg_method \<Rightarrow> nat \<Rightarrow> nat \<Rightarrow> nat set" where
  "region m start end_index = {(j, i). (i, j) \<in> cfg_edges m \<and> i \<noteq> end_index}\<^sup>* `` {start}"

interpretation lvs: hash_keys local_var_eq
  by unfold_locales

lemma check_block_stmt_member:
  "hs_member local_var_eq (check_block_stmt s vars) v \<longleftrightarrow>
     hs_member local_var_eq vars v \<or> (\<exists>u \<in> assigns s. local_var_eq u v)"
  by (cases "(s, vars)" rule: check_block_stmt.cases)
     (auto simp: lvs.member_extend lv.member_insert local_var_eq_refl, auto simp: hs_member_def list_ex_iff)

lemma check_block_member:
  "hs_member local_var_eq (check_block b vars) v \<longleftrightarrow>
     hs_member local_var_eq vars v \<or> (\<exists>s \<in> set (cb_stmts b). \<exists>u \<in> assigns s. local_var_eq u v)"
proof -
  have "hs_member local_var_eq (fold check_block_stmt ss vars) v \<longleftrightarrow>
      hs_member local_var_eq vars v \<or> (\<exists>s \<in> set ss. \<exists>u \<in> assigns s. local_var_eq u v)" for ss
    by (induction ss arbitrary: vars) (auto simp: check_block_stmt_member)
  then show ?thesis by (simp add: check_block_def)
qed

lemma region_start: "start \<in> region m start e"
  by (simp add: region_def)

lemma region_step: "j \<in> region m start e \<Longrightarrow> (i, j) \<in> cfg_edges m \<Longrightarrow> i \<noteq> e \<Longrightarrow> i \<in> region m start e"
  by (auto simp: region_def intro: rtrancl_into_rtrancl)

lemma region_least:
  assumes "start \<in> X" "\<And>i j. j \<in> X \<Longrightarrow> (i, j) \<in> cfg_edges m \<Longrightarrow> i \<noteq> e \<Longrightarrow> i \<in> X"
  shows "region m start e \<subseteq> X"
proof -
  have "i \<in> X" if "(start, i) \<in> {(j, i). (i, j) \<in> cfg_edges m \<and> i \<noteq> e}\<^sup>*" for i
    using that by (induction rule: rtrancl_induct) (use assms in auto)
  then show ?thesis by (auto simp: region_def)
qed

text \<open>The marked blocks are the end block, those still to visit and those whose variables are collected.\<close>

lemma assigned_loop_spec:
  assumes "set marked = insert e (set to_visit \<union> done_blocks)" "done_blocks \<union> set to_visit \<subseteq> region m start e"
    and "start \<in> done_blocks \<union> set to_visit" "set marked \<subseteq> {..<length (cm_basic_blocks m)}"
    and "\<forall>j \<in> done_blocks. \<forall>i. (i, j) \<in> cfg_edges m \<longrightarrow> i \<in> set marked"
    and "\<forall>v. hs_member local_var_eq vars v \<longleftrightarrow> (\<exists>i \<in> done_blocks. \<exists>u \<in> block_assigns m i. local_var_eq u v)"
  shows "\<exists>vs. assigned_loop m vars marked to_visit = Some vs \<and>
    (\<forall>v. hs_member local_var_eq vs v \<longleftrightarrow> (\<exists>i \<in> region m start e. \<exists>u \<in> block_assigns m i. local_var_eq u v))"
  using assms
proof (induction m vars marked to_visit arbitrary: done_blocks rule: assigned_loop.induct)
  case (1 m vars marked)
  then have "region m start e \<subseteq> done_blocks" by (intro region_least) auto
  then show ?case using 1 by auto
next
  case (2 m vars marked c to_visit)
  let ?done = "insert c done_blocks"
  obtain marked' to_visit' where p: "push_unmarked (known_predecessors m c) (marked, to_visit) = (marked', to_visit')"
    by fastforce
  from push_unmarked_spec [OF p] obtain new where new: "marked' = new @ marked" "to_visit' = new @ to_visit"
    "set new = {i. (i, c) \<in> cfg_edges m} - set marked" by (auto simp: known_predecessors_set)
  have c: "c < length (cm_basic_blocks m)" using 2(2,5) by auto
  have "set new \<subseteq> region m start e" using new(3) 2(2,3) region_step [of c m start e] by auto
  moreover have "set new \<subseteq> {..<length (cm_basic_blocks m)}" using new(3) by (auto simp: cfg_edges_def)
  moreover have "\<forall>v. hs_member local_var_eq (check_block (cm_basic_blocks m ! c) vars) v \<longleftrightarrow>
      (\<exists>i \<in> ?done. \<exists>u \<in> block_assigns m i. local_var_eq u v)"
    using 2(7) by (auto simp: check_block_member block_assigns_def)
  moreover have "\<forall>j \<in> ?done. \<forall>i. (i, j) \<in> cfg_edges m \<longrightarrow> i \<in> set marked'" using 2(6) new by auto
  ultimately show ?case using 2(1) [OF p [symmetric] refl c, of ?done] 2(2-5) c p new by auto
qed

text \<open>
  The search ends without an index out of bounds; the collected variables are, up to equality of variables, exactly
  the targets of calls and assignments in the blocks from which the start block is reached without passing the
  end block, and they are sorted by name.
\<close>

theorem collect_assigned_vars_exact:
  assumes "bi_index s < length (cm_basic_blocks m)" "bi_index t < length (cm_basic_blocks m)"
  shows "\<exists>vs. collect_assigned_vars m s t = Some vs \<and> sorted (map lv_name vs) \<and>
    (\<forall>v. (\<exists>u \<in> set vs. local_var_eq u v) \<longleftrightarrow>
       (\<exists>i \<in> region m (bi_index s) (bi_index t). \<exists>u \<in> block_assigns m i. local_var_eq u v))"
proof -
  obtain vs where "assigned_loop m [] [bi_index s, bi_index t] [bi_index s] = Some vs"
    "\<forall>v. hs_member local_var_eq vs v \<longleftrightarrow>
       (\<exists>i \<in> region m (bi_index s) (bi_index t). \<exists>u \<in> block_assigns m i. local_var_eq u v)"
    using assigned_loop_spec [of "[bi_index s, bi_index t]" "bi_index t" "[bi_index s]" "{}" m "bi_index s" "[]"] assms
    by (auto simp: region_start hs_member_def simp del: assigned_loop.simps)
  then show ?thesis by (auto simp: collect_assigned_vars_def hs_member_def list_ex_iff)
qed

end
