(* ===== verification/Spec2Isabelle.thy ===== *)
theory Spec2Isabelle
  imports Vir_Hash Vir_Replace Opt_Inliner Opt_Predicates Opt_Folding Opt_Quantifiers Opt_Program Vir_Fixes Vir_Typing Fold_Unfold
    Name_Interner Spec_Roundtrip Program_To_Viper Vir_Assigned
begin

text \<open>
  Prusti verifies Rust programs by translating them to the intermediate verification language Viper.  This
  development models the middle of that pipeline: the Viper intermediate representation (VIR) of
  \<^verbatim>\<open>prusti-common/src/vir\<close>, the passes over it, the fold-unfold algorithm of
  \<^verbatim>\<open>prusti-viper/src/encoder/foldunfold\<close> that makes the permissions of a VIR method explicit, the translation of
  VIR to the syntax trees of Viper, and, at the front, the parser of specifications of \<^verbatim>\<open>prusti-specs\<close>.

  The parts and how they interact.

  \<^item> A macro of \<^verbatim>\<open>prusti-specs\<close> parses the specification of a Rust function into assertions (\<open>Spec_Parser\<close>).
  \<^item> The encoder of \<^verbatim>\<open>prusti-viper\<close> builds a VIR program from the MIR of the function and these assertions.  It
    is not modelled; what it calls is: the constructors of expressions, statements and methods, and the name
    interner.
  \<^item> \<open>Fold_Unfold\<close> rewrites each method block by block (\<open>Cfg_Replacer\<close>): the state of permissions along a path is
    \<open>Fu_State\<close>, the context of a path \<open>Fu_Path\<close>, and at a join point the contexts of the branches are made equal
    by \<open>Fu_Join\<close>.  Expressions get unfoldings in \<open>Fu_Replacer\<close>.
  \<^item> \<open>Vir_Fixes\<close> and the optimizations (\<open>Opt_Program\<close> calls all of them in the order of the code) rewrite the
    program, and \<open>Program_To_Viper\<close> translates it for the verifier.

  The theories and the code.  Every definition has the name of the code it translates, as far as Isabelle allows.

  \<^item> \<open>Prelude\<close>, \<open>Fallible\<close>, \<open>Graph_Search\<close>: what is shared.  Hash maps and sets keyed by a hand-written equality,
    traversals of lists that thread a state or can fail, numbers in names, \<open>Result\<close> with a panic, and the three
    searches over indexed nodes (cycles by in-degrees, depth-first topological order, paths) that
    \<^verbatim>\<open>cfg/method.rs\<close> and \<^verbatim>\<open>borrows.rs\<close> use.
  \<^item> \<open>Vir_Common\<close>, \<open>Vir_Expr\<close>, \<open>Vir_Place\<close>, \<open>Vir_Hash\<close>, \<open>Vir_Display\<close>, \<open>Vir_Transformers\<close>, \<open>Vir_Replace\<close>,
    \<open>Vir_Function\<close>, \<open>Vir_Predicate\<close>: \<^verbatim>\<open>vir/ast\<close>.  \<open>Vir_Stmt\<close>: statements, the reborrowing DAG of \<^verbatim>\<open>vir/borrows.rs\<close>
    and the traversals of statements.  \<open>Vir_Cfg\<close>: \<^verbatim>\<open>vir/cfg/method.rs\<close>.
    \<open>Vir_Assigned\<close>: \<^verbatim>\<open>vir/cfg/assigned_vars.rs\<close>, the variables that a loop has to havoc.
  \<^item> \<open>Opt_Simplifier\<close>, \<open>Opt_Inliner\<close> (\<^verbatim>\<open>optimizations/functions\<close>), \<open>Opt_Cfg_Cleaner\<close>, \<open>Opt_Methods\<close>, \<open>Opt_Purifier\<close>,
    \<open>Opt_Quantifiers\<close> (\<^verbatim>\<open>optimizations/methods\<close> and the visitors of \<^verbatim>\<open>cfg/visitor.rs\<close>), \<open>Opt_Folding\<close>,
    \<open>Opt_Purification\<close>, \<open>Opt_Predicates\<close> (the directories of these names), \<open>Opt_Program\<close> (\<^verbatim>\<open>program.rs\<close>,
    \<^verbatim>\<open>optimizations/mod.rs\<close> and its settings), \<open>Vir_Fixes\<close> (\<^verbatim>\<open>fixes/ghost_vars.rs\<close>).
  \<^item> \<open>Fu_Perm\<close> (\<^verbatim>\<open>perm.rs\<close>, \<^verbatim>\<open>action.rs\<close>), \<open>Fu_Places\<close> (\<^verbatim>\<open>places_utils.rs\<close>), \<open>Fu_State\<close> (\<^verbatim>\<open>state.rs\<close>), \<open>Fu_Log\<close>
    (\<^verbatim>\<open>log.rs\<close>), \<open>Fu_Footprint\<close> (\<^verbatim>\<open>footprint.rs\<close>, \<^verbatim>\<open>requirements.rs\<close>), \<open>Fu_Semantics\<close> (\<^verbatim>\<open>semantics.rs\<close>), \<open>Fu_Path\<close>,
    \<open>Fu_Join\<close> (\<^verbatim>\<open>path_ctxt.rs\<close>), \<open>Fu_Replacer\<close>, \<open>Fold_Unfold\<close> (\<^verbatim>\<open>mod.rs\<close>, \<^verbatim>\<open>borrows.rs\<close>,
    \<^verbatim>\<open>process_expire_borrows.rs\<close>), with \<open>Cfg_Replacer\<close> for the trait \<open>CfgReplacer\<close> of \<^verbatim>\<open>cfg/visitor.rs\<close>.
  \<^item> \<open>Viper_Ast\<close> (\<^verbatim>\<open>viper/src/ast_factory\<close>), \<open>Vir_To_Viper\<close>, \<open>Cfg_To_Viper\<close>, \<open>Program_To_Viper\<close> (\<^verbatim>\<open>to_viper.rs\<close> and
    \<^verbatim>\<open>cfg/to_viper.rs\<close>).
  \<^item> \<open>Name_Interner\<close> (\<^verbatim>\<open>encoder/name_interner.rs\<close>), \<open>Spec_Common\<close> and \<open>Spec_Parser\<close>
    (\<^verbatim>\<open>prusti-specs/src/specifications/common.rs\<close> and \<^verbatim>\<open>preparser.rs\<close>).
  \<^item> \<open>Vir_Semantics\<close>, \<open>Vir_Typing\<close>, \<open>Vir_Unfolding\<close>, \<open>Vir_Triggers\<close>, \<open>Cfg_Ghost\<close> and \<open>Spec_Roundtrip\<close> hold no code:
    they are the specifications the properties need.
\<close>

text \<open>
  How the code is modelled.  Structs are records and enums are datatypes.  A Rust panic (an unwrap, a failed
  assertion, an index out of bounds) is an error value: \<open>None\<close> where nothing else can fail, and the panic
  constructor of an error type where the code has errors of its own.  A hash map or a hash set is a list in
  the order of insertion, looked up with the equality the code defines; where the code iterates over one, the
  order of the model is one of the possible orders.  Recursion that is not structural has a termination proof.
  Only four recursions run on fuel.  \<open>obtain_perm\<close> calls itself on requirements that the predicates of the program
  produce, and \<open>replace_stmt\<close> on the statements of expiring borrows; whether that ends depends on the program, so
  their fuel is an argument, running out of it is the failure \<open>NoFuel\<close>, which is no outcome of the code, and the
  properties hold for every fuel.  The debugging mode that follows a path of blocks gets the number of blocks, which is
  enough because each round removes one, and the parser gets five times the size of the tokens and five more, which
  is proved to be enough.  The search for a fresh name is a partial function without fuel, and
  it is proved to return.

  Integers are kept at their width where the width matters: the counters of fresh names, of package statements and
  of the event log are words of 32 bits that wrap around, and so are conversions of Rust integers.  The depth of a
  place (a \<open>u32\<close>), the in-degrees of \<open>has_loops\<close> (an \<open>i32\<close>) and vector indices are natural numbers or integers:
  they count parts of a value that is in memory.

  What is not code of the repository is an argument: the regular expressions of the type parameter substitution, what
  \<open>syn\<close> answers for the tokens of an expression, and the simplifier of Silver.  So are settings, the text of the
  comments that replace a statement, the order in which labels are listed, and the facts about borrows that the
  fold-unfold algorithm asks the encoder for.  A hypothesis about them is part of the property that uses it.

  Debug assertions are modelled where they state what a component keeps: the consistency check of the permission
  state and the assertions of the name interner, each under an argument that turns them on.  Those of the other files of
  \<^verbatim>\<open>foldunfold\<close> and of \<^verbatim>\<open>vir/ast\<close>, conditions on arguments such as being a place, are left out unless a theory says otherwise, so the
  models behave like a release build there.  The default traversals of expressions do not enter the triggers of
  quantifiers; neither do the models, and \<open>Vir_Triggers\<close> says what that means for a property about all
  names or calls of an expression.
\<close>

text \<open>
  What the lemmas show.

  \<^item> Data: equality is a partial equivalence with a known domain (\<open>Vir_Expr\<close>), consistent with the hash
    (\<open>Vir_Hash\<close>); the prefix relation of places is a tree order (\<open>Vir_Place\<close>); purification removes exactly the
    permissions (\<open>Vir_Transformers\<close>).
  \<^item> Meaning: \<open>Vir_Semantics\<close> evaluates expressions to values or \<open>None\<close> (not well defined).  The simplifier, the
    inlining of function bodies, the inliner of constant functions and the translation to Viper keep it, and
    \<open>get_type\<close> tells the kind of the value (\<open>Vir_Typing\<close>).
  \<^item> Control flow: a trace of a method is what can be observed of a run: statements and the guards that are tested.
    The invariant of methods (\<open>Vir_Cfg\<close>) holds after every operation; the graph searches are exact, the
    variables assigned in a loop are all collected; the merging of blocks
    and the removal of trivial assertions keep the traces, and the labels and jumps of the translated method
    have the same ones (\<open>Cfg_To_Viper\<close>).
  \<^item> Ghost code: stripping unfoldings from an expression (\<open>Vir_Unfolding\<close>) and erasing ghost statements from a method
    (\<open>Cfg_Ghost\<close>) undo the folding optimizer, the unfoldings added to functions, and fold-unfold for methods.  The
    block replacer keeps the edges whatever it is used for (\<open>Cfg_Replacer\<close>).
  \<^item> Permissions: the footprint of a struct predicate is exact, fold and unfold undo each other at the full amount, framing
    restores what was framed, obtain grants what it reports, and the join leaves equal permissions.
  \<^item> Names: fresh names, interned names, ghost variables of packages and numbers of events do not clash;
    unused predicates and variables and constant functions leave no dangling name, under the conditions
    that are stated with each property.
  \<^item> Specifications: parsing ends, and it reads back what a printer with minimal parentheses prints.

  Where the code does not do what it says or means, a theorem at the end of the theory runs it on a concrete
  input that shows it: for example \<open>inline_keeps_trigger_calls\<close>, \<open>remove_unused_vars_dangling\<close>,
  \<open>replace_cfg_self_loop_panics\<close>, \<open>obtain_ignores_amount\<close>, \<open>restore_keeps_old_access\<close> or
  \<open>generic_arguments_are_rejected\<close>.

  Interfaces.  The locales state what a client needs of a component (an equality on keys, a comparison that sorts, a
  replacer that only adds ghost code, the two finishing functions of the join), and each is
  interpreted on the definitions of the code that the client calls.

  What is not modelled: the printing of statements, methods and programs, the Graphviz and JSON output, logging
  and the calls through the Java native interface, which only do input and output; the encoder itself (MIR to VIR, types,
  snapshots, errors) and \<^verbatim>\<open>prusti-interface\<close>, which are written over the data structures of the Rust compiler; the
  procedural macros around the parser of specifications, which are written over \<open>syn\<close> and \<open>quote\<close>; the verification
  server, the launchers and the bindings to Viper; the static analyses of \<^verbatim>\<open>analysis\<close>, which work on MIR; and the
  second VIR of \<^verbatim>\<open>vir\<close> and \<^verbatim>\<open>vir-gen\<close>, which the verifier does not use.
\<close>

end
